(* ===== verification/Prelude.thy ===== *)
theory Prelude
  imports Complex_Main "HOL-Library.Sublist" "HOL-Library.AList" "HOL-Library.Word"
begin

text \<open>
  Shared ground of the development: the JavaScript values the package computes with (numbers,
  strings, ordered maps and sets, plain data values), and the lemmas about them that the
  component theories use.

  Conventions.
  \<^item> A JavaScript string is its UTF-8 encoding, a \<^typ>\<open>string\<close> with one \<^typ>\<open>char\<close> per byte.
    So a length taken in the model is a byte length; the sources that measure \<open>TextEncoder\<close>
    byte lengths are modelled exactly, and where a source reads \<open>.length\<close> or slices (UTF-16
    units) the theory that models it says so. Case mapping is ASCII, except where a regular
    expression has the flags \<open>iu\<close> (\<open>Redaction\<close>, \<open>UriPath\<close>).
  \<^item> A number is an exact rational or one of the three non-finite values; IEEE rounding is not
    modelled.
  \<^item> A \<open>Map\<close> is an association list in insertion order (\<open>AList.update\<close> keeps the position of
    an existing key, as \<open>Map.prototype.set\<close> does); a \<open>Set\<close> is a list without duplicates.
  \<^item> A thrown exception is the left of a sum type.
\<close>

named_theorems om_simps \<open>facts on insertion-ordered maps and sets\<close>
named_theorems str_simps \<open>facts on string operations\<close>

section \<open>Numbers\<close>

datatype jnum = Fin rat | PosInf | NegInf | NaN

definition num :: "int \<Rightarrow> jnum" where
  "num i = Fin (of_int i)"

definition is_finite :: "jnum \<Rightarrow> bool" where
  "is_finite x = (case x of Fin _ \<Rightarrow> True | _ \<Rightarrow> False)"

definition is_int_rat :: "rat \<Rightarrow> bool" where
  "is_int_rat q = (of_int \<lfloor>q\<rfloor> = q)"

definition is_integer :: "jnum \<Rightarrow> bool" where
  "is_integer x = (case x of Fin q \<Rightarrow> is_int_rat q | _ \<Rightarrow> False)"

definition max_safe :: int where
  "max_safe = 9007199254740991"

definition is_safe_integer :: "jnum \<Rightarrow> bool" where
  "is_safe_integer x =
     (case x of Fin q \<Rightarrow> is_int_rat q \<and> \<bar>q\<bar> \<le> of_int max_safe | _ \<Rightarrow> False)"

fun num_lt :: "jnum \<Rightarrow> jnum \<Rightarrow> bool" where
  "num_lt NaN _ = False"
| "num_lt _ NaN = False"
| "num_lt PosInf _ = False"
| "num_lt _ NegInf = False"
| "num_lt NegInf _ = True"
| "num_lt _ PosInf = True"
| "num_lt (Fin a) (Fin b) = (a < b)"

fun num_le :: "jnum \<Rightarrow> jnum \<Rightarrow> bool" where
  "num_le NaN _ = False"
| "num_le _ NaN = False"
| "num_le NegInf _ = True"
| "num_le _ PosInf = True"
| "num_le PosInf _ = False"
| "num_le _ NegInf = False"
| "num_le (Fin a) (Fin b) = (a \<le> b)"

text \<open>\<open>Math.round\<close>: the nearest integer, halves upwards.\<close>

definition round_half_up :: "rat \<Rightarrow> int" where
  "round_half_up q = \<lfloor>q + 1 / 2\<rfloor>"

text \<open>The value of a number already known to be finite.\<close>

definition num_val :: "jnum \<Rightarrow> rat" where
  "num_val x = (case x of Fin q \<Rightarrow> q | _ \<Rightarrow> 0)"

lemma num_val_Fin [simp]: "num_val (Fin q) = q"
  by (simp add: num_val_def)

lemma is_finite_iff: "is_finite x \<longleftrightarrow> (\<exists>q. x = Fin q)"
  by (cases x) (auto simp: is_finite_def)

lemma is_finite_Fin [simp]: "is_finite (Fin q)"
  by (simp add: is_finite_def)

lemma is_integer_imp_finite: "is_integer x \<Longrightarrow> is_finite x"
  by (cases x) (auto simp: is_finite_def is_integer_def)

lemma is_int_rat_of_int [simp]: "is_int_rat (of_int i)"
  by (simp add: is_int_rat_def)

lemma is_int_rat_of_nat [simp]: "is_int_rat (of_nat n)"
  by (metis is_int_rat_of_int of_int_of_nat_eq)

lemma is_int_rat_iff: "is_int_rat q \<longleftrightarrow> (\<exists>i. q = of_int i)"
  by (metis is_int_rat_def is_int_rat_of_int)

lemma round_half_up_mono: "a \<le> b \<Longrightarrow> round_half_up a \<le> round_half_up b"
  by (simp add: round_half_up_def floor_mono)

lemma round_half_up_of_int [simp]: "round_half_up (of_int i) = i"
  by (simp add: round_half_up_def floor_eq_iff)

lemma round_half_up_nonneg: "0 \<le> q \<Longrightarrow> 0 \<le> round_half_up q"
  by (simp add: round_half_up_def)

section \<open>Insertion-ordered maps and sets\<close>

type_synonym ('k, 'v) omap = "('k \<times> 'v) list"

abbreviation om_get :: "('k, 'v) omap \<Rightarrow> 'k \<Rightarrow> 'v option" where
  "om_get m k \<equiv> map_of m k"

abbreviation om_set :: "'k \<Rightarrow> 'v \<Rightarrow> ('k, 'v) omap \<Rightarrow> ('k, 'v) omap" where
  "om_set \<equiv> AList.update"

abbreviation om_del :: "'k \<Rightarrow> ('k, 'v) omap \<Rightarrow> ('k, 'v) omap" where
  "om_del \<equiv> AList.delete"

definition om_has :: "('k, 'v) omap \<Rightarrow> 'k \<Rightarrow> bool" where
  "om_has m k = (map_of m k \<noteq> None)"

definition om_ok :: "('k, 'v) omap \<Rightarrow> bool" where
  "om_ok m = distinct (map fst m)"

definition os_add :: "'a \<Rightarrow> 'a list \<Rightarrow> 'a list" where
  "os_add x s = (if x \<in> set s then s else s @ [x])"

lemma om_has_iff: "om_has m k \<longleftrightarrow> k \<in> fst ` set m"
  by (simp add: om_has_def map_of_eq_None_iff)

lemma om_get_set [om_simps, simp]: "om_get (om_set k v m) j = (if j = k then Some v else om_get m j)"
  by (simp add: update_conv')

lemma om_get_del [om_simps, simp]: "om_get (om_del k m) j = (if j = k then None else om_get m j)"
  by (simp add: delete_conv')

lemma om_ok_Nil [om_simps, simp]: "om_ok []"
  by (simp add: om_ok_def)

lemma om_ok_set [om_simps, simp]: "om_ok m \<Longrightarrow> om_ok (om_set k v m)"
  by (simp add: om_ok_def distinct_update)

lemma om_ok_del [om_simps, simp]: "om_ok m \<Longrightarrow> om_ok (om_del k m)"
  by (simp add: om_ok_def distinct_delete)

lemma om_set_fresh: "\<not> om_has m k \<Longrightarrow> om_set k v m = m @ [(k, v)]"
  by (induction m) (auto simp: om_has_iff)

lemma length_om_set:
  "length (om_set k v m) = (if om_has m k then length m else Suc (length m))"
  by (induction m) (auto simp: om_has_iff)

lemma length_om_del_has: "om_has m k \<Longrightarrow> length (om_del k m) < length m"
proof (induction m)
  case (Cons a m)
  then show ?case
    using length_delete_le [of k m] by (cases a) (auto simp: om_has_iff)
qed (simp add: om_has_iff)

lemma os_add_distinct [om_simps, simp]: "distinct s \<Longrightarrow> distinct (os_add x s)"
  by (simp add: os_add_def)

lemma set_os_add [om_simps, simp]: "set (os_add x s) = insert x (set s)"
  by (auto simp: os_add_def)

section \<open>Strings\<close>

definition to_lower_char :: "char \<Rightarrow> char" where
  "to_lower_char c =
     (let n = of_char c :: nat in if 65 \<le> n \<and> n \<le> 90 then char_of (n + 32) else c)"

definition to_lower :: "string \<Rightarrow> string" where
  "to_lower s = map to_lower_char s"

text \<open>\<open>indexOf\<close>: the first position at which the needle occurs.\<close>

fun index_of :: "'a list \<Rightarrow> 'a list \<Rightarrow> nat option" where
  "index_of [] p = (if p = [] then Some 0 else None)"
| "index_of (x # xs) p =
     (if prefix p (x # xs) then Some 0 else map_option Suc (index_of xs p))"

definition str_includes :: "'a list \<Rightarrow> 'a list \<Rightarrow> bool" where
  "str_includes s p = (index_of s p \<noteq> None)"

text \<open>\<open>split(sep)\<close> on a single character.\<close>

fun split_char :: "'a \<Rightarrow> 'a list \<Rightarrow> 'a list list" where
  "split_char c [] = [[]]"
| "split_char c (x # xs) =
     (if x = c then [] # split_char c xs
      else (case split_char c xs of [] \<Rightarrow> [[x]] | l # ls \<Rightarrow> (x # l) # ls))"

fun join_with :: "'a list \<Rightarrow> 'a list list \<Rightarrow> 'a list" where
  "join_with sep [] = []"
| "join_with sep [x] = x"
| "join_with sep (x # y # ys) = x @ sep @ join_with sep (y # ys)"

text \<open>
  \<open>trim\<close>: JavaScript's WhiteSpace and LineTerminator characters, each given by its UTF-8
  encoding.
\<close>

definition ws_encodings :: "string list" where
  "ws_encodings =
     map (map char_of)
       ([[9], [10], [11], [12], [13], [32], [0xC2, 0xA0], [0xE1, 0x9A, 0x80],
         [0xE2, 0x80, 0x80], [0xE2, 0x80, 0x81], [0xE2, 0x80, 0x82], [0xE2, 0x80, 0x83],
         [0xE2, 0x80, 0x84], [0xE2, 0x80, 0x85], [0xE2, 0x80, 0x86], [0xE2, 0x80, 0x87],
         [0xE2, 0x80, 0x88], [0xE2, 0x80, 0x89], [0xE2, 0x80, 0x8A], [0xE2, 0x80, 0xA8],
         [0xE2, 0x80, 0xA9], [0xE2, 0x80, 0xAF], [0xE2, 0x81, 0x9F], [0xE3, 0x80, 0x80],
         [0xEF, 0xBB, 0xBF]] :: nat list list)"

function strip_prefixes :: "'a list list \<Rightarrow> 'a list \<Rightarrow> 'a list" where
  "strip_prefixes ps s =
     (case find (\<lambda>p. p \<noteq> [] \<and> prefix p s) ps of
        None \<Rightarrow> s
      | Some p \<Rightarrow> strip_prefixes ps (drop (length p) s))"
  by pat_completeness auto
termination
  by (relation "measure (\<lambda>(ps, s). length s)") (auto simp: find_Some_iff prefix_def)

declare strip_prefixes.simps [simp del]

definition trim_start :: "string \<Rightarrow> string" where
  "trim_start s = strip_prefixes ws_encodings s"

definition trim_end :: "string \<Rightarrow> string" where
  "trim_end s = rev (strip_prefixes (map rev ws_encodings) (rev s))"

definition trim :: "string \<Rightarrow> string" where
  "trim s = trim_end (trim_start s)"

lemma index_of_Some:
  "index_of s p = Some i \<Longrightarrow> prefix p (drop i s) \<and> i + length p \<le> length s"
proof (induction s p arbitrary: i rule: index_of.induct)
  case (1 p)
  then show ?case by (auto split: if_splits)
next
  case (2 x xs p)
  show ?case
  proof (cases "prefix p (x # xs)")
    case True
    with 2 show ?thesis by (auto dest: prefix_length_le)
  next
    case False
    with 2 show ?thesis by auto
  qed
qed

lemma all_le_Suc: "(\<forall>i. i \<le> Suc n \<longrightarrow> P i) \<longleftrightarrow> P 0 \<and> (\<forall>i. i \<le> n \<longrightarrow> P (Suc i))"
  by (metis Suc_le_mono not0_implies_Suc zero_le)

lemma index_of_None: "index_of s p = None \<longleftrightarrow> (\<forall>i. i \<le> length s \<longrightarrow> \<not> prefix p (drop i s))"
proof (induction s p rule: index_of.induct)
  case (1 p)
  then show ?case by auto
next
  case (2 x xs p)
  then show ?case by (cases "prefix p (x # xs)") (simp_all add: all_le_Suc)
qed

text \<open>A position found is the first one.\<close>

lemma index_of_least: "index_of s p = Some i \<Longrightarrow> j < i \<Longrightarrow> \<not> prefix p (drop j s)"
proof (induction s p arbitrary: i j rule: index_of.induct)
  case (1 p)
  then show ?case by (auto split: if_splits)
next
  case (2 x xs p)
  show ?case
  proof (cases "prefix p (x # xs)")
    case True
    with 2 show ?thesis by simp
  next
    case False
    with 2 show ?thesis by (cases j) auto
  qed
qed

lemma index_of_eqI:
  assumes "prefix p (drop i s)" and "i \<le> length s" and "\<And>j. j < i \<Longrightarrow> \<not> prefix p (drop j s)"
  shows "index_of s p = Some i"
proof (cases "index_of s p")
  case None
  with assms(1,2) show ?thesis by (simp add: index_of_None)
next
  case (Some k)
  have "\<not> k < i" using index_of_Some [OF Some] assms(3) by blast
  moreover have "\<not> i < k" using index_of_least [OF Some] assms(1) by blast
  ultimately show ?thesis using Some by simp
qed

subsection \<open>Splitting and joining\<close>

lemma split_char_nonempty [simp]: "split_char c s \<noteq> []"
  by (induction s) (auto split: list.splits)

lemma split_char_no_sep: "l \<in> set (split_char c s) \<Longrightarrow> c \<notin> set l"
  by (induction s arbitrary: l) (auto split: if_splits list.splits)

lemma join_with_head: "join_with sep ((x # l) # ls) = x # join_with sep (l # ls)"
  by (cases ls) simp_all

lemma join_with_Nil_head: "ls \<noteq> [] \<Longrightarrow> join_with sep ([] # ls) = sep @ join_with sep ls"
  by (cases ls) simp_all

lemma join_split: "join_with [c] (split_char c s) = s"
proof (induction s)
  case (Cons x s)
  then show ?case
    by (cases "split_char c s") (auto simp: join_with_head join_with_Nil_head simp del: join_with.simps)
qed simp

lemma split_char_append:
  "c \<notin> set l \<Longrightarrow> split_char c (l @ c # s) = l # split_char c s"
  by (induction l) auto

lemma split_char_single: "c \<notin> set l \<Longrightarrow> split_char c l = [l]"
  by (induction l) auto

subsection \<open>Trimming\<close>

lemma strip_prefixes_stop:
  "find (\<lambda>p. p \<noteq> [] \<and> prefix p s) ps = None \<Longrightarrow> strip_prefixes ps s = s"
  by (simp add: strip_prefixes.simps [of ps s])

lemma strip_prefixes_step:
  "find (\<lambda>p. p \<noteq> [] \<and> prefix p s) ps = Some q \<Longrightarrow>
   strip_prefixes ps s = strip_prefixes ps (drop (length q) s)"
  by (simp add: strip_prefixes.simps [of ps s])

lemma strip_prefixes_none:
  "p \<in> set ps \<Longrightarrow> p \<noteq> [] \<Longrightarrow> \<not> prefix p (strip_prefixes ps s)"
proof (induction ps s rule: strip_prefixes.induct)
  case (1 ps s)
  show ?case
  proof (cases "find (\<lambda>p. p \<noteq> [] \<and> prefix p s) ps")
    case None
    with "1.prems" show ?thesis by (auto simp: strip_prefixes_stop find_None_iff)
  next
    case (Some q)
    with 1 show ?thesis by (simp add: strip_prefixes_step)
  qed
qed

lemma strip_prefixes_id:
  "(\<And>p. p \<in> set ps \<Longrightarrow> p \<noteq> [] \<Longrightarrow> \<not> prefix p s) \<Longrightarrow> strip_prefixes ps s = s"
  by (rule strip_prefixes_stop) (auto simp: find_None_iff)

lemma strip_prefixes_suffix: "suffix (strip_prefixes ps s) s"
proof (induction ps s rule: strip_prefixes.induct)
  case (1 ps s)
  show ?case
  proof (cases "find (\<lambda>p. p \<noteq> [] \<and> prefix p s) ps")
    case None
    then show ?thesis by (simp add: strip_prefixes_stop)
  next
    case (Some q)
    with 1 have "suffix (strip_prefixes ps (drop (length q) s)) (drop (length q) s)" by blast
    also have "suffix (drop (length q) s) s" by (rule suffix_drop)
    finally show ?thesis using Some by (simp add: strip_prefixes_step)
  qed
qed

lemma strip_prefixes_idem: "strip_prefixes ps (strip_prefixes ps s) = strip_prefixes ps s"
  by (rule strip_prefixes_id) (rule strip_prefixes_none)

lemma trim_end_prefix: "prefix (trim_end s) s"
  using strip_prefixes_suffix [of "map rev ws_encodings" "rev s"]
  by (simp add: trim_end_def suffix_to_prefix)

lemma trim_idem [str_simps, simp]: "trim (trim s) = trim s"
proof -
  have "\<not> prefix p (trim s)" if "p \<in> set ws_encodings" "p \<noteq> []" for p
    using strip_prefixes_none [OF that, of s] trim_end_prefix [of "trim_start s"]
    by (auto simp: trim_def trim_start_def intro: prefix_order.trans)
  then have "trim_start (trim s) = trim s"
    by (simp add: trim_start_def strip_prefixes_id)
  moreover have "trim_end (trim s) = trim s"
    by (simp add: trim_def trim_end_def strip_prefixes_idem)
  ultimately show ?thesis by (simp add: trim_def)
qed

lemma trim_keep:
  assumes "s \<noteq> []" and "hd s \<notin> hd ` set ws_encodings" and "last s \<notin> last ` set ws_encodings"
  shows "trim s = s"
proof -
  have "trim_start s = s"
    unfolding trim_start_def using assms(1,2)
    by (intro strip_prefixes_id) (auto simp: prefix_def hd_append)
  moreover have "trim_end s = s"
    unfolding trim_end_def using assms(1,3)
    by (subst strip_prefixes_id) (auto simp: prefix_def rev_eq_append_conv last_append)
  ultimately show ?thesis by (simp add: trim_def)
qed

definition graph_char :: "char \<Rightarrow> bool" where
  "graph_char c = (32 < (of_char c :: nat) \<and> (of_char c :: nat) < 127)"

lemma trim_graph: "s \<noteq> [] \<Longrightarrow> graph_char (hd s) \<Longrightarrow> graph_char (last s) \<Longrightarrow> trim s = s"
  by (rule trim_keep) (auto simp: graph_char_def ws_encodings_def)

lemma trim_length: "length (trim s) \<le> length s"
proof -
  have "length (trim s) \<le> length (trim_start s)"
    using trim_end_prefix [of "trim_start s"] by (auto simp: trim_def dest: prefix_length_le)
  also have "\<dots> \<le> length s"
    by (simp add: trim_start_def strip_prefixes_suffix suffix_length_le)
  finally show ?thesis .
qed

lemma to_lower_idem [str_simps, simp]: "to_lower (to_lower s) = to_lower s"
proof -
  have "to_lower_char (to_lower_char c) = to_lower_char c" for c
    by (simp add: to_lower_char_def Let_def)
  then show ?thesis by (simp add: to_lower_def)
qed

lemma length_to_lower [str_simps, simp]: "length (to_lower s) = length s"
  by (simp add: to_lower_def)

section \<open>Numerals\<close>

text \<open>A number in decimal, as template literals and \<open>String\<close> print an integer.\<close>

fun show_nat :: "nat \<Rightarrow> string" where
  "show_nat n =
     (if n < 10 then [char_of (48 + n)] else show_nat (n div 10) @ [char_of (48 + n mod 10)])"

declare show_nat.simps [simp del]

definition show_int :: "int \<Rightarrow> string" where
  "show_int i = (if i < 0 then CHR ''-'' # show_nat (nat (- i)) else show_nat (nat i))"

definition is_digit :: "char \<Rightarrow> bool" where
  "is_digit c = (48 \<le> (of_char c :: nat) \<and> (of_char c :: nat) \<le> 57)"

definition digit_val :: "char \<Rightarrow> nat" where
  "digit_val c = of_char c - 48"

definition digits_val :: "string \<Rightarrow> nat" where
  "digits_val ds = foldl (\<lambda>n d. n * 10 + digit_val d) 0 ds"

lemma digits_val_append:
  "digits_val (ds @ [d]) = digits_val ds * 10 + digit_val d"
  by (simp add: digits_val_def)

lemma show_nat_digits: "\<forall>c \<in> set (show_nat n). is_digit c"
proof (induction n rule: show_nat.induct)
  case (1 n)
  then show ?case
    by (subst show_nat.simps) (auto simp: is_digit_def)
qed

lemma show_nat_nonempty [simp]: "show_nat n \<noteq> []"
  by (subst show_nat.simps) simp

lemma digits_val_show_nat [simp]: "digits_val (show_nat n) = n"
proof (induction n rule: show_nat.induct)
  case (1 n)
  show ?case
  proof (cases "n < 10")
    case True
    then show ?thesis by (subst show_nat.simps) (simp add: digits_val_def digit_val_def)
  next
    case False
    with 1 have "digits_val (show_nat (n div 10)) = n div 10" by blast
    with False show ?thesis
      by (subst show_nat.simps) (simp add: digits_val_append digit_val_def)
  qed
qed

text \<open>No leading zero, but for zero itself.\<close>

lemma show_nat_hd: "0 < n \<Longrightarrow> hd (show_nat n) \<noteq> CHR ''0''"
proof (induction n rule: show_nat.induct)
  case (1 n)
  show ?case
  proof (cases "n < 10")
    case True
    with "1.prems" have "char_of (48 + n) \<noteq> char_of (48 :: nat)"
      using True by simp
    moreover have "char_of (48 :: nat) = CHR ''0''" by (simp add: char_of_def bit_simps)
    ultimately show ?thesis using True by (subst show_nat.simps) auto
  next
    case False
    with 1 have "hd (show_nat (n div 10)) \<noteq> CHR ''0''" by auto
    with False show ?thesis by (subst show_nat.simps) simp
  qed
qed

lemma show_nat_0 [simp]: "show_nat 0 = ''0''"
  by (subst show_nat.simps) (simp add: char_of_def bit_simps)

end
