(* ===== verification/Json.thy ===== *)
theory Json
  imports Prelude
begin

text \<open>
  Plain data values (what \<open>JSON.parse\<close> builds and \<open>JSON.stringify\<close> prints), the guards of
  \<open>src/core/data/guards.ts\<close> over them, and the two standard functions themselves: a printer
  \<open>json_text\<close> and a recursive-descent parser \<open>json_parse\<close> of the JSON grammar. The parser is
  fuelled; \<open>parse_fuel_enough\<close> shows that the fuel \<open>json_parse\<close> gives never runs out, and
  \<open>json_roundtrip\<close> that parsing undoes printing on values whose numbers are safe integers;
  \<open>json_text_printable\<close> says that a printed value has no control character, which is what the
  line framing rests on. An object is its own enumerable properties in order; the engine's ascending order
  of integer-like keys is not modelled.
\<close>

datatype jv =
    JUndef
  | JNull
  | JBool bool
  | JNum jnum
  | JStr string
  | JArr "jv list"
  | JObj "(string, jv) omap"

section \<open>Reading values\<close>

text \<open>\<open>value[key]\<close> and \<open>hasOwnProperty\<close> on a data value.\<close>

definition get_prop :: "jv \<Rightarrow> string \<Rightarrow> jv" where
  "get_prop v k = (case v of JObj m \<Rightarrow> (case om_get m k of Some x \<Rightarrow> x | None \<Rightarrow> JUndef) | _ \<Rightarrow> JUndef)"

definition has_own :: "jv \<Rightarrow> string \<Rightarrow> bool" where
  "has_own v k = (case v of JObj m \<Rightarrow> om_has m k | _ \<Rightarrow> False)"

definition is_plain_object :: "jv \<Rightarrow> bool" where
  "is_plain_object v = (case v of JObj _ \<Rightarrow> True | _ \<Rightarrow> False)"

definition is_js_object :: "jv \<Rightarrow> bool" where
  "is_js_object v = (case v of JObj _ \<Rightarrow> True | JArr _ \<Rightarrow> True | _ \<Rightarrow> False)"

definition truthy :: "jv \<Rightarrow> bool" where
  "truthy v = (case v of JUndef \<Rightarrow> False | JNull \<Rightarrow> False | JBool b \<Rightarrow> b
     | JNum x \<Rightarrow> x \<noteq> Fin 0 \<and> x \<noteq> NaN | JStr s \<Rightarrow> s \<noteq> [] | _ \<Rightarrow> True)"

text \<open>\<open>a ?? b\<close>.\<close>

definition nullish :: "jv \<Rightarrow> bool" where
  "nullish v = (v = JUndef \<or> v = JNull)"

definition coalesce :: "jv \<Rightarrow> jv \<Rightarrow> jv" where
  "coalesce a b = (if nullish a then b else a)"

section \<open>The guards of core/data/guards.ts\<close>

definition isRecord :: "jv \<Rightarrow> bool" where
  "isRecord v = (truthy v \<and> is_js_object v)"

definition asString :: "jv \<Rightarrow> string option" where
  "asString v =
     (case v of JStr s \<Rightarrow> if 0 < length (trim s) then Some (trim s) else None | _ \<Rightarrow> None)"

definition asNumber :: "jv \<Rightarrow> jnum option" where
  "asNumber v = (case v of JNum x \<Rightarrow> if is_finite x then Some x else None | _ \<Rightarrow> None)"

definition asStringArray :: "jv \<Rightarrow> string list" where
  "asStringArray v =
     (case v of
        JArr vs \<Rightarrow> map the (filter (\<lambda>e. case e of Some s \<Rightarrow> s \<noteq> [] | None \<Rightarrow> False) (map asString vs))
      | _ \<Rightarrow> [])"

definition asBoolean :: "jv \<Rightarrow> bool option" where
  "asBoolean v = (case v of JBool b \<Rightarrow> Some b | _ \<Rightarrow> None)"

lemma asString_Some: "asString v = Some s \<Longrightarrow> s \<noteq> [] \<and> trim s = s"
  by (auto simp: asString_def split: jv.splits if_splits)

lemma asStringArray_clean: "s \<in> set (asStringArray v) \<Longrightarrow> s \<noteq> [] \<and> trim s = s"
  by (auto simp: asStringArray_def split: jv.splits option.splits dest: asString_Some [OF sym])

lemma asNumber_Some: "asNumber v = Some x \<Longrightarrow> is_finite x"
  by (auto simp: asNumber_def split: jv.splits if_splits)

section \<open>Printing\<close>

definition hex_digit :: "nat \<Rightarrow> char" where
  "hex_digit n = (if n < 10 then char_of (48 + n) else char_of (87 + n))"

definition esc_char :: "char \<Rightarrow> string" where
  "esc_char c =
     (let n = of_char c :: nat in
      if n = 34 then [char_of (92::nat), char_of (34::nat)]
      else if n = 92 then [char_of (92::nat), char_of (92::nat)]
      else if n = 8 then [char_of (92::nat), CHR ''b'']
      else if n = 12 then [char_of (92::nat), CHR ''f'']
      else if n = 10 then [char_of (92::nat), CHR ''n'']
      else if n = 13 then [char_of (92::nat), CHR ''r'']
      else if n = 9 then [char_of (92::nat), CHR ''t'']
      else if n < 32 then
        [char_of (92::nat), CHR ''u'', CHR ''0'', CHR ''0'', hex_digit (n div 16), hex_digit (n mod 16)]
      else [c])"

definition quote :: "string \<Rightarrow> string" where
  "quote s = char_of (34::nat) # concat (map esc_char s) @ [char_of (34::nat)]"

fun frac_text :: "nat \<Rightarrow> rat \<Rightarrow> string" where
  "frac_text 0 q = []"
| "frac_text (Suc n) q =
     (if q = 0 then [] else show_nat (nat \<lfloor>q * 10\<rfloor>) @ frac_text n (q * 10 - of_int \<lfloor>q * 10\<rfloor>))"

definition num_text :: "jnum \<Rightarrow> string" where
  "num_text x =
     (case x of
        Fin q \<Rightarrow>
          if is_int_rat q then show_int \<lfloor>q\<rfloor>
          else (if q < 0 then ''-'' else []) @ show_nat (nat \<lfloor>\<bar>q\<bar>\<rfloor>) @ ''.'' @
               frac_text 20 (\<bar>q\<bar> - of_int \<lfloor>\<bar>q\<bar>\<rfloor>)
      | _ \<Rightarrow> ''null'')"

fun json_text :: "jv \<Rightarrow> string"
  and json_items :: "bool \<Rightarrow> jv list \<Rightarrow> string"
  and json_members :: "bool \<Rightarrow> (string \<times> jv) list \<Rightarrow> string" where
  "json_text JUndef = ''null''"
| "json_text JNull = ''null''"
| "json_text (JBool b) = (if b then ''true'' else ''false'')"
| "json_text (JNum x) = num_text x"
| "json_text (JStr s) = quote s"
| "json_text (JArr vs) = ''['' @ json_items True vs @ '']''"
| "json_text (JObj m) = ''{'' @ json_members True m @ ''}''"
| "json_items first [] = []"
| "json_items first (v # vs) = (if first then [] else '','') @ json_text v @ json_items False vs"
| "json_members first [] = []"
| "json_members first ((k, v) # m) =
     (if v = JUndef then json_members first m
      else (if first then [] else '','') @ quote k @ '':'' @ json_text v @ json_members False m)"

text \<open>\<open>JSON.stringify\<close>: undefined for \<open>undefined\<close>.\<close>

definition json_stringify :: "jv \<Rightarrow> string option" where
  "json_stringify v = (if v = JUndef then None else Some (json_text v))"

section \<open>Parsing\<close>

definition is_json_ws :: "char \<Rightarrow> bool" where
  "is_json_ws c = (of_char c \<in> ({9, 10, 13, 32} :: nat set))"

definition skip_ws :: "string \<Rightarrow> string" where
  "skip_ws s = dropWhile is_json_ws s"

definition hex_val :: "char \<Rightarrow> nat option" where
  "hex_val c =
     (let n = of_char c :: nat in
      if 48 \<le> n \<and> n \<le> 57 then Some (n - 48)
      else if 97 \<le> n \<and> n \<le> 102 then Some (n - 87)
      else if 65 \<le> n \<and> n \<le> 70 then Some (n - 55)
      else None)"

fun read_hex4 :: "string \<Rightarrow> nat option" where
  "read_hex4 (a # b # c # d # _) =
     (case (hex_val a, hex_val b, hex_val c, hex_val d) of
        (Some w, Some x, Some y, Some z) \<Rightarrow> Some (((w * 16 + x) * 16 + y) * 16 + z)
      | _ \<Rightarrow> None)"
| "read_hex4 _ = None"

definition utf8_encode :: "nat \<Rightarrow> string" where
  "utf8_encode n =
     (if n < 128 then [char_of n]
      else if n < 2048 then [char_of (192 + n div 64), char_of (128 + n mod 64)]
      else if n < 65536 then
        [char_of (224 + n div 4096), char_of (128 + n div 64 mod 64), char_of (128 + n mod 64)]
      else
        [char_of (240 + n div 262144), char_of (128 + n div 4096 mod 64),
         char_of (128 + n div 64 mod 64), char_of (128 + n mod 64)])"

definition simple_escape :: "char \<Rightarrow> char option" where
  "simple_escape e =
     (let n = of_char e :: nat in
      if n = 34 \<or> n = 92 \<or> n = 47 then Some e
      else if e = CHR ''b'' then Some (char_of (8::nat))
      else if e = CHR ''f'' then Some (char_of (12::nat))
      else if e = CHR ''n'' then Some (char_of (10::nat))
      else if e = CHR ''r'' then Some (char_of (13::nat))
      else if e = CHR ''t'' then Some (char_of (9::nat))
      else None)"

definition cons_text :: "string \<Rightarrow> (string \<times> string) option \<Rightarrow> (string \<times> string) option" where
  "cons_text t r = map_option (\<lambda>(u, s). (t @ u, s)) r"

text \<open>The six characters of a low-surrogate escape, if they come next.\<close>

definition low_surrogate :: "string \<Rightarrow> nat option" where
  "low_surrogate s =
     (case s of
        a # b # r \<Rightarrow>
          if of_char a = (92::nat) \<and> b = CHR ''u'' then
            (case read_hex4 r of
               Some lo \<Rightarrow> if 56320 \<le> lo \<and> lo \<le> 57343 then Some lo else None
             | None \<Rightarrow> None)
          else None
      | _ \<Rightarrow> None)"

fun parse_chars :: "string \<Rightarrow> (string \<times> string) option" where
  "parse_chars [] = None"
| "parse_chars (c # s) =
     (if of_char c = (34::nat) then Some ([], s)
      else if of_char c = (92::nat) then
        (case s of
           [] \<Rightarrow> None
         | e # r \<Rightarrow>
             (case simple_escape e of
                Some x \<Rightarrow> cons_text [x] (parse_chars r)
              | None \<Rightarrow>
                  if e = CHR ''u'' then
                    (case read_hex4 r of
                       None \<Rightarrow> None
                     | Some hi \<Rightarrow>
                         if 55296 \<le> hi \<and> hi \<le> 56319 then
                           (case low_surrogate (drop 4 r) of
                              Some lo \<Rightarrow>
                                cons_text (utf8_encode (65536 + (hi - 55296) * 1024 + (lo - 56320)))
                                  (parse_chars (drop 10 r))
                            | None \<Rightarrow> cons_text (utf8_encode hi) (parse_chars (drop 4 r)))
                         else cons_text (utf8_encode hi) (parse_chars (drop 4 r)))
                  else None))
      else if of_char c < (32::nat) then None
      else cons_text [c] (parse_chars s))"

definition take_digits :: "string \<Rightarrow> string" where
  "take_digits s = takeWhile is_digit s"

definition parse_frac :: "string \<Rightarrow> (string \<times> string) option" where
  "parse_frac s =
     (case s of
        c # r \<Rightarrow>
          if c = CHR ''.'' then
            (if take_digits r = [] then None
             else Some (take_digits r, drop (length (take_digits r)) r))
          else Some ([], s)
      | [] \<Rightarrow> Some ([], s))"

definition parse_exp :: "string \<Rightarrow> (int \<times> string) option" where
  "parse_exp s =
     (case s of
        c # r \<Rightarrow>
          if c = CHR ''e'' \<or> c = CHR ''E'' then
            (let (sg, t) = (case r of
                 d # r' \<Rightarrow> if d = CHR ''-'' then (-1, r') else if d = CHR ''+'' then (1, r') else (1, r)
               | [] \<Rightarrow> (1, r));
               ds = take_digits t
             in if ds = [] then None else Some (sg * int (digits_val ds), drop (length ds) t))
          else Some (0, s)
      | [] \<Rightarrow> Some (0, s))"

definition pow10 :: "int \<Rightarrow> rat" where
  "pow10 e = (if 0 \<le> e then 10 ^ nat e else 1 / 10 ^ nat (- e))"

definition num_sign :: "string \<Rightarrow> rat \<times> string" where
  "num_sign s = (case s of c # r \<Rightarrow> if c = CHR ''-'' then (-1, r) else (1, s) | [] \<Rightarrow> (1, s))"

definition parse_number :: "string \<Rightarrow> (jnum \<times> string) option" where
  "parse_number s =
     (let (sg, t) = num_sign s;
          ds = take_digits t
      in if ds = [] \<or> (hd ds = CHR ''0'' \<and> length ds \<noteq> 1) then None
         else case parse_frac (drop (length ds) t) of
             None \<Rightarrow> None
           | Some (fs, u) \<Rightarrow>
               (case parse_exp u of
                  None \<Rightarrow> None
                | Some (e, w) \<Rightarrow>
                    Some (Fin (sg * (of_nat (digits_val ds)
                      + of_nat (digits_val fs) / 10 ^ length fs) * pow10 e), w)))"

fun parse_value :: "nat \<Rightarrow> string \<Rightarrow> (jv \<times> string) option"
  and parse_items :: "nat \<Rightarrow> jv list \<Rightarrow> string \<Rightarrow> (jv \<times> string) option"
  and parse_members :: "nat \<Rightarrow> (string, jv) omap \<Rightarrow> string \<Rightarrow> (jv \<times> string) option" where
  "parse_value 0 s = None"
| "parse_value (Suc n) s =
     (case skip_ws s of
        [] \<Rightarrow> None
      | c # r \<Rightarrow>
          if c = CHR ''{'' then
            (case skip_ws r of
               [] \<Rightarrow> None
             | d # r' \<Rightarrow> if d = CHR ''}'' then Some (JObj [], r') else parse_members n [] (d # r'))
          else if c = CHR ''['' then
            (case skip_ws r of
               [] \<Rightarrow> None
             | d # r' \<Rightarrow> if d = CHR '']'' then Some (JArr [], r') else parse_items n [] (d # r'))
          else if of_char c = (34::nat) then map_option (\<lambda>(t, r'). (JStr t, r')) (parse_chars r)
          else if prefix ''true'' (c # r) then Some (JBool True, drop 4 (c # r))
          else if prefix ''false'' (c # r) then Some (JBool False, drop 5 (c # r))
          else if prefix ''null'' (c # r) then Some (JNull, drop 4 (c # r))
          else map_option (\<lambda>(x, r'). (JNum x, r')) (parse_number (c # r)))"
| "parse_items 0 acc s = None"
| "parse_items (Suc n) acc s =
     (case parse_value n s of
        None \<Rightarrow> None
      | Some (v, r) \<Rightarrow>
          (case skip_ws r of
             [] \<Rightarrow> None
           | c # r' \<Rightarrow>
               if c = CHR '','' then parse_items n (acc @ [v]) r'
               else if c = CHR '']'' then Some (JArr (acc @ [v]), r')
               else None))"
| "parse_members 0 acc s = None"
| "parse_members (Suc n) acc s =
     (case skip_ws s of
        [] \<Rightarrow> None
      | q # r0 \<Rightarrow>
          if of_char q \<noteq> (34::nat) then None
          else (case parse_chars r0 of
             None \<Rightarrow> None
           | Some (k, r1) \<Rightarrow>
               (case skip_ws r1 of
                  [] \<Rightarrow> None
                | col # r2 \<Rightarrow>
                    if col \<noteq> CHR '':'' then None
                    else (case parse_value n r2 of
                       None \<Rightarrow> None
                     | Some (v, r3) \<Rightarrow>
                         (case skip_ws r3 of
                            [] \<Rightarrow> None
                          | c # r4 \<Rightarrow>
                              if c = CHR '','' then parse_members n (om_set k v acc) r4
                              else if c = CHR ''}'' then Some (JObj (om_set k v acc), r4)
                              else None)))))"

text \<open>\<open>JSON.parse\<close>: \<open>None\<close> where it throws a SyntaxError.\<close>

definition json_parse :: "string \<Rightarrow> jv option" where
  "json_parse s =
     (case parse_value (2 * length s + 2) s of
        Some (v, r) \<Rightarrow> if skip_ws r = [] then Some v else None
      | None \<Rightarrow> None)"

section \<open>The fuel of the parser is enough\<close>

lemma skip_ws_length: "length (skip_ws s) \<le> length s"
  by (simp add: skip_ws_def length_dropWhile_le)

lemma skip_ws_Cons_length: "skip_ws s = c # r \<Longrightarrow> length r < length s"
  using skip_ws_length [of s] by auto

lemma cons_text_Some: "cons_text t r = Some (u, s) \<Longrightarrow> \<exists>w. r = Some (w, s)"
  by (auto simp: cons_text_def)

lemma parse_chars_length: "parse_chars s = Some (t, r) \<Longrightarrow> length r < length s"
proof (induction s arbitrary: t r rule: length_induct)
  case (1 s)
  show ?case
  proof (cases s)
    case Nil
    with 1 show ?thesis by simp
  next
    case (Cons c s')
    have IH: "parse_chars x = Some (w, r) \<Longrightarrow> length x < length s \<Longrightarrow> length r < length x" for x w
      using 1 by blast
    show ?thesis
    proof (cases "of_char c = (92::nat)")
      case True
      have IH': "parse_chars x = Some (w, r) \<Longrightarrow> length x \<le> length s' \<Longrightarrow> length r \<le> length s'" for x w
        using IH [of x w] Cons by force
      show ?thesis
        using 1(2) Cons True
        by (auto split: list.splits option.splits if_splits dest!: cons_text_Some dest!: IH')
    next
      case False
      then show ?thesis
        using 1(2) Cons IH [of s']
        by (auto split: if_splits dest!: cons_text_Some)
    qed
  qed
qed

lemma parse_frac_length: "parse_frac s = Some (f, r) \<Longrightarrow> length r \<le> length s"
  by (auto simp: parse_frac_def split: list.splits if_splits)

lemma parse_exp_length: "parse_exp s = Some (e, r) \<Longrightarrow> length r \<le> length s"
  by (auto simp: parse_exp_def Let_def split: list.splits if_splits)

lemma parse_number_length:
  assumes "parse_number s = Some (x, r)"
  shows "length r < length s"
proof -
  define t where "t = snd (num_sign s)"
  have t: "length t \<le> length s" by (auto simp: t_def num_sign_def split: list.splits)
  define ds where "ds = take_digits t"
  from assms obtain fs u e where
      "ds \<noteq> []" and f: "parse_frac (drop (length ds) t) = Some (fs, u)" and g: "parse_exp u = Some (e, r)"
    unfolding parse_number_def Let_def case_prod_unfold t_def ds_def
    by (auto split: if_splits option.splits simp: prod_eq_iff)
  have "length ds \<le> length t" by (simp add: ds_def take_digits_def length_takeWhile_le)
  moreover have "0 < length ds" using \<open>ds \<noteq> []\<close> by simp
  moreover have "length r \<le> length t - length ds"
    using parse_exp_length [OF g] parse_frac_length [OF f] by simp
  ultimately show ?thesis using t by linarith
qed

text \<open>What one unfolding of each of the three parsers says when it succeeds.\<close>

lemma parse_items_SucD:
  assumes "parse_items (Suc n) acc s = Some (v, r)"
  obtains w t c u where "parse_value n s = Some (w, t)" "skip_ws t = c # u"
    "(c = CHR '','' \<and> parse_items n (acc @ [w]) u = Some (v, r)) \<or> u = r"
  using assms by (auto split: option.splits prod.splits list.splits if_splits)

lemma parse_members_SucD:
  assumes "parse_members (Suc n) acc s = Some (v, r)"
  obtains q r0 k r1 col r2 w r3 c r4 where "skip_ws s = q # r0" "parse_chars r0 = Some (k, r1)"
    "skip_ws r1 = col # r2" "parse_value n r2 = Some (w, r3)" "skip_ws r3 = c # r4"
    "(c = CHR '','' \<and> parse_members n (om_set k w acc) r4 = Some (v, r)) \<or> r4 = r"
  using assms by (auto split: option.splits prod.splits list.splits if_splits)

lemma parse_value_SucD:
  assumes "parse_value (Suc n) s = Some (v, r)"
  obtains c t where "skip_ws s = c # t"
    "(\<exists>d u. skip_ws t = d # u \<and> (u = r \<or> parse_members n [] (d # u) = Some (v, r) \<or>
        parse_items n [] (d # u) = Some (v, r))) \<or>
     (\<exists>w. parse_chars t = Some (w, r)) \<or> r = drop 4 (c # t) \<or> r = drop 5 (c # t) \<or>
     (\<exists>x. parse_number (c # t) = Some (x, r))"
  using assms by (fastforce split: option.splits prod.splits list.splits if_splits)

lemma parse_length_all:
  "(\<forall>s v r. parse_value n s = Some (v, r) \<longrightarrow> length r < length s) \<and>
   (\<forall>acc s v r. parse_items n acc s = Some (v, r) \<longrightarrow> length r < length s) \<and>
   (\<forall>acc s v r. parse_members n acc s = Some (v, r) \<longrightarrow> length r < length s)"
proof (induction n)
  case (Suc n)
  have V: "length r < length s" if "parse_value (Suc n) s = Some (v, r)" for s v r
    using that
  proof (rule parse_value_SucD)
    fix c t
    assume ct: "skip_ws s = c # t"
    have 1: "length t < length s" by (rule skip_ws_Cons_length [OF ct])
    assume "(\<exists>d u. skip_ws t = d # u \<and> (u = r \<or> parse_members n [] (d # u) = Some (v, r) \<or>
        parse_items n [] (d # u) = Some (v, r))) \<or>
     (\<exists>w. parse_chars t = Some (w, r)) \<or> r = drop 4 (c # t) \<or> r = drop 5 (c # t) \<or>
     (\<exists>x. parse_number (c # t) = Some (x, r))"
    moreover have "length r < length s" if "skip_ws t = d # u" "u = r \<or>
        parse_members n [] (d # u) = Some (v, r) \<or> parse_items n [] (d # u) = Some (v, r)" for d u
    proof -
      have "length r < length (d # u)" using that(2) Suc.IH by fastforce
      also have "\<dots> \<le> length t" using that(1) skip_ws_length [of t] by simp
      finally show ?thesis using 1 by simp
    qed
    moreover have "length r < length s" if "parse_number (c # t) = Some (x, r)" for x
      using parse_number_length [OF that] 1 by simp
    ultimately show ?thesis
      using 1 by (auto dest: parse_chars_length)
  qed
  moreover have "length r < length s" if "parse_items (Suc n) acc s = Some (v, r)" for acc s v r
    using that
  proof (rule parse_items_SucD)
    fix w t c u
    assume "parse_value n s = Some (w, t)" "skip_ws t = c # u"
      "(c = CHR '','' \<and> parse_items n (acc @ [w]) u = Some (v, r)) \<or> u = r"
    then have "length t < length s" "length u < length t" "length r \<le> length u"
      using Suc.IH skip_ws_Cons_length by (blast, blast, fastforce)
    then show ?thesis by simp
  qed
  moreover have "length r < length s" if "parse_members (Suc n) acc s = Some (v, r)" for acc s v r
    using that
  proof (rule parse_members_SucD)
    fix q r0 k r1 col r2 w r3 c r4
    assume "skip_ws s = q # r0" "parse_chars r0 = Some (k, r1)" "skip_ws r1 = col # r2"
      "parse_value n r2 = Some (w, r3)" "skip_ws r3 = c # r4"
      "(c = CHR '','' \<and> parse_members n (om_set k w acc) r4 = Some (v, r)) \<or> r4 = r"
    then have "length r0 < length s" "length r1 < length r0" "length r2 < length r1"
      "length r3 < length r2" "length r4 < length r3" "length r \<le> length r4"
      using Suc.IH skip_ws_Cons_length parse_chars_length
      by (blast, blast, blast, blast, blast, fastforce)
    then show ?thesis by simp
  qed
  ultimately show ?case by blast
qed simp

lemma parse_value_length: "parse_value n s = Some (v, r) \<Longrightarrow> length r < length s"
  using parse_length_all [of n] by blast

lemma parse_fuel_all:
  "(\<forall>m s. 2 * length s + 2 \<le> n \<longrightarrow> 2 * length s + 2 \<le> m \<longrightarrow> parse_value n s = parse_value m s) \<and>
   (\<forall>m acc s. 2 * length s + 3 \<le> n \<longrightarrow> 2 * length s + 3 \<le> m \<longrightarrow> parse_items n acc s = parse_items m acc s) \<and>
   (\<forall>m acc s. 2 * length s + 3 \<le> n \<longrightarrow> 2 * length s + 3 \<le> m \<longrightarrow>
      parse_members n acc s = parse_members m acc s)"
proof (induction n)
  case (Suc n)
  have V: "parse_value n s = parse_value m s" if "2 * length s + 2 \<le> n" "2 * length s + 2 \<le> m" for m s
    using Suc.IH that by blast
  have I: "parse_items n acc s = parse_items m acc s"
    if "2 * length s + 3 \<le> n" "2 * length s + 3 \<le> m" for m acc s
    using Suc.IH that by blast
  have M: "parse_members n acc s = parse_members m acc s"
    if "2 * length s + 3 \<le> n" "2 * length s + 3 \<le> m" for m acc s
    using Suc.IH that by blast
  have "parse_value (Suc n) s = parse_value m s"
    if b: "2 * length s + 2 \<le> Suc n" "2 * length s + 2 \<le> m" for m s
  proof -
    obtain m' where m: "m = Suc m'" using b by (cases m) auto
    show ?thesis
    proof (cases "skip_ws s")
      case (Cons c t)
      have "parse_members n [] (d # u) = parse_members m' [] (d # u)"
        "parse_items n [] (d # u) = parse_items m' [] (d # u)" if "skip_ws t = d # u" for d u
        using b m skip_ws_Cons_length [OF Cons] skip_ws_length [of t] that
        by (auto intro!: M I)
      then show ?thesis by (simp add: m Cons split: list.split)
    qed (simp add: m)
  qed
  moreover have "parse_items (Suc n) acc s = parse_items m acc s"
    if b: "2 * length s + 3 \<le> Suc n" "2 * length s + 3 \<le> m" for m acc s
  proof -
    obtain m' where m: "m = Suc m'" using b by (cases m) auto
    have v: "parse_value n s = parse_value m' s" using b m by (intro V) auto
    have "parse_items n a u = parse_items m' a u"
      if "parse_value m' s = Some (w, t)" "skip_ws t = c # u" for a w t c u
      using b m parse_value_length [OF that(1)] skip_ws_Cons_length [OF that(2)] by (intro I) auto
    then show ?thesis by (simp add: m v split: option.split prod.split list.split)
  qed
  moreover have "parse_members (Suc n) acc s = parse_members m acc s"
    if b: "2 * length s + 3 \<le> Suc n" "2 * length s + 3 \<le> m" for m acc s
  proof -
    obtain m' where m: "m = Suc m'" using b by (cases m) auto
    have v: "parse_value n r2 = parse_value m' r2"
      if "skip_ws s = q # r0" "parse_chars r0 = Some (k, r1)" "skip_ws r1 = col # r2" for q r0 k r1 col r2
      using b m skip_ws_Cons_length [OF that(1)] parse_chars_length [OF that(2)]
        skip_ws_Cons_length [OF that(3)] by (intro V) auto
    have "parse_members n a r4 = parse_members m' a r4"
      if "skip_ws s = q # r0" "parse_chars r0 = Some (k, r1)" "skip_ws r1 = col # r2"
        "parse_value m' r2 = Some (w, r3)" "skip_ws r3 = c # r4" for a q r0 k r1 col r2 w r3 c r4
      using b m skip_ws_Cons_length [OF that(1)] parse_chars_length [OF that(2)]
        skip_ws_Cons_length [OF that(3)] parse_value_length [OF that(4)]
        skip_ws_Cons_length [OF that(5)] by (intro M) auto
    with v show ?thesis by (simp add: m split: option.split prod.split list.split)
  qed
  ultimately show ?case by blast
qed simp

lemma parse_fuel_enough:
  "2 * length s + 2 \<le> n \<Longrightarrow> parse_value n s = parse_value (2 * length s + 2) s"
  using parse_fuel_all [of n] by blast

section \<open>Parsing undoes printing\<close>

text \<open>The values the round trip is about: no \<open>undefined\<close>, safe-integer numbers, distinct keys.\<close>

fun json_plain :: "jv \<Rightarrow> bool"
  and plain_items :: "jv list \<Rightarrow> bool"
  and plain_members :: "(string \<times> jv) list \<Rightarrow> bool" where
  "json_plain JUndef = False"
| "json_plain JNull = True"
| "json_plain (JBool b) = True"
| "json_plain (JNum x) = is_safe_integer x"
| "json_plain (JStr s) = True"
| "json_plain (JArr vs) = plain_items vs"
| "json_plain (JObj m) = (distinct (map fst m) \<and> plain_members m)"
| "plain_items [] = True"
| "plain_items (v # vs) = (json_plain v \<and> plain_items vs)"
| "plain_members [] = True"
| "plain_members ((k, v) # m) = (json_plain v \<and> plain_members m)"

lemma hex_val_digit [simp]: "k < 16 \<Longrightarrow> hex_val (hex_digit k) = Some k"
  by (auto simp: hex_val_def hex_digit_def Let_def)

lemma read_hex4_control:
  "n < 256 \<Longrightarrow> read_hex4 (CHR ''0'' # CHR ''0'' # hex_digit (n div 16) # hex_digit (n mod 16) # s) = Some n"
proof -
  assume "n < 256"
  then have "n div 16 < 16" by auto
  moreover have "hex_val CHR ''0'' = Some 0" by (simp add: hex_val_def)
  ultimately show ?thesis by simp
qed

lemma parse_chars_esc: "parse_chars (esc_char c @ s) = cons_text [c] (parse_chars s)"
proof -
  define n where "n = (of_char c :: nat)"
  have c: "c = char_of n" by (simp add: n_def)
  have n: "n < 256" by (simp add: n_def)
  have sp: "simple_escape (char_of (34::nat)) = Some (char_of (34::nat))"
    "simple_escape (char_of (92::nat)) = Some (char_of (92::nat))"
    "simple_escape CHR ''b'' = Some (char_of (8::nat))"
    "simple_escape CHR ''f'' = Some (char_of (12::nat))"
    "simple_escape CHR ''n'' = Some (char_of (10::nat))"
    "simple_escape CHR ''r'' = Some (char_of (13::nat))"
    "simple_escape CHR ''t'' = Some (char_of (9::nat))"
    "simple_escape CHR ''u'' = None"
    by (simp_all add: simple_escape_def)
  consider "n = 34" | "n = 92" | "n = 8" | "n = 12" | "n = 10" | "n = 13" | "n = 9"
    | "n < 32" "n \<notin> {8, 9, 10, 12, 13}" | "32 \<le> n" "n \<noteq> 34" "n \<noteq> 92"
    by auto linarith
  then show ?thesis
  proof cases
    case 8
    then have e: "esc_char c = [char_of (92::nat), CHR ''u'', CHR ''0'', CHR ''0'',
        hex_digit (n div 16), hex_digit (n mod 16)]"
      by (auto simp: esc_char_def c Let_def n)
    have "parse_chars (esc_char c @ s) = cons_text (utf8_encode n) (parse_chars s)"
      using 8 n by (simp add: e sp read_hex4_control del: read_hex4.simps)
    moreover have "utf8_encode n = [c]" using 8 by (simp add: utf8_encode_def c)
    ultimately show ?thesis by simp
  next
    case 9
    then show ?thesis using n by (simp add: esc_char_def c Let_def)
  qed (simp_all add: esc_char_def c Let_def sp)
qed

lemma parse_chars_quote:
  "parse_chars (concat (map esc_char t) @ char_of (34::nat) # s) = Some (t, s)"
  by (induction t) (simp_all add: parse_chars_esc cons_text_def)

text \<open>What may follow a number without being read as part of it.\<close>

definition num_delim :: "string \<Rightarrow> bool" where
  "num_delim r = (r = [] \<or> (\<not> is_digit (hd r) \<and> hd r \<noteq> CHR ''.'' \<and> hd r \<noteq> CHR ''e'' \<and> hd r \<noteq> CHR ''E''))"

lemma take_digits_append:
  "\<forall>c \<in> set ds. is_digit c \<Longrightarrow> num_delim r \<Longrightarrow> take_digits (ds @ r) = ds"
  by (cases r) (auto simp: take_digits_def num_delim_def takeWhile_append)

lemma parse_frac_delim: "num_delim r \<Longrightarrow> parse_frac r = Some ([], r)"
  by (auto simp: parse_frac_def num_delim_def split: list.splits)

lemma parse_exp_delim: "num_delim r \<Longrightarrow> parse_exp r = Some (0, r)"
  by (auto simp: parse_exp_def num_delim_def split: list.splits)

lemma take_digits_show_nat: "num_delim r \<Longrightarrow> take_digits (show_nat n @ r) = show_nat n"
  by (rule take_digits_append [OF show_nat_digits])

lemma show_nat_no_leading_zero: "\<not> (hd (show_nat n) = CHR ''0'' \<and> length (show_nat n) \<noteq> 1)"
  using show_nat_hd [of n] by (cases "n = 0") auto

lemmas parse_nat_text = parse_frac_delim parse_exp_delim take_digits_show_nat

lemma show_nat_Cons: "\<exists>c t. show_nat n = c # t \<and> is_digit c"
  using show_nat_digits [of n] by (cases "show_nat n") auto

lemma digit_not: "is_digit c \<Longrightarrow> c \<noteq> CHR ''-''"
  by (auto simp: is_digit_def)

lemma num_sign_show_nat: "num_sign (show_nat n @ r) = (1, show_nat n @ r)"
  using show_nat_Cons [of n] digit_not by (auto simp: num_sign_def)

lemma parse_number_show_int:
  assumes "num_delim r"
  shows "parse_number (show_int i @ r) = Some (Fin (of_int i), r)"
proof (cases "i < 0")
  case True
  then show ?thesis
    using show_nat_no_leading_zero [of "nat (- i)"] assms
    by (auto simp: num_sign_def parse_nat_text parse_number_def show_int_def pow10_def
        digits_val_def [of "[]"])
next
  case False
  then show ?thesis
    using show_nat_no_leading_zero [of "nat i"] assms
    by (auto simp: num_sign_show_nat parse_nat_text parse_number_def show_int_def pow10_def
        digits_val_def [of "[]"])
qed

lemma dquote_char: "char_of (34::nat) = CHR 0x22"
  by (simp add: char_of_def bit_simps)

text \<open>The first character of a printed value decides the parser's branch.\<close>

lemma json_text_head:
  assumes "json_plain v"
  shows "\<exists>c t. json_text v = c # t \<and> \<not> is_json_ws c \<and> c \<noteq> CHR '']'' \<and> c \<noteq> CHR ''}''"
proof (cases v)
  case (JNum x)
  with assms obtain i where "x = Fin (of_int i)"
    by (auto simp: is_safe_integer_def is_int_rat_iff split: jnum.splits)
  then have t: "json_text v = show_int i" by (simp add: JNum num_text_def)
  have d: "\<not> is_json_ws c \<and> c \<noteq> CHR '']'' \<and> c \<noteq> CHR ''}''" if "is_digit c" for c
    using that by (auto simp: is_digit_def is_json_ws_def)
  show ?thesis
    using t d show_nat_Cons [of "nat i"] by (auto simp: show_int_def is_json_ws_def)
qed (use assms in \<open>auto simp: quote_def is_json_ws_def dquote_char\<close>)

lemma skip_ws_text:
  "json_plain v \<Longrightarrow> skip_ws (json_text v @ r) = json_text v @ r"
  using json_text_head [of v] by (auto simp: skip_ws_def)

lemma skip_ws_Cons [simp]: "\<not> is_json_ws c \<Longrightarrow> skip_ws (c # r) = c # r"
  by (simp add: skip_ws_def)

lemma not_ws [simp]:
  "\<not> is_json_ws CHR '',''" "\<not> is_json_ws CHR '']''" "\<not> is_json_ws CHR ''}''" "\<not> is_json_ws CHR '':''"
  "\<not> is_json_ws CHR ''{''" "\<not> is_json_ws CHR ''[''" "\<not> is_json_ws (char_of (34::nat))"
  "\<not> is_json_ws CHR 0x22" "\<not> is_json_ws CHR ''n''" "\<not> is_json_ws CHR ''t''" "\<not> is_json_ws CHR ''f''"
  by (simp_all add: is_json_ws_def)

lemma json_items_False: "vs \<noteq> [] \<Longrightarrow> json_items False vs = CHR '','' # json_items True vs"
  by (cases vs) simp_all

lemma json_members_False:
  "m \<noteq> [] \<Longrightarrow> plain_members m \<Longrightarrow> json_members False m = CHR '','' # json_members True m"
  by (cases m rule: list.exhaust) (auto split: if_splits)

lemma num_delim_punct [simp]:
  "num_delim (CHR '','' # r)" "num_delim (CHR '']'' # r)" "num_delim (CHR ''}'' # r)"
  by (simp_all add: num_delim_def is_digit_def)

lemma parse_quote: "parse_chars (tl (quote t) @ r) = Some (t, r)"
  by (simp add: quote_def parse_chars_quote)

lemma quote_Cons: "quote t = char_of (34::nat) # tl (quote t)"
  by (simp add: quote_def)

lemma parse_value_num:
  assumes "num_delim r"
  shows "parse_value (Suc n) (show_int i @ r) = Some (JNum (Fin (of_int i)), r)"
proof -
  obtain c t where c: "show_int i = c # t" "is_digit c \<or> c = CHR ''-''"
    using show_nat_Cons by (metis show_int_def)
  then have "\<not> is_json_ws c" "c \<noteq> CHR ''{''" "c \<noteq> CHR ''[''" "of_char c \<noteq> (34::nat)"
    "c \<noteq> CHR ''t''" "c \<noteq> CHR ''f''" "c \<noteq> CHR ''n''"
    by (auto simp: is_digit_def is_json_ws_def)
  then show ?thesis using parse_number_show_int [OF assms, of i] by (simp add: c)
qed

lemma parse_print_all:
  "(\<forall>v r. json_plain v \<longrightarrow> num_delim r \<longrightarrow> 2 * length (json_text v @ r) + 2 \<le> n \<longrightarrow>
      parse_value n (json_text v @ r) = Some (v, r)) \<and>
   (\<forall>vs acc r. plain_items vs \<longrightarrow> vs \<noteq> [] \<longrightarrow>
      2 * length (json_items True vs @ CHR '']'' # r) + 3 \<le> n \<longrightarrow>
      parse_items n acc (json_items True vs @ CHR '']'' # r) = Some (JArr (acc @ vs), r)) \<and>
   (\<forall>m acc r. plain_members m \<longrightarrow> m \<noteq> [] \<longrightarrow> distinct (map fst (acc @ m)) \<longrightarrow>
      2 * length (json_members True m @ CHR ''}'' # r) + 3 \<le> n \<longrightarrow>
      parse_members n acc (json_members True m @ CHR ''}'' # r) = Some (JObj (acc @ m), r))"
proof (induction n)
  case (Suc n)
  note V = Suc.IH [THEN conjunct1, rule_format]
  note I = Suc.IH [THEN conjunct2, THEN conjunct1, rule_format]
  note M = Suc.IH [THEN conjunct2, THEN conjunct2, rule_format]
  have "parse_value (Suc n) (json_text v @ r) = Some (v, r)"
    if v: "json_plain v" "num_delim r" "2 * length (json_text v @ r) + 2 \<le> Suc n" for v r
  proof (cases v)
    case (JNum x)
    with v obtain i where "x = Fin (of_int i)"
      by (auto simp: is_safe_integer_def is_int_rat_iff split: jnum.splits)
    with v show ?thesis by (simp add: JNum num_text_def parse_value_num del: parse_value.simps)
  next
    case (JStr s)
    have "parse_value (Suc n) ((CHR 0x22 # tl (quote s)) @ r) = Some (JStr s, r)"
      using parse_quote [of s r] by (simp add: is_json_ws_def)
    then show ?thesis by (metis JStr json_text.simps(5) quote_Cons dquote_char)
  next
    case (JArr vs)
    show ?thesis
    proof (cases vs)
      case (Cons w ws)
      obtain c t where c: "json_text w = c # t" "\<not> is_json_ws c" "c \<noteq> CHR '']''"
        using json_text_head [of w] v JArr Cons by auto
      have "parse_items n [] (json_items True vs @ CHR '']'' # r) = Some (JArr ([] @ vs), r)"
        using v JArr Cons by (intro I) auto
      then show ?thesis using JArr Cons c by simp
    qed (simp add: JArr)
  next
    case (JObj m)
    show ?thesis
    proof (cases m)
      case (Cons kw ms)
      obtain k w where kw: "kw = (k, w)" by fastforce
      have "w \<noteq> JUndef" using v JObj Cons kw by auto
      then have t: "json_members True m @ CHR ''}'' # r =
          char_of (34::nat) # (tl (quote k) @ CHR '':'' # json_text w @ json_members False ms @ CHR ''}'' # r)"
        using quote_Cons [of k] by (simp add: Cons kw)
      have "parse_members n [] (json_members True m @ CHR ''}'' # r) = Some (JObj ([] @ m), r)"
        using v JObj Cons by (intro M) auto
      then show ?thesis using JObj by (simp add: t dquote_char)
    qed (simp add: JObj)
  qed (use v in auto)
  moreover have "parse_items (Suc n) acc (json_items True vs @ CHR '']'' # r) = Some (JArr (acc @ vs), r)"
    if vs: "plain_items vs" "vs \<noteq> []" "2 * length (json_items True vs @ CHR '']'' # r) + 3 \<le> Suc n"
    for vs acc r
  proof -
    obtain w ws where Cons: "vs = w # ws" using vs by (cases vs) auto
    show ?thesis
    proof (cases "ws = []")
      case True
      have "parse_value n (json_text w @ CHR '']'' # r) = Some (w, CHR '']'' # r)"
        using vs Cons True by (intro V) auto
      then show ?thesis using Cons True by simp
    next
      case False
      let ?r = "CHR '','' # json_items True ws @ CHR '']'' # r"
      have "parse_value n (json_text w @ ?r) = Some (w, ?r)"
        using vs Cons False by (intro V) (auto simp: json_items_False)
      moreover have "parse_items n (acc @ [w]) (json_items True ws @ CHR '']'' # r)
          = Some (JArr ((acc @ [w]) @ ws), r)"
        using vs Cons False by (intro I) (auto simp: json_items_False)
      ultimately show ?thesis using Cons False by (simp add: json_items_False)
    qed
  qed
  moreover have "parse_members (Suc n) acc (json_members True m @ CHR ''}'' # r) = Some (JObj (acc @ m), r)"
    if m: "plain_members m" "m \<noteq> []" "distinct (map fst (acc @ m))"
      "2 * length (json_members True m @ CHR ''}'' # r) + 3 \<le> Suc n" for m acc r
  proof -
    obtain k w ms where Cons: "m = (k, w) # ms" using m by (cases m) auto
    have w: "json_plain w" "w \<noteq> JUndef" using m Cons by auto
    have upd: "om_set k w acc = acc @ [(k, w)]"
      using m Cons by (intro om_set_fresh) (auto simp: om_has_iff)
    obtain qt where q: "quote k = CHR 0x22 # qt" "\<And>x. parse_chars (qt @ x) = Some (k, x)"
      using quote_Cons [of k] parse_quote [of k] by (simp only: dquote_char)
    have ws: "\<not> is_json_ws CHR 0x22" by (simp add: is_json_ws_def)
    show ?thesis
    proof (cases "ms = []")
      case True
      have "parse_value n (json_text w @ CHR ''}'' # r) = Some (w, CHR ''}'' # r)"
        using m w Cons True by (intro V) auto
      then show ?thesis using Cons True w ws by (simp add: q upd)
    next
      case False
      let ?r = "CHR '','' # json_members True ms @ CHR ''}'' # r"
      have f: "json_members False ms = CHR '','' # json_members True ms"
        using m Cons False by (simp add: json_members_False)
      have "parse_value n (json_text w @ ?r) = Some (w, ?r)"
        using m w Cons False by (intro V) (auto simp: f)
      moreover have "parse_members n (acc @ [(k, w)]) (json_members True ms @ CHR ''}'' # r)
          = Some (JObj ((acc @ [(k, w)]) @ ms), r)"
        using m w Cons False by (intro M) (auto simp: f)
      ultimately show ?thesis using Cons w ws by (simp add: f q upd)
    qed
  qed
  ultimately show ?case by blast
qed simp

theorem json_roundtrip: "json_plain v \<Longrightarrow> json_parse (json_text v) = Some v"
proof -
  assume "json_plain v"
  then have "parse_value (2 * length (json_text v @ []) + 2) (json_text v @ []) = Some (v, [])"
    by (intro parse_print_all [THEN conjunct1, rule_format]) (auto simp: num_delim_def)
  then show ?thesis by (simp add: json_parse_def skip_ws_def)
qed

text \<open>A printed value is not empty and has no control character.\<close>

lemma show_nat_printable: "c \<in> set (show_nat n) \<Longrightarrow> 32 \<le> (of_char c :: nat)"
  using show_nat_digits by (force simp: is_digit_def)

lemma frac_text_printable: "c \<in> set (frac_text n q) \<Longrightarrow> 32 \<le> (of_char c :: nat)"
  by (induction n q rule: frac_text.induct) (auto split: if_splits dest: show_nat_printable)

lemma num_text_printable: "c \<in> set (num_text x) \<Longrightarrow> 32 \<le> (of_char c :: nat)"
  by (auto simp: num_text_def show_int_def split: jnum.splits if_splits
      dest: show_nat_printable frac_text_printable)

lemma hex_digit_printable: "n < 16 \<Longrightarrow> 32 \<le> (of_char (hex_digit n) :: nat)"
  by (auto simp: hex_digit_def)

lemma esc_char_printable: "c \<in> set (esc_char d) \<Longrightarrow> 32 \<le> (of_char c :: nat)"
  by (auto simp: esc_char_def Let_def split: if_splits intro!: hex_digit_printable)

lemma quote_printable: "c \<in> set (quote t) \<Longrightarrow> 32 \<le> (of_char c :: nat)"
  by (auto simp: quote_def dest: esc_char_printable)

lemma json_text_printable:
  shows "c \<in> set (json_text v) \<Longrightarrow> 32 \<le> (of_char c :: nat)"
    and "c \<in> set (json_items b vs) \<Longrightarrow> 32 \<le> (of_char c :: nat)"
    and "c \<in> set (json_members b m) \<Longrightarrow> 32 \<le> (of_char c :: nat)"
  by (induction v and b vs and b m rule: json_text_json_items_json_members.induct)
     (auto split: if_splits dest: num_text_printable quote_printable)

lemma json_text_nonempty [simp]: "json_text v \<noteq> []"
  by (cases v) (auto simp: quote_def num_text_def show_int_def split: jnum.splits)

end
