(* ===== verification/Redaction.thy ===== *)
theory Redaction
  imports Json
begin

text \<open>
  \<open>src/core/http/redaction.ts\<close>: the scrubbing of secrets out of values and text. The regular
  expressions of the source are kept as expressions, run by a small backtracking matcher with
  JavaScript's priorities (alternatives left to right, greedy repetition, capture groups,
  back-references, negative lookahead). All matching is per byte, which agrees with matching per
  code point because every expression here starts and is delimited by whole characters. The patterns
  have the flags \<open>iu\<close>, so a letter matches both cases and, for \<open>s\<close> and \<open>k\<close>, the two other characters
  that fold to it.
\<close>

section \<open>A backtracking matcher\<close>

datatype re =
    REps | RByte "char \<Rightarrow> bool" | RSeq re re | RAlt re re | RStar re | RGroup nat re | RRef nat
  | RNot re | RStart | REnd | RSpace

record rstate =
  rs_start :: bool
  rs_rest :: string
  rs_caps :: "(nat, string) omap"

definition consume :: "nat \<Rightarrow> rstate \<Rightarrow> rstate" where
  "consume n st = st\<lparr>rs_start := (rs_start st \<and> n = 0), rs_rest := drop n (rs_rest st)\<rparr>"

definition space_len :: "string \<Rightarrow> nat" where
  "space_len s = (case find (\<lambda>p. prefix p s) ws_encodings of Some p \<Rightarrow> length p | None \<Rightarrow> 0)"

text \<open>Greedy repetition: an iteration that consumes nothing is rejected, as in ECMAScript.\<close>

fun rstar :: "(rstate \<Rightarrow> rstate list) \<Rightarrow> nat \<Rightarrow> rstate \<Rightarrow> rstate list" where
  "rstar m 0 st = [st]"
| "rstar m (Suc n) st =
     concat (map (rstar m n)
       (filter (\<lambda>st'. length (rs_rest st') < length (rs_rest st)) (m st))) @ [st]"

text \<open>All the ways to match, in the order the backtracking engine tries them.\<close>

primrec rmatches :: "re \<Rightarrow> rstate \<Rightarrow> rstate list" where
  "rmatches REps st = [st]"
| "rmatches (RByte f) st =
     (case rs_rest st of [] \<Rightarrow> [] | c # _ \<Rightarrow> if f c then [consume 1 st] else [])"
| "rmatches (RSeq a b) st = concat (map (rmatches b) (rmatches a st))"
| "rmatches (RAlt a b) st = rmatches a st @ rmatches b st"
| "rmatches (RStar a) st = rstar (rmatches a) (length (rs_rest st)) st"
| "rmatches (RGroup i a) st =
     map (\<lambda>st'. st'\<lparr>rs_caps := om_set i
            (take (length (rs_rest st) - length (rs_rest st')) (rs_rest st)) (rs_caps st')\<rparr>)
       (rmatches a st)"
| "rmatches (RRef i) st =
     (let p = (case om_get (rs_caps st) i of Some p \<Rightarrow> p | None \<Rightarrow> []) in
      if prefix p (rs_rest st) then [consume (length p) st] else [])"
| "rmatches (RNot a) st = (if rmatches a st = [] then [st] else [])"
| "rmatches RStart st = (if rs_start st then [st] else [])"
| "rmatches REnd st = (if rs_rest st = [] then [st] else [])"
| "rmatches RSpace st =
     (let n = space_len (rs_rest st) in if n = 0 then [] else [consume n st])"

definition rmatch_at :: "re \<Rightarrow> bool \<Rightarrow> string \<Rightarrow> rstate option" where
  "rmatch_at r at_start s =
     (case rmatches r \<lparr>rs_start = at_start, rs_rest = s, rs_caps = []\<rparr> of
        [] \<Rightarrow> None | st # _ \<Rightarrow> Some st)"

text \<open>\<open>RegExp.test\<close>: a match at some position.\<close>

fun rtest_from :: "re \<Rightarrow> bool \<Rightarrow> string \<Rightarrow> bool" where
  "rtest_from r b [] = (rmatch_at r b [] \<noteq> None)"
| "rtest_from r b (c # s) = (rmatch_at r b (c # s) \<noteq> None \<or> rtest_from r False s)"

definition rtest :: "re \<Rightarrow> string \<Rightarrow> bool" where
  "rtest r s = rtest_from r True s"

text \<open>\<open>String.replace\<close> with a global expression that never matches the empty string.\<close>

function rreplace_from :: "re \<Rightarrow> (rstate \<Rightarrow> string) \<Rightarrow> bool \<Rightarrow> string \<Rightarrow> string" where
  "rreplace_from r f b s =
     (case s of
        [] \<Rightarrow> []
      | c # cs \<Rightarrow>
          (case rmatch_at r b s of
             Some st \<Rightarrow>
               if length (rs_rest st) < length s then f st @ rreplace_from r f False (rs_rest st)
               else c # rreplace_from r f False cs
           | None \<Rightarrow> c # rreplace_from r f False cs))"
  by pat_completeness auto
termination by (relation "measure (\<lambda>(r, f, b, s). length s)") auto

declare rreplace_from.simps [simp del]

definition rreplace :: "re \<Rightarrow> (rstate \<Rightarrow> string) \<Rightarrow> string \<Rightarrow> string" where
  "rreplace r f s = rreplace_from r f True s"

definition capture :: "rstate \<Rightarrow> nat \<Rightarrow> string" where
  "capture st i = (case om_get (rs_caps st) i of Some p \<Rightarrow> p | None \<Rightarrow> [])"

subsection \<open>Building expressions\<close>

definition rword :: "string \<Rightarrow> re" where
  "rword w = foldr (\<lambda>x r. RSeq (RByte (\<lambda>c. to_lower_char c = x)) r) w REps"

text \<open>The folding of the flags \<open>iu\<close>: the characters a lower-case letter matches, as UTF-8; U+017F folds to \<open>s\<close>
  and U+212A to \<open>k\<close>. (\<open>rword\<close> is for \<open>i\<close> without \<open>u\<close>, where no other character folds to a letter.)\<close>

definition utf8_bytes :: "nat list \<Rightarrow> string" where
  "utf8_bytes = map char_of"

definition folded_to :: "char \<Rightarrow> string list" where
  "folded_to x =
     (if x = CHR ''s'' then [utf8_bytes [0xC5, 0xBF]] else if x = CHR ''k'' then [utf8_bytes [0xE2, 0x84, 0xAA]] else [])"

definition spellings :: "char \<Rightarrow> string list" where
  "spellings x =
     (let n = of_char x :: nat in
      [x] # (if 97 \<le> n \<and> n \<le> 122 then [char_of (n - 32)] # folded_to x else []))"

definition rbytes :: "string \<Rightarrow> re" where
  "rbytes p = foldr (\<lambda>x r. RSeq (RByte (\<lambda>c. c = x)) r) p REps"

definition rset :: "string \<Rightarrow> re" where
  "rset cs = RByte (\<lambda>c. c \<in> set cs)"

definition ropt :: "re \<Rightarrow> re" where
  "ropt r = RAlt r REps"

definition rplus :: "re \<Rightarrow> re" where
  "rplus r = RSeq r (RStar r)"

definition rseq :: "re list \<Rightarrow> re" where
  "rseq rs = foldr RSeq rs REps"

definition ralt :: "re list \<Rightarrow> re" where
  "ralt rs = foldr RAlt rs (RNot REps)"

definition rword_u :: "string \<Rightarrow> re" where
  "rword_u w = rseq (map (\<lambda>x. ralt (map rbytes (spellings x))) w)"

section \<open>The expressions of the source\<close>

definition REDACTION_PLACEHOLDER :: string where
  "REDACTION_PLACEHOLDER = ''[REDACTED]''"

definition DEFAULT_PREVIEW_MAX_CHARS :: nat where
  "DEFAULT_PREVIEW_MAX_CHARS = 12000"

text \<open>The alternatives \<open>api[_-]?key|secret|...|cookie\<close> shared by the four patterns.\<close>

definition credential_words :: re where
  "credential_words =
     (let sep = ropt (rset ''_-'') in
      ralt [rseq [rword_u ''api'', sep, rword_u ''key''], rword_u ''secret'', rword_u ''password'',
        rseq [rword_u ''private'', sep, rword_u ''key''], rword_u ''credential'',
        rword_u ''authorization'', rseq [rword_u ''auth'', sep, rword_u ''token''],
        rseq [rword_u ''access'', sep, rword_u ''token''],
        rseq [rword_u ''refresh'', sep, rword_u ''token''], rword_u ''token'', rword_u ''cookie''])"

definition SENSITIVE_KEY_PATTERN :: re where
  "SENSITIVE_KEY_PATTERN =
     rseq [RAlt RStart (rset ''._-''), credential_words, RAlt (rset ''._-'') REnd]"

definition quotes :: string where
  "quotes = [CHR 0x22, CHR 0x27]"

definition assign :: re where
  "assign = rseq [ropt (rset quotes), RStar RSpace, rset '':='', RStar RSpace]"

text \<open>\<open>[^"',}\s&]\<close> with the closing bracket: a byte that is no delimiter and starts no white space.\<close>

definition token_byte :: re where
  "token_byte =
     RSeq (RNot RSpace) (RByte (\<lambda>c. c \<notin> set (quotes @ [CHR '','', CHR ''}'', CHR '']'', CHR ''&''])))"

definition SENSITIVE_TEXT_PATTERN :: re where
  "SENSITIVE_TEXT_PATTERN =
     rseq [RGroup 1 (rseq [credential_words, assign, ropt (rset quotes)]),
       RNot (rword_u (map to_lower_char REDACTION_PLACEHOLDER)),
       RGroup 2 (rplus token_byte)]"

definition line_end :: "char \<Rightarrow> bool" where
  "line_end c = (c = CHR 0x0A \<or> c = CHR 0x0D)"

text \<open>\<open>.\<close>: U+2028 and U+2029 end a line too.\<close>

definition line_separator :: re where
  "line_separator = RAlt (rbytes (utf8_bytes [0xE2, 0x80, 0xA8])) (rbytes (utf8_bytes [0xE2, 0x80, 0xA9]))"

definition SENSITIVE_QUOTED_TEXT_PATTERN :: re where
  "SENSITIVE_QUOTED_TEXT_PATTERN =
     rseq [RGroup 1 (RSeq credential_words assign),
       RGroup 2 (rset quotes),
       RGroup 3 (RStar (RAlt
         (RSeq (RByte (\<lambda>c. c = CHR 0x5C)) (RSeq (RNot line_separator) (RByte (\<lambda>c. \<not> line_end c))))
         (RSeq (RNot (RRef 2)) (RByte (\<lambda>c. True))))),
       RRef 2]"

definition AUTHORIZATION_TEXT_PATTERN :: re where
  "AUTHORIZATION_TEXT_PATTERN =
     rseq [RGroup 1 (RSeq (rword_u ''authorization'') assign),
       RNot (RSeq (ropt (rset quotes)) (rword_u (map to_lower_char REDACTION_PLACEHOLDER))),
       rplus (RByte (\<lambda>c. \<not> line_end c \<and> c \<notin> {CHR ''&'', CHR ''}'', CHR '']''}))]"

definition is_alnum :: "char \<Rightarrow> bool" where
  "is_alnum c =
     (let n = of_char (to_lower_char c) :: nat in is_digit c \<or> (97 \<le> n \<and> n \<le> 122))"

definition BEARER_TOKEN_PATTERN :: re where
  "BEARER_TOKEN_PATTERN =
     rseq [RGroup 1 (RSeq (rword_u ''bearer'') (rplus RSpace)),
       RGroup 2 (rplus (ralt (RByte (\<lambda>c. is_alnum c \<or> c \<in> set ''._~+/=-'')
                              # map rbytes (folded_to (CHR ''s'') @ folded_to (CHR ''k'')))))]"

section \<open>The exported functions\<close>

definition isSensitiveKey :: "string \<Rightarrow> bool" where
  "isSensitiveKey key = rtest SENSITIVE_KEY_PATTERN key"

fun redactSensitiveValue :: "jv \<Rightarrow> jv" where
  "redactSensitiveValue (JArr xs) = JArr (map redactSensitiveValue xs)"
| "redactSensitiveValue (JObj m) =
     JObj (map (\<lambda>(k, v). (k, if isSensitiveKey k then JStr REDACTION_PLACEHOLDER
                             else redactSensitiveValue v)) m)"
| "redactSensitiveValue v = v"

definition redactSensitiveText :: "string \<Rightarrow> string" where
  "redactSensitiveText text0 =
     (let t1 = rreplace SENSITIVE_QUOTED_TEXT_PATTERN
                 (\<lambda>st. capture st 1 @ capture st 2 @ REDACTION_PLACEHOLDER @ capture st 2) text0;
          t2 = rreplace AUTHORIZATION_TEXT_PATTERN (\<lambda>st. capture st 1 @ REDACTION_PLACEHOLDER) t1;
          t3 = rreplace SENSITIVE_TEXT_PATTERN (\<lambda>st. capture st 1 @ REDACTION_PLACEHOLDER) t2
      in rreplace BEARER_TOKEN_PATTERN (\<lambda>st. capture st 1 @ REDACTION_PLACEHOLDER) t3)"

text \<open>A string's UTF-16 code units, by which \<open>length\<close> and \<open>slice\<close> count: a character of four bytes has two.\<close>

definition utf8_width :: "char \<Rightarrow> nat" where
  "utf8_width c = (let n = of_char c :: nat in if n < 0xC0 then 1 else if n < 0xE0 then 2 else if n < 0xF0 then 3 else 4)"

definition code_point :: "string \<Rightarrow> nat" where
  "code_point p =
     (case p of [] \<Rightarrow> 0
      | c # cs \<Rightarrow> foldl (\<lambda>a b. a * 64 + of_char b mod 64) (if cs = [] then of_char c else of_char c mod 2 ^ (6 - length cs)) cs)"

definition code_units :: "nat \<Rightarrow> nat list" where
  "code_units p = (if p < 0x10000 then [p] else [0xD800 + (p - 0x10000) div 1024, 0xDC00 + (p - 0x10000) mod 1024])"

function utf16_chars :: "string \<Rightarrow> string list" where
  "utf16_chars s = (case s of [] \<Rightarrow> [] | c # _ \<Rightarrow> take (utf8_width c) s # utf16_chars (drop (utf8_width c) s))"
  by pat_completeness auto
termination by (relation "measure length") (auto simp: utf8_width_def Let_def)

declare utf16_chars.simps [simp del]

definition utf16_units :: "string \<Rightarrow> nat list" where
  "utf16_units s = concat (map (\<lambda>p. code_units (code_point p)) (utf16_chars s))"

text \<open>The characters that lie within the first \<open>n\<close> units. (A slice that ends within a pair keeps its first half
  in the source, a lone surrogate, which a string here cannot hold.)\<close>

fun chars_within :: "nat \<Rightarrow> string list \<Rightarrow> string" where
  "chars_within n [] = []"
| "chars_within n (p # ps) =
     (let k = length (code_units (code_point p)) in if n < k then [] else p @ chars_within (n - k) ps)"

definition truncate :: "string \<Rightarrow> nat \<Rightarrow> string" where
  "truncate raw maxChars =
     (if length (utf16_units raw) > maxChars then chars_within maxChars (utf16_chars raw) @ ''...[truncated]'' else raw)"

definition stringifyRedacted :: "jv \<Rightarrow> nat \<Rightarrow> string option" where
  "stringifyRedacted value maxChars =
     (case value of
        JUndef \<Rightarrow> None
      | JStr s \<Rightarrow> Some (truncate (redactSensitiveText s) maxChars)
      | _ \<Rightarrow> (case json_stringify (redactSensitiveValue value) of
               Some raw \<Rightarrow> Some (truncate raw maxChars)
             | None \<Rightarrow> Some ''[unserializable body]''))"

definition redactPreviewText :: "string \<Rightarrow> nat \<Rightarrow> string" where
  "redactPreviewText s maxChars = truncate (redactSensitiveText s) maxChars"

section \<open>The keys that name a credential\<close>

text \<open>What a key must contain, without an expression: one of the names, spelled in either case, between the ends of the
  key or its separators.\<close>

definition credential_names :: "string list" where
  "credential_names =
     [''apikey'', ''api_key'', ''api-key'', ''secret'', ''password'', ''privatekey'', ''private_key'', ''private-key'',
      ''credential'', ''authorization'', ''authtoken'', ''auth_token'', ''auth-token'', ''accesstoken'', ''access_token'',
      ''access-token'', ''refreshtoken'', ''refresh_token'', ''refresh-token'', ''token'', ''cookie'']"

primrec spelled :: "string \<Rightarrow> string \<Rightarrow> bool" where
  "spelled [] u = (u = [])"
| "spelled (x # w) u = list_ex (\<lambda>p. prefix p u \<and> spelled w (drop (length p) u)) (spellings x)"

definition key_separators :: string where
  "key_separators = ''._-''"

definition names_credential :: "string \<Rightarrow> bool" where
  "names_credential key =
     list_ex (\<lambda>i. list_ex (\<lambda>j.
         (i = 0 \<or> key ! (i - 1) \<in> set key_separators) \<and> (j = length key \<or> key ! j \<in> set key_separators)
         \<and> list_ex (\<lambda>n. spelled n (take (j - i) (drop i key))) credential_names)
       [i..<Suc (length key)]) [0..<Suc (length key)]"

text \<open>The texts an expression without captures matches, wherever it is tried.\<close>

definition lang :: "re \<Rightarrow> string set \<Rightarrow> bool" where
  "lang r L = (\<forall>st. set (rmatches r st) = {consume (length u) st | u. prefix u (rs_rest st) \<and> u \<in> L})"

lemma langI: "(\<And>st. set (rmatches r st) = {consume (length u) st | u. prefix u (rs_rest st) \<and> u \<in> L}) \<Longrightarrow> lang r L"
  by (simp add: lang_def)

lemma consume_consume: "prefix u (rs_rest st) \<Longrightarrow> consume (length v) (consume (length u) st) = consume (length (u @ v)) st"
  by (auto simp: consume_def add.commute)

lemma lang_eps: "lang REps {[]}"
  by (rule langI) (auto simp: consume_def)

lemma lang_byte: "lang (RByte f) {[c] | c. f c}"
proof (rule langI)
  fix st
  show "set (rmatches (RByte f) st) = {consume (length u) st | u. prefix u (rs_rest st) \<and> u \<in> {[c] | c. f c}}"
    by (cases "rs_rest st") (auto simp: prefix_Cons intro: exI [of _ "[_]"])
qed

lemma lang_none: "lang (RNot REps) {}"
  by (rule langI) simp

lemma lang_alt: "lang a A \<Longrightarrow> lang b B \<Longrightarrow> lang (RAlt a b) (A \<union> B)"
  by (auto simp: lang_def)

lemma lang_seq:
  assumes "lang a A" and "lang b B"
  shows "lang (RSeq a b) {u @ v | u v. u \<in> A \<and> v \<in> B}"
proof (rule langI)
  fix st
  have "set (rmatches (RSeq a b) st) = (\<Union>x \<in> {consume (length u) st | u. prefix u (rs_rest st) \<and> u \<in> A}. set (rmatches b x))"
    using assms(1) by (simp add: lang_def)
  also have "\<dots> = (\<Union>u \<in> {u. prefix u (rs_rest st) \<and> u \<in> A}. set (rmatches b (consume (length u) st)))" by blast
  also have "\<dots> = (\<Union>u \<in> {u. prefix u (rs_rest st) \<and> u \<in> A}.
      {consume (length (u @ v)) st | v. prefix v (drop (length u) (rs_rest st)) \<and> v \<in> B})"
  proof (rule SUP_cong)
    fix u assume "u \<in> {u. prefix u (rs_rest st) \<and> u \<in> A}"
    moreover have "rs_rest (consume (length u) st) = drop (length u) (rs_rest st)" by (simp add: consume_def)
    ultimately show "set (rmatches b (consume (length u) st))
        = {consume (length (u @ v)) st | v. prefix v (drop (length u) (rs_rest st)) \<and> v \<in> B}"
      using assms(2) consume_consume [of u st] by (simp add: lang_def)
  qed simp
  finally have m: "set (rmatches (RSeq a b) st) = \<dots>" .
  have p: "prefix u s \<and> prefix v (drop (length u) s) \<longleftrightarrow> prefix (u @ v) s" for u v s :: string
    by (auto simp: prefix_def)
  show "set (rmatches (RSeq a b) st) = {consume (length w) st | w. prefix w (rs_rest st) \<and> w \<in> {u @ v | u v. u \<in> A \<and> v \<in> B}}"
  proof (rule set_eqI)
    fix x
    have "x \<in> set (rmatches (RSeq a b) st) \<longleftrightarrow>
        (\<exists>u v. u \<in> A \<and> v \<in> B \<and> (prefix u (rs_rest st) \<and> prefix v (drop (length u) (rs_rest st))) \<and> x = consume (length (u @ v)) st)"
      unfolding m by blast
    then show "x \<in> set (rmatches (RSeq a b) st) \<longleftrightarrow>
        x \<in> {consume (length w) st | w. prefix w (rs_rest st) \<and> w \<in> {u @ v | u v. u \<in> A \<and> v \<in> B}}"
      unfolding p by blast
  qed
qed

lemma lang_rbytes: "lang (rbytes p) {p}"
proof (induction p)
  case Nil
  then show ?case by (simp add: rbytes_def lang_eps)
next
  case (Cons x p)
  then show ?case using lang_seq [OF lang_byte [of "\<lambda>c. c = x"] Cons] by (simp add: rbytes_def)
qed

lemma lang_ralt: "list_all2 lang rs Ls \<Longrightarrow> lang (ralt rs) (\<Union> (set Ls))"
  by (induction rule: list_all2_induct) (auto simp: ralt_def lang_none intro: lang_alt)

lemma lang_rset: "lang (rset cs) {[c] | c. c \<in> set cs}"
  by (simp add: rset_def lang_byte)

text \<open>An expression for spellings of words.\<close>

definition spells :: "re \<Rightarrow> string list \<Rightarrow> bool" where
  "spells r ws = lang r {u. \<exists>w \<in> set ws. spelled w u}"

lemma spelled_Cons: "spelled (x # w) u \<longleftrightarrow> (\<exists>p v. u = p @ v \<and> p \<in> set (spellings x) \<and> spelled w v)"
  by (auto simp: list_ex_iff prefix_def) metis

declare spelled.simps(2) [simp del]

lemma spelled_append: "spelled (a @ b) u \<longleftrightarrow> (\<exists>x y. u = x @ y \<and> spelled a x \<and> spelled b y)"
proof (induction a arbitrary: u)
  case (Cons c a)
  show ?case unfolding append_Cons spelled_Cons Cons by (metis append.assoc)
qed simp

lemma spells_letter: "lang (ralt (map rbytes (spellings x))) (set (spellings x))"
  using lang_ralt [of "map rbytes (spellings x)" "map (\<lambda>p. {p}) (spellings x)"]
  by (simp add: list_all2_map1 list_all2_map2 list_all2_same lang_rbytes)

lemma spells_word: "spells (rword_u w) [w]"
proof (induction w)
  case Nil
  then show ?case by (simp add: spells_def rword_u_def rseq_def lang_eps)
next
  case (Cons x w)
  have e: "{u. spelled (x # w) u} = {u @ v | u v. u \<in> set (spellings x) \<and> v \<in> {u. \<exists>w' \<in> set [w]. spelled w' u}}"
    by (auto simp: spelled_Cons)
  have "rword_u (x # w) = RSeq (ralt (map rbytes (spellings x))) (rword_u w)" by (simp add: rword_u_def rseq_def)
  then show ?case
    using lang_seq [OF spells_letter [of x] Cons [unfolded spells_def]] e by (simp add: spells_def)
qed

lemma spells_seq:
  assumes "spells a as" and "spells b bs"
  shows "spells (RSeq a b) (concat (map (\<lambda>x. map (\<lambda>y. x @ y) bs) as))"
proof -
  have e: "{u @ v | u v. u \<in> {u. \<exists>w \<in> set as. spelled w u} \<and> v \<in> {u. \<exists>w \<in> set bs. spelled w u}}
      = {u. \<exists>w \<in> set (concat (map (\<lambda>x. map (\<lambda>y. x @ y) bs) as)). spelled w u}"
    by (auto simp: spelled_append)
  show ?thesis unfolding spells_def e [symmetric] by (rule lang_seq [OF assms [unfolded spells_def]])
qed

lemma spells_alt:
  assumes "spells a as" and "spells b bs"
  shows "spells (RAlt a b) (as @ bs)"
proof -
  have e: "{u. \<exists>w \<in> set as. spelled w u} \<union> {u. \<exists>w \<in> set bs. spelled w u} = {u. \<exists>w \<in> set (as @ bs). spelled w u}" by auto
  show ?thesis unfolding spells_def e [symmetric] by (rule lang_alt [OF assms [unfolded spells_def]])
qed

lemma spells_sep: "spells (ropt (rset ''_-'')) [''_'', ''-'', []]"
proof -
  have "spellings (CHR ''_'') = [''_'']" "spellings (CHR ''-'') = [''-'']" by (simp_all add: spellings_def)
  then have "{[c] | c. c \<in> set ''_-''} \<union> {[]} = {u. \<exists>w \<in> set [''_'', ''-'', []]. spelled w u}"
    by (auto simp: spelled_Cons)
  moreover have "lang (ropt (rset ''_-'')) ({[c] | c. c \<in> set ''_-''} \<union> {[]})"
    unfolding ropt_def by (rule lang_alt [OF lang_rset lang_eps])
  ultimately show ?thesis unfolding spells_def by (simp only:)
qed

lemma spells_eps: "spells REps [[]]"
  by (simp add: spells_def lang_eps)

lemma spells_none: "spells (RNot REps) []"
  by (simp add: spells_def lang_none)

lemma spells_ralt: "list_all2 spells rs wss \<Longrightarrow> spells (ralt rs) (concat wss)"
  by (induction rule: list_all2_induct) (simp_all add: ralt_def spells_none spells_alt)

lemma spells_split: "spells (rseq [rword_u a, ropt (rset ''_-''), rword_u b]) [a @ ''_'' @ b, a @ ''-'' @ b, a @ b]"
  using spells_seq [OF spells_word [of a] spells_seq [OF spells_sep spells_seq [OF spells_word [of b] spells_eps]]]
  by (simp add: rseq_def)

lemma spells_credentials: "\<exists>ws. set ws = set credential_names \<and> spells credential_words ws"
proof -
  note w = spells_word and s = spells_split
  have "spells credential_words (concat
    [[''api'' @ ''_'' @ ''key'', ''api'' @ ''-'' @ ''key'', ''api'' @ ''key''], [''secret''], [''password''],
     [''private'' @ ''_'' @ ''key'', ''private'' @ ''-'' @ ''key'', ''private'' @ ''key''], [''credential''], [''authorization''],
     [''auth'' @ ''_'' @ ''token'', ''auth'' @ ''-'' @ ''token'', ''auth'' @ ''token''],
     [''access'' @ ''_'' @ ''token'', ''access'' @ ''-'' @ ''token'', ''access'' @ ''token''],
     [''refresh'' @ ''_'' @ ''token'', ''refresh'' @ ''-'' @ ''token'', ''refresh'' @ ''token''], [''token''], [''cookie'']])"
    unfolding credential_words_def Let_def by (intro spells_ralt list.rel_intros s w)
  moreover have "set (concat
    [[''api'' @ ''_'' @ ''key'', ''api'' @ ''-'' @ ''key'', ''api'' @ ''key''], [''secret''], [''password''],
     [''private'' @ ''_'' @ ''key'', ''private'' @ ''-'' @ ''key'', ''private'' @ ''key''], [''credential''], [''authorization''],
     [''auth'' @ ''_'' @ ''token'', ''auth'' @ ''-'' @ ''token'', ''auth'' @ ''token''],
     [''access'' @ ''_'' @ ''token'', ''access'' @ ''-'' @ ''token'', ''access'' @ ''token''],
     [''refresh'' @ ''_'' @ ''token'', ''refresh'' @ ''-'' @ ''token'', ''refresh'' @ ''token''], [''token''], [''cookie'']])
    = set credential_names"
    by (simp add: credential_names_def insert_commute)
  ultimately show ?thesis by blast
qed

lemma lang_credentials: "lang credential_words {u. \<exists>n \<in> set credential_names. spelled n u}"
  using spells_credentials by (metis spells_def)

text \<open>A test finds a match behind some beginning of the text.\<close>

lemma split_Cons: "(\<exists>a v. c # s = a @ v \<and> Q a v) \<longleftrightarrow> Q [] (c # s) \<or> (\<exists>a v. s = a @ v \<and> Q (c # a) v)"
proof
  assume "\<exists>a v. c # s = a @ v \<and> Q a v"
  then obtain a v where "c # s = a @ v" "Q a v" by blast
  then show "Q [] (c # s) \<or> (\<exists>a v. s = a @ v \<and> Q (c # a) v)" by (cases a) auto
next
  assume "Q [] (c # s) \<or> (\<exists>a v. s = a @ v \<and> Q (c # a) v)"
  then show "\<exists>a v. c # s = a @ v \<and> Q a v" by (metis append_Cons append_Nil)
qed

lemma rtest_from_iff: "rtest_from r b s \<longleftrightarrow> (\<exists>a v. s = a @ v \<and> rmatch_at r (b \<and> a = []) v \<noteq> None)"
  by (induction s arbitrary: b) (simp_all add: split_Cons del: not_None_eq)

lemma rmatch_at_set: "rmatch_at r b s \<noteq> None \<longleftrightarrow> set (rmatches r \<lparr>rs_start = b, rs_rest = s, rs_caps = []\<rparr>) \<noteq> {}"
  by (simp add: rmatch_at_def split: list.split)

lemma prefix_split: "(\<exists>u. (prefix u s \<and> A u) \<and> B (drop (length u) s)) \<longleftrightarrow> (\<exists>w b. s = w @ b \<and> A w \<and> B b)"
proof
  assume "\<exists>w b. s = w @ b \<and> A w \<and> B b"
  then obtain w b where "s = w @ b" "A w" "B b" by blast
  then show "\<exists>u. (prefix u s \<and> A u) \<and> B (drop (length u) s)" by (intro exI [of _ w]) simp
next
  assume "\<exists>u. (prefix u s \<and> A u) \<and> B (drop (length u) s)"
  then obtain u v where "s = u @ v" "A u" "B v" by (auto simp: prefix_def)
  then show "\<exists>w b. s = w @ b \<and> A w \<and> B b" by blast
qed

text \<open>What follows a name, and what comes before it.\<close>

lemma key_tail:
  "set (rmatches (RSeq credential_words (RSeq (RAlt (rset ''._-'') REnd) REps)) st) \<noteq> {}
   \<longleftrightarrow> (\<exists>w b. rs_rest st = w @ b \<and> (\<exists>n \<in> set credential_names. spelled n w) \<and> (b = [] \<or> hd b \<in> set key_separators))"
proof -
  have rest: "rs_rest (consume k st) = drop k (rs_rest st)" for k by (simp add: consume_def)
  have e: "rmatches (RSeq (RAlt (rset ''._-'') REnd) REps) x \<noteq> [] \<longleftrightarrow> rs_rest x = [] \<or> hd (rs_rest x) \<in> set key_separators" for x
    by (cases "rs_rest x") (auto simp: rset_def key_separators_def)
  have "set (rmatches (RSeq credential_words (RSeq (RAlt (rset ''._-'') REnd) REps)) st) \<noteq> {}
      \<longleftrightarrow> (\<exists>x \<in> set (rmatches credential_words st). rmatches (RSeq (RAlt (rset ''._-'') REnd) REps) x \<noteq> [])"
    unfolding rmatches.simps(3) [of credential_words] by auto
  also have "\<dots> \<longleftrightarrow> (\<exists>u. (prefix u (rs_rest st) \<and> (\<exists>n \<in> set credential_names. spelled n u))
      \<and> rmatches (RSeq (RAlt (rset ''._-'') REnd) REps) (consume (length u) st) \<noteq> [])"
    unfolding lang_credentials [unfolded lang_def, rule_format, of st] by blast
  also have "\<dots> \<longleftrightarrow> (\<exists>w b. rs_rest st = w @ b \<and> (\<exists>n \<in> set credential_names. spelled n w) \<and> (b = [] \<or> hd b \<in> set key_separators))"
    unfolding e rest by (rule prefix_split)
  finally show ?thesis .
qed

lemma key_pattern:
  "rmatch_at SENSITIVE_KEY_PATTERN b s \<noteq> None \<longleftrightarrow>
     (\<exists>a v. s = a @ v \<and> (a = [] \<and> b \<or> (\<exists>x \<in> set key_separators. a = [x]))
        \<and> (\<exists>w c. v = w @ c \<and> (\<exists>n \<in> set credential_names. spelled n w) \<and> (c = [] \<or> hd c \<in> set key_separators)))"
proof -
  define tail where "tail = RSeq credential_words (RSeq (RAlt (rset ''._-'') REnd) REps)"
  define T where "T = (\<lambda>s. \<exists>w c. s = w @ c \<and> (\<exists>n \<in> set credential_names. spelled n w) \<and> (c = [] \<or> hd c \<in> set key_separators))"
  let ?st = "\<lparr>rs_start = b, rs_rest = s, rs_caps = []\<rparr>"
  have tail: "rmatches tail x \<noteq> [] \<longleftrightarrow> T (rs_rest x)" for x
    using key_tail [of x] unfolding tail_def T_def by simp
  have head: "rmatches (RAlt RStart (rset ''._-'')) ?st
      = (if b then [?st] else []) @ (case s of [] \<Rightarrow> [] | x # _ \<Rightarrow> if x \<in> set key_separators then [consume 1 ?st] else [])"
    by (simp add: rset_def key_separators_def split: list.split)
  have pat: "SENSITIVE_KEY_PATTERN = RSeq (RAlt RStart (rset ''._-'')) tail"
    by (simp add: SENSITIVE_KEY_PATTERN_def tail_def rseq_def)
  have seq: "rmatches (RSeq p q) x \<noteq> [] \<longleftrightarrow> (\<exists>y \<in> set (rmatches p x). rmatches q y \<noteq> [])" for p q x by simp
  have "rmatches SENSITIVE_KEY_PATTERN ?st \<noteq> [] \<longleftrightarrow> (\<exists>x \<in> set (rmatches (RAlt RStart (rset ''._-'')) ?st). rmatches tail x \<noteq> [])"
    unfolding pat by (rule seq)
  also have "\<dots> \<longleftrightarrow> (b \<and> T s) \<or> (\<exists>x s'. s = x # s' \<and> x \<in> set key_separators \<and> T s')"
    unfolding tail head by (cases s) (auto simp: consume_def)
  also have "\<dots> \<longleftrightarrow> (\<exists>a v. s = a @ v \<and> (a = [] \<and> b \<or> (\<exists>x \<in> set key_separators. a = [x])) \<and> T v)"
    by (metis append_Cons append_Nil)
  finally show ?thesis unfolding T_def rmatch_at_set by simp
qed

lemma isSensitiveKey_iff:
  "isSensitiveKey key \<longleftrightarrow>
     (\<exists>a w c. key = a @ w @ c \<and> (a = [] \<or> last a \<in> set key_separators)
        \<and> (\<exists>n \<in> set credential_names. spelled n w) \<and> (c = [] \<or> hd c \<in> set key_separators))"
proof
  assume "isSensitiveKey key"
  then obtain p v where "key = p @ v" "rmatch_at SENSITIVE_KEY_PATTERN (p = []) v \<noteq> None"
    by (auto simp: isSensitiveKey_def rtest_def rtest_from_iff simp del: not_None_eq)
  then obtain a w c where "key = p @ a @ w @ c" "a = [] \<and> p = [] \<or> (\<exists>x \<in> set key_separators. a = [x])"
    "\<exists>n \<in> set credential_names. spelled n w" "c = [] \<or> hd c \<in> set key_separators"
    unfolding key_pattern by blast
  then show "\<exists>a w c. key = a @ w @ c \<and> (a = [] \<or> last a \<in> set key_separators)
        \<and> (\<exists>n \<in> set credential_names. spelled n w) \<and> (c = [] \<or> hd c \<in> set key_separators)"
    by (intro exI [of _ "p @ a"] exI [of _ w] exI [of _ c]) auto
next
  assume "\<exists>a w c. key = a @ w @ c \<and> (a = [] \<or> last a \<in> set key_separators)
        \<and> (\<exists>n \<in> set credential_names. spelled n w) \<and> (c = [] \<or> hd c \<in> set key_separators)"
  then obtain a w c where k: "key = a @ w @ c" "a = [] \<or> last a \<in> set key_separators"
    "\<exists>n \<in> set credential_names. spelled n w" "c = [] \<or> hd c \<in> set key_separators" by blast
  have "\<exists>p v. key = p @ v \<and> rmatch_at SENSITIVE_KEY_PATTERN (p = []) v \<noteq> None"
  proof (cases "a = []")
    case True
    with k have "rmatch_at SENSITIVE_KEY_PATTERN True key \<noteq> None" unfolding key_pattern by blast
    then show ?thesis by (intro exI [of _ "[]"] exI [of _ key]) simp
  next
    case False
    then have "key = butlast a @ [last a] @ w @ c" "last a \<in> set key_separators" using k by simp_all
    with k(3,4) show ?thesis unfolding key_pattern by blast
  qed
  then show "isSensitiveKey key" by (simp add: isSensitiveKey_def rtest_def rtest_from_iff)
qed

lemma split_at_iff: "list_ex (\<lambda>i. list_ex (\<lambda>j. P i j) [i..<Suc n]) [0..<Suc n] \<longleftrightarrow> (\<exists>i j. i \<le> j \<and> j \<le> n \<and> P i j)"
  by (simp add: list_ex_iff less_Suc_eq_le Bex_def del: upt_Suc) (meson le_trans)

lemma isSensitiveKey_names: "isSensitiveKey = names_credential"
proof
  fix key
  show "isSensitiveKey key = names_credential key"
    unfolding isSensitiveKey_iff names_credential_def split_at_iff
  proof (rule iffI; elim exE conjE)
    fix a w c assume k: "key = a @ w @ c" "a = [] \<or> last a \<in> set key_separators"
      "\<exists>n \<in> set credential_names. spelled n w" "c = [] \<or> hd c \<in> set key_separators"
    have "length a = 0 \<or> key ! (length a - 1) \<in> set key_separators"
      using k(1,2) by (cases a rule: rev_cases) (auto simp: nth_append)
    moreover have "length a + length w = length key \<or> key ! (length a + length w) \<in> set key_separators"
      using k(1,4) by (cases c) (auto simp: nth_append)
    ultimately show "\<exists>i j. i \<le> j \<and> j \<le> length key \<and> (i = 0 \<or> key ! (i - 1) \<in> set key_separators)
        \<and> (j = length key \<or> key ! j \<in> set key_separators) \<and> list_ex (\<lambda>n. spelled n (take (j - i) (drop i key))) credential_names"
      using k(1,3) by (intro exI [of _ "length a"] exI [of _ "length a + length w"]) (simp add: list_ex_iff)
  next
    fix i j assume k: "i \<le> j" "j \<le> length key" "i = 0 \<or> key ! (i - 1) \<in> set key_separators"
      "j = length key \<or> key ! j \<in> set key_separators" "list_ex (\<lambda>n. spelled n (take (j - i) (drop i key))) credential_names"
    have "key = take i key @ take (j - i) (drop i key) @ drop j key"
      using k(1) by (metis append_take_drop_id drop_drop le_add_diff_inverse2)
    moreover have "take i key = [] \<or> last (take i key) \<in> set key_separators"
      using k(1-3) by (cases "key = []"; cases "i = 0") (simp_all add: last_conv_nth min_absorb2)
    moreover have "drop j key = [] \<or> hd (drop j key) \<in> set key_separators"
      using k(2,4) by (auto simp: hd_drop_conv_nth le_less)
    moreover have "\<exists>n \<in> set credential_names. spelled n (take (j - i) (drop i key))" using k(5) by (simp only: list_ex_iff)
    ultimately show "\<exists>a w c. key = a @ w @ c \<and> (a = [] \<or> last a \<in> set key_separators)
        \<and> (\<exists>n \<in> set credential_names. spelled n w) \<and> (c = [] \<or> hd c \<in> set key_separators)"
      by (intro exI conjI)
  qed
qed

section \<open>Properties\<close>

text \<open>What a scrubbed value looks like: under a sensitive key, at any depth, only the placeholder.\<close>

fun scrubbed :: "jv \<Rightarrow> bool" where
  "scrubbed (JArr xs) = list_all scrubbed xs"
| "scrubbed (JObj m) =
     list_all (\<lambda>(k, v). if names_credential k then v = JStr REDACTION_PLACEHOLDER else scrubbed v) m"
| "scrubbed v = True"

text \<open>The shape outside sensitive keys, which scrubbing must keep.\<close>

fun same_shape :: "jv \<Rightarrow> jv \<Rightarrow> bool" where
  "same_shape (JArr xs) w = (case w of JArr ys \<Rightarrow> list_all2 same_shape xs ys | _ \<Rightarrow> False)"
| "same_shape (JObj m) w =
     (case w of JObj n \<Rightarrow>
        list_all2 (\<lambda>(k, v) (k', v'). k' = k \<and> (names_credential k \<or> same_shape v v')) m n
      | _ \<Rightarrow> False)"
| "same_shape v w = (w = v)"

lemma redact_scrubbed: "scrubbed (redactSensitiveValue v)"
  by (induction v rule: redactSensitiveValue.induct) (auto simp: list_all_iff isSensitiveKey_names)

lemma redact_fixed: "scrubbed v \<Longrightarrow> redactSensitiveValue v = v"
proof (induction v rule: redactSensitiveValue.induct)
  case (1 xs)
  then show ?case by (simp add: list_all_iff map_idI)
next
  case (2 m)
  have "(\<lambda>(k, v). (k, if names_credential k then JStr REDACTION_PLACEHOLDER else redactSensitiveValue v)) x = x"
    if x: "x \<in> set m" for x
  proof -
    obtain k w where kw: "x = (k, w)" by (cases x)
    with x "2.prems" have "if names_credential k then w = JStr REDACTION_PLACEHOLDER else scrubbed w"
      by (auto simp: list_all_iff)
    with "2.IH" [OF x kw [symmetric], unfolded isSensitiveKey_names] show ?thesis by (cases "names_credential k") (auto simp: kw isSensitiveKey_names)
  qed
  then show ?case by (simp add: map_idI isSensitiveKey_names)
qed simp_all

lemma redact_shape: "same_shape v (redactSensitiveValue v)"
proof (induction v rule: redactSensitiveValue.induct)
  case (2 m)
  have "names_credential k \<or> same_shape w (if names_credential k then JStr REDACTION_PLACEHOLDER
      else redactSensitiveValue w)" if "(k, w) \<in> set m" for k w
    using "2.IH" [OF that refl, unfolded isSensitiveKey_names] by (cases "names_credential k") simp_all
  then show ?case by (auto simp: list_all2_map2 list_all2_same isSensitiveKey_names)
qed (simp_all add: list_all2_map2 list_all2_same)

text \<open>C39: Scrubbing hides exactly what it names. A key is sensitive when, between its ends or its separators \<open>.\<close>, \<open>_\<close>
  and \<open>-\<close>, it spells one of the twenty-one credential names in any case; under every such key, at every depth, a scrubbed
  value has the placeholder and nothing else, everything else is as it was, and scrubbing twice is scrubbing once.\<close>

theorem redaction_complete:
  "(isSensitiveKey k \<longleftrightarrow> names_credential k)
   \<and> scrubbed (redactSensitiveValue v) \<and> same_shape v (redactSensitiveValue v)
   \<and> redactSensitiveValue (redactSensitiveValue v) = redactSensitiveValue v"
  by (simp add: isSensitiveKey_names redact_scrubbed redact_shape redact_fixed)

definition wit_body :: jv where
  "wit_body = JObj [(''model.api_KEY'', JStr ''x''), (''tokens'', JArr [JObj [(''token'', JNull)], JBool True])]"

theorem redaction_complete_witness:
  "isSensitiveKey ''model.api_KEY'' \<and> \<not> isSensitiveKey ''tokens''
   \<and> redactSensitiveValue wit_body = JObj [(''model.api_KEY'', JStr REDACTION_PLACEHOLDER),
        (''tokens'', JArr [JObj [(''token'', JStr REDACTION_PLACEHOLDER)], JBool True])]"
proof -
  have n: "names_credential ''model.api_KEY''" "\<not> names_credential ''tokens''" "names_credential ''token''" by code_simp+
  have k: "isSensitiveKey k \<longleftrightarrow> names_credential k" for k using redaction_complete [of k JNull] by blast
  show ?thesis by (simp add: k n wit_body_def)
qed

section \<open>A corner case\<close>

text \<open>The lookahead that keeps a redacted authorization from being redacted again is evaded: the white space before the
  placeholder may be given back, so the placeholder is taken for a value and its closing bracket is left over.\<close>

lemma redacted_authorization_redacted_again:
  "rreplace AUTHORIZATION_TEXT_PATTERN (\<lambda>st. capture st 1 @ REDACTION_PLACEHOLDER) ''authorization: [REDACTED]''
     = ''authorization:[REDACTED]]''"
  by code_simp

end
