(* ===== verification/Errors.thy ===== *)
theory Errors
  imports Redaction
begin

text \<open>
  The package's error values: \<open>src/core/errors.ts\<close>, \<open>src/core/error-factories.ts\<close>,
  \<open>src/core/gateway/rpc/error.ts\<close> and \<open>src/core/transport/error.ts\<close>. A
  thrown value is an \<open>unknown\<close>: an error object (its class, its message, its own enumerable
  properties in order, its cause) or plain data. The readers inspect properties only, as the
  sources do, so they apply to both. Functions, symbols, bigints and cyclic objects are not
  values of the model.
\<close>

section \<open>Error types and codes\<close>

datatype ApiClientErrorType =
    TUnknown | TValidation | TConfiguration | THttp | TGatewayHttp | TGatewayRpc | TTransport
  | TTimeout | TAbort | TBackendUnavailable | TAuth | TRun

definition type_text :: "ApiClientErrorType \<Rightarrow> string" where
  "type_text t =
     (case t of TUnknown \<Rightarrow> ''unknown'' | TValidation \<Rightarrow> ''validation''
      | TConfiguration \<Rightarrow> ''configuration'' | THttp \<Rightarrow> ''http'' | TGatewayHttp \<Rightarrow> ''gateway_http''
      | TGatewayRpc \<Rightarrow> ''gateway_rpc'' | TTransport \<Rightarrow> ''transport'' | TTimeout \<Rightarrow> ''timeout''
      | TAbort \<Rightarrow> ''abort'' | TBackendUnavailable \<Rightarrow> ''backend_unavailable'' | TAuth \<Rightarrow> ''auth''
      | TRun \<Rightarrow> ''run'')"

datatype ApiClientErrorCode =
    CUnknown | ValidationFailed | InvalidConfig | InvalidJson | HttpRequestFailed | GatewayError
  | RequestFailed | CTimeout | Aborted | SocketError | SocketClosed | SocketUnavailable
  | ConnectFailed | BackendUnavailable | EndpointNotFound | ProtocolMismatch | AuthRequired
  | AuthForbidden | CapabilityUnavailable | PermissionDenied | InvalidRequest | Conflict
  | RateLimited | TransportUnavailable | TransportProtocolError | ServerOverloaded
  | RunFailed | RunCancelled | RunIncomplete | RunOutputMissing

definition code_text :: "ApiClientErrorCode \<Rightarrow> string" where
  "code_text c =
     (case c of CUnknown \<Rightarrow> ''unknown'' | ValidationFailed \<Rightarrow> ''validation_failed''
      | InvalidConfig \<Rightarrow> ''invalid_config'' | InvalidJson \<Rightarrow> ''invalid_json''
      | HttpRequestFailed \<Rightarrow> ''http_request_failed'' | GatewayError \<Rightarrow> ''gateway_error''
      | RequestFailed \<Rightarrow> ''request_failed'' | CTimeout \<Rightarrow> ''timeout'' | Aborted \<Rightarrow> ''aborted''
      | SocketError \<Rightarrow> ''socket_error'' | SocketClosed \<Rightarrow> ''socket_closed''
      | SocketUnavailable \<Rightarrow> ''socket_unavailable'' | ConnectFailed \<Rightarrow> ''connect_failed''
      | BackendUnavailable \<Rightarrow> ''backend_unavailable'' | EndpointNotFound \<Rightarrow> ''endpoint_not_found''
      | ProtocolMismatch \<Rightarrow> ''protocol_mismatch'' | AuthRequired \<Rightarrow> ''auth_required''
      | AuthForbidden \<Rightarrow> ''auth_forbidden'' | CapabilityUnavailable \<Rightarrow> ''capability_unavailable''
      | PermissionDenied \<Rightarrow> ''permission_denied'' | InvalidRequest \<Rightarrow> ''invalid_request''
      | Conflict \<Rightarrow> ''conflict'' | RateLimited \<Rightarrow> ''rate_limited''
      | TransportUnavailable \<Rightarrow> ''transport_unavailable''
      | TransportProtocolError \<Rightarrow> ''transport_protocol_error''
      | ServerOverloaded \<Rightarrow> ''server_overloaded'' | RunFailed \<Rightarrow> ''run_failed''
      | RunCancelled \<Rightarrow> ''run_cancelled'' | RunIncomplete \<Rightarrow> ''run_incomplete''
      | RunOutputMissing \<Rightarrow> ''run_output_missing'')"

section \<open>Error values\<close>

datatype eclass =
    CError | CTypeError | CRangeError | CSyntaxError | CApiClientError | CHttpApiError
  | CGatewayHttpError | CGatewayRpcError | CTransportError | CCapabilityCallRejected

datatype jserror =
    JsError (e_class: eclass) (e_message: string) (e_own: "(string, jv) omap")
      (e_cause: "unknown option")
  and unknown = UErr jserror | UVal jv

definition class_name :: "eclass \<Rightarrow> string" where
  "class_name c =
     (case c of CTypeError \<Rightarrow> ''TypeError'' | CRangeError \<Rightarrow> ''RangeError''
      | CSyntaxError \<Rightarrow> ''SyntaxError'' | _ \<Rightarrow> ''Error'')"

text \<open>\<open>error instanceof ApiClientError\<close>: every class of the package extends it.\<close>

definition isApiClientError :: "unknown \<Rightarrow> bool" where
  "isApiClientError e =
     (case e of
        UErr x \<Rightarrow> e_class x \<notin> {CError, CTypeError, CRangeError, CSyntaxError}
      | UVal _ \<Rightarrow> False)"

text \<open>
  The constructor of \<open>ApiClientError\<close> and of its subclasses: \<open>name\<close> is assigned last, extra
  fields follow.
\<close>

definition mk_error ::
  "eclass \<Rightarrow> string \<Rightarrow> string \<Rightarrow> string option \<Rightarrow> string option \<Rightarrow> unknown option \<Rightarrow>
   (string, jv) omap \<Rightarrow> jserror" where
  "mk_error cls nm msg ty cd cause extra =
     JsError cls msg
       ([(''type'', JStr (case ty of Some t \<Rightarrow> t | None \<Rightarrow> type_text TUnknown)),
         (''code'', JStr (case cd of Some c \<Rightarrow> c | None \<Rightarrow> code_text CUnknown)),
         (''runtime'', JUndef),
         (''name'', JStr nm)] @ extra) cause"

definition api_error ::
  "string \<Rightarrow> ApiClientErrorType option \<Rightarrow> ApiClientErrorCode option \<Rightarrow> unknown option \<Rightarrow> jserror" where
  "api_error msg ty cd cause =
     mk_error CApiClientError ''ApiClientError'' msg (map_option type_text ty)
       (map_option code_text cd) cause []"

section \<open>Property readers\<close>

definition err_prop :: "unknown \<Rightarrow> string \<Rightarrow> jv" where
  "err_prop e k =
     (case e of
        UVal v \<Rightarrow> get_prop v k
      | UErr x \<Rightarrow>
          (case om_get (e_own x) k of
             Some v \<Rightarrow> v
           | None \<Rightarrow>
               if k = ''message'' then JStr (e_message x)
               else if k = ''name'' then JStr (class_name (e_class x))
               else JUndef))"

definition isErrRecord :: "unknown \<Rightarrow> bool" where
  "isErrRecord e = (case e of UErr _ \<Rightarrow> True | UVal v \<Rightarrow> is_js_object v)"

definition readStringProperty :: "unknown \<Rightarrow> string \<Rightarrow> string option" where
  "readStringProperty e k =
     (if \<not> isErrRecord e then None
      else case err_prop e k of JStr s \<Rightarrow> if trim s \<noteq> [] then Some s else None | _ \<Rightarrow> None)"

text \<open>\<open>RuntimeErrorMetadata\<close>: the validated view of \<open>error.runtime\<close>.\<close>

definition present_text :: "jv \<Rightarrow> bool" where
  "present_text v = (case v of JStr s \<Rightarrow> trim s \<noteq> [] | _ \<Rightarrow> False)"

definition opt_finite :: "jv \<Rightarrow> bool" where
  "opt_finite v = (case v of JUndef \<Rightarrow> True | JNum x \<Rightarrow> is_finite x | _ \<Rightarrow> False)"

definition getRuntimeErrorMetadata :: "unknown \<Rightarrow> jv option" where
  "getRuntimeErrorMetadata e =
     (if \<not> isErrRecord e then None
      else let rt = err_prop e ''runtime'' in
        if \<not> is_plain_object rt then None
        else if present_text (get_prop rt ''provider'') \<and> present_text (get_prop rt ''transport'')
          \<and> present_text (get_prop rt ''operation'')
          \<and> (\<exists>b. get_prop rt ''retryable'' = JBool b)
          \<and> opt_finite (get_prop rt ''retryAfterMs'') \<and> opt_finite (get_prop rt ''status'')
          \<and> (case get_prop rt ''providerCode'' of JUndef \<Rightarrow> True | JStr _ \<Rightarrow> True | _ \<Rightarrow> False)
        then Some rt else None)"

definition number_text :: "jnum \<Rightarrow> string" where
  "number_text x =
     (case x of Fin _ \<Rightarrow> num_text x | PosInf \<Rightarrow> ''Infinity'' | NegInf \<Rightarrow> ''-Infinity'' | NaN \<Rightarrow> ''NaN'')"

definition stringifyUnknownError :: "unknown \<Rightarrow> string" where
  "stringifyUnknownError e =
     (case e of
        UErr x \<Rightarrow> json_text (JObj (e_own x))
      | UVal v \<Rightarrow>
          (case v of
             JStr s \<Rightarrow> s
           | JNum x \<Rightarrow> number_text x
           | JBool b \<Rightarrow> (if b then ''true'' else ''false'')
           | JUndef \<Rightarrow> ''undefined''
           | JNull \<Rightarrow> ''null''
           | _ \<Rightarrow> json_text v))"

definition getErrorMessage :: "unknown \<Rightarrow> string \<Rightarrow> string" where
  "getErrorMessage e fallback =
     (case e of
        UErr x \<Rightarrow>
          if trim (e_message x) \<noteq> [] then trim (e_message x)
          else (let m = trim (stringifyUnknownError e) in if m \<noteq> [] then m else fallback)
      | UVal _ \<Rightarrow> (let m = trim (stringifyUnknownError e) in if m \<noteq> [] then m else fallback))"

definition getErrorCode :: "unknown \<Rightarrow> string option" where
  "getErrorCode e = readStringProperty e ''code''"

definition getErrorType :: "unknown \<Rightarrow> string option" where
  "getErrorType e = readStringProperty e ''type''"

definition toError :: "unknown \<Rightarrow> string \<Rightarrow> jserror" where
  "toError e fallback =
     (case e of
        UErr x \<Rightarrow> x
      | UVal _ \<Rightarrow> api_error (getErrorMessage e fallback) (Some TUnknown) (Some CUnknown) (Some e))"

definition isAbortError :: "unknown \<Rightarrow> bool" where
  "isAbortError e =
     (getErrorType e = Some (type_text TAbort) \<or> getErrorCode e = Some (code_text Aborted) \<or>
      getErrorCode e = Some ''ABORT_ERR'' \<or> readStringProperty e ''name'' = Some ''AbortError'')"

definition getErrorStatus :: "unknown \<Rightarrow> jnum option" where
  "getErrorStatus e =
     (if \<not> isErrRecord e then None
      else case err_prop e ''status'' of JNum x \<Rightarrow> if is_finite x then Some x else None | _ \<Rightarrow> None)"

definition isAuthError :: "unknown \<Rightarrow> bool" where
  "isAuthError e =
     (if getErrorStatus e = Some (num 401) \<or> getErrorStatus e = Some (num 403) then True
      else if getErrorType e = Some (type_text TAuth) then True
      else getErrorCode e = Some (code_text AuthRequired)
        \<or> getErrorCode e = Some (code_text AuthForbidden))"

definition isEndpointNotFoundError :: "unknown \<Rightarrow> bool" where
  "isEndpointNotFoundError e = (getErrorCode e = Some (code_text EndpointNotFound))"

record serialized_error =
  se_name :: string
  se_message :: string
  se_type :: "string option"
  se_code :: "string option"

definition serializeError :: "unknown \<Rightarrow> string \<Rightarrow> serialized_error" where
  "serializeError e fallback =
     (let n = UErr (toError e fallback) in
      \<lparr>se_name = (case err_prop n ''name'' of JStr s \<Rightarrow> if s \<noteq> [] then s else ''Error'' | _ \<Rightarrow> ''Error''),
       se_message = getErrorMessage n fallback,
       se_type = getErrorType n,
       se_code = getErrorCode n\<rparr>)"

section \<open>Factories\<close>

definition invalidInputError :: "string \<Rightarrow> jserror" where
  "invalidInputError msg = api_error msg (Some TValidation) (Some ValidationFailed) None"

definition invalidConfigError :: "string \<Rightarrow> jserror" where
  "invalidConfigError msg = api_error msg (Some TConfiguration) (Some InvalidConfig) None"

definition protocolError :: "ApiClientErrorType \<Rightarrow> string \<Rightarrow> jserror" where
  "protocolError ty msg = api_error msg (Some ty) (Some ProtocolMismatch) None"

definition invalidJsonError :: "ApiClientErrorType \<Rightarrow> string \<Rightarrow> jserror" where
  "invalidJsonError ty msg = api_error msg (Some ty) (Some InvalidJson) None"

definition abortError :: "string \<Rightarrow> jserror" where
  "abortError msg =
     mk_error CApiClientError ''AbortError'' msg (Some (type_text TAbort)) (Some (code_text Aborted))
       None []"

definition notConnectedError :: "string \<Rightarrow> jserror" where
  "notConnectedError msg = api_error msg (Some TTransport) (Some SocketUnavailable) None"

section \<open>Transport errors\<close>

datatype TransportKind = KHttp | KSse | KWebsocket | KJsonRpc | KStdio | KUnix

datatype TransportPhase = PConfigure | PAuthenticate | PConnect | PRequest | PDecode | PClose

definition kind_text :: "TransportKind \<Rightarrow> string" where
  "kind_text k =
     (case k of KHttp \<Rightarrow> ''http'' | KSse \<Rightarrow> ''sse'' | KWebsocket \<Rightarrow> ''websocket''
      | KJsonRpc \<Rightarrow> ''json-rpc'' | KStdio \<Rightarrow> ''stdio'' | KUnix \<Rightarrow> ''unix'')"

definition phase_text :: "TransportPhase \<Rightarrow> string" where
  "phase_text p =
     (case p of PConfigure \<Rightarrow> ''configure'' | PAuthenticate \<Rightarrow> ''authenticate''
      | PConnect \<Rightarrow> ''connect'' | PRequest \<Rightarrow> ''request'' | PDecode \<Rightarrow> ''decode''
      | PClose \<Rightarrow> ''close'')"

definition kinds :: "TransportKind list" where
  "kinds = [KHttp, KSse, KWebsocket, KJsonRpc, KStdio, KUnix]"

definition phases :: "TransportPhase list" where
  "phases = [PConfigure, PAuthenticate, PConnect, PRequest, PDecode, PClose]"

text \<open>\<open>TransportErrorMetadata\<close>; \<open>code\<close> is text or a number.\<close>

record transport_meta =
  tm_kind :: TransportKind
  tm_phase :: TransportPhase
  tm_operation :: string
  tm_retryable :: bool
  tm_attempt :: int
  tm_status :: "rat option"
  tm_code :: "(string + rat) option"
  tm_retryAfterMs :: "rat option"

definition plain_meta ::
  "TransportKind \<Rightarrow> TransportPhase \<Rightarrow> string \<Rightarrow> bool \<Rightarrow> int \<Rightarrow> transport_meta" where
  "plain_meta k p op r a =
     \<lparr>tm_kind = k, tm_phase = p, tm_operation = op, tm_retryable = r, tm_attempt = a,
      tm_status = None, tm_code = None, tm_retryAfterMs = None\<rparr>"

definition opt_member :: "string \<Rightarrow> jv option \<Rightarrow> (string, jv) omap" where
  "opt_member k v = (case v of None \<Rightarrow> [] | Some x \<Rightarrow> [(k, x)])"

text \<open>The frozen copy of the metadata that the error carries as its \<open>transport\<close> property.\<close>

definition meta_object :: "transport_meta \<Rightarrow> jv" where
  "meta_object m =
     JObj ([(''kind'', JStr (kind_text (tm_kind m))), (''phase'', JStr (phase_text (tm_phase m))),
            (''operation'', JStr (tm_operation m)), (''retryable'', JBool (tm_retryable m)),
            (''attempt'', JNum (num (tm_attempt m)))]
       @ opt_member ''status'' (map_option (\<lambda>q. JNum (Fin q)) (tm_status m))
       @ opt_member ''code'' (map_option (\<lambda>c. case c of Inl s \<Rightarrow> JStr s | Inr q \<Rightarrow> JNum (Fin q)) (tm_code m))
       @ opt_member ''retryAfterMs'' (map_option (\<lambda>q. JNum (Fin q)) (tm_retryAfterMs m)))"

definition finite_of :: "jv \<Rightarrow> rat option" where
  "finite_of v = (case v of JNum (Fin q) \<Rightarrow> Some q | _ \<Rightarrow> None)"

definition text_of :: "jv \<Rightarrow> string option" where
  "text_of v = (case v of JStr s \<Rightarrow> Some s | _ \<Rightarrow> None)"

definition meta_code_ok :: "jv \<Rightarrow> bool" where
  "meta_code_ok v = (case v of JUndef \<Rightarrow> True | JStr _ \<Rightarrow> True | JNum x \<Rightarrow> is_finite x | _ \<Rightarrow> False)"

definition meta_delay_ok :: "jv \<Rightarrow> bool" where
  "meta_delay_ok v = (v = JUndef \<or> (case finite_of v of Some q \<Rightarrow> 0 \<le> q | None \<Rightarrow> False))"

definition getTransportErrorMetadata :: "unknown \<Rightarrow> transport_meta option" where
  "getTransportErrorMetadata e =
     (let t = err_prop e ''transport'' in
      if (case e of UVal v \<Rightarrow> \<not> is_plain_object v | UErr _ \<Rightarrow> False) \<or> \<not> is_plain_object t then None
      else
        (case (Option.bind (text_of (get_prop t ''kind'')) (\<lambda>k. find (\<lambda>x. kind_text x = k) kinds),
               Option.bind (text_of (get_prop t ''phase'')) (\<lambda>p. find (\<lambda>x. phase_text x = p) phases),
               text_of (get_prop t ''operation''), asBoolean (get_prop t ''retryable''),
               finite_of (get_prop t ''attempt'')) of
           (Some k, Some p, Some op, Some r, Some a) \<Rightarrow>
             if trim op = [] \<or> \<not> is_int_rat a \<or> a < 1 \<or> \<not> opt_finite (get_prop t ''status'')
               \<or> \<not> meta_code_ok (get_prop t ''code'') \<or> \<not> meta_delay_ok (get_prop t ''retryAfterMs'')
             then None
             else Some \<lparr>tm_kind = k, tm_phase = p, tm_operation = op, tm_retryable = r,
                    tm_attempt = \<lfloor>a\<rfloor>, tm_status = finite_of (get_prop t ''status''),
                    tm_code = (case get_prop t ''code'' of JStr s \<Rightarrow> Some (Inl s)
                               | JNum (Fin q) \<Rightarrow> Some (Inr q) | _ \<Rightarrow> None),
                    tm_retryAfterMs = finite_of (get_prop t ''retryAfterMs'')\<rparr>
         | _ \<Rightarrow> None))"

text \<open>Unlike the expression of the redaction module, this one is case sensitive.\<close>

definition bearerCredentialPattern :: re where
  "bearerCredentialPattern =
     rseq [RGroup 1 (RSeq (rseq (map (\<lambda>x. RByte (\<lambda>c. c = x)) ''Bearer'')) (rplus RSpace)),
       RGroup 2 (rplus (RByte (\<lambda>c. is_alnum c \<or> c \<in> set ''._~+/=-'')))]"

definition safeTransportMessage :: "string \<Rightarrow> string" where
  "safeTransportMessage msg =
     redactSensitiveText
       (rreplace bearerCredentialPattern (\<lambda>st. capture st 1 @ REDACTION_PLACEHOLDER) msg)"

definition TransportError :: "string \<Rightarrow> transport_meta \<Rightarrow> unknown option \<Rightarrow> jserror" where
  "TransportError msg m cause =
     mk_error CTransportError ''TransportError'' (safeTransportMessage msg)
       (Some (type_text TTransport)) (Some (code_text TransportUnavailable)) cause
       [(''transport'', meta_object m)]"

definition GatewayRpcError :: "string \<Rightarrow> string option \<Rightarrow> transport_meta option \<Rightarrow> jserror" where
  "GatewayRpcError msg code transport =
     mk_error CGatewayRpcError ''GatewayRpcError'' msg (Some (type_text TGatewayRpc))
       (Some (case code of Some c \<Rightarrow> c | None \<Rightarrow> code_text GatewayError)) None
       [(''transport'', (case transport of Some m \<Rightarrow> meta_object m | None \<Rightarrow> JUndef))]"

section \<open>Facts\<close>

text \<open>The metadata a transport error is built with is the metadata read back from it.\<close>

definition meta_ok :: "transport_meta \<Rightarrow> bool" where
  "meta_ok m = (trim (tm_operation m) \<noteq> [] \<and> 1 \<le> tm_attempt m
     \<and> (case tm_retryAfterMs m of Some q \<Rightarrow> 0 \<le> q | None \<Rightarrow> True))"

lemma find_kind [simp]: "find (\<lambda>x. kind_text x = kind_text k) kinds = Some k"
  by (cases k) (simp_all add: kinds_def kind_text_def)

lemma find_phase [simp]: "find (\<lambda>x. phase_text x = phase_text p) phases = Some p"
  by (cases p) (simp_all add: phases_def phase_text_def)

lemma err_prop_mk_error [simp]:
  "err_prop (UErr (mk_error cls nm msg ty cd cause extra)) k =
     (if k = ''type'' then JStr (case ty of Some t \<Rightarrow> t | None \<Rightarrow> type_text TUnknown)
      else if k = ''code'' then JStr (case cd of Some c \<Rightarrow> c | None \<Rightarrow> code_text CUnknown)
      else if k = ''runtime'' then JUndef
      else if k = ''name'' then JStr nm
      else case om_get extra k of Some v \<Rightarrow> v
           | None \<Rightarrow> if k = ''message'' then JStr msg else JUndef)"
  by (simp add: err_prop_def mk_error_def map_add_def split: option.splits)

lemma is_int_rat_of_rat_floor [simp]: "\<not> is_int_rat (rat_of_int i) \<longleftrightarrow> False"
  by simp

lemma meta_object_props:
  "get_prop (meta_object m) ''kind'' = JStr (kind_text (tm_kind m))"
  "get_prop (meta_object m) ''phase'' = JStr (phase_text (tm_phase m))"
  "get_prop (meta_object m) ''operation'' = JStr (tm_operation m)"
  "get_prop (meta_object m) ''retryable'' = JBool (tm_retryable m)"
  "get_prop (meta_object m) ''attempt'' = JNum (Fin (of_int (tm_attempt m)))"
  "get_prop (meta_object m) ''status'' =
     (case tm_status m of None \<Rightarrow> JUndef | Some q \<Rightarrow> JNum (Fin q))"
  "get_prop (meta_object m) ''code'' =
     (case tm_code m of None \<Rightarrow> JUndef | Some (Inl s) \<Rightarrow> JStr s | Some (Inr q) \<Rightarrow> JNum (Fin q))"
  "get_prop (meta_object m) ''retryAfterMs'' =
     (case tm_retryAfterMs m of None \<Rightarrow> JUndef | Some q \<Rightarrow> JNum (Fin q))"
  "is_plain_object (meta_object m)"
  by (auto simp: meta_object_def get_prop_def opt_member_def num_def is_plain_object_def
      split: option.splits sum.splits)

lemma TransportError_transport [simp]:
  "err_prop (UErr (TransportError msg m c)) ''transport'' = meta_object m"
  by (simp add: TransportError_def)

lemma getTransportErrorMetadata_object:
  assumes "meta_ok m" and "err_prop (UErr x) ''transport'' = meta_object m"
  shows "getTransportErrorMetadata (UErr x) = Some m"
  using assms
  by (cases "tm_status m"; cases "tm_code m"; cases "tm_retryAfterMs m")
    (auto simp: getTransportErrorMetadata_def meta_object_props meta_ok_def opt_finite_def
      finite_of_def text_of_def meta_code_ok_def meta_delay_ok_def asBoolean_def Let_def split: sum.splits)

lemma TransportError_metadata:
  "meta_ok m \<Longrightarrow> getTransportErrorMetadata (UErr (TransportError msg m c)) = Some m"
  by (rule getTransportErrorMetadata_object) simp_all

lemma plain_meta_ok: "trim op \<noteq> [] \<Longrightarrow> 1 \<le> a \<Longrightarrow> meta_ok (plain_meta k p op r a)"
  by (simp add: meta_ok_def plain_meta_def)

lemma isAbortError_TransportError [simp]: "\<not> isAbortError (UErr (TransportError msg m c))"
  by (simp add: isAbortError_def getErrorType_def getErrorCode_def readStringProperty_def
      isErrRecord_def TransportError_def type_text_def code_text_def)

lemma isAbortError_abortError [simp]: "isAbortError (UErr (abortError msg))"
  by (simp add: isAbortError_def getErrorType_def readStringProperty_def isErrRecord_def
      abortError_def type_text_def trim_graph graph_char_def)

lemma TransportError_type: "err_prop (UErr (TransportError msg m c)) ''type'' = JStr ''transport''"
  by (simp add: TransportError_def type_text_def)

lemma getTransportErrorMetadata_ok: "getTransportErrorMetadata e = Some m \<Longrightarrow> meta_ok m"
  unfolding getTransportErrorMetadata_def Let_def
  by (auto simp: meta_ok_def meta_delay_ok_def is_int_rat_iff finite_of_def [of JUndef]
      split: if_splits option.splits)

section \<open>Properties\<close>

text \<open>Transport metadata. What the reader accepts from any thrown value is well formed (an operation
  name, an attempt number from 1, a non-negative retry delay), and it reads back exactly the
  metadata a transport error was built with, whatever its message and cause; such an error is of
  type transport and is never taken for an abort.\<close>

theorem transport_metadata_roundtrip:
  "(getTransportErrorMetadata e = Some m \<longrightarrow> meta_ok m) \<and>
   (meta_ok m \<longrightarrow>
      getTransportErrorMetadata (UErr (TransportError msg m c)) = Some m
      \<and> err_prop (UErr (TransportError msg m c)) ''type'' = JStr ''transport''
      \<and> \<not> isAbortError (UErr (TransportError msg m c)))"
  using getTransportErrorMetadata_ok [of e m] TransportError_metadata [of m msg c]
  by (simp add: TransportError_type)

theorem transport_metadata_roundtrip_witness:
  "getTransportErrorMetadata (UErr (TransportError ''boom'' (plain_meta KSse PConnect ''read'' True 3) None))
     = Some (plain_meta KSse PConnect ''read'' True 3)"
  using transport_metadata_roundtrip [of _ "plain_meta KSse PConnect ''read'' True 3"] plain_meta_ok
  by (simp add: meta_ok_def plain_meta_def trim_graph graph_char_def)

end
