(* ===== verification/Utf8.thy ===== *)
theory Utf8
  imports Json
begin

text \<open>
  UTF-8 as the package's decoders check it: \<open>TextDecoder\<close> in fatal mode. The strings of the model
  are the encodings of JavaScript strings, so they are well formed (\<open>json_utf8\<close> says it of every
  string inside a value), and so is the text that \<open>JSON.stringify\<close> prints of such a value.
\<close>

text \<open>Well-formed UTF-8, as the fatal \<open>TextDecoder\<close> requires it.\<close>

definition cont_byte :: "nat \<Rightarrow> nat \<Rightarrow> char \<Rightarrow> bool" where
  "cont_byte lo hi c = (lo \<le> (of_char c :: nat) \<and> (of_char c :: nat) \<le> hi)"

definition bytes_in :: "(nat \<times> nat) list \<Rightarrow> string \<Rightarrow> bool" where
  "bytes_in rs s =
     (length rs \<le> length s \<and> list_all2 (\<lambda>(lo, hi) c. cont_byte lo hi c) rs (take (length rs) s))"

text \<open>The byte ranges of the well-formed sequences (Unicode, table 3-7).\<close>

definition utf8_forms :: "(nat \<times> nat) list list" where
  "utf8_forms =
     [[(0x00, 0x7F)], [(0xC2, 0xDF), (0x80, 0xBF)],
      [(0xE0, 0xE0), (0xA0, 0xBF), (0x80, 0xBF)], [(0xE1, 0xEC), (0x80, 0xBF), (0x80, 0xBF)],
      [(0xED, 0xED), (0x80, 0x9F), (0x80, 0xBF)], [(0xEE, 0xEF), (0x80, 0xBF), (0x80, 0xBF)],
      [(0xF0, 0xF0), (0x90, 0xBF), (0x80, 0xBF), (0x80, 0xBF)],
      [(0xF1, 0xF3), (0x80, 0xBF), (0x80, 0xBF), (0x80, 0xBF)],
      [(0xF4, 0xF4), (0x80, 0x8F), (0x80, 0xBF), (0x80, 0xBF)]]"

definition utf8_next :: "string \<Rightarrow> nat" where
  "utf8_next s = (case find (\<lambda>f. bytes_in f s) utf8_forms of Some f \<Rightarrow> length f | None \<Rightarrow> 0)"

fun utf8_run :: "nat \<Rightarrow> string \<Rightarrow> bool" where
  "utf8_run n [] = True"
| "utf8_run 0 (_ # _) = False"
| "utf8_run (Suc n) (c # s) =
     (0 < utf8_next (c # s) \<and> utf8_run n (drop (utf8_next (c # s)) (c # s)))"

definition utf8_valid :: "string \<Rightarrow> bool" where
  "utf8_valid s = utf8_run (length s) s"

definition utf8_bom :: string where
  "utf8_bom = map char_of [0xEF, 0xBB, 0xBF :: nat]"

text \<open>\<open>decode\<close> of a fresh decoder: a leading byte order mark is dropped.\<close>

definition utf8_decode :: "string \<Rightarrow> string option" where
  "utf8_decode bs =
     (if \<not> utf8_valid bs then None
      else if prefix utf8_bom bs then Some (drop 3 bs) else Some bs)"

section \<open>Well-formed text\<close>

inductive utf8_seq :: "string \<Rightarrow> bool" where
  Empty: "utf8_seq []"
| Step: "f \<in> set utf8_forms \<Longrightarrow> list_all2 (\<lambda>(lo, hi) c. cont_byte lo hi c) f p \<Longrightarrow> utf8_seq s \<Longrightarrow>
     utf8_seq (p @ s)"

definition lead_ok :: "(nat \<times> nat) list \<Rightarrow> nat \<Rightarrow> bool" where
  "lead_ok f n = (fst (hd f) \<le> n \<and> n \<le> snd (hd f))"

lemma utf8_forms_nonempty: "f \<in> set utf8_forms \<Longrightarrow> f \<noteq> []"
  by (auto simp: utf8_forms_def)

lemma bytes_in_lead: "bytes_in f (c # s) \<Longrightarrow> f \<noteq> [] \<Longrightarrow> lead_ok f (of_char c)"
  by (cases f) (auto simp: bytes_in_def lead_ok_def cont_byte_def)

lemma utf8_forms_apart:
  "\<forall>f \<in> set utf8_forms. \<forall>g \<in> set utf8_forms.
     f = g \<or> snd (hd f) < fst (hd g) \<or> snd (hd g) < fst (hd f)"
  by (simp add: utf8_forms_def)

lemma utf8_forms_disjoint:
  "f \<in> set utf8_forms \<Longrightarrow> g \<in> set utf8_forms \<Longrightarrow> lead_ok f n \<Longrightarrow> lead_ok g n \<Longrightarrow> f = g"
  using utf8_forms_apart by (fastforce simp: lead_ok_def)

lemma bytes_in_prefix:
  "list_all2 (\<lambda>(lo, hi) c. cont_byte lo hi c) f p \<Longrightarrow> bytes_in f (p @ s)"
  using list_all2_lengthD [of _ f p] by (fastforce simp: bytes_in_def)

lemma utf8_next_form:
  assumes "f \<in> set utf8_forms" and "bytes_in f s"
  shows "utf8_next s = length f"
proof -
  from assms obtain c t where s: "s = c # t"
    by (cases s) (auto simp: bytes_in_def dest: utf8_forms_nonempty)
  have "find (\<lambda>f. bytes_in f s) utf8_forms = Some f"
  proof (cases "find (\<lambda>f. bytes_in f s) utf8_forms")
    case None
    with assms show ?thesis by (auto simp: find_None_iff)
  next
    case (Some g)
    then have g: "g \<in> set utf8_forms" "bytes_in g s" by (auto simp: find_Some_iff)
    have "lead_ok f (of_char c)" "lead_ok g (of_char c)"
      using assms g unfolding s by (auto intro!: bytes_in_lead dest: utf8_forms_nonempty)
    with utf8_forms_disjoint [OF assms(1) g(1)] Some show ?thesis by blast
  qed
  then show ?thesis by (simp add: utf8_next_def)
qed

lemma utf8_run_seq: "utf8_seq s \<Longrightarrow> length s \<le> n \<Longrightarrow> utf8_run n s"
proof (induction arbitrary: n rule: utf8_seq.induct)
  case (Step f p s)
  have l: "length p = length f" "0 < length f"
    using Step.hyps(1,2) by (auto dest: list_all2_lengthD utf8_forms_nonempty)
  have nx: "utf8_next (p @ s) = length f"
    by (rule utf8_next_form [OF Step.hyps(1) bytes_in_prefix [OF Step.hyps(2)]])
  from l obtain c t where p: "p = c # t" by (cases p) auto
  with Step.prems obtain m where n: "n = Suc m" by (cases n) auto
  have "length s \<le> m" using Step.prems l n by (cases f) auto
  then have "utf8_run m s" by (rule Step.IH)
  then have "utf8_run m (drop (length f) (p @ s))" using l by simp
  with nx l show ?case by (simp add: p n)
qed simp

lemma utf8_run_imp_seq: "utf8_run n s \<Longrightarrow> utf8_seq s"
proof (induction n s rule: utf8_run.induct)
  case (3 n c s)
  then obtain f where f: "f \<in> set utf8_forms" "bytes_in f (c # s)" "utf8_next (c # s) = length f"
    by (auto simp: utf8_next_def find_Some_iff split: option.splits) (metis nth_mem)
  have "utf8_seq (take (length f) (c # s) @ drop (length f) (c # s))"
    using 3 f by (intro utf8_seq.Step [OF f(1)]) (auto simp: bytes_in_def)
  then show ?case by (simp only: append_take_drop_id)
qed (auto intro: utf8_seq.Empty)

lemma utf8_valid_iff: "utf8_valid s \<longleftrightarrow> utf8_seq s"
  using utf8_run_seq [of s "length s"] utf8_run_imp_seq [of "length s" s]
  by (auto simp: utf8_valid_def)

lemma utf8_valid_append [str_simps, simp]:
  assumes "utf8_valid a" and "utf8_valid b"
  shows "utf8_valid (a @ b)"
proof -
  have "utf8_seq a \<Longrightarrow> utf8_seq b \<Longrightarrow> utf8_seq (a @ b)"
    by (induction rule: utf8_seq.induct) (auto intro: utf8_seq.Step)
  with assms show ?thesis by (simp add: utf8_valid_iff)
qed

lemma utf8_valid_ascii: "\<forall>c \<in> set s. (of_char c :: nat) < 128 \<Longrightarrow> utf8_valid s"
proof (induction s)
  case Nil
  then show ?case by (simp add: utf8_valid_iff utf8_seq.Empty)
next
  case (Cons c s)
  have "utf8_seq ([c] @ s)"
    using Cons by (intro utf8_seq.Step [of "[(0, 0x7F)]"])
      (auto simp: utf8_forms_def cont_byte_def utf8_valid_iff)
  then show ?case by (simp add: utf8_valid_iff)
qed

lemma utf8_valid_Nil [simp]: "utf8_valid []"
  by (simp add: utf8_valid_def)

text \<open>Printing strings keeps them well formed: only ASCII characters are escaped, into ASCII.\<close>

lemma esc_char_ascii: "(of_char c :: nat) < 128 \<Longrightarrow> d \<in> set (esc_char c) \<Longrightarrow> (of_char d :: nat) < 128"
  by (auto simp: esc_char_def Let_def hex_digit_def split: if_splits)

lemma esc_char_high: "128 \<le> (of_char c :: nat) \<Longrightarrow> esc_char c = [c]"
  by (simp add: esc_char_def Let_def)

lemma esc_chars_form:
  assumes "f \<in> set utf8_forms" and "list_all2 (\<lambda>(lo, hi) c. cont_byte lo hi c) f p"
  shows "utf8_seq (concat (map esc_char p))"
proof (cases "f = [(0, 0x7F)]")
  case True
  with assms(2) obtain c where "p = [c]" "(of_char c :: nat) < 128"
    by (auto simp: list_all2_Cons1 cont_byte_def)
  then show ?thesis
    using utf8_valid_ascii [of "esc_char c"] esc_char_ascii [of c] by (auto simp: utf8_valid_iff)
next
  case False
  have "\<forall>r \<in> set f. 128 \<le> fst r"
    using assms(1) False by (auto simp: utf8_forms_def)
  with assms(2) have "\<forall>c \<in> set p. 128 \<le> (of_char c :: nat)"
    by (induction f p rule: list_all2_induct) (auto simp: cont_byte_def)
  then have "concat (map esc_char p) = p"
    by (induction p) (simp_all add: esc_char_high)
  with utf8_seq.Step [OF assms utf8_seq.Empty] show ?thesis by simp
qed

lemma utf8_valid_quote: "utf8_valid s \<Longrightarrow> utf8_valid (quote s)"
proof -
  assume "utf8_valid s"
  then have "utf8_seq s" by (simp add: utf8_valid_iff)
  then have "utf8_valid (concat (map esc_char s))"
    by (induction rule: utf8_seq.induct) (auto dest: esc_chars_form simp: utf8_valid_iff [symmetric])
  then have "utf8_valid ([char_of (34::nat)] @ concat (map esc_char s) @ [char_of (34::nat)])"
    using utf8_valid_ascii [of "[char_of (34::nat)]"] by (intro utf8_valid_append) simp_all
  then show ?thesis by (simp add: quote_def)
qed

text \<open>Every string inside a value is well formed.\<close>

fun json_utf8 :: "jv \<Rightarrow> bool"
  and items_utf8 :: "jv list \<Rightarrow> bool"
  and members_utf8 :: "(string \<times> jv) list \<Rightarrow> bool" where
  "json_utf8 (JStr s) = utf8_valid s"
| "json_utf8 (JArr vs) = items_utf8 vs"
| "json_utf8 (JObj m) = members_utf8 m"
| "json_utf8 _ = True"
| "items_utf8 [] = True"
| "items_utf8 (v # vs) = (json_utf8 v \<and> items_utf8 vs)"
| "members_utf8 [] = True"
| "members_utf8 ((k, v) # m) = (utf8_valid k \<and> json_utf8 v \<and> members_utf8 m)"

lemma digit_ascii: "is_digit c \<Longrightarrow> (of_char c :: nat) < 128"
  by (simp add: is_digit_def)

lemma show_nat_ascii: "c \<in> set (show_nat n) \<Longrightarrow> (of_char c :: nat) < 128"
  using show_nat_digits [of n] digit_ascii by blast

lemma frac_text_ascii: "c \<in> set (frac_text n q) \<Longrightarrow> (of_char c :: nat) < 128"
  by (induction n q rule: frac_text.induct) (auto split: if_splits dest: show_nat_ascii)

lemma num_text_ascii: "c \<in> set (num_text x) \<Longrightarrow> (of_char c :: nat) < 128"
  by (auto simp: num_text_def show_int_def split: jnum.splits if_splits
      dest: show_nat_ascii frac_text_ascii)

lemma utf8_valid_Cons_ascii: "(of_char c :: nat) < 128 \<Longrightarrow> utf8_valid s \<Longrightarrow> utf8_valid (c # s)"
  using utf8_valid_append [of "[c]" s] utf8_valid_ascii [of "[c]"] by simp

lemma utf8_valid_json_text:
  shows "json_utf8 v \<Longrightarrow> utf8_valid (json_text v)"
    and "items_utf8 vs \<Longrightarrow> utf8_valid (json_items b vs)"
    and "members_utf8 m \<Longrightarrow> utf8_valid (json_members b m)"
proof (induction v and b vs and b m rule: json_text_json_items_json_members.induct)
  case (4 x)
  then show ?case using num_text_ascii [of _ x] by (auto intro: utf8_valid_ascii)
qed (auto simp: utf8_valid_quote intro!: utf8_valid_Cons_ascii utf8_valid_append)

text \<open>The first byte of a printed value is ASCII, so it never starts with a byte order mark.\<close>

lemma json_text_no_bom: "\<not> prefix utf8_bom (json_text v)"
proof -
  have n: "(of_char (hd (num_text x)) :: nat) < 128" for x
    using num_text_ascii [of "hd (num_text x)" x] json_text_nonempty [of "JNum x"] by simp
  have "(of_char (hd (json_text v)) :: nat) < 128"
    using n by (cases v) (auto simp: quote_def)
  then show ?thesis
    by (cases "json_text v") (auto simp: utf8_bom_def prefix_def)
qed

lemma utf8_decode_json_text: "json_utf8 v \<Longrightarrow> utf8_decode (json_text v) = Some (json_text v)"
  by (simp add: utf8_decode_def utf8_valid_json_text json_text_no_bom)

end
