(* ===== verification/Framing.thy ===== *)
theory Framing
  imports Errors Utf8
begin

text \<open>
  \<open>src/core/transport/framing.ts\<close>: the byte buffer and the three JSON frame codecs (one JSON
  text per chunk, JSON Lines, Content-Length headers). A \<open>Uint8Array\<close> is its list of bytes, a
  \<^typ>\<open>string\<close>. A decoder's \<open>push\<close> returns its new state also when it throws, as the source
  leaves its buffer behind. The locale \<open>chunked_decoder\<close> is the contract of an incremental
  decoder: it implements a machine that reads one byte at a time, so the values it yields do not
  depend on how the input is cut into chunks. Both stateful decoders are interpretations of it.
\<close>

unbundle bit_operations_syntax

section \<open>Errors and text\<close>

definition DEFAULT_MAX_FRAME_BYTES :: nat where
  "DEFAULT_MAX_FRAME_BYTES = 16 * 1024 * 1024"

definition DEFAULT_MAX_HEADER_BYTES :: nat where
  "DEFAULT_MAX_HEADER_BYTES = 8 * 1024"

definition decodeError :: "string \<Rightarrow> unknown" where
  "decodeError msg = UErr (TransportError msg (plain_meta KStdio PDecode ''frame.decode'' False 1) None)"

definition encodeError :: "string \<Rightarrow> unknown" where
  "encodeError msg = UErr (TransportError msg (plain_meta KStdio PRequest ''frame.encode'' False 1) None)"

definition parseJson :: "string \<Rightarrow> unknown + jv" where
  "parseJson bs =
     (case utf8_decode bs of
        None \<Rightarrow> Inl (decodeError ''Frame contains invalid UTF-8'')
      | Some t \<Rightarrow>
          (case json_parse t of
             None \<Rightarrow> Inl (decodeError ''Frame contains invalid JSON'')
           | Some v \<Rightarrow> Inr v))"

definition encodeJson :: "jv \<Rightarrow> unknown + string" where
  "encodeJson v =
     (case json_stringify v of
        None \<Rightarrow> Inl (encodeError ''Value could not be encoded as JSON'')
      | Some t \<Rightarrow> Inr t)"

section \<open>FrameBuffer\<close>

record frame_buffer =
  fb_storage :: string
  fb_length :: nat

definition fb_new :: frame_buffer where
  "fb_new = \<lparr>fb_storage = [], fb_length = 0\<rparr>"

definition fb_grow :: "nat \<Rightarrow> nat \<Rightarrow> nat \<Rightarrow> nat" where
  "fb_grow limit needed old = min limit (max needed (max 256 (old * 2)))"

definition fb_capacity_for :: "frame_buffer \<Rightarrow> nat \<Rightarrow> nat \<Rightarrow> nat" where
  "fb_capacity_for fb needed limit =
     (if length (fb_storage fb) < needed
      then fb_grow limit needed (length (fb_storage fb))
      else length (fb_storage fb))"

definition fb_append :: "frame_buffer \<Rightarrow> string \<Rightarrow> nat \<Rightarrow> string \<Rightarrow> unknown + frame_buffer" where
  "fb_append fb chunk limit msg =
     (if limit < fb_length fb + length chunk then Inl (decodeError msg)
      else
        let needed = fb_length fb + length chunk;
            storage =
              (if length (fb_storage fb) < needed then
                 let capacity = fb_grow limit needed (length (fb_storage fb));
                     kept = take (fb_length fb) (fb_storage fb)
                 in kept @ replicate (capacity - length kept) (char_of (0 :: nat))
               else fb_storage fb)
        in Inr \<lparr>fb_storage = take (fb_length fb) storage @ chunk @ drop needed storage,
                fb_length = needed\<rparr>)"

definition fb_bytes :: "frame_buffer \<Rightarrow> string" where
  "fb_bytes fb = take (fb_length fb) (fb_storage fb)"

definition fb_clear :: "frame_buffer \<Rightarrow> frame_buffer" where
  "fb_clear fb = fb\<lparr>fb_length := 0\<rparr>"

definition fb_ok :: "frame_buffer \<Rightarrow> bool" where
  "fb_ok fb = (fb_length fb \<le> length (fb_storage fb))"

lemma fb_new_ok [simp]: "fb_ok fb_new" "fb_bytes fb_new = []"
  by (simp_all add: fb_ok_def fb_new_def fb_bytes_def)

lemma fb_clear_ok [simp]: "fb_ok (fb_clear fb)" "fb_bytes (fb_clear fb) = []" "fb_length (fb_clear fb) = 0"
  by (simp_all add: fb_ok_def fb_clear_def fb_bytes_def)

lemma fb_length_bytes: "fb_ok fb \<Longrightarrow> fb_length fb = length (fb_bytes fb)"
  by (simp add: fb_ok_def fb_bytes_def)

text \<open>What \<open>append\<close> does to the contents, whatever the storage it runs in.\<close>

lemma fb_grow_bounds: "needed \<le> limit \<Longrightarrow> needed \<le> fb_grow limit needed old"
    "fb_grow limit needed old \<le> limit"
    "fb_grow limit needed old < old * 2 \<Longrightarrow> fb_grow limit needed old = limit"
  unfolding fb_grow_def by linarith+

lemma fb_capacity_bounds:
  assumes "fb_ok fb" and "fb_length fb + n \<le> limit"
  shows "fb_length fb + n \<le> fb_capacity_for fb (fb_length fb + n) limit"
  using assms by (simp add: fb_capacity_for_def fb_grow_bounds)

lemma fb_append_spec:
  assumes "fb_ok fb"
  shows "case fb_append fb chunk limit msg of
           Inl e \<Rightarrow> e = decodeError msg \<and> limit < length (fb_bytes fb) + length chunk
         | Inr fb' \<Rightarrow> length (fb_bytes fb) + length chunk \<le> limit \<and> fb_ok fb'
             \<and> fb_bytes fb' = fb_bytes fb @ chunk
             \<and> length (fb_storage fb') = fb_capacity_for fb (fb_length fb + length chunk) limit"
proof (cases "limit < fb_length fb + length chunk")
  case True
  with assms show ?thesis by (simp add: fb_append_def fb_length_bytes)
next
  case False
  define needed where "needed = fb_length fb + length chunk"
  define cap where "cap = fb_capacity_for fb needed limit"
  define st where "st = (if length (fb_storage fb) < needed then
      take (fb_length fb) (fb_storage fb) @ replicate (cap - fb_length fb) (char_of (0 :: nat))
    else fb_storage fb)"
  have len: "fb_length fb \<le> length (fb_storage fb)" using assms by (simp add: fb_ok_def)
  have "needed \<le> cap"
    using fb_capacity_bounds [OF assms, of "length chunk" limit] False
    by (simp add: needed_def cap_def)
  moreover from this have "fb_length fb \<le> cap" by (simp add: needed_def)
  then have "length st = cap"
    using len by (simp add: st_def) (simp add: cap_def fb_capacity_for_def)
  moreover have "take (fb_length fb) st = fb_bytes fb"
    using len by (simp add: st_def fb_bytes_def)
  moreover have "fb_append fb chunk limit msg =
      Inr \<lparr>fb_storage = take (fb_length fb) st @ chunk @ drop needed st, fb_length = needed\<rparr>"
    using False len unfolding fb_append_def st_def needed_def [symmetric]
    by (simp add: Let_def cap_def fb_capacity_for_def min_absorb2)
  ultimately show ?thesis
    using False assms len
    by (simp add: fb_ok_def fb_bytes_def needed_def cap_def)
qed

lemma fb_append_Inr:
  "fb_ok fb \<Longrightarrow> length (fb_bytes fb) + length chunk \<le> limit \<Longrightarrow>
   \<exists>fb'. fb_append fb chunk limit msg = Inr fb' \<and> fb_ok fb' \<and> fb_bytes fb' = fb_bytes fb @ chunk"
  using fb_append_spec [where fb = fb and chunk = chunk and limit = limit and msg = msg] by (auto split: sum.splits)

lemma fb_append_Inl:
  "fb_ok fb \<Longrightarrow> limit < length (fb_bytes fb) + length chunk \<Longrightarrow>
   fb_append fb chunk limit msg = Inl (decodeError msg)"
  using fb_append_spec [where fb = fb and chunk = chunk and limit = limit and msg = msg] by (auto split: sum.splits)

text \<open>The bytes a growth step copies, and their sum over a sequence of appends.\<close>

definition copy_cost :: "frame_buffer \<Rightarrow> string \<Rightarrow> nat" where
  "copy_cost fb chunk = (if length (fb_storage fb) < fb_length fb + length chunk then fb_length fb else 0)"

fun append_all :: "frame_buffer \<Rightarrow> string list \<Rightarrow> nat \<Rightarrow> string \<Rightarrow> nat \<Rightarrow> unknown + (frame_buffer \<times> nat)" where
  "append_all fb [] limit msg cost = Inr (fb, cost)"
| "append_all fb (c # cs) limit msg cost =
     (case fb_append fb c limit msg of
        Inl e \<Rightarrow> Inl e
      | Inr fb' \<Rightarrow> append_all fb' cs limit msg (cost + copy_cost fb c))"

lemma copy_cost_step:
  assumes "fb_ok fb" and "fb_length fb + length c \<le> limit"
    and "cost \<le> length (fb_storage fb)
         \<or> (length (fb_storage fb) = limit \<and> cost \<le> 2 * length (fb_storage fb))"
    and "length (fb_storage fb) \<le> limit"
  defines "cap \<equiv> fb_capacity_for fb (fb_length fb + length c) limit"
  shows "cost + copy_cost fb c \<le> cap \<or> (cap = limit \<and> cost + copy_cost fb c \<le> 2 * cap)"
    and "cap \<le> limit"
proof -
  have "cost + copy_cost fb c \<le> cap \<or> (cap = limit \<and> cost + copy_cost fb c \<le> 2 * cap)"
  proof (cases "length (fb_storage fb) < fb_length fb + length c")
    case True
    with assms have c: "cost \<le> length (fb_storage fb)" and l: "fb_length fb \<le> length (fb_storage fb)"
      by (auto simp: fb_ok_def)
    have k: "cap = fb_grow limit (fb_length fb + length c) (length (fb_storage fb))"
      using True by (simp add: cap_def fb_capacity_for_def)
    show ?thesis
    proof (cases "length (fb_storage fb) * 2 \<le> cap")
      case True
      with c l show ?thesis by (simp add: copy_cost_def)
    next
      case False
      then have "cap = limit" unfolding k by (intro fb_grow_bounds(3)) linarith
      with c l assms(4) show ?thesis by (simp add: copy_cost_def)
    qed
  next
    case False
    with assms(3) show ?thesis by (simp add: cap_def fb_capacity_for_def copy_cost_def)
  qed
  then show "cost + copy_cost fb c \<le> cap \<or> (cap = limit \<and> cost + copy_cost fb c \<le> 2 * cap)" .
  show "cap \<le> limit" using assms(4) by (simp add: cap_def fb_capacity_for_def fb_grow_bounds)
qed

lemma append_all_inv:
  assumes "append_all fb cs limit msg cost = Inr (fb', cost')"
    and "fb_ok fb"
    and "cost \<le> length (fb_storage fb)
         \<or> (length (fb_storage fb) = limit \<and> cost \<le> 2 * length (fb_storage fb))"
    and "length (fb_storage fb) \<le> limit"
  shows "fb_ok fb' \<and> length (fb_storage fb') \<le> limit \<and> fb_bytes fb' = fb_bytes fb @ concat cs
         \<and> cost' \<le> 2 * length (fb_storage fb')"
  using assms
proof (induction cs arbitrary: fb cost)
  case Nil
  then show ?case by auto
next
  case (Cons c cs)
  obtain fb1 where f: "fb_append fb c limit msg = Inr fb1"
    using Cons.prems(1) by (auto split: sum.splits)
  have sp: "fb_ok fb1" "fb_bytes fb1 = fb_bytes fb @ c" "fb_length fb + length c \<le> limit"
    "length (fb_storage fb1) = fb_capacity_for fb (fb_length fb + length c) limit"
    using fb_append_spec [OF Cons.prems(2), where chunk = c and limit = limit and msg = msg] f
      fb_length_bytes [OF Cons.prems(2)]
    by auto
  have "cost + copy_cost fb c \<le> length (fb_storage fb1)
        \<or> (length (fb_storage fb1) = limit \<and> cost + copy_cost fb c \<le> 2 * length (fb_storage fb1))"
    and "length (fb_storage fb1) \<le> limit"
    using copy_cost_step [OF Cons.prems(2) sp(3) Cons.prems(3,4)] sp(4) by simp_all
  with Cons.IH [of fb1 "cost + copy_cost fb c"] Cons.prems(1) f sp(1,2) show ?case
    by simp
qed

section \<open>Incremental decoders\<close>

text \<open>A machine that reads a byte at a time, and a decoder fed a sequence of chunks.\<close>

fun run_bytes :: "('a \<Rightarrow> char \<Rightarrow> unknown + ('v list \<times> 'a)) \<Rightarrow> 'a \<Rightarrow> string \<Rightarrow> unknown + ('v list \<times> 'a)" where
  "run_bytes step a [] = Inr ([], a)"
| "run_bytes step a (c # cs) =
     (case step a c of
        Inl e \<Rightarrow> Inl e
      | Inr (vs, a') \<Rightarrow>
          (case run_bytes step a' cs of Inl e \<Rightarrow> Inl e | Inr (ws, a'') \<Rightarrow> Inr (vs @ ws, a'')))"

fun feed :: "('s \<Rightarrow> string \<Rightarrow> 's \<times> (unknown + 'v list)) \<Rightarrow> 's \<Rightarrow> string list \<Rightarrow> 's \<times> (unknown + 'v list)" where
  "feed push s [] = (s, Inr [])"
| "feed push s (c # cs) =
     (case push s c of
        (s1, Inl e) \<Rightarrow> (s1, Inl e)
      | (s1, Inr vs) \<Rightarrow>
          (case feed push s1 cs of
             (s2, Inl e) \<Rightarrow> (s2, Inl e)
           | (s2, Inr ws) \<Rightarrow> (s2, Inr (vs @ ws))))"

lemma run_bytes_append:
  "run_bytes step a (xs @ ys) =
     (case run_bytes step a xs of
        Inl e \<Rightarrow> Inl e
      | Inr (vs, a') \<Rightarrow>
          (case run_bytes step a' ys of Inl e \<Rightarrow> Inl e | Inr (ws, a'') \<Rightarrow> Inr (vs @ ws, a'')))"
  by (induction xs arbitrary: a) (auto split: sum.splits prod.splits)

definition agrees :: "('s \<Rightarrow> 'a) \<Rightarrow> ('s \<Rightarrow> bool) \<Rightarrow> unknown + ('v list \<times> 'a) \<Rightarrow> 's \<times> (unknown + 'v list) \<Rightarrow> bool" where
  "agrees view good r p =
     (case r of
        Inl e \<Rightarrow> snd p = Inl e
      | Inr (vs, a) \<Rightarrow> snd p = Inr vs \<and> good (fst p) \<and> view (fst p) = a)"

locale chunked_decoder =
  fixes push :: "'s \<Rightarrow> string \<Rightarrow> 's \<times> (unknown + 'v list)"
    and view :: "'s \<Rightarrow> 'a"
    and good :: "'s \<Rightarrow> bool"
    and step :: "'a \<Rightarrow> char \<Rightarrow> unknown + ('v list \<times> 'a)"
  assumes push_agrees: "good s \<Longrightarrow> agrees view good (run_bytes step (view s) chunk) (push s chunk)"
begin

lemma feed_agrees: "good s \<Longrightarrow> agrees view good (run_bytes step (view s) (concat cs)) (feed push s cs)"
proof (induction cs arbitrary: s)
  case Nil
  then show ?case by (simp add: agrees_def)
next
  case (Cons c cs)
  note h = push_agrees [OF Cons.prems, of c]
  show ?case
  proof (cases "run_bytes step (view s) c")
    case (Inl e)
    with h show ?thesis
      by (cases "push s c") (simp add: agrees_def run_bytes_append)
  next
    case (Inr r)
    obtain vs a where r: "r = (vs, a)" by (cases r)
    with Inr h obtain s1 where p: "push s c = (s1, Inr vs)" "good s1" "view s1 = a"
      by (cases "push s c") (auto simp: agrees_def)
    from Cons.IH [OF p(2)] p Inr r show ?thesis
      by (cases "feed push s1 cs") (auto simp: agrees_def run_bytes_append split: sum.splits prod.splits)
  qed
qed

text \<open>Values and errors do not depend on the chunks, and on success neither does the view.\<close>

lemma chunking_irrelevant:
  assumes "good s" and "concat cs = concat ds"
  shows "snd (feed push s cs) = snd (feed push s ds)"
    and "snd (feed push s cs) = Inr vs \<Longrightarrow> view (fst (feed push s cs)) = view (fst (feed push s ds))"
  using feed_agrees [OF assms(1), of cs] feed_agrees [OF assms(1), of ds] assms(2)
  by (auto simp: agrees_def split: sum.splits prod.splits)

lemma feed_run:
  assumes "good s" and "run_bytes step (view s) (concat cs) = Inr (vs, a)"
  shows "snd (feed push s cs) = Inr vs \<and> good (fst (feed push s cs)) \<and> view (fst (feed push s cs)) = a"
  using feed_agrees [OF assms(1), of cs] assms(2) by (simp add: agrees_def)

lemma feed_error:
  assumes "good s" and "run_bytes step (view s) (concat cs) = Inl e"
  shows "snd (feed push s cs) = Inl e"
  using feed_agrees [OF assms(1), of cs] assms(2) by (simp add: agrees_def)

end

section \<open>Options and encoders\<close>

definition validateLimit :: "jnum option \<Rightarrow> nat \<Rightarrow> string \<Rightarrow> unknown + nat" where
  "validateLimit v fallback nm =
     (let limit = (case v of Some x \<Rightarrow> x | None \<Rightarrow> num (int fallback)) in
      if \<not> is_safe_integer limit \<or> num_lt limit (num 1)
      then Inl (UErr (JsError CTypeError (nm @ '' must be a positive safe integer'') [] None))
      else Inr (nat \<lfloor>num_val limit\<rfloor>))"

definition json_text_encode :: "nat \<Rightarrow> jv \<Rightarrow> unknown + string" where
  "json_text_encode maxFrameBytes v =
     (case encodeJson v of
        Inl e \<Rightarrow> Inl e
      | Inr r \<Rightarrow>
          if length r > maxFrameBytes
          then Inl (encodeError ''Encoded frame exceeds the configured size limit'')
          else Inr r)"

definition json_text_push :: "nat \<Rightarrow> unit \<Rightarrow> string \<Rightarrow> unit \<times> (unknown + jv list)" where
  "json_text_push maxFrameBytes st chunk =
     (if length chunk > maxFrameBytes
      then (st, Inl (decodeError ''Frame exceeds the configured size limit''))
      else (case parseJson chunk of Inl e \<Rightarrow> (st, Inl e) | Inr v \<Rightarrow> (st, Inr [v])))"

definition json_lines_encode :: "nat \<Rightarrow> jv \<Rightarrow> unknown + string" where
  "json_lines_encode maxFrameBytes v =
     (case encodeJson v of
        Inl e \<Rightarrow> Inl e
      | Inr body \<Rightarrow>
          if length body > maxFrameBytes
          then Inl (encodeError ''Encoded frame exceeds the configured size limit'')
          else Inr (body @ [CHR 0x0A]))"

definition crlf :: string where
  "crlf = [CHR 0x0D, CHR 0x0A]"

definition content_length_encode :: "nat \<Rightarrow> jv \<Rightarrow> unknown + string" where
  "content_length_encode maxBodyBytes v =
     (case encodeJson v of
        Inl e \<Rightarrow> Inl e
      | Inr body \<Rightarrow>
          if length body > maxBodyBytes
          then Inl (encodeError ''Encoded body exceeds the configured size limit'')
          else Inr ((''Content-Length: '' @ show_nat (length body) @ crlf @ crlf) @ body))"

section \<open>The JSON Lines decoder\<close>

definition oversized :: string where
  "oversized = ''JSON Lines frame exceeds the configured size limit''"

definition strip_cr :: "string \<Rightarrow> string" where
  "strip_cr f = (if f \<noteq> [] \<and> last f = CHR 0x0D then butlast f else f)"

function json_lines_loop ::
  "nat \<Rightarrow> frame_buffer \<Rightarrow> jv list \<Rightarrow> string \<Rightarrow> frame_buffer \<times> (unknown + jv list)" where
  "json_lines_loop maxFrameBytes buffered acc rest =
     (if rest = [] then (buffered, Inr acc)
      else
        let line = takeWhile (\<lambda>c. c \<noteq> CHR 0x0A) rest;
            newline = dropWhile (\<lambda>c. c \<noteq> CHR 0x0A) rest
        in case fb_append buffered line (maxFrameBytes + 1) oversized of
          Inl e \<Rightarrow> (buffered, Inl e)
        | Inr buffered' \<Rightarrow>
            let frame = strip_cr (fb_bytes buffered') in
            if length frame > maxFrameBytes then (buffered', Inl (decodeError oversized))
            else if newline = [] then (buffered', Inr acc)
            else if frame = [] then json_lines_loop maxFrameBytes (fb_clear buffered') acc (tl newline)
            else (case parseJson frame of
                    Inl e \<Rightarrow> (buffered', Inl e)
                  | Inr v \<Rightarrow>
                      json_lines_loop maxFrameBytes (fb_clear buffered') (acc @ [v]) (tl newline)))"
  by pat_completeness auto
termination
proof (relation "measure (\<lambda>(n, b, v, r). length r)", goal_cases)
  case 1
  then show ?case by simp
next
  case (2 n b v r)
  then show ?case
    using length_dropWhile_le [of "\<lambda>c. c \<noteq> CHR 0x0A" r] by (cases "dropWhile (\<lambda>c. c \<noteq> CHR 0x0A) r") auto
next
  case (3 n b v r)
  then show ?case
    using length_dropWhile_le [of "\<lambda>c. c \<noteq> CHR 0x0A" r] by (cases "dropWhile (\<lambda>c. c \<noteq> CHR 0x0A) r") auto
qed

declare json_lines_loop.simps [simp del]

definition json_lines_push :: "nat \<Rightarrow> frame_buffer \<Rightarrow> string \<Rightarrow> frame_buffer \<times> (unknown + jv list)" where
  "json_lines_push maxFrameBytes buffered chunk = json_lines_loop maxFrameBytes buffered [] chunk"

definition json_lines_finish :: "frame_buffer \<Rightarrow> unknown + jv list" where
  "json_lines_finish buffered =
     (if fb_length buffered > 0
      then Inl (decodeError ''JSON Lines stream ended with an incomplete frame'') else Inr [])"

text \<open>The byte machine it implements; its state is the unfinished line.\<close>

definition line_fits :: "nat \<Rightarrow> string \<Rightarrow> bool" where
  "line_fits n b = (length (strip_cr b) \<le> n)"

definition line_step :: "nat \<Rightarrow> string \<Rightarrow> char \<Rightarrow> unknown + (jv list \<times> string)" where
  "line_step n buf c =
     (if c = CHR 0x0A then
        if strip_cr buf = [] then Inr ([], [])
        else (case parseJson (strip_cr buf) of Inl e \<Rightarrow> Inl e | Inr v \<Rightarrow> Inr ([v], []))
      else if line_fits n (buf @ [c]) then Inr ([], buf @ [c])
      else Inl (decodeError oversized))"

lemma line_step_nl:
  "line_step n buf (CHR 0x0A) =
     (if strip_cr buf = [] then Inr ([], [])
      else (case parseJson (strip_cr buf) of Inl e \<Rightarrow> Inl e | Inr v \<Rightarrow> Inr ([v], [])))"
  by (simp add: line_step_def)

definition json_lines_good :: "nat \<Rightarrow> frame_buffer \<Rightarrow> bool" where
  "json_lines_good n fb = (fb_ok fb \<and> line_fits n (fb_bytes fb))"

definition emit_first :: "'v list \<Rightarrow> unknown + ('v list \<times> 'a) \<Rightarrow> unknown + ('v list \<times> 'a)" where
  "emit_first vs r = (case r of Inl e \<Rightarrow> Inl e | Inr (ws, a) \<Rightarrow> Inr (vs @ ws, a))"

lemma emit_first_simps [simp]:
  "emit_first [] r = r"
  "emit_first vs (emit_first ws r) = emit_first (vs @ ws) r"
  "emit_first vs (Inl e) = Inl e"
  "emit_first vs (Inr (ws, a)) = Inr (vs @ ws, a)"
  by (auto simp: emit_first_def split: sum.splits prod.splits)

lemma run_bytes_Cons:
  "run_bytes step a (c # cs) =
     (case step a c of Inl e \<Rightarrow> Inl e | Inr (vs, a') \<Rightarrow> emit_first vs (run_bytes step a' cs))"
  by (simp add: emit_first_def split: sum.splits prod.splits)

lemma run_bytes_append_emit:
  "run_bytes step a (xs @ ys) =
     (case run_bytes step a xs of Inl e \<Rightarrow> Inl e | Inr (vs, a') \<Rightarrow> emit_first vs (run_bytes step a' ys))"
  by (simp add: run_bytes_append emit_first_def split: sum.splits prod.splits)

lemma strip_cr_length: "length b \<le> Suc (length (strip_cr b))" "length (strip_cr b) \<le> length b"
  by (auto simp: strip_cr_def)

lemma line_fits_shorter: "line_fits n (b @ s) \<Longrightarrow> s \<noteq> [] \<Longrightarrow> line_fits n b"
  using strip_cr_length(1) [of "b @ s"] strip_cr_length(2) [of b]
  by (cases s) (auto simp: line_fits_def)

lemma line_fits_Nil [simp]: "line_fits n []"
  by (simp add: line_fits_def strip_cr_def)

lemma run_line:
  "CHR 0x0A \<notin> set seg \<Longrightarrow> line_fits n b \<Longrightarrow>
   run_bytes (line_step n) b seg =
     (if line_fits n (b @ seg) then Inr ([], b @ seg) else Inl (decodeError oversized))"
proof (induction seg arbitrary: b)
  case (Cons c seg)
  then show ?case
    using line_fits_shorter [of n "b @ [c]" seg]
    by (cases "line_fits n (b @ [c])"; cases seg)
      (auto simp: line_step_def run_bytes_Cons simp del: run_bytes.simps(2))
qed simp

lemma json_lines_loop_agrees:
  "json_lines_good n fb \<Longrightarrow>
   agrees fb_bytes (json_lines_good n) (emit_first acc (run_bytes (line_step n) (fb_bytes fb) rest))
     (json_lines_loop n fb acc rest)"
proof (induction n fb acc rest rule: json_lines_loop.induct)
  case (1 n fb acc rest)
  define line where "line = takeWhile (\<lambda>c. c \<noteq> CHR 0x0A) rest"
  define nl where "nl = dropWhile (\<lambda>c. c \<noteq> CHR 0x0A) rest"
  have rest: "rest = line @ nl" and no: "CHR 0x0A \<notin> set line"
    by (auto simp: line_def nl_def dest: set_takeWhileD)
  have nl: "nl = [] \<or> nl = CHR 0x0A # tl nl"
    using hd_dropWhile [of "\<lambda>c. c \<noteq> CHR 0x0A" rest] by (cases nl) (auto simp: nl_def [symmetric])
  have ok: "fb_ok fb" and fits: "line_fits n (fb_bytes fb)"
    using "1.prems" by (auto simp: json_lines_good_def)
  note run = run_line [OF no fits]
  show ?case
  proof (cases "rest = []")
    case True
    with "1.prems" show ?thesis
      by (simp add: json_lines_loop.simps [of n fb acc "[]"] agrees_def)
  next
    case False
    show ?thesis
    proof (cases "n + 1 < length (fb_bytes fb) + length line")
      case True
      then have "\<not> line_fits n (fb_bytes fb @ line)"
        using strip_cr_length(1) [of "fb_bytes fb @ line"] by (simp add: line_fits_def)
      moreover have "json_lines_loop n fb acc rest = (fb, Inl (decodeError oversized))"
        using fb_append_Inl [OF ok True, of oversized] False
        by (subst json_lines_loop.simps) (simp add: line_def)
      ultimately show ?thesis
        using run by (simp add: agrees_def) (simp add: rest run_bytes_append_emit)
    next
      case short: False
      then obtain fb' where f: "fb_append fb line (n + 1) oversized = Inr fb'" and ok': "fb_ok fb'"
        and b': "fb_bytes fb' = fb_bytes fb @ line"
        using fb_append_Inr [OF ok, of line "n + 1" oversized] by auto
      note unf = json_lines_loop.simps [of n fb acc rest, folded line_def nl_def]
      show ?thesis
      proof (cases "line_fits n (fb_bytes fb')")
        case False
        then have "json_lines_loop n fb acc rest = (fb', Inl (decodeError oversized))"
          using \<open>rest \<noteq> []\<close> f by (simp add: unf line_fits_def)
        with run False b' show ?thesis
          by (simp add: agrees_def) (simp add: rest run_bytes_append_emit)
      next
        case fit': True
        note IH = "1.IH" [OF \<open>rest \<noteq> []\<close> line_def nl_def f refl]
        have good: "json_lines_good n (fb_clear fb')" by (simp add: json_lines_good_def)
        from nl show ?thesis
        proof
          assume "nl = []"
          then have "json_lines_loop n fb acc rest = (fb', Inr acc)"
            using \<open>rest \<noteq> []\<close> f fit' by (simp add: unf line_fits_def)
          with \<open>nl = []\<close> run b' fit' ok' show ?thesis
            by (simp add: agrees_def json_lines_good_def) (simp add: rest)
        next
          assume nl: "nl = CHR 0x0A # tl nl"
          then have ne: "nl \<noteq> []" by auto
          have r: "run_bytes (line_step n) (fb_bytes fb) rest =
              (case line_step n (fb_bytes fb') (CHR 0x0A) of Inl e \<Rightarrow> Inl e
               | Inr (vs, a) \<Rightarrow> emit_first vs (run_bytes (line_step n) a (tl nl)))"
            using run fit' b' by (subst rest, subst nl) (simp add: run_bytes_append_emit run_bytes_Cons
              del: run_bytes.simps(2))
          show ?thesis
          proof (cases "strip_cr (fb_bytes fb') = []")
            case True
            with IH(1) good ne fit' r \<open>rest \<noteq> []\<close> f show ?thesis
              by (simp add: unf line_step_nl line_fits_def)
          next
            case False
            with IH(2) good ne fit' r \<open>rest \<noteq> []\<close> f show ?thesis
              by (cases "parseJson (strip_cr (fb_bytes fb'))")
                (simp_all add: unf line_step_nl line_fits_def agrees_def)
          qed
        qed
      qed
    qed
  qed
qed

interpretation jl: chunked_decoder "json_lines_push n" fb_bytes "json_lines_good n" "line_step n" for n
proof unfold_locales
  fix s chunk
  assume "json_lines_good n s"
  from json_lines_loop_agrees [OF this, of "[]" chunk]
  show "agrees fb_bytes (json_lines_good n) (run_bytes (line_step n) (fb_bytes s) chunk)
          (json_lines_push n s chunk)"
    by (simp add: json_lines_push_def)
qed

lemma json_lines_good_new [simp]: "json_lines_good n fb_new"
  by (simp add: json_lines_good_def)

section \<open>The Content-Length decoder\<close>

text \<open>
  \<open>new TextDecoder("ascii")\<close> is windows-1252, which decodes every byte, so the header's text is
  kept as bytes: of the bytes from 128 only \<open>0xA0\<close> (a no-break space) is white space, and none
  is a digit or a letter of the header's name.
\<close>

definition header_space :: "char \<Rightarrow> bool" where
  "header_space c = (let n = of_char c :: nat in (9 \<le> n \<and> n \<le> 13) \<or> n = 32 \<or> n = 0xA0)"

fun split_crlf :: "string \<Rightarrow> string list" where
  "split_crlf [] = [[]]"
| "split_crlf (x # xs) =
     (case xs of
        y # ys \<Rightarrow>
          if x = CHR 0x0D \<and> y = CHR 0x0A then [] # split_crlf ys
          else (case split_crlf xs of [] \<Rightarrow> [[x]] | l # ls \<Rightarrow> (x # l) # ls)
      | [] \<Rightarrow> [[x]])"

definition content_length_name :: string where
  "content_length_name = ''content-length''"

text \<open>\<open>/^content-length\s*:/iu\<close>: the text after the colon, if the line starts so.\<close>

definition after_colon :: "string \<Rightarrow> string option" where
  "after_colon line =
     (if to_lower (take (length content_length_name) line) = content_length_name then
        (case dropWhile header_space (drop (length content_length_name) line) of
           c # r \<Rightarrow> if c = CHR '':'' then Some r else None
         | [] \<Rightarrow> None)
      else None)"

text \<open>\<open>\s*(\d+)\s*$\<close> on the rest.\<close>

definition length_field :: "string \<Rightarrow> string option" where
  "length_field r =
     (let t = dropWhile header_space r; ds = takeWhile is_digit t in
      if ds = [] then None
      else if dropWhile header_space (dropWhile is_digit t) = [] then Some ds else None)"

definition parse_header :: "nat \<Rightarrow> string \<Rightarrow> unknown + nat" where
  "parse_header maxBodyBytes header =
     (case filter (\<lambda>l. after_colon l \<noteq> None) (split_crlf header) of
        [l] \<Rightarrow>
          (case Option.bind (after_colon l) length_field of
             None \<Rightarrow> Inl (decodeError ''Content-Length header has an invalid length'')
           | Some ds \<Rightarrow>
               let len = digits_val ds in
               if \<not> is_safe_integer (num (int len))
               then Inl (decodeError ''Content-Length header has an invalid length'')
               else if len > maxBodyBytes
               then Inl (decodeError ''Content-Length body exceeds the configured size limit'')
               else Inr len)
      | _ \<Rightarrow> Inl (decodeError ''Content-Length header is missing or duplicated''))"

record cl_state =
  cl_buffered :: frame_buffer
  cl_expected :: "nat option"
  cl_boundary :: "32 word"

definition cl_new :: cl_state where
  "cl_new = \<lparr>cl_buffered = fb_new, cl_expected = None, cl_boundary = 0\<rparr>"

definition header_oversized :: string where
  "header_oversized = ''Content-Length header exceeds the configured size limit''"

text \<open>\<open>((boundary << 8) | byte) >>> 0\<close>.\<close>

definition shift_in :: "32 word \<Rightarrow> char \<Rightarrow> 32 word" where
  "shift_in b c = push_bit 8 b OR word_of_nat (of_char c)"

text \<open>The part of the loop body that reads the body, with \<open>n\<close> the expected length.\<close>

definition cl_body ::
  "nat \<Rightarrow> cl_state \<Rightarrow> nat \<Rightarrow> string \<Rightarrow> cl_state \<times> (unknown + (jv list \<times> string))" where
  "cl_body maxBodyBytes st n rest =
     (let size = min (n - fb_length (cl_buffered st)) (length rest) in
      case fb_append (cl_buffered st) (take size rest) maxBodyBytes
             ''Content-Length body exceeds the configured size limit'' of
        Inl e \<Rightarrow> (st, Inl e)
      | Inr fb \<Rightarrow>
          if fb_length fb = n then
            (case parseJson (fb_bytes fb) of
               Inl e \<Rightarrow> (st\<lparr>cl_buffered := fb\<rparr>, Inl e)
             | Inr v \<Rightarrow> (st\<lparr>cl_buffered := fb_clear fb, cl_expected := None\<rparr>, Inr ([v], drop size rest)))
          else (st\<lparr>cl_buffered := fb\<rparr>, Inr ([], drop size rest)))"

text \<open>One turn of the loop on a non-empty rest.\<close>

definition cl_turn ::
  "nat \<Rightarrow> nat \<Rightarrow> cl_state \<Rightarrow> string \<Rightarrow> cl_state \<times> (unknown + (jv list \<times> string))" where
  "cl_turn maxHeaderBytes maxBodyBytes st rest =
     (case cl_expected st of
        Some n \<Rightarrow> cl_body maxBodyBytes st n rest
      | None \<Rightarrow>
          (case fb_append (cl_buffered st) (take 1 rest) (maxHeaderBytes + 4) header_oversized of
             Inl e \<Rightarrow> (st, Inl e)
           | Inr fb \<Rightarrow>
               let st1 = st\<lparr>cl_buffered := fb, cl_boundary := shift_in (cl_boundary st) (hd rest)\<rparr> in
               if cl_boundary st1 \<noteq> 0x0d0a0d0a then
                 (if fb_length fb > maxHeaderBytes + 3
                  then (st1, Inl (decodeError header_oversized)) else (st1, Inr ([], tl rest)))
               else
                 (case parse_header maxBodyBytes (take (fb_length fb - 4) (fb_bytes fb)) of
                    Inl e \<Rightarrow> (st1, Inl e)
                  | Inr n \<Rightarrow>
                      cl_body maxBodyBytes
                        \<lparr>cl_buffered = fb_clear fb, cl_expected = Some n, cl_boundary = 0\<rparr> n (tl rest))))"

text \<open>
  The loop, with as many turns as the chunk has bytes: every turn from a state the decoder can be
  in consumes a byte (\<open>cl_turn_step\<close>), so the turns do not run out.
\<close>

fun cl_loop ::
  "nat \<Rightarrow> nat \<Rightarrow> nat \<Rightarrow> cl_state \<Rightarrow> jv list \<Rightarrow> string \<Rightarrow> cl_state \<times> (unknown + jv list)" where
  "cl_loop 0 mh mb st acc rest = (st, Inr acc)"
| "cl_loop (Suc fuel) mh mb st acc rest =
     (if rest = [] then (st, Inr acc)
      else
        (case cl_turn mh mb st rest of
           (st', Inl e) \<Rightarrow> (st', Inl e)
         | (st', Inr (vs, rest')) \<Rightarrow> cl_loop fuel mh mb st' (acc @ vs) rest'))"

definition content_length_push ::
  "nat \<Rightarrow> nat \<Rightarrow> cl_state \<Rightarrow> string \<Rightarrow> cl_state \<times> (unknown + jv list)" where
  "content_length_push maxHeaderBytes maxBodyBytes st chunk =
     cl_loop (Suc (length chunk)) maxHeaderBytes maxBodyBytes st [] chunk"

definition content_length_finish :: "cl_state \<Rightarrow> unknown + jv list" where
  "content_length_finish st =
     (if cl_expected st \<noteq> None \<or> fb_length (cl_buffered st) > 0
      then Inl (decodeError ''Content-Length stream ended with an incomplete frame'') else Inr [])"

type_synonym cl_view = "nat option \<times> string \<times> 32 word"

definition cl_view :: "cl_state \<Rightarrow> cl_view" where
  "cl_view st = (cl_expected st, fb_bytes (cl_buffered st), cl_boundary st)"

definition cl_good :: "nat \<Rightarrow> nat \<Rightarrow> cl_state \<Rightarrow> bool" where
  "cl_good mh mb st =
     (fb_ok (cl_buffered st) \<and>
      (case cl_expected st of
         None \<Rightarrow> fb_length (cl_buffered st) \<le> mh + 3
       | Some n \<Rightarrow> fb_length (cl_buffered st) < n \<and> n \<le> mb))"

definition finish_body :: "string \<Rightarrow> 32 word \<Rightarrow> unknown + (jv list \<times> cl_view)" where
  "finish_body bs b = (case parseJson bs of Inl e \<Rightarrow> Inl e | Inr v \<Rightarrow> Inr ([v], (None, [], b)))"

definition cl_step :: "nat \<Rightarrow> nat \<Rightarrow> cl_view \<Rightarrow> char \<Rightarrow> unknown + (jv list \<times> cl_view)" where
  "cl_step mh mb a c =
     (case a of
        (Some n, buf, b) \<Rightarrow>
          if Suc (length buf) = n then finish_body (buf @ [c]) b
          else Inr ([], (Some n, buf @ [c], b))
      | (None, buf, b) \<Rightarrow>
          if shift_in b c \<noteq> 0x0d0a0d0a then
            (if length buf + 1 > mh + 3 then Inl (decodeError header_oversized)
             else Inr ([], (None, buf @ [c], shift_in b c)))
          else
            (case parse_header mb (take (length buf - 3) buf) of
               Inl e \<Rightarrow> Inl e
             | Inr n \<Rightarrow> if n = 0 then finish_body [] 0 else Inr ([], (Some n, [], 0))))"

lemma run_body:
  assumes "seg \<noteq> []" and "length buf + length seg \<le> n"
  shows "run_bytes (cl_step mh mb) (Some n, buf, b) seg =
     (if length buf + length seg = n then finish_body (buf @ seg) b
      else Inr ([], (Some n, buf @ seg, b)))"
  using assms
proof (induction seg arbitrary: buf)
  case (Cons c seg)
  then show ?case
    using Cons.IH [of "buf @ [c]"]
    by (cases "seg = []")
      (auto simp: cl_step_def finish_body_def run_bytes_Cons split: sum.splits simp del: run_bytes.simps(2))
qed simp

definition turn_agrees ::
  "nat \<Rightarrow> nat \<Rightarrow> cl_view \<Rightarrow> string \<Rightarrow> cl_state \<times> (unknown + (jv list \<times> string)) \<Rightarrow> bool" where
  "turn_agrees mh mb a rest r =
     (case r of
        (_, Inl e) \<Rightarrow> run_bytes (cl_step mh mb) a rest = Inl e
      | (st', Inr (vs, rest')) \<Rightarrow>
          length rest' < length rest \<and> cl_good mh mb st'
          \<and> run_bytes (cl_step mh mb) a rest =
              emit_first vs (run_bytes (cl_step mh mb) (cl_view st') rest'))"

text \<open>The body part, which after an empty chunk does nothing.\<close>

lemma cl_body_step:
  assumes "cl_good mh mb st" and "cl_expected st = Some n"
  shows "rest \<noteq> [] \<Longrightarrow> turn_agrees mh mb (cl_view st) rest (cl_body mb st n rest)"
    and "rest = [] \<Longrightarrow> \<exists>fb. cl_body mb st n rest = (st\<lparr>cl_buffered := fb\<rparr>, Inr ([], []))
           \<and> fb_ok fb \<and> fb_bytes fb = fb_bytes (cl_buffered st)"
proof -
  define fb0 where "fb0 = cl_buffered st"
  define size where "size = min (n - fb_length fb0) (length rest)"
  have ok: "fb_ok fb0" and lt: "fb_length fb0 < n" and nb: "n \<le> mb"
    using assms by (auto simp: cl_good_def fb0_def)
  have len: "fb_length fb0 = length (fb_bytes fb0)" by (rule fb_length_bytes [OF ok])
  have tk: "length (take size rest) = size" by (simp add: size_def)
  have sz: "size \<le> n - length (fb_bytes fb0)" by (simp add: size_def len)
  obtain fb where f: "fb_append fb0 (take size rest) mb
      ''Content-Length body exceeds the configured size limit'' = Inr fb"
    and ok': "fb_ok fb" and b: "fb_bytes fb = fb_bytes fb0 @ take size rest"
    using fb_append_Inr [OF ok, of "take size rest" mb] tk sz lt nb len by fastforce
  have l': "fb_length fb = length (fb_bytes fb0) + size"
    using fb_length_bytes [OF ok'] b tk by simp
  have body: "cl_body mb st n rest =
      (if fb_length fb = n then
         (case parseJson (fb_bytes fb) of
            Inl e \<Rightarrow> (st\<lparr>cl_buffered := fb\<rparr>, Inl e)
          | Inr v \<Rightarrow> (st\<lparr>cl_buffered := fb_clear fb, cl_expected := None\<rparr>, Inr ([v], drop size rest)))
       else (st\<lparr>cl_buffered := fb\<rparr>, Inr ([], drop size rest)))"
    unfolding cl_body_def Let_def fb0_def [symmetric] size_def [symmetric] f by simp
  show "turn_agrees mh mb (cl_view st) rest (cl_body mb st n rest)" if ne: "rest \<noteq> []"
  proof -
    have pos: "0 < size" using lt ne by (simp add: size_def)
    then have ne': "take size rest \<noteq> []" using ne by simp
    have run: "run_bytes (cl_step mh mb) (cl_view st) rest =
        (case run_bytes (cl_step mh mb) (cl_view st) (take size rest) of Inl e \<Rightarrow> Inl e
         | Inr (vs, a') \<Rightarrow> emit_first vs (run_bytes (cl_step mh mb) a' (drop size rest)))"
      by (metis append_take_drop_id run_bytes_append_emit)
    have v: "cl_view st = (Some n, fb_bytes fb0, cl_boundary st)"
      by (simp add: cl_view_def fb0_def assms(2))
    have r1: "run_bytes (cl_step mh mb) (cl_view st) (take size rest) =
        (if fb_length fb = n then finish_body (fb_bytes fb) (cl_boundary st)
         else Inr ([], (Some n, fb_bytes fb, cl_boundary st)))"
      unfolding v using run_body [OF ne'] sz lt len tk l' b by simp
    have dl: "length (drop size rest) < length rest" using pos ne by simp
    show ?thesis
    proof (cases "fb_length fb = n")
      case True
      with run r1 dl show ?thesis
        by (cases "parseJson (fb_bytes fb)")
          (simp_all add: body turn_agrees_def finish_body_def cl_good_def cl_view_def)
    next
      case False
      with l' sz lt len have "fb_length fb < n" by linarith
      with False run r1 dl ok' nb assms(2) show ?thesis
        by (simp add: body turn_agrees_def cl_good_def cl_view_def)
    qed
  qed
  show "\<exists>fb. cl_body mb st n rest = (st\<lparr>cl_buffered := fb\<rparr>, Inr ([], []))
           \<and> fb_ok fb \<and> fb_bytes fb = fb_bytes (cl_buffered st)" if e: "rest = []"
  proof -
    have "fb_length fb \<noteq> n" using l' lt len e by (simp add: size_def)
    with body have "cl_body mb st n rest = (st\<lparr>cl_buffered := fb\<rparr>, Inr ([], drop size rest))"
      by simp
    with ok' b e show ?thesis by (intro exI [of _ fb]) (simp add: fb0_def)
  qed
qed

lemma cl_turn_step:
  assumes good: "cl_good mh mb st" and ne: "rest \<noteq> []"
  shows "turn_agrees mh mb (cl_view st) rest (cl_turn mh mb st rest)"
proof (cases "cl_expected st")
  case (Some n)
  with cl_body_step(1) [OF good Some ne] show ?thesis by (simp add: cl_turn_def)
next
  case None
  define fb0 where "fb0 = cl_buffered st"
  obtain c r where rest: "rest = c # r" using ne by (cases rest) auto
  have ok: "fb_ok fb0" and le: "length (fb_bytes fb0) \<le> mh + 3"
    using good None fb_length_bytes [of fb0] by (auto simp: cl_good_def fb0_def)
  obtain fb where f: "fb_append fb0 [c] (mh + 4) header_oversized = Inr fb"
    and ok': "fb_ok fb" and b: "fb_bytes fb = fb_bytes fb0 @ [c]"
    using fb_append_Inr [OF ok, of "[c]" "mh + 4"] le by auto
  have l': "fb_length fb = length (fb_bytes fb0) + 1"
    using fb_length_bytes [OF ok'] b by simp
  have rl: "length r < length rest" by (simp add: rest)
  define bd where "bd = shift_in (cl_boundary st) c"
  have v: "cl_view st = (None, fb_bytes fb0, cl_boundary st)"
    by (simp add: cl_view_def fb0_def None)
  have hd: "take (fb_length fb - 4) (fb_bytes fb) = take (length (fb_bytes fb0) - 3) (fb_bytes fb0)"
    by (simp add: l' b)
  define st1 where "st1 = st\<lparr>cl_buffered := fb, cl_boundary := bd\<rparr>"
  have turn: "cl_turn mh mb st rest =
      (if bd \<noteq> 0x0d0a0d0a then
         (if fb_length fb > mh + 3 then (st1, Inl (decodeError header_oversized)) else (st1, Inr ([], r)))
       else (case parse_header mb (take (length (fb_bytes fb0) - 3) (fb_bytes fb0)) of
               Inl e \<Rightarrow> (st1, Inl e)
             | Inr n \<Rightarrow>
                 cl_body mb \<lparr>cl_buffered = fb_clear fb, cl_expected = Some n, cl_boundary = 0\<rparr> n r))"
    using f by (simp add: cl_turn_def None rest fb0_def [symmetric] hd bd_def st1_def Let_def split: sum.splits)
  have run: "run_bytes (cl_step mh mb) (cl_view st) rest =
      (case cl_step mh mb (None, fb_bytes fb0, cl_boundary st) c of Inl e \<Rightarrow> Inl e
       | Inr (vs, a') \<Rightarrow> emit_first vs (run_bytes (cl_step mh mb) a' r))"
    by (simp add: v rest run_bytes_Cons del: run_bytes.simps(2))
  show ?thesis
  proof (cases "bd = 0x0d0a0d0a")
    case False
    have v1: "cl_view st1 = (None, fb_bytes fb0 @ [c], bd)"
      by (simp add: st1_def cl_view_def None b)
    have g1: "length (fb_bytes fb0) + 1 \<le> mh + 3 \<Longrightarrow> cl_good mh mb st1"
      using ok' by (simp add: st1_def cl_good_def None l')
    have "cl_step mh mb (None, fb_bytes fb0, cl_boundary st) c =
        (if length (fb_bytes fb0) + 1 > mh + 3 then Inl (decodeError header_oversized)
         else Inr ([], (None, fb_bytes fb0 @ [c], bd)))"
      using False by (simp add: cl_step_def bd_def)
    then show ?thesis
      using False run rl v1 g1 l' by (simp add: turn turn_agrees_def)
  next
    case bdm: True
    show ?thesis
    proof (cases "parse_header mb (take (length (fb_bytes fb0) - 3) (fb_bytes fb0))")
      case (Inl e)
      with bdm run show ?thesis by (simp add: turn turn_agrees_def cl_step_def bd_def)
    next
      case (Inr n)
      define st2 where "st2 = \<lparr>cl_buffered = fb_clear fb, cl_expected = Some n, cl_boundary = 0\<rparr>"
      have nb: "n \<le> mb"
        using Inr by (auto simp: parse_header_def Let_def split: list.splits option.splits if_splits)
      have t2: "cl_turn mh mb st rest = cl_body mb st2 n r"
        using bdm Inr by (simp add: turn st2_def)
      show ?thesis
      proof (cases "n = 0")
        case True
        have v0: "cl_view \<lparr>cl_buffered = fb_clear (fb_clear fb), cl_expected = None, cl_boundary = 0\<rparr> =
            (None, [], 0)"
          by (simp add: cl_view_def)
        have e: "fb_append (fb_clear fb) [] mb ''Content-Length body exceeds the configured size limit'' =
            Inr (fb_clear fb)"
          by (simp add: fb_append_def fb_clear_def)
        show ?thesis
          unfolding t2
          using run bdm Inr True
          by (cases "parseJson []")
            (simp_all add: cl_body_def st2_def e turn_agrees_def cl_step_def bd_def finish_body_def
              rl cl_good_def v0)
      next
        case False
        have g2: "cl_good mh mb st2" using False nb by (simp add: st2_def cl_good_def)
        have v2: "cl_view st2 = (Some n, [], 0)" by (simp add: st2_def cl_view_def)
        have run2: "run_bytes (cl_step mh mb) (cl_view st) rest =
            run_bytes (cl_step mh mb) (cl_view st2) r"
          using run bdm Inr False by (simp add: cl_step_def bd_def v2)
        have ex: "cl_expected st2 = Some n" by (simp add: st2_def)
        show ?thesis
        proof (cases "r = []")
          case True
          from cl_body_step(2) [OF g2 ex True] obtain fb2 where
            "cl_body mb st2 n r = (st2\<lparr>cl_buffered := fb2\<rparr>, Inr ([], []))"
            "fb_ok fb2" "fb_bytes fb2 = []" by (auto simp: st2_def)
          moreover from this have "fb_length fb2 = 0" by (simp add: fb_length_bytes)
          ultimately show ?thesis
            unfolding t2 using run2 True g2
            using ne by (simp add: turn_agrees_def cl_good_def cl_view_def st2_def)
        next
          case False
          from cl_body_step(1) [OF g2 ex False] show ?thesis
            unfolding t2 turn_agrees_def run2 using rl by (auto split: prod.splits sum.splits)
        qed
      qed
    qed
  qed
qed

lemma cl_loop_agrees:
  "cl_good mh mb st \<Longrightarrow> length rest < fuel \<Longrightarrow>
   agrees cl_view (cl_good mh mb) (emit_first acc (run_bytes (cl_step mh mb) (cl_view st) rest))
     (cl_loop fuel mh mb st acc rest)"
proof (induction fuel arbitrary: st acc rest)
  case (Suc fuel)
  show ?case
  proof (cases "rest = []")
    case True
    with Suc.prems show ?thesis by (simp add: agrees_def)
  next
    case False
    obtain st' r where t: "cl_turn mh mb st rest = (st', r)" by (cases "cl_turn mh mb st rest")
    note h = cl_turn_step [OF Suc.prems(1) False, unfolded t turn_agrees_def]
    show ?thesis
    proof (cases r)
      case (Inl e)
      with h t False show ?thesis by (simp add: agrees_def)
    next
      case (Inr p)
      obtain vs rest' where p: "p = (vs, rest')" by (cases p)
      have "agrees cl_view (cl_good mh mb)
          (emit_first (acc @ vs) (run_bytes (cl_step mh mb) (cl_view st') rest'))
          (cl_loop fuel mh mb st' (acc @ vs) rest')"
        using h Inr p Suc.prems(2) by (intro Suc.IH) auto
      with h t False Inr p show ?thesis by simp
    qed
  qed
qed simp

interpretation cl: chunked_decoder "content_length_push mh mb" cl_view "cl_good mh mb" "cl_step mh mb"
  for mh mb
proof unfold_locales
  fix s chunk
  assume "cl_good mh mb s"
  from cl_loop_agrees [OF this, of chunk "Suc (length chunk)" "[]"]
  show "agrees cl_view (cl_good mh mb) (run_bytes (cl_step mh mb) (cl_view s) chunk)
          (content_length_push mh mb s chunk)"
    by (simp add: content_length_push_def)
qed

lemma cl_good_new [simp]: "cl_good mh mb cl_new"
  by (simp add: cl_good_def cl_new_def fb_new_def fb_ok_def)

section \<open>The boundary register\<close>

lemma byte_lt: "(of_char c :: nat) < 256"
  by (metis of_char_mod_256 mod_less_divisor zero_less_numeral)

lemma byte_bit: "bit (of_char c :: nat) n \<Longrightarrow> n < 8"
proof -
  have "(of_char c :: nat) = take_bit 8 (of_char c)"
    by (simp add: take_bit_eq_mod)
  then show "bit (of_char c :: nat) n \<Longrightarrow> n < 8" by (metis bit_take_bit_iff)
qed

lemma shift_in_add: "shift_in w c = w * 256 + word_of_nat (of_char c)"
proof -
  have "push_bit 8 w + word_of_nat (of_char c) = push_bit 8 w OR word_of_nat (of_char c)"
    by (rule disjunctive_add) (auto simp: bit_simps dest: byte_bit)
  then show ?thesis
    by (simp add: shift_in_def push_bit_eq_mult)
qed

lemma unat_shift_in: "unat (shift_in w c) = (unat w * 256 + of_char c) mod 2 ^ 32"
  by (simp add: shift_in_add unat_word_ariths unat_of_nat mod_simps)

definition register :: "string \<Rightarrow> 32 word" where
  "register bs = foldl shift_in 0 bs"

definition big_endian :: "string \<Rightarrow> nat" where
  "big_endian bs = foldl (\<lambda>n c. n * 256 + of_char c) 0 bs"

lemma big_endian_append: "big_endian (bs @ [c]) = big_endian bs * 256 + of_char c"
  by (simp add: big_endian_def)

lemma register_append: "register (bs @ [c]) = shift_in (register bs) c"
  by (simp add: register_def)

lemma unat_register: "unat (register bs) = big_endian bs mod 2 ^ 32"
proof (induction bs rule: rev_induct)
  case Nil
  then show ?case by (simp add: register_def big_endian_def)
next
  case (snoc c bs)
  have "unat (register (bs @ [c])) = (big_endian bs mod 2 ^ 32 * 256 + of_char c) mod 2 ^ 32"
    by (simp only: register_append unat_shift_in snoc)
  also have "\<dots> = (big_endian bs * 256 + of_char c) mod 2 ^ 32"
    by (metis mod_add_left_eq mod_mult_left_eq)
  finally show ?case by (simp only: big_endian_append)
qed

lemma big_endian_lt: "big_endian bs < 256 ^ length bs"
proof (induction bs rule: rev_induct)
  case (snoc c bs)
  then show ?case
    using byte_lt [of c] by (simp only: big_endian_append length_append_singleton power_Suc)
qed (simp add: big_endian_def)

lemma digit_eq:
  fixes x y d e :: nat
  assumes "d < 256" and "e < 256"
  shows "x * 256 + d = y * 256 + e \<longleftrightarrow> x = y \<and> d = e"
proof
  assume h: "x * 256 + d = y * 256 + e"
  then have "(x * 256 + d) mod 256 = (y * 256 + e) mod 256" by simp
  with assms have "d = e" by simp
  with h show "x = y \<and> d = e" by simp
qed simp

lemma char_eqI: "(of_char c :: nat) = of_char d \<Longrightarrow> c = d"
  by (rule of_char_eqI)

text \<open>The register equals the terminator exactly when the last four bytes are \<open>CR LF CR LF\<close>.\<close>

lemma register_iff: "register bs = 0x0d0a0d0a \<longleftrightarrow> suffix (crlf @ crlf) bs"
proof -
  have u: "register bs = 0x0d0a0d0a \<longleftrightarrow> big_endian bs mod 2 ^ 32 = 0x0d0a0d0a"
    unfolding unat_register [symmetric] by (simp add: word_unat_eq_iff)
  show ?thesis
  proof (cases "4 \<le> length bs")
    case False
    then have "(256::nat) ^ length bs \<le> 256 ^ 3" by (intro power_increasing) auto
    then have "big_endian bs < 2 ^ 24" using big_endian_lt [of bs] by simp
    moreover have "\<not> suffix (crlf @ crlf) bs"
      using False by (auto simp: crlf_def dest: suffix_length_le)
    ultimately show ?thesis unfolding u by simp
  next
    case True
    obtain p q where "bs = p @ q" "length q = 4"
      using True by (metis append_take_drop_id diff_diff_cancel length_drop)
    moreover then obtain a b c d where "q = [a, b, c, d]"
      by (auto simp: numeral_eq_Suc length_Suc_conv)
    ultimately have bs: "bs = (((p @ [a]) @ [b]) @ [c]) @ [d]" by simp
    have "big_endian bs = big_endian p * 2 ^ 32 +
        (of_char a * 16777216 + of_char b * 65536 + of_char c * 256 + of_char d)"
      unfolding bs big_endian_append by simp
    moreover have "(of_char a * 16777216 + of_char b * 65536 + of_char c * 256 + of_char d :: nat) < 4294967296"
      using byte_lt [of a] byte_lt [of b] byte_lt [of c] byte_lt [of d] by linarith
    ultimately have m: "big_endian bs mod 2 ^ 32 =
        of_char a * 16777216 + of_char b * 65536 + of_char c * 256 + of_char d" by simp
    have z: "(0x0d0a0d0a :: nat) = ((13 * 256 + 10) * 256 + 13) * 256 + 10" by simp
    have x: "of_char a * 16777216 + of_char b * 65536 + of_char c * 256 + of_char d =
        (((of_char a * 256 + of_char b) * 256 + of_char c) * 256 + of_char d :: nat)" by simp
    have "big_endian bs mod 2 ^ 32 = 0x0d0a0d0a \<longleftrightarrow>
        (of_char a :: nat) = 13 \<and> (of_char b :: nat) = 10 \<and> (of_char c :: nat) = 13 \<and> (of_char d :: nat) = 10"
      unfolding m x z by (simp only: digit_eq byte_lt) auto
    also have "\<dots> \<longleftrightarrow> a = CHR 0x0D \<and> b = CHR 0x0A \<and> c = CHR 0x0D \<and> d = CHR 0x0A"
      by (auto intro: char_eqI)
    also have "\<dots> \<longleftrightarrow> suffix (crlf @ crlf) bs"
      by (simp add: bs crlf_def suffix_def)
    finally show ?thesis unfolding u .
  qed
qed

section \<open>Frames of printed values\<close>

lemma parseJson_text: "json_plain v \<Longrightarrow> json_utf8 v \<Longrightarrow> parseJson (json_text v) = Inr v"
  by (simp add: parseJson_def utf8_decode_json_text json_roundtrip)

lemma encodeJson_plain: "json_plain v \<Longrightarrow> encodeJson v = Inr (json_text v)"
  by (cases v) (simp_all add: encodeJson_def json_stringify_def)

lemma json_text_no_control:
  "CHR 0x0A \<notin> set (json_text v)" "strip_cr (json_text v) = json_text v"
proof -
  show "CHR 0x0A \<notin> set (json_text v)"
    using json_text_printable(1) [of "CHR 0x0A" v] by auto
  have "last (json_text v) \<noteq> CHR 0x0D"
    using json_text_printable(1) [of "last (json_text v)" v] by auto
  then show "strip_cr (json_text v) = json_text v" by (simp add: strip_cr_def)
qed

lemma run_frames:
  "(\<And>v. v \<in> set vs \<Longrightarrow> run_bytes step a (enc v) = Inr ([v], a)) \<Longrightarrow>
   run_bytes step a (concat (map enc vs)) = Inr (vs, a)"
  by (induction vs) (simp_all add: run_bytes_append_emit)

lemma run_json_line:
  assumes "json_plain v" and "json_utf8 v" and "length (json_text v) \<le> n"
  shows "run_bytes (line_step n) [] (json_text v @ [CHR 0x0A]) = Inr ([v], [])"
  using assms run_line [OF json_text_no_control(1) line_fits_Nil, of n v]
  by (simp add: run_bytes_append_emit line_fits_def json_text_no_control line_step_nl parseJson_text)

lemma run_header:
  assumes "length (buf @ seg) \<le> mh + 3"
    and "\<And>p. prefix p seg \<Longrightarrow> p \<noteq> [] \<Longrightarrow> \<not> suffix (crlf @ crlf) (buf @ p)"
  shows "run_bytes (cl_step mh mb) (None, buf, register buf) seg =
     Inr ([], (None, buf @ seg, register (buf @ seg)))"
  using assms
proof (induction seg arbitrary: buf)
  case (Cons c seg)
  have "\<not> suffix (crlf @ crlf) (buf @ [c])" using Cons.prems(2) [of "[c]"] by simp
  then have nb: "shift_in (register buf) c \<noteq> 0x0d0a0d0a"
    by (metis register_append register_iff)
  then have "cl_step mh mb (None, buf, register buf) c = Inr ([], (None, buf @ [c], register (buf @ [c])))"
    using Cons.prems(1) by (simp add: cl_step_def register_append)
  moreover have "run_bytes (cl_step mh mb) (None, buf @ [c], register (buf @ [c])) seg =
      Inr ([], (None, (buf @ [c]) @ seg, register ((buf @ [c]) @ seg)))"
    using Cons.prems(1) Cons.prems(2) [of "c # p" for p] by (intro Cons.IH) auto
  ultimately show ?case by simp
qed simp

lemma terminator_once:
  assumes "CHR 0x0D \<notin> set hdr" and "prefix p (hdr @ [CHR 0x0D, CHR 0x0A, CHR 0x0D])"
  shows "\<not> suffix (crlf @ crlf) p"
proof
  assume "suffix (crlf @ crlf) p"
  then obtain x where p: "p = (x @ [CHR 0x0D, CHR 0x0A, CHR 0x0D]) @ [CHR 0x0A]"
    by (auto simp: suffix_def crlf_def)
  with assms(2) have "prefix p (hdr @ [CHR 0x0D, CHR 0x0A])"
    by (auto simp: prefix_def append_eq_append_conv2 append_eq_Cons_conv Cons_eq_append_conv)
  then have "count_list p (CHR 0x0D) \<le> count_list (hdr @ [CHR 0x0D, CHR 0x0A]) (CHR 0x0D)"
    by (metis count_list_append le_add1 prefix_def)
  with assms(1) p show False by simp
qed

lemma split_crlf_single: "CHR 0x0D \<notin> set l \<Longrightarrow> split_crlf l = [l]"
proof (induction l)
  case (Cons x xs)
  then show ?case by (cases xs) auto
qed simp

definition cl_header :: "nat \<Rightarrow> string" where
  "cl_header n = ''Content-Length: '' @ show_nat n"

lemma cl_header_no_cr: "CHR 0x0D \<notin> set (cl_header n)"
  using show_nat_digits [of n] by (auto simp: cl_header_def is_digit_def)

lemma parse_header_printed:
  assumes "n \<le> mb" and "int n \<le> max_safe"
  shows "parse_header mb (cl_header n) = Inr n"
proof -
  have a: "after_colon (cl_header n) = Some ('' '' @ show_nat n)"
    by (simp add: after_colon_def cl_header_def content_length_name_def to_lower_def to_lower_char_def
        header_space_def char_of_def bit_simps)
  have d: "takeWhile is_digit (show_nat n) = show_nat n" "dropWhile is_digit (show_nat n) = []"
    using show_nat_digits [of n] by (simp_all add: takeWhile_eq_all_conv)
  obtain c t where s: "show_nat n = c # t" "is_digit c" using show_nat_Cons [of n] by blast
  then have "\<not> header_space c" by (auto simp: header_space_def is_digit_def Let_def)
  then have w: "dropWhile header_space ('' '' @ show_nat n) = show_nat n"
    by (simp add: s header_space_def)
  have "length_field ('' '' @ show_nat n) = Some (show_nat n)"
    unfolding length_field_def w by (simp add: Let_def d)
  moreover have "is_safe_integer (num (int n))"
    using assms(2) by (simp add: is_safe_integer_def num_def)
  ultimately show ?thesis
    using assms(1) a by (simp add: parse_header_def split_crlf_single cl_header_no_cr)
qed

lemma run_content_length:
  assumes "json_plain v" and "json_utf8 v" and "length (json_text v) \<le> mb"
    and "int (length (json_text v)) \<le> max_safe" and "length (cl_header (length (json_text v))) \<le> mh"
  shows "run_bytes (cl_step mh mb) (None, [], 0)
      ((cl_header (length (json_text v)) @ crlf @ crlf) @ json_text v) = Inr ([v], (None, [], 0))"
proof -
  define hdr where "hdr = cl_header (length (json_text v))"
  define seg where "seg = hdr @ [CHR 0x0D, CHR 0x0A, CHR 0x0D]"
  have cr: "CHR 0x0D \<notin> set hdr" by (simp add: hdr_def cl_header_no_cr)
  have z: "register [] = 0" by (simp add: register_def)
  have "run_bytes (cl_step mh mb) (None, [], register []) seg =
      Inr ([], (None, [] @ seg, register ([] @ seg)))"
    using assms(5) terminator_once [OF cr] by (intro run_header) (simp_all add: seg_def hdr_def)
  then have r1: "run_bytes (cl_step mh mb) (None, [], 0) seg = Inr ([], (None, seg, register seg))"
    by (simp add: z)
  have "register (seg @ [CHR 0x0A]) = 0x0d0a0d0a"
    by (simp add: register_iff seg_def crlf_def suffix_def)
  then have "cl_step mh mb (None, seg, register seg) (CHR 0x0A) =
      Inr ([], (Some (length (json_text v)), [], 0))"
    using parse_header_printed [OF assms(3,4)]
    by (simp add: cl_step_def register_append [symmetric]) (simp add: seg_def hdr_def)
  then have r2: "run_bytes (cl_step mh mb) (None, [], 0) (seg @ [CHR 0x0A]) =
      Inr ([], (Some (length (json_text v)), [], 0))"
    by (simp add: run_bytes_append_emit r1)
  have r3: "run_bytes (cl_step mh mb) (Some (length (json_text v)), [], 0) (json_text v) = Inr ([v], (None, [], 0))"
    by (subst run_body) (simp_all add: finish_body_def parseJson_text assms(1,2))
  have "(hdr @ crlf @ crlf) @ json_text v = (seg @ [CHR 0x0A]) @ json_text v"
    by (simp add: seg_def crlf_def)
  then show ?thesis
    unfolding hdr_def [symmetric] by (simp only: run_bytes_append_emit [of _ _ "seg @ [CHR 0x0A]"] r2) (simp add: r3)
qed

lemma encoded_lines:
  "list_all2 (\<lambda>v b. json_lines_encode n v = Inr b) vs bs \<Longrightarrow> \<forall>v \<in> set vs. json_plain v \<Longrightarrow>
   concat bs = concat (map (\<lambda>v. json_text v @ [CHR 0x0A]) vs) \<and> (\<forall>v \<in> set vs. length (json_text v) \<le> n)"
  by (induction rule: list_all2_induct)
    (auto simp: json_lines_encode_def encodeJson_plain split: if_splits)

lemma encoded_content_length:
  "list_all2 (\<lambda>v b. content_length_encode n v = Inr b) vs bs \<Longrightarrow> \<forall>v \<in> set vs. json_plain v \<Longrightarrow>
   concat bs = concat (map (\<lambda>v. (cl_header (length (json_text v)) @ crlf @ crlf) @ json_text v) vs)
   \<and> (\<forall>v \<in> set vs. length (json_text v) \<le> n)"
  by (induction rule: list_all2_induct)
    (auto simp: content_length_encode_def encodeJson_plain cl_header_def split: if_splits)

lemma split_crlf_append: "CHR 0x0D \<notin> set l \<Longrightarrow> split_crlf (l @ crlf @ r) = l # split_crlf r"
proof (induction l)
  case (Cons x xs)
  then show ?case by (cases xs) (auto simp: crlf_def)
qed (simp add: crlf_def)

lemma fb_grow_small: "old < needed \<Longrightarrow> fb_grow limit needed old \<le> max 256 (2 * needed)"
  unfolding fb_grow_def by linarith

lemma append_all_storage:
  "append_all fb cs limit msg cost = Inr (fb', cost') \<Longrightarrow> fb_ok fb \<Longrightarrow>
   length (fb_storage fb) \<le> max 256 (2 * length (fb_bytes fb)) \<Longrightarrow>
   length (fb_storage fb') \<le> max 256 (2 * length (fb_bytes fb'))"
proof (induction cs arbitrary: fb cost)
  case (Cons c cs)
  obtain fb1 where f: "fb_append fb c limit msg = Inr fb1"
    using Cons.prems(1) by (auto split: sum.splits)
  have sp: "fb_ok fb1" "fb_bytes fb1 = fb_bytes fb @ c"
    "length (fb_storage fb1) = fb_capacity_for fb (fb_length fb + length c) limit"
    using fb_append_spec [OF Cons.prems(2), where chunk = c and limit = limit and msg = msg] f
    by auto
  have l: "fb_length fb + length c = length (fb_bytes fb1)"
    using fb_length_bytes [OF Cons.prems(2)] sp(2) by simp
  have "length (fb_bytes fb) \<le> length (fb_bytes fb1)" using sp(2) by simp
  then have "length (fb_storage fb1) \<le> max 256 (2 * length (fb_bytes fb1))"
    unfolding sp(3) l fb_capacity_for_def using Cons.prems(3) fb_grow_small by auto
  with Cons.IH [OF _ sp(1)] Cons.prems(1) f show ?case by simp
qed simp

section \<open>Properties\<close>

text \<open>C32: JSON Lines round trip. The frames encoded from a list of values, concatenated and cut into
  chunks anywhere, decode to exactly those values, and the stream then ends cleanly.\<close>

theorem json_lines_roundtrip:
  assumes "list_all2 (\<lambda>v b. json_lines_encode n v = Inr b) vs bs"
    and "\<forall>v \<in> set vs. json_plain v \<and> json_utf8 v"
    and "concat chunks = concat bs"
  shows "snd (feed (json_lines_push n) fb_new chunks) = Inr vs
    \<and> json_lines_finish (fst (feed (json_lines_push n) fb_new chunks)) = Inr []"
proof -
  have "run_bytes (line_step n) [] (concat chunks) = Inr (vs, [])"
    using assms encoded_lines [OF assms(1)] by (auto intro: run_frames run_json_line)
  with jl.feed_run [OF json_lines_good_new, of n chunks vs "[]"] show ?thesis
    by (simp add: json_lines_finish_def json_lines_good_def fb_length_bytes)
qed

theorem json_lines_roundtrip_witness:
  "snd (feed (json_lines_push 8) fb_new [''tr'', ''ue'' @ [CHR 0x0A] @ ''[n'', ''ull]'' @ [CHR 0x0A]])
     = Inr [JBool True, JArr [JNull]]"
proof -
  have e: "json_lines_encode 8 (JBool True) = Inr (''true'' @ [CHR 0x0A])"
    "json_lines_encode 8 (JArr [JNull]) = Inr (''[null]'' @ [CHR 0x0A])"
    by (simp_all add: json_lines_encode_def encodeJson_def json_stringify_def)
  show ?thesis
    using json_lines_roundtrip [of 8 "[JBool True, JArr [JNull]]"
        "[''true'' @ [CHR 0x0A], ''[null]'' @ [CHR 0x0A]]"
        "[''tr'', ''ue'' @ [CHR 0x0A] @ ''[n'', ''ull]'' @ [CHR 0x0A]]"] e
    by simp
qed

text \<open>C33: Content-Length round trip. Frames encoded from a list of values, concatenated and cut into
  chunks anywhere, decode to those values, and the stream then ends cleanly, as long as the
  printed header respects the decoder's header limit.\<close>

theorem content_length_roundtrip:
  assumes "list_all2 (\<lambda>v b. content_length_encode mb v = Inr b) vs bs"
    and "\<forall>v \<in> set vs. json_plain v \<and> json_utf8 v \<and> length (cl_header (length (json_text v))) \<le> mh"
    and "int mb \<le> max_safe"
    and "concat chunks = concat bs"
  shows "snd (feed (content_length_push mh mb) cl_new chunks) = Inr vs
    \<and> content_length_finish (fst (feed (content_length_push mh mb) cl_new chunks)) = Inr []"
proof -
  note enc = encoded_content_length [OF assms(1)]
  have "run_bytes (cl_step mh mb) (None, [], 0)
      ((cl_header (length (json_text v)) @ crlf @ crlf) @ json_text v) = Inr ([v], (None, [], 0))"
    if "v \<in> set vs" for v
  proof -
    have "length (json_text v) \<le> mb" using that assms(2) enc by blast
    with that assms(2,3) show ?thesis by (intro run_content_length) auto
  qed
  then have "run_bytes (cl_step mh mb) (None, [], 0) (concat chunks) = Inr (vs, (None, [], 0))"
    using assms(2,4) enc by (metis (no_types, lifting) run_frames)
  then have "run_bytes (cl_step mh mb) (cl_view cl_new) (concat chunks) = Inr (vs, (None, [], 0))"
    by (simp add: cl_view_def cl_new_def)
  from cl.feed_run [OF cl_good_new this] show ?thesis
    by (auto simp: content_length_finish_def cl_view_def cl_good_def fb_length_bytes)
qed

theorem content_length_roundtrip_witness:
  "snd (feed (content_length_push 32 8) cl_new [''Content-'', ''Length: 4'' @ crlf @ crlf @ ''tr'', ''ue''])
     = Inr [JBool True]"
proof -
  have e: "content_length_encode 8 (JBool True) = Inr ((''Content-Length: 4'' @ crlf @ crlf) @ ''true'')"
    by (simp add: content_length_encode_def encodeJson_def json_stringify_def show_nat.simps
        char_of_def bit_simps)
  have h: "length (cl_header (length (json_text (JBool True)))) \<le> 32"
    by (simp add: cl_header_def show_nat.simps)
  show ?thesis
    using content_length_roundtrip [of 8 "[JBool True]" "[(''Content-Length: 4'' @ crlf @ crlf) @ ''true'']"
        32 "[''Content-'', ''Length: 4'' @ crlf @ crlf @ ''tr'', ''ue'']"] e h
    by (simp add: max_safe_def)
qed

text \<open>Incremental decoding. Whatever the bytes, valid or not, both stateful decoders deliver the
  same values or fail with the same error however the input is cut into chunks.\<close>

theorem decoders_ignore_chunking:
  assumes "concat cs = concat ds"
  shows "snd (feed (json_lines_push n) fb_new cs) = snd (feed (json_lines_push n) fb_new ds)
    \<and> snd (feed (content_length_push mh mb) cl_new cs) = snd (feed (content_length_push mh mb) cl_new ds)"
  using jl.chunking_irrelevant(1) [OF json_lines_good_new assms]
    cl.chunking_irrelevant(1) [OF cl_good_new assms] by blast

theorem decoders_ignore_chunking_witness:
  "snd (feed (json_lines_push 3) fb_new [''x'', ''yz'', ''!'']) = snd (feed (json_lines_push 3) fb_new [''xyz!''])"
  using decoders_ignore_chunking [of "[''x'', ''yz'', ''!'']" "[''xyz!'']" 3 0 0] by simp

text \<open>C40: Fragmented input is copied linearly. Appending chunks to a fresh buffer keeps the contents in
  order and within the limit, the storage is at most twice the contents (or 256 bytes), and the
  bytes copied by all growth steps together are at most twice the storage.\<close>

theorem frame_buffer_linear:
  assumes "append_all fb_new chunks limit msg 0 = Inr (fb, copied)"
  shows "fb_bytes fb = concat chunks \<and> length (concat chunks) \<le> limit
    \<and> length (fb_storage fb) \<le> max 256 (2 * length (concat chunks))
    \<and> copied \<le> 2 * length (fb_storage fb)"
proof -
  have z: "length (fb_storage fb_new) = 0" by (simp add: fb_new_def)
  note inv = append_all_inv [OF assms fb_new_ok(1)]
  note st = append_all_storage [OF assms fb_new_ok(1)]
  have i: "fb_ok fb" "length (fb_storage fb) \<le> limit" "fb_bytes fb = concat chunks"
    "copied \<le> 2 * length (fb_storage fb)"
    using inv by (simp_all add: z)
  have "length (concat chunks) \<le> limit"
    using i(1-3) fb_length_bytes [OF i(1)] by (simp add: fb_ok_def)
  with i st show ?thesis by (simp add: z)
qed

theorem frame_buffer_linear_witness:
  "\<exists>fb copied. append_all fb_new [''ab'', ''c''] 4 ''too long'' 0 = Inr (fb, copied)
     \<and> fb_bytes fb = ''abc'' \<and> copied \<le> 2 * length (fb_storage fb)"
proof -
  have "\<exists>fb copied. append_all fb_new [''ab'', ''c''] 4 ''too long'' 0 = Inr (fb, copied)"
    by (simp add: fb_append_def fb_new_def Let_def)
  then obtain fb copied where a: "append_all fb_new [''ab'', ''c''] 4 ''too long'' 0 = Inr (fb, copied)"
    by blast
  from frame_buffer_linear [OF a] a show ?thesis by auto
qed

text \<open>The header terminator. The decoder's 32-bit boundary register, which shifts bytes in and
  drops those that overflow, equals \<open>0x0d0a0d0a\<close> exactly when the header ends in \<open>CR LF CR LF\<close>.\<close>

theorem boundary_register_detects:
  "foldl shift_in 0 header = 0x0d0a0d0a \<longleftrightarrow> suffix (crlf @ crlf) header"
  using register_iff [of header] by (simp add: register_def)

text \<open>Bounded buffering. After any successfully decoded input a decoder holds at most the header
  limit plus three bytes, or fewer bytes than the body it expects, which is within the body limit.\<close>

theorem content_length_bounded:
  assumes "feed (content_length_push mh mb) cl_new chunks = (st, Inr vs)"
  shows "case cl_expected st of
           None \<Rightarrow> length (fb_bytes (cl_buffered st)) \<le> mh + 3
         | Some n \<Rightarrow> length (fb_bytes (cl_buffered st)) < n \<and> n \<le> mb"
  using cl.feed_agrees [OF cl_good_new, of mh mb chunks] assms
  by (auto simp: agrees_def cl_good_def fb_length_bytes split: sum.splits prod.splits option.splits)

theorem content_length_bounded_witness:
  "\<exists>st. feed (content_length_push 1 1) cl_new [''a'', ''bcd''] = (st, Inr [])
     \<and> length (fb_bytes (cl_buffered st)) \<le> 4"
proof -
  define st where "st = fst (feed (content_length_push 1 1) cl_new [''a'', ''bcd''])"
  have "snd (feed (content_length_push 1 1) cl_new [''a'', ''bcd'']) = Inr []" by code_simp
  then have f: "feed (content_length_push 1 1) cl_new [''a'', ''bcd''] = (st, Inr [])"
    by (simp add: st_def prod_eq_iff)
  have "cl_expected st = None" unfolding st_def by code_simp
  with content_length_bounded [OF f] f show ?thesis by auto
qed

text \<open>A header line other than the length is skipped whatever its bytes: the "ascii" decoder of the
  source is windows-1252 and rejects nothing.\<close>

theorem header_lines_any_bytes:
  assumes "CHR 0x0D \<notin> set line" and "after_colon line = None"
    and "n \<le> mb" and "int n \<le> max_safe"
  shows "parse_header mb (line @ crlf @ cl_header n) = Inr n"
proof -
  have "split_crlf (line @ crlf @ cl_header n) = [line, cl_header n]"
    using assms(1) by (simp add: split_crlf_append split_crlf_single cl_header_no_cr)
  moreover have "parse_header mb (cl_header n) = Inr n" by (rule parse_header_printed [OF assms(3,4)])
  ultimately show ?thesis
    using assms(2) by (simp add: parse_header_def split_crlf_single cl_header_no_cr split: if_splits)
qed

theorem header_lines_any_bytes_witness:
  "parse_header 10 ([char_of (0xE9 :: nat), CHR '':'', char_of (0xFF :: nat)] @ crlf @ cl_header 4) = Inr 4"
  by (rule header_lines_any_bytes)
    (simp_all add: after_colon_def content_length_name_def to_lower_def max_safe_def char_of_def bit_simps)

end
