(* ===== verification/Channel.thy ===== *)
theory Channel
  imports Framing
begin

text \<open>
  \<open>src/core/transport/channel.ts\<close>: a message channel made of a byte channel and a frame codec. The
  codec is an argument (its decoder's \<open>push\<close> and \<open>finish\<close>), instantiated below with the two
  incremental codecs of the framing theory. Listeners are numbered and do not call back into the
  channel; what they are given is logged in order. A chunk whose decoding throws delivers nothing,
  and the error goes to whoever drives the byte channel.
\<close>

record ('s, 'm) channel =
  ch_decoder :: 's
  ch_listeners :: "nat list"
  ch_close_listeners :: "nat list"
  ch_closed :: bool
  ch_error :: "unknown option"
  ch_delivered :: "(nat \<times> 'm) list"
  ch_notified :: "(nat \<times> unknown option) list"
  ch_thrown :: "unknown list"

definition channel_new :: "'s \<Rightarrow> ('s, 'm) channel" where
  "channel_new d = \<lparr>ch_decoder = d, ch_listeners = [], ch_close_listeners = [], ch_closed = False,
     ch_error = None, ch_delivered = [], ch_notified = [], ch_thrown = []\<rparr>"

definition deliver :: "'m list \<Rightarrow> ('s, 'm) channel \<Rightarrow> ('s, 'm) channel" where
  "deliver ms c =
     c\<lparr>ch_delivered := ch_delivered c @ concat (map (\<lambda>m. map (\<lambda>l. (l, m)) (ch_listeners c)) ms)\<rparr>"

definition channel_chunk ::
  "('s \<Rightarrow> string \<Rightarrow> 's \<times> (unknown + 'm list)) \<Rightarrow> string \<Rightarrow> ('s, 'm) channel \<Rightarrow> ('s, 'm) channel" where
  "channel_chunk push chunk c =
     (if ch_closed c then c
      else
        (case push (ch_decoder c) chunk of
           (d, Inr ms) \<Rightarrow> deliver ms (c\<lparr>ch_decoder := d\<rparr>)
         | (d, Inl e) \<Rightarrow> c\<lparr>ch_decoder := d, ch_thrown := ch_thrown c @ [e]\<rparr>))"

definition notifyClosed ::
  "('s \<Rightarrow> unknown + 'm list) \<Rightarrow> unknown option \<Rightarrow> ('s, 'm) channel \<Rightarrow> ('s, 'm) channel" where
  "notifyClosed finish err c =
     (if ch_closed c then c
      else
        let c1 = c\<lparr>ch_closed := True\<rparr>;
            (c2, closeError) =
              (case finish (ch_decoder c1) of
                 Inr ms \<Rightarrow> (deliver ms c1, err)
               | Inl e \<Rightarrow> (c1, Some e))
        in c2\<lparr>ch_listeners := [], ch_error := closeError, ch_close_listeners := [],
              ch_notified := ch_notified c2 @ map (\<lambda>l. (l, closeError)) (ch_close_listeners c2)\<rparr>)"

definition channel_subscribe :: "nat \<Rightarrow> ('s, 'm) channel \<Rightarrow> ('s, 'm) channel" where
  "channel_subscribe l c = c\<lparr>ch_listeners := os_add l (ch_listeners c)\<rparr>"

definition channel_unsubscribe :: "nat \<Rightarrow> ('s, 'm) channel \<Rightarrow> ('s, 'm) channel" where
  "channel_unsubscribe l c = c\<lparr>ch_listeners := removeAll l (ch_listeners c)\<rparr>"

definition channel_subscribe_close :: "nat \<Rightarrow> ('s, 'm) channel \<Rightarrow> ('s, 'm) channel" where
  "channel_subscribe_close l c =
     (if ch_closed c then c\<lparr>ch_notified := ch_notified c @ [(l, ch_error c)]\<rparr>
      else c\<lparr>ch_close_listeners := os_add l (ch_close_listeners c)\<rparr>)"

definition channel_unsubscribe_close :: "nat \<Rightarrow> ('s, 'm) channel \<Rightarrow> ('s, 'm) channel" where
  "channel_unsubscribe_close l c = c\<lparr>ch_close_listeners := removeAll l (ch_close_listeners c)\<rparr>"

text \<open>\<open>close()\<close>, with what closing the bytes answered; the error it then throws is returned.\<close>

definition channel_close ::
  "('s \<Rightarrow> unknown + 'm list) \<Rightarrow> unknown option \<Rightarrow> ('s, 'm) channel \<Rightarrow> ('s, 'm) channel \<times> unknown option" where
  "channel_close finish bytes_error c =
     (if ch_closed c then (c, None) else (notifyClosed finish bytes_error c, bytes_error))"

datatype channel_event =
    Chunk string
  | BytesClosed "unknown option"
  | Subscribe nat | Unsubscribe nat
  | SubscribeClose nat | UnsubscribeClose nat
  | Close "unknown option"

fun channel_step ::
  "('s \<Rightarrow> string \<Rightarrow> 's \<times> (unknown + 'm list)) \<Rightarrow> ('s \<Rightarrow> unknown + 'm list) \<Rightarrow>
   ('s, 'm) channel \<Rightarrow> channel_event \<Rightarrow> ('s, 'm) channel" where
  "channel_step push finish c (Chunk b) = channel_chunk push b c"
| "channel_step push finish c (BytesClosed e) = notifyClosed finish e c"
| "channel_step push finish c (Subscribe l) = channel_subscribe l c"
| "channel_step push finish c (Unsubscribe l) = channel_unsubscribe l c"
| "channel_step push finish c (SubscribeClose l) = channel_subscribe_close l c"
| "channel_step push finish c (UnsubscribeClose l) = channel_unsubscribe_close l c"
| "channel_step push finish c (Close e) = fst (channel_close finish e c)"

section \<open>Delivery\<close>

definition inbox :: "nat \<Rightarrow> ('s, 'm) channel \<Rightarrow> 'm list" where
  "inbox l c = map snd (filter (\<lambda>x. fst x = l) (ch_delivered c))"

lemma filter_pair: "distinct ls \<Longrightarrow>
  filter (\<lambda>x. fst x = l) (map (\<lambda>l. (l, m)) ls) = (if l \<in> set ls then [(l, m)] else [])"
  by (induction ls) auto

lemma inbox_deliver:
  "distinct (ch_listeners c) \<Longrightarrow>
   inbox l (deliver ms c) = inbox l c @ (if l \<in> set (ch_listeners c) then ms else [])"
  by (induction ms) (auto simp: deliver_def inbox_def filter_pair)

lemma deliver_fields [simp]:
  "ch_decoder (deliver ms c) = ch_decoder c" "ch_listeners (deliver ms c) = ch_listeners c"
  "ch_closed (deliver ms c) = ch_closed c" "ch_thrown (deliver ms c) = ch_thrown c"
  "ch_close_listeners (deliver ms c) = ch_close_listeners c" "ch_notified (deliver ms c) = ch_notified c"
  "ch_error (deliver ms c) = ch_error c"
  by (simp_all add: deliver_def)

lemma inbox_frame [simp]: "inbox l (c\<lparr>ch_decoder := d\<rparr>) = inbox l c"
  by (simp add: inbox_def)

definition receiving :: "nat \<Rightarrow> ('s, 'm) channel \<Rightarrow> bool" where
  "receiving l c = (\<not> ch_closed c \<and> distinct (ch_listeners c) \<and> l \<in> set (ch_listeners c))"

context chunked_decoder
begin

text \<open>A channel over a contract decoder hands its listener what the byte machine yields.\<close>

lemma channel_feed:
  assumes "receiving l c" and "good (ch_decoder c)"
    and "run_bytes step (view (ch_decoder c)) (concat cs) = Inr (vs, a)"
  shows "let c' = foldl (\<lambda>c b. channel_chunk push b c) c cs in
      receiving l c' \<and> good (ch_decoder c') \<and> view (ch_decoder c') = a
      \<and> inbox l c' = inbox l c @ vs \<and> ch_thrown c' = ch_thrown c"
  using assms
proof (induction cs arbitrary: c vs)
  case Nil
  then show ?case by simp
next
  case (Cons b cs)
  obtain r where r: "run_bytes step (view (ch_decoder c)) b = r" by simp
  show ?case
  proof (cases r)
    case (Inl e)
    with Cons.prems(3) r show ?thesis by (simp add: run_bytes_append_emit)
  next
    case (Inr p)
    obtain us a1 where p: "p = (us, a1)" by (cases p)
    with push_agrees [OF Cons.prems(2), of b] r Inr obtain d where
      d: "push (ch_decoder c) b = (d, Inr us)" "good d" "view d = a1"
      by (cases "push (ch_decoder c) b") (auto simp: agrees_def)
    obtain ws where w: "run_bytes step a1 (concat cs) = Inr (ws, a)" "vs = us @ ws"
      using Cons.prems(3) r Inr p by (auto simp: run_bytes_append split: sum.splits prod.splits)
    define c1 where "c1 = channel_chunk push b c"
    have c1: "receiving l c1" "good (ch_decoder c1)" "view (ch_decoder c1) = a1"
      "inbox l c1 = inbox l c @ us" "ch_thrown c1 = ch_thrown c"
      using Cons.prems(1) d by (simp_all add: c1_def channel_chunk_def receiving_def inbox_deliver)
    from Cons.IH [OF c1(1,2)] w(1) c1 show ?thesis
      by (simp add: c1_def [symmetric] w(2) Let_def)
  qed
qed

end

lemma encoded_lines_run:
  assumes "list_all2 (\<lambda>v b. json_lines_encode n v = Inr b) vs bs"
    and "\<forall>v \<in> set vs. json_plain v \<and> json_utf8 v"
  shows "run_bytes (line_step n) [] (concat bs) = Inr (vs, [])"
  using assms encoded_lines [OF assms(1)] by (auto intro: run_frames run_json_line)

section \<open>Properties\<close>

text \<open>End to end over JSON Lines. Values sent on one side arrive, in order and complete, at every
  listener subscribed on the other, however the bytes are cut; when the bytes then close without
  error, the close observers are told exactly that, once.\<close>

theorem channel_delivers:
  assumes "list_all2 (\<lambda>v b. json_lines_encode n v = Inr b) vs bs"
    and "\<forall>v \<in> set vs. json_plain v \<and> json_utf8 v"
    and "concat chunks = concat bs"
    and "receiving l c" and "ch_decoder c = fb_new"
  defines "c' \<equiv> foldl (\<lambda>c b. channel_chunk (json_lines_push n) b c) c chunks"
  shows "inbox l c' = inbox l c @ vs
    \<and> inbox l (notifyClosed json_lines_finish None c') = inbox l c @ vs
    \<and> ch_notified (notifyClosed json_lines_finish None c') =
        ch_notified c' @ map (\<lambda>x. (x, None)) (ch_close_listeners c')"
proof -
  have "run_bytes (line_step n) (fb_bytes (ch_decoder c)) (concat chunks) = Inr (vs, [])"
    using encoded_lines_run [OF assms(1,2)] assms(3,5) by simp
  from jl.channel_feed [OF assms(4) _ this] have
    r: "receiving l c'" "json_lines_good n (ch_decoder c')" "fb_bytes (ch_decoder c') = []"
    "inbox l c' = inbox l c @ vs"
    by (simp_all add: assms(5) c'_def Let_def)
  have "json_lines_finish (ch_decoder c') = Inr []"
    using r(2,3) by (simp add: json_lines_finish_def json_lines_good_def fb_length_bytes)
  with r(1,4) show ?thesis
    by (simp add: notifyClosed_def receiving_def Let_def deliver_def inbox_def)
qed

theorem channel_delivers_witness:
  "inbox 7 (foldl (\<lambda>c b. channel_chunk (json_lines_push 8) b c)
      (channel_subscribe 7 (channel_new fb_new)) [''tr'', ''ue'' @ [CHR 0x0A]]) = [JBool True]"
proof -
  define c :: "(frame_buffer, jv) channel" where "c = channel_subscribe 7 (channel_new fb_new)"
  have c: "receiving 7 c" "ch_decoder c = fb_new" "inbox 7 c = []"
    by (simp_all add: c_def receiving_def channel_subscribe_def channel_new_def os_add_def inbox_def)
  have e: "list_all2 (\<lambda>v b. json_lines_encode 8 v = Inr b) [JBool True] [''true'' @ [CHR 0x0A]]"
    by (simp add: json_lines_encode_def encodeJson_def json_stringify_def)
  show ?thesis
    using channel_delivers [OF e _ _ c(1,2), of "[''tr'', ''ue'' @ [CHR 0x0A]]"] c(3)
    by (simp add: c_def)
qed

text \<open>A channel closes once. Closing an open channel tells every close observer once, in order, and
  after that no event delivers a message, changes the recorded error or tells anyone, except that a
  late close observer is told that same error at once.\<close>

theorem channel_closes_once:
  "(\<not> ch_closed c \<longrightarrow>
      (let c' = notifyClosed finish e c in
        ch_closed c' \<and> ch_close_listeners c' = [] \<and> ch_listeners c' = []
        \<and> ch_notified c' = ch_notified c @ map (\<lambda>l. (l, ch_error c')) (ch_close_listeners c)
        \<and> ch_error c' = (case finish (ch_decoder c) of Inl err \<Rightarrow> Some err | Inr _ \<Rightarrow> e)))
   \<and> (ch_closed c \<longrightarrow>
      (let c' = channel_step push finish c ev in
        ch_closed c' \<and> ch_delivered c' = ch_delivered c \<and> ch_error c' = ch_error c
        \<and> ch_notified c' = ch_notified c @ (case ev of SubscribeClose l \<Rightarrow> [(l, ch_error c)] | _ \<Rightarrow> [])))"
proof -
  have "ch_closed c \<Longrightarrow> ch_closed (channel_step push finish c ev)
      \<and> ch_delivered (channel_step push finish c ev) = ch_delivered c
      \<and> ch_error (channel_step push finish c ev) = ch_error c
      \<and> ch_notified (channel_step push finish c ev) =
          ch_notified c @ (case ev of SubscribeClose l \<Rightarrow> [(l, ch_error c)] | _ \<Rightarrow> [])"
    by (cases ev)
      (simp_all add: channel_chunk_def notifyClosed_def channel_close_def channel_subscribe_def
        channel_unsubscribe_def channel_subscribe_close_def channel_unsubscribe_close_def)
  then show ?thesis
    by (auto simp: notifyClosed_def Let_def split: sum.split)
qed

theorem channel_closes_once_witness:
  "ch_closed (notifyClosed (\<lambda>_. Inr []) None (channel_new () :: (unit, jv) channel))
   \<and> ch_delivered (channel_step (\<lambda>s b. (s, Inr [JNull])) (\<lambda>_. Inr [])
        (notifyClosed (\<lambda>_. Inr []) None (channel_new ())) (Chunk ''x'')) = []"
proof -
  define c :: "(unit, jv) channel" where "c = channel_new ()"
  define c' where "c' = notifyClosed (\<lambda>_. Inr []) None c"
  have "\<not> ch_closed c" by (simp add: c_def channel_new_def)
  then have cl: "ch_closed c'"
    using channel_closes_once [of c "\<lambda>_. Inr []" None "\<lambda>s b. (s, Inr [])" "Chunk []"]
    by (simp add: Let_def c'_def)
  have "ch_delivered c' = []"
    by (simp add: c'_def c_def notifyClosed_def channel_new_def deliver_def)
  then have "ch_delivered (channel_step (\<lambda>s b. (s, Inr [JNull])) (\<lambda>_. Inr []) c' (Chunk ''x'')) = []"
    using cl channel_closes_once [of c' "\<lambda>_. Inr []" None "\<lambda>s b. (s, Inr [JNull])" "Chunk ''x''"]
    by (simp add: Let_def)
  with cl show ?thesis by (simp add: c'_def c_def)
qed

text \<open>A chunk is delivered whole or not at all: when a frame of a chunk is invalid, the valid frames
  before it in the same chunk reach no listener, although in chunks of their own they do.\<close>

theorem invalid_frame_drops_chunk:
  assumes "run_bytes (line_step n) (fb_bytes (ch_decoder c)) good = Inr (vs, a)"
    and "run_bytes (line_step n) a bad = Inl e"
    and "receiving l c" and "json_lines_good n (ch_decoder c)"
  shows "inbox l (channel_chunk (json_lines_push n) (good @ bad) c) = inbox l c
    \<and> inbox l (channel_chunk (json_lines_push n) bad (channel_chunk (json_lines_push n) good c)) =
        inbox l c @ vs"
proof -
  have r: "run_bytes (line_step n) (fb_bytes (ch_decoder c)) (good @ bad) = Inl e"
    using assms(1,2) by (simp add: run_bytes_append_emit)
  have w: "inbox l (channel_chunk (json_lines_push n) (good @ bad) c) = inbox l c"
    using jl.push_agrees [OF assms(4), of "good @ bad"] assms(3)
    unfolding r by (auto simp: agrees_def channel_chunk_def receiving_def inbox_def split: prod.splits)
  define c1 where "c1 = channel_chunk (json_lines_push n) good c"
  have c1: "receiving l c1" "json_lines_good n (ch_decoder c1)" "fb_bytes (ch_decoder c1) = a"
    "inbox l c1 = inbox l c @ vs"
    using jl.channel_feed [OF assms(3,4), of "[good]" vs a] assms(1) by (simp_all add: c1_def Let_def)
  have "inbox l (channel_chunk (json_lines_push n) bad c1) = inbox l c1"
    using jl.push_agrees [OF c1(2), of bad] c1(1) assms(2)
    unfolding c1(3) by (auto simp: agrees_def channel_chunk_def receiving_def inbox_def split: prod.splits)
  with w c1(4) show ?thesis by (simp add: c1_def)
qed

theorem invalid_frame_drops_chunk_witness:
  "inbox 1 (channel_chunk (json_lines_push 9) ((''true'' @ [CHR 0x0A]) @ (''x'' @ [CHR 0x0A]))
      (channel_subscribe 1 (channel_new fb_new))) = []"
proof -
  define c :: "(frame_buffer, jv) channel" where "c = channel_subscribe 1 (channel_new fb_new)"
  have c: "receiving 1 c" "ch_decoder c = fb_new" "inbox 1 c = []"
    by (simp_all add: c_def receiving_def channel_subscribe_def channel_new_def os_add_def inbox_def)
  have g: "run_bytes (line_step 9) (fb_bytes (ch_decoder c)) (''true'' @ [CHR 0x0A]) = Inr ([JBool True], [])"
    unfolding c(2) fb_new_ok by code_simp
  have "utf8_valid ''x''" "json_parse ''x'' = None" by code_simp+
  then have "parseJson ''x'' = Inl (decodeError ''Frame contains invalid JSON'')"
    by (simp add: parseJson_def utf8_decode_def utf8_bom_def)
  then have e: "run_bytes (line_step 9) [] (''x'' @ [CHR 0x0A]) =
      Inl (decodeError ''Frame contains invalid JSON'')"
    by (simp add: line_step_def line_fits_def strip_cr_def)
  from invalid_frame_drops_chunk [OF g e c(1)] c show ?thesis by (simp add: c_def)
qed

end
