(* ===== verification/Settlement.thy ===== *)
theory Settlement
  imports Prelude
begin

text \<open>
  The contract of every component that hands out promises: requests are numbered as they are
  issued, each is either waiting or settled, a settled one keeps its outcome, and no step settles a
  request twice or loses it. The locale states the contract step by step; its lemmas hold along
  whole runs of events. JSON-RPC and the gateway RPC client are interpretations of it.
\<close>

fun legal_run :: "('s \<Rightarrow> 'e \<Rightarrow> bool) \<Rightarrow> ('s \<Rightarrow> 'e \<Rightarrow> 's) \<Rightarrow> 's \<Rightarrow> 'e list \<Rightarrow> bool" where
  "legal_run ok step s [] = True"
| "legal_run ok step s (e # es) = (ok s e \<and> legal_run ok step (step s e) es)"

lemma legal_run_append:
  "legal_run ok step s (es @ fs) \<longleftrightarrow> legal_run ok step s es \<and> legal_run ok step (foldl step s es) fs"
  by (induction es arbitrary: s) auto

locale settlement =
  fixes step :: "'s \<Rightarrow> 'e \<Rightarrow> 's"
    and ok :: "'s \<Rightarrow> 'e \<Rightarrow> bool"
    and inv :: "'s \<Rightarrow> bool"
    and waiting :: "'s \<Rightarrow> nat list"
    and settled :: "'s \<Rightarrow> (nat \<times> 'o) list"
    and issued :: "'s \<Rightarrow> nat"
  assumes step_inv: "inv s \<Longrightarrow> ok s e \<Longrightarrow> inv (step s e)"
    and step_settled: "inv s \<Longrightarrow> ok s e \<Longrightarrow> prefix (settled s) (settled (step s e))"
    and step_issued: "inv s \<Longrightarrow> ok s e \<Longrightarrow> issued s \<le> issued (step s e)"
    and inv_distinct: "inv s \<Longrightarrow> distinct (map fst (settled s) @ waiting s)"
    and inv_all: "inv s \<Longrightarrow> set (map fst (settled s) @ waiting s) = {..<issued s}"
begin

lemma run_inv: "inv s \<Longrightarrow> legal_run ok step s es \<Longrightarrow> inv (foldl step s es)"
  by (induction es arbitrary: s) (auto intro: step_inv)

lemma run_settled:
  "inv s \<Longrightarrow> legal_run ok step s es \<Longrightarrow> prefix (settled s) (settled (foldl step s es))"
proof (induction es arbitrary: s)
  case (Cons e es)
  then have "prefix (settled (step s e)) (settled (foldl step (step s e) es))"
    by (auto intro: step_inv)
  with step_settled [of s e] Cons.prems show ?case by (auto intro: prefix_order.trans)
qed simp

text \<open>Every issued request is waiting or settled, never both, and settled with one outcome only.\<close>

lemma one_outcome:
  assumes "inv s" and "legal_run ok step s es" and "t < issued (foldl step s es)"
  shows "(t \<in> set (waiting (foldl step s es))) \<noteq> (\<exists>x. (t, x) \<in> set (settled (foldl step s es)))"
    and "(t, x) \<in> set (settled (foldl step s es)) \<Longrightarrow> (t, y) \<in> set (settled (foldl step s es)) \<Longrightarrow> x = y"
proof -
  define s' where "s' = foldl step s es"
  have i: "inv s'" unfolding s'_def by (rule run_inv [OF assms(1,2)])
  have "t \<in> set (map fst (settled s') @ waiting s')"
    using inv_all [OF i] assms(3) by (simp add: s'_def)
  moreover have "distinct (map fst (settled s') @ waiting s')" by (rule inv_distinct [OF i])
  ultimately show "(t \<in> set (waiting s')) \<noteq> (\<exists>x. (t, x) \<in> set (settled s'))"
    by (force simp: s'_def)
  show "(t, x) \<in> set (settled s') \<Longrightarrow> (t, y) \<in> set (settled s') \<Longrightarrow> x = y"
    using inv_distinct [OF i] by (auto dest: eq_key_imp_eq_value)
qed

text \<open>An outcome is final: later events leave it.\<close>

lemma outcome_final:
  assumes "inv s" and "legal_run ok step s (es @ fs)" and "(t, x) \<in> set (settled (foldl step s es))"
  shows "(t, y) \<in> set (settled (foldl step s (es @ fs))) \<longleftrightarrow> y = x"
proof -
  define s1 where "s1 = foldl step s es"
  have l: "legal_run ok step s es" "legal_run ok step s1 fs"
    using assms(2) by (auto simp: legal_run_append s1_def)
  have i1: "inv s1" unfolding s1_def by (rule run_inv [OF assms(1) l(1)])
  have "prefix (settled s1) (settled (foldl step s1 fs))" by (rule run_settled [OF i1 l(2)])
  then have m: "(t, x) \<in> set (settled (foldl step s1 fs))"
    using assms(3) by (auto simp: s1_def dest: set_mono_prefix)
  have "inv (foldl step s1 fs)" by (rule run_inv [OF i1 l(2)])
  from inv_distinct [OF this] m show ?thesis
    by (auto simp: s1_def dest: eq_key_imp_eq_value)
qed

text \<open>When nothing waits, everything issued has its outcome.\<close>

lemma all_settled:
  assumes "inv s" and "legal_run ok step s es" and "waiting (foldl step s es) = []"
    and "t < issued (foldl step s es)"
  shows "\<exists>x. (t, x) \<in> set (settled (foldl step s es))"
  using one_outcome(1) [OF assms(1,2,4)] assms(3) by simp

end

end
