(* ===== verification/JsonRpc.thy ===== *)
theory JsonRpc
  imports Settlement Errors
begin

text \<open>
  \<open>src/core/transport/json-rpc.ts\<close>: the JSON-RPC 2.0 client over a message channel. The state holds
  what the closure of \<open>createJsonRpcTransport\<close> holds, and the log of the \<open>resolve\<close> and \<open>reject\<close>
  calls made on the promises it handed out; requests are numbered in the order \<open>request\<close> was
  called. Events are the calls of the interface, the messages and the close of the channel, a send
  promise that rejects later, and an abort signal that fires. A listener does not call back into
  the transport.
\<close>

section \<open>State\<close>

datatype outcome = Resolved jv | Rejected unknown

record rpc_state =
  jr_pending :: "(jv, nat) omap"
  jr_call_ids :: "(nat, jv) omap"
  jr_abortable :: "nat list"
  jr_listeners :: "nat list"
  jr_closed :: bool
  jr_close_called :: bool
  jr_settled :: "(nat \<times> outcome) list"
  jr_issued :: nat
  jr_protocol_errors :: "unknown list"
  jr_notified :: "(nat \<times> string \<times> jv) list"
  jr_sent :: "jv list"

definition rpc_new :: rpc_state where
  "rpc_new = \<lparr>jr_pending = [], jr_call_ids = [], jr_abortable = [], jr_listeners = [],
     jr_closed = False, jr_close_called = False, jr_settled = [], jr_issued = 0,
     jr_protocol_errors = [], jr_notified = [], jr_sent = []\<rparr>"

definition rpcError :: "string \<Rightarrow> TransportPhase \<Rightarrow> (string + rat) option \<Rightarrow> unknown" where
  "rpcError msg phase code =
     UErr (TransportError msg
       ((plain_meta KJsonRpc phase ''json-rpc'' False 1)\<lparr>tm_code := code\<rparr>) None)"

definition isId :: "jv \<Rightarrow> bool" where
  "isId v = (case v of JStr _ \<Rightarrow> True | JNum x \<Rightarrow> is_finite x | _ \<Rightarrow> False)"

definition reportProtocolError :: "unknown \<Rightarrow> rpc_state \<Rightarrow> rpc_state" where
  "reportProtocolError e st = st\<lparr>jr_protocol_errors := jr_protocol_errors st @ [e]\<rparr>"

definition reportProtocolErrorMessage :: "string \<Rightarrow> rpc_state \<Rightarrow> rpc_state" where
  "reportProtocolErrorMessage msg st = reportProtocolError (rpcError msg PDecode None) st"

text \<open>Settling the request that \<open>pending\<close> holds under an id: delete it, detach it, call it.\<close>

definition settle_pending :: "jv \<Rightarrow> nat \<Rightarrow> outcome \<Rightarrow> rpc_state \<Rightarrow> rpc_state" where
  "settle_pending i t out st =
     st\<lparr>jr_pending := om_del i (jr_pending st),
        jr_abortable := removeAll t (jr_abortable st),
        jr_settled := jr_settled st @ [(t, out)]\<rparr>"

definition closed_error :: unknown where
  "closed_error = rpcError ''JSON-RPC transport closed before the request completed'' PClose None"

definition rpc_finish :: "rpc_state \<Rightarrow> rpc_state" where
  "rpc_finish st =
     (if jr_closed st then st
      else st\<lparr>jr_closed := True, jr_listeners := [],
              jr_abortable := filter (\<lambda>t. t \<notin> snd ` set (jr_pending st)) (jr_abortable st),
              jr_settled := jr_settled st @ map (\<lambda>p. (snd p, Rejected closed_error)) (jr_pending st),
              jr_pending := []\<rparr>)"

section \<open>Messages\<close>

definition valid_error :: "jv \<Rightarrow> bool" where
  "valid_error m =
     (has_own m ''error'' \<and> is_plain_object (get_prop m ''error'') \<and>
      finite_of (get_prop (get_prop m ''error'') ''code'') \<noteq> None \<and>
      text_of (get_prop (get_prop m ''error'') ''message'') \<noteq> None)"

definition rpc_response :: "jv \<Rightarrow> nat \<Rightarrow> jv \<Rightarrow> rpc_state \<Rightarrow> rpc_state" where
  "rpc_response i t m st =
     (if has_own m ''result'' = has_own m ''error'' \<or> (has_own m ''error'' \<and> \<not> valid_error m)
      then
        let e = rpcError ''Received a malformed JSON-RPC response'' PDecode None in
        reportProtocolError e (settle_pending i t (Rejected e) st)
      else if has_own m ''result''
      then settle_pending i t (Resolved (get_prop m ''result'')) st
      else settle_pending i t
        (Rejected (rpcError ''JSON-RPC request failed'' PRequest
          (map_option Inr (finite_of (get_prop (get_prop m ''error'') ''code''))))) st)"

definition rpc_message :: "jv \<Rightarrow> rpc_state \<Rightarrow> rpc_state" where
  "rpc_message m st =
     (if jr_closed st then st
      else if \<not> is_plain_object m \<or> get_prop m ''jsonrpc'' \<noteq> JStr ''2.0''
      then reportProtocolErrorMessage ''Received an invalid JSON-RPC message'' st
      else if text_of (get_prop m ''method'') \<noteq> None \<and> get_prop m ''id'' = JUndef
      then st\<lparr>jr_notified := jr_notified st
                @ map (\<lambda>l. (l, the (text_of (get_prop m ''method'')), get_prop m ''params'')) (jr_listeners st)\<rparr>
      else if \<not> isId (get_prop m ''id'')
      then reportProtocolErrorMessage ''Received an invalid JSON-RPC response'' st
      else
        (case om_get (jr_pending st) (get_prop m ''id'') of
           None \<Rightarrow> reportProtocolErrorMessage ''Received a JSON-RPC response with an unknown id'' st
         | Some t \<Rightarrow> rpc_response (get_prop m ''id'') t m st))"

section \<open>Calls\<close>

definition rpc_envelope :: "jv option \<Rightarrow> string \<Rightarrow> jv \<Rightarrow> jv" where
  "rpc_envelope i meth params =
     JObj ([(''jsonrpc'', JStr ''2.0'')] @ (case i of Some x \<Rightarrow> [(''id'', x)] | None \<Rightarrow> [])
       @ [(''method'', JStr meth)] @ (if params = JUndef then [] else [(''params'', params)]))"

text \<open>An async function that throws: its own promise is rejected.\<close>

definition reject_call :: "unknown \<Rightarrow> rpc_state \<Rightarrow> rpc_state" where
  "reject_call e st =
     st\<lparr>jr_settled := jr_settled st @ [(jr_issued st, Rejected e)], jr_issued := jr_issued st + 1\<rparr>"

text \<open>\<open>failSend\<close> of the call \<open>t\<close>: whatever request is pending under its id is dropped.\<close>

definition rpc_send_failed :: "nat \<Rightarrow> rpc_state \<Rightarrow> rpc_state" where
  "rpc_send_failed t st =
     (case om_get (jr_call_ids st) t of
        None \<Rightarrow> st
      | Some i \<Rightarrow>
          (case om_get (jr_pending st) i of
             None \<Rightarrow> st
           | Some owner \<Rightarrow>
               st\<lparr>jr_pending := om_del i (jr_pending st),
                  jr_abortable := removeAll owner (jr_abortable st),
                  jr_settled := jr_settled st
                    @ [(t, Rejected (rpcError ''JSON-RPC request could not be sent'' PRequest None))]\<rparr>))"

text \<open>\<open>signal\<close>: none, or whether it had already aborted. \<open>i\<close> is what the id generator returned.\<close>

definition rpc_request ::
  "string \<Rightarrow> jv \<Rightarrow> bool option \<Rightarrow> jv \<Rightarrow> bool \<Rightarrow> rpc_state \<Rightarrow> rpc_state" where
  "rpc_request meth params signal i send_throws st =
     (if jr_closed st then reject_call (rpcError ''JSON-RPC transport is closed'' PClose None) st
      else if signal = Some True then reject_call (UErr (abortError ''The operation was aborted'')) st
      else if \<not> isId i
      then reject_call (rpcError ''JSON-RPC id generator returned an invalid id'' PRequest None) st
      else if om_has (jr_pending st) i
      then reject_call (rpcError ''JSON-RPC id generator returned a duplicate pending id'' PRequest None) st
      else
        let t = jr_issued st;
            st1 = st\<lparr>jr_issued := t + 1, jr_call_ids := om_set t i (jr_call_ids st),
                     jr_pending := om_set i t (jr_pending st),
                     jr_abortable := (if signal = None then jr_abortable st else jr_abortable st @ [t])\<rparr>
        in if send_throws then rpc_send_failed t st1
           else st1\<lparr>jr_sent := jr_sent st1 @ [rpc_envelope (Some i) meth params]\<rparr>)"

definition rpc_abort :: "nat \<Rightarrow> rpc_state \<Rightarrow> rpc_state" where
  "rpc_abort t st =
     (if t \<notin> set (jr_abortable st) then st
      else
        (case om_get (jr_call_ids st) t of
           None \<Rightarrow> st
         | Some i \<Rightarrow>
             (case om_get (jr_pending st) i of
                None \<Rightarrow> st\<lparr>jr_abortable := removeAll t (jr_abortable st)\<rparr>
              | Some owner \<Rightarrow>
                  st\<lparr>jr_pending := om_del i (jr_pending st),
                     jr_abortable := removeAll t (removeAll owner (jr_abortable st)),
                     jr_settled := jr_settled st
                       @ [(t, Rejected (UErr (abortError ''The operation was aborted'')))]\<rparr>)))"

text \<open>\<open>notify\<close> hands out no tracked promise; its result is returned.\<close>

definition rpc_notify :: "string \<Rightarrow> jv \<Rightarrow> bool \<Rightarrow> bool \<Rightarrow> rpc_state \<Rightarrow> rpc_state \<times> unknown option" where
  "rpc_notify meth params aborted send_fails st =
     (if jr_closed st then (st, Some (rpcError ''JSON-RPC transport is closed'' PClose None))
      else if aborted then (st, Some (UErr (abortError ''The operation was aborted'')))
      else if send_fails
      then (st, Some (rpcError ''JSON-RPC notification could not be sent'' PRequest None))
      else (st\<lparr>jr_sent := jr_sent st @ [rpc_envelope None meth params]\<rparr>, None))"

definition rpc_close :: "rpc_state \<Rightarrow> rpc_state" where
  "rpc_close st = (if jr_close_called st then st else (rpc_finish st)\<lparr>jr_close_called := True\<rparr>)"

datatype rpc_event =
    JRequest string jv "bool option" jv bool
  | JNotify string jv bool bool
  | JMessage jv
  | JSendFailed nat
  | JAbort nat
  | JOnNotification nat
  | JOffNotification nat
  | JChannelClosed
  | JClose

fun rpc_step :: "rpc_state \<Rightarrow> rpc_event \<Rightarrow> rpc_state" where
  "rpc_step st (JRequest meth params signal i send_throws) = rpc_request meth params signal i send_throws st"
| "rpc_step st (JNotify meth params aborted send_fails) = fst (rpc_notify meth params aborted send_fails st)"
| "rpc_step st (JMessage m) = rpc_message m st"
| "rpc_step st (JSendFailed t) = rpc_send_failed t st"
| "rpc_step st (JAbort t) = rpc_abort t st"
| "rpc_step st (JOnNotification l) = st\<lparr>jr_listeners := os_add l (jr_listeners st)\<rparr>"
| "rpc_step st (JOffNotification l) = st\<lparr>jr_listeners := removeAll l (jr_listeners st)\<rparr>"
| "rpc_step st JChannelClosed = rpc_finish st"
| "rpc_step st JClose = rpc_close st"

text \<open>What the default id generator guarantees: an id is never handed out twice.\<close>

fun fresh_ids :: "rpc_state \<Rightarrow> rpc_event \<Rightarrow> bool" where
  "fresh_ids st (JRequest meth params signal i send_throws) = (i \<notin> snd ` set (jr_call_ids st))"
| "fresh_ids st _ = True"

section \<open>Invariant\<close>

definition rpc_inv :: "rpc_state \<Rightarrow> bool" where
  "rpc_inv st =
     (om_ok (jr_pending st) \<and> om_ok (jr_call_ids st) \<and> distinct (map snd (jr_call_ids st)) \<and>
      (\<forall>(i, t) \<in> set (jr_pending st). om_get (jr_call_ids st) t = Some i) \<and>
      distinct (map fst (jr_settled st)) \<and>
      fst ` set (jr_settled st) \<inter> snd ` set (jr_pending st) = {} \<and>
      fst ` set (jr_settled st) \<union> snd ` set (jr_pending st) = {..<jr_issued st} \<and>
      fst ` set (jr_call_ids st) \<subseteq> {..<jr_issued st} \<and>
      (jr_closed st \<longrightarrow> jr_pending st = []))"

lemma rpc_inv_new [simp]: "rpc_inv rpc_new"
  by (simp add: rpc_inv_def rpc_new_def)

lemma call_owner:
  assumes "rpc_inv st" and "om_get (jr_call_ids st) t = Some i" and "om_get (jr_pending st) i = Some u"
  shows "u = t"
proof -
  have "om_get (jr_call_ids st) u = Some i"
    using assms(1) map_of_SomeD [OF assms(3)] by (auto simp: rpc_inv_def)
  then have "(u, i) \<in> set (jr_call_ids st)" "(t, i) \<in> set (jr_call_ids st)"
    using assms(2) by (auto dest: map_of_SomeD)
  moreover have "inj_on snd (set (jr_call_ids st))"
    using assms(1) by (simp add: rpc_inv_def distinct_map)
  ultimately show ?thesis using inj_onD [of snd "set (jr_call_ids st)" "(u, i)" "(t, i)"] by simp
qed

lemma pending_del:
  assumes "rpc_inv st" and "om_get (jr_pending st) i = Some t"
  shows "snd ` set (om_del i (jr_pending st)) = snd ` set (jr_pending st) - {t}"
proof -
  have "set (om_del i (jr_pending st)) = {x \<in> set (jr_pending st). fst x \<noteq> i}"
    by (auto simp: AList.delete_eq)
  moreover have "\<And>x. x \<in> set (jr_pending st) \<Longrightarrow> fst x = i \<longleftrightarrow> snd x = t"
  proof -
    fix x assume x: "x \<in> set (jr_pending st)"
    have p: "om_get (jr_pending st) (fst x) = Some (snd x)"
      using assms(1) x by (auto simp: rpc_inv_def om_ok_def)
    have c: "om_get (jr_call_ids st) (snd x) = Some (fst x)" "om_get (jr_call_ids st) t = Some i"
      using assms(1) x map_of_SomeD [OF assms(2)] by (auto simp: rpc_inv_def)
    show "fst x = i \<longleftrightarrow> snd x = t" using p c assms(2) by auto
  qed
  ultimately show ?thesis by force
qed

lemma inv_settle:
  assumes "rpc_inv st" and "om_get (jr_pending st) i = Some t"
  shows "rpc_inv (st\<lparr>jr_pending := om_del i (jr_pending st), jr_abortable := A,
           jr_settled := jr_settled st @ [(t, out)]\<rparr>)"
proof -
  have t: "t \<in> snd ` set (jr_pending st)"
    using map_of_SomeD [OF assms(2)] by force
  have s: "set (om_del i (jr_pending st)) \<subseteq> set (jr_pending st)"
    by (auto simp: AList.delete_eq)
  show ?thesis
    using assms(1) t s unfolding rpc_inv_def
    by (auto simp: pending_del [OF assms])
qed

lemma inv_settle_pending: "rpc_inv st \<Longrightarrow> om_get (jr_pending st) i = Some t \<Longrightarrow> rpc_inv (settle_pending i t out st)"
  using inv_settle [of st i t] by (simp add: settle_pending_def)

lemma inv_frame:
  "rpc_inv (st\<lparr>jr_listeners := L, jr_protocol_errors := E, jr_notified := N, jr_sent := S, jr_close_called := C\<rparr>)
   \<longleftrightarrow> rpc_inv st"
  by (simp add: rpc_inv_def)

lemma inv_frames [simp]:
  "rpc_inv (st\<lparr>jr_listeners := L\<rparr>) \<longleftrightarrow> rpc_inv st"
  "rpc_inv (st\<lparr>jr_protocol_errors := E\<rparr>) \<longleftrightarrow> rpc_inv st"
  "rpc_inv (st\<lparr>jr_notified := N\<rparr>) \<longleftrightarrow> rpc_inv st"
  "rpc_inv (st\<lparr>jr_sent := S\<rparr>) \<longleftrightarrow> rpc_inv st"
  "rpc_inv (st\<lparr>jr_close_called := C\<rparr>) \<longleftrightarrow> rpc_inv st"
  "rpc_inv (st\<lparr>jr_abortable := A\<rparr>) \<longleftrightarrow> rpc_inv st"
  by (simp_all add: rpc_inv_def)

lemma inv_reject_call: "rpc_inv st \<Longrightarrow> rpc_inv (reject_call e st)"
  unfolding rpc_inv_def reject_call_def by (auto simp: lessThan_Suc)

lemma inv_issue:
  assumes "rpc_inv st" and "i \<notin> snd ` set (jr_call_ids st)" and "\<not> om_has (jr_pending st) i"
    and "\<not> jr_closed st"
  shows "rpc_inv (st\<lparr>jr_issued := jr_issued st + 1, jr_call_ids := om_set (jr_issued st) i (jr_call_ids st),
           jr_pending := om_set i (jr_issued st) (jr_pending st), jr_abortable := A\<rparr>)"
proof -
  have n: "\<not> om_has (jr_call_ids st) (jr_issued st)"
    using assms(1) by (auto simp: rpc_inv_def om_has_iff)
  have "snd ` set (jr_pending st) \<subseteq> {..<jr_issued st}"
    using assms(1) unfolding rpc_inv_def by blast
  then have o: "\<forall>(j, t) \<in> set (jr_pending st). t \<noteq> jr_issued st" by force
  have c: "om_set (jr_issued st) i (jr_call_ids st) = jr_call_ids st @ [(jr_issued st, i)]"
    by (rule om_set_fresh [OF n])
  have p: "om_set i (jr_issued st) (jr_pending st) = jr_pending st @ [(i, jr_issued st)]"
    by (rule om_set_fresh [OF assms(3)])
  have l: "\<forall>(j, t) \<in> set (jr_pending st @ [(i, jr_issued st)]).
      om_get (om_set (jr_issued st) i (jr_call_ids st)) t = Some j"
    using assms(1) o by (auto simp: rpc_inv_def)
  have k: "om_ok (om_set i (jr_issued st) (jr_pending st))"
    "om_ok (om_set (jr_issued st) i (jr_call_ids st))"
    using assms(1) by (simp_all add: rpc_inv_def)
  have d: "distinct (map snd (jr_call_ids st @ [(jr_issued st, i)]))"
    using assms(1,2) by (auto simp: rpc_inv_def)
  show ?thesis
    using assms(1,4) l k d unfolding rpc_inv_def
    by (simp add: c p lessThan_Suc) auto
qed

lemma inv_send_failed: "rpc_inv st \<Longrightarrow> rpc_inv (rpc_send_failed t st)"
  using call_owner [of st t] inv_settle [of st _ t]
  by (auto simp: rpc_send_failed_def split: option.splits)

lemma inv_abort: "rpc_inv st \<Longrightarrow> rpc_inv (rpc_abort t st)"
  using call_owner [of st t] inv_settle [of st _ t]
  by (auto simp: rpc_abort_def split: option.splits)

lemma pending_tokens:
  assumes "rpc_inv st"
  shows "distinct (map snd (jr_pending st))"
proof -
  have "om_get (jr_call_ids st) (snd x) = Some (fst x)" if "x \<in> set (jr_pending st)" for x
    using assms that by (auto simp: rpc_inv_def)
  then have "inj_on snd (set (jr_pending st))"
    by (intro inj_onI) (metis option.inject prod_eqI)
  moreover have "distinct (jr_pending st)"
    using assms by (simp add: rpc_inv_def om_ok_def distinct_map)
  ultimately show ?thesis by (simp add: distinct_map)
qed

lemma inv_finish:
  assumes "rpc_inv st"
  shows "rpc_inv (rpc_finish st)"
proof (cases "jr_closed st")
  case False
  have "distinct (map snd (jr_pending st))" by (rule pending_tokens [OF assms])
  moreover have "fst ` set (jr_settled st @ map (\<lambda>p. (snd p, Rejected closed_error)) (jr_pending st)) =
      fst ` set (jr_settled st) \<union> snd ` set (jr_pending st)"
    by (auto simp: image_Un image_image)
  moreover have "map fst (map (\<lambda>p. (snd p, Rejected closed_error)) (jr_pending st)) = map snd (jr_pending st)"
    by simp
  ultimately show ?thesis
    using assms False unfolding rpc_inv_def rpc_finish_def by (simp add: image_image comp_def)
qed (use assms in \<open>simp add: rpc_finish_def\<close>)

lemma inv_reportProtocolError [simp]: "rpc_inv (reportProtocolError e st) = rpc_inv st"
  by (simp add: reportProtocolError_def)

lemma inv_response:
  "rpc_inv st \<Longrightarrow> om_get (jr_pending st) i = Some t \<Longrightarrow> rpc_inv (rpc_response i t m st)"
  by (simp add: rpc_response_def Let_def inv_settle_pending)

lemma inv_message: "rpc_inv st \<Longrightarrow> rpc_inv (rpc_message m st)"
  by (simp add: rpc_message_def reportProtocolErrorMessage_def inv_response split: option.split)

lemma inv_request:
  assumes "rpc_inv st" and "i \<notin> snd ` set (jr_call_ids st)"
  shows "rpc_inv (rpc_request meth params signal i send_throws st)"
proof (cases "jr_closed st \<or> signal = Some True \<or> \<not> isId i \<or> om_has (jr_pending st) i")
  case True
  with assms(1) show ?thesis by (auto simp: rpc_request_def intro: inv_reject_call)
next
  case False
  with inv_issue [OF assms, of "if signal = None then jr_abortable st else jr_abortable st @ [jr_issued st]"]
  show ?thesis by (auto simp: rpc_request_def Let_def intro: inv_send_failed)
qed

lemma inv_rpc_step: "rpc_inv st \<Longrightarrow> fresh_ids st e \<Longrightarrow> rpc_inv (rpc_step st e)"
  by (cases e)
    (simp_all add: inv_request inv_message inv_send_failed inv_abort inv_finish rpc_notify_def rpc_close_def)

lemma rpc_step_grows: "prefix (jr_settled st) (jr_settled (rpc_step st e)) \<and> jr_issued st \<le> jr_issued (rpc_step st e)"
proof -
  have sf: "prefix (jr_settled s) (jr_settled (rpc_send_failed t s)) \<and> jr_issued s \<le> jr_issued (rpc_send_failed t s)"
    for s t by (simp add: rpc_send_failed_def split: option.splits)
  have fin: "prefix (jr_settled s) (jr_settled (rpc_finish s)) \<and> jr_issued s \<le> jr_issued (rpc_finish s)" for s
    by (simp add: rpc_finish_def)
  have msg: "prefix (jr_settled s) (jr_settled (rpc_message m s)) \<and> jr_issued s \<le> jr_issued (rpc_message m s)"
    for s m
    by (simp add: rpc_message_def rpc_response_def reportProtocolErrorMessage_def reportProtocolError_def
        settle_pending_def Let_def split: option.split)
  have req: "prefix (jr_settled s) (jr_settled (rpc_request a b c d x s)) \<and> jr_issued s \<le> jr_issued (rpc_request a b c d x s)"
    for s a b c d x
  proof -
    define s1 where "s1 = s\<lparr>jr_issued := jr_issued s + 1, jr_call_ids := om_set (jr_issued s) d (jr_call_ids s),
        jr_pending := om_set d (jr_issued s) (jr_pending s),
        jr_abortable := (if c = None then jr_abortable s else jr_abortable s @ [jr_issued s])\<rparr>"
    have "jr_settled s1 = jr_settled s" "jr_issued s \<le> jr_issued s1" by (simp_all add: s1_def)
    with sf [of s1 "jr_issued s"] have "prefix (jr_settled s) (jr_settled (rpc_send_failed (jr_issued s) s1))
        \<and> jr_issued s \<le> jr_issued (rpc_send_failed (jr_issued s) s1)" by auto
    then show ?thesis by (simp add: rpc_request_def reject_call_def Let_def s1_def)
  qed
  show ?thesis
    by (cases e) (use sf fin msg req in \<open>simp_all add: rpc_abort_def rpc_notify_def rpc_close_def split: option.splits\<close>)
qed

interpretation jr: settlement rpc_step fresh_ids rpc_inv "\<lambda>s. map snd (jr_pending s)" jr_settled jr_issued
proof unfold_locales
  fix s e
  assume "rpc_inv s" "fresh_ids s e"
  then show "rpc_inv (rpc_step s e)" by (rule inv_rpc_step)
  show "prefix (jr_settled s) (jr_settled (rpc_step s e))" using rpc_step_grows by blast
  show "jr_issued s \<le> jr_issued (rpc_step s e)" using rpc_step_grows by blast
next
  fix s
  assume i: "rpc_inv s"
  show "distinct (map fst (jr_settled s) @ map snd (jr_pending s))"
    using i pending_tokens [OF i] by (simp add: rpc_inv_def Int_commute)
  show "set (map fst (jr_settled s) @ map snd (jr_pending s)) = {..<jr_issued s}"
    using i by (simp add: rpc_inv_def)
qed

lemmas rpc_run = jr.one_outcome [OF rpc_inv_new] jr.outcome_final [OF rpc_inv_new]

lemma rpc_run_inv: "legal_run fresh_ids rpc_step rpc_new es \<Longrightarrow> rpc_inv (foldl rpc_step rpc_new es)"
  by (rule jr.run_inv [OF rpc_inv_new])

section \<open>Properties\<close>

text \<open>JSON-RPC settlement. With an id generator that does not repeat itself, along any sequence of
  calls, messages, send failures, aborts and closes: every request issued is either still pending
  or settled, never both and never with two outcomes, and a settled outcome is final. Once the
  transport is closed nothing is pending, so every request has its outcome.\<close>

theorem json_rpc_settles_once:
  assumes "legal_run fresh_ids rpc_step rpc_new (es @ fs)"
    and "t < jr_issued (foldl rpc_step rpc_new es)"
  defines "st \<equiv> foldl rpc_step rpc_new es"
  shows "(t \<in> snd ` set (jr_pending st)) \<noteq> (\<exists>x. (t, x) \<in> set (jr_settled st))
    \<and> (\<forall>x y. (t, x) \<in> set (jr_settled st) \<longrightarrow>
         ((t, y) \<in> set (jr_settled (foldl rpc_step rpc_new (es @ fs))) \<longleftrightarrow> y = x))
    \<and> (jr_closed st \<longrightarrow> (\<exists>x. (t, x) \<in> set (jr_settled st)))"
proof -
  have l: "legal_run fresh_ids rpc_step rpc_new es" using assms(1) by (simp add: legal_run_append)
  have one: "(t \<in> snd ` set (jr_pending st)) \<noteq> (\<exists>x. (t, x) \<in> set (jr_settled st))"
    using rpc_run(1) [OF l assms(2)] by (simp add: st_def)
  moreover have "jr_closed st \<longrightarrow> jr_pending st = []"
    using rpc_run_inv [OF l] by (simp add: rpc_inv_def st_def)
  ultimately show ?thesis
    using rpc_run(3) [OF assms(1)] by (auto simp: st_def)
qed

theorem json_rpc_settles_once_witness:
  "\<exists>x. (0, x) \<in> set (jr_settled (foldl rpc_step rpc_new
      [JRequest ''ping'' JUndef None (JNum (num 1)) False, JClose]))"
proof -
  define es where "es = [JRequest ''ping'' JUndef None (JNum (num 1)) False, JClose]"
  have l: "legal_run fresh_ids rpc_step rpc_new (es @ [])"
    and i: "0 < jr_issued (foldl rpc_step rpc_new es)"
    and c: "jr_closed (foldl rpc_step rpc_new es)"
    by (simp_all add: es_def rpc_new_def rpc_request_def isId_def num_def om_has_def Let_def
        rpc_close_def rpc_finish_def)
  from json_rpc_settles_once [OF l i] c show ?thesis by (simp add: es_def)
qed

text \<open>A response settles exactly the request pending under its id: with the result if it has a
  result and no error, with a request error carrying the remote code if it has a valid error, and
  otherwise with a protocol error that is also reported; every other request is left as it was.\<close>

theorem json_rpc_response:
  assumes "\<not> jr_closed st" and "is_plain_object m" and "get_prop m ''jsonrpc'' = JStr ''2.0''"
    and "isId (get_prop m ''id'')" and "om_get (jr_pending st) (get_prop m ''id'') = Some t"
  defines "st' \<equiv> rpc_message m st"
  shows "jr_pending st' = om_del (get_prop m ''id'') (jr_pending st)
    \<and> (\<exists>out. jr_settled st' = jr_settled st @ [(t, out)]
        \<and> (has_own m ''result'' \<and> \<not> has_own m ''error'' \<longrightarrow>
             out = Resolved (get_prop m ''result'') \<and> jr_protocol_errors st' = jr_protocol_errors st)
        \<and> (valid_error m \<and> \<not> has_own m ''result'' \<longrightarrow>
             out = Rejected (rpcError ''JSON-RPC request failed'' PRequest
               (map_option Inr (finite_of (get_prop (get_prop m ''error'') ''code''))))
             \<and> jr_protocol_errors st' = jr_protocol_errors st)
        \<and> (has_own m ''result'' = has_own m ''error'' \<or> has_own m ''error'' \<and> \<not> valid_error m \<longrightarrow>
             (\<exists>e. out = Rejected e \<and> jr_protocol_errors st' = jr_protocol_errors st @ [e])))"
proof -
  have "get_prop m ''id'' \<noteq> JUndef" using assms(4) by (auto simp: isId_def)
  then have s: "st' = rpc_response (get_prop m ''id'') t m st"
    using assms(1-5) by (simp add: st'_def rpc_message_def)
  have v: "valid_error m \<Longrightarrow> has_own m ''error''" by (simp add: valid_error_def)
  show ?thesis
    unfolding s rpc_response_def using v
    by (auto simp: settle_pending_def reportProtocolError_def Let_def)
qed

theorem json_rpc_response_witness:
  "jr_settled (rpc_message (JObj [(''jsonrpc'', JStr ''2.0''), (''id'', JStr ''a''), (''result'', JNull)])
      (rpc_request ''m'' JUndef None (JStr ''a'') False rpc_new)) = [(0, Resolved JNull)]"
proof -
  define m where "m = JObj [(''jsonrpc'', JStr ''2.0''), (''id'', JStr ''a''), (''result'', JNull)]"
  define st where "st = rpc_request ''m'' JUndef None (JStr ''a'') False rpc_new"
  have "\<not> jr_closed st" "is_plain_object m" "get_prop m ''jsonrpc'' = JStr ''2.0''"
    "isId (get_prop m ''id'')" "om_get (jr_pending st) (get_prop m ''id'') = Some 0"
    by (simp_all add: m_def st_def rpc_request_def rpc_new_def isId_def om_has_def Let_def get_prop_def
        is_plain_object_def)
  from json_rpc_response [OF this] have "\<exists>out. jr_settled (rpc_message m st) = jr_settled st @ [(0, out)]
      \<and> out = Resolved JNull"
    by (auto simp: m_def has_own_def om_has_def get_prop_def)
  moreover have "jr_settled st = []"
    by (simp add: st_def rpc_request_def rpc_new_def isId_def om_has_def Let_def)
  ultimately show ?thesis by (simp add: m_def st_def)
qed

text \<open>A reused id can lose a request. If the id generator hands out an id again after its first
  request was answered, a late failure of the first send removes the second request from the
  pending map without settling it: afterwards it is neither pending nor settled.\<close>

theorem json_rpc_reused_id_lost:
  "let st = foldl rpc_step rpc_new
       [JRequest ''m'' JUndef None (JStr i) False,
        JMessage (JObj [(''jsonrpc'', JStr ''2.0''), (''id'', JStr i), (''result'', v)]),
        JRequest ''m'' JUndef None (JStr i) False,
        JSendFailed 0]
   in jr_issued st = 2 \<and> jr_pending st = [] \<and> 1 \<notin> fst ` set (jr_settled st)"
  by (simp add: rpc_new_def rpc_request_def rpc_message_def rpc_response_def rpc_send_failed_def
      settle_pending_def isId_def om_has_def get_prop_def has_own_def text_of_def is_plain_object_def Let_def)

end
