(* ===== verification/SseStream.thy ===== *)
theory SseStream
  imports Framing
begin

text \<open>
  Server-sent events: \<open>src/core/sse/stream.ts\<close> and \<open>abort-signals.ts\<close>. Text is its UTF-8 bytes, so
  the buffer length of the model is the byte count the source keeps beside its buffer. The
  streaming \<open>TextDecoder\<close> is modelled as the WHATWG byte machine. The handler's effects on the
  stream are arguments: after how many messages the signal is aborted, and what the handler throws.
\<close>

section \<open>Number from text\<close>

text \<open>\<open>Number(string)\<close>.\<close>

definition radix_digit :: "nat \<Rightarrow> char \<Rightarrow> nat option" where
  "radix_digit r c =
     (case hex_val (to_lower_char c) of Some d \<Rightarrow> if d < r then Some d else None | None \<Rightarrow> None)"

text \<open>Values that round past the largest double are infinite.\<close>

definition js_finite :: "rat \<Rightarrow> jnum" where
  "js_finite q =
     (if 2 ^ 1024 - 2 ^ 970 \<le> q then PosInf else if q \<le> - (2 ^ 1024 - 2 ^ 970) then NegInf else Fin q)"

definition radix_number :: "nat \<Rightarrow> string \<Rightarrow> jnum" where
  "radix_number r ds =
     (if ds = [] \<or> (\<exists>c \<in> set ds. radix_digit r c = None) then NaN
      else js_finite (of_nat (foldl (\<lambda>n c. n * r + (case radix_digit r c of Some d \<Rightarrow> d | None \<Rightarrow> 0)) 0 ds)))"

definition decimal_number :: "string \<Rightarrow> jnum" where
  "decimal_number s =
     (let ip = take_digits s; r1 = drop (length ip) s;
          fp = (case r1 of c # t \<Rightarrow> if c = CHR ''.'' then take_digits t else [] | [] \<Rightarrow> []);
          r2 = (case r1 of c # t \<Rightarrow> if c = CHR ''.'' then drop (length fp) t else r1 | [] \<Rightarrow> [])
      in if ip = [] \<and> fp = [] then NaN
         else (case parse_exp r2 of
                 Some (e, []) \<Rightarrow>
                   Fin ((of_nat (digits_val ip) + of_nat (digits_val fp) * pow10 (- int (length fp))) * pow10 e)
               | _ \<Rightarrow> NaN))"

definition js_number :: "string \<Rightarrow> jnum" where
  "js_number s =
     (let t = trim s in
      if t = [] then Fin 0
      else if to_lower (take 2 t) = ''0x'' then radix_number 16 (drop 2 t)
      else if to_lower (take 2 t) = ''0o'' then radix_number 8 (drop 2 t)
      else if to_lower (take 2 t) = ''0b'' then radix_number 2 (drop 2 t)
      else
        let neg = (hd t = CHR ''-''); u = (if hd t = CHR ''-'' \<or> hd t = CHR ''+'' then tl t else t) in
        if u = ''Infinity'' then (if neg then NegInf else PosInf)
        else (case decimal_number u of Fin q \<Rightarrow> js_finite (if neg then - q else q) | x \<Rightarrow> x))"

section \<open>Blocks\<close>

record sse_message =
  sm_data :: string
  sm_event :: "string option"
  sm_id :: "string option"
  sm_retry :: "jnum option"

definition isSseContentType :: "string option \<Rightarrow> bool" where
  "isSseContentType ct =
     str_includes (to_lower (case ct of Some s \<Rightarrow> s | None \<Rightarrow> [])) ''text/event-stream''"

text \<open>\<open>split(/\r?\n/u)\<close>.\<close>

definition split_lines :: "string \<Rightarrow> string list" where
  "split_lines s = (let ls = split_char (CHR 0x0A) s in map strip_cr (butlast ls) @ [last ls])"

record sse_fields =
  sf_data :: "string list"
  sf_event :: "string option"
  sf_id :: "string option"
  sf_retry :: "jnum option"

definition sse_line :: "string \<Rightarrow> sse_fields \<Rightarrow> sse_fields" where
  "sse_line line acc =
     (if line = [] \<or> hd line = CHR '':'' then acc
      else
        let field = takeWhile (\<lambda>c. c \<noteq> CHR '':'') line;
            raw = tl (dropWhile (\<lambda>c. c \<noteq> CHR '':'') line);
            val = (if raw \<noteq> [] \<and> hd raw = CHR '' '' then tl raw else raw)
        in if field = ''data'' then acc\<lparr>sf_data := sf_data acc @ [val]\<rparr>
           else if field = ''event'' then acc\<lparr>sf_event := Some val\<rparr>
           else if field = ''id'' then acc\<lparr>sf_id := Some val\<rparr>
           else if field = ''retry''
           then (if is_finite (js_number val) then acc\<lparr>sf_retry := Some (js_number val)\<rparr> else acc)
           else acc)"

definition parseSseBlock :: "string \<Rightarrow> sse_message option" where
  "parseSseBlock block =
     (let f = fold sse_line (split_lines block)
                \<lparr>sf_data = [], sf_event = None, sf_id = None, sf_retry = None\<rparr> in
      if sf_data f = [] then None
      else Some \<lparr>sm_data = join_with [CHR 0x0A] (sf_data f), sm_event = sf_event f,
                 sm_id = sf_id f, sm_retry = sf_retry f\<rparr>)"

definition lf_lf :: string where
  "lf_lf = [CHR 0x0A, CHR 0x0A]"

definition crlf_crlf :: string where
  "crlf_crlf = crlf @ crlf"

definition takeNextSseBlock :: "string \<Rightarrow> (string \<times> string) option" where
  "takeNextSseBlock buffer =
     (case (index_of buffer lf_lf, index_of buffer crlf_crlf) of
        (None, None) \<Rightarrow> None
      | (None, Some j) \<Rightarrow> Some (take j buffer, drop (j + 4) buffer)
      | (Some i, None) \<Rightarrow> Some (take i buffer, drop (i + 2) buffer)
      | (Some i, Some j) \<Rightarrow>
          if j < i then Some (take j buffer, drop (j + 4) buffer)
          else Some (take i buffer, drop (i + 2) buffer))"

lemma takeNext_length: "takeNextSseBlock b = Some (blk, rest) \<Longrightarrow> length rest < length b"
  by (auto simp: takeNextSseBlock_def lf_lf_def crlf_crlf_def crlf_def
      split: option.splits if_splits dest!: index_of_Some)

definition opt_list :: "'a option \<Rightarrow> 'a list" where
  "opt_list x = (case x of Some y \<Rightarrow> [y] | None \<Rightarrow> [])"

function drainSseMessages :: "string \<Rightarrow> sse_message list \<times> string" where
  "drainSseMessages buffer =
     (case takeNextSseBlock buffer of
        None \<Rightarrow> ([], buffer)
      | Some (block, rest) \<Rightarrow>
          (case drainSseMessages rest of (ms, r) \<Rightarrow> (opt_list (parseSseBlock block) @ ms, r)))"
  by pat_completeness auto
termination
  by (relation "measure length") (auto dest: takeNext_length)

declare drainSseMessages.simps [simp del]

section \<open>Draining is incremental\<close>

lemma index_of_extend: "index_of b p = Some i \<Longrightarrow> index_of (b @ c) p = Some i"
proof -
  assume h: "index_of b p = Some i"
  have pre: "prefix p (drop i b)" "i + length p \<le> length b" using index_of_Some [OF h] by auto
  show "index_of (b @ c) p = Some i"
  proof (rule index_of_eqI)
    show "prefix p (drop i (b @ c))" "i \<le> length (b @ c)" using pre by auto
    fix j assume j: "j < i"
    have e: "drop j (b @ c) = drop j b @ c" using j pre by simp
    have l: "length p \<le> length (drop j b)" using j pre by simp
    show "\<not> prefix p (drop j (b @ c))"
      unfolding e using index_of_least [OF h j] l by (auto simp: prefix_def append_eq_append_conv2)
  qed
qed

lemma index_of_late:
  assumes "index_of b p = None" and "index_of (b @ c) p = Some j"
  shows "length b < j + length p"
proof (rule ccontr)
  assume "\<not> length b < j + length p"
  then have le: "j + length p \<le> length b" by simp
  have "prefix p (drop j (b @ c))" using index_of_Some [OF assms(2)] by blast
  moreover have "drop j (b @ c) = drop j b @ c" using le by simp
  ultimately have "prefix p (drop j b @ c)" by simp
  then have "prefix p (drop j b)"
    by (rule prefix_length_prefix) (use le in \<open>simp_all\<close>)
  with assms(1) le show False by (auto simp: index_of_None)
qed

lemma prefix_nth: "prefix p s \<Longrightarrow> k < length p \<Longrightarrow> s ! k = p ! k"
  by (auto simp: prefix_def nth_append)

lemma index_of_nth: "index_of b p = Some i \<Longrightarrow> k < length p \<Longrightarrow> b ! (i + k) = p ! k"
  using index_of_Some [of b p i] prefix_nth [of p "drop i b" k] by simp

text \<open>A boundary found in a prefix is the boundary of the whole: the two kinds cannot overlap it.\<close>

lemma takeNext_extend:
  assumes "takeNextSseBlock b = Some (blk, rest)"
  shows "takeNextSseBlock (b @ c) = Some (blk, rest @ c)"
proof (cases "index_of b crlf_crlf")
  case None
  then obtain i where i: "index_of b lf_lf = Some i" and r: "blk = take i b" "rest = drop (i + 2) b"
    using assms by (auto simp: takeNextSseBlock_def split: option.splits)
  have i': "index_of (b @ c) lf_lf = Some i" by (rule index_of_extend [OF i])
  have li: "i + 2 \<le> length b" using index_of_Some [OF i] by (simp add: lf_lf_def)
  have "\<not> j < i" if j: "index_of (b @ c) crlf_crlf = Some j" for j
  proof
    assume "j < i"
    moreover have "length b < j + 4" using index_of_late [OF None j] by (simp add: crlf_crlf_def crlf_def)
    ultimately have "i = j + 1" using li by linarith
    moreover have "(b @ c) ! (j + 2) = CHR 0x0D" using index_of_nth [OF j, of 2] by (simp add: crlf_crlf_def crlf_def)
    moreover have "(b @ c) ! (i + 1) = CHR 0x0A" using index_of_nth [OF i', of 1] by (simp add: lf_lf_def)
    ultimately show False by simp
  qed
  with i' r li show ?thesis by (auto simp: takeNextSseBlock_def split: option.splits)
next
  case (Some j)
  have j': "index_of (b @ c) crlf_crlf = Some j" by (rule index_of_extend [OF Some])
  have lj: "j + 4 \<le> length b" using index_of_Some [OF Some] by (simp add: crlf_crlf_def crlf_def)
  show ?thesis
  proof (cases "index_of b lf_lf")
    case None
    have "j < i" if i: "index_of (b @ c) lf_lf = Some i" for i
      using index_of_late [OF None i] lj by (simp add: lf_lf_def)
    with assms Some None j' lj show ?thesis
      by (auto simp: takeNextSseBlock_def split: option.splits)
  next
    case (Some i)
    have "index_of (b @ c) lf_lf = Some i" by (rule index_of_extend [OF Some])
    moreover have "i + 2 \<le> length b" using index_of_Some [OF Some] by (simp add: lf_lf_def)
    ultimately show ?thesis
      using assms \<open>index_of b crlf_crlf = Some j\<close> Some j' lj
      by (auto simp: takeNextSseBlock_def split: if_splits)
  qed
qed

lemma drain_extend:
  "drainSseMessages (b @ c) =
     (let (m1, r1) = drainSseMessages b; (m2, r2) = drainSseMessages (r1 @ c) in (m1 @ m2, r2))"
proof (induction b rule: drainSseMessages.induct)
  case (1 b)
  show ?case
  proof (cases "takeNextSseBlock b")
    case None
    then show ?thesis by (simp add: drainSseMessages.simps [of b])
  next
    case (Some p)
    obtain blk rest where p: "p = (blk, rest)" by (cases p)
    obtain m1 r1 where m1: "drainSseMessages rest = (m1, r1)" by (cases "drainSseMessages rest")
    obtain m2 r2 where m2: "drainSseMessages (r1 @ c) = (m2, r2)" by (cases "drainSseMessages (r1 @ c)")
    have "drainSseMessages (rest @ c) = (m1 @ m2, r2)"
      using "1.IH" [OF Some p [symmetric]] by (simp add: m1 m2)
    with Some p takeNext_extend [of b blk rest c] m1 m2 show ?thesis
      by (simp add: drainSseMessages.simps [of b] drainSseMessages.simps [of "b @ c"])
  qed
qed

text \<open>\<open>push\<close> of the exported draining loop: append a piece of text and drain.\<close>

definition sse_push :: "string \<Rightarrow> string \<Rightarrow> string \<times> (unknown + sse_message list)" where
  "sse_push buffer piece = (case drainSseMessages (buffer @ piece) of (ms, r) \<Rightarrow> (r, Inr ms))"

definition sse_step :: "string \<Rightarrow> char \<Rightarrow> unknown + (sse_message list \<times> string)" where
  "sse_step buffer c = Inr (drainSseMessages (buffer @ [c]))"

definition drained :: "string \<Rightarrow> bool" where
  "drained buffer = (takeNextSseBlock buffer = None)"

lemma drain_drained: "drained (snd (drainSseMessages b))"
proof (induction b rule: drainSseMessages.induct)
  case (1 b)
  then show ?case
    by (cases "takeNextSseBlock b") (auto simp: drainSseMessages.simps [of b] drained_def split: prod.splits)
qed

lemma drain_id: "drained b \<Longrightarrow> drainSseMessages b = ([], b)"
  by (simp add: drainSseMessages.simps [of b] drained_def)

lemma run_sse: "drained b \<Longrightarrow> run_bytes sse_step b c = Inr (drainSseMessages (b @ c))"
proof (induction c arbitrary: b)
  case Nil
  then show ?case by (simp add: drain_id)
next
  case (Cons x c)
  obtain m r where m: "drainSseMessages (b @ [x]) = (m, r)" by (cases "drainSseMessages (b @ [x])")
  have "drained r" using drain_drained [of "b @ [x]"] m by simp
  from Cons.IH [OF this] drain_extend [of "b @ [x]" c] m show ?case
    by (simp add: sse_step_def split: prod.splits)
qed

interpretation sse: chunked_decoder sse_push "\<lambda>b. b" drained sse_step
proof unfold_locales
  fix s chunk
  assume "drained s"
  then show "agrees (\<lambda>b. b) drained (run_bytes sse_step s chunk) (sse_push s chunk)"
    using drain_drained [of "s @ chunk"]
    by (cases "drainSseMessages (s @ chunk)") (simp add: run_sse agrees_def sse_push_def)
qed

section \<open>The streaming text decoder\<close>

record text_decoder =
  td_pending :: string
  td_needed :: nat
  td_lower :: nat
  td_upper :: nat
  td_seen :: bool

definition td_new :: text_decoder where
  "td_new = \<lparr>td_pending = [], td_needed = 0, td_lower = 0x80, td_upper = 0xBF, td_seen = False\<rparr>"

definition replacement :: string where
  "replacement = map char_of [0xEF, 0xBF, 0xBD :: nat]"

definition td_emit :: "string \<Rightarrow> text_decoder \<Rightarrow> string \<times> text_decoder" where
  "td_emit u td =
     (if \<not> td_seen td \<and> u = utf8_bom then [] else u,
      td\<lparr>td_pending := [], td_needed := 0, td_lower := 0x80, td_upper := 0xBF, td_seen := True\<rparr>)"

definition td_lead :: "text_decoder \<Rightarrow> char \<Rightarrow> string \<times> text_decoder" where
  "td_lead td c =
     (let n = of_char c :: nat in
      if n < 0x80 then td_emit [c] td
      else if 0xC2 \<le> n \<and> n \<le> 0xDF then ([], td\<lparr>td_pending := [c], td_needed := 1\<rparr>)
      else if 0xE0 \<le> n \<and> n \<le> 0xEF then
        ([], td\<lparr>td_pending := [c], td_needed := 2, td_lower := (if n = 0xE0 then 0xA0 else 0x80),
                td_upper := (if n = 0xED then 0x9F else 0xBF)\<rparr>)
      else if 0xF0 \<le> n \<and> n \<le> 0xF4 then
        ([], td\<lparr>td_pending := [c], td_needed := 3, td_lower := (if n = 0xF0 then 0x90 else 0x80),
                td_upper := (if n = 0xF4 then 0x8F else 0xBF)\<rparr>)
      else td_emit replacement td)"

definition td_byte :: "text_decoder \<Rightarrow> char \<Rightarrow> string \<times> text_decoder" where
  "td_byte td c =
     (if td_needed td = 0 then td_lead td c
      else if cont_byte (td_lower td) (td_upper td) c then
        (if td_needed td = 1 then td_emit (td_pending td @ [c]) td
         else ([], td\<lparr>td_pending := td_pending td @ [c], td_needed := td_needed td - 1,
                      td_lower := 0x80, td_upper := 0xBF\<rparr>))
      else
        (case td_emit replacement td of
           (u, td1) \<Rightarrow> (case td_lead td1 c of (v, td2) \<Rightarrow> (u @ v, td2))))"

fun td_decode :: "text_decoder \<Rightarrow> string \<Rightarrow> string \<times> text_decoder" where
  "td_decode td [] = ([], td)"
| "td_decode td (c # cs) =
     (case td_byte td c of
        (u, td1) \<Rightarrow> (case td_decode td1 cs of (v, td2) \<Rightarrow> (u @ v, td2)))"

definition td_flush :: "text_decoder \<Rightarrow> string" where
  "td_flush td = (if td_needed td = 0 then [] else fst (td_emit replacement td))"

lemma td_decode_append:
  "td_decode td (a @ b) =
     (case td_decode td a of (u, td1) \<Rightarrow> (case td_decode td1 b of (v, td2) \<Rightarrow> (u @ v, td2)))"
  by (induction a arbitrary: td) (auto split: prod.splits)

section \<open>Consuming a stream\<close>

definition DEFAULT_MAX_SSE_BUFFER_BYTES :: nat where
  "DEFAULT_MAX_SSE_BUFFER_BYTES = 16 * 1024 * 1024"

definition MAX_DECODE_CHUNK_BYTES :: nat where
  "MAX_DECODE_CHUNK_BYTES = 64 * 1024"

definition resolveMaxBufferBytes :: "jnum option \<Rightarrow> unknown + nat" where
  "resolveMaxBufferBytes v = validateLimit v DEFAULT_MAX_SSE_BUFFER_BYTES ''maxBufferBytes''"

definition sse_limit_error :: unknown where
  "sse_limit_error =
     UErr (JsError CRangeError ''SSE buffer exceeds the configured size limit''
       [(''code'', JStr ''sse-buffer-limit'')] None)"

text \<open>
  What the handler does, given the messages it has been handed so far: abort the signal, or throw.
\<close>

record sse_env =
  en_abort :: "sse_message list \<Rightarrow> bool"
  en_throw :: "sse_message list \<Rightarrow> unknown option"

record consumer =
  sc_buffer :: string
  sc_bytes :: int
  sc_decoder :: text_decoder
  sc_aborted :: bool
  sc_messages :: "sse_message list"

definition consumer_new :: "bool \<Rightarrow> consumer" where
  "consumer_new aborted =
     \<lparr>sc_buffer = [], sc_bytes = 0, sc_decoder = td_new, sc_aborted = aborted, sc_messages = []\<rparr>"

definition hand_over :: "sse_env \<Rightarrow> sse_message option \<Rightarrow> consumer \<Rightarrow> consumer \<times> unknown option" where
  "hand_over env m st =
     (case m of
        None \<Rightarrow> (st, None)
      | Some x \<Rightarrow>
          let history = sc_messages st @ [x] in
          (st\<lparr>sc_messages := history, sc_aborted := sc_aborted st \<or> en_abort env history\<rparr>,
           en_throw env history))"

lemma hand_over_frame:
  "hand_over env m st = (st', e) \<Longrightarrow> sc_buffer st' = sc_buffer st \<and> sc_bytes st' = sc_bytes st
     \<and> sc_decoder st' = sc_decoder st \<and> (sc_aborted st \<longrightarrow> sc_aborted st')"
  by (auto simp: hand_over_def Let_def split: option.splits)

datatype loop_end = Drained | Returned | Threw unknown

function append_loop :: "sse_env \<Rightarrow> nat \<Rightarrow> consumer \<Rightarrow> consumer \<times> loop_end" where
  "append_loop env maxBufferBytes st =
     (case takeNextSseBlock (sc_buffer st) of
        None \<Rightarrow> (st, Drained)
      | Some (block, rest) \<Rightarrow>
          if sc_aborted st then (st, Returned)
          else if length block > maxBufferBytes then (st, Threw sse_limit_error)
          else
            let separatorBytes = int (length (sc_buffer st)) - int (length block) - int (length rest);
                st1 = st\<lparr>sc_bytes := sc_bytes st - (int (length block) + separatorBytes),
                         sc_buffer := rest\<rparr>
            in (case hand_over env (parseSseBlock block) st1 of
                  (st2, Some e) \<Rightarrow> (st2, Threw e)
                | (st2, None) \<Rightarrow> append_loop env maxBufferBytes st2))"
  by pat_completeness auto
termination
  by (relation "measure (\<lambda>(env, n, st). length (sc_buffer st))")
    (auto dest!: hand_over_frame [OF sym] takeNext_length)

declare append_loop.simps [simp del]

definition appendDecoded :: "sse_env \<Rightarrow> nat \<Rightarrow> string \<Rightarrow> consumer \<Rightarrow> consumer \<times> unknown option" where
  "appendDecoded env maxBufferBytes decoded st =
     (if decoded = [] \<or> sc_aborted st then (st, None)
      else
        (case append_loop env maxBufferBytes
                (st\<lparr>sc_buffer := sc_buffer st @ decoded,
                    sc_bytes := sc_bytes st + int (length decoded)\<rparr>) of
           (st1, Returned) \<Rightarrow> (st1, None)
         | (st1, Threw e) \<Rightarrow> (st1, Some e)
         | (st1, Drained) \<Rightarrow>
             (st1, if sc_bytes st1 > int maxBufferBytes then Some sse_limit_error else None)))"

text \<open>The slices of a value, at least one byte each.\<close>

function slices :: "nat \<Rightarrow> string \<Rightarrow> string list" where
  "slices n v = (if v = [] then [] else take (max 1 n) v # slices n (drop (max 1 n) v))"
  by pat_completeness auto
termination by (relation "measure (\<lambda>(n, v). length v)") auto

declare slices.simps [simp del]

fun consume_slices :: "sse_env \<Rightarrow> nat \<Rightarrow> string list \<Rightarrow> consumer \<Rightarrow> consumer \<times> unknown option" where
  "consume_slices env maxBufferBytes [] st = (st, None)"
| "consume_slices env maxBufferBytes (s # ss) st =
     (if sc_aborted st then (st, None)
      else
        (case td_decode (sc_decoder st) s of
           (decoded, td) \<Rightarrow>
             (case appendDecoded env maxBufferBytes decoded (st\<lparr>sc_decoder := td\<rparr>) of
                (st1, Some e) \<Rightarrow> (st1, Some e)
              | (st1, None) \<Rightarrow> consume_slices env maxBufferBytes ss st1)))"

text \<open>A read of the body: whether the signal aborted while it was awaited, and its result.\<close>

datatype sse_read = RValue string | RDone | RError unknown

datatype consume_end = Finished | Failed unknown | Waiting

definition consume_trailing :: "sse_env \<Rightarrow> consumer \<Rightarrow> consumer \<times> consume_end" where
  "consume_trailing env st =
     (if sc_aborted st then (st, Finished)
      else
        (case hand_over env (parseSseBlock (sc_buffer st)) st of
           (st1, Some e) \<Rightarrow> (st1, Failed e)
         | (st1, None) \<Rightarrow> (st1, Finished)))"

fun consume_reads :: "sse_env \<Rightarrow> nat \<Rightarrow> (bool \<times> sse_read) list \<Rightarrow> consumer \<Rightarrow> consumer \<times> consume_end" where
  "consume_reads env maxBufferBytes reads st =
     (if sc_aborted st then consume_trailing env st
      else
        (case reads of
           [] \<Rightarrow> (st, Waiting)
         | (aborts, r) # rs \<Rightarrow>
             let st0 = (if aborts then st\<lparr>sc_aborted := True\<rparr> else st) in
             (case r of
                RError e \<Rightarrow> (st0, Failed e)
              | RDone \<Rightarrow>
                  (case appendDecoded env maxBufferBytes (td_flush (sc_decoder st0)) st0 of
                     (st1, Some e) \<Rightarrow> (st1, Failed e)
                   | (st1, None) \<Rightarrow> consume_trailing env st1)
              | RValue v \<Rightarrow>
                  (case consume_slices env maxBufferBytes
                          (slices (min maxBufferBytes MAX_DECODE_CHUNK_BYTES) v) st0 of
                     (st1, Some e) \<Rightarrow> (st1, Failed e)
                   | (st1, None) \<Rightarrow> consume_reads env maxBufferBytes rs st1))))"

definition consumeSseStream ::
  "sse_env \<Rightarrow> jnum option \<Rightarrow> bool \<Rightarrow> (bool \<times> sse_read) list \<Rightarrow> consumer \<times> consume_end" where
  "consumeSseStream env maxBufferBytes aborted reads =
     (case resolveMaxBufferBytes maxBufferBytes of
        Inl e \<Rightarrow> (consumer_new aborted, Failed e)
      | Inr n \<Rightarrow> consume_reads env n reads (consumer_new aborted))"

section \<open>Cutting the text anywhere\<close>

text \<open>What is left undrained never exceeds \<open>n\<close>, wherever the text is cut.\<close>

definition fits :: "nat \<Rightarrow> string \<Rightarrow> bool" where
  "fits n t = (\<forall>k. length (snd (drainSseMessages (take k t))) \<le> n)"

lemma drained_prefix: "drained (b @ c) \<Longrightarrow> drained b"
  using takeNext_extend [of b] by (cases "takeNextSseBlock b") (auto simp: drained_def)

lemma index_of_take:
  assumes "index_of b p = Some i" and "i + length p \<le> m"
  shows "index_of (take m b) p = Some i"
proof (rule index_of_eqI)
  have b: "prefix p (drop i b)" "i + length p \<le> length b" using index_of_Some [OF assms(1)] by auto
  have t: "prefix (drop i (take m b)) (drop i b)" by (simp add: drop_take take_is_prefix)
  show "prefix p (drop i (take m b))"
    by (rule prefix_length_prefix [OF b(1) t]) (use b(2) assms(2) in simp)
  show "i \<le> length (take m b)" using b(2) assms(2) by simp
  fix j assume "j < i"
  from index_of_least [OF assms(1) this] show "\<not> prefix p (drop j (take m b))"
    using prefix_order.trans [of p "drop j (take m b)" "drop j b"] by (auto simp: drop_take take_is_prefix)
qed

lemma takeNext_split:
  assumes "takeNextSseBlock b = Some (blk, rest)"
  shows "\<exists>sep. b = (blk @ sep) @ rest \<and> sep \<noteq> [] \<and> takeNextSseBlock (blk @ sep) = Some (blk, [])"
proof -
  consider (lf) i where "index_of b lf_lf = Some i" "blk = take i b" "rest = drop (i + 2) b"
      "\<And>j. index_of b crlf_crlf = Some j \<Longrightarrow> i \<le> j"
    | (crlf) j where "index_of b crlf_crlf = Some j" "blk = take j b" "rest = drop (j + 4) b"
      "\<And>i. index_of b lf_lf = Some i \<Longrightarrow> j < i"
    using assms by (auto simp: takeNextSseBlock_def split: option.splits if_splits)
  then show ?thesis
  proof cases
    case lf
    define b' where "b' = take (i + 2) b"
    have l: "i + 2 \<le> length b" using index_of_Some [OF lf(1)] by (simp add: lf_lf_def)
    have i': "index_of b' lf_lf = Some i"
      unfolding b'_def by (rule index_of_take [OF lf(1)]) (simp add: lf_lf_def)
    have "index_of b' crlf_crlf = None"
    proof (cases "index_of b' crlf_crlf")
      case (Some j)
      have "j + 4 \<le> i + 2" using index_of_Some [OF Some] l by (simp add: b'_def crlf_crlf_def crlf_def)
      moreover have "index_of b crlf_crlf = Some j"
        using index_of_extend [OF Some, of "drop (i + 2) b"] by (simp add: b'_def)
      ultimately show ?thesis using lf(4) by fastforce
    qed simp
    with i' have t: "takeNextSseBlock b' = Some (take i b', drop (i + 2) b')"
      by (simp add: takeNextSseBlock_def)
    have tk: "take i b' = blk" by (simp add: b'_def lf(2) min_def)
    then have s: "blk @ drop i b' = b'" using append_take_drop_id [of i b'] by simp
    have d: "drop (i + 2) b' = []" "drop i b' \<noteq> []" using l by (simp_all add: b'_def)
    have "b = b' @ rest" by (simp add: b'_def lf(3))
    with t tk s d show ?thesis by (intro exI [of _ "drop i b'"]) simp
  next
    case crlf
    define b' where "b' = take (j + 4) b"
    have l: "j + 4 \<le> length b" using index_of_Some [OF crlf(1)] by (simp add: crlf_crlf_def crlf_def)
    have j': "index_of b' crlf_crlf = Some j"
      unfolding b'_def by (rule index_of_take [OF crlf(1)]) (simp add: crlf_crlf_def crlf_def)
    have "j < i" if i: "index_of b' lf_lf = Some i" for i
      using index_of_extend [OF i, of "drop (j + 4) b"] crlf(4) by (simp add: b'_def)
    with j' have t: "takeNextSseBlock b' = Some (take j b', drop (j + 4) b')"
      by (auto simp: takeNextSseBlock_def split: option.splits)
    have tk: "take j b' = blk" by (simp add: b'_def crlf(2) min_def)
    then have s: "blk @ drop j b' = b'" using append_take_drop_id [of j b'] by simp
    have d: "drop (j + 4) b' = []" "drop j b' \<noteq> []" using l by (simp_all add: b'_def)
    have "b = b' @ rest" by (simp add: b'_def crlf(3))
    with t tk s d show ?thesis by (intro exI [of _ "drop j b'"]) simp
  qed
qed

lemma fits_block:
  assumes "takeNextSseBlock b = Some (blk, rest)" and "fits n b"
  shows "length blk \<le> n" and "fits n rest"
proof -
  obtain sep where b: "b = (blk @ sep) @ rest" and ne: "sep \<noteq> []"
    and t: "takeNextSseBlock (blk @ sep) = Some (blk, [])"
    using takeNext_split [OF assms(1)] by blast
  have "drained blk"
  proof (cases "takeNextSseBlock blk")
    case (Some p)
    obtain x r where p: "p = (x, r)" by (cases p)
    from takeNext_extend [OF Some [unfolded p], of sep] t have "r @ sep = []" by simp
    with ne show ?thesis by simp
  qed (simp add: drained_def)
  then have "snd (drainSseMessages (take (length blk) b)) = blk"
    by (simp add: b drain_id)
  with assms(2) show "length blk \<le> n" unfolding fits_def by metis
  have "snd (drainSseMessages ((blk @ sep) @ take k rest)) = snd (drainSseMessages (take k rest))" for k
    using takeNext_extend [OF t, of "take k rest"]
    by (simp add: drainSseMessages.simps [of "blk @ sep @ take k rest"] split: prod.splits)
  moreover have "take (length (blk @ sep) + k) b = (blk @ sep) @ take k rest" for k
    by (simp add: b)
  ultimately show "fits n rest"
    using assms(2) unfolding fits_def by metis
qed

definition quiet :: sse_env where
  "quiet = \<lparr>en_abort = \<lambda>_. False, en_throw = \<lambda>_. None\<rparr>"

lemma hand_over_quiet:
  "hand_over quiet m st = (st\<lparr>sc_messages := sc_messages st @ opt_list m\<rparr>, None)"
  by (simp add: hand_over_def quiet_def opt_list_def split: option.splits)

lemma append_loop_quiet:
  assumes "\<not> sc_aborted st" and "fits n (sc_buffer st)" and "sc_bytes st = int (length (sc_buffer st))"
  shows "append_loop quiet n st =
     (st\<lparr>sc_buffer := snd (drainSseMessages (sc_buffer st)),
         sc_bytes := int (length (snd (drainSseMessages (sc_buffer st)))),
         sc_messages := sc_messages st @ fst (drainSseMessages (sc_buffer st))\<rparr>, Drained)"
  using assms
proof (induction "sc_buffer st" arbitrary: st rule: drainSseMessages.induct)
  case 1
  show ?case
  proof (cases "takeNextSseBlock (sc_buffer st)")
    case None
    with 1 show ?thesis
      by (simp add: append_loop.simps drainSseMessages.simps [of "sc_buffer st"])
  next
    case (Some p)
    obtain blk rest where p: "p = (blk, rest)" by (cases p)
    note fb = fits_block [OF Some [unfolded p] "1.prems"(2)]
    define st1 where "st1 = st\<lparr>sc_bytes := int (length rest), sc_buffer := rest,
        sc_messages := sc_messages st @ opt_list (parseSseBlock blk)\<rparr>"
    have eq: "(blk, sc_buffer st1) = p" by (simp add: st1_def p)
    have "append_loop quiet n st = append_loop quiet n st1"
      using Some p "1.prems" fb(1)
      by (simp add: append_loop.simps [of quiet n st] hand_over_quiet st1_def Let_def)
    also have "\<dots> = (st1\<lparr>sc_buffer := snd (drainSseMessages rest),
         sc_bytes := int (length (snd (drainSseMessages rest))),
         sc_messages := sc_messages st1 @ fst (drainSseMessages rest)\<rparr>, Drained)"
      using "1.hyps" [OF Some eq] "1.prems"(1) fb(2) by (simp add: st1_def)
    finally show ?thesis
      using Some p by (simp add: st1_def drainSseMessages.simps [of "sc_buffer st"] split: prod.splits)
  qed
qed

text \<open>The consumer after the text \<open>d\<close> has been decoded.\<close>

definition consumed :: "string \<Rightarrow> consumer \<Rightarrow> bool" where
  "consumed d st =
     (\<not> sc_aborted st \<and> sc_buffer st = snd (drainSseMessages d)
      \<and> sc_bytes st = int (length (sc_buffer st)) \<and> sc_messages st = fst (drainSseMessages d))"

lemma drain_extend': "drainSseMessages (d @ p) =
   (fst (drainSseMessages d) @ fst (drainSseMessages (snd (drainSseMessages d) @ p)),
    snd (drainSseMessages (snd (drainSseMessages d) @ p)))"
  by (simp add: drain_extend [of d p] Let_def split: prod.splits)

lemma appendDecoded_consumed:
  assumes "consumed d st" and "fits n (d @ p @ later)"
  shows "\<exists>st'. appendDecoded quiet n p st = (st', None) \<and> consumed (d @ p) st'
     \<and> sc_decoder st' = sc_decoder st"
proof (cases "p = []")
  case True
  with assms(1) show ?thesis by (simp add: appendDecoded_def)
next
  case False
  define b where "b = snd (drainSseMessages d)"
  have cut: "length (snd (drainSseMessages (d @ take k p))) \<le> n" for k
  proof -
    have "take (length d + min k (length p)) (d @ p @ later) = d @ take k p" by (simp add: min_def)
    with assms(2) show ?thesis unfolding fits_def by metis
  qed
  have "fits n (b @ p)"
    unfolding fits_def
  proof
    fix k
    show "length (snd (drainSseMessages (take k (b @ p)))) \<le> n"
    proof (cases "k \<le> length b")
      case True
      have "drained (take k b)"
        using drained_prefix [of "take k b" "drop k b"] drain_drained [of d] by (simp add: b_def)
      then have "length (snd (drainSseMessages (take k (b @ p)))) \<le> length b"
        using True by (simp add: drain_id)
      also have "\<dots> \<le> n" using cut [of 0] by (simp add: b_def)
      finally show ?thesis .
    next
      case False
      then have "take k (b @ p) = b @ take (k - length b) p" by simp
      with cut [of "k - length b"] show ?thesis by (simp add: drain_extend' [of d] b_def)
    qed
  qed
  moreover define st0 where "st0 = st\<lparr>sc_buffer := sc_buffer st @ p, sc_bytes := sc_bytes st + int (length p)\<rparr>"
  ultimately have "append_loop quiet n st0 =
     (st0\<lparr>sc_buffer := snd (drainSseMessages (b @ p)),
         sc_bytes := int (length (snd (drainSseMessages (b @ p)))),
         sc_messages := sc_messages st0 @ fst (drainSseMessages (b @ p))\<rparr>, Drained)"
    using append_loop_quiet [of st0 n] assms(1) by (simp add: consumed_def b_def)
  moreover have "length (snd (drainSseMessages (b @ p))) \<le> n"
    using cut [of "length p"] by (simp add: drain_extend' [of d] b_def)
  ultimately show ?thesis
    using assms(1) False
    by (simp add: appendDecoded_def st0_def [symmetric])
      (simp add: consumed_def st0_def drain_extend' [of d] b_def)
qed

lemma consume_slices_consumed:
  assumes "consumed d st" and "td_decode (sc_decoder st) (concat ss) = (t, td)" and "fits n (d @ t @ later)"
  shows "\<exists>st'. consume_slices quiet n ss st = (st', None) \<and> consumed (d @ t) st' \<and> sc_decoder st' = td"
  using assms
proof (induction ss arbitrary: d st t)
  case (Cons s ss)
  obtain u td1 where u: "td_decode (sc_decoder st) s = (u, td1)" by (cases "td_decode (sc_decoder st) s")
  obtain w where w: "td_decode td1 (concat ss) = (w, td)" "t = u @ w"
    using Cons.prems(2) u by (auto simp: td_decode_append split: prod.splits)
  have "consumed d (st\<lparr>sc_decoder := td1\<rparr>)" using Cons.prems(1) by (simp add: consumed_def)
  from appendDecoded_consumed [OF this, of n u "w @ later"] Cons.prems(3) w(2)
  obtain st1 where st1: "appendDecoded quiet n u (st\<lparr>sc_decoder := td1\<rparr>) = (st1, None)"
    "consumed (d @ u) st1" "sc_decoder st1 = td1" by auto
  from Cons.IH [OF st1(2), of w] w Cons.prems(3) st1(3)
  obtain st' where "consume_slices quiet n ss st1 = (st', None)" "consumed ((d @ u) @ w) st'" "sc_decoder st' = td"
    by auto
  with u st1(1) w(2) Cons.prems(1) show ?case by (simp add: consumed_def)
qed simp

lemma concat_slices: "concat (slices n v) = v"
proof (induction n v rule: slices.induct)
  case (1 n v)
  then show ?case by (subst slices.simps) auto
qed

lemma consume_reads_consumed:
  assumes "consumed d st" and "td_decode (sc_decoder st) (concat vs) = (t, td)"
    and "fits n (d @ t @ td_flush td)"
  shows "\<exists>st'. consume_reads quiet n (map (\<lambda>v. (False, RValue v)) vs @ [(False, RDone)]) st = (st', Finished)
     \<and> sc_messages st' = fst (drainSseMessages (d @ t @ td_flush td))
         @ opt_list (parseSseBlock (snd (drainSseMessages (d @ t @ td_flush td))))"
  using assms
proof (induction vs arbitrary: d st t)
  case Nil
  then have td: "t = []" "td = sc_decoder st" by auto
  from appendDecoded_consumed [OF Nil.prems(1), of n "td_flush td" "[]"] Nil.prems(3) td
  obtain st1 where "appendDecoded quiet n (td_flush td) st = (st1, None)" "consumed (d @ td_flush td) st1"
    by auto
  with Nil.prems(1) td show ?case
    by (simp add: consumed_def consume_trailing_def hand_over_quiet)
next
  case (Cons v vs)
  define m where "m = min n MAX_DECODE_CHUNK_BYTES"
  obtain u td1 where u: "td_decode (sc_decoder st) (concat (slices m v)) = (u, td1)"
    by (cases "td_decode (sc_decoder st) (concat (slices m v))")
  obtain w where w: "td_decode td1 (concat vs) = (w, td)" "t = u @ w"
    using Cons.prems(2) u by (auto simp: td_decode_append concat_slices split: prod.splits)
  from consume_slices_consumed [OF Cons.prems(1) u, of n "w @ td_flush td"] Cons.prems(3) w(2)
  obtain st1 where st1: "consume_slices quiet n (slices m v) st = (st1, None)" "consumed (d @ u) st1"
    "sc_decoder st1 = td1" by auto
  from Cons.IH [OF st1(2), of w] w Cons.prems(3) st1(3) st1(1) Cons.prems(1) show ?case
    by (simp add: m_def consumed_def)
qed

section \<open>The consumer's invariant\<close>

text \<open>Up to a message the handler neither threw nor aborted; the byte count is the buffer's.\<close>

definition undisturbed :: "sse_env \<Rightarrow> sse_message list \<Rightarrow> bool" where
  "undisturbed env h =
     (\<forall>j. 1 \<le> j \<and> j < length h \<longrightarrow> en_throw env (take j h) = None \<and> \<not> en_abort env (take j h))"

definition consumer_inv :: "sse_env \<Rightarrow> consumer \<Rightarrow> bool" where
  "consumer_inv env st =
     (undisturbed env (sc_messages st)
      \<and> (sc_messages st \<noteq> [] \<longrightarrow> en_throw env (sc_messages st) = None)
      \<and> (\<not> sc_aborted st \<and> sc_messages st \<noteq> [] \<longrightarrow> \<not> en_abort env (sc_messages st))
      \<and> sc_bytes st = int (length (sc_buffer st)))"

definition consumer_end :: "sse_env \<Rightarrow> consumer \<Rightarrow> bool" where
  "consumer_end env st =
     (undisturbed env (sc_messages st) \<and> sc_bytes st = int (length (sc_buffer st)))"

lemma inv_end: "consumer_inv env st \<Longrightarrow> consumer_end env st"
  by (simp add: consumer_inv_def consumer_end_def)

lemma undisturbed_snoc:
  "undisturbed env h \<Longrightarrow> (h \<noteq> [] \<longrightarrow> en_throw env h = None \<and> \<not> en_abort env h) \<Longrightarrow> undisturbed env (h @ [x])"
  by (auto simp: undisturbed_def less_Suc_eq)

lemma hand_over_inv:
  assumes "consumer_inv env st" and "\<not> sc_aborted st" and "hand_over env m st = (st', e)"
  shows "e = None \<Longrightarrow> consumer_inv env st'" and "consumer_end env st'"
  using assms undisturbed_snoc [of env "sc_messages st"]
  by (auto simp: hand_over_def consumer_inv_def consumer_end_def Let_def split: option.splits)

lemma append_loop_inv:
  "consumer_inv env st \<Longrightarrow> append_loop env n st = (st', r) \<Longrightarrow>
   consumer_end env st' \<and> ((\<forall>e. r \<noteq> Threw e) \<longrightarrow> consumer_inv env st')"
proof (induction env n st rule: append_loop.induct)
  case (1 env n st)
  show ?case
  proof (cases "takeNextSseBlock (sc_buffer st)")
    case None
    with "1.prems" show ?thesis by (simp add: append_loop.simps [of env n st] inv_end)
  next
    case (Some p)
    obtain blk rest where p: "p = (blk, rest)" by (cases p)
    show ?thesis
    proof (cases "sc_aborted st \<or> n < length blk")
      case True
      with "1.prems" Some p show ?thesis
        by (auto simp: append_loop.simps [of env n st] inv_end split: if_splits)
    next
      case False
      define st1 where "st1 = st\<lparr>sc_bytes := sc_bytes st - (int (length blk) +
          (int (length (sc_buffer st)) - int (length blk) - int (length rest))), sc_buffer := rest\<rparr>"
      have i1: "consumer_inv env st1" using "1.prems"(1) by (simp add: st1_def consumer_inv_def)
      have a1: "\<not> sc_aborted st1" using False by (simp add: st1_def)
      obtain st2 e where h: "hand_over env (parseSseBlock blk) st1 = (st2, e)"
        by (cases "hand_over env (parseSseBlock blk) st1")
      have unf: "append_loop env n st =
          (case hand_over env (parseSseBlock blk) st1 of
             (st2, Some e) \<Rightarrow> (st2, Threw e) | (st2, None) \<Rightarrow> append_loop env n st2)"
        using Some p False by (simp add: append_loop.simps [of env n st] st1_def Let_def)
      show ?thesis
      proof (cases e)
        case None
        have "append_loop env n st2 = (st', r)" using "1.prems"(2) unf h None by simp
        with "1.IH" [OF Some p [symmetric] _ _ refl st1_def h [unfolded None, symmetric] refl]
          hand_over_inv(1) [OF i1 a1 h None] False
        show ?thesis by (simp add: st1_def)
      next
        case (Some err)
        then have "st' = st2 \<and> r = Threw err" using "1.prems"(2) unf h by simp
        with hand_over_inv(2) [OF i1 a1 h] show ?thesis by simp
      qed
    qed
  qed
qed

lemma appendDecoded_inv:
  assumes "consumer_inv env st" and "appendDecoded env n d st = (st', e)"
  shows "consumer_end env st' \<and> (e = None \<longrightarrow> consumer_inv env st')"
proof (cases "d = [] \<or> sc_aborted st")
  case True
  with assms show ?thesis by (auto simp: appendDecoded_def inv_end)
next
  case False
  define st0 where "st0 = st\<lparr>sc_buffer := sc_buffer st @ d, sc_bytes := sc_bytes st + int (length d)\<rparr>"
  have "consumer_inv env st0" using assms(1) by (simp add: st0_def consumer_inv_def)
  then show ?thesis
    using append_loop_inv [of env st0 n] assms(2) False
    by (cases "append_loop env n st0")
      (auto simp: appendDecoded_def st0_def [symmetric] split: loop_end.splits)
qed

lemma consume_slices_inv:
  "consumer_inv env st \<Longrightarrow> consume_slices env n ss st = (st', e) \<Longrightarrow>
   consumer_end env st' \<and> (e = None \<longrightarrow> consumer_inv env st')"
proof (induction ss arbitrary: st)
  case (Cons s ss)
  show ?case
  proof (cases "sc_aborted st")
    case True
    with Cons.prems show ?thesis by (auto simp: inv_end)
  next
    case False
    obtain d td where d: "td_decode (sc_decoder st) s = (d, td)" by (cases "td_decode (sc_decoder st) s")
    obtain st1 e1 where a: "appendDecoded env n d (st\<lparr>sc_decoder := td\<rparr>) = (st1, e1)"
      by (cases "appendDecoded env n d (st\<lparr>sc_decoder := td\<rparr>)")
    have "consumer_inv env (st\<lparr>sc_decoder := td\<rparr>)" using Cons.prems(1) by (simp add: consumer_inv_def)
    from appendDecoded_inv [OF this a] Cons False d a show ?thesis
      by (cases e1) auto
  qed
qed (auto simp: inv_end)

lemma consume_trailing_inv:
  "consumer_inv env st \<Longrightarrow> consume_trailing env st = (st', e) \<Longrightarrow> consumer_end env st'"
  using hand_over_inv(2) [of env st "parseSseBlock (sc_buffer st)"]
  by (auto simp: consume_trailing_def inv_end split: if_splits prod.splits option.splits)

lemma consume_reads_inv:
  "consumer_inv env st \<Longrightarrow> consume_reads env n rs st = (st', e) \<Longrightarrow> consumer_end env st'"
proof (induction env n rs st rule: consume_reads.induct)
  case (1 env n rs st)
  show ?case
  proof (cases "sc_aborted st")
    case True
    with 1 show ?thesis using consume_trailing_inv by auto
  next
    case na: False
    show ?thesis
    proof (cases rs)
      case Nil
      with 1 na show ?thesis by (auto simp: inv_end)
    next
      case (Cons p rs')
      obtain ab r where p: "p = (ab, r)" by (cases p)
      define st0 where "st0 = (if ab then st\<lparr>sc_aborted := True\<rparr> else st)"
      have i0: "consumer_inv env st0" using "1.prems"(1) by (simp add: st0_def consumer_inv_def)
      show ?thesis
      proof (cases r)
        case (RError err)
        with "1.prems" na Cons p i0 show ?thesis by (auto simp: st0_def [symmetric] inv_end)
      next
        case RDone
        with "1.prems" na Cons p appendDecoded_inv [OF i0] consume_trailing_inv show ?thesis
          by (fastforce simp: st0_def [symmetric] split: prod.splits option.splits)
      next
        case (RValue v)
        obtain st1 e1 where s: "consume_slices env n (slices (min n MAX_DECODE_CHUNK_BYTES) v) st0 = (st1, e1)"
          by (cases "consume_slices env n (slices (min n MAX_DECODE_CHUNK_BYTES) v) st0")
        from consume_slices_inv [OF i0 s] "1.prems"(2) na Cons p RValue s
          "1.IH" [OF na Cons p [symmetric] st0_def RValue s [symmetric]]
        show ?thesis by (cases e1) (auto simp: st0_def [symmetric])
      qed
    qed
  qed
qed

section \<open>Combined abort signals\<close>

text \<open>
  \<open>combineAbortSignalsWithCleanup\<close>: the state of the two sources, of the combined signal and of the
  listeners attached to the sources.
\<close>

record combined =
  cb_single :: bool
  cb_a :: bool
  cb_b :: bool
  cb_listening :: bool
  cb_aborted :: bool

definition combineAbortSignalsWithCleanup :: "bool \<Rightarrow> bool option \<Rightarrow> combined" where
  "combineAbortSignalsWithCleanup a b =
     (case b of
        None \<Rightarrow> \<lparr>cb_single = True, cb_a = a, cb_b = False, cb_listening = False, cb_aborted = a\<rparr>
      | Some b' \<Rightarrow>
          if a \<or> b'
          then \<lparr>cb_single = False, cb_a = a, cb_b = b', cb_listening = False, cb_aborted = True\<rparr>
          else \<lparr>cb_single = False, cb_a = a, cb_b = b', cb_listening = True, cb_aborted = False\<rparr>)"

datatype abort_event = AbortA | AbortB | Dispose

fun combined_step :: "combined \<Rightarrow> abort_event \<Rightarrow> combined" where
  "combined_step s AbortA =
     (if cb_single s then s\<lparr>cb_a := True, cb_aborted := True\<rparr>
      else if cb_listening s \<and> \<not> cb_a s
      then s\<lparr>cb_a := True, cb_listening := False, cb_aborted := True\<rparr> else s\<lparr>cb_a := True\<rparr>)"
| "combined_step s AbortB =
     (if cb_single s then s
      else if cb_listening s \<and> \<not> cb_b s
      then s\<lparr>cb_b := True, cb_listening := False, cb_aborted := True\<rparr> else s\<lparr>cb_b := True\<rparr>)"
| "combined_step s Dispose = (if cb_single s then s else s\<lparr>cb_listening := False\<rparr>)"

section \<open>Properties\<close>

text \<open>Draining is independent of chunking. Feeding text to the draining loop piece by piece, cut
  anywhere (inside a line, a field or a blank-line boundary), hands over the messages of the whole.\<close>

theorem sse_drain_ignores_chunking:
  "snd (feed sse_push [] cs) = Inr (fst (drainSseMessages (concat cs)))
   \<and> fst (feed sse_push [] cs) = snd (drainSseMessages (concat cs))"
proof -
  have d: "drained []" by (simp add: drained_def takeNextSseBlock_def lf_lf_def crlf_crlf_def crlf_def)
  have "run_bytes sse_step [] (concat cs) =
      Inr (fst (drainSseMessages (concat cs)), snd (drainSseMessages (concat cs)))"
    by (simp add: run_sse [OF d])
  from sse.feed_run [OF d this] show ?thesis by simp
qed

text \<open>C34: Completeness of the stream consumer. If the undrained text never exceeds the limit wherever it
  is cut, then, however the body's bytes are cut into reads (even inside a character), the stream
  finishes and the handler gets exactly the messages of the decoded text, the unterminated last one
  included.\<close>

theorem sse_stream_complete:
  assumes "td_decode td_new (concat vs) = (t, td)" and "fits n (t @ td_flush td)"
    and "1 \<le> n" and "int n \<le> max_safe"
  shows "\<exists>st. consumeSseStream quiet (Some (num (int n))) False
        (map (\<lambda>v. (False, RValue v)) vs @ [(False, RDone)]) = (st, Finished)
    \<and> sc_messages st = fst (drainSseMessages (t @ td_flush td))
        @ opt_list (parseSseBlock (snd (drainSseMessages (t @ td_flush td))))"
proof -
  have e: "drainSseMessages [] = ([], [])"
    by (simp add: drainSseMessages.simps takeNextSseBlock_def lf_lf_def crlf_crlf_def crlf_def)
  have c: "consumed [] (consumer_new False)" by (simp add: consumed_def consumer_new_def e)
  have "td_decode (sc_decoder (consumer_new False)) (concat vs) = (t, td)"
    using assms(1) by (simp add: consumer_new_def)
  from consume_reads_consumed [OF c this, of n] assms(2) obtain st where
    "consume_reads quiet n (map (\<lambda>v. (False, RValue v)) vs @ [(False, RDone)]) (consumer_new False) =
       (st, Finished)"
    "sc_messages st = fst (drainSseMessages (t @ td_flush td))
        @ opt_list (parseSseBlock (snd (drainSseMessages (t @ td_flush td))))" by auto
  moreover have "resolveMaxBufferBytes (Some (num (int n))) = Inr n"
    using assms(3,4) by (simp add: resolveMaxBufferBytes_def validateLimit_def num_def is_safe_integer_def)
  ultimately show ?thesis by (simp add: consumeSseStream_def)
qed

lemma drain_length: "length (snd (drainSseMessages b)) \<le> length b"
proof (induction b rule: drainSseMessages.induct)
  case (1 b)
  show ?case
  proof (cases "takeNextSseBlock b")
    case (Some p)
    obtain blk rest where p: "p = (blk, rest)" by (cases p)
    with "1.IH" [OF Some p [symmetric]] takeNext_length [of b blk rest] Some show ?thesis
      by (cases "drainSseMessages rest") (simp add: drainSseMessages.simps [of b])
  qed (simp add: drainSseMessages.simps)
qed

lemma fits_short: "length t \<le> n \<Longrightarrow> fits n t"
  unfolding fits_def using drain_length by (metis length_take min.cobounded1 order.trans)

theorem sse_stream_complete_witness:
  "\<exists>st. consumeSseStream quiet (Some (num 20)) False
      [(False, RValue ''dat''), (False, RValue (''a: x'' @ lf_lf)), (False, RDone)] = (st, Finished)
    \<and> map sm_data (sc_messages st) = [''x'']"
proof -
  have d: "td_decode td_new (concat [''dat'', ''a: x'' @ lf_lf]) =
      (''data: x'' @ lf_lf, td_new\<lparr>td_seen := True\<rparr>)" by code_simp
  have fl: "td_flush (td_new\<lparr>td_seen := True\<rparr>) = []" by code_simp
  have m: "map sm_data (fst (drainSseMessages (''data: x'' @ lf_lf))) = [''x'']"
    "snd (drainSseMessages (''data: x'' @ lf_lf)) = []" by code_simp+
  have e: "parseSseBlock [] = None" by code_simp
  have "fits 20 ((''data: x'' @ lf_lf) @ td_flush (td_new\<lparr>td_seen := True\<rparr>))"
    by (rule fits_short) (simp add: fl lf_lf_def)
  from sse_stream_complete [OF d this] m e fl show ?thesis
    by (auto simp: opt_list_def max_safe_def)
qed

text \<open>Cancellation and accounting. Whatever the reads, the handler and the signal do: no message is
  handed over after one at which the handler threw or the signal was aborted, and the byte count
  kept beside the buffer is the buffer's length.\<close>

theorem sse_stops_after_abort:
  assumes "consumeSseStream env limit aborted reads = (st, r)"
  shows "(\<forall>j. 1 \<le> j \<and> j < length (sc_messages st) \<longrightarrow>
      en_throw env (take j (sc_messages st)) = None \<and> \<not> en_abort env (take j (sc_messages st)))
    \<and> sc_bytes st = int (length (sc_buffer st))"
proof -
  have i: "consumer_inv env (consumer_new aborted)"
    by (simp add: consumer_inv_def consumer_new_def undisturbed_def)
  have "consumer_end env st"
    using assms consume_reads_inv [OF i] inv_end [OF i]
    by (auto simp: consumeSseStream_def split: sum.splits)
  then show ?thesis by (simp add: consumer_end_def undisturbed_def)
qed

theorem sse_stops_after_abort_witness:
  "length (sc_messages (fst (consumeSseStream \<lparr>en_abort = \<lambda>h. length h = 1, en_throw = \<lambda>_. None\<rparr> None False
      [(False, RValue (''data: x'' @ lf_lf @ ''data: y'' @ lf_lf)), (False, RDone)]))) \<le> 1"
proof -
  define env where "env = \<lparr>en_abort = \<lambda>h. length h = 1, en_throw = \<lambda>_. None :: unknown option\<rparr>"
  obtain st r where c: "consumeSseStream env None False
      [(False, RValue (''data: x'' @ lf_lf @ ''data: y'' @ lf_lf)), (False, RDone)] = (st, r)"
    by (meson surj_pair)
  have "\<not> 1 < length (sc_messages st)"
    using sse_stops_after_abort [OF c] by (auto simp: env_def)
  with c show ?thesis by (simp add: env_def)
qed

text \<open>The limit counts separators that have not been completed yet. A stream whose one event is
  exactly as long as the limit is accepted in one read, and rejected when a read ends between the
  two line ends that terminate the event.\<close>

theorem sse_limit_depends_on_reads:
  "snd (consumeSseStream quiet (Some (num 7)) False [(False, RValue (''data: x'' @ lf_lf)), (False, RDone)])
     = Finished
   \<and> snd (consumeSseStream quiet (Some (num 7)) False
        [(False, RValue (''data: x'' @ [CHR 0x0A])), (False, RValue [CHR 0x0A]), (False, RDone)])
     = Failed sse_limit_error"
proof -
  have r: "resolveMaxBufferBytes (Some (num 7)) = Inr 7"
    by (simp add: resolveMaxBufferBytes_def validateLimit_def num_def is_safe_integer_def max_safe_def
        is_int_rat_def)
  have m: "min 7 MAX_DECODE_CHUNK_BYTES = 7" by (simp add: MAX_DECODE_CHUNK_BYTES_def)
  define st1 where "st1 = fst (consume_slices quiet 7 (slices 7 (''data: x'' @ lf_lf)) (consumer_new False))"
  have s1: "snd (consume_slices quiet 7 (slices 7 (''data: x'' @ lf_lf)) (consumer_new False)) = None"
    by code_simp
  have st1: "sc_aborted st1 = False" "sc_buffer st1 = []" "td_flush (sc_decoder st1) = []"
    unfolding st1_def by code_simp+
  have c1: "consume_slices quiet 7 (slices 7 (''data: x'' @ lf_lf)) (consumer_new False) = (st1, None)"
    using s1 by (simp add: st1_def prod_eq_iff)
  have e: "parseSseBlock [] = None" by code_simp
  have s2: "snd (consume_slices quiet 7 (slices 7 (''data: x'' @ [CHR 0x0A])) (consumer_new False)) =
      Some sse_limit_error"
    by code_simp
  show ?thesis
    using c1 st1 s2 e
    by (simp add: consumeSseStream_def r m consumer_new_def [of False, symmetric]
        appendDecoded_def consume_trailing_def hand_over_def split: prod.splits)
      (auto simp: consumer_new_def split: prod.splits option.splits)
qed

end
