(* ===== verification/Backoff.thy ===== *)
theory Backoff
  imports Errors
begin

text \<open>
  The retry machinery of \<open>src/core/transport\<close>: the policy's validation and the delay computation
  of \<open>backoff.ts\<close>, the header merge of \<open>auth.ts\<close>, and the attempt loop and lifecycle listeners of
  \<open>lifecycle.ts\<close>. The loop's environment is an argument: for every attempt what the abort signal,
  the credential resolver, the operation, the clock, the random source and the sleep answer. The
  result pairs the outcome with the trace of what the loop did. Delays are exact rationals.
\<close>

section \<open>Retry policies\<close>

record retry_policy =
  rp_maxAttempts :: jnum
  rp_baseDelayMs :: jnum
  rp_maxDelayMs :: jnum
  rp_jitterRatio :: "jnum option"
  rp_deadlineMs :: "jnum option"

definition validation_failed :: "string \<Rightarrow> unknown" where
  "validation_failed msg = UErr (api_error msg (Some TValidation) (Some ValidationFailed) None)"

definition requireFiniteNonNegative :: "jnum \<Rightarrow> string \<Rightarrow> unknown option" where
  "requireFiniteNonNegative x nm =
     (if \<not> is_finite x \<or> num_lt x (num 0)
      then Some (validation_failed (nm @ '' must be a finite non-negative number'')) else None)"

text \<open>The first check that throws, or nothing.\<close>

fun first_error :: "unknown option list \<Rightarrow> unknown option" where
  "first_error [] = None"
| "first_error (Some e # es) = Some e"
| "first_error (None # es) = first_error es"

definition jitter_of :: "retry_policy \<Rightarrow> jnum" where
  "jitter_of p = (case rp_jitterRatio p of Some j \<Rightarrow> j | None \<Rightarrow> num 0)"

definition validateTransportRetryPolicy :: "retry_policy \<Rightarrow> unknown option" where
  "validateTransportRetryPolicy p =
     first_error
       [if \<not> is_integer (rp_maxAttempts p) \<or> num_lt (rp_maxAttempts p) (num 1)
        then Some (validation_failed ''maxAttempts must be a positive integer'') else None,
        requireFiniteNonNegative (rp_baseDelayMs p) ''baseDelayMs'',
        requireFiniteNonNegative (rp_maxDelayMs p) ''maxDelayMs'',
        if num_lt (rp_maxDelayMs p) (rp_baseDelayMs p)
        then Some (validation_failed ''maxDelayMs must be at least baseDelayMs'') else None,
        if \<not> is_finite (jitter_of p) \<or> num_lt (jitter_of p) (num 0) \<or> num_lt (num 1) (jitter_of p)
        then Some (validation_failed ''jitterRatio must be between 0 and 1'') else None,
        (case rp_deadlineMs p of Some d \<Rightarrow> requireFiniteNonNegative d ''deadlineMs'' | None \<Rightarrow> None)]"

definition requested_delay :: "retry_policy \<Rightarrow> rat \<Rightarrow> rat \<Rightarrow> jnum option \<Rightarrow> rat" where
  "requested_delay p attempt random retryAfterMs =
     (let exponential = min (num_val (rp_maxDelayMs p)) (num_val (rp_baseDelayMs p) * 2 ^ nat (\<lfloor>attempt\<rfloor> - 1));
          jittered = exponential * (1 + (random * 2 - 1) * num_val (jitter_of p))
      in case retryAfterMs of
           Some x \<Rightarrow> if is_finite x then max jittered (max 0 (num_val x)) else jittered
         | None \<Rightarrow> jittered)"

definition computeBackoffDelay :: "retry_policy \<Rightarrow> jnum \<Rightarrow> jnum \<Rightarrow> jnum option \<Rightarrow> unknown + int" where
  "computeBackoffDelay p attempt random retryAfterMs =
     (case validateTransportRetryPolicy p of
        Some e \<Rightarrow> Inl e
      | None \<Rightarrow>
          if \<not> is_integer attempt \<or> num_lt attempt (num 1)
          then Inl (validation_failed ''attempt must be a positive integer'')
          else if \<not> is_finite random \<or> num_lt random (num 0) \<or> num_lt (num 1) random
          then Inl (validation_failed ''random must be between 0 and 1'')
          else Inr (round_half_up (min (num_val (rp_maxDelayMs p))
                 (max 0 (requested_delay p (num_val attempt) (num_val random) retryAfterMs)))))"

definition abortedError :: "unknown option \<Rightarrow> unknown" where
  "abortedError cause = UErr (api_error ''Operation aborted'' (Some TAbort) (Some Aborted) cause)"

text \<open>\<open>signal?.reason ?? cause\<close>; the reason is undefined until the signal aborts.\<close>

definition normalizeTransportAbort :: "unknown option \<Rightarrow> unknown option \<Rightarrow> unknown" where
  "normalizeTransportAbort reason cause =
     abortedError (case reason of
         Some (UVal v) \<Rightarrow> if nullish v then cause else reason
       | Some (UErr _) \<Rightarrow> reason
       | None \<Rightarrow> cause)"

section \<open>Headers\<close>

definition same_header :: "string \<Rightarrow> string \<Rightarrow> bool" where
  "same_header a b = (to_lower a = to_lower b)"

text \<open>Setting a header drops the first name that differs from it only in case.\<close>

definition put_header :: "string \<times> string \<Rightarrow> (string, string) omap \<Rightarrow> (string, string) omap" where
  "put_header h headers =
     (case find (\<lambda>c. same_header c (fst h)) (map fst headers) of
        Some previous \<Rightarrow> om_set (fst h) (snd h) (om_del previous headers)
      | None \<Rightarrow> om_set (fst h) (snd h) headers)"

definition resolveTransportHeaders ::
  "(string, string) omap \<Rightarrow> (string, string) omap option \<Rightarrow> (string, string) omap" where
  "resolveTransportHeaders defaults auth =
     fold put_header (defaults @ (case auth of Some h \<Rightarrow> h | None \<Rightarrow> [])) []"

section \<open>The attempt loop\<close>

datatype safety = SRead | SIdempotent | SConnection | SMutation

datatype lifecycle_state = LConnecting | LConnected | LRetrying | LReconnected | LClosed

record lifecycle_event =
  le_state :: lifecycle_state
  le_kind :: TransportKind
  le_operation :: string
  le_attempt :: int
  le_delayMs :: "int option"

text \<open>What the environment answers during one attempt, in the order the loop asks.\<close>

record 'a attempt_env =
  ae_aborted_before :: bool
  ae_auth :: "unknown + (string, string) omap option"
  ae_aborted_auth :: bool
  ae_execute :: "unknown + 'a"
  ae_aborted_after :: bool
  ae_random :: jnum
  ae_now :: rat
  ae_sleep :: "unknown option"
  ae_aborted_sleep :: bool

record attempt_options =
  ao_kind :: TransportKind
  ao_operation :: string
  ao_safety :: safety
  ao_policy :: retry_policy
  ao_headers :: "(string, string) omap"
  ao_reason :: "unknown option"

datatype attempt_event =
    Execute int "(string, string) omap"
  | Emit lifecycle_event
  | Sleep int int

definition auth_failed :: "attempt_options \<Rightarrow> int \<Rightarrow> unknown" where
  "auth_failed o' attempt =
     UErr (TransportError ''Transport authentication failed''
       (plain_meta (ao_kind o') PAuthenticate (ao_operation o') False attempt) None)"

text \<open>The \<open>try\<close> part: what it did, and the value or the error its \<open>catch\<close> sees.\<close>

definition attempt_try ::
  "attempt_options \<Rightarrow> 'a attempt_env \<Rightarrow> int \<Rightarrow> attempt_event list \<times> (unknown + 'a)" where
  "attempt_try o' e attempt =
     (case ae_auth e of
        Inl err \<Rightarrow>
          ([], Inl (if isAbortError err then normalizeTransportAbort (ao_reason o') (Some err)
                    else auth_failed o' attempt))
      | Inr auth \<Rightarrow>
          if ae_aborted_auth e then ([], Inl (normalizeTransportAbort (ao_reason o') None))
          else ([Execute attempt (resolveTransportHeaders (ao_headers o') auth)], ae_execute e))"

text \<open>The \<open>catch\<close> part: the error to throw, or the delay to sleep before the next attempt.\<close>

definition attempt_catch ::
  "attempt_options \<Rightarrow> 'a attempt_env \<Rightarrow> rat \<Rightarrow> int \<Rightarrow> unknown \<Rightarrow> unknown + int" where
  "attempt_catch o' e startedAt attempt err =
     (if ae_aborted_after e \<or> isAbortError err
      then Inl (normalizeTransportAbort (ao_reason o') (Some err))
      else
        (case getTransportErrorMetadata err of
           None \<Rightarrow> Inl err
         | Some m \<Rightarrow>
             if ao_safety o' = SMutation \<or> \<not> tm_retryable m
               \<or> of_int attempt \<ge> num_val (rp_maxAttempts (ao_policy o'))
             then Inl err
             else
               (case computeBackoffDelay (ao_policy o') (num attempt) (ae_random e)
                       (map_option Fin (tm_retryAfterMs m)) of
                  Inl err' \<Rightarrow> Inl err'
                | Inr delayMs \<Rightarrow>
                    if (case rp_deadlineMs (ao_policy o') of
                          Some d \<Rightarrow> ae_now e - startedAt + of_int delayMs > num_val d
                        | None \<Rightarrow> False)
                    then Inl err else Inr delayMs)))"

definition attempts_exhausted :: unknown where
  "attempts_exhausted =
     UErr (api_error ''Transport attempts exhausted'' (Some TTransport) (Some TransportUnavailable) None)"

definition retrying_event :: "attempt_options \<Rightarrow> int \<Rightarrow> int \<Rightarrow> lifecycle_event" where
  "retrying_event o' attempt delayMs =
     \<lparr>le_state = LRetrying, le_kind = ao_kind o', le_operation = ao_operation o',
      le_attempt = attempt, le_delayMs = Some delayMs\<rparr>"

function attempts_from ::
  "attempt_options \<Rightarrow> (int \<Rightarrow> 'a attempt_env) \<Rightarrow> rat \<Rightarrow> int \<Rightarrow> attempt_event list \<times> (unknown + 'a)" where
  "attempts_from o' env startedAt attempt =
     (let e = env attempt in
      if of_int attempt > num_val (rp_maxAttempts (ao_policy o')) then ([], Inl attempts_exhausted)
      else if ae_aborted_before e then ([], Inl (normalizeTransportAbort (ao_reason o') None))
      else
        (case attempt_try o' e attempt of
           (tr, Inr x) \<Rightarrow> (tr, Inr x)
         | (tr, Inl err) \<Rightarrow>
             (case attempt_catch o' e startedAt attempt err of
                Inl err' \<Rightarrow> (tr, Inl err')
              | Inr delayMs \<Rightarrow>
                  let tr' = tr @ [Emit (retrying_event o' attempt delayMs), Sleep attempt delayMs] in
                  (case ae_sleep e of
                     Some serr \<Rightarrow>
                       (tr', Inl (if ae_aborted_sleep e \<or> isAbortError serr
                                  then normalizeTransportAbort (ao_reason o') (Some serr) else serr))
                   | None \<Rightarrow>
                       (case attempts_from o' env startedAt (attempt + 1) of
                          (tr'', r) \<Rightarrow> (tr' @ tr'', r))))))"
  by pat_completeness auto
termination
  by (relation "measure (\<lambda>(o', env, s, a). nat (\<lfloor>num_val (rp_maxAttempts (ao_policy o'))\<rfloor> + 1 - a))")
    (auto simp: not_less le_floor_iff)

declare attempts_from.simps [simp del]

definition runTransportAttempts ::
  "attempt_options \<Rightarrow> (int \<Rightarrow> 'a attempt_env) \<Rightarrow> rat \<Rightarrow> attempt_event list \<times> (unknown + 'a)" where
  "runTransportAttempts o' env startedAt =
     (case validateTransportRetryPolicy (ao_policy o') of
        Some e \<Rightarrow> ([], Inl e)
      | None \<Rightarrow> attempts_from o' env startedAt 1)"

section \<open>Lifecycle listeners\<close>

text \<open>
  Listeners are numbered; \<open>emit\<close> calls each of a snapshot once, in the order they subscribed, and
  what a listener throws is swallowed, so it is not part of the result.
\<close>

definition lifecycle_new :: "nat option \<Rightarrow> nat list" where
  "lifecycle_new l = (case l of Some x \<Rightarrow> [x] | None \<Rightarrow> [])"

definition lifecycle_emit :: "nat list \<Rightarrow> lifecycle_event \<Rightarrow> (nat \<times> lifecycle_event) list" where
  "lifecycle_emit listeners ev = map (\<lambda>l. (l, ev)) listeners"

definition lifecycle_subscribe :: "nat \<Rightarrow> nat list \<Rightarrow> nat list" where
  "lifecycle_subscribe l listeners = os_add l listeners"

definition lifecycle_unsubscribe :: "nat \<Rightarrow> nat list \<Rightarrow> nat list" where
  "lifecycle_unsubscribe l listeners = removeAll l listeners"

section \<open>Facts on policies and delays\<close>

lemma first_error_None: "first_error es = None \<longleftrightarrow> (\<forall>e \<in> set es. e = None)"
  by (induction es rule: first_error.induct) auto

lemma requireFiniteNonNegative_None:
  "requireFiniteNonNegative x nm = None \<longleftrightarrow> (\<exists>q. x = Fin q \<and> 0 \<le> q)"
  by (cases x) (auto simp: requireFiniteNonNegative_def num_def is_finite_def)

text \<open>What a validated policy satisfies.\<close>

definition policy_ok :: "retry_policy \<Rightarrow> bool" where
  "policy_ok p =
     (\<exists>n b m j. rp_maxAttempts p = Fin (of_int n) \<and> 1 \<le> n \<and> rp_baseDelayMs p = Fin b \<and> 0 \<le> b
        \<and> rp_maxDelayMs p = Fin m \<and> b \<le> m \<and> jitter_of p = Fin j \<and> 0 \<le> j \<and> j \<le> 1
        \<and> (case rp_deadlineMs p of Some d \<Rightarrow> \<exists>q. d = Fin q \<and> 0 \<le> q | None \<Rightarrow> True))"

lemma validate_policy: "validateTransportRetryPolicy p = None \<Longrightarrow> policy_ok p"
  unfolding validateTransportRetryPolicy_def first_error_None policy_ok_def
  by (cases "rp_maxAttempts p"; cases "jitter_of p")
    (auto simp: requireFiniteNonNegative_None is_integer_def is_int_rat_iff num_def not_less is_finite_def
      split: if_splits option.splits)

lemma requested_delay_after: "q \<le> requested_delay p a r (Some (Fin q))"
  by (simp add: requested_delay_def Let_def)

lemma requested_delay_plain:
  "jitter_of p = num 0 \<Longrightarrow> requested_delay p a r None =
     min (num_val (rp_maxDelayMs p)) (num_val (rp_baseDelayMs p) * 2 ^ nat (\<lfloor>a\<rfloor> - 1))"
  by (simp add: requested_delay_def Let_def num_def)

lemma computeBackoffDelay_Inr:
  assumes "computeBackoffDelay p a r ra = Inr d"
  shows "policy_ok p" and "d = round_half_up (min (num_val (rp_maxDelayMs p))
                 (max 0 (requested_delay p (num_val a) (num_val r) ra)))"
  using assms validate_policy [of p]
  by (auto simp: computeBackoffDelay_def split: if_splits option.splits)

lemma round_half_up_ge: "q \<le> x \<Longrightarrow> round_half_up q \<le> round_half_up x"
  by (rule round_half_up_mono)

section \<open>Facts on headers\<close>

definition headers_ok :: "(string, string) omap \<Rightarrow> bool" where
  "headers_ok hs = distinct (map to_lower (map fst hs))"

text \<open>Lookup of a header name, whatever its case.\<close>

definition header_value :: "(string, string) omap \<Rightarrow> string \<Rightarrow> string option" where
  "header_value hs nm = map_option snd (find (\<lambda>h. same_header (fst h) nm) hs)"

lemma headers_ok_om_ok: "headers_ok hs \<Longrightarrow> om_ok hs"
  by (metis headers_ok_def om_ok_def distinct_map)

lemma del_header:
  assumes "headers_ok hs" and "p \<in> fst ` set hs"
  shows "om_del p hs = filter (\<lambda>h. to_lower (fst h) \<noteq> to_lower p) hs"
proof -
  have "h \<in> set hs \<Longrightarrow> to_lower (fst h) = to_lower p \<longleftrightarrow> fst h = p" for h
    using assms by (auto simp: headers_ok_def distinct_map inj_on_def)
  then have "filter (\<lambda>h. fst h \<noteq> p) hs = filter (\<lambda>h. to_lower (fst h) \<noteq> to_lower p) hs"
    by (intro filter_cong) auto
  moreover have "om_del p hs = filter (\<lambda>h. fst h \<noteq> p) hs"
    by (auto simp: AList.delete_eq intro!: filter_cong)
  ultimately show ?thesis by simp
qed

text \<open>With names distinct up to case, setting a header replaces its value and moves it last.\<close>

lemma put_header_eq:
  assumes "headers_ok hs"
  shows "put_header h hs = filter (\<lambda>x. to_lower (fst x) \<noteq> to_lower (fst h)) hs @ [h]"
proof (cases "find (\<lambda>c. same_header c (fst h)) (map fst hs)")
  case None
  then have n: "\<forall>x \<in> set hs. to_lower (fst x) \<noteq> to_lower (fst h)"
    by (auto simp: find_None_iff same_header_def)
  then have "\<not> om_has hs (fst h)" by (auto simp: om_has_iff)
  with None n show ?thesis by (simp add: put_header_def om_set_fresh filter_id_conv)
next
  case (Some p)
  then have p: "p \<in> fst ` set hs" "to_lower p = to_lower (fst h)"
    by (auto simp: find_Some_iff same_header_def)
  have "om_del p hs = filter (\<lambda>x. to_lower (fst x) \<noteq> to_lower (fst h)) hs"
    using del_header [OF assms p(1)] p(2) by simp
  moreover from this have "\<not> om_has (om_del p hs) (fst h)" by (auto simp: om_has_iff)
  ultimately show ?thesis using Some by (simp add: put_header_def om_set_fresh)
qed

lemma put_header_ok: "headers_ok hs \<Longrightarrow> headers_ok (put_header h hs)"
  by (auto simp: put_header_eq headers_ok_def distinct_map comp_def inj_on_def intro: distinct_filter)

lemma find_append: "find P (xs @ ys) = (case find P xs of Some x \<Rightarrow> Some x | None \<Rightarrow> find P ys)"
  by (induction xs) auto

lemma find_filter: "find P (filter Q xs) = find (\<lambda>x. Q x \<and> P x) xs"
  by (induction xs) auto

lemma header_value_put:
  assumes "headers_ok hs"
  shows "header_value (put_header h hs) nm =
     (if same_header (fst h) nm then Some (snd h) else header_value hs nm)"
proof (cases "same_header (fst h) nm")
  case True
  then have "find (\<lambda>x. to_lower (fst x) \<noteq> to_lower (fst h) \<and> same_header (fst x) nm) hs = None"
    by (auto simp: find_None_iff same_header_def)
  with True show ?thesis
    by (simp add: header_value_def put_header_eq [OF assms] find_append find_filter)
next
  case False
  then have "find (\<lambda>x. to_lower (fst x) \<noteq> to_lower (fst h) \<and> same_header (fst x) nm) hs =
      find (\<lambda>x. same_header (fst x) nm) hs"
    by (intro find_cong) (auto simp: same_header_def)
  with False show ?thesis
    by (auto simp: header_value_def put_header_eq [OF assms] find_append find_filter split: option.splits)
qed

lemma fold_put_header:
  "headers_ok acc \<Longrightarrow> headers_ok (fold put_header hs acc)
   \<and> header_value (fold put_header hs acc) nm =
       (case find (\<lambda>h. same_header (fst h) nm) (rev hs) of
          Some h \<Rightarrow> Some (snd h) | None \<Rightarrow> header_value acc nm)"
proof (induction hs arbitrary: acc)
  case (Cons h hs)
  from Cons.IH [OF put_header_ok [OF Cons.prems, of h]] show ?case
    by (auto simp: find_append header_value_put [OF Cons.prems] split: option.splits)
qed simp

section \<open>Facts on the attempt loop\<close>

text \<open>The attempts whose operation was executed, in order.\<close>

definition executed :: "attempt_event list \<Rightarrow> int list" where
  "executed tr = List.map_filter (\<lambda>ev. case ev of Execute a _ \<Rightarrow> Some a | _ \<Rightarrow> None) tr"

definition slept :: "attempt_event list \<Rightarrow> (int \<times> int) list" where
  "slept tr = List.map_filter (\<lambda>ev. case ev of Sleep a d \<Rightarrow> Some (a, d) | _ \<Rightarrow> None) tr"

lemma executed_simps [simp]:
  "executed [] = []" "executed (Execute a h # tr) = a # executed tr"
  "executed (Emit ev # tr) = executed tr" "executed (Sleep a d # tr) = executed tr"
  "executed (tr @ tr') = executed tr @ executed tr'"
  by (simp_all add: executed_def map_filter_simps map_filter_def)

lemma slept_simps [simp]:
  "slept [] = []" "slept (Execute a h # tr) = slept tr"
  "slept (Emit ev # tr) = slept tr" "slept (Sleep a d # tr) = (a, d) # slept tr"
  "slept (tr @ tr') = slept tr @ slept tr'"
  by (simp_all add: slept_def map_filter_simps map_filter_def)

text \<open>Why an attempt may be followed by another one.\<close>

definition may_retry :: "attempt_options \<Rightarrow> 'a attempt_env \<Rightarrow> rat \<Rightarrow> int \<Rightarrow> int \<Rightarrow> bool" where
  "may_retry o' e startedAt attempt delayMs =
     (ao_safety o' \<noteq> SMutation \<and> \<not> ae_aborted_after e \<and>
      of_int attempt < num_val (rp_maxAttempts (ao_policy o')) \<and>
      (\<exists>err m. ae_execute e = Inl err \<and> \<not> isAbortError err \<and> getTransportErrorMetadata err = Some m
         \<and> tm_retryable m
         \<and> computeBackoffDelay (ao_policy o') (num attempt) (ae_random e)
             (map_option Fin (tm_retryAfterMs m)) = Inr delayMs) \<and>
      (case rp_deadlineMs (ao_policy o') of
         Some d \<Rightarrow> ae_now e - startedAt + of_int delayMs \<le> num_val d | None \<Rightarrow> True))"

lemma auth_failed_meta: "getTransportErrorMetadata (auth_failed o' a) = Some m \<Longrightarrow> \<not> tm_retryable m"
proof -
  assume g: "getTransportErrorMetadata (auth_failed o' a) = Some m"
  have "err_prop (auth_failed o' a) ''transport'' =
      meta_object (plain_meta (ao_kind o') PAuthenticate (ao_operation o') False a)"
    by (simp add: auth_failed_def)
  with g show "\<not> tm_retryable m"
    by (auto simp: getTransportErrorMetadata_def Let_def meta_object_props plain_meta_def asBoolean_def
        split: if_splits option.splits)
qed

lemma normalizeTransportAbort_abort [simp]: "isAbortError (normalizeTransportAbort r c)"
  by (simp add: normalizeTransportAbort_def abortedError_def isAbortError_def getErrorType_def
      readStringProperty_def isErrRecord_def api_error_def type_text_def trim_graph graph_char_def)

lemma attempt_try_cases:
  assumes "attempt_try o' e a = (tr, r)"
  shows "(tr = [] \<and> (\<exists>err. r = Inl err
            \<and> (isAbortError err \<or> err = auth_failed o' a)))
       \<or> ((\<exists>h. tr = [Execute a h]) \<and> r = ae_execute e)"
  using assms by (auto simp: attempt_try_def split: sum.splits if_splits)

lemma attempt_catch_Inr:
  assumes "attempt_try o' e a = (tr, Inl err)" and "attempt_catch o' e s a err = Inr d"
  shows "\<exists>h. tr = [Execute a h] \<and> may_retry o' e s a d"
proof -
  have n: "\<not> isAbortError err" "\<not> ae_aborted_after e"
    and m: "\<exists>m. getTransportErrorMetadata err = Some m \<and> tm_retryable m
      \<and> computeBackoffDelay (ao_policy o') (num a) (ae_random e) (map_option Fin (tm_retryAfterMs m)) = Inr d"
    and r: "ao_safety o' \<noteq> SMutation" "of_int a < num_val (rp_maxAttempts (ao_policy o'))"
    "case rp_deadlineMs (ao_policy o') of Some d' \<Rightarrow> ae_now e - s + of_int d \<le> num_val d' | None \<Rightarrow> True"
    using assms(2) by (auto simp: attempt_catch_def not_less split: if_splits option.splits sum.splits)
  from m auth_failed_meta [of o' a] have "err \<noteq> auth_failed o' a" by auto
  with attempt_try_cases [OF assms(1)] n(1) have "\<exists>h. tr = [Execute a h] \<and> ae_execute e = Inl err"
    by auto
  with n m r show ?thesis by (auto simp: may_retry_def)
qed

text \<open>The loop from one attempt on.\<close>

lemma attempts_from_spec:
  assumes "attempts_from o' env s a = (tr, r)"
  shows "(\<exists>k. executed tr = [a..k] \<and> (k < a \<or> of_int k \<le> num_val (rp_maxAttempts (ao_policy o')))
      \<and> (\<forall>x. r = Inr x \<longrightarrow> a \<le> k \<and> ae_execute (env k) = Inr x)
      \<and> (\<forall>j. a \<le> j \<and> j < k \<longrightarrow> (\<exists>d. (j, d) \<in> set (slept tr)))
      \<and> (\<forall>j \<in> set (executed tr). \<not> ae_aborted_before (env j)))
    \<and> (\<forall>(j, d) \<in> set (slept tr). a \<le> j \<and> may_retry o' (env j) s j d)"
  using assms
proof (induction o' env s a arbitrary: tr r rule: attempts_from.induct)
  case (1 o' env s a)
  define e where "e = env a"
  note unf = attempts_from.simps [of o' env s a, unfolded Let_def, folded e_def]
  have emp: "[a..a - 1] = []" by simp
  show ?case
  proof (cases "of_int a > num_val (rp_maxAttempts (ao_policy o')) \<or> ae_aborted_before e")
    case True
    then have "tr = [] \<and> (\<exists>err. r = Inl err)"
      using "1.prems" by (auto simp: unf split: if_splits)
    then show ?thesis by (auto intro!: exI [of _ "a - 1"])
  next
    case False
    then have le: "\<not> of_int a > num_val (rp_maxAttempts (ao_policy o'))" and nb: "\<not> ae_aborted_before e"
      by auto
    obtain tr1 r1 where t: "attempt_try o' e a = (tr1, r1)" by (cases "attempt_try o' e a")
    from attempt_try_cases [OF t] have ex: "executed tr1 = [] \<or> executed tr1 = [a]" and sl: "slept tr1 = []"
      by auto
    show ?thesis
    proof (cases r1)
      case (Inr x)
      with attempt_try_cases [OF t] have "executed tr1 = [a]" "ae_execute e = Inr x" by auto
      moreover have "tr = tr1 \<and> r = Inr x" using "1.prems" le nb t Inr by (simp add: unf)
      ultimately show ?thesis using le nb sl by (auto intro!: exI [of _ a] simp: e_def)
    next
      case (Inl err)
      show ?thesis
      proof (cases "attempt_catch o' e s a err")
        case (Inl err')
        then have "tr = tr1 \<and> r = Inl err'" using "1.prems" le nb t \<open>r1 = Inl err\<close> by (simp add: unf)
        then show ?thesis using ex le nb sl
          using emp by (auto simp: e_def intro: exI [of _ "a - 1"] exI [of _ a])
      next
        case (Inr d)
        from attempt_catch_Inr [OF t [unfolded \<open>r1 = Inl err\<close>] Inr]
        have ex1: "executed tr1 = [a]" and may: "may_retry o' e s a d" by auto
        define tr' where "tr' = tr1 @ [Emit (retrying_event o' a d), Sleep a d]"
        have tr': "executed tr' = [a]" "slept tr' = [(a, d)]"
          by (simp_all add: tr'_def ex1 sl)
        show ?thesis
        proof (cases "ae_sleep e")
          case (Some serr)
          then have "tr = tr' \<and> (\<exists>err. r = Inl err)"
            using "1.prems" le nb t \<open>r1 = Inl err\<close> Inr by (auto simp: unf tr'_def)
          then show ?thesis using tr' may le nb by (auto intro!: exI [of _ a] simp: e_def)
        next
          case None
          obtain tr2 r2 where rec: "attempts_from o' env s (a + 1) = (tr2, r2)"
            by (cases "attempts_from o' env s (a + 1)")
          then have tr: "tr = tr' @ tr2" "r = r2"
            using "1.prems" le nb t \<open>r1 = Inl err\<close> Inr None by (auto simp: unf tr'_def)
          from "1.IH" [OF refl le nb [unfolded e_def] t [unfolded e_def, symmetric] \<open>r1 = Inl err\<close>
              Inr [unfolded e_def] refl None [unfolded e_def] rec]
          obtain k where k: "executed tr2 = [a + 1..k]"
            "k < a + 1 \<or> of_int k \<le> num_val (rp_maxAttempts (ao_policy o'))"
            "\<forall>x. r2 = Inr x \<longrightarrow> a + 1 \<le> k \<and> ae_execute (env k) = Inr x"
            "\<forall>j. a + 1 \<le> j \<and> j < k \<longrightarrow> (\<exists>d. (j, d) \<in> set (slept tr2))"
            "\<forall>j \<in> set (executed tr2). \<not> ae_aborted_before (env j)"
            and s2: "\<forall>(j, d) \<in> set (slept tr2). a + 1 \<le> j \<and> may_retry o' (env j) s j d"
            by blast
          define k' where "k' = max a k"
          have ek: "executed tr = [a..k']"
            using k(1) tr' tr by (cases "k \<le> a") (auto simp: k'_def upto_rec1 [of a])
          have b: "k' < a \<or> of_int k' \<le> num_val (rp_maxAttempts (ao_policy o'))"
            using k(2) le by (auto simp: k'_def max_def)
          have sl': "\<exists>d. (j, d) \<in> set (slept tr)" if "a \<le> j \<and> j < k'" for j
            using that k(4) tr' tr by (cases "j = a") (auto simp: k'_def)
          have ab: "\<forall>j \<in> set (executed tr). \<not> ae_aborted_before (env j)"
            using k(5) tr' tr nb by (auto simp: e_def)
          have v: "\<forall>x. r = Inr x \<longrightarrow> a \<le> k' \<and> ae_execute (env k') = Inr x"
            using k(3) tr by (auto simp: k'_def max_def)
          have s: "\<forall>(j, d) \<in> set (slept tr). a \<le> j \<and> may_retry o' (env j) s j d"
            using s2 tr' tr may by (force simp: e_def)
          show ?thesis using ek b sl' ab v s by blast
        qed
      qed
    qed
  qed
qed

section \<open>Properties\<close>

definition wit_policy :: retry_policy where
  "wit_policy = \<lparr>rp_maxAttempts = num 3, rp_baseDelayMs = num 10, rp_maxDelayMs = num 100,
     rp_jitterRatio = None, rp_deadlineMs = None\<rparr>"

definition wit_options :: attempt_options where
  "wit_options = \<lparr>ao_kind = KHttp, ao_operation = ''get'', ao_safety = SRead, ao_policy = wit_policy,
     ao_headers = [], ao_reason = None\<rparr>"

definition wit_env :: "int \<Rightarrow> nat attempt_env" where
  "wit_env a = \<lparr>ae_aborted_before = False, ae_auth = Inr None, ae_aborted_auth = False,
     ae_execute = (if a = 1 then Inl (UErr (TransportError [] (plain_meta KHttp PConnect ''get'' True a) None))
                   else Inr 7),
     ae_aborted_after = False, ae_random = num 0, ae_now = 0, ae_sleep = None, ae_aborted_sleep = False\<rparr>"


lemma wit_run: "runTransportAttempts wit_options wit_env 0 =
  ([Execute 1 [], Emit (retrying_event wit_options 1 10), Sleep 1 10, Execute 2 []], Inr 7)"
proof -
  have v: "validateTransportRetryPolicy wit_policy = None" by code_simp
  have d: "computeBackoffDelay wit_policy (num 1) (num 0) None = Inr 10" by code_simp
  have h: "resolveTransportHeaders [] None = []" by (simp add: resolveTransportHeaders_def)
  have m: "getTransportErrorMetadata (UErr (TransportError [] (plain_meta KHttp PConnect ''get'' True 1) None)) =
      Some (plain_meta KHttp PConnect ''get'' True 1)"
    by (intro TransportError_metadata plain_meta_ok) (simp_all add: trim_graph graph_char_def)
  have num3: "num_val (num 3) = 3" by (simp add: num_def)
  have x: "num_val (rp_maxAttempts wit_policy) = 3" by (simp add: wit_policy_def num_def)
  have "attempts_from wit_options wit_env 0 2 = ([Execute 2 []], Inr 7)"
    by (subst attempts_from.simps)
      (simp add: wit_env_def wit_options_def Let_def x attempt_try_def h)
  then have "attempts_from wit_options wit_env 0 1 =
      ([Execute 1 [], Emit (retrying_event wit_options 1 10), Sleep 1 10, Execute 2 []], Inr 7)"
    using m d by (subst attempts_from.simps)
      (simp add: wit_env_def wit_options_def Let_def x attempt_try_def attempt_catch_def h plain_meta_def
        wit_policy_def num3)
  with v show ?thesis by (simp add: runTransportAttempts_def wit_options_def)
qed
text \<open>Delay bounds. A computed delay is a non-negative integer, at most the rounded maximum; it is
  never below a finite retry-after request capped by the maximum; and without jitter or request it
  is the exponential delay capped by the maximum, rounded.\<close>

theorem backoff_delay_bounds:
  assumes "computeBackoffDelay p a r ra = Inr d"
  shows "0 \<le> d \<and> d \<le> round_half_up (num_val (rp_maxDelayMs p))
    \<and> (\<forall>q. ra = Some (Fin q) \<longrightarrow> round_half_up (min (num_val (rp_maxDelayMs p)) q) \<le> d)
    \<and> (jitter_of p = num 0 \<and> ra = None \<longrightarrow>
         d = round_half_up (min (num_val (rp_maxDelayMs p))
               (num_val (rp_baseDelayMs p) * 2 ^ nat (\<lfloor>num_val a\<rfloor> - 1))))"
proof -
  define x where "x = requested_delay p (num_val a) (num_val r) ra"
  obtain b m where bm: "rp_baseDelayMs p = Fin b" "0 \<le> b" "rp_maxDelayMs p = Fin m" "b \<le> m"
    using computeBackoffDelay_Inr(1) [OF assms] by (auto simp: policy_ok_def)
  have d: "d = round_half_up (min m (max 0 x))"
    using computeBackoffDelay_Inr(2) [OF assms] by (simp add: x_def bm)
  have "0 \<le> min m (max 0 x)" using bm by simp
  then have "0 \<le> d" unfolding d by (rule round_half_up_nonneg)
  moreover have "d \<le> round_half_up m" unfolding d by (intro round_half_up_mono) simp
  moreover have "round_half_up (min m q) \<le> d" if "ra = Some (Fin q)" for q
    using requested_delay_after [of q p "num_val a" "num_val r"] that unfolding d x_def
    by (intro round_half_up_mono) auto
  moreover have "d = round_half_up (min m (b * 2 ^ nat (\<lfloor>num_val a\<rfloor> - 1)))"
    if "jitter_of p = num 0 \<and> ra = None"
  proof -
    have "x = min m (b * 2 ^ nat (\<lfloor>num_val a\<rfloor> - 1))"
      using that requested_delay_plain [of p "num_val a" "num_val r"] by (simp add: x_def bm)
    with bm show ?thesis unfolding d by (simp add: max_absorb2)
  qed
  ultimately show ?thesis by (simp add: bm)
qed

theorem backoff_delay_bounds_witness:
  "computeBackoffDelay wit_policy (num 2) (num 0) None = Inr 20 \<and> (20 :: int) \<le> round_half_up 100"
proof -
  have c: "computeBackoffDelay wit_policy (num 2) (num 0) None = Inr 20" by code_simp
  have m: "num_val (rp_maxDelayMs wit_policy) = 100" by (simp add: wit_policy_def num_def)
  from backoff_delay_bounds [OF c] c show ?thesis by (simp add: m)
qed

text \<open>The loop as a whole.\<close>

lemma attempts_spec:
  assumes "runTransportAttempts o' env s = (tr, r)"
  shows "\<exists>k. executed tr = [1..k]
    \<and> (k \<le> 0 \<or> of_int k \<le> num_val (rp_maxAttempts (ao_policy o')))
    \<and> (ao_safety o' = SMutation \<longrightarrow> k \<le> 1)
    \<and> (\<forall>x. r = Inr x \<longrightarrow> 1 \<le> k \<and> ae_execute (env k) = Inr x)
    \<and> (\<forall>j. 1 \<le> j \<and> j < k \<longrightarrow> (\<exists>d. (j, d) \<in> set (slept tr)))
    \<and> (\<forall>(j, d) \<in> set (slept tr). 1 \<le> j \<and> may_retry o' (env j) s j d)"
proof (cases "validateTransportRetryPolicy (ao_policy o')")
  case (Some e)
  with assms show ?thesis by (auto simp: runTransportAttempts_def intro!: exI [of _ 0])
next
  case None
  with assms have "attempts_from o' env s 1 = (tr, r)" by (simp add: runTransportAttempts_def)
  from attempts_from_spec [OF this] obtain k where k: "executed tr = [1..k]"
    "k < 1 \<or> of_int k \<le> num_val (rp_maxAttempts (ao_policy o'))"
    "\<forall>x. r = Inr x \<longrightarrow> 1 \<le> k \<and> ae_execute (env k) = Inr x"
    "\<forall>j. 1 \<le> j \<and> j < k \<longrightarrow> (\<exists>d. (j, d) \<in> set (slept tr))"
    "\<forall>(j, d) \<in> set (slept tr). 1 \<le> j \<and> may_retry o' (env j) s j d"
    by blast
  have "k \<le> 1" if "ao_safety o' = SMutation"
  proof (rule ccontr)
    assume "\<not> k \<le> 1"
    with k(4) obtain d where "(1, d) \<in> set (slept tr)" by force
    with k(5) that show False by (auto simp: may_retry_def)
  qed
  with k show ?thesis by (intro exI [of _ k]) auto
qed

text \<open>Retry discipline. The operation is executed for attempts 1 to k in order, never more often
  than the policy allows and at most once for a mutation; every attempt but the last was followed
  by a sleep that its own transport error, the policy and the deadline permitted; and a result is
  the result of the last executed attempt.\<close>

theorem attempts_disciplined:
  assumes "runTransportAttempts o' env s = (tr, r)"
  shows "\<exists>k. executed tr = [1..k]
    \<and> (k \<le> 0 \<or> of_int k \<le> num_val (rp_maxAttempts (ao_policy o')))
    \<and> (ao_safety o' = SMutation \<longrightarrow> k \<le> 1)
    \<and> (\<forall>x. r = Inr x \<longrightarrow> 1 \<le> k \<and> ae_execute (env k) = Inr x)
    \<and> (\<forall>j. 1 \<le> j \<and> j < k \<longrightarrow> (\<exists>d. (j, d) \<in> set (slept tr)))
    \<and> (\<forall>(j, d) \<in> set (slept tr). may_retry o' (env j) s j d)"
  using attempts_spec [OF assms] by blast

theorem attempts_disciplined_witness:
  "\<exists>k. executed (fst (runTransportAttempts wit_options wit_env 0)) = [1..k] \<and> 1 \<le> k
     \<and> ae_execute (wit_env k) = Inr 7"
  using attempts_disciplined [OF wit_run] by (auto simp: wit_run)

text \<open>Header precedence. The resolved headers have no two names that differ only in case, and a name
  has the value the credential resolver gave it last, or else the last of the defaults.\<close>

theorem resolved_headers_precedence:
  "distinct (map to_lower (map fst (resolveTransportHeaders defaults auth)))
   \<and> header_value (resolveTransportHeaders defaults auth) nm =
       (case find (\<lambda>h. same_header (fst h) nm) (rev (case auth of Some h \<Rightarrow> h | None \<Rightarrow> [])) of
          Some h \<Rightarrow> Some (snd h)
        | None \<Rightarrow> map_option snd (find (\<lambda>h. same_header (fst h) nm) (rev defaults)))"
proof -
  have "headers_ok []" by (simp add: headers_ok_def)
  from fold_put_header [OF this, of "defaults @ (case auth of Some h \<Rightarrow> h | None \<Rightarrow> [])" nm]
  show ?thesis
    by (auto simp: resolveTransportHeaders_def headers_ok_def find_append header_value_def [of "[]"]
        split: option.splits)
qed

end
