(* ===== verification/SseTransport.thy ===== *)
theory SseTransport
  imports SseStream Backoff
begin

text \<open>
  \<open>src/core/transport/sse.ts\<close>: the reconnecting SSE subscription. The state holds what the closure
  of \<open>subscribe\<close> holds (cursor, window of seen ids, server retry time, abort flag) and the log of
  what the subscription did, in order. The environment is an argument: for every attempt the
  credential resolver, the fetch, the body's reads, the clock, the random source and the sleep, and
  the points at which the signal is found aborted. The message handler of the application is given
  by what it does for a history of delivered messages. A body is consumed by
  \<open>consumeSseStream\<close> of \<open>SseStream\<close> with the subscription's own handler.
\<close>

section \<open>State and environment\<close>

datatype sub_event =
    SubEmit lifecycle_event
  | SubFetch int "(string, string) omap"
  | SubDeliver sse_message
  | SubSleep int int

record subscription =
  su_cursor :: "string option"
  su_seen :: "string list"
  su_retry :: "jnum option"
  su_aborted :: bool
  su_attempt :: int
  su_log :: "sub_event list"

record sse_response =
  rs_status :: int
  rs_content_type :: "string option"
  rs_reads :: "(bool \<times> sse_read) list option"

record sub_env =
  se_aborted_before :: bool
  se_auth :: "unknown + (string, string) omap option"
  se_aborted_auth :: bool
  se_fetch :: "unknown + sse_response"
  se_aborted_fetch :: bool
  se_aborted_end :: bool
  se_random :: jnum
  se_now :: rat
  se_sleep :: "unknown option"
  se_aborted_sleep :: bool

record sub_options =
  so_policy :: retry_policy
  so_dedupe :: "jnum option"
  so_same_origin :: bool
  so_defaults :: "(string, string) omap"
  so_headers :: "(string, string) omap"
  so_cursor :: "string option"
  so_aborted :: bool
  so_max_buffer :: "jnum option"
  so_app_abort :: "sse_message list \<Rightarrow> bool"
  so_app_throw :: "sse_message list \<Rightarrow> bool"

definition sub_new :: "sub_options \<Rightarrow> subscription" where
  "sub_new o' = \<lparr>su_cursor = so_cursor o', su_seen = [], su_retry = None, su_aborted = so_aborted o',
     su_attempt = 1, su_log = []\<rparr>"

definition sub_emit :: "lifecycle_state \<Rightarrow> int \<Rightarrow> int option \<Rightarrow> subscription \<Rightarrow> subscription" where
  "sub_emit s attempt delayMs st =
     st\<lparr>su_log := su_log st @ [SubEmit \<lparr>le_state = s, le_kind = KSse, le_operation = ''subscribe'',
          le_attempt = attempt, le_delayMs = delayMs\<rparr>]\<rparr>"

text \<open>The signal found aborted at a point of the attempt; once aborted it stays so.\<close>

definition observe_abort :: "bool \<Rightarrow> subscription \<Rightarrow> subscription" where
  "observe_abort b st = st\<lparr>su_aborted := su_aborted st \<or> b\<rparr>"

fun delivered_of :: "sub_event list \<Rightarrow> sse_message list" where
  "delivered_of [] = []"
| "delivered_of (SubDeliver m # l) = m # delivered_of l"
| "delivered_of (_ # l) = delivered_of l"

definition sse_error :: "string \<Rightarrow> TransportPhase \<Rightarrow> bool \<Rightarrow> int \<Rightarrow> rat option \<Rightarrow> unknown" where
  "sse_error msg phase retryable attempt status =
     UErr (TransportError msg ((plain_meta KSse phase ''subscribe'' retryable attempt)\<lparr>tm_status := status\<rparr>) None)"

section \<open>Headers and options\<close>

definition last_event_id :: string where
  "last_event_id = ''Last-Event-ID''"

definition mergeHeaders ::
  "(string, string) omap \<Rightarrow> (string, string) omap \<Rightarrow> (string, string) omap \<Rightarrow> string option \<Rightarrow>
   (string, string) omap" where
  "mergeHeaders defaults request auth cursor =
     (let headers = fold put_header auth (fold put_header request (fold put_header defaults [])) in
      case cursor of
        Some c \<Rightarrow> if c \<noteq> [] then put_header (last_event_id, c) headers else headers
      | None \<Rightarrow> headers)"

definition validateDedupeCapacity :: "jnum option \<Rightarrow> unknown + nat" where
  "validateDedupeCapacity v =
     (let capacity = (case v of Some x \<Rightarrow> x | None \<Rightarrow> num 1024) in
      if \<not> is_integer capacity \<or> num_lt capacity (num 0)
      then Inl (UErr (JsError CTypeError ''dedupeCapacity must be a non-negative integer'' [] None))
      else Inr (nat \<lfloor>num_val capacity\<rfloor>))"

definition isSseBufferLimitError :: "unknown \<Rightarrow> bool" where
  "isSseBufferLimitError e =
     (case e of UErr x \<Rightarrow> e_class x = CRangeError \<and> err_prop e ''code'' = JStr ''sse-buffer-limit''
      | UVal _ \<Rightarrow> False)"

definition is_transport_error :: "unknown \<Rightarrow> bool" where
  "is_transport_error e = (case e of UErr x \<Rightarrow> e_class x = CTransportError | UVal _ \<Rightarrow> False)"

definition error_retryable :: "unknown \<Rightarrow> bool" where
  "error_retryable e = (get_prop (err_prop e ''transport'') ''retryable'' = JBool True)"

section \<open>The message handler\<close>

fun trim_seen :: "nat \<Rightarrow> string list \<Rightarrow> string list" where
  "trim_seen capacity [] = []"
| "trim_seen capacity (oldest # s) =
     (if length (oldest # s) > capacity then trim_seen capacity s else oldest # s)"

definition remember :: "nat \<Rightarrow> string \<Rightarrow> string list \<Rightarrow> string list" where
  "remember capacity i seen = (if 0 < capacity then trim_seen capacity (os_add i seen) else seen)"

definition note_retry :: "sse_message \<Rightarrow> subscription \<Rightarrow> subscription" where
  "note_retry m st =
     (case sm_retry m of
        Some r \<Rightarrow> if num_le (num 0) r then st\<lparr>su_retry := Some r\<rparr> else st
      | None \<Rightarrow> st)"

definition message_id :: "sse_message \<Rightarrow> string option" where
  "message_id m = (case sm_id m of Some i \<Rightarrow> if i = [] then None else Some i | None \<Rightarrow> None)"

definition sub_deliver :: "sse_message \<Rightarrow> subscription \<Rightarrow> subscription" where
  "sub_deliver m st = st\<lparr>su_log := su_log st @ [SubDeliver m]\<rparr>"

definition sub_receive :: "nat \<Rightarrow> sse_message \<Rightarrow> subscription \<Rightarrow> subscription" where
  "sub_receive capacity m st =
     (let st0 = note_retry m st in
      case message_id m of
        None \<Rightarrow> sub_deliver m st0
      | Some i \<Rightarrow>
          if i \<in> set (su_seen st0) then st0
          else sub_deliver m (st0\<lparr>su_cursor := Some i, su_seen := remember capacity i (su_seen st0)\<rparr>))"

text \<open>The handler as the consumer sees it: its effect after a history of messages.\<close>

definition just_delivered :: "nat \<Rightarrow> subscription \<Rightarrow> sse_message list \<Rightarrow> bool" where
  "just_delivered capacity st h =
     (length (su_log (fold (sub_receive capacity) (butlast h) st))
        < length (su_log (fold (sub_receive capacity) h st)))"

definition handler_env :: "sub_options \<Rightarrow> nat \<Rightarrow> int \<Rightarrow> subscription \<Rightarrow> sse_env" where
  "handler_env o' capacity attempt st =
     \<lparr>en_abort = (\<lambda>h. just_delivered capacity st h
          \<and> so_app_abort o' (delivered_of (su_log (fold (sub_receive capacity) h st)))),
      en_throw = (\<lambda>h. if just_delivered capacity st h
            \<and> so_app_throw o' (delivered_of (su_log (fold (sub_receive capacity) h st)))
          then Some (sse_error ''SSE message handler failed'' PDecode False attempt None) else None)\<rparr>"

section \<open>One attempt\<close>

text \<open>How an attempt ends: the loop returns, throws, waits to reconnect, or the body never answers.\<close>

datatype sub_turn = TReturn | TThrow unknown | TWait "jnum option" | TPending

definition auth_failure :: "int \<Rightarrow> unknown" where
  "auth_failure attempt = sse_error ''Transport authentication failed'' PAuthenticate False attempt None"

definition last_attempt :: "sub_options \<Rightarrow> int \<Rightarrow> bool" where
  "last_attempt o' attempt = (of_int attempt \<ge> num_val (rp_maxAttempts (so_policy o')))"

text \<open>The \<open>catch\<close> of the connection.\<close>

definition sub_connect_catch :: "sub_options \<Rightarrow> int \<Rightarrow> unknown \<Rightarrow> subscription \<Rightarrow> sub_turn" where
  "sub_connect_catch o' attempt err st =
     (if su_aborted st \<or> isAbortError err then TReturn
      else
        let normalized = (if is_transport_error err then err
                          else sse_error ''SSE connection failed'' PConnect True attempt None) in
        if \<not> error_retryable normalized \<or> last_attempt o' attempt then TThrow normalized
        else TWait (map_option Fin (finite_of (get_prop (err_prop normalized ''transport'') ''retryAfterMs''))))"

definition sub_connect ::
  "sub_options \<Rightarrow> sub_env \<Rightarrow> int \<Rightarrow> subscription \<Rightarrow> subscription \<times> (sub_turn + sse_response)" where
  "sub_connect o' e attempt st =
     (let st1 = observe_abort (se_aborted_auth e) st in
      case se_auth e of
        Inl err \<Rightarrow>
          if su_aborted st1 \<or> isAbortError err then (st1, Inl TReturn)
          else (st1, Inl (sub_connect_catch o' attempt (auth_failure attempt) st1))
      | Inr auth \<Rightarrow>
          if su_aborted st1 then (st1, Inl TReturn)
          else
            let headers = mergeHeaders (so_defaults o') (so_headers o') (resolveTransportHeaders [] auth)
                            (su_cursor st1);
                st2 = observe_abort (se_aborted_fetch e) (st1\<lparr>su_log := su_log st1 @ [SubFetch attempt headers]\<rparr>)
            in (case se_fetch e of
                  Inl err \<Rightarrow> (st2, Inl (sub_connect_catch o' attempt err st2))
                | Inr response \<Rightarrow> (st2, Inr response)))"

definition retryable_status :: "int \<Rightarrow> bool" where
  "retryable_status s = (s = 408 \<or> s = 429 \<or> s \<ge> 500)"

text \<open>The checks on the response: the turn they end with, or the reads of its body.\<close>

definition sub_response :: "sub_options \<Rightarrow> int \<Rightarrow> sse_response \<Rightarrow> sub_turn + (bool \<times> sse_read) list" where
  "sub_response o' attempt response =
     (let status = Some (of_int (rs_status response)) in
      if \<not> (200 \<le> rs_status response \<and> rs_status response \<le> 299)
      then
        (let retryable = retryable_status (rs_status response) in
         if \<not> retryable \<or> last_attempt o' attempt
         then Inl (TThrow (sse_error (''SSE connection failed with status '' @ show_int (rs_status response))
                      PConnect retryable attempt status))
         else Inl (TWait None))
      else if \<not> isSseContentType (rs_content_type response)
      then Inl (TThrow (sse_error ''SSE response has an invalid content type'' PDecode False attempt status))
      else
        (case rs_reads response of
           None \<Rightarrow> Inl (TThrow (sse_error ''SSE response body is unavailable'' PDecode False attempt status))
         | Some reads \<Rightarrow> Inr reads))"

text \<open>What follows the body, however it ended.\<close>

definition sub_stream_end :: "sub_options \<Rightarrow> int \<Rightarrow> consume_end \<Rightarrow> subscription \<Rightarrow> sub_turn" where
  "sub_stream_end o' attempt r st =
     (case r of
        Waiting \<Rightarrow> TPending
      | Finished \<Rightarrow> if su_aborted st \<or> last_attempt o' attempt then TReturn else TWait (su_retry st)
      | Failed err \<Rightarrow>
          if su_aborted st \<or> isAbortError err then TReturn
          else if isSseBufferLimitError err
          then TThrow (sse_error ''SSE stream exceeds the configured size limit'' PDecode False attempt None)
          else if is_transport_error err \<and> \<not> error_retryable err then TThrow err
          else if last_attempt o' attempt
          then TThrow (sse_error ''SSE stream decoding failed'' PDecode True attempt None)
          else TWait (su_retry st))"

definition sub_stream ::
  "sub_options \<Rightarrow> nat \<Rightarrow> sub_env \<Rightarrow> int \<Rightarrow> (bool \<times> sse_read) list \<Rightarrow> subscription \<Rightarrow> subscription \<times> sub_turn" where
  "sub_stream o' capacity e attempt reads st =
     (let st1 = sub_emit (if attempt = 1 then LConnected else LReconnected) attempt None st in
      case consumeSseStream (handler_env o' capacity attempt st1) (so_max_buffer o') (su_aborted st1) reads of
        (c, r) \<Rightarrow>
          let st2 = observe_abort (sc_aborted c \<or> se_aborted_end e)
                      (fold (sub_receive capacity) (sc_messages c) st1)
          in (st2, sub_stream_end o' attempt r st2))"

definition sub_attempt ::
  "sub_options \<Rightarrow> nat \<Rightarrow> sub_env \<Rightarrow> int \<Rightarrow> subscription \<Rightarrow> subscription \<times> sub_turn" where
  "sub_attempt o' capacity e attempt st =
     (let st0 = observe_abort (se_aborted_before e) (st\<lparr>su_attempt := attempt\<rparr>) in
      if su_aborted st0 then (st0, TReturn)
      else
        (case sub_connect o' e attempt (sub_emit LConnecting attempt None st0) of
           (st1, Inl turn) \<Rightarrow> (st1, turn)
         | (st1, Inr response) \<Rightarrow>
             (case sub_response o' attempt response of
                Inl turn \<Rightarrow> (st1, turn)
              | Inr reads \<Rightarrow> sub_stream o' capacity e attempt reads st1)))"

section \<open>Reconnecting\<close>

definition waitForReconnect ::
  "sub_options \<Rightarrow> sub_env \<Rightarrow> rat \<Rightarrow> int \<Rightarrow> jnum option \<Rightarrow> subscription \<Rightarrow> subscription \<times> unknown option" where
  "waitForReconnect o' e startedAt attempt retryAfterMs st =
     (case computeBackoffDelay (so_policy o') (num attempt) (se_random e) retryAfterMs of
        Inl err \<Rightarrow> (st, Some err)
      | Inr delayMs \<Rightarrow>
          if (case rp_deadlineMs (so_policy o') of
                Some d \<Rightarrow> se_now e - startedAt + of_int delayMs > num_val d
              | None \<Rightarrow> False)
          then (st, Some (sse_error ''SSE reconnect deadline exceeded'' PConnect True attempt None))
          else
            let st1 = sub_emit LRetrying attempt (Some delayMs) st;
                st2 = observe_abort (se_aborted_sleep e)
                        (st1\<lparr>su_log := su_log st1 @ [SubSleep attempt delayMs]\<rparr>)
            in (case se_sleep e of
                  Some err \<Rightarrow> (st2, if su_aborted st2 \<or> isAbortError err then None else Some err)
                | None \<Rightarrow> (st2, None)))"

datatype sub_end = SubResolved | SubRejected unknown | SubPending

function sub_loop ::
  "sub_options \<Rightarrow> nat \<Rightarrow> (int \<Rightarrow> sub_env) \<Rightarrow> rat \<Rightarrow> int \<Rightarrow> subscription \<Rightarrow> subscription \<times> sub_end" where
  "sub_loop o' capacity env startedAt attempt st =
     (if of_int attempt > num_val (rp_maxAttempts (so_policy o')) then (st, SubResolved)
      else
        (case sub_attempt o' capacity (env attempt) attempt st of
           (st1, TReturn) \<Rightarrow> (st1, SubResolved)
         | (st1, TThrow err) \<Rightarrow> (st1, SubRejected err)
         | (st1, TPending) \<Rightarrow> (st1, SubPending)
         | (st1, TWait retryAfterMs) \<Rightarrow>
             (case waitForReconnect o' (env attempt) startedAt attempt retryAfterMs st1 of
                (st2, Some err) \<Rightarrow> (st2, SubRejected err)
              | (st2, None) \<Rightarrow> sub_loop o' capacity env startedAt (attempt + 1) st2)))"
  by pat_completeness auto
termination
  by (relation "measure (\<lambda>(o', c, env, s, a, st). nat (\<lfloor>num_val (rp_maxAttempts (so_policy o'))\<rfloor> + 1 - a))")
    (auto simp: not_less le_floor_iff)

declare sub_loop.simps [simp del]

text \<open>The \<open>finally\<close> part: \<open>emitClosed\<close>, unless the body is still being read.\<close>

definition subscribe ::
  "sub_options \<Rightarrow> (int \<Rightarrow> sub_env) \<Rightarrow> rat \<Rightarrow> unknown + subscription \<times> sub_end" where
  "subscribe o' env startedAt =
     (case validateTransportRetryPolicy (so_policy o') of
        Some err \<Rightarrow> Inl err
      | None \<Rightarrow>
          (case validateDedupeCapacity (so_dedupe o') of
             Inl err \<Rightarrow> Inl err
           | Inr capacity \<Rightarrow>
               if \<not> so_same_origin o'
               then Inl (sse_error ''SSE subscription URL must use the configured origin'' PConfigure False 1 None)
               else
                 (case sub_loop o' capacity env startedAt 1 (sub_new o') of
                    (st, SubPending) \<Rightarrow> Inr (st, SubPending)
                  | (st, r) \<Rightarrow> Inr (sub_emit LClosed (su_attempt st) None st, r))))"

section \<open>The window of seen ids\<close>

definition lastn :: "nat \<Rightarrow> 'a list \<Rightarrow> 'a list" where
  "lastn n xs = drop (length xs - n) xs"

lemma trim_seen_lastn: "trim_seen n s = lastn n s"
  by (induction n s rule: trim_seen.induct) (auto simp: lastn_def Suc_diff_le not_less)

lemma lastn_snoc: "0 < n \<Longrightarrow> lastn n (lastn n xs @ [x]) = lastn n (xs @ [x])"
  by (cases "length xs < n") (auto simp: lastn_def Suc_diff_le)

lemma in_lastn: "j < length xs \<Longrightarrow> length xs \<le> j + n \<Longrightarrow> xs ! j \<in> set (lastn n xs)"
  unfolding lastn_def
  by (subst in_set_conv_nth) (auto intro!: exI [of _ "j - (length xs - n)"])

lemma length_lastn: "length (lastn n xs) = min n (length xs)"
  by (simp add: lastn_def min_def)

lemma remember_lastn:
  "i \<notin> set (lastn n xs) \<Longrightarrow> remember n i (lastn n xs) = lastn n (xs @ [i])"
  by (cases "n = 0") (simp_all add: remember_def trim_seen_lastn os_add_def lastn_snoc, simp add: lastn_def)

text \<open>Any \<open>n + 1\<close> consecutive elements are distinct.\<close>

definition spaced :: "nat \<Rightarrow> 'a list \<Rightarrow> bool" where
  "spaced n xs = (\<forall>j k. j < k \<and> k < length xs \<and> k - j \<le> n \<longrightarrow> xs ! j \<noteq> xs ! k)"

lemma spaced_snoc:
  assumes "spaced n xs" and "x \<notin> set (lastn n xs)"
  shows "spaced n (xs @ [x])"
proof -
  have "xs ! j \<noteq> x" if "j < length xs" "length xs - j \<le> n" for j
    using in_lastn [of j xs n] that assms(2) by (metis diff_le_self le_diff_conv add.commute)
  with assms(1) show ?thesis by (auto simp: spaced_def nth_append less_Suc_eq)
qed

section \<open>Facts on the log\<close>

fun ids_of :: "sub_event list \<Rightarrow> string list" where
  "ids_of [] = []"
| "ids_of (SubDeliver m # l) = (case message_id m of Some i \<Rightarrow> [i] | None \<Rightarrow> []) @ ids_of l"
| "ids_of (_ # l) = ids_of l"

fun fetches :: "sub_event list \<Rightarrow> int list" where
  "fetches [] = []"
| "fetches (SubFetch a hs # l) = a # fetches l"
| "fetches (_ # l) = fetches l"

fun closes :: "sub_event list \<Rightarrow> nat" where
  "closes [] = 0"
| "closes (SubEmit ev # l) = (if le_state ev = LClosed then 1 else 0) + closes l"
| "closes (_ # l) = closes l"

lemma ids_of_append [simp]: "ids_of (k @ l) = ids_of k @ ids_of l"
  by (induction k rule: ids_of.induct) auto

lemma fetches_append [simp]: "fetches (k @ l) = fetches k @ fetches l"
  by (induction k rule: fetches.induct) auto

lemma closes_append [simp]: "closes (k @ l) = closes k + closes l"
  by (induction k rule: closes.induct) auto

text \<open>Every request after a delivered id resumes from the last one.\<close>

definition resumes :: "sub_event list \<Rightarrow> bool" where
  "resumes l = (\<forall>xs a hs ys. l = xs @ SubFetch a hs # ys \<and> ids_of xs \<noteq> [] \<longrightarrow>
     header_value hs last_event_id = Some (last (ids_of xs)))"

lemma resumes_snoc:
  "resumes (l @ [e]) \<longleftrightarrow> resumes l \<and> (\<forall>a hs. e = SubFetch a hs \<and> ids_of l \<noteq> [] \<longrightarrow>
     header_value hs last_event_id = Some (last (ids_of l)))"
  (is "?L \<longleftrightarrow> ?R")
proof
  assume L: ?L
  have "resumes l"
    unfolding resumes_def
  proof (intro allI impI)
    fix xs a hs ys assume h: "l = xs @ SubFetch a hs # ys \<and> ids_of xs \<noteq> []"
    then have "l @ [e] = xs @ SubFetch a hs # (ys @ [e])" by simp
    with L h show "header_value hs last_event_id = Some (last (ids_of xs))" unfolding resumes_def by blast
  qed
  with L show ?R unfolding resumes_def by auto
next
  assume R: ?R
  show ?L
    unfolding resumes_def
  proof (intro allI impI)
    fix xs a hs ys assume h: "l @ [e] = xs @ SubFetch a hs # ys \<and> ids_of xs \<noteq> []"
    show "header_value hs last_event_id = Some (last (ids_of xs))"
    proof (cases ys rule: rev_cases)
      case Nil
      with h R show ?thesis by auto
    next
      case (snoc zs z)
      with h have "l = xs @ SubFetch a hs # zs" by simp
      with R h show ?thesis unfolding resumes_def by blast
    qed
  qed
qed

lemma headers_ok_fold: "headers_ok hs \<Longrightarrow> headers_ok (fold put_header l hs)"
  by (rule conjunct1 [OF fold_put_header [of hs l undefined]])

lemma mergeHeaders_cursor:
  "c \<noteq> [] \<Longrightarrow> header_value (mergeHeaders d r a (Some c)) last_event_id = Some c"
  by (simp add: mergeHeaders_def Let_def header_value_put same_header_def headers_ok_fold headers_ok_def [of "[]"])

section \<open>Invariant\<close>

definition sub_inv :: "nat \<Rightarrow> string option \<Rightarrow> subscription \<Rightarrow> bool" where
  "sub_inv capacity c0 st =
     (su_seen st = lastn capacity (ids_of (su_log st)) \<and> spaced capacity (ids_of (su_log st))
      \<and> su_cursor st = (if ids_of (su_log st) = [] then c0 else Some (last (ids_of (su_log st))))
      \<and> [] \<notin> set (ids_of (su_log st)) \<and> resumes (su_log st))"

lemma sub_inv_new [simp]: "sub_inv n (so_cursor o') (sub_new o')"
  by (simp add: sub_inv_def sub_new_def lastn_def spaced_def resumes_def)

lemma sub_inv_frames [simp]:
  "sub_inv n c0 (st\<lparr>su_retry := x\<rparr>) \<longleftrightarrow> sub_inv n c0 st"
  "sub_inv n c0 (st\<lparr>su_aborted := b\<rparr>) \<longleftrightarrow> sub_inv n c0 st"
  "sub_inv n c0 (st\<lparr>su_attempt := a\<rparr>) \<longleftrightarrow> sub_inv n c0 st"
  by (simp_all add: sub_inv_def)

lemma sub_inv_log:
  "sub_inv n c0 (st\<lparr>su_log := su_log st @ [SubEmit ev]\<rparr>) \<longleftrightarrow> sub_inv n c0 st"
  "sub_inv n c0 (st\<lparr>su_log := su_log st @ [SubSleep a d]\<rparr>) \<longleftrightarrow> sub_inv n c0 st"
  by (simp_all add: sub_inv_def resumes_snoc)

lemma sub_inv_fetch:
  "sub_inv n c0 st \<Longrightarrow>
   sub_inv n c0 (st\<lparr>su_log := su_log st @ [SubFetch a (mergeHeaders d r h (su_cursor st))]\<rparr>)"
  by (auto simp: sub_inv_def resumes_snoc intro!: mergeHeaders_cursor) (metis last_in_set)

lemma note_retry_same [simp]:
  "su_seen (note_retry m st) = su_seen st" "su_log (note_retry m st) = su_log st"
  "sub_inv n c0 (note_retry m st) \<longleftrightarrow> sub_inv n c0 st"
  by (auto simp: note_retry_def split: option.splits)

lemma message_id_nonempty: "message_id m = Some i \<Longrightarrow> i \<noteq> []"
  by (auto simp: message_id_def split: option.splits if_splits)

lemma sub_inv_receive:
  assumes "sub_inv n c0 st"
  shows "sub_inv n c0 (sub_receive n m st)"
proof (cases "message_id m")
  case None
  have i: "sub_inv n c0 (note_retry m st)" using assms by simp
  with None show ?thesis
    by (simp add: sub_receive_def sub_deliver_def Let_def sub_inv_def resumes_snoc)
next
  case (Some i)
  define st0 where "st0 = note_retry m st"
  have i0: "sub_inv n c0 st0" using assms by (simp add: st0_def)
  have "sub_inv n c0 (sub_deliver m (st0\<lparr>su_cursor := Some i, su_seen := remember n i (su_seen st0)\<rparr>))"
    if "i \<notin> set (su_seen st0)"
    using that i0 Some message_id_nonempty [OF Some]
    by (auto simp: sub_deliver_def sub_inv_def resumes_snoc remember_lastn spaced_snoc)
  with Some i0 show ?thesis by (simp add: sub_receive_def Let_def st0_def [symmetric])
qed

lemma sub_inv_fold: "sub_inv n c0 st \<Longrightarrow> sub_inv n c0 (fold (sub_receive n) ms st)"
  by (induction ms arbitrary: st) (auto intro: sub_inv_receive)

lemma observe_abort_same [simp]:
  "su_log (observe_abort b st) = su_log st"
  "sub_inv n c0 (observe_abort b st) \<longleftrightarrow> sub_inv n c0 st"
  "su_aborted (observe_abort b st) = (su_aborted st \<or> b)"
  "su_attempt (observe_abort b st) = su_attempt st"
  by (simp_all add: observe_abort_def)

lemma sub_emit_inv [simp]: "sub_inv n c0 (sub_emit s a d st) \<longleftrightarrow> sub_inv n c0 st"
  by (simp add: sub_emit_def sub_inv_log)

lemma sub_emit_log [simp]:
  "fetches (su_log (sub_emit s a d st)) = fetches (su_log st)"
  "closes (su_log (sub_emit s a d st)) = closes (su_log st) + (if s = LClosed then 1 else 0)"
  by (simp_all add: sub_emit_def)

lemma receive_log [simp]:
  "fetches (su_log (sub_receive n m st)) = fetches (su_log st)"
  "closes (su_log (sub_receive n m st)) = closes (su_log st)"
  by (auto simp: sub_receive_def sub_deliver_def Let_def split: option.splits)

lemma fold_receive_log [simp]:
  "fetches (su_log (fold (sub_receive n) ms st)) = fetches (su_log st)"
  "closes (su_log (fold (sub_receive n) ms st)) = closes (su_log st)"
  by (induction ms arbitrary: st) auto

lemma sub_stream_keeps:
  assumes "sub_stream o' n e a reads st = (st', t)" and "sub_inv n c0 st"
  shows "sub_inv n c0 st' \<and> fetches (su_log st') = fetches (su_log st) \<and> closes (su_log st') = closes (su_log st)"
  using assms
  by (auto simp: sub_stream_def Let_def sub_inv_fold split: prod.splits)

lemma sub_connect_keeps:
  assumes "sub_connect o' e a st = (st', r)" and "sub_inv n c0 st"
  shows "sub_inv n c0 st' \<and> closes (su_log st') = closes (su_log st)
    \<and> (fetches (su_log st') = fetches (su_log st) @ [a]
       \<or> fetches (su_log st') = fetches (su_log st) \<and> (\<exists>t. r = Inl t \<and> (\<forall>d. t \<noteq> TWait d)))"
proof -
  have n: "sub_connect_catch o' a (auth_failure a) st1 \<noteq> TWait d" for st1 d
    by (simp add: sub_connect_catch_def auth_failure_def sse_error_def is_transport_error_def
        error_retryable_def Let_def meta_object_props plain_meta_def)
       (simp add: TransportError_def mk_error_def)
  have i: "sub_inv n c0 (observe_abort b st)" for b using assms(2) by simp
  show ?thesis
    using assms n sub_inv_fetch [OF i]
    by (auto simp: sub_connect_def Let_def split: sum.splits if_splits)
qed

lemma sub_response_wait: "sub_response o' a r = Inl (TWait d) \<Longrightarrow> d = None"
  by (auto simp: sub_response_def Let_def split: if_splits option.splits)

lemma sub_attempt_keeps:
  assumes "sub_attempt o' n e a st = (st', t)" and "sub_inv n c0 st"
  shows "sub_inv n c0 st' \<and> closes (su_log st') = closes (su_log st)
    \<and> (fetches (su_log st') = fetches (su_log st) @ [a]
       \<or> fetches (su_log st') = fetches (su_log st) \<and> (\<forall>d. t \<noteq> TWait d))"
proof -
  define st0 where "st0 = observe_abort (se_aborted_before e) (st\<lparr>su_attempt := a\<rparr>)"
  obtain st1 r where c: "sub_connect o' e a (sub_emit LConnecting a None st0) = (st1, r)"
    by (cases "sub_connect o' e a (sub_emit LConnecting a None st0)")
  have i0: "sub_inv n c0 (sub_emit LConnecting a None st0)" using assms(2) by (simp add: st0_def)
  have k: "sub_inv n c0 st1" "closes (su_log st1) = closes (su_log st)"
    "fetches (su_log st1) = fetches (su_log st) @ [a]
       \<or> fetches (su_log st1) = fetches (su_log st) \<and> (\<exists>t. r = Inl t \<and> (\<forall>d. t \<noteq> TWait d))"
    using sub_connect_keeps [OF c i0] by (simp_all add: st0_def)
  show ?thesis
  proof (cases "su_aborted st0")
    case True
    then have "st' = st0" "t = TReturn" using assms(1) by (simp_all add: sub_attempt_def Let_def st0_def)
    with assms(2) show ?thesis by (simp add: st0_def)
  next
    case False
    then have u: "sub_attempt o' n e a st = (case r of Inl turn \<Rightarrow> (st1, turn)
        | Inr response \<Rightarrow> (case sub_response o' a response of Inl turn \<Rightarrow> (st1, turn)
            | Inr reads \<Rightarrow> sub_stream o' n e a reads st1))"
      using c by (simp add: sub_attempt_def Let_def st0_def)
    show ?thesis
      using assms(1) k sub_stream_keeps [OF _ k(1)] unfolding u
      by (auto split: sum.splits)
  qed
qed

lemma wait_keeps:
  assumes "waitForReconnect o' e s a ra st = (st', r)" and "sub_inv n c0 st"
  shows "sub_inv n c0 st' \<and> closes (su_log st') = closes (su_log st) \<and> fetches (su_log st') = fetches (su_log st)"
proof -
  have i: "sub_inv n c0 ((sub_emit LRetrying a d st)
      \<lparr>su_log := su_log (sub_emit LRetrying a d st) @ [SubSleep a' d']\<rparr>)" for d a' d'
    using assms(2) by (simp add: sub_inv_log)
  show ?thesis
    using assms i by (auto simp: waitForReconnect_def Let_def split: sum.splits if_splits option.splits)
qed

lemma sub_loop_keeps:
  "sub_loop o' n env s a st = (st', r) \<Longrightarrow> sub_inv n c0 st \<Longrightarrow>
   sub_inv n c0 st' \<and> closes (su_log st') = closes (su_log st)
   \<and> (\<exists>k. fetches (su_log st') = fetches (su_log st) @ [a..k]
        \<and> (k < a \<or> of_int k \<le> num_val (rp_maxAttempts (so_policy o'))))"
proof (induction o' n env s a st rule: sub_loop.induct)
  case (1 o' n env s a st)
  show ?case
  proof (cases "of_int a > num_val (rp_maxAttempts (so_policy o'))")
    case True
    with "1.prems" show ?thesis by (auto simp: sub_loop.simps [of o' n env s a st] intro!: exI [of _ "a - 1"])
  next
    case le: False
    obtain st1 t where t: "sub_attempt o' n (env a) a st = (st1, t)" by (cases "sub_attempt o' n (env a) a st")
    note k1 = sub_attempt_keeps [OF t "1.prems"(2)]
    have one: "\<exists>k. fetches (su_log st1) = fetches (su_log st) @ [a..k]
        \<and> (k < a \<or> of_int k \<le> num_val (rp_maxAttempts (so_policy o')))"
      using k1 le by (auto intro: exI [of _ a] exI [of _ "a - 1"])
    show ?thesis
    proof (cases "\<exists>d. t = TWait d")
      case False
      then have "st' = st1"
        using "1.prems"(1) t le by (cases t) (auto simp: sub_loop.simps [of o' n env s a st])
      with one k1 show ?thesis by blast
    next
      case True
      then obtain d where d: "t = TWait d" by blast
      obtain st2 w where w: "waitForReconnect o' (env a) s a d st1 = (st2, w)"
        by (cases "waitForReconnect o' (env a) s a d st1")
      have f: "fetches (su_log st1) = fetches (su_log st) @ [a]" using k1 d by auto
      note k2 = wait_keeps [OF w conjunct1 [OF k1]]
      show ?thesis
      proof (cases w)
        case (Some err)
        then have "st' = st2"
          using "1.prems"(1) t d w le by (auto simp: sub_loop.simps [of o' n env s a st])
        with k1 k2 one show ?thesis by simp
      next
        case None
        then have rec: "sub_loop o' n env s (a + 1) st2 = (st', r)"
          using "1.prems"(1) t d w le by (auto simp: sub_loop.simps [of o' n env s a st])
        from "1.IH" [OF le t [symmetric] d w [symmetric] None rec conjunct1 [OF k2]]
        obtain k where k: "sub_inv n c0 st'" "closes (su_log st') = closes (su_log st2)"
          "fetches (su_log st') = fetches (su_log st2) @ [a + 1..k]"
          "k < a + 1 \<or> of_int k \<le> num_val (rp_maxAttempts (so_policy o'))" by blast
        define k' where "k' = max a k"
        have "fetches (su_log st') = fetches (su_log st) @ [a..k']"
          using k(3) k2 f by (cases "k \<le> a") (auto simp: k'_def upto_rec1 [of a])
        moreover have "of_int k' \<le> num_val (rp_maxAttempts (so_policy o'))"
          using k(4) le by (auto simp: k'_def max_def)
        ultimately show ?thesis using k k1 k2 by auto
      qed
    qed
  qed
qed

lemma subscribe_keeps:
  assumes "subscribe o' env s = Inr (st, r)"
  obtains n st0 where "validateDedupeCapacity (so_dedupe o') = Inr n"
    and "sub_loop o' n env s 1 (sub_new o') = (st0, r)"
    and "st = (if r = SubPending then st0 else sub_emit LClosed (su_attempt st0) None st0)"
  using assms
  by (auto simp: subscribe_def split: option.splits sum.splits if_splits prod.splits sub_end.splits)

section \<open>Properties\<close>

text \<open>A server that repeats an event after a reconnect.\<close>

definition wit_sub :: sub_options where
  "wit_sub = \<lparr>so_policy = wit_policy, so_dedupe = Some (num 2), so_same_origin = True, so_defaults = [],
     so_headers = [], so_cursor = None, so_aborted = False, so_max_buffer = Some (num 50),
     so_app_abort = (\<lambda>_. False), so_app_throw = (\<lambda>_. False)\<rparr>"

definition wit_sub_env :: "int \<Rightarrow> sub_env" where
  "wit_sub_env a = \<lparr>se_aborted_before = False, se_auth = Inr None, se_aborted_auth = False,
     se_fetch = Inr \<lparr>rs_status = 200, rs_content_type = Some ''text/event-stream'',
       rs_reads = Some [(False, RValue (''id: a'' @ [CHR 0x0A] @ ''data: x'' @ lf_lf)), (False, RDone)]\<rparr>,
     se_aborted_fetch = False, se_aborted_end = False, se_random = num 0, se_now = 0, se_sleep = None,
     se_aborted_sleep = False\<rparr>"

lemma wit_capacity: "validateDedupeCapacity (so_dedupe wit_sub) = Inr 2"
  by (simp add: validateDedupeCapacity_def wit_sub_def num_def is_integer_def is_int_rat_def)

lemma wit_subscribe: obtains st r where "subscribe wit_sub wit_sub_env 0 = Inr (st, r)"
proof -
  obtain st r where l: "sub_loop wit_sub 2 wit_sub_env 0 1 (sub_new wit_sub) = (st, r)"
    by (cases "sub_loop wit_sub 2 wit_sub_env 0 1 (sub_new wit_sub)")
  have v: "validateTransportRetryPolicy (so_policy wit_sub) = None" by code_simp
  have o: "so_same_origin wit_sub" by (simp add: wit_sub_def)
  show thesis
    using that l v o wit_capacity by (cases r) (auto simp: subscribe_def)
qed

text \<open>C35: Deduplication and resumption. In every run of a subscription, whatever the servers send and
  however often it reconnects: the window of seen ids is the last \<open>capacity\<close> ids handed to the
  application, so no id is handed over twice within any \<open>capacity + 1\<close> consecutive ones; the cursor
  is the last id handed over; and every request made after an id was handed over asks to resume
  from the latest one.\<close>

theorem sse_dedupe_and_resume:
  assumes "subscribe o' env s = Inr (st, r)" and "validateDedupeCapacity (so_dedupe o') = Inr capacity"
  shows "su_seen st = lastn capacity (ids_of (su_log st)) \<and> spaced capacity (ids_of (su_log st))
    \<and> su_cursor st = (if ids_of (su_log st) = [] then so_cursor o' else Some (last (ids_of (su_log st))))
    \<and> resumes (su_log st)"
proof -
  obtain n st0 where n: "validateDedupeCapacity (so_dedupe o') = Inr n"
    "sub_loop o' n env s 1 (sub_new o') = (st0, r)"
    "st = (if r = SubPending then st0 else sub_emit LClosed (su_attempt st0) None st0)"
    by (rule subscribe_keeps [OF assms(1)])
  have "sub_inv n (so_cursor o') st0" using sub_loop_keeps [OF n(2) sub_inv_new] by blast
  then have "sub_inv n (so_cursor o') st" using n(3) by simp
  with n(1) assms(2) show ?thesis by (simp add: sub_inv_def)
qed

theorem sse_dedupe_and_resume_witness:
  "\<exists>st r. subscribe wit_sub wit_sub_env 0 = Inr (st, r) \<and> spaced 2 (ids_of (su_log st)) \<and> resumes (su_log st)"
proof -
  obtain st r where s: "subscribe wit_sub wit_sub_env 0 = Inr (st, r)" by (rule wit_subscribe)
  have "validateDedupeCapacity (so_dedupe wit_sub) = Inr 2" by (simp add: wit_capacity)
  from sse_dedupe_and_resume [OF s this] s show ?thesis by blast
qed

text \<open>Reconnect discipline. A subscription sends its requests for attempts 1 to k in order, at most
  as many as the policy allows, and reports \<open>closed\<close> exactly once, as the last thing it does, when
  its promise settles, and never before.\<close>

theorem sse_attempts_bounded:
  assumes "subscribe o' env s = Inr (st, r)"
  shows "(\<exists>k. fetches (su_log st) = [1..k] \<and> (k < 1 \<or> of_int k \<le> num_val (rp_maxAttempts (so_policy o'))))
    \<and> closes (su_log st) = (if r = SubPending then 0 else 1)
    \<and> (r \<noteq> SubPending \<longrightarrow> closes (butlast (su_log st)) = 0)"
proof -
  obtain n st0 where n: "sub_loop o' n env s 1 (sub_new o') = (st0, r)"
    "st = (if r = SubPending then st0 else sub_emit LClosed (su_attempt st0) None st0)"
    by (rule subscribe_keeps [OF assms])
  from sub_loop_keeps [OF n(1) sub_inv_new] obtain k where
    "closes (su_log st0) = 0" "fetches (su_log st0) = [1..k]"
    "k < 1 \<or> of_int k \<le> num_val (rp_maxAttempts (so_policy o'))"
    by (auto simp: sub_new_def)
  with n(2) show ?thesis by (auto simp: sub_emit_def)
qed

theorem sse_attempts_bounded_witness:
  "\<exists>st r k. subscribe wit_sub wit_sub_env 0 = Inr (st, r) \<and> fetches (su_log st) = [1..k] \<and> k \<le> 3"
proof -
  obtain st r where s: "subscribe wit_sub wit_sub_env 0 = Inr (st, r)" by (rule wit_subscribe)
  have m: "num_val (rp_maxAttempts (so_policy wit_sub)) = 3"
    by (simp add: wit_sub_def wit_policy_def num_def)
  from sse_attempts_bounded [OF s] obtain k where
    k: "fetches (su_log st) = [1..k]" "k < 1 \<or> of_int k \<le> num_val (rp_maxAttempts (so_policy wit_sub))"
    by blast
  then have "k \<le> 3" unfolding m by linarith
  with s k(1) show ?thesis by blast
qed

end
