(* ===== verification/WebSocketTransport.thy ===== *)
theory WebSocketTransport
  imports SseStream Backoff
begin

text \<open>
  \<open>src/core/transport/websocket.ts\<close>: the reconnecting WebSocket channel. The state holds what the
  closure of \<open>connect\<close> holds; sockets are numbered in the order they are attached. Events are the
  calls of the interface, the events of the sockets, the completion of a decode, of the reconnect
  sleep and of the asynchronous start, and the abort signal. What the runtime answers inside a step
  (the factory, \<open>readyState\<close>, the clock, the random source) comes with the event. Listeners and the
  socket do not call back into the channel.
\<close>

section \<open>Frames\<close>

text \<open>Text and binary data by their bytes; a \<open>Blob\<close> by its size; anything else is a data value.\<close>

datatype ws_data = WText string | WBytes string | WBlob nat jv | WOther jv

definition DEFAULT_MAX_FRAME_BYTES :: nat where
  "DEFAULT_MAX_FRAME_BYTES = 16 * 1024 * 1024"

definition resolveMaxFrameBytes :: "jnum option \<Rightarrow> unknown + nat" where
  "resolveMaxFrameBytes v = validateLimit v DEFAULT_MAX_FRAME_BYTES ''maxFrameBytes''"

definition inboundFrameExceedsLimit :: "ws_data \<Rightarrow> nat \<Rightarrow> bool" where
  "inboundFrameExceedsLimit d maxFrameBytes =
     (case d of WText s \<Rightarrow> length s > maxFrameBytes | WBytes s \<Rightarrow> length s > maxFrameBytes
      | WBlob n _ \<Rightarrow> n > maxFrameBytes | WOther _ \<Rightarrow> False)"

definition decode_text :: "string \<Rightarrow> string" where
  "decode_text bytes = (case td_decode td_new bytes of (s, td) \<Rightarrow> s @ td_flush td)"

definition parse_or_fail :: "string \<Rightarrow> unknown + jv" where
  "parse_or_fail s =
     (case json_parse s of
        Some v \<Rightarrow> Inr v
      | None \<Rightarrow> Inl (UErr (JsError CSyntaxError ''Unexpected token'' [] None)))"

definition defaultDecode :: "ws_data \<Rightarrow> unknown + jv" where
  "defaultDecode d =
     (case d of WText s \<Rightarrow> parse_or_fail s | WBytes s \<Rightarrow> parse_or_fail (decode_text s)
      | WBlob _ v \<Rightarrow> Inr v | WOther v \<Rightarrow> Inr v)"

definition defaultEncode :: "jv \<Rightarrow> unknown + string" where
  "defaultEncode message =
     (case json_stringify message of
        Some s \<Rightarrow> Inr s
      | None \<Rightarrow> Inl (UErr (JsError CTypeError ''Message is not JSON encodable'' [] None)))"

section \<open>State\<close>

datatype ws_event_log =
    WEmit lifecycle_event
  | WDeliver nat nat jv
  | WCloseNotify nat "unknown option"
  | WSocketClose nat
  | WSend string

datatype ws_ready = RPending | RResolved | RRejected unknown

text \<open>What the connection is waiting for besides socket events.\<close>

datatype ws_wait = WIdle | WSleeping int | WStarting

record ws_options =
  wo_policy :: retry_policy
  wo_max_frame :: nat
  wo_static :: bool
  wo_aborted :: bool
  wo_decode :: "(ws_data \<Rightarrow> unknown + jv) option"
  wo_encode :: "(jv \<Rightarrow> unknown + string) option"

record ws_state =
  ws_attempt :: int
  ws_opened :: bool
  ws_terminal :: bool
  ws_close_error :: "unknown option"
  ws_ready :: ws_ready
  ws_socket :: "nat option"
  ws_sockets :: nat
  ws_attached :: bool
  ws_disconnected :: bool
  ws_wait :: ws_wait
  ws_chain :: "(nat \<times> ws_data) list"
  ws_listeners :: "nat list"
  ws_close_listeners :: "nat list"
  ws_log :: "ws_event_log list"

definition ws_fresh :: ws_state where
  "ws_fresh = \<lparr>ws_attempt = 1, ws_opened = False, ws_terminal = False, ws_close_error = None,
     ws_ready = RPending, ws_socket = None, ws_sockets = 0, ws_attached = False,
     ws_disconnected = False, ws_wait = WIdle, ws_chain = [], ws_listeners = [],
     ws_close_listeners = [], ws_log = []\<rparr>"

definition ws_error :: "string \<Rightarrow> TransportPhase \<Rightarrow> bool \<Rightarrow> int option \<Rightarrow> ws_state \<Rightarrow> unknown" where
  "ws_error msg phase retryable status st =
     UErr (TransportError msg
       ((plain_meta KWebsocket phase (if phase = PRequest then ''send'' else ''connect'') retryable (ws_attempt st))
          \<lparr>tm_status := map_option of_int status\<rparr>) None)"

definition ws_emit :: "lifecycle_state \<Rightarrow> int option \<Rightarrow> ws_state \<Rightarrow> ws_state" where
  "ws_emit s delayMs st =
     st\<lparr>ws_log := ws_log st @ [WEmit \<lparr>le_state = s, le_kind = KWebsocket, le_operation = ''connect'',
          le_attempt = ws_attempt st, le_delayMs = delayMs\<rparr>]\<rparr>"

definition ws_settle_ready :: "ws_ready \<Rightarrow> ws_state \<Rightarrow> ws_state" where
  "ws_settle_ready r st = (if ws_ready st = RPending then st\<lparr>ws_ready := r\<rparr> else st)"

section \<open>Ending\<close>

definition ws_finish :: "unknown option \<Rightarrow> ws_state \<Rightarrow> ws_state" where
  "ws_finish err st =
     (if ws_terminal st then st
      else
        let st1 = st\<lparr>ws_terminal := True, ws_close_error := err, ws_attached := False\<rparr>;
            st2 = (if \<not> ws_opened st1
                   then ws_settle_ready (RRejected (case err of Some e \<Rightarrow> e
                          | None \<Rightarrow> ws_error ''WebSocket connection closed'' PClose False None st1)) st1
                   else st1);
            st3 = ws_emit LClosed None st2
        in st3\<lparr>ws_close_listeners := [], ws_listeners := [],
               ws_log := ws_log st3 @ map (\<lambda>l. WCloseNotify l err) (ws_close_listeners st3)\<rparr>)"

text \<open>\<open>rs\<close> is the \<open>readyState\<close> of the current socket.\<close>

definition closeSocket :: "int \<Rightarrow> ws_state \<Rightarrow> ws_state" where
  "closeSocket rs st =
     (let st1 = st\<lparr>ws_attached := False\<rparr> in
      case ws_socket st of
        Some n \<Rightarrow> if rs < 2 then st1\<lparr>ws_log := ws_log st1 @ [WSocketClose n]\<rparr> else st1
      | None \<Rightarrow> st1)"

definition failDecode :: "nat \<Rightarrow> int \<Rightarrow> ws_state \<Rightarrow> ws_state" where
  "failDecode origin rs st =
     (if ws_terminal st \<or> Some origin \<noteq> ws_socket st then st
      else ws_finish (Some (ws_error ''WebSocket message decoding failed'' PDecode False None st))
             (closeSocket rs st))"

section \<open>Socket events\<close>

definition ws_attach :: "ws_state \<Rightarrow> ws_state" where
  "ws_attach st =
     st\<lparr>ws_socket := Some (ws_sockets st), ws_sockets := ws_sockets st + 1, ws_attached := True,
        ws_disconnected := False\<rparr>"

definition ws_on_open :: "nat \<Rightarrow> ws_state \<Rightarrow> ws_state" where
  "ws_on_open n st =
     (if ws_terminal st \<or> Some n \<noteq> ws_socket st then st
      else ws_settle_ready RResolved
             (ws_emit (if ws_attempt st = 1 then LConnected else LReconnected) None
               (st\<lparr>ws_opened := True\<rparr>)))"

definition ws_on_message :: "ws_options \<Rightarrow> nat \<Rightarrow> ws_data \<Rightarrow> int \<Rightarrow> ws_state \<Rightarrow> ws_state" where
  "ws_on_message o' n d rs st =
     (if inboundFrameExceedsLimit d (wo_max_frame o') then failDecode n rs st
      else st\<lparr>ws_chain := ws_chain st @ [(n, d)]\<rparr>)"

definition ws_deliver :: "nat \<Rightarrow> jv \<Rightarrow> ws_state \<Rightarrow> ws_state" where
  "ws_deliver n v st =
     (if ws_terminal st \<or> Some n \<noteq> ws_socket st then st
      else st\<lparr>ws_log := ws_log st @ map (\<lambda>l. WDeliver l n v) (ws_listeners st)\<rparr>)"

text \<open>The first decode of socket \<open>n\<close>'s chain completes.\<close>

fun chain_take :: "nat \<Rightarrow> (nat \<times> ws_data) list \<Rightarrow> (ws_data \<times> (nat \<times> ws_data) list) option" where
  "chain_take n [] = None"
| "chain_take n ((m, d) # q) =
     (if m = n then Some (d, q) else map_option (\<lambda>(e, r). (e, (m, d) # r)) (chain_take n q))"

definition ws_decoded :: "ws_options \<Rightarrow> nat \<Rightarrow> int \<Rightarrow> ws_state \<Rightarrow> ws_state" where
  "ws_decoded o' n rs st =
     (case chain_take n (ws_chain st) of
        None \<Rightarrow> st
      | Some (d, q) \<Rightarrow>
          let st1 = st\<lparr>ws_chain := q\<rparr> in
          if ws_terminal st1 \<or> Some n \<noteq> ws_socket st1 then st1
          else
            (case (case wo_decode o' of Some f \<Rightarrow> f d | None \<Rightarrow> defaultDecode d) of
               Inl e \<Rightarrow> failDecode n rs st1
             | Inr v \<Rightarrow> ws_deliver n v st1))"

text \<open>\<open>start\<close>: with a plain URL the factory is called at once; \<open>made\<close> says whether it returned.\<close>

definition ws_connect_failed :: "ws_state \<Rightarrow> ws_state" where
  "ws_connect_failed st =
     ws_finish (Some (ws_error ''WebSocket connection failed'' PConnect False None st)) st"

definition ws_start :: "ws_options \<Rightarrow> bool \<Rightarrow> ws_state \<Rightarrow> ws_state" where
  "ws_start o' made st =
     (let st1 = ws_emit LConnecting None st in
      if wo_static o' then (if made then ws_attach st1 else ws_connect_failed st1)
      else st1\<lparr>ws_wait := WStarting\<rparr>)"

text \<open>\<open>startAsync\<close> continues: whether URL and protocols resolved, and whether the factory returned.\<close>

definition ws_started :: "bool \<Rightarrow> bool \<Rightarrow> ws_state \<Rightarrow> ws_state" where
  "ws_started resolved made st =
     (if ws_wait st \<noteq> WStarting then st
      else
        let st1 = st\<lparr>ws_wait := WIdle\<rparr> in
        if \<not> resolved then ws_connect_failed st1
        else if ws_terminal st1 then st1
        else if made then ws_attach st1 else ws_connect_failed st1)"

definition ws_closed_error :: "int \<Rightarrow> ws_state \<Rightarrow> unknown" where
  "ws_closed_error code st = ws_error ''WebSocket connection closed'' PClose False (Some code) st"

definition handleClose ::
  "ws_options \<Rightarrow> int \<Rightarrow> bool \<Rightarrow> jnum \<Rightarrow> rat \<Rightarrow> ws_state \<Rightarrow> ws_state" where
  "handleClose o' code wasClean random elapsed st =
     (if ws_terminal st then st
      else
        let st1 = st\<lparr>ws_attached := False\<rparr>;
            retryable = (\<not> wasClean \<and> code \<noteq> 1000)
        in if \<not> retryable \<or> of_int (ws_attempt st1) \<ge> num_val (rp_maxAttempts (wo_policy o'))
           then ws_finish (Some (ws_closed_error code st1)) st1
           else
             (case computeBackoffDelay (wo_policy o') (num (ws_attempt st1)) random None of
                Inl e \<Rightarrow> st1
              | Inr delayMs \<Rightarrow>
                  if (case rp_deadlineMs (wo_policy o') of
                        Some d \<Rightarrow> elapsed + of_int delayMs > num_val d | None \<Rightarrow> False)
                  then ws_finish (Some (ws_closed_error code st1)) st1
                  else (ws_emit LRetrying (Some delayMs) st1)\<lparr>ws_wait := WSleeping code\<rparr>))"

definition ws_disconnect ::
  "ws_options \<Rightarrow> nat \<Rightarrow> int \<Rightarrow> bool \<Rightarrow> jnum \<Rightarrow> rat \<Rightarrow> ws_state \<Rightarrow> ws_state" where
  "ws_disconnect o' n code wasClean random elapsed st =
     (if ws_disconnected st \<or> ws_terminal st \<or> Some n \<noteq> ws_socket st then st
      else handleClose o' code wasClean random elapsed (st\<lparr>ws_disconnected := True\<rparr>))"

text \<open>The sleep before a reconnect ends; \<open>failed\<close> when its promise rejected.\<close>

definition ws_slept :: "ws_options \<Rightarrow> bool \<Rightarrow> bool \<Rightarrow> ws_state \<Rightarrow> ws_state" where
  "ws_slept o' failed made st =
     (case ws_wait st of
        WSleeping code \<Rightarrow>
          let st1 = st\<lparr>ws_wait := WIdle\<rparr> in
          if failed then (if ws_terminal st1 then st1 else ws_finish (Some (ws_closed_error code st1)) st1)
          else if ws_terminal st1 then st1
          else ws_start o' made (st1\<lparr>ws_attempt := ws_attempt st1 + 1\<rparr>)
      | _ \<Rightarrow> st)"

definition ws_on_abort :: "int \<Rightarrow> ws_state \<Rightarrow> ws_state" where
  "ws_on_abort rs st =
     (if ws_terminal st then st
      else ws_finish (Some (ws_error ''WebSocket connection aborted'' PClose False None st)) (closeSocket rs st))"

section \<open>Calls\<close>

text \<open>\<open>send\<close> rejects with an error, or hands the encoded message to the socket.\<close>

definition ws_send ::
  "ws_options \<Rightarrow> jv \<Rightarrow> bool \<Rightarrow> int \<Rightarrow> bool \<Rightarrow> ws_state \<Rightarrow> ws_state \<times> unknown option" where
  "ws_send o' message aborted rs sent st =
     (if aborted then (st, Some (ws_error ''WebSocket send aborted'' PRequest False None st))
      else if ws_terminal st \<or> ws_socket st = None \<or> rs \<noteq> 1
      then (st, Some (ws_error ''WebSocket is not open'' PRequest False None st))
      else
        (case (case wo_encode o' of Some f \<Rightarrow> f message | None \<Rightarrow> defaultEncode message) of
           Inl e \<Rightarrow> (st, Some (ws_error ''WebSocket message encoding failed'' PRequest False None st))
         | Inr s \<Rightarrow>
             if sent then (st\<lparr>ws_log := ws_log st @ [WSend s]\<rparr>, None)
             else (st, Some (ws_error ''WebSocket send failed'' PRequest False None st))))"

definition ws_subscribe :: "nat \<Rightarrow> ws_state \<Rightarrow> ws_state" where
  "ws_subscribe l st = (if ws_terminal st then st else st\<lparr>ws_listeners := os_add l (ws_listeners st)\<rparr>)"

definition ws_subscribe_close :: "nat \<Rightarrow> ws_state \<Rightarrow> ws_state" where
  "ws_subscribe_close l st =
     (if ws_terminal st then st\<lparr>ws_log := ws_log st @ [WCloseNotify l (ws_close_error st)]\<rparr>
      else st\<lparr>ws_close_listeners := os_add l (ws_close_listeners st)\<rparr>)"

definition ws_close :: "int \<Rightarrow> ws_state \<Rightarrow> ws_state" where
  "ws_close rs st = (if ws_terminal st then st else ws_finish None (closeSocket rs st))"

datatype ws_event =
    VOpen nat
  | VMessage nat ws_data int
  | VError nat int jnum rat
  | VClose nat int bool jnum rat
  | VDecoded nat int
  | VSlept bool bool
  | VStarted bool bool
  | VAbort int
  | VSend jv bool int bool
  | VSubscribe nat
  | VUnsubscribe nat
  | VSubscribeClose nat
  | VUnsubscribeClose nat
  | VCloseCall int

text \<open>Socket events reach the channel while its listeners are attached to that socket.\<close>

definition ws_hears :: "nat \<Rightarrow> ws_state \<Rightarrow> bool" where
  "ws_hears n st = (ws_attached st \<and> ws_socket st = Some n)"

fun ws_step :: "ws_options \<Rightarrow> ws_state \<Rightarrow> ws_event \<Rightarrow> ws_state" where
  "ws_step o' st (VOpen n) = (if ws_hears n st then ws_on_open n st else st)"
| "ws_step o' st (VMessage n d rs) = (if ws_hears n st then ws_on_message o' n d rs st else st)"
| "ws_step o' st (VError n rs random elapsed) =
     (if ws_hears n st \<and> rs = 3 then ws_disconnect o' n 1006 False random elapsed st else st)"
| "ws_step o' st (VClose n code wasClean random elapsed) =
     (if ws_hears n st then ws_disconnect o' n code wasClean random elapsed st else st)"
| "ws_step o' st (VDecoded n rs) = ws_decoded o' n rs st"
| "ws_step o' st (VSlept failed made) = ws_slept o' failed made st"
| "ws_step o' st (VStarted resolved made) = ws_started resolved made st"
| "ws_step o' st (VAbort rs) = ws_on_abort rs st"
| "ws_step o' st (VSend message aborted rs sent) = fst (ws_send o' message aborted rs sent st)"
| "ws_step o' st (VSubscribe l) = ws_subscribe l st"
| "ws_step o' st (VUnsubscribe l) = st\<lparr>ws_listeners := removeAll l (ws_listeners st)\<rparr>"
| "ws_step o' st (VSubscribeClose l) = ws_subscribe_close l st"
| "ws_step o' st (VUnsubscribeClose l) = st\<lparr>ws_close_listeners := removeAll l (ws_close_listeners st)\<rparr>"
| "ws_step o' st (VCloseCall rs) = ws_close rs st"

definition ws_connect :: "ws_options \<Rightarrow> bool \<Rightarrow> ws_state" where
  "ws_connect o' made =
     (let st = (if wo_aborted o' then ws_on_abort 3 ws_fresh else ws_fresh) in
      if ws_terminal st then st else ws_start o' made st)"

inductive ws_reachable :: "ws_options \<Rightarrow> ws_state \<Rightarrow> bool" for o' where
  connect: "validateTransportRetryPolicy (wo_policy o') = None \<Longrightarrow> ws_reachable o' (ws_connect o' made)"
| event: "ws_reachable o' st \<Longrightarrow> ws_reachable o' (ws_step o' st e)"

section \<open>Invariant\<close>

definition is_emit :: "lifecycle_state \<Rightarrow> ws_event_log \<Rightarrow> bool" where
  "is_emit s x = (case x of WEmit ev \<Rightarrow> le_state ev = s | _ \<Rightarrow> False)"

definition emits :: "lifecycle_state \<Rightarrow> ws_event_log list \<Rightarrow> nat" where
  "emits s l = length (filter (is_emit s) l)"

fun is_notify :: "ws_event_log \<Rightarrow> bool" where
  "is_notify (WCloseNotify l e) = True"
| "is_notify _ = False"

text \<open>\<open>closed\<close> is reported once, and after it only to late close observers.\<close>

definition closed_log :: "ws_event_log list \<Rightarrow> bool" where
  "closed_log l = (\<exists>pre ev post. l = pre @ [WEmit ev] @ post \<and> le_state ev = LClosed
     \<and> emits LClosed pre = 0 \<and> list_all is_notify post)"

lemma emits_append [simp]: "emits s (k @ l) = emits s k + emits s l"
  by (simp add: emits_def)

lemma emits_simps [simp]:
  "emits s [] = 0"
  "emits s (WEmit ev # l) = (if le_state ev = s then 1 else 0) + emits s l"
  "emits s (WDeliver a b v # l) = emits s l"
  "emits s (WCloseNotify a e # l) = emits s l"
  "emits s (WSocketClose n # l) = emits s l"
  "emits s (WSend t # l) = emits s l"
  by (simp_all add: emits_def is_emit_def)

lemma emits_maps [simp]:
  "emits s (map (\<lambda>l. WCloseNotify l e) xs) = 0"
  "emits s (map (\<lambda>l. WDeliver l n v) xs) = 0"
  by (induction xs) auto

lemma closed_log_snoc: "closed_log l \<Longrightarrow> is_notify x \<Longrightarrow> closed_log (l @ [x])"
  unfolding closed_log_def by (metis append.assoc append_Cons list_all_append list.pred_inject)

lemma closed_log_once: "closed_log l \<Longrightarrow> emits LClosed l = 1"
proof -
  have "list_all is_notify post \<Longrightarrow> emits LClosed post = 0" for post
  proof (induction post)
    case (Cons x post)
    then show ?case by (cases x) auto
  qed simp
  then show "closed_log l \<Longrightarrow> emits LClosed l = 1" by (auto simp: closed_log_def)
qed

definition ws_inv :: "ws_options \<Rightarrow> ws_state \<Rightarrow> bool" where
  "ws_inv o' st =
     (1 \<le> ws_attempt st \<and> of_int (ws_attempt st) \<le> num_val (rp_maxAttempts (wo_policy o'))
      \<and> (ws_opened st \<longrightarrow> ws_ready st = RResolved)
      \<and> (\<not> ws_opened st \<longrightarrow> (if ws_terminal st then \<exists>e. ws_ready st = RRejected e else ws_ready st = RPending))
      \<and> (ws_terminal st \<longrightarrow> ws_listeners st = [] \<and> ws_close_listeners st = [] \<and> \<not> ws_attached st)
      \<and> (if ws_terminal st then closed_log (ws_log st) else emits LClosed (ws_log st) = 0)
      \<and> int (emits LConnecting (ws_log st)) \<le> ws_attempt st
      \<and> int (ws_sockets st) \<le> ws_attempt st
      \<and> (ws_wait st = WStarting \<longrightarrow> int (ws_sockets st) < ws_attempt st)
      \<and> (\<forall>c. ws_wait st = WSleeping c \<longrightarrow> of_int (ws_attempt st) < num_val (rp_maxAttempts (wo_policy o')))
      \<and> (ws_attached st \<longrightarrow> ws_wait st = WIdle))"

lemma ws_inv_detach: "ws_inv o' st \<Longrightarrow> ws_inv o' (st\<lparr>ws_attached := False\<rparr>)"
  by (simp add: ws_inv_def)

lemma ws_inv_frames [simp]:
  "ws_inv o' (st\<lparr>ws_disconnected := b\<rparr>) \<longleftrightarrow> ws_inv o' st"
  "ws_inv o' (st\<lparr>ws_chain := q\<rparr>) \<longleftrightarrow> ws_inv o' st"
  "ws_inv o' (st\<lparr>ws_close_error := e\<rparr>) \<longleftrightarrow> ws_inv o' st"
  by (simp_all add: ws_inv_def)

lemma ws_inv_idle: "ws_inv o' st \<Longrightarrow> ws_inv o' (st\<lparr>ws_wait := WIdle\<rparr>)"
  by (simp add: ws_inv_def)

lemma ws_emit_fields [simp]:
  "ws_attempt (ws_emit x d st) = ws_attempt st" "ws_opened (ws_emit x d st) = ws_opened st"
  "ws_terminal (ws_emit x d st) = ws_terminal st" "ws_ready (ws_emit x d st) = ws_ready st"
  "ws_sockets (ws_emit x d st) = ws_sockets st" "ws_attached (ws_emit x d st) = ws_attached st"
  "ws_wait (ws_emit x d st) = ws_wait st" "ws_listeners (ws_emit x d st) = ws_listeners st"
  "ws_close_listeners (ws_emit x d st) = ws_close_listeners st"
  "ws_socket (ws_emit x d st) = ws_socket st" "ws_close_error (ws_emit x d st) = ws_close_error st"
  by (simp_all add: ws_emit_def)

lemma ws_settle_ready_fields [simp]:
  "ws_attempt (ws_settle_ready r st) = ws_attempt st" "ws_opened (ws_settle_ready r st) = ws_opened st"
  "ws_terminal (ws_settle_ready r st) = ws_terminal st"
  "ws_sockets (ws_settle_ready r st) = ws_sockets st" "ws_attached (ws_settle_ready r st) = ws_attached st"
  "ws_wait (ws_settle_ready r st) = ws_wait st" "ws_listeners (ws_settle_ready r st) = ws_listeners st"
  "ws_close_listeners (ws_settle_ready r st) = ws_close_listeners st" "ws_log (ws_settle_ready r st) = ws_log st"
  by (simp_all add: ws_settle_ready_def)

definition closed_event :: "ws_state \<Rightarrow> lifecycle_event" where
  "closed_event st = \<lparr>le_state = LClosed, le_kind = KWebsocket, le_operation = ''connect'',
     le_attempt = ws_attempt st, le_delayMs = None\<rparr>"

lemma closed_event_state [simp]: "le_state (closed_event st) = LClosed"
  by (simp add: closed_event_def)

lemma ws_finish_fields:
  "ws_terminal (ws_finish e st)"
  "ws_attempt (ws_finish e st) = ws_attempt st" "ws_opened (ws_finish e st) = ws_opened st"
  "ws_sockets (ws_finish e st) = ws_sockets st" "ws_wait (ws_finish e st) = ws_wait st"
  "\<not> ws_terminal st \<Longrightarrow> ws_listeners (ws_finish e st) = []"
  "\<not> ws_terminal st \<Longrightarrow> ws_close_listeners (ws_finish e st) = []"
  "\<not> ws_terminal st \<Longrightarrow> \<not> ws_attached (ws_finish e st)"
  "ws_opened st \<Longrightarrow> ws_ready (ws_finish e st) = ws_ready st"
  "\<not> ws_terminal st \<Longrightarrow> \<not> ws_opened st \<Longrightarrow> ws_ready st = RPending \<Longrightarrow> \<exists>x. ws_ready (ws_finish e st) = RRejected x"
  "\<not> ws_terminal st \<Longrightarrow> ws_log (ws_finish e st) =
     ws_log st @ WEmit (closed_event st) # map (\<lambda>l. WCloseNotify l e) (ws_close_listeners st)"
  by (simp_all add: ws_finish_def Let_def)
    (simp_all add: ws_settle_ready_def ws_emit_def closed_event_def)

lemma ws_finish_inv:
  assumes "ws_inv o' st"
  shows "ws_inv o' (ws_finish e st)"
proof (cases "ws_terminal st")
  case True
  with assms show ?thesis by (simp add: ws_finish_def)
next
  case False
  let ?l = "ws_log st @ WEmit (closed_event st) # map (\<lambda>l. WCloseNotify l e) (ws_close_listeners st)"
  have "closed_log ?l"
    unfolding closed_log_def
    using assms False
    by (intro exI [of _ "ws_log st"] exI [of _ "closed_event st"]
        exI [of _ "map (\<lambda>l. WCloseNotify l e) (ws_close_listeners st)"])
      (simp add: ws_inv_def list_all_iff)
  moreover have "emits LConnecting ?l = emits LConnecting (ws_log st)" by simp
  moreover have "\<not> ws_opened st \<Longrightarrow> ws_ready st = RPending" using assms False by (simp add: ws_inv_def)
  ultimately show ?thesis
    using assms False ws_finish_fields(10) [OF False, of e] by (simp add: ws_inv_def ws_finish_fields)
qed

lemma closeSocket_inv: "ws_inv o' st \<Longrightarrow> \<not> ws_terminal st \<Longrightarrow> ws_inv o' (closeSocket rs st)"
  by (auto simp: closeSocket_def Let_def ws_inv_def split: option.splits)

lemma failDecode_inv: "ws_inv o' st \<Longrightarrow> ws_inv o' (failDecode n rs st)"
  by (simp add: failDecode_def ws_finish_inv closeSocket_inv)

lemma ws_on_open_inv: "ws_inv o' st \<Longrightarrow> ws_inv o' (ws_on_open n st)"
  by (auto simp: ws_on_open_def ws_inv_def ws_emit_def ws_settle_ready_def)

lemma ws_deliver_inv: "ws_inv o' st \<Longrightarrow> ws_inv o' (ws_deliver n v st)"
  by (simp add: ws_deliver_def ws_inv_def)

lemma ws_decoded_inv: "ws_inv o' st \<Longrightarrow> ws_inv o' (ws_decoded o' n rs st)"
  by (auto simp: ws_decoded_def Let_def failDecode_inv ws_deliver_inv split: option.splits sum.splits)

lemma ws_connect_failed_inv: "ws_inv o' st \<Longrightarrow> ws_inv o' (ws_connect_failed st)"
  by (simp add: ws_connect_failed_def ws_finish_inv)

text \<open>A state about to start an attempt it has not counted yet.\<close>

lemma ws_start_inv:
  assumes "ws_inv o' (st\<lparr>ws_attempt := a\<rparr>)" and "ws_wait st = WIdle" and "\<not> ws_attached st" and "\<not> ws_terminal st"
    and "ws_attempt st = a + 1" and "of_int (ws_attempt st) \<le> num_val (rp_maxAttempts (wo_policy o'))"
  shows "ws_inv o' (ws_start o' made st)"
proof -
  have "ws_inv o' (ws_emit LConnecting None st)"
    using assms by (simp add: ws_inv_def ws_emit_def)
  with assms show ?thesis
    using ws_connect_failed_inv [of o' "ws_emit LConnecting None st"]
    by (auto simp: ws_start_def Let_def) (auto simp: ws_inv_def ws_attach_def ws_emit_def)
qed

lemma ws_started_inv: "ws_inv o' st \<Longrightarrow> ws_inv o' (ws_started resolved made st)"
  using ws_connect_failed_inv [of o' "st\<lparr>ws_wait := WIdle\<rparr>"] ws_inv_idle [of o' st]
  by (auto simp: ws_started_def Let_def) (auto simp: ws_inv_def ws_attach_def)

lemma ws_retry_inv:
  "ws_inv o' st \<Longrightarrow> \<not> ws_attached st \<Longrightarrow> \<not> ws_terminal st \<Longrightarrow> of_int (ws_attempt st) < num_val (rp_maxAttempts (wo_policy o')) \<Longrightarrow>
   ws_inv o' ((ws_emit LRetrying d st)\<lparr>ws_wait := WSleeping c\<rparr>)"
  by (simp add: ws_inv_def ws_emit_def)

lemma handleClose_inv:
  assumes "ws_inv o' st"
  shows "ws_inv o' (handleClose o' code wasClean random elapsed st)"
proof -
  define st1 where "st1 = st\<lparr>ws_attached := False\<rparr>"
  have d: "ws_inv o' st1" unfolding st1_def by (rule ws_inv_detach [OF assms])
  have u: "\<not> ws_attached st1" "\<not> ws_terminal st1 \<longleftrightarrow> \<not> ws_terminal st" by (simp_all add: st1_def)
  show ?thesis
    using assms d ws_finish_inv [OF d] ws_retry_inv [OF d u(1)]
    unfolding handleClose_def Let_def st1_def [symmetric]
    by (cases "computeBackoffDelay (wo_policy o') (num (ws_attempt st1)) random None")
      (simp_all add: not_le u(2))
qed

lemma ws_disconnect_inv: "ws_inv o' st \<Longrightarrow> ws_inv o' (ws_disconnect o' n code wasClean random elapsed st)"
  by (simp add: ws_disconnect_def handleClose_inv)

lemma policy_next:
  assumes "policy_ok p" and "of_int a < num_val (rp_maxAttempts p)"
  shows "of_int (a + 1) \<le> num_val (rp_maxAttempts p)"
proof -
  obtain n where n: "num_val (rp_maxAttempts p) = of_int n" using assms(1) by (auto simp: policy_ok_def)
  have "a + 1 \<le> n" using assms(2) unfolding n by simp
  then show ?thesis unfolding n by (simp only: of_int_le_iff)
qed

lemma ws_slept_inv:
  assumes "ws_inv o' st" and "policy_ok (wo_policy o')"
  shows "ws_inv o' (ws_slept o' failed made st)"
proof (cases "ws_wait st")
  case (WSleeping c)
  have i: "ws_inv o' (st\<lparr>ws_wait := WIdle\<rparr>)" by (rule ws_inv_idle [OF assms(1)])
  have f: "ws_inv o' (ws_finish e (st\<lparr>ws_wait := WIdle\<rparr>))" for e by (rule ws_finish_inv [OF i])
  have "ws_inv o' (ws_start o' made (st\<lparr>ws_wait := WIdle, ws_attempt := ws_attempt st + 1\<rparr>))"
    if "\<not> ws_terminal st"
  proof (rule ws_start_inv)
    show "ws_inv o' (st\<lparr>ws_wait := WIdle, ws_attempt := ws_attempt st + 1\<rparr>\<lparr>ws_attempt := ws_attempt st\<rparr>)"
      using i by (cases st) simp
    have "of_int (ws_attempt st) < num_val (rp_maxAttempts (wo_policy o'))"
      using assms WSleeping by (simp add: ws_inv_def)
    show "of_int (ws_attempt (st\<lparr>ws_wait := WIdle, ws_attempt := ws_attempt st + 1\<rparr>))
        \<le> num_val (rp_maxAttempts (wo_policy o'))"
      using policy_next [OF assms(2) \<open>of_int (ws_attempt st) < _\<close>] by simp
  qed (use assms WSleeping that in \<open>auto simp: ws_inv_def\<close>)
  with WSleeping i f show ?thesis by (simp add: ws_slept_def Let_def)
qed (use assms in \<open>simp_all add: ws_slept_def\<close>)

lemma ws_on_message_inv: "ws_inv o' st \<Longrightarrow> ws_inv o' (ws_on_message o' n d rs st)"
  by (simp add: ws_on_message_def failDecode_inv)

lemma ws_on_abort_inv: "ws_inv o' st \<Longrightarrow> ws_inv o' (ws_on_abort rs st)"
  by (simp add: ws_on_abort_def ws_finish_inv closeSocket_inv)

lemma ws_close_inv: "ws_inv o' st \<Longrightarrow> ws_inv o' (ws_close rs st)"
  by (simp add: ws_close_def ws_finish_inv closeSocket_inv)

lemma ws_send_inv: "ws_inv o' st \<Longrightarrow> ws_inv o' (fst (ws_send o' m aborted rs sent st))"
  by (auto simp: ws_send_def ws_inv_def split: sum.splits)

lemma ws_subscribe_inv: "ws_inv o' st \<Longrightarrow> ws_inv o' (ws_subscribe l st)"
  by (simp add: ws_subscribe_def ws_inv_def)

lemma ws_unsubscribe_inv:
  "ws_inv o' st \<Longrightarrow> ws_inv o' (st\<lparr>ws_listeners := removeAll l (ws_listeners st)\<rparr>)"
  "ws_inv o' st \<Longrightarrow> ws_inv o' (st\<lparr>ws_close_listeners := removeAll l (ws_close_listeners st)\<rparr>)"
  by (auto simp: ws_inv_def)

lemma ws_subscribe_close_inv: "ws_inv o' st \<Longrightarrow> ws_inv o' (ws_subscribe_close l st)"
  by (cases "ws_terminal st") (simp_all add: ws_subscribe_close_def ws_inv_def closed_log_snoc)

lemmas ws_step_invs = ws_on_open_inv ws_on_message_inv ws_disconnect_inv ws_decoded_inv ws_started_inv
  ws_on_abort_inv ws_send_inv ws_subscribe_inv ws_unsubscribe_inv ws_subscribe_close_inv ws_close_inv

lemma ws_step_inv: "ws_inv o' st \<Longrightarrow> policy_ok (wo_policy o') \<Longrightarrow> ws_inv o' (ws_step o' st e)"
  by (cases e) (simp_all add: ws_step_invs ws_slept_inv)

lemma ws_connect_inv:
  assumes "policy_ok (wo_policy o')"
  shows "ws_inv o' (ws_connect o' made)"
proof -
  have m: "1 \<le> num_val (rp_maxAttempts (wo_policy o'))"
    using assms by (auto simp: policy_ok_def)
  have i: "ws_inv o' ws_fresh" using m by (simp add: ws_inv_def ws_fresh_def)
  have e: "ws_inv o' (ws_emit LConnecting None ws_fresh)"
    using m by (simp add: ws_inv_def ws_fresh_def ws_emit_def)
  have a: "ws_inv o' (ws_attach (ws_emit LConnecting None ws_fresh))"
    "ws_inv o' ((ws_emit LConnecting None ws_fresh)\<lparr>ws_wait := WStarting\<rparr>)"
    using m by (simp_all add: ws_inv_def ws_fresh_def ws_emit_def ws_attach_def)
  have t: "\<not> ws_terminal ws_fresh" by (simp add: ws_fresh_def)
  show ?thesis
    using ws_on_abort_inv [OF i] ws_connect_failed_inv [OF e] a t
    by (simp add: ws_connect_def ws_start_def Let_def ws_on_abort_def ws_finish_fields(1))
qed

inductive_cases ws_reachableE: "ws_reachable o' st"

lemma reachable_policy: "ws_reachable o' st \<Longrightarrow> policy_ok (wo_policy o')"
  by (induction rule: ws_reachable.induct) (simp_all add: validate_policy)

lemma reachable_inv: "ws_reachable o' st \<Longrightarrow> ws_inv o' st"
proof (induction rule: ws_reachable.induct)
  case (connect made)
  then show ?case by (simp add: ws_connect_inv validate_policy)
next
  case (event st e)
  then show ?case using reachable_policy [OF event.hyps] by (simp add: ws_step_inv)
qed

section \<open>The end is final\<close>

lemma terminal_step:
  assumes "ws_terminal st" and "\<not> ws_attached st"
  shows "ws_terminal (ws_step o' st e) \<and> ws_ready (ws_step o' st e) = ws_ready st
    \<and> ws_close_error (ws_step o' st e) = ws_close_error st
    \<and> ws_attempt (ws_step o' st e) = ws_attempt st
    \<and> (\<exists>l. ws_log (ws_step o' st e) = ws_log st @ l \<and> list_all is_notify l)"
proof -
  have "\<not> ws_hears n st" for n using assms by (simp add: ws_hears_def)
  with assms(1) show ?thesis
    by (cases e)
      (auto simp: ws_decoded_def ws_slept_def ws_started_def ws_on_abort_def ws_send_def ws_subscribe_def
        ws_subscribe_close_def ws_close_def ws_connect_failed_def ws_finish_def Let_def
        split: option.splits ws_wait.splits)
qed

section \<open>Properties\<close>

definition wit_ws :: ws_options where
  "wit_ws = \<lparr>wo_policy = wit_policy, wo_max_frame = 100, wo_static = True, wo_aborted = False,
     wo_decode = None, wo_encode = None\<rparr>"

lemma wit_ws_closed:
  "ws_reachable wit_ws (ws_step wit_ws (ws_step wit_ws (ws_connect wit_ws True) (VOpen 0)) (VCloseCall 1))"
  by (intro ws_reachable.intros) code_simp

text \<open>C36: Life cycle. In every state a connection can reach: it has started at most as many attempts, and
  attached at most as many sockets, as the policy allows; its \<open>ready\<close> promise resolved if a socket
  ever opened, rejected if the connection ended before, and is open only while neither happened;
  \<open>closed\<close> is reported exactly once when the connection ends and never before, and after it only
  late close observers are called.\<close>

theorem websocket_lifecycle:
  assumes "ws_reachable o' st"
  shows "int (emits LConnecting (ws_log st)) \<le> ws_attempt st \<and> int (ws_sockets st) \<le> ws_attempt st
    \<and> of_int (ws_attempt st) \<le> num_val (rp_maxAttempts (wo_policy o'))
    \<and> (ws_ready st = RPending \<longleftrightarrow> \<not> ws_opened st \<and> \<not> ws_terminal st)
    \<and> (ws_ready st = RResolved \<longleftrightarrow> ws_opened st)
    \<and> emits LClosed (ws_log st) = (if ws_terminal st then 1 else 0)
    \<and> (ws_terminal st \<longrightarrow> closed_log (ws_log st) \<and> ws_listeners st = [] \<and> ws_close_listeners st = [])"
proof -
  have i: "ws_inv o' st" by (rule reachable_inv [OF assms])
  then show ?thesis by (auto simp: ws_inv_def closed_log_once)
qed

theorem websocket_lifecycle_witness:
  "\<exists>st. ws_reachable wit_ws st \<and> ws_ready st = RResolved \<and> emits LClosed (ws_log st) = 1"
proof -
  let ?st = "ws_step wit_ws (ws_step wit_ws (ws_connect wit_ws True) (VOpen 0)) (VCloseCall 1)"
  have "ws_opened ?st" "ws_terminal ?st" by code_simp+
  with websocket_lifecycle [OF wit_ws_closed] wit_ws_closed show ?thesis by auto
qed

text \<open>The end is final. Once a reachable connection has ended, no event changes its attempt, its
  ready promise or its close error, delivers a message, or does anything but tell a late close
  observer that error.\<close>

theorem websocket_end_final:
  assumes "ws_reachable o' st" and "ws_terminal st"
  shows "ws_terminal (ws_step o' st e) \<and> ws_ready (ws_step o' st e) = ws_ready st
    \<and> ws_close_error (ws_step o' st e) = ws_close_error st
    \<and> ws_attempt (ws_step o' st e) = ws_attempt st
    \<and> (\<exists>l. ws_log (ws_step o' st e) = ws_log st @ l \<and> list_all is_notify l)"
proof -
  have "\<not> ws_attached st" using reachable_inv [OF assms(1)] assms(2) by (simp add: ws_inv_def)
  with assms(2) show ?thesis by (rule terminal_step)
qed

theorem websocket_end_final_witness:
  "\<exists>st. ws_reachable wit_ws st \<and> ws_terminal (ws_step wit_ws st (VOpen 0))"
proof -
  have "ws_terminal (ws_step wit_ws (ws_step wit_ws (ws_connect wit_ws True) (VOpen 0)) (VCloseCall 1))"
    by code_simp
  from websocket_end_final [OF wit_ws_closed this] wit_ws_closed show ?thesis by blast
qed

end
