(* ===== verification/GatewayOptions.thy ===== *)
theory GatewayOptions
  imports SseStream
begin

text \<open>
  The pure part of \<open>src/core/gateway/rpc/client.ts\<close>: the resolution of the client's options (scopes,
  profile, protocol range, connect parameters), the timing of \<open>preauth-handshake.ts\<close>, the signed
  payload of \<open>device-crypto.ts\<close>, the close description of \<open>src/core/ws/close.ts\<close>, the errors, and
  the redaction of what a trace records. Options of type number may hold any number; scopes may
  hold any value, as the code checks them.
\<close>

record env_keys =
  ek_timeout :: string
  ek_test_timeout :: "string option"
  ek_test_flag :: "string option"

record gateway_options =
  go_clientId :: "string option"
  go_clientVersion :: "string option"
  go_clientMode :: "string option"
  go_clientPlatform :: "string option"
  go_frame_client_id :: bool
  go_minProtocol :: "jnum option"
  go_maxProtocol :: "jnum option"
  go_enableDevice :: "bool option"
  go_requestedScopes :: "jv list option"
  go_defaultScopes :: "jv list option"
  go_preauth :: "jnum option"
  go_env :: "(string, string) omap option"
  go_env_keys :: "env_keys option"
  go_maxConcurrent :: "jnum option"
  go_maxFrame :: "jnum option"
  go_trace :: bool

section \<open>Scopes, profile and protocol\<close>

fun scope_loop :: "jv list \<Rightarrow> string list \<Rightarrow> string list" where
  "scope_loop [] result = result"
| "scope_loop (s # ss) result =
     (case text_of s of
        None \<Rightarrow> scope_loop ss result
      | Some raw \<Rightarrow>
          let trimmed = trim raw in
          if trimmed = [] \<or> trimmed \<in> set result then scope_loop ss result
          else scope_loop ss (result @ [trimmed]))"

definition normalizeGatewayScopes :: "jv list option \<Rightarrow> string list" where
  "normalizeGatewayScopes scopes = (case scopes of None \<Rightarrow> [] | Some ss \<Rightarrow> scope_loop ss [])"

definition DEFAULT_SCOPES :: "string list" where
  "DEFAULT_SCOPES = [''operator.read'']"

definition resolveGatewayConnectScopes :: "gateway_options \<Rightarrow> string list" where
  "resolveGatewayConnectScopes o' =
     (let requested = normalizeGatewayScopes (go_requestedScopes o') in
      if requested \<noteq> [] then requested
      else
        let defaultRequested = normalizeGatewayScopes (go_defaultScopes o') in
        if defaultRequested \<noteq> [] then defaultRequested else DEFAULT_SCOPES)"

record client_profile =
  cp_id :: string
  cp_version :: string
  cp_platform :: string
  cp_mode :: string

definition or_else :: "'a option \<Rightarrow> 'a \<Rightarrow> 'a" where
  "or_else x y = (case x of Some v \<Rightarrow> v | None \<Rightarrow> y)"

definition resolveGatewayRpcClientProfile :: "gateway_options \<Rightarrow> unknown + client_profile" where
  "resolveGatewayRpcClientProfile o' =
     (let clientId = (case go_clientId o' of Some s \<Rightarrow> trim s | None \<Rightarrow> []) in
      if clientId = []
      then Inl (UErr (invalidConfigError ''Missing clientId. Pass clientId to useGatewayEventStream, GatewayClientProvider, or useGatewayClient.''))
      else Inr \<lparr>cp_id = clientId, cp_version = or_else (go_clientVersion o') ''0.1.0'',
                cp_platform = or_else (go_clientPlatform o') ''web'',
                cp_mode = or_else (go_clientMode o') ''webchat''\<rparr>)"

definition DEFAULT_GATEWAY_PROTOCOL_VERSION :: int where
  "DEFAULT_GATEWAY_PROTOCOL_VERSION = 4"

definition resolveGatewayProtocolRange :: "gateway_options \<Rightarrow> unknown + int \<times> int" where
  "resolveGatewayProtocolRange o' =
     (let minP = or_else (go_minProtocol o') (num DEFAULT_GATEWAY_PROTOCOL_VERSION);
          maxP = or_else (go_maxProtocol o') (num DEFAULT_GATEWAY_PROTOCOL_VERSION)
      in if \<not> is_integer minP \<or> \<not> is_integer maxP \<or> num_lt minP (num 1) \<or> num_lt maxP (num 1)
           \<or> num_lt maxP minP
         then Inl (UErr (invalidConfigError ''Gateway protocol range must be positive integers with minProtocol <= maxProtocol.''))
         else Inr (\<lfloor>num_val minP\<rfloor>, \<lfloor>num_val maxP\<rfloor>))"

definition mergeGatewayRpcClientOptionsForReactNative :: "gateway_options \<Rightarrow> gateway_options" where
  "mergeGatewayRpcClientOptionsForReactNative o' =
     o'\<lparr>go_enableDevice := Some (or_else (go_enableDevice o') True),
        go_clientPlatform := Some (or_else (go_clientPlatform o') ''react-native'')\<rparr>"

section \<open>Connect parameters\<close>

definition createGatewayRpcConnectParams ::
  "string option \<Rightarrow> string \<Rightarrow> string \<Rightarrow> gateway_options \<Rightarrow> jv option \<Rightarrow> unknown + jv" where
  "createGatewayRpcConnectParams authToken userAgent locale o' device =
     (case resolveGatewayRpcClientProfile o' of
        Inl e \<Rightarrow> Inl e
      | Inr client \<Rightarrow>
          (case resolveGatewayProtocolRange o' of
             Inl e \<Rightarrow> Inl e
           | Inr (lo, hi) \<Rightarrow>
               Inr (JObj ([
                 (''minProtocol'', JNum (num lo)), (''maxProtocol'', JNum (num hi)),
                 (''client'', JObj [(''id'', JStr (cp_id client)), (''version'', JStr (cp_version client)),
                    (''platform'', JStr (cp_platform client)), (''mode'', JStr (cp_mode client))]),
                 (''role'', JStr ''operator''),
                 (''scopes'', JArr (map JStr (resolveGatewayConnectScopes o'))),
                 (''caps'', JArr []),
                 (''auth'', (case authToken of
                    Some t \<Rightarrow> if t = [] then JUndef else JObj [(''token'', JStr t), (''password'', JStr t)]
                  | None \<Rightarrow> JUndef)),
                 (''userAgent'', JStr userAgent), (''locale'', JStr locale)]
                 @ (case device of Some d \<Rightarrow> [(''device'', d)] | None \<Rightarrow> [])))))"

section \<open>The signed device payload\<close>

definition normalizeMetadata :: "string option \<Rightarrow> string" where
  "normalizeMetadata v = (case v of None \<Rightarrow> [] | Some s \<Rightarrow> to_lower (trim s))"

record device_payload =
  dp_deviceId :: string
  dp_clientId :: string
  dp_clientMode :: string
  dp_role :: string
  dp_scopes :: "string list"
  dp_signedAtMs :: int
  dp_token :: string
  dp_nonce :: string
  dp_platform :: "string option"
  dp_deviceFamily :: "string option"

definition payload_fields :: "device_payload \<Rightarrow> string list" where
  "payload_fields p =
     [''v3'', dp_deviceId p, dp_clientId p, dp_clientMode p, dp_role p,
      join_with '','' (dp_scopes p), show_int (dp_signedAtMs p), dp_token p, dp_nonce p,
      normalizeMetadata (dp_platform p), normalizeMetadata (dp_deviceFamily p)]"

definition buildDeviceAuthPayloadV3 :: "device_payload \<Rightarrow> string" where
  "buildDeviceAuthPayloadV3 p = join_with ''|'' (payload_fields p)"

section \<open>Handshake timing\<close>

definition DEFAULT_PREAUTH_HANDSHAKE_TIMEOUT_MS :: rat where
  "DEFAULT_PREAUTH_HANDSHAKE_TIMEOUT_MS = 10000"

definition GATEWAY_PREAUTH_HANDSHAKE_ENV_KEYS :: env_keys where
  "GATEWAY_PREAUTH_HANDSHAKE_ENV_KEYS =
     \<lparr>ek_timeout = ''GATEWAY_PREAUTH_HANDSHAKE_TIMEOUT_MS'',
      ek_test_timeout = Some ''GATEWAY_TEST_PREAUTH_HANDSHAKE_TIMEOUT_MS'',
      ek_test_flag = Some ''VITEST''\<rparr>"

definition parsePositiveMs :: "string option \<Rightarrow> rat option" where
  "parsePositiveMs v =
     (case v of
        None \<Rightarrow> None
      | Some s \<Rightarrow>
          if s = [] then None
          else (case js_number s of Fin q \<Rightarrow> if 0 < q then Some q else None | _ \<Rightarrow> None))"

definition non_empty :: "string option \<Rightarrow> bool" where
  "non_empty v = (case v of Some s \<Rightarrow> s \<noteq> [] | None \<Rightarrow> False)"

definition env_lookup :: "(string, string) omap \<Rightarrow> string option \<Rightarrow> string option" where
  "env_lookup env key = (if non_empty key then om_get env (the key) else None)"

text \<open>The part after the explicit option: the configured key, the test key, the default.\<close>

definition preauth_env :: "(string, string) omap option \<Rightarrow> env_keys option \<Rightarrow> rat" where
  "preauth_env env envKeys =
     (case env of
        None \<Rightarrow> DEFAULT_PREAUTH_HANDSHAKE_TIMEOUT_MS
      | Some e \<Rightarrow>
          let keys = or_else envKeys GATEWAY_PREAUTH_HANDSHAKE_ENV_KEYS in
          (case parsePositiveMs (om_get e (ek_timeout keys)) of
             Some q \<Rightarrow> q
           | None \<Rightarrow>
               let testFlag = env_lookup e (ek_test_flag keys);
                   testTimeout = (if non_empty (ek_test_timeout keys) \<and> non_empty testFlag
                                  then parsePositiveMs (env_lookup e (ek_test_timeout keys)) else None)
               in or_else testTimeout DEFAULT_PREAUTH_HANDSHAKE_TIMEOUT_MS))"

definition resolvePreauthHandshakeTimeoutMs ::
  "jnum option \<Rightarrow> (string, string) omap option \<Rightarrow> env_keys option \<Rightarrow> rat" where
  "resolvePreauthHandshakeTimeoutMs explicit env envKeys =
     (case explicit of
        Some (Fin q) \<Rightarrow> if 0 < q then q else preauth_env env envKeys
      | _ \<Rightarrow> preauth_env env envKeys)"

definition HANDSHAKE_SAFETY_MARGIN_MS :: rat where
  "HANDSHAKE_SAFETY_MARGIN_MS = 2000"

definition MIN_MS_BEFORE_SERVER_CLOSE :: rat where
  "MIN_MS_BEFORE_SERVER_CLOSE = 250"

definition fallback_delay :: "rat \<Rightarrow> rat" where
  "fallback_delay rawTimeout =
     min (max 750 (rawTimeout - HANDSHAKE_SAFETY_MARGIN_MS))
         (max 1 (rawTimeout - MIN_MS_BEFORE_SERVER_CLOSE))"

definition resolveDeviceTokenOnlyFallbackMs ::
  "jnum option \<Rightarrow> (string, string) omap option \<Rightarrow> env_keys option \<Rightarrow> rat" where
  "resolveDeviceTokenOnlyFallbackMs explicit env envKeys =
     fallback_delay (resolvePreauthHandshakeTimeoutMs explicit env envKeys)"

definition resolvePositiveIntegerOption :: "jnum option \<Rightarrow> nat \<Rightarrow> nat" where
  "resolvePositiveIntegerOption value fallback =
     (case value of
        Some x \<Rightarrow> if is_integer x \<and> num_lt (num 0) x then nat \<lfloor>num_val x\<rfloor> else fallback
      | None \<Rightarrow> fallback)"

section \<open>Close descriptions and errors\<close>

record close_description =
  cd_code :: "int option"
  cd_reason :: "string option"
  cd_message :: string

text \<open>The event, when there is one, is its \<open>code\<close> and its \<open>reason\<close>.\<close>

definition close_code :: "(jv \<times> jv) option \<Rightarrow> int option" where
  "close_code event =
     (case event of Some (c, _) \<Rightarrow> map_option round_half_up (finite_of c) | None \<Rightarrow> None)"

definition close_reason :: "(jv \<times> jv) option \<Rightarrow> string option" where
  "close_reason event =
     (case event of
        Some (_, r) \<Rightarrow> (case text_of r of Some s \<Rightarrow> if trim s = [] then None else Some (trim s) | None \<Rightarrow> None)
      | None \<Rightarrow> None)"

definition describeWebSocketClose :: "(jv \<times> jv) option \<Rightarrow> string \<Rightarrow> close_description" where
  "describeWebSocketClose event fallbackMessage =
     (let code = close_code event; reason = close_reason event in
      \<lparr>cd_code = code, cd_reason = reason,
       cd_message = (case (code, reason) of
          (Some c, Some r) \<Rightarrow> fallbackMessage @ '' ('' @ show_int c @ ''): '' @ r
        | (Some c, None) \<Rightarrow> fallbackMessage @ '' ('' @ show_int c @ '')''
        | (None, Some r) \<Rightarrow> fallbackMessage @ '': '' @ r
        | (None, None) \<Rightarrow> fallbackMessage)\<rparr>)"

definition createGatewaySocketClosedError :: "(jv \<times> jv) option \<Rightarrow> unknown" where
  "createGatewaySocketClosedError event =
     (let closed = describeWebSocketClose event ''gateway closed'' in
      UErr (GatewayRpcError
        (if cd_code closed = None \<and> cd_reason closed = None then ''gateway websocket closed''
         else cd_message closed)
        (Some (code_text SocketClosed)) (Some (plain_meta KWebsocket PClose ''connect'' True 1))))"

definition rpc_error :: "string \<Rightarrow> string \<Rightarrow> unknown" where
  "rpc_error msg code = UErr (GatewayRpcError msg (Some code) None)"

definition is_gateway_rpc_error :: "unknown \<Rightarrow> bool" where
  "is_gateway_rpc_error e = (case e of UErr x \<Rightarrow> e_class x = CGatewayRpcError | UVal _ \<Rightarrow> False)"

definition normalizeGatewayRpcError :: "unknown \<Rightarrow> string \<Rightarrow> string \<Rightarrow> unknown" where
  "normalizeGatewayRpcError e fallbackMessage fallbackCode =
     (if is_gateway_rpc_error e then e
      else rpc_error (getErrorMessage e fallbackMessage) fallbackCode)"

definition error_text :: "unknown \<Rightarrow> string \<Rightarrow> string" where
  "error_text e k = or_else (text_of (err_prop e k)) []"

definition gatewayConnectionError :: "unknown \<Rightarrow> TransportPhase \<Rightarrow> bool \<Rightarrow> unknown" where
  "gatewayConnectionError e phase retryable =
     UErr (GatewayRpcError (error_text e ''message'') (Some (error_text e ''code''))
       (Some (plain_meta KWebsocket phase ''connect'' retryable 1)))"

text \<open>The classification of a failed connect: its phase, and whether to try again.\<close>

definition connect_failure :: "unknown \<Rightarrow> unknown" where
  "connect_failure e =
     (let normalized = normalizeGatewayRpcError e ''gateway connect failed'' (code_text ConnectFailed);
          code = error_text normalized ''code'';
          denied = (code = code_text AuthRequired \<or> code = code_text AuthForbidden)
      in gatewayConnectionError normalized (if denied then PAuthenticate else PConnect)
           (\<not> denied \<and> code \<noteq> code_text ProtocolMismatch \<and> code \<noteq> code_text PermissionDenied))"

section \<open>Trace redaction\<close>

definition ellipsis :: string where
  "ellipsis = map char_of [0xE2, 0x80, 0xA6 :: nat]"

fun redact_strings :: "jv \<Rightarrow> jv" where
  "redact_strings (JStr s) = JStr (safeTransportMessage s)"
| "redact_strings (JArr vs) = JArr (map redact_strings vs)"
| "redact_strings (JObj m) = JObj (map (\<lambda>(k, v). (k, redact_strings v)) m)"
| "redact_strings v = v"

definition redactGatewayRpcTraceValue :: "jv \<Rightarrow> jv" where
  "redactGatewayRpcTraceValue v = redact_strings (redactSensitiveValue v)"

definition map_prop :: "string \<Rightarrow> (jv \<Rightarrow> jv) \<Rightarrow> jv \<Rightarrow> jv" where
  "map_prop k f v =
     (case v of JObj m \<Rightarrow> (case om_get m k of Some x \<Rightarrow> JObj (om_set k (f x) m) | None \<Rightarrow> v) | _ \<Rightarrow> v)"

definition mask_text :: "jv \<Rightarrow> jv" where
  "mask_text v = (case v of JStr _ \<Rightarrow> JStr ''***'' | _ \<Rightarrow> v)"

definition mask_public_key :: "jv \<Rightarrow> jv" where
  "mask_public_key v =
     (case v of JStr s \<Rightarrow> if 24 < length (utf16_units s) then JStr (chars_within 12 (utf16_chars s) @ ellipsis @ ''(redacted)'') else v | _ \<Rightarrow> v)"

definition mask_connect :: "jv \<Rightarrow> jv" where
  "mask_connect clone =
     map_prop ''device'' (\<lambda>d. map_prop ''publicKey'' mask_public_key (map_prop ''signature'' mask_text d))
       (map_prop ''auth'' (\<lambda>a. map_prop ''password'' mask_text (map_prop ''token'' mask_text a)) clone)"

definition json_clone :: "jv \<Rightarrow> jv option" where
  "json_clone v = Option.bind (json_stringify v) json_parse"

definition redactGatewayRpcTraceParams :: "string \<Rightarrow> jv \<Rightarrow> jv" where
  "redactGatewayRpcTraceParams meth params =
     (case json_clone params of
        Some clone \<Rightarrow> redactGatewayRpcTraceValue (if meth = ''connect'' then mask_connect clone else clone)
      | None \<Rightarrow> JObj [(''_redactionNote'', JStr ''params not JSON-serializable''), (''method'', JStr meth)])"

definition summarizeRpcTraceResult :: "jv \<Rightarrow> nat \<Rightarrow> string" where
  "summarizeRpcTraceResult v maxChars =
     (case json_clone v of
        None \<Rightarrow> safeTransportMessage (stringifyUnknownError (UVal v))
      | Some clone \<Rightarrow>
          (case json_stringify (redactGatewayRpcTraceValue clone) of
             None \<Rightarrow> safeTransportMessage (stringifyUnknownError (UVal v))
           | Some s \<Rightarrow>
               let n = length (utf16_units s) in
               if n \<le> maxChars then s
               else chars_within maxChars (utf16_chars s) @ ellipsis @ ''[truncated '' @ show_nat (n - maxChars) @ '' chars]''))"

definition serialized_value :: "serialized_error \<Rightarrow> jv" where
  "serialized_value e =
     JObj ([(''name'', JStr (se_name e)), (''message'', JStr (se_message e))]
       @ opt_member ''type'' (map_option JStr (se_type e)) @ opt_member ''code'' (map_option JStr (se_code e)))"

definition serializeRpcTraceError :: "unknown \<Rightarrow> jv" where
  "serializeRpcTraceError e = redactGatewayRpcTraceValue (serialized_value (serializeError e ''Unknown error''))"

section \<open>Facts\<close>

lemma scope_loop_inv:
  "distinct result \<Longrightarrow> (\<forall>s \<in> set result. s \<noteq> [] \<and> trim s = s) \<Longrightarrow>
   distinct (scope_loop ss result) \<and> (\<forall>s \<in> set (scope_loop ss result). s \<noteq> [] \<and> trim s = s)
   \<and> prefix result (scope_loop ss result)"
proof (induction ss result rule: scope_loop.induct)
  case (2 s ss result)
  show ?case
  proof (cases "text_of s")
    case None
    with "2.IH"(1) [OF None "2.prems"] show ?thesis by simp
  next
    case (Some raw)
    show ?thesis
    proof (cases "trim raw = [] \<or> trim raw \<in> set result")
      case True
      with "2.IH"(2) [OF Some refl True "2.prems"] Some show ?thesis by (simp add: Let_def)
    next
      case False
      have "distinct (scope_loop ss (result @ [trim raw]))
        \<and> (\<forall>s \<in> set (scope_loop ss (result @ [trim raw])). s \<noteq> [] \<and> trim s = s)
        \<and> prefix (result @ [trim raw]) (scope_loop ss (result @ [trim raw]))"
        by (rule "2.IH"(3) [OF Some refl]) (use False "2.prems" in auto)
      with Some False show ?thesis by (auto simp: Let_def dest: append_prefixD)
    qed
  qed
qed simp

lemma scope_loop_members:
  "set (scope_loop ss result) = set result \<union> {trim t |t. JStr t \<in> set ss \<and> trim t \<noteq> []}"
proof (induction ss result rule: scope_loop.induct)
  case (2 s ss result)
  show ?case
  proof (cases "text_of s")
    case None
    then have "s \<noteq> JStr t" for t by (auto simp: text_of_def)
    with 2 None show ?thesis by auto
  next
    case (Some raw)
    then have s: "s = JStr raw" by (cases s) (auto simp: text_of_def)
    show ?thesis
    proof (cases "trim raw = [] \<or> trim raw \<in> set result")
      case True
      with 2 Some s show ?thesis by (auto simp: Let_def)
    next
      case False
      from "2.IH"(3) [OF Some refl False] False Some s show ?thesis by (auto simp: Let_def)
    qed
  qed
qed simp

lemma scope_loop_clean:
  "distinct (result @ ss) \<Longrightarrow> (\<forall>s \<in> set ss. s \<noteq> [] \<and> trim s = s) \<Longrightarrow> scope_loop (map JStr ss) result = result @ ss"
  by (induction ss arbitrary: result) (auto simp: text_of_def Let_def)


subsection \<open>The placeholder is left alone\<close>

fun dead :: "re \<Rightarrow> string \<Rightarrow> bool" where
  "dead r [] = True"
| "dead r (c # s) = ((\<forall>b k. rmatches r \<lparr>rs_start = b, rs_rest = c # s, rs_caps = k\<rparr> = []) \<and> dead r s)"

lemma dead_replace: "dead r s \<Longrightarrow> rreplace_from r f b s = s"
  by (induction s arbitrary: b) (auto simp: rreplace_from.simps rmatch_at_def)

lemma dead_rreplace: "dead r s \<Longrightarrow> rreplace r f s = s"
  by (simp add: rreplace_def dead_replace)

lemma dead_seq: "dead a s \<Longrightarrow> dead (RSeq a b) s"
  by (induction s) simp_all

lemma dead_group: "dead a s \<Longrightarrow> dead (RGroup i a) s"
  by (induction s) simp_all

lemma dead_rseq: "dead a s \<Longrightarrow> dead (rseq (a # rs)) s"
  by (simp add: rseq_def dead_seq)

text \<open>No word begins anywhere in the placeholder.\<close>

primrec begins :: "string \<Rightarrow> string \<Rightarrow> bool" where
  "begins [] s = True"
| "begins (x # w) s = list_ex (\<lambda>p. prefix p s \<and> begins w (drop (length p) s)) (spellings x)"

lemma begins_spelled: "prefix u s \<Longrightarrow> spelled w u \<Longrightarrow> begins w s"
proof (induction w arbitrary: u s)
  case (Cons x w)
  then obtain p v where p: "u = p @ v" "p \<in> set (spellings x)" "spelled w v" by (auto simp: spelled_Cons)
  obtain t where t: "s = p @ v @ t" using Cons.prems(1) p(1) by (auto simp: prefix_def)
  then have "begins w (drop (length p) s)" using Cons.IH [of v "v @ t"] p(3) by simp
  moreover have "prefix p s" by (simp add: t)
  ultimately show ?case using p(2) unfolding begins.simps list_ex_iff by blast
qed simp

lemma dead_lang:
  assumes "lang r {u. \<exists>n \<in> set ws. spelled n u}" and "list_all (\<lambda>i. \<not> list_ex (\<lambda>n. begins n (drop i s)) ws) [0..<length s]"
  shows "dead r s"
  using assms(2)
proof (induction s)
  case (Cons c s)
  have all: "\<forall>i < Suc (length s). \<forall>n \<in> set ws. \<not> begins n (drop i (c # s))"
    using Cons.prems by (simp add: list_all_iff list_ex_iff del: upt_Suc)
  then have "\<not> begins n (c # s)" if "n \<in> set ws" for n using that by force
  then have "set (rmatches r \<lparr>rs_start = b, rs_rest = c # s, rs_caps = k\<rparr>) = {}" for b k
  proof -
    have "\<nexists>u. prefix u (c # s) \<and> (\<exists>n \<in> set ws. spelled n u)"
      using begins_spelled [of _ "c # s"] \<open>\<And>n. n \<in> set ws \<Longrightarrow> \<not> begins n (c # s)\<close> by blast
    then show ?thesis unfolding assms(1) [unfolded lang_def, rule_format] by auto
  qed
  moreover have "list_all (\<lambda>i. \<not> list_ex (\<lambda>n. begins n (drop i s)) ws) [0..<length s]"
    using all by (force simp: list_all_iff list_ex_iff)
  ultimately show ?case using Cons.IH by simp
qed simp

lemma nothing_begins:
  "list_all (\<lambda>i. \<not> list_ex (\<lambda>n. begins n (drop i REDACTION_PLACEHOLDER)) (''bearer'' # credential_names))
     [0..<length REDACTION_PLACEHOLDER]"
  by code_simp

lemma dead_word:
  assumes "w = ''bearer'' \<or> w \<in> set credential_names"
  shows "dead (rword_u w) REDACTION_PLACEHOLDER"
proof (rule dead_lang)
  show "lang (rword_u w) {u. \<exists>n \<in> set [w]. spelled n u}" using spells_word unfolding spells_def .
  show "list_all (\<lambda>i. \<not> list_ex (\<lambda>n. begins n (drop i REDACTION_PLACEHOLDER)) [w]) [0..<length REDACTION_PLACEHOLDER]"
    using nothing_begins assms by (auto simp: list_all_iff list_ex_iff)
qed

lemma credential_words_dead: "dead credential_words REDACTION_PLACEHOLDER"
  by (rule dead_lang [OF lang_credentials]) (use nothing_begins in \<open>simp add: list_all_iff list_ex_iff\<close>)

lemma bearer_dead: "dead (rseq (map (\<lambda>x. RByte (\<lambda>c. c = x)) ''Bearer'')) REDACTION_PLACEHOLDER"
  unfolding REDACTION_PLACEHOLDER_def by (simp add: rseq_def consume_def)

lemma authorization_dead: "dead (rword_u ''authorization'') REDACTION_PLACEHOLDER" "dead (rword_u ''bearer'') REDACTION_PLACEHOLDER"
  by (rule dead_word; simp add: credential_names_def)+

lemma placeholder_fixed: "safeTransportMessage REDACTION_PLACEHOLDER = REDACTION_PLACEHOLDER"
proof -
  have q: "dead SENSITIVE_QUOTED_TEXT_PATTERN REDACTION_PLACEHOLDER"
    "dead SENSITIVE_TEXT_PATTERN REDACTION_PLACEHOLDER"
    unfolding SENSITIVE_QUOTED_TEXT_PATTERN_def SENSITIVE_TEXT_PATTERN_def rseq_def [of "[credential_words, assign, ropt (rset quotes)]"]
    by (simp_all add: dead_rseq dead_group dead_seq credential_words_dead)
  have a: "dead AUTHORIZATION_TEXT_PATTERN REDACTION_PLACEHOLDER"
    unfolding AUTHORIZATION_TEXT_PATTERN_def by (simp add: dead_rseq dead_group dead_seq authorization_dead)
  have b: "dead BEARER_TOKEN_PATTERN REDACTION_PLACEHOLDER" "dead bearerCredentialPattern REDACTION_PLACEHOLDER"
    unfolding BEARER_TOKEN_PATTERN_def bearerCredentialPattern_def
    by (simp_all only: dead_rseq dead_group dead_seq bearer_dead authorization_dead)
  show ?thesis
    by (simp add: safeTransportMessage_def redactSensitiveText_def Let_def dead_rreplace q a b)
qed

lemma note_keys: "\<not> names_credential ''_redactionNote''" "\<not> names_credential ''method''"
  by code_simp+

lemma redact_strings_scrubbed: "scrubbed v \<Longrightarrow> scrubbed (redact_strings v)"
proof (induction v rule: redact_strings.induct)
  case (3 m)
  have "if names_credential k then redact_strings w = JStr REDACTION_PLACEHOLDER else scrubbed (redact_strings w)"
    if kw: "(k, w) \<in> set m" for k w
  proof -
    have "if names_credential k then w = JStr REDACTION_PLACEHOLDER else scrubbed w"
      using "3.prems" kw by (auto simp: list_all_iff)
    with "3.IH" [OF kw refl] show ?thesis by (cases "names_credential k") (simp_all add: placeholder_fixed)
  qed
  then show ?case by (force simp: list_all_iff)
qed (auto simp: list_all_iff)

lemma trace_value_scrubbed: "scrubbed (redactGatewayRpcTraceValue v)"
  by (simp add: redactGatewayRpcTraceValue_def redact_strings_scrubbed redact_scrubbed)

lemma fallback_bounds:
  assumes "1 < q"
  shows "0 < fallback_delay q" and "fallback_delay q < q"
    and "251 \<le> q \<Longrightarrow> fallback_delay q \<le> q - 250" and "1000 \<le> q \<Longrightarrow> 750 \<le> fallback_delay q"
  using assms unfolding fallback_delay_def HANDSHAKE_SAFETY_MARGIN_MS_def MIN_MS_BEFORE_SERVER_CLOSE_def
  by linarith+

lemma preauth_positive: "0 < resolvePreauthHandshakeTimeoutMs explicit env envKeys"
proof -
  have p: "parsePositiveMs v = Some q \<Longrightarrow> 0 < q" for v q
    by (auto simp: parsePositiveMs_def split: option.splits if_splits jnum.splits)
  have d: "0 < DEFAULT_PREAUTH_HANDSHAKE_TIMEOUT_MS" by (simp add: DEFAULT_PREAUTH_HANDSHAKE_TIMEOUT_MS_def)
  have e: "0 < preauth_env env envKeys"
    using p d by (auto simp: preauth_env_def Let_def or_else_def split: option.splits)
  then show ?thesis by (auto simp: resolvePreauthHandshakeTimeoutMs_def split: option.splits jnum.splits)
qed

subsection \<open>Reading a joined payload back\<close>

lemma split_join:
  "fs \<noteq> [] \<Longrightarrow> (\<forall>f \<in> set fs. c \<notin> set f) \<Longrightarrow> split_char c (join_with [c] fs) = fs"
proof (induction fs rule: induct_list012)
  case (3 x y zs)
  then show ?case by (simp add: split_char_append)
qed (auto simp: split_char_single)

lemma join_inj:
  assumes "join_with [c] fs = join_with [c] gs" and "fs \<noteq> []" and "gs \<noteq> []"
    and "\<forall>f \<in> set fs. c \<notin> set f" and "\<forall>g \<in> set gs. c \<notin> set g"
  shows "fs = gs"
  by (metis assms split_join)

lemma show_nat_inj: "show_nat m = show_nat n \<Longrightarrow> m = n"
  by (metis digits_val_show_nat)

lemma show_nat_no_minus: "CHR ''-'' \<notin> set (show_nat n)"
  using show_nat_digits [of n] by (auto simp: is_digit_def)

lemma show_int_inj: "show_int i = show_int j \<Longrightarrow> i = j"
  using show_nat_no_minus [of "nat i"] show_nat_no_minus [of "nat j"]
    show_nat_inj [of "nat i" "nat j"] show_nat_inj [of "nat (- i)" "nat (- j)"]
  by (auto simp: show_int_def split: if_splits) (metis list.set_intros(1))+

text \<open>No field holds the separator, and the scopes are as the client resolves them.\<close>

definition payload_clean :: "device_payload \<Rightarrow> bool" where
  "payload_clean p =
     ((\<forall>f \<in> set (payload_fields p). CHR ''|'' \<notin> set f) \<and> dp_scopes p \<noteq> []
      \<and> (\<forall>s \<in> set (dp_scopes p). CHR '','' \<notin> set s))"

section \<open>Properties\<close>

definition wit_payload :: device_payload where
  "wit_payload = \<lparr>dp_deviceId = ''d'', dp_clientId = ''c'', dp_clientMode = ''m'', dp_role = ''operator'',
     dp_scopes = [''operator.read''], dp_signedAtMs = 17, dp_token = ''t'', dp_nonce = ''n'',
     dp_platform = Some ''web'', dp_deviceFamily = None\<rparr>"

text \<open>Connect scopes. What the client asks for is never empty, has no duplicates and no blank or
  padded entry; it is the requested scopes when one of them is not blank (each of them, trimmed,
  and nothing else), or else the default ones, or else read access only; and asking for the result
  again gives the same.\<close>

theorem connect_scopes_clean:
  "let r = resolveGatewayConnectScopes o' in
   r \<noteq> [] \<and> distinct r \<and> list_all (\<lambda>s. s \<noteq> [] \<and> trim s = s) r
   \<and> (set r = {trim t |t. \<exists>ss. go_requestedScopes o' = Some ss \<and> JStr t \<in> set ss \<and> trim t \<noteq> []}
      \<or> normalizeGatewayScopes (go_requestedScopes o') = [] \<and>
        (r = normalizeGatewayScopes (go_defaultScopes o') \<or> r = [''operator.read'']))
   \<and> resolveGatewayConnectScopes (o'\<lparr>go_requestedScopes := Some (map JStr r)\<rparr>) = r"
proof -
  define r where "r = resolveGatewayConnectScopes o'"
  have n: "distinct (normalizeGatewayScopes x) \<and> (\<forall>s \<in> set (normalizeGatewayScopes x). s \<noteq> [] \<and> trim s = s)" for x
    using scope_loop_inv [of "[]"] by (simp add: normalizeGatewayScopes_def split: option.splits)
  have d: "trim ''operator.read'' = ''operator.read''" by (rule trim_graph) (simp_all add: graph_char_def)
  have c: "r \<noteq> [] \<and> distinct r \<and> (\<forall>s \<in> set r. s \<noteq> [] \<and> trim s = s)"
    using n d by (simp add: r_def resolveGatewayConnectScopes_def Let_def DEFAULT_SCOPES_def)
  have m: "normalizeGatewayScopes (go_requestedScopes o') \<noteq> [] \<Longrightarrow>
      set r = {trim t |t. \<exists>ss. go_requestedScopes o' = Some ss \<and> JStr t \<in> set ss \<and> trim t \<noteq> []}"
    by (auto simp: r_def resolveGatewayConnectScopes_def normalizeGatewayScopes_def scope_loop_members
        split: option.splits)
  have i: "resolveGatewayConnectScopes (o'\<lparr>go_requestedScopes := Some (map JStr r)\<rparr>) = r"
    using c scope_loop_clean [of "[]" r]
    by (simp add: resolveGatewayConnectScopes_def normalizeGatewayScopes_def)
  have e: "normalizeGatewayScopes (go_requestedScopes o') = [] \<Longrightarrow>
      r = normalizeGatewayScopes (go_defaultScopes o') \<or> r = [''operator.read'']"
    by (simp add: r_def resolveGatewayConnectScopes_def Let_def DEFAULT_SCOPES_def)
  from c m i e show ?thesis unfolding r_def [symmetric] Let_def list_all_iff by blast
qed

text \<open>Handshake timing. For every explicit option, environment and key set the server budget is
  positive, and the delay before connecting without a device signature lies strictly before it when
  the budget exceeds one millisecond, leaves at least 250 ms from a budget of 251 ms on, and is at
  least 750 ms from a budget of one second on. For a budget of at most one millisecond it does not
  come before it.\<close>

theorem handshake_fallback_before_timeout:
  "let t = resolvePreauthHandshakeTimeoutMs explicit env envKeys;
       d = resolveDeviceTokenOnlyFallbackMs explicit env envKeys
   in 0 < t \<and> 0 < d \<and> (if 1 < t then d < t else t \<le> d)
      \<and> (if 251 \<le> t then d \<le> t - 250 else True) \<and> (if 1000 \<le> t then 750 \<le> d else True)"
proof -
  define t where "t = resolvePreauthHandshakeTimeoutMs explicit env envKeys"
  have p: "0 < t" unfolding t_def by (rule preauth_positive)
  show ?thesis
  proof (cases "1 < t")
    case True
    with p fallback_bounds [OF True] show ?thesis
      by (simp add: resolveDeviceTokenOnlyFallbackMs_def t_def [symmetric] Let_def)
  next
    case False
    then have "fallback_delay t = 1"
      by (simp add: fallback_delay_def HANDSHAKE_SAFETY_MARGIN_MS_def MIN_MS_BEFORE_SERVER_CLOSE_def)
    with p False show ?thesis
      by (simp add: resolveDeviceTokenOnlyFallbackMs_def t_def [symmetric] Let_def)
  qed
qed

text \<open>Traces hold no credentials. Whatever the method, the parameters, the payload or the error, every
  value a trace entry records holds only the placeholder under a sensitive key, at every depth.\<close>

theorem trace_values_scrubbed:
  "scrubbed (redactGatewayRpcTraceParams meth params) \<and> scrubbed (redactGatewayRpcTraceValue v)
   \<and> scrubbed (serializeRpcTraceError e)"
proof -
  show ?thesis
    by (auto simp: redactGatewayRpcTraceParams_def serializeRpcTraceError_def trace_value_scrubbed
        note_keys split: option.splits)
qed

text \<open>The signed payload is unambiguous. When no field holds the separator and no scope a comma, two
  payloads with the same text agree on everything that is signed.\<close>

theorem device_payload_injective:
  assumes "buildDeviceAuthPayloadV3 p = buildDeviceAuthPayloadV3 q"
    and "payload_clean p" and "payload_clean q"
  shows "dp_deviceId p = dp_deviceId q \<and> dp_clientId p = dp_clientId q \<and> dp_clientMode p = dp_clientMode q
    \<and> dp_role p = dp_role q \<and> dp_scopes p = dp_scopes q \<and> dp_signedAtMs p = dp_signedAtMs q
    \<and> dp_token p = dp_token q \<and> dp_nonce p = dp_nonce q"
proof -
  have f: "payload_fields p = payload_fields q"
    by (rule join_inj [of "CHR ''|''"])
      (use assms in \<open>auto simp: buildDeviceAuthPayloadV3_def payload_clean_def payload_fields_def\<close>)
  then have s: "join_with '','' (dp_scopes p) = join_with '','' (dp_scopes q)"
    and t: "show_int (dp_signedAtMs p) = show_int (dp_signedAtMs q)"
    by (simp_all add: payload_fields_def)
  have "dp_scopes p = dp_scopes q"
    by (rule join_inj [OF s]) (use assms in \<open>simp_all add: payload_clean_def\<close>)
  moreover have "dp_signedAtMs p = dp_signedAtMs q" by (rule show_int_inj [OF t])
  ultimately show ?thesis using f by (simp add: payload_fields_def)
qed

theorem device_payload_injective_witness:
  "dp_nonce wit_payload = dp_nonce (wit_payload\<lparr>dp_platform := Some ''WEB''\<rparr>)
   \<and> buildDeviceAuthPayloadV3 wit_payload = ''v3|d|c|m|operator|operator.read|17|t|n|web|''"
proof -
  have n: "normalizeMetadata (Some ''web'') = ''web''" "normalizeMetadata (Some ''WEB'') = ''web''"
    by (simp_all add: normalizeMetadata_def trim_graph graph_char_def) (code_simp+)
  have i: "show_int 17 = ''17''" by code_simp
  have f: "payload_fields wit_payload =
      [''v3'', ''d'', ''c'', ''m'', ''operator'', ''operator.read'', ''17'', ''t'', ''n'', ''web'', []]"
    by (simp add: payload_fields_def wit_payload_def n i) (simp add: normalizeMetadata_def)
  have g: "payload_fields (wit_payload\<lparr>dp_platform := Some ''WEB''\<rparr>) = payload_fields wit_payload"
    by (simp add: payload_fields_def wit_payload_def n)
  have c: "payload_clean wit_payload" "payload_clean (wit_payload\<lparr>dp_platform := Some ''WEB''\<rparr>)"
    by (simp_all add: payload_clean_def g f) (simp_all add: wit_payload_def)
  have e: "buildDeviceAuthPayloadV3 wit_payload = buildDeviceAuthPayloadV3 (wit_payload\<lparr>dp_platform := Some ''WEB''\<rparr>)"
    by (simp add: buildDeviceAuthPayloadV3_def g)
  from device_payload_injective [OF e c] show ?thesis
    by (simp add: buildDeviceAuthPayloadV3_def f)
qed

end
