(* ===== verification/GatewayRequests.thy ===== *)
theory GatewayRequests
  imports GatewayOptions JsonRpc "HOL-Library.Multiset"
begin

text \<open>
  The request layer of \<open>GatewayRpcClient\<close> (\<open>src/core/gateway/rpc/client.ts\<close>): \<open>requestRaw\<close> with its
  correlation ids, timers and traces, the handling of a response frame, and the bounded number of
  concurrent requests (\<open>runWithRpcBackpressure\<close> and its queue). Raw requests are numbered in the
  order they are made; \<open>q_settled\<close> logs the \<open>resolve\<close> and \<open>reject\<close> calls on their promises. The
  clock, \<open>readyState\<close> and what \<open>send\<close> throws come with the event. The trace hook does not call back;
  the times of a trace entry are not modelled.
\<close>

section \<open>State\<close>

record rpc_trace =
  tr_id :: string
  tr_method :: string
  tr_params :: jv
  tr_ok :: bool
  tr_preview :: "string option"
  tr_error :: "jv option"

record raw_state =
  q_pending :: "(string, nat) omap"
  q_timers :: "(nat, string \<times> string) omap"
  q_sequence :: nat
  q_issued :: nat
  q_settled :: "(nat \<times> outcome) list"
  q_contexts :: "(nat, string \<times> string \<times> jv) omap"
  q_traces :: "rpc_trace list"
  q_sent :: "jv list"

definition raw_new :: raw_state where
  "raw_new = \<lparr>q_pending = [], q_timers = [], q_sequence = 0, q_issued = 0, q_settled = [],
     q_contexts = [], q_traces = [], q_sent = []\<rparr>"

definition trace_entry :: "string \<times> string \<times> jv \<Rightarrow> outcome \<Rightarrow> rpc_trace" where
  "trace_entry c out =
     (case c of (i, meth, params) \<Rightarrow>
        \<lparr>tr_id = i, tr_method = meth, tr_params = params,
         tr_ok = (case out of Resolved _ \<Rightarrow> True | Rejected _ \<Rightarrow> False),
         tr_preview = (case out of Resolved v \<Rightarrow> Some (summarizeRpcTraceResult v 24000) | Rejected _ \<Rightarrow> None),
         tr_error = (case out of Resolved _ \<Rightarrow> None | Rejected e \<Rightarrow> Some (serializeRpcTraceError e))\<rparr>)"

text \<open>The \<open>resolve\<close> or \<open>reject\<close> stored in \<open>pending\<close>: clear the timer, trace, settle.\<close>

definition q_settle :: "nat \<Rightarrow> outcome \<Rightarrow> raw_state \<Rightarrow> raw_state" where
  "q_settle t out st =
     st\<lparr>q_timers := om_del t (q_timers st),
        q_traces := q_traces st @ (case om_get (q_contexts st) t of
           Some c \<Rightarrow> [trace_entry c out] | None \<Rightarrow> []),
        q_settled := q_settled st @ [(t, out)]\<rparr>"

text \<open>A promise rejected before it was stored.\<close>

definition raw_refuse :: "unknown \<Rightarrow> raw_state \<Rightarrow> raw_state" where
  "raw_refuse e st =
     st\<lparr>q_settled := q_settled st @ [(q_issued st, Rejected e)], q_issued := q_issued st + 1\<rparr>"

section \<open>Requests\<close>

definition raw_id :: "nat \<Rightarrow> nat \<Rightarrow> string" where
  "raw_id now k = ''mc-'' @ show_nat now @ ''-'' @ show_nat k"

text \<open>The correlation id, and whether it used the sequence.\<close>

definition request_id :: "gateway_options \<Rightarrow> string \<Rightarrow> nat \<Rightarrow> nat \<Rightarrow> unknown + string \<times> bool" where
  "request_id o' meth now k =
     (if meth = ''connect'' \<and> go_frame_client_id o'
      then (case resolveGatewayRpcClientProfile o' of
              Inl e \<Rightarrow> Inl e | Inr client \<Rightarrow> Inr (cp_id client, False))
      else Inr (raw_id now k, True))"

definition request_frame :: "string \<Rightarrow> string \<Rightarrow> jv \<Rightarrow> jv" where
  "request_frame i meth params =
     JObj [(''type'', JStr ''req''), (''id'', JStr i), (''method'', JStr meth), (''params'', params)]"

definition raw_issue ::
  "gateway_options \<Rightarrow> string \<Rightarrow> jv \<Rightarrow> string \<Rightarrow> bool \<Rightarrow> raw_state \<Rightarrow> raw_state" where
  "raw_issue o' meth params i sequenced st =
     (let t = q_issued st in
      st\<lparr>q_issued := t + 1,
         q_sequence := (if sequenced then q_sequence st + 1 else q_sequence st),
         q_contexts := (if go_trace o'
            then om_set t (i, meth, redactGatewayRpcTraceParams meth params) (q_contexts st) else q_contexts st),
         q_timers := om_set t (i, meth) (q_timers st),
         q_pending := om_set i t (q_pending st)\<rparr>)"

text \<open>The \<open>catch\<close> around \<open>send\<close>.\<close>

definition raw_send_failed :: "nat \<Rightarrow> string \<Rightarrow> string \<Rightarrow> unknown \<Rightarrow> raw_state \<Rightarrow> raw_state" where
  "raw_send_failed t i meth e st =
     (let err = normalizeGatewayRpcError e (''gateway request failed: '' @ meth) (code_text SocketError);
          st1 = st\<lparr>q_pending := om_del i (q_pending st), q_timers := om_del t (q_timers st)\<rparr>
      in case om_get (q_pending st) i of
           Some owner \<Rightarrow> q_settle owner (Rejected err) st1
         | None \<Rightarrow> st1\<lparr>q_settled := q_settled st1 @ [(t, Rejected err)]\<rparr>)"

definition raw_request ::
  "gateway_options \<Rightarrow> string \<Rightarrow> jv \<Rightarrow> bool \<Rightarrow> nat \<Rightarrow> unknown option \<Rightarrow> raw_state \<Rightarrow> raw_state" where
  "raw_request o' meth params open_now now send_error st =
     (if \<not> open_now
      then raw_refuse (rpc_error ''gateway websocket is not connected'' (code_text SocketUnavailable)) st
      else
        (case request_id o' meth now (q_sequence st) of
           Inl e \<Rightarrow> raw_refuse e st
         | Inr (i, sequenced) \<Rightarrow>
             let st1 = raw_issue o' meth params i sequenced st in
             (case send_error of
                None \<Rightarrow> st1\<lparr>q_sent := q_sent st1 @ [request_frame i meth params]\<rparr>
              | Some e \<Rightarrow> raw_send_failed (q_issued st) i meth e st1)))"

definition raw_timeout :: "nat \<Rightarrow> raw_state \<Rightarrow> raw_state" where
  "raw_timeout t st =
     (case om_get (q_timers st) t of
        None \<Rightarrow> st
      | Some (i, meth) \<Rightarrow>
          let st1 = st\<lparr>q_timers := om_del t (q_timers st)\<rparr> in
          (case om_get (q_pending st1) i of
             None \<Rightarrow> st1
           | Some owner \<Rightarrow>
               q_settle owner (Rejected (rpc_error (''request timed out: '' @ meth) (code_text CTimeout)))
                 (st1\<lparr>q_pending := om_del i (q_pending st1)\<rparr>)))"

section \<open>Responses\<close>

text \<open>\<open>String(value)\<close> of a data value.\<close>

fun js_string :: "jv \<Rightarrow> string" where
  "js_string (JStr s) = s"
| "js_string (JNum x) = number_text x"
| "js_string (JBool b) = (if b then ''true'' else ''false'')"
| "js_string JNull = ''null''"
| "js_string JUndef = ''undefined''"
| "js_string (JArr vs) = join_with '','' (map (\<lambda>v. if nullish v then [] else js_string v) vs)"
| "js_string (JObj m) = ''[object Object]''"

text \<open>The error of a failed response: its \<open>code\<close> is whatever value the frame holds.\<close>

definition response_error :: "jv \<Rightarrow> unknown" where
  "response_error frame =
     (let err = get_prop frame ''error'';
          msg = coalesce (get_prop err ''message'') (JStr ''gateway request failed'');
          code = coalesce (get_prop err ''code'') (JStr (code_text RequestFailed))
      in case GatewayRpcError (js_string msg) None None of
           JsError c m own cause \<Rightarrow> UErr (JsError c m (om_set ''code'' code own) cause))"

definition raw_response :: "jv \<Rightarrow> raw_state \<Rightarrow> raw_state" where
  "raw_response frame st =
     (case text_of (get_prop frame ''id'') of
        None \<Rightarrow> st
      | Some i \<Rightarrow>
          if get_prop frame ''type'' \<noteq> JStr ''res'' then st
          else
            (case om_get (q_pending st) i of
               None \<Rightarrow> st
             | Some t \<Rightarrow>
                 q_settle t
                   (if truthy (get_prop frame ''ok'') then Resolved (get_prop frame ''payload'')
                    else Rejected (response_error frame))
                   (st\<lparr>q_pending := om_del i (q_pending st)\<rparr>)))"

text \<open>\<open>for (const pending of this.pending.values()) pending.reject(error); this.pending.clear()\<close>.\<close>

definition raw_reject_all :: "unknown \<Rightarrow> raw_state \<Rightarrow> raw_state" where
  "raw_reject_all e st = (fold (\<lambda>p. q_settle (snd p) (Rejected e)) (q_pending st) st)\<lparr>q_pending := []\<rparr>"

datatype raw_event =
    QRequest string jv bool nat "unknown option"
  | QTimeout nat
  | QResponse jv
  | QRejectAll unknown

fun raw_step :: "gateway_options \<Rightarrow> raw_state \<Rightarrow> raw_event \<Rightarrow> raw_state" where
  "raw_step o' st (QRequest meth params open_now now send_error) =
     raw_request o' meth params open_now now send_error st"
| "raw_step o' st (QTimeout t) = raw_timeout t st"
| "raw_step o' st (QResponse frame) = raw_response frame st"
| "raw_step o' st (QRejectAll e) = raw_reject_all e st"

section \<open>Invariant\<close>

text \<open>
  Every waiting request has its timer, every timer its waiting request; over the map of waiting
  requests, the timers, the settled requests and the number of requests.
\<close>

definition raw_core :: "(string, nat) omap \<Rightarrow> (nat, string \<times> string) omap \<Rightarrow> nat list \<Rightarrow> nat \<Rightarrow> bool" where
  "raw_core p ts ss n =
     (om_ok p \<and> om_ok ts \<and> (\<forall>i t. om_get p i = Some t \<longleftrightarrow> (\<exists>m. om_get ts t = Some (i, m)))
      \<and> distinct ss \<and> set ss \<inter> dom (om_get ts) = {} \<and> set ss \<union> dom (om_get ts) = {..<n})"

definition raw_inv :: "raw_state \<Rightarrow> bool" where
  "raw_inv st = raw_core (q_pending st) (q_timers st) (map fst (q_settled st)) (q_issued st)"

text \<open>A request does not reuse the id of a waiting one.\<close>

fun raw_ok :: "gateway_options \<Rightarrow> raw_state \<Rightarrow> raw_event \<Rightarrow> bool" where
  "raw_ok o' st (QRequest meth params open_now now send_error) =
     (case request_id o' meth now (q_sequence st) of
        Inr (i, b) \<Rightarrow> open_now \<longrightarrow> \<not> om_has (q_pending st) i
      | Inl _ \<Rightarrow> True)"
| "raw_ok o' st _ = True"

lemma core_new: "raw_core [] [] [] 0"
  by (simp add: raw_core_def)

lemma raw_inv_new [simp]: "raw_inv raw_new"
  by (simp add: raw_inv_def raw_new_def core_new)

lemma core_settle:
  assumes "raw_core p ts ss n" and "om_get p i = Some t"
  shows "raw_core (om_del i p) (om_del t ts) (ss @ [t]) n"
proof -
  have l: "\<And>i t. om_get p i = Some t \<longleftrightarrow> (\<exists>m. om_get ts t = Some (i, m))"
    using assms(1) by (simp add: raw_core_def)
  obtain m where m: "om_get ts t = Some (i, m)" using l assms(2) by blast
  have w: "om_get (om_del i p) j = Some s \<longleftrightarrow> (\<exists>m. om_get (om_del t ts) s = Some (j, m))" for j s
  proof (cases "j = i")
    case True
    have "s = t \<longleftrightarrow> (\<exists>m. om_get ts s = Some (i, m))" using l [of i s] assms(2) by auto
    with True show ?thesis by auto
  next
    case False
    then have "\<nexists>m. om_get ts t = Some (j, m)" using m by simp
    with False l [of j s] show ?thesis by auto
  qed
  have d: "dom (om_get (om_del t ts)) = dom (om_get ts) - {t}" by (auto split: if_splits)
  have t: "t \<in> dom (om_get ts)" using m by blast
  show ?thesis
    unfolding raw_core_def d
    using assms(1) w t by (auto simp: raw_core_def)
qed

lemma core_issue:
  assumes "raw_core p ts ss n" and "\<not> om_has p i"
  shows "raw_core (om_set i n p) (om_set n (i, m) ts) ss (n + 1)"
proof -
  have l: "\<And>i t. om_get p i = Some t \<longleftrightarrow> (\<exists>m. om_get ts t = Some (i, m))"
    and u: "set ss \<union> dom (om_get ts) = {..<n}"
    using assms(1) by (simp_all add: raw_core_def)
  have n: "om_get ts n = None" "n \<notin> set ss" using u by auto
  have f: "om_get p i = None" using assms(2) by (simp add: om_has_def)
  have g: "om_get p j \<noteq> Some n" for j using l n by simp
  have h: "om_get ts s \<noteq> Some (i, x)" for s x using l [of i s] f by auto
  have w: "om_get (om_set i n p) j = Some s \<longleftrightarrow> (\<exists>x. om_get (om_set n (i, m) ts) s = Some (j, x))" for j s
    using l [of j s] g h by auto
  have d: "dom (om_get (om_set n (i, m) ts)) = insert n (dom (om_get ts))" by (auto split: if_splits)
  show ?thesis
    unfolding raw_core_def d
    using assms(1) w n by (auto simp: raw_core_def lessThan_Suc)
qed

lemma core_refuse: "raw_core p ts ss n \<Longrightarrow> raw_core p ts (ss @ [n]) (n + 1)"
  by (auto simp: raw_core_def lessThan_Suc)

lemma q_settle_fields [simp]:
  "q_pending (q_settle t out st) = q_pending st" "q_timers (q_settle t out st) = om_del t (q_timers st)"
  "q_settled (q_settle t out st) = q_settled st @ [(t, out)]" "q_issued (q_settle t out st) = q_issued st"
  "q_sequence (q_settle t out st) = q_sequence st"
  by (simp_all add: q_settle_def)

lemma om_del_twice [simp]: "om_del k (om_del k m) = om_del k m"
  by (simp add: AList.delete_eq)

lemma raw_response_inv: "raw_inv st \<Longrightarrow> raw_inv (raw_response frame st)"
  by (auto simp: raw_response_def raw_inv_def core_settle split: option.splits)

lemma raw_timeout_inv:
  assumes "raw_inv st"
  shows "raw_inv (raw_timeout t st)"
proof (cases "om_get (q_timers st) t")
  case (Some x)
  obtain i m where x: "x = (i, m)" by (cases x)
  have "om_get (q_pending st) i = Some t"
    using assms Some x by (auto simp: raw_inv_def raw_core_def)
  with Some x assms core_settle [of "q_pending st" "q_timers st" _ _ i t] show ?thesis
    by (simp add: raw_timeout_def raw_inv_def Let_def)
qed (use assms in \<open>simp add: raw_timeout_def\<close>)

lemma raw_refuse_inv: "raw_inv st \<Longrightarrow> raw_inv (raw_refuse e st)"
  using core_refuse by (fastforce simp: raw_refuse_def raw_inv_def)

lemma raw_issue_fields:
  "q_pending (raw_issue o' meth params i b st) = om_set i (q_issued st) (q_pending st)"
  "q_timers (raw_issue o' meth params i b st) = om_set (q_issued st) (i, meth) (q_timers st)"
  "q_settled (raw_issue o' meth params i b st) = q_settled st"
  "q_issued (raw_issue o' meth params i b st) = q_issued st + 1"
  "q_sequence (raw_issue o' meth params i b st) = (if b then q_sequence st + 1 else q_sequence st)"
  by (simp_all add: raw_issue_def Let_def)

lemma raw_issue_inv: "raw_inv st \<Longrightarrow> \<not> om_has (q_pending st) i \<Longrightarrow> raw_inv (raw_issue o' meth params i b st)"
  unfolding raw_inv_def raw_issue_fields by (rule core_issue)

lemma raw_send_failed_inv:
  assumes "raw_inv st" and "om_get (q_pending st) i = Some t"
  shows "raw_inv (raw_send_failed t i meth e st)"
  using assms core_settle [of "q_pending st" "q_timers st" _ _ i t]
  by (simp add: raw_send_failed_def Let_def raw_inv_def)

lemma raw_request_inv:
  assumes "raw_inv st" and "raw_ok o' st (QRequest meth params open_now now se)"
  shows "raw_inv (raw_request o' meth params open_now now se st)"
proof (cases "request_id o' meth now (q_sequence st)")
  case (Inl e)
  with assms(1) show ?thesis by (simp add: raw_request_def raw_refuse_inv)
next
  case (Inr r)
  obtain i b where r: "r = (i, b)" by (cases r)
  show ?thesis
  proof (cases open_now)
    case True
    then have "\<not> om_has (q_pending st) i" using assms(2) Inr r by simp
    then have j: "raw_inv (raw_issue o' meth params i b st)" by (rule raw_issue_inv [OF assms(1)])
    have "raw_inv ((raw_issue o' meth params i b st)\<lparr>q_sent := x\<rparr>)" for x
      using j by (simp add: raw_inv_def)
    moreover have "raw_inv (raw_send_failed (q_issued st) i meth e (raw_issue o' meth params i b st))" for e
      by (rule raw_send_failed_inv [OF j]) (simp add: raw_issue_fields)
    ultimately show ?thesis using True Inr r by (simp add: raw_request_def Let_def split: option.split)
  next
    case False
    with assms(1) show ?thesis by (simp add: raw_request_def raw_refuse_inv)
  qed
qed

lemma reject_all_fields:
  "q_pending (raw_reject_all e st) = []"
  "q_timers (raw_reject_all e st) = fold (\<lambda>p. om_del (snd p)) (q_pending st) (q_timers st)"
  "q_settled (raw_reject_all e st) = q_settled st @ map (\<lambda>p. (snd p, Rejected e)) (q_pending st)"
  "q_issued (raw_reject_all e st) = q_issued st" "q_sequence (raw_reject_all e st) = q_sequence st"
proof -
  have "q_timers (fold (\<lambda>p. q_settle (snd p) (Rejected e)) xs s) = fold (\<lambda>p. om_del (snd p)) xs (q_timers s)
      \<and> q_settled (fold (\<lambda>p. q_settle (snd p) (Rejected e)) xs s) = q_settled s @ map (\<lambda>p. (snd p, Rejected e)) xs
      \<and> q_issued (fold (\<lambda>p. q_settle (snd p) (Rejected e)) xs s) = q_issued s
      \<and> q_sequence (fold (\<lambda>p. q_settle (snd p) (Rejected e)) xs s) = q_sequence s" for xs :: "(string \<times> nat) list" and s
    by (induction xs arbitrary: s) simp_all
  then show "q_pending (raw_reject_all e st) = []"
    "q_timers (raw_reject_all e st) = fold (\<lambda>p. om_del (snd p)) (q_pending st) (q_timers st)"
    "q_settled (raw_reject_all e st) = q_settled st @ map (\<lambda>p. (snd p, Rejected e)) (q_pending st)"
    "q_issued (raw_reject_all e st) = q_issued st" "q_sequence (raw_reject_all e st) = q_sequence st"
    by (simp_all add: raw_reject_all_def)
qed

lemma core_reject_all:
  "raw_core xs ts ss n \<Longrightarrow> raw_core [] (fold (\<lambda>p. om_del (snd p)) xs ts) (ss @ map snd xs) n"
proof (induction xs arbitrary: ts ss)
  case (Cons x xs)
  obtain i t where x: "x = (i, t)" by (cases x)
  have "i \<notin> fst ` set xs" using Cons.prems x by (simp add: raw_core_def om_ok_def)
  then have d: "om_del i (x # xs) = xs" by (simp add: x delete_id)
  have "raw_core xs (om_del t ts) (ss @ [t]) n"
    using core_settle [OF Cons.prems, of i t] unfolding d by (simp add: x)
  from Cons.IH [OF this] show ?case by (simp add: x)
qed simp

lemma raw_reject_all_inv: "raw_inv st \<Longrightarrow> raw_inv (raw_reject_all e st)"
  using core_reject_all [of "q_pending st" "q_timers st"] by (simp add: raw_inv_def reject_all_fields comp_def)

lemma raw_step_inv: "raw_inv st \<Longrightarrow> raw_ok o' st e \<Longrightarrow> raw_inv (raw_step o' st e)"
  by (cases e) (simp_all only: raw_step.simps raw_request_inv raw_timeout_inv raw_response_inv raw_reject_all_inv)

lemma raw_step_grows:
  "prefix (q_settled st) (q_settled (raw_step o' st e)) \<and> q_issued st \<le> q_issued (raw_step o' st e)"
  by (cases e)
    (auto simp: raw_request_def raw_refuse_def raw_send_failed_def raw_issue_fields raw_timeout_def raw_response_def
      reject_all_fields Let_def split: sum.splits option.splits)

interpretation rq: settlement "raw_step o'" "raw_ok o'" raw_inv "\<lambda>s. map fst (q_timers s)" q_settled q_issued for o'
proof unfold_locales
  fix s e
  show "raw_inv s \<Longrightarrow> raw_ok o' s e \<Longrightarrow> raw_inv (raw_step o' s e)" by (rule raw_step_inv)
  show "prefix (q_settled s) (q_settled (raw_step o' s e))" "q_issued s \<le> q_issued (raw_step o' s e)"
    using raw_step_grows [of s o' e] by simp_all
next
  fix s assume "raw_inv s"
  then show "distinct (map fst (q_settled s) @ map fst (q_timers s))"
    "set (map fst (q_settled s) @ map fst (q_timers s)) = {..<q_issued s}"
    by (auto simp: raw_inv_def raw_core_def om_ok_def dom_map_of_conv_image_fst)
qed

section \<open>Sequence ids\<close>

lemma raw_id_inj: "raw_id a j = raw_id b k \<Longrightarrow> a = b \<and> j = k"
proof -
  assume h: "raw_id a j = raw_id b k"
  have s: "split_char (CHR ''-'') (raw_id x y) = [''mc'', show_nat x, show_nat y]" for x y
    using split_char_append [of "CHR ''-''" "show_nat x" "show_nat y"] show_nat_no_minus
    by (simp add: raw_id_def split_char_single)
  show ?thesis using s [of a j] s [of b k] h by (auto dest: show_nat_inj)
qed

text \<open>Every waiting id was made from an earlier value of the sequence.\<close>

definition ids_sequenced :: "raw_state \<Rightarrow> bool" where
  "ids_sequenced st = (\<forall>i. om_has (q_pending st) i \<longrightarrow> (\<exists>now k. i = raw_id now k \<and> k < q_sequence st))"

lemma sequenced_fresh: "ids_sequenced st \<Longrightarrow> \<not> om_has (q_pending st) (raw_id now (q_sequence st))"
  unfolding ids_sequenced_def using raw_id_inj by blast

lemma om_has_simps: "om_has (om_del k m) j \<longleftrightarrow> j \<noteq> k \<and> om_has m j"
  "om_has (om_set k v m) j \<longleftrightarrow> j = k \<or> om_has m j" "\<not> om_has [] j"
  by (auto simp: om_has_def)

lemma sequenced_step:
  assumes "ids_sequenced st" and "\<not> go_frame_client_id o'"
  shows "ids_sequenced (raw_step o' st e)"
proof (cases e)
  case (QRequest meth params open_now now se)
  have a: "ids_sequenced (raw_issue o' meth params (raw_id now (q_sequence st)) True st)"
    using assms(1) unfolding ids_sequenced_def raw_issue_fields om_has_simps
    by (metis less_add_one less_SucI Suc_eq_plus1)
  have b: "ids_sequenced (raw_send_failed t i meth x s)" if "ids_sequenced s" for t i x s
    using that by (auto simp: ids_sequenced_def raw_send_failed_def Let_def om_has_simps split: option.splits)
  show ?thesis
    using assms a b [OF a] QRequest
    by (auto simp: raw_request_def request_id_def Let_def split: option.splits)
      (auto simp: ids_sequenced_def raw_refuse_def)
next
  case (QTimeout t)
  with assms(1) show ?thesis
    by (auto simp: ids_sequenced_def raw_timeout_def Let_def om_has_simps split: option.splits)
next
  case (QResponse frame)
  with assms(1) show ?thesis
    by (auto simp: ids_sequenced_def raw_response_def om_has_simps split: option.splits)
next
  case (QRejectAll x)
  then show ?thesis by (simp add: ids_sequenced_def reject_all_fields om_has_simps)
qed

lemma sequenced_ok: "ids_sequenced st \<Longrightarrow> \<not> go_frame_client_id o' \<Longrightarrow> raw_ok o' st e"
  using sequenced_fresh [of st] by (cases e) (auto simp: request_id_def)

lemma sequenced_legal:
  "ids_sequenced st \<Longrightarrow> \<not> go_frame_client_id o' \<Longrightarrow> legal_run (raw_ok o') (raw_step o') st es"
  by (induction es arbitrary: st) (simp_all add: sequenced_ok sequenced_step)

lemma sequenced_new: "ids_sequenced raw_new"
  by (simp add: ids_sequenced_def raw_new_def om_has_simps)

section \<open>Backpressure\<close>

text \<open>
  The slots of \<open>runWithRpcBackpressure\<close>. A call that found no slot waits in the queue; a drained one
  has its slot reserved until its continuation runs. \<open>sl_arrived\<close> and \<open>sl_admitted\<close> log the calls in
  the order they came and in the order they got a slot.
\<close>

record slots =
  sl_active :: nat
  sl_queue :: "nat list"
  sl_reserved :: "nat list"
  sl_running :: "nat list"
  sl_rejected :: "nat list"
  sl_arrived :: "nat list"
  sl_admitted :: "nat list"

definition slots_new :: slots where
  "slots_new = \<lparr>sl_active = 0, sl_queue = [], sl_reserved = [], sl_running = [], sl_rejected = [],
     sl_arrived = [], sl_admitted = []\<rparr>"

definition max_requests :: "gateway_options \<Rightarrow> nat" where
  "max_requests o' = resolvePositiveIntegerOption (go_maxConcurrent o') 3"

definition slot_enter :: "nat \<Rightarrow> nat \<Rightarrow> slots \<Rightarrow> slots" where
  "slot_enter m c s =
     (if sl_active s \<ge> m then s\<lparr>sl_arrived := sl_arrived s @ [c], sl_queue := sl_queue s @ [c]\<rparr>
      else s\<lparr>sl_arrived := sl_arrived s @ [c], sl_active := sl_active s + 1,
             sl_running := sl_running s @ [c], sl_admitted := sl_admitted s @ [c]\<rparr>)"

text \<open>The continuation of a drained call: its slot was reserved.\<close>

definition slot_resume :: "nat \<Rightarrow> slots \<Rightarrow> slots" where
  "slot_resume c s =
     (if c \<in> set (sl_reserved s)
      then s\<lparr>sl_reserved := remove1 c (sl_reserved s), sl_running := sl_running s @ [c]\<rparr> else s)"

function drainQueuedRpcRequests :: "nat \<Rightarrow> slots \<Rightarrow> slots" where
  "drainQueuedRpcRequests m s =
     (if sl_active s < m \<and> sl_queue s \<noteq> []
      then drainQueuedRpcRequests m
        (s\<lparr>sl_reserved := sl_reserved s @ [hd (sl_queue s)], sl_admitted := sl_admitted s @ [hd (sl_queue s)],
           sl_queue := tl (sl_queue s), sl_active := sl_active s + 1\<rparr>)
      else s)"
  by pat_completeness auto
termination by (relation "measure (\<lambda>(m, s). length (sl_queue s))") auto

declare drainQueuedRpcRequests.simps [simp del]

definition slot_leave :: "nat \<Rightarrow> nat \<Rightarrow> slots \<Rightarrow> slots" where
  "slot_leave m c s =
     (if c \<in> set (sl_running s)
      then drainQueuedRpcRequests m
        (s\<lparr>sl_running := remove1 c (sl_running s), sl_active := sl_active s - 1\<rparr>)
      else s)"

definition rejectQueuedRpcRequests :: "slots \<Rightarrow> slots" where
  "rejectQueuedRpcRequests s = s\<lparr>sl_queue := [], sl_rejected := sl_rejected s @ sl_queue s\<rparr>"

datatype slot_event = SEnter nat | SResume nat | SLeave nat | SRejectQueue

fun slot_step :: "nat \<Rightarrow> slots \<Rightarrow> slot_event \<Rightarrow> slots" where
  "slot_step m s (SEnter c) = slot_enter m c s"
| "slot_step m s (SResume c) = slot_resume c s"
| "slot_step m s (SLeave c) = slot_leave m c s"
| "slot_step m s SRejectQueue = rejectQueuedRpcRequests s"

text \<open>A call enters once.\<close>

inductive slots_reachable :: "nat \<Rightarrow> slots \<Rightarrow> bool" for m where
  start: "slots_reachable m slots_new"
| enter: "slots_reachable m s \<Longrightarrow> c \<notin> set (sl_arrived s) \<Longrightarrow> slots_reachable m (slot_step m s (SEnter c))"
| resume: "slots_reachable m s \<Longrightarrow> slots_reachable m (slot_step m s (SResume c))"
| leave: "slots_reachable m s \<Longrightarrow> slots_reachable m (slot_step m s (SLeave c))"
| reject: "slots_reachable m s \<Longrightarrow> slots_reachable m (slot_step m s SRejectQueue)"

text \<open>Who holds a slot is counted; nobody is in two places; slots are given in the order of arrival.\<close>

definition slots_counted :: "nat \<Rightarrow> slots \<Rightarrow> bool" where
  "slots_counted m s = (sl_active s = length (sl_running s) + length (sl_reserved s) \<and> sl_active s \<le> m)"

definition slots_apart :: "slots \<Rightarrow> bool" where
  "slots_apart s =
     (mset (sl_running s) + mset (sl_reserved s) + mset (sl_queue s) + mset (sl_rejected s) \<subseteq># mset (sl_arrived s)
      \<and> distinct (sl_arrived s))"

definition slots_fifo :: "slots \<Rightarrow> bool" where
  "slots_fifo s = (sl_admitted s @ sl_queue s = filter (\<lambda>c. c \<notin> set (sl_rejected s)) (sl_arrived s))"

definition slots_full :: "nat \<Rightarrow> slots \<Rightarrow> bool" where
  "slots_full m s = (sl_queue s \<noteq> [] \<longrightarrow> sl_active s = m)"

definition slots_inv :: "nat \<Rightarrow> slots \<Rightarrow> bool" where
  "slots_inv m s = (slots_counted m s \<and> slots_apart s \<and> slots_fifo s \<and> slots_full m s)"

definition admit_head :: "slots \<Rightarrow> slots" where
  "admit_head s = s\<lparr>sl_reserved := sl_reserved s @ [hd (sl_queue s)],
     sl_admitted := sl_admitted s @ [hd (sl_queue s)], sl_queue := tl (sl_queue s), sl_active := sl_active s + 1\<rparr>"

lemma drain_step:
  "drainQueuedRpcRequests m s =
     (if sl_active s < m \<and> sl_queue s \<noteq> [] then drainQueuedRpcRequests m (admit_head s) else s)"
  by (subst drainQueuedRpcRequests.simps) (simp add: admit_head_def)

lemma admit_head_keeps:
  assumes "sl_queue s \<noteq> []"
  shows "slots_counted m s \<Longrightarrow> sl_active s < m \<Longrightarrow> slots_counted m (admit_head s)"
    and "slots_apart s \<Longrightarrow> slots_apart (admit_head s)"
    and "slots_fifo s \<Longrightarrow> slots_fifo (admit_head s)"
proof -
  obtain c q where q: "sl_queue s = c # q" using assms by (cases "sl_queue s") auto
  show "slots_counted m s \<Longrightarrow> sl_active s < m \<Longrightarrow> slots_counted m (admit_head s)"
    by (simp add: slots_counted_def admit_head_def)
  show "slots_apart s \<Longrightarrow> slots_apart (admit_head s)"
    by (simp add: slots_apart_def admit_head_def q ac_simps)
  show "slots_fifo s \<Longrightarrow> slots_fifo (admit_head s)"
    by (simp add: slots_fifo_def admit_head_def q)
qed

lemma drain_inv:
  "slots_counted m s \<Longrightarrow> slots_apart s \<Longrightarrow> slots_fifo s \<Longrightarrow> slots_inv m (drainQueuedRpcRequests m s)"
proof (induction "length (sl_queue s)" arbitrary: s)
  case 0
  then show ?case by (simp add: drain_step [of m s] slots_inv_def slots_full_def)
next
  case (Suc n)
  then have ne: "sl_queue s \<noteq> []" by auto
  show ?case
  proof (cases "sl_active s < m")
    case True
    have n: "n = length (sl_queue (admit_head s))" using Suc.hyps(2) by (simp add: admit_head_def)
    have "slots_inv m (drainQueuedRpcRequests m (admit_head s))"
      by (rule Suc.hyps(1) [OF n]) (simp_all add: admit_head_keeps ne Suc.prems True)
    with True ne show ?thesis by (simp add: drain_step [of m s])
  next
    case False
    then have "sl_active s = m" using Suc.prems(1) by (simp add: slots_counted_def)
    with Suc.prems show ?thesis by (simp add: drain_step [of m s] slots_inv_def slots_full_def)
  qed
qed

lemma slot_enter_inv:
  assumes "slots_inv m s" and "c \<notin> set (sl_arrived s)"
  shows "slots_inv m (slot_enter m c s)"
proof -
  have r: "c \<notin> set (sl_rejected s)"
  proof -
    have "mset (sl_running s) + mset (sl_reserved s) + mset (sl_queue s) + mset (sl_rejected s) \<subseteq># mset (sl_arrived s)"
      using assms(1) by (simp add: slots_inv_def slots_apart_def)
    then have "set_mset (mset (sl_running s) + mset (sl_reserved s) + mset (sl_queue s) + mset (sl_rejected s))
        \<subseteq> set_mset (mset (sl_arrived s))" by (rule set_mset_mono)
    with assms(2) show ?thesis by auto
  qed
  have a: "slots_apart (slot_enter m c s)"
    using assms by (auto simp: slots_inv_def slots_apart_def slot_enter_def ac_simps)
  have f: "slots_fifo (slot_enter m c s)"
  proof (cases "m \<le> sl_active s")
    case True
    with assms r show ?thesis by (simp add: slots_inv_def slots_fifo_def slot_enter_def)
  next
    case False
    then have "sl_queue s = []" using assms(1) by (auto simp: slots_inv_def slots_full_def)
    with False assms r show ?thesis by (simp add: slots_inv_def slots_fifo_def slot_enter_def)
  qed
  show ?thesis
    using assms(1) a f by (auto simp: slots_inv_def slots_counted_def slots_full_def slot_enter_def)
qed

lemma slots_frames:
  "slots_fifo (s\<lparr>sl_running := x\<rparr>) \<longleftrightarrow> slots_fifo s" "slots_fifo (s\<lparr>sl_reserved := x\<rparr>) \<longleftrightarrow> slots_fifo s"
  "slots_fifo (s\<lparr>sl_active := a\<rparr>) \<longleftrightarrow> slots_fifo s"
  "slots_full m (s\<lparr>sl_running := x\<rparr>) \<longleftrightarrow> slots_full m s" "slots_full m (s\<lparr>sl_reserved := x\<rparr>) \<longleftrightarrow> slots_full m s"
  by (simp_all add: slots_fifo_def slots_full_def)

lemma apart_resume:
  "slots_apart s \<Longrightarrow> c \<in> set (sl_reserved s) \<Longrightarrow>
   slots_apart (s\<lparr>sl_reserved := remove1 c (sl_reserved s), sl_running := sl_running s @ [c]\<rparr>)"
proof -
  assume h: "slots_apart s" and c: "c \<in> set (sl_reserved s)"
  define R where "R = mset (remove1 c (sl_reserved s))"
  have "mset (sl_reserved s) = add_mset c R" using c by (simp add: R_def)
  with h show ?thesis unfolding slots_apart_def by (simp add: R_def [symmetric] del: mset_remove1)
qed

lemma apart_leave:
  "slots_apart s \<Longrightarrow> slots_apart (s\<lparr>sl_running := remove1 c (sl_running s), sl_active := a\<rparr>)"
proof -
  assume h: "slots_apart s"
  have "mset (remove1 c (sl_running s)) \<subseteq># mset (sl_running s)" by simp
  then have "mset (remove1 c (sl_running s)) + mset (sl_reserved s) + mset (sl_queue s) + mset (sl_rejected s)
      \<subseteq># mset (sl_running s) + mset (sl_reserved s) + mset (sl_queue s) + mset (sl_rejected s)"
    by (intro subset_mset.add_right_mono)
  from subset_mset.order_trans [OF this] h show ?thesis unfolding slots_apart_def by simp
qed

lemma slot_resume_inv:
  assumes "slots_inv m s"
  shows "slots_inv m (slot_resume c s)"
proof (cases "c \<in> set (sl_reserved s)")
  case True
  define s1 where "s1 = s\<lparr>sl_reserved := remove1 c (sl_reserved s), sl_running := sl_running s @ [c]\<rparr>"
  have l: "length (sl_reserved s) = Suc (length (remove1 c (sl_reserved s)))"
    using True by (simp add: length_remove1) (metis Suc_pred length_pos_if_in_set)
  have "slots_apart s1" unfolding s1_def by (rule apart_resume [OF _ True]) (use assms in \<open>simp add: slots_inv_def\<close>)
  moreover have "slots_counted m s1"
    using assms l unfolding slots_inv_def slots_counted_def s1_def by simp
  moreover have "slots_fifo s1" "slots_full m s1"
    using assms by (simp_all add: slots_inv_def s1_def slots_frames)
  ultimately show ?thesis using True by (simp add: slots_inv_def slot_resume_def s1_def)
qed (use assms in \<open>simp add: slot_resume_def\<close>)

lemma slot_leave_inv:
  assumes "slots_inv m s"
  shows "slots_inv m (slot_leave m c s)"
proof (cases "c \<in> set (sl_running s)")
  case True
  define s1 where "s1 = s\<lparr>sl_running := remove1 c (sl_running s), sl_active := sl_active s - 1\<rparr>"
  have l: "length (sl_running s) = Suc (length (remove1 c (sl_running s)))"
    using True by (simp add: length_remove1) (metis Suc_pred length_pos_if_in_set)
  have "slots_apart s1" unfolding s1_def by (rule apart_leave) (use assms in \<open>simp add: slots_inv_def\<close>)
  moreover have "slots_counted m s1"
    using assms l unfolding slots_inv_def slots_counted_def s1_def by simp
  moreover have "slots_fifo s1"
    using assms by (simp add: slots_inv_def s1_def slots_frames)
  ultimately have "slots_inv m (drainQueuedRpcRequests m s1)" by (intro drain_inv)
  then show ?thesis using True by (simp add: slot_leave_def s1_def)
qed (use assms in \<open>simp add: slot_leave_def\<close>)

lemma slot_reject_inv:
  assumes "slots_inv m s"
  shows "slots_inv m (rejectQueuedRpcRequests s)"
proof -
  have a: "sl_admitted s @ sl_queue s = filter (\<lambda>c. c \<notin> set (sl_rejected s)) (sl_arrived s)"
    using assms by (simp add: slots_inv_def slots_fifo_def)
  have d: "distinct (sl_admitted s @ sl_queue s)"
    unfolding a using assms by (simp add: slots_inv_def slots_apart_def)
  have "filter (\<lambda>c. c \<notin> set (sl_queue s)) (sl_admitted s @ sl_queue s) = sl_admitted s"
    using d by (auto simp: filter_id_conv filter_empty_conv)
  then have f: "slots_fifo (rejectQueuedRpcRequests s)"
    unfolding a by (simp add: slots_fifo_def rejectQueuedRpcRequests_def conj_commute)
  have "slots_apart (rejectQueuedRpcRequests s)"
    using assms by (simp add: slots_inv_def slots_apart_def rejectQueuedRpcRequests_def ac_simps)
  with assms f show ?thesis
    by (simp add: slots_inv_def slots_counted_def slots_full_def rejectQueuedRpcRequests_def)
qed

lemma slots_reachable_inv: "slots_reachable m s \<Longrightarrow> slots_inv m s"
proof (induction rule: slots_reachable.induct)
  case start
  show ?case
    by (simp add: slots_inv_def slots_counted_def slots_apart_def slots_fifo_def slots_full_def slots_new_def)
qed (simp_all add: slot_enter_inv slot_resume_inv slot_leave_inv slot_reject_inv)

text \<open>Each completion admits the call that waited longest.\<close>

lemma leave_admits_head:
  assumes "slots_inv m s" and "sl_queue s = c # q" and "r \<in> set (sl_running s)"
  shows "sl_queue (slot_leave m r s) = q \<and> sl_admitted (slot_leave m r s) = sl_admitted s @ [c]
    \<and> c \<in> set (sl_reserved (slot_leave m r s))"
proof -
  define s1 where "s1 = s\<lparr>sl_running := remove1 r (sl_running s), sl_active := sl_active s - 1\<rparr>"
  have a: "sl_active s = m" "0 < sl_active s"
    using assms by (auto simp: slots_inv_def slots_full_def slots_counted_def)
  have l: "slot_leave m r s = drainQueuedRpcRequests m s1" using assms(3) by (simp add: slot_leave_def s1_def)
  have d: "drainQueuedRpcRequests m s1 = drainQueuedRpcRequests m (admit_head s1)"
    using assms(2) a by (subst drain_step) (simp add: s1_def)
  have e: "drainQueuedRpcRequests m (admit_head s1) = admit_head s1"
    using a by (subst drain_step) (simp add: admit_head_def s1_def)
  show ?thesis unfolding l d e using assms(2) by (simp add: admit_head_def s1_def)
qed

section \<open>Properties\<close>

text \<open>C4: Every request is answered once. With sequence ids, whatever frames arrive and however
  timers, sends, responses and mass rejections interleave: each request made is either waiting, or
  settled with exactly one outcome; the waiting requests are exactly those with a running timer and
  those stored for a response, under ids that are all different; and an outcome is final.\<close>

theorem gateway_requests_settle_once:
  assumes "\<not> go_frame_client_id o'" and "t < q_issued (foldl (raw_step o') raw_new es)"
  defines "st \<equiv> foldl (raw_step o') raw_new es"
  shows "((\<exists>i m. om_get (q_timers st) t = Some (i, m)) \<noteq> (\<exists>x. (t, x) \<in> set (q_settled st)))
    \<and> (\<forall>x y. (t, x) \<in> set (q_settled st) \<and> (t, y) \<in> set (q_settled st) \<longrightarrow> x = y)
    \<and> (\<forall>i. om_get (q_pending st) i = Some t \<longleftrightarrow> (\<exists>m. om_get (q_timers st) t = Some (i, m)))
    \<and> om_ok (q_pending st)
    \<and> (\<forall>x fs. (t, x) \<in> set (q_settled st) \<longrightarrow> (t, x) \<in> set (q_settled (foldl (raw_step o') st fs)))"
proof -
  have l: "legal_run (raw_ok o') (raw_step o') raw_new es" for es
    by (rule sequenced_legal [OF sequenced_new assms(1)])
  have i: "raw_inv st" unfolding st_def by (rule rq.run_inv [OF raw_inv_new l])
  have w: "t \<in> set (map fst (q_timers st)) \<longleftrightarrow> (\<exists>i m. om_get (q_timers st) t = Some (i, m))"
    by (metis domD domI dom_map_of_conv_image_fst list.set_map old.prod.exhaust)
  have f: "(t, x) \<in> set (q_settled (foldl (raw_step o') st fs))" if "(t, x) \<in> set (q_settled st)" for x fs
    using rq.outcome_final [OF raw_inv_new l that [unfolded st_def], of x fs] by (simp add: st_def)
  show ?thesis
    using rq.one_outcome [OF raw_inv_new l assms(2)] i f unfolding st_def [symmetric] w
    by (auto simp: raw_inv_def raw_core_def)
qed

definition wit_gateway :: gateway_options where
  "wit_gateway = \<lparr>go_clientId = Some ''app'', go_clientVersion = None, go_clientMode = None,
     go_clientPlatform = None, go_frame_client_id = False, go_minProtocol = None, go_maxProtocol = None,
     go_enableDevice = Some False, go_requestedScopes = None, go_defaultScopes = None, go_preauth = None,
     go_env = None, go_env_keys = None, go_maxConcurrent = None, go_maxFrame = None, go_trace = False\<rparr>"

definition wit_reply :: jv where
  "wit_reply = JObj [(''type'', JStr ''res''), (''id'', JStr ''mc-5-0''), (''ok'', JBool True),
     (''payload'', JNum (num 7))]"

lemma wit_raw: "raw_id 5 0 = ''mc-5-0''" "raw_id 6 (Suc 0) = ''mc-6-1''"
  by code_simp+

lemma wit_settled:
  "q_settled (foldl (raw_step wit_gateway) raw_new
     [QRequest ''status'' JNull True 5 None, QRequest ''status'' JNull True 6 None, QResponse wit_reply])
   = [(0, Resolved (JNum (num 7)))]"
  by (simp add: raw_request_def request_id_def wit_gateway_def raw_new_def raw_issue_def Let_def wit_raw
      raw_response_def wit_reply_def text_of_def get_prop_def truthy_def q_settle_def)

lemma wit_waiting:
  "q_timers (raw_step wit_gateway raw_new (QRequest ''status'' JNull True 5 None)) = [(0, ''mc-5-0'', ''status'')]"
  by (simp add: raw_request_def request_id_def wit_gateway_def raw_new_def raw_issue_def Let_def wit_raw)

theorem gateway_requests_settle_once_witness:
  "\<forall>fs. (0, Resolved (JNum (num 7))) \<in> set (q_settled (foldl (raw_step wit_gateway)
     (foldl (raw_step wit_gateway) raw_new
       [QRequest ''status'' JNull True 5 None, QRequest ''status'' JNull True 6 None, QResponse wit_reply]) fs))"
proof -
  let ?es = "[QRequest ''status'' JNull True 5 None, QRequest ''status'' JNull True 6 None, QResponse wit_reply]"
  have g: "\<not> go_frame_client_id wit_gateway" by (simp add: wit_gateway_def)
  have "q_issued (foldl (raw_step wit_gateway) raw_new ?es) = 2"
    by (simp add: raw_request_def request_id_def wit_gateway_def raw_new_def raw_issue_def Let_def wit_raw
        raw_response_def wit_reply_def text_of_def get_prop_def truthy_def q_settle_def)
  then have "0 < q_issued (foldl (raw_step wit_gateway) raw_new ?es)" by simp
  from gateway_requests_settle_once [OF g this] wit_settled show ?thesis by simp
qed

text \<open>No request waits for ever. A waiting request that gets no answer is settled by its own timer,
  with a timeout error naming its method, and no other request is touched by that.\<close>

theorem gateway_timeout_settles:
  assumes "raw_inv st" and "om_get (q_timers st) t = Some (i, meth)"
  shows "q_settled (raw_timeout t st) = q_settled st
      @ [(t, Rejected (rpc_error (''request timed out: '' @ meth) (code_text CTimeout)))]
    \<and> om_get (q_pending (raw_timeout t st)) = (om_get (q_pending st))(i := None)
    \<and> om_get (q_timers (raw_timeout t st)) = (om_get (q_timers st))(t := None)"
proof -
  have "om_get (q_pending st) i = Some t"
    using assms by (auto simp: raw_inv_def raw_core_def)
  with assms(2) show ?thesis by (auto simp: raw_timeout_def Let_def fun_eq_iff)
qed

theorem gateway_timeout_settles_witness:
  "map fst (q_settled (raw_timeout 0 (raw_step wit_gateway raw_new (QRequest ''status'' JNull True 5 None)))) = [0]"
proof -
  let ?st = "raw_step wit_gateway raw_new (QRequest ''status'' JNull True 5 None)"
  have i: "raw_inv ?st"
    by (intro raw_step_inv raw_inv_new sequenced_ok sequenced_new) (simp add: wit_gateway_def)
  have s: "q_settled ?st = []"
    by (simp add: raw_request_def request_id_def wit_gateway_def raw_new_def raw_issue_def Let_def)
  have "om_get (q_timers ?st) 0 = Some (''mc-5-0'', ''status'')" by (simp only: wit_waiting) simp
  from gateway_timeout_settles [OF i this] s show ?thesis by simp
qed

text \<open>Responses reach their request. A response frame with the id of a waiting request settles that
  request, with the payload when it is ok and an error otherwise, and leaves every other request
  waiting; any other frame changes nothing.\<close>

theorem gateway_response_routed:
  "if get_prop frame ''type'' = JStr ''res'' \<and> (\<exists>i t. get_prop frame ''id'' = JStr i \<and> om_get (q_pending st) i = Some t)
   then (\<exists>i t. get_prop frame ''id'' = JStr i \<and> om_get (q_pending st) i = Some t
      \<and> q_settled (raw_response frame st) = q_settled st
          @ [(t, if truthy (get_prop frame ''ok'') then Resolved (get_prop frame ''payload'')
                 else Rejected (response_error frame))]
      \<and> om_get (q_pending (raw_response frame st)) = (om_get (q_pending st))(i := None))
   else raw_response frame st = st"
  by (cases "get_prop frame ''id''") (auto simp: raw_response_def text_of_def fun_eq_iff split: option.split)

text \<open>Bounded concurrency in order of arrival. In every reachable state at most the configured number
  of requests holds a slot; nobody waits while a slot is free; requests get their slots in the order
  they came, apart from rejected ones; and a completion hands its slot to the request that has
  waited longest.\<close>

theorem backpressure_bounded_fair:
  assumes "slots_reachable m s"
  shows "length (sl_running s) + length (sl_reserved s) \<le> m
    \<and> (sl_queue s \<noteq> [] \<longrightarrow> length (sl_running s) + length (sl_reserved s) = m)
    \<and> sl_admitted s @ sl_queue s = filter (\<lambda>c. c \<notin> set (sl_rejected s)) (sl_arrived s)
    \<and> (\<forall>r c q. r \<in> set (sl_running s) \<and> sl_queue s = c # q \<longrightarrow>
         c \<in> set (sl_reserved (slot_leave m r s)) \<and> sl_queue (slot_leave m r s) = q)"
proof -
  have i: "slots_inv m s" by (rule slots_reachable_inv [OF assms])
  then have "length (sl_running s) + length (sl_reserved s) \<le> m"
    "sl_queue s \<noteq> [] \<longrightarrow> length (sl_running s) + length (sl_reserved s) = m"
    by (auto simp: slots_inv_def slots_counted_def slots_full_def)
  moreover have "sl_admitted s @ sl_queue s = filter (\<lambda>c. c \<notin> set (sl_rejected s)) (sl_arrived s)"
    using i by (simp only: slots_inv_def slots_fifo_def)
  ultimately show ?thesis using leave_admits_head [OF i] by blast
qed

theorem backpressure_bounded_fair_witness:
  "\<exists>s. slots_reachable 1 s \<and> sl_queue s = [1] \<and> 1 \<in> set (sl_reserved (slot_leave 1 0 s))"
proof -
  define s where "s = slot_step 1 (slot_step 1 slots_new (SEnter 0)) (SEnter 1)"
  have a: "slots_reachable 1 (slot_step 1 slots_new (SEnter 0))"
    by (intro slots_reachable.intros) (simp add: slots_new_def)
  have r: "slots_reachable 1 s"
    unfolding s_def by (rule slots_reachable.enter [OF a]) (simp add: slots_new_def slot_enter_def)
  have q: "sl_queue s = [1]" "sl_running s = [0]" by (simp_all add: s_def slots_new_def slot_enter_def)
  with backpressure_bounded_fair [OF r] r show ?thesis by auto
qed

text \<open>A reused connect id loses a request. With the frame id taken from the client id, a second
  connect request made while the first is waiting takes its place: the first is never answered (no
  response and no mass rejection reaches it), and its timer fires on the second.\<close>

theorem connect_id_collision_loses:
  "let o' = wit_gateway\<lparr>go_frame_client_id := True\<rparr>;
       st = foldl (raw_step o') raw_new [QRequest ''connect'' JNull True 5 None, QRequest ''connect'' JNull True 6 None]
   in q_pending st = [(''app'', 1)] \<and> q_settled st = []
      \<and> map fst (q_settled (raw_step o' st (QRejectAll e))) = [1]
      \<and> map fst (q_settled (raw_step o' st (QTimeout 0))) = [1]"
proof -
  have p: "request_id (wit_gateway\<lparr>go_frame_client_id := True\<rparr>) ''connect'' now k = Inr (''app'', False)" for now k
    by (simp add: request_id_def resolveGatewayRpcClientProfile_def wit_gateway_def trim_graph graph_char_def)
  have t: "\<not> go_trace (wit_gateway\<lparr>go_frame_client_id := True\<rparr>)" by (simp add: wit_gateway_def)
  show ?thesis
    using t by (simp add: raw_request_def p raw_new_def raw_issue_def Let_def raw_reject_all_def q_settle_def raw_timeout_def)
qed

end
