(* ===== verification/GatewayRpc.thy ===== *)
theory GatewayRpc
  imports GatewayRequests
begin

text \<open>
  The connection of \<open>GatewayRpcClient\<close> (\<open>src/core/gateway/rpc/client.ts\<close>): \<open>ensureConnected\<close> with its
  handshake, the socket's event handlers, \<open>close\<close>, and \<open>request\<close> composed with the request layer of
  \<open>GatewayRequests\<close>. Sockets, and the connect promise made with each, are numbered in the order they
  are created. What runs after an \<open>await\<close> is an event of its own. Whether the current socket is open,
  the clock, what \<open>send\<close> throws, and the signed device block of a handshake (or the error of making
  it) come with the event. Listeners do not call back into the client.
\<close>

section \<open>State\<close>

datatype connect_phase = CWaiting | CRequesting | CSettled

datatype connection_state = GIdle | GConnecting | GConnected | GError

datatype call_state =
    WaitConnect nat string jv
  | CallReady string jv
  | CallQueued string jv
  | CallRunning nat
  | CallEnded

datatype gateway_log =
    StateChange connection_state "unknown option"
  | StreamEvent nat string jv
  | SocketCloseCall nat

record gateway =
  g_raw :: raw_state
  g_slots :: slots
  g_calls :: "(nat, call_state) omap"
  g_socket :: "nat option"
  g_sockets :: nat
  g_promise :: "nat option"
  g_outcomes :: "(nat, unknown option) omap"
  g_phases :: "(nat, connect_phase) omap"
  g_timers :: "nat list"
  g_seq :: nat
  g_tries :: "(nat, nat) omap"
  g_starting :: "nat list"
  g_requests :: "(nat, nat) omap"
  g_errored :: "nat list"
  g_connected :: bool
  g_rejected :: bool
  g_intentional :: bool
  g_state :: connection_state
  g_error :: "unknown option"
  g_hello :: jv
  g_listeners :: "nat list"
  g_log :: "gateway_log list"

definition gateway_new :: gateway where
  "gateway_new = \<lparr>g_raw = raw_new, g_slots = slots_new, g_calls = [], g_socket = None, g_sockets = 0,
     g_promise = None, g_outcomes = [], g_phases = [], g_timers = [], g_seq = 0, g_tries = [],
     g_starting = [], g_requests = [], g_errored = [], g_connected = False, g_rejected = False,
     g_intentional = False, g_state = GIdle, g_error = None, g_hello = JNull, g_listeners = [], g_log = []\<rparr>"

text \<open>The environment's fixed part: the options, the token, and whether a device identity is to be used.\<close>

record gateway_env =
  ge_options :: gateway_options
  ge_token :: "string option"
  ge_agent :: string
  ge_locale :: string
  ge_device :: bool

definition setState :: "connection_state \<Rightarrow> unknown option \<Rightarrow> gateway \<Rightarrow> gateway" where
  "setState s e st = st\<lparr>g_state := s, g_error := e, g_log := g_log st @ [StateChange s e]\<rparr>"

text \<open>A promise settles once.\<close>

definition settle_connect :: "nat \<Rightarrow> unknown option \<Rightarrow> gateway \<Rightarrow> gateway" where
  "settle_connect n out st =
     (if om_has (g_outcomes st) n then st else st\<lparr>g_outcomes := om_set n out (g_outcomes st)\<rparr>)"

definition phase_of :: "gateway \<Rightarrow> nat \<Rightarrow> connect_phase" where
  "phase_of st n = or_else (om_get (g_phases st) n) CSettled"

definition set_phase :: "nat \<Rightarrow> connect_phase \<Rightarrow> gateway \<Rightarrow> gateway" where
  "set_phase n p st = st\<lparr>g_phases := om_set n p (g_phases st)\<rparr>"

definition clear_connect_timer :: "nat \<Rightarrow> gateway \<Rightarrow> gateway" where
  "clear_connect_timer n st = st\<lparr>g_timers := removeAll n (g_timers st)\<rparr>"

text \<open>Reject everything waiting for an answer or for a slot.\<close>

definition reject_outstanding :: "unknown \<Rightarrow> gateway \<Rightarrow> gateway" where
  "reject_outstanding e st =
     st\<lparr>g_raw := raw_reject_all e (g_raw st), g_slots := rejectQueuedRpcRequests (g_slots st)\<rparr>"

section \<open>Connecting\<close>

text \<open>\<open>ensureConnected\<close>: the promise the caller awaits, or none when it is connected. \<open>made\<close>: whether
  the socket's constructor returned.\<close>

definition start_connect :: "bool \<Rightarrow> gateway \<Rightarrow> gateway \<times> nat option" where
  "start_connect made st =
     (let n = g_sockets st; st1 = setState GConnecting None st in
      if made
      then (st1\<lparr>g_sockets := n + 1, g_socket := Some n, g_intentional := False, g_rejected := False,
               g_phases := om_set n CWaiting (g_phases st1), g_promise := Some n\<rparr>, Some n)
      else (settle_connect n (Some (UErr (JsError CSyntaxError ''Invalid URL'' [] None)))
              (st1\<lparr>g_sockets := n + 1, g_promise := Some n\<rparr>), Some n))"

definition ensureConnected :: "bool \<Rightarrow> bool \<Rightarrow> gateway \<Rightarrow> gateway \<times> nat option" where
  "ensureConnected open_now made st =
     (if g_connected st \<and> g_socket st \<noteq> None \<and> open_now then (st, None)
      else case g_promise st of Some p \<Rightarrow> (st, Some p) | None \<Rightarrow> start_connect made st)"

text \<open>The \<open>finally\<close> of the tracked promise.\<close>

definition promise_done :: "nat \<Rightarrow> gateway \<Rightarrow> gateway" where
  "promise_done n st =
     (if om_has (g_outcomes st) n \<and> g_promise st = Some n then st\<lparr>g_promise := None\<rparr> else st)"

definition is_current_open :: "nat \<Rightarrow> bool \<Rightarrow> gateway \<Rightarrow> bool" where
  "is_current_open n open_now st = (g_socket st = Some n \<and> open_now)"

definition sendConnect :: "nat \<Rightarrow> bool \<Rightarrow> gateway \<Rightarrow> gateway" where
  "sendConnect n open_now st =
     (if phase_of st n \<noteq> CWaiting \<or> \<not> is_current_open n open_now st then st
      else
        let st1 = set_phase n CRequesting (clear_connect_timer n st) in
        st1\<lparr>g_seq := g_seq st1 + 1, g_tries := om_set n (g_seq st1 + 1) (g_tries st1),
            g_starting := g_starting st1 @ [n]\<rparr>)"

definition retireCurrentSocket :: "nat \<Rightarrow> unknown \<Rightarrow> gateway \<Rightarrow> gateway" where
  "retireCurrentSocket n e st =
     (if g_socket st \<noteq> Some n then st
      else
        let st1 = setState GError (Some e)
              (reject_outstanding e
                ((clear_connect_timer n st)\<lparr>g_seq := g_seq st + 1, g_connected := False, g_socket := None,
                   g_promise := None\<rparr>))
        in if phase_of st1 n \<noteq> CSettled then settle_connect n (Some e) (set_phase n CSettled st1) else st1)"

text \<open>The \<open>then\<close> and the \<open>catch\<close> of \<open>doConnect\<close>.\<close>

definition stale :: "nat \<Rightarrow> gateway \<Rightarrow> bool" where
  "stale n st = (om_get (g_tries st) n \<noteq> Some (g_seq st) \<or> phase_of st n = CSettled)"

definition connect_then :: "nat \<Rightarrow> jv \<Rightarrow> bool \<Rightarrow> gateway \<Rightarrow> gateway" where
  "connect_then n hello open_now st =
     (if stale n st then st
      else if \<not> is_current_open n open_now st
      then settle_connect n (Some (createGatewaySocketClosedError None)) (set_phase n CSettled st)
      else settle_connect n None
             (setState GConnected None ((set_phase n CSettled st)\<lparr>g_hello := hello, g_connected := True\<rparr>)))"

definition connect_catch :: "nat \<Rightarrow> unknown \<Rightarrow> bool \<Rightarrow> gateway \<Rightarrow> gateway" where
  "connect_catch n e closeable st =
     (if stale n st \<or> g_connected st then st
      else
        let err = connect_failure e;
            st1 = (setState GError (Some err) (set_phase n CSettled st))
                    \<lparr>g_rejected := True, g_intentional := True\<rparr>
        in settle_connect n (Some err)
             (if closeable then st1\<lparr>g_log := g_log st1 @ [SocketCloseCall n]\<rparr> else st1))"

text \<open>\<open>doConnect\<close> after the device identity is ready: its request goes to the socket current then.\<close>

definition doConnect ::
  "gateway_env \<Rightarrow> nat \<Rightarrow> unknown + jv option \<Rightarrow> bool \<Rightarrow> nat \<Rightarrow> unknown option \<Rightarrow> bool \<Rightarrow> gateway \<Rightarrow> gateway" where
  "doConnect env n device open_now now send_error closeable st =
     (if n \<notin> set (g_starting st) then st
      else
        let st1 = st\<lparr>g_starting := removeAll n (g_starting st)\<rparr> in
        (case device of
           Inl e \<Rightarrow> connect_catch n e closeable st1
         | Inr d \<Rightarrow>
             (case createGatewayRpcConnectParams (ge_token env) (ge_agent env) (ge_locale env) (ge_options env) d of
                Inl e \<Rightarrow> connect_catch n e closeable st1
              | Inr params \<Rightarrow>
                  st1\<lparr>g_requests := om_set (q_issued (g_raw st1)) n (g_requests st1),
                      g_raw := raw_request (ge_options env) ''connect'' params
                        (g_socket st1 \<noteq> None \<and> open_now) now send_error (g_raw st1)\<rparr>)))"

text \<open>The connect request \<open>t\<close> has settled: its continuation runs.\<close>

definition connect_done :: "nat \<Rightarrow> bool \<Rightarrow> bool \<Rightarrow> gateway \<Rightarrow> gateway" where
  "connect_done t open_now closeable st =
     (case (om_get (g_requests st) t, om_get (q_settled (g_raw st)) t) of
        (Some n, Some (Resolved hello)) \<Rightarrow>
          connect_then n hello open_now (st\<lparr>g_requests := om_del t (g_requests st)\<rparr>)
      | (Some n, Some (Rejected e)) \<Rightarrow>
          connect_catch n e closeable (st\<lparr>g_requests := om_del t (g_requests st)\<rparr>)
      | _ \<Rightarrow> st)"

section \<open>Socket events\<close>

definition gw_on_open :: "gateway_env \<Rightarrow> nat \<Rightarrow> bool \<Rightarrow> gateway \<Rightarrow> gateway" where
  "gw_on_open env n open_now st =
     (if \<not> ge_device env then sendConnect n open_now st else st\<lparr>g_timers := os_add n (g_timers st)\<rparr>)"

definition gw_on_timer :: "nat \<Rightarrow> bool \<Rightarrow> gateway \<Rightarrow> gateway" where
  "gw_on_timer n open_now st =
     (if n \<in> set (g_timers st) then sendConnect n open_now (clear_connect_timer n st) else st)"

definition handleMessage :: "jv \<Rightarrow> gateway \<Rightarrow> gateway" where
  "handleMessage v st =
     (if \<not> is_js_object v then st
      else
        (case (get_prop v ''type'', text_of (get_prop v ''event'')) of
           (JStr ty, Some name) \<Rightarrow>
             if ty = ''event''
             then st\<lparr>g_log := g_log st @ map (\<lambda>l. StreamEvent l name (get_prop v ''payload'')) (g_listeners st)\<rparr>
             else st\<lparr>g_raw := raw_response v (g_raw st)\<rparr>
         | _ \<Rightarrow> st\<lparr>g_raw := raw_response v (g_raw st)\<rparr>))"

definition MAX_FRAME :: nat where
  "MAX_FRAME = 16 * 1024 * 1024"

definition is_challenge :: "jv \<Rightarrow> bool" where
  "is_challenge v = (get_prop v ''type'' = JStr ''event'' \<and> get_prop v ''event'' = JStr ''connect.challenge'')"

text \<open>A text frame, as its UTF-8 bytes; frames of another type are ignored.\<close>

definition gw_on_message :: "gateway_env \<Rightarrow> nat \<Rightarrow> string \<Rightarrow> bool \<Rightarrow> gateway \<Rightarrow> gateway" where
  "gw_on_message env n text open_now st =
     (if g_socket st \<noteq> Some n then st
      else if length text > resolvePositiveIntegerOption (go_maxFrame (ge_options env)) MAX_FRAME
      then
        let st1 = retireCurrentSocket n
              (createGatewaySocketClosedError (Some (JNum (num 1009), JStr ''Message too large''))) st
        in st1\<lparr>g_log := g_log st1 @ [SocketCloseCall n]\<rparr>
      else
        (case json_parse text of
           None \<Rightarrow> st
         | Some v \<Rightarrow>
             if phase_of st n = CWaiting \<and> is_challenge v \<and> is_current_open n open_now st
             then sendConnect n open_now st
             else handleMessage v st))"

definition socket_failed_error :: unknown where
  "socket_failed_error =
     UErr (GatewayRpcError ''gateway websocket failed'' (Some (code_text SocketError))
       (Some (plain_meta KWebsocket PConnect ''connect'' True 1)))"

definition gw_on_error :: "nat \<Rightarrow> gateway \<Rightarrow> gateway" where
  "gw_on_error n st =
     (if n \<in> set (g_errored st) then st
      else
        let st0 = st\<lparr>g_errored := g_errored st @ [n]\<rparr> in
        if g_socket st0 \<noteq> Some n then st0
        else settle_connect n (Some socket_failed_error)
               (set_phase n CSettled (setState GError (Some socket_failed_error) (clear_connect_timer n st0))))"

definition gw_on_close :: "nat \<Rightarrow> (jv \<times> jv) option \<Rightarrow> gateway \<Rightarrow> gateway" where
  "gw_on_close n event st =
     (if g_socket st \<noteq> Some n then st
      else
        let e = createGatewaySocketClosedError event;
            st1 = reject_outstanding e
                    ((clear_connect_timer n st)\<lparr>g_connected := False, g_promise := None, g_socket := None\<rparr>)
        in if g_rejected st1 then st1\<lparr>g_intentional := False, g_rejected := False\<rparr>
           else if g_intentional st1 then st1\<lparr>g_intentional := False\<rparr>
           else
             let st2 = setState GError (Some e) st1 in
             if phase_of st2 n \<noteq> CSettled then settle_connect n (Some e) (set_phase n CSettled st2) else st2)"

section \<open>Calls\<close>

definition gw_close :: "gateway \<Rightarrow> gateway" where
  "gw_close st =
     (let st1 = st\<lparr>g_seq := g_seq st + 1, g_intentional := True, g_connected := False, g_promise := None\<rparr> in
      case g_socket st1 of
        None \<Rightarrow> setState GIdle None st1
      | Some n \<Rightarrow>
          setState GIdle None
            (reject_outstanding (rpc_error ''connection closed'' ''closed'')
              (st1\<lparr>g_socket := None, g_log := g_log st1 @ [SocketCloseCall n]\<rparr>)))"

definition set_call :: "nat \<Rightarrow> call_state \<Rightarrow> gateway \<Rightarrow> gateway" where
  "set_call c x st = st\<lparr>g_calls := om_set c x (g_calls st)\<rparr>"

text \<open>\<open>request\<close> up to its first \<open>await\<close>.\<close>

definition gw_call :: "nat \<Rightarrow> string \<Rightarrow> jv \<Rightarrow> bool \<Rightarrow> bool \<Rightarrow> gateway \<Rightarrow> gateway" where
  "gw_call c meth params open_now made st =
     (if om_has (g_calls st) c then st
      else
        (case ensureConnected open_now made st of
           (st1, None) \<Rightarrow> set_call c (CallReady meth params) st1
         | (st1, Some p) \<Rightarrow> set_call c (WaitConnect p meth params) st1))"

text \<open>\<open>run()\<close>: the request is made on the socket current now.\<close>

definition run_call ::
  "gateway_env \<Rightarrow> nat \<Rightarrow> string \<Rightarrow> jv \<Rightarrow> bool \<Rightarrow> nat \<Rightarrow> unknown option \<Rightarrow> gateway \<Rightarrow> gateway" where
  "run_call env c meth params open_now now send_error st =
     set_call c (CallRunning (q_issued (g_raw st)))
       (st\<lparr>g_raw := raw_request (ge_options env) meth params (g_socket st \<noteq> None \<and> open_now) now send_error
                       (g_raw st)\<rparr>)"

text \<open>The continuation of a call whose \<open>await\<close> is over.\<close>

definition gw_proceed ::
  "gateway_env \<Rightarrow> nat \<Rightarrow> bool \<Rightarrow> nat \<Rightarrow> unknown option \<Rightarrow> gateway \<Rightarrow> gateway" where
  "gw_proceed env c open_now now send_error st =
     (let m = max_requests (ge_options env) in
      case om_get (g_calls st) c of
        Some (WaitConnect p meth params) \<Rightarrow>
          (case om_get (g_outcomes st) p of
             None \<Rightarrow> st
           | Some None \<Rightarrow> set_call c (CallReady meth params) st
           | Some (Some e) \<Rightarrow> set_call c CallEnded st)
      | Some (CallReady meth params) \<Rightarrow>
          let st1 = st\<lparr>g_slots := slot_enter m c (g_slots st)\<rparr> in
          if c \<in> set (sl_running (g_slots st1)) then run_call env c meth params open_now now send_error st1
          else set_call c (CallQueued meth params) st1
      | Some (CallQueued meth params) \<Rightarrow>
          if c \<in> set (sl_reserved (g_slots st))
          then run_call env c meth params open_now now send_error (st\<lparr>g_slots := slot_resume c (g_slots st)\<rparr>)
          else if c \<in> set (sl_rejected (g_slots st)) then set_call c CallEnded st
          else st
      | Some (CallRunning t) \<Rightarrow>
          if om_has (q_settled (g_raw st)) t
          then set_call c CallEnded (st\<lparr>g_slots := slot_leave m c (g_slots st)\<rparr>)
          else st
      | _ \<Rightarrow> st)"

datatype gateway_event =
    GConnectCall bool bool
  | GPromiseDone nat
  | GOpen nat bool
  | GTimer nat bool
  | GDoConnect nat "unknown + jv option" bool nat "unknown option" bool
  | GConnectDone nat bool bool
  | GMessage nat string bool
  | GSocketError nat
  | GSocketClose nat "(jv \<times> jv) option"
  | GTimeout nat
  | GCall nat string jv bool bool
  | GProceed nat bool nat "unknown option"
  | GOnEvent nat
  | GOffEvent nat
  | GCloseCall

fun gw_step :: "gateway_env \<Rightarrow> gateway \<Rightarrow> gateway_event \<Rightarrow> gateway" where
  "gw_step env st (GConnectCall open_now made) = fst (ensureConnected open_now made st)"
| "gw_step env st (GPromiseDone n) = promise_done n st"
| "gw_step env st (GOpen n open_now) = gw_on_open env n open_now st"
| "gw_step env st (GTimer n open_now) = gw_on_timer n open_now st"
| "gw_step env st (GDoConnect n device open_now now send_error closeable) =
     doConnect env n device open_now now send_error closeable st"
| "gw_step env st (GConnectDone t open_now closeable) = connect_done t open_now closeable st"
| "gw_step env st (GMessage n text open_now) = gw_on_message env n text open_now st"
| "gw_step env st (GSocketError n) = gw_on_error n st"
| "gw_step env st (GSocketClose n event) = gw_on_close n event st"
| "gw_step env st (GTimeout t) = st\<lparr>g_raw := raw_timeout t (g_raw st)\<rparr>"
| "gw_step env st (GCall c meth params open_now made) = gw_call c meth params open_now made st"
| "gw_step env st (GProceed c open_now now send_error) = gw_proceed env c open_now now send_error st"
| "gw_step env st (GOnEvent l) = st\<lparr>g_listeners := os_add l (g_listeners st)\<rparr>"
| "gw_step env st (GOffEvent l) = st\<lparr>g_listeners := removeAll l (g_listeners st)\<rparr>"
| "gw_step env st GCloseCall = gw_close st"

inductive gw_reachable :: "gateway_env \<Rightarrow> gateway \<Rightarrow> bool" for env where
  start: "gw_reachable env gateway_new"
| step: "gw_reachable env st \<Longrightarrow> gw_reachable env (gw_step env st e)"

section \<open>Field facts\<close>

text \<open>What each helper leaves alone.\<close>

named_theorems gw_fields \<open>projections of the gateway operations\<close>

lemma setState_fields [gw_fields]:
  "g_raw (setState s e st) = g_raw st" "g_slots (setState s e st) = g_slots st"
  "g_calls (setState s e st) = g_calls st" "g_socket (setState s e st) = g_socket st"
  "g_sockets (setState s e st) = g_sockets st" "g_promise (setState s e st) = g_promise st"
  "g_outcomes (setState s e st) = g_outcomes st" "g_phases (setState s e st) = g_phases st"
  "g_seq (setState s e st) = g_seq st" "g_tries (setState s e st) = g_tries st"
  "g_connected (setState s e st) = g_connected st" "g_state (setState s e st) = s"
  "g_rejected (setState s e st) = g_rejected st" "g_intentional (setState s e st) = g_intentional st"
  by (simp_all add: setState_def)

lemma settle_connect_fields [gw_fields]:
  "g_raw (settle_connect n x st) = g_raw st" "g_slots (settle_connect n x st) = g_slots st"
  "g_calls (settle_connect n x st) = g_calls st" "g_socket (settle_connect n x st) = g_socket st"
  "g_sockets (settle_connect n x st) = g_sockets st" "g_promise (settle_connect n x st) = g_promise st"
  "g_phases (settle_connect n x st) = g_phases st"
  "g_seq (settle_connect n x st) = g_seq st" "g_tries (settle_connect n x st) = g_tries st"
  "g_connected (settle_connect n x st) = g_connected st" "g_state (settle_connect n x st) = g_state st"
  by (simp_all add: settle_connect_def)

lemma set_phase_fields [gw_fields]:
  "g_raw (set_phase n x st) = g_raw st" "g_slots (set_phase n x st) = g_slots st"
  "g_calls (set_phase n x st) = g_calls st" "g_socket (set_phase n x st) = g_socket st"
  "g_sockets (set_phase n x st) = g_sockets st" "g_promise (set_phase n x st) = g_promise st"
  "g_outcomes (set_phase n x st) = g_outcomes st" "g_phases (set_phase n x st) = om_set n x (g_phases st)"
  "g_seq (set_phase n x st) = g_seq st" "g_tries (set_phase n x st) = g_tries st"
  "g_connected (set_phase n x st) = g_connected st" "g_state (set_phase n x st) = g_state st"
  by (simp_all add: set_phase_def)

lemma clear_connect_timer_fields [gw_fields]:
  "g_raw (clear_connect_timer n st) = g_raw st" "g_slots (clear_connect_timer n st) = g_slots st"
  "g_calls (clear_connect_timer n st) = g_calls st" "g_socket (clear_connect_timer n st) = g_socket st"
  "g_sockets (clear_connect_timer n st) = g_sockets st" "g_promise (clear_connect_timer n st) = g_promise st"
  "g_outcomes (clear_connect_timer n st) = g_outcomes st" "g_phases (clear_connect_timer n st) = g_phases st"
  "g_seq (clear_connect_timer n st) = g_seq st" "g_tries (clear_connect_timer n st) = g_tries st"
  "g_connected (clear_connect_timer n st) = g_connected st" "g_state (clear_connect_timer n st) = g_state st"
  by (simp_all add: clear_connect_timer_def)

lemma reject_outstanding_fields [gw_fields]:
  "g_raw (reject_outstanding e st) = raw_reject_all e (g_raw st)"
  "g_slots (reject_outstanding e st) = rejectQueuedRpcRequests (g_slots st)"
  "g_calls (reject_outstanding e st) = g_calls st" "g_socket (reject_outstanding e st) = g_socket st"
  "g_sockets (reject_outstanding e st) = g_sockets st" "g_promise (reject_outstanding e st) = g_promise st"
  "g_outcomes (reject_outstanding e st) = g_outcomes st" "g_phases (reject_outstanding e st) = g_phases st"
  "g_seq (reject_outstanding e st) = g_seq st" "g_tries (reject_outstanding e st) = g_tries st"
  "g_connected (reject_outstanding e st) = g_connected st" "g_state (reject_outstanding e st) = g_state st"
  by (simp_all add: reject_outstanding_def)

lemma set_call_fields [gw_fields]:
  "g_raw (set_call c x st) = g_raw st" "g_slots (set_call c x st) = g_slots st"
  "g_calls (set_call c x st) = om_set c x (g_calls st)" "g_socket (set_call c x st) = g_socket st"
  "g_sockets (set_call c x st) = g_sockets st" "g_promise (set_call c x st) = g_promise st"
  "g_outcomes (set_call c x st) = g_outcomes st" "g_phases (set_call c x st) = g_phases st"
  "g_seq (set_call c x st) = g_seq st" "g_tries (set_call c x st) = g_tries st"
  "g_connected (set_call c x st) = g_connected st" "g_state (set_call c x st) = g_state st"
  by (simp_all add: set_call_def)

section \<open>The request layer of a connection\<close>

text \<open>Every step moves the request layer by one of its own steps, or not at all.\<close>

definition raw_moves :: "gateway_options \<Rightarrow> raw_state \<Rightarrow> raw_state \<Rightarrow> bool" where
  "raw_moves o' r r' = (r' = r \<or> (\<exists>e. r' = raw_step o' r e))"

lemma raw_movesI:
  "raw_moves o' r r" "raw_moves o' r (raw_reject_all e r)" "raw_moves o' r (raw_response v r)"
  "raw_moves o' r (raw_timeout t r)" "raw_moves o' r (raw_request o' meth params b now se r)"
  unfolding raw_moves_def by (metis raw_step.simps)+

lemma sendConnect_fields [gw_fields]:
  "g_raw (sendConnect n b st) = g_raw st" "g_slots (sendConnect n b st) = g_slots st"
  "g_calls (sendConnect n b st) = g_calls st" "g_socket (sendConnect n b st) = g_socket st"
  "g_sockets (sendConnect n b st) = g_sockets st" "g_outcomes (sendConnect n b st) = g_outcomes st"
  "g_connected (sendConnect n b st) = g_connected st" "g_state (sendConnect n b st) = g_state st"
  by (simp_all add: sendConnect_def Let_def set_phase_def clear_connect_timer_def)

lemma ensureConnected_fields [gw_fields]:
  "g_raw (fst (ensureConnected b m st)) = g_raw st" "g_slots (fst (ensureConnected b m st)) = g_slots st"
  "g_calls (fst (ensureConnected b m st)) = g_calls st"
  by (auto simp: ensureConnected_def start_connect_def Let_def gw_fields split: option.splits)

lemma connect_then_fields [gw_fields]:
  "g_raw (connect_then n h b st) = g_raw st" "g_slots (connect_then n h b st) = g_slots st"
  "g_calls (connect_then n h b st) = g_calls st" "g_socket (connect_then n h b st) = g_socket st"
  "g_sockets (connect_then n h b st) = g_sockets st"
  by (simp_all add: connect_then_def gw_fields)

lemma connect_catch_fields [gw_fields]:
  "g_raw (connect_catch n e b st) = g_raw st" "g_slots (connect_catch n e b st) = g_slots st"
  "g_calls (connect_catch n e b st) = g_calls st" "g_socket (connect_catch n e b st) = g_socket st"
  "g_sockets (connect_catch n e b st) = g_sockets st" "g_connected (connect_catch n e b st) = g_connected st"
  by (simp_all add: connect_catch_def Let_def gw_fields)

lemma run_call_fields [gw_fields]:
  "g_slots (run_call env c meth params b now se st) = g_slots st"
  "g_calls (run_call env c meth params b now se st) = om_set c (CallRunning (q_issued (g_raw st))) (g_calls st)"
  "g_socket (run_call env c meth params b now se st) = g_socket st"
  "g_sockets (run_call env c meth params b now se st) = g_sockets st"
  "g_outcomes (run_call env c meth params b now se st) = g_outcomes st"
  "g_raw (run_call env c meth params b now se st) =
     raw_request (ge_options env) meth params (g_socket st \<noteq> None \<and> b) now se (g_raw st)"
  by (simp_all add: run_call_def gw_fields)

lemma gw_raw_moves: "raw_moves (ge_options env) (g_raw st) (g_raw (gw_step env st e))"
proof (cases e)
  case (GDoConnect n device b now se c)
  then show ?thesis by (auto simp: doConnect_def Let_def gw_fields raw_movesI split: sum.split)
next
  case (GConnectDone t b c)
  then show ?thesis by (auto simp: connect_done_def gw_fields raw_movesI split: option.split outcome.split)
next
  case (GMessage n s b)
  then show ?thesis
    by (auto simp: gw_on_message_def handleMessage_def retireCurrentSocket_def Let_def gw_fields raw_movesI
        split: option.split jv.split)
next
  case (GSocketError n)
  then show ?thesis by (auto simp: gw_on_error_def Let_def gw_fields raw_movesI)
next
  case (GSocketClose n ev)
  then show ?thesis by (auto simp: gw_on_close_def Let_def gw_fields raw_movesI)
next
  case (GCall c meth params b m)
  have "g_raw (fst (ensureConnected b m st)) = g_raw st" by (simp add: gw_fields)
  with GCall show ?thesis
    by (cases "ensureConnected b m st") (auto simp: gw_call_def gw_fields raw_movesI split: option.split)
next
  case (GProceed c b now se)
  then show ?thesis
    by (auto simp: gw_proceed_def Let_def gw_fields raw_movesI split: option.split call_state.split)
next
  case (GOpen n b)
  then show ?thesis by (auto simp: gw_on_open_def gw_fields raw_movesI)
next
  case (GTimer n b)
  then show ?thesis by (auto simp: gw_on_timer_def gw_fields raw_movesI)
next
  case GCloseCall
  then show ?thesis by (auto simp: gw_close_def Let_def gw_fields raw_movesI split: option.split)
qed (simp_all add: gw_fields raw_movesI promise_done_def)


lemma gw_raw_kept:
  assumes "gw_reachable env st" and "\<not> go_frame_client_id (ge_options env)"
  shows "raw_inv (g_raw st) \<and> ids_sequenced (g_raw st)"
  using assms(1)
proof induction
  case start
  show ?case using sequenced_new raw_inv_new by (simp add: gateway_new_def)
next
  case (step st e)
  then have i: "raw_inv (g_raw st)" "ids_sequenced (g_raw st)" by simp_all
  from gw_raw_moves [of env st e] show ?case unfolding raw_moves_def
    using i raw_step_inv sequenced_step sequenced_ok assms(2) by metis
qed

section \<open>The connection's invariant\<close>

text \<open>
  Stated on the values of the fields: an unfinished handshake belongs to the current socket and its
  promise is the one callers wait on; only the newest attempt can finish, and only on the current
  socket; a rejected or closed connection has no handshake left.
\<close>

definition phase_in :: "(nat, connect_phase) omap \<Rightarrow> nat \<Rightarrow> connect_phase" where
  "phase_in phs n = or_else (om_get phs n) CSettled"

definition conn_numbers ::
  "nat option \<Rightarrow> nat \<Rightarrow> nat option \<Rightarrow> (nat, unknown option) omap \<Rightarrow> (nat, connect_phase) omap \<Rightarrow> nat
     \<Rightarrow> (nat, nat) omap \<Rightarrow> bool" where
  "conn_numbers so k pr outs phs q tries =
     ((\<forall>n. so = Some n \<longrightarrow> n < k) \<and> (\<forall>n. pr = Some n \<longrightarrow> n < k) \<and> (\<forall>n. om_has outs n \<longrightarrow> n < k)
      \<and> (\<forall>n. om_has phs n \<longrightarrow> n < k) \<and> (\<forall>n i. om_get tries n = Some i \<longrightarrow> i \<le> q \<and> n < k))"

definition conn_waiting ::
  "nat option \<Rightarrow> nat option \<Rightarrow> (nat, unknown option) omap \<Rightarrow> (nat, connect_phase) omap \<Rightarrow> bool" where
  "conn_waiting so pr outs phs =
     (\<forall>n. so = Some n \<and> phase_in phs n \<noteq> CSettled \<longrightarrow> pr = Some n \<and> \<not> om_has outs n)"

definition conn_newest :: "nat option \<Rightarrow> (nat, connect_phase) omap \<Rightarrow> nat \<Rightarrow> (nat, nat) omap \<Rightarrow> bool" where
  "conn_newest so phs q tries =
     (\<forall>n. om_get tries n = Some q \<and> phase_in phs n \<noteq> CSettled \<longrightarrow> so = Some n)"

definition conn_over :: "nat option \<Rightarrow> (nat, connect_phase) omap \<Rightarrow> bool \<Rightarrow> bool" where
  "conn_over so phs quiet' = (quiet' \<longrightarrow> (\<forall>n. so = Some n \<longrightarrow> phase_in phs n = CSettled))"

definition conn_live ::
  "nat option \<Rightarrow> bool \<Rightarrow> bool \<Rightarrow> connection_state \<Rightarrow> bool" where
  "conn_live so conn quiet' s = (s = GConnected \<longrightarrow> conn \<and> so \<noteq> None \<and> \<not> quiet')"

definition gw_inv :: "gateway \<Rightarrow> bool" where
  "gw_inv st =
     (conn_numbers (g_socket st) (g_sockets st) (g_promise st) (g_outcomes st) (g_phases st) (g_seq st) (g_tries st)
      \<and> conn_waiting (g_socket st) (g_promise st) (g_outcomes st) (g_phases st)
      \<and> conn_newest (g_socket st) (g_phases st) (g_seq st) (g_tries st)
      \<and> conn_over (g_socket st) (g_phases st) (g_rejected st \<or> g_intentional st)
      \<and> conn_live (g_socket st) (g_connected st) (g_rejected st \<or> g_intentional st) (g_state st))"

lemma phase_in_set: "phase_in (om_set n p phs) m = (if m = n then p else phase_in phs m)"
  by (simp add: phase_in_def or_else_def)

lemma phase_of_in: "phase_of st n = phase_in (g_phases st) n"
  by (simp add: phase_of_def phase_in_def)

lemmas conn_defs = conn_numbers_def conn_waiting_def conn_newest_def conn_over_def conn_live_def
  phase_in_set om_has_simps


lemma more_fields [gw_fields]:
  "g_rejected (settle_connect n x st) = g_rejected st" "g_intentional (settle_connect n x st) = g_intentional st"
  "g_outcomes (settle_connect n x st) =
     (if om_has (g_outcomes st) n then g_outcomes st else om_set n x (g_outcomes st))"
  "g_rejected (set_phase n p st) = g_rejected st" "g_intentional (set_phase n p st) = g_intentional st"
  "g_rejected (clear_connect_timer n st) = g_rejected st"
  "g_intentional (clear_connect_timer n st) = g_intentional st"
  "g_rejected (reject_outstanding e st) = g_rejected st"
  "g_intentional (reject_outstanding e st) = g_intentional st"
  "g_rejected (set_call c cs st) = g_rejected st" "g_intentional (set_call c cs st) = g_intentional st"
  by (simp_all add: settle_connect_def set_phase_def clear_connect_timer_def reject_outstanding_def set_call_def)

lemma gw_inv_new: "gw_inv gateway_new"
  by (simp add: gw_inv_def gateway_new_def conn_defs)

text \<open>Fields the invariant does not read.\<close>

lemma gw_inv_frame [simp]:
  "gw_inv (st\<lparr>g_raw := r\<rparr>) = gw_inv st" "gw_inv (st\<lparr>g_slots := sl\<rparr>) = gw_inv st"
  "gw_inv (st\<lparr>g_calls := cs\<rparr>) = gw_inv st" "gw_inv (st\<lparr>g_timers := ts\<rparr>) = gw_inv st"
  "gw_inv (st\<lparr>g_starting := ts\<rparr>) = gw_inv st" "gw_inv (st\<lparr>g_requests := rs\<rparr>) = gw_inv st"
  "gw_inv (st\<lparr>g_errored := ts\<rparr>) = gw_inv st" "gw_inv (st\<lparr>g_error := e\<rparr>) = gw_inv st"
  "gw_inv (st\<lparr>g_hello := h\<rparr>) = gw_inv st" "gw_inv (st\<lparr>g_listeners := ts\<rparr>) = gw_inv st"
  "gw_inv (st\<lparr>g_log := l\<rparr>) = gw_inv st"
  by (simp_all add: gw_inv_def)

lemma gw_inv_helpers [simp]:
  "gw_inv (clear_connect_timer n st) = gw_inv st" "gw_inv (reject_outstanding e st) = gw_inv st"
  "gw_inv (set_call c cs st) = gw_inv st"
  by (simp_all add: clear_connect_timer_def reject_outstanding_def set_call_def)

lemma gw_invD:
  assumes "gw_inv st"
  shows "conn_numbers (g_socket st) (g_sockets st) (g_promise st) (g_outcomes st) (g_phases st) (g_seq st) (g_tries st)"
    and "conn_waiting (g_socket st) (g_promise st) (g_outcomes st) (g_phases st)"
    and "conn_newest (g_socket st) (g_phases st) (g_seq st) (g_tries st)"
    and "conn_over (g_socket st) (g_phases st) (g_rejected st \<or> g_intentional st)"
    and "conn_live (g_socket st) (g_connected st) (g_rejected st \<or> g_intentional st) (g_state st)"
  using assms by (simp_all add: gw_inv_def)

lemma socket_numbered: "gw_inv st \<Longrightarrow> g_socket st = Some n \<Longrightarrow> n < g_sockets st"
  using gw_invD(1) by (auto simp: conn_numbers_def)

lemma try_numbered: "gw_inv st \<Longrightarrow> om_get (g_tries st) n = Some i \<Longrightarrow> i \<le> g_seq st \<and> n < g_sockets st"
  using gw_invD(1) by (auto simp: conn_numbers_def)

text \<open>The elementary moves.\<close>

lemma settle_phase_core:
  "conn_numbers so k pr outs phs q tries \<Longrightarrow> n < k \<Longrightarrow> conn_numbers so k pr outs (om_set n CSettled phs) q tries"
  "conn_waiting so pr outs phs \<Longrightarrow> conn_waiting so pr outs (om_set n CSettled phs)"
  "conn_newest so phs q tries \<Longrightarrow> conn_newest so (om_set n CSettled phs) q tries"
  "conn_over so phs b \<Longrightarrow> conn_over so (om_set n CSettled phs) b"
  unfolding conn_defs by (blast, metis+)

lemma inv_set_phase:
  assumes "gw_inv st" and "n < g_sockets st"
  shows "gw_inv (set_phase n CSettled st)"
  using gw_invD [OF assms(1)] assms(2) by (simp add: gw_inv_def gw_fields settle_phase_core)

lemma settle_core:
  "conn_numbers so k pr outs phs q tries \<Longrightarrow> n < k \<Longrightarrow> conn_numbers so k pr (om_set n x outs) phs q tries"
  "conn_waiting so pr outs phs \<Longrightarrow> phase_in phs n = CSettled \<Longrightarrow> conn_waiting so pr (om_set n x outs) phs"
  unfolding conn_defs by blast+

lemma inv_settle_promise:
  assumes "gw_inv st" and "n < g_sockets st" and "phase_of st n = CSettled"
  shows "gw_inv (settle_connect n x st)"
  using gw_invD [OF assms(1)] assms(2,3) by (simp add: gw_inv_def gw_fields settle_core phase_of_in)

lemma inv_setState: "gw_inv st \<Longrightarrow> s \<noteq> GConnected \<Longrightarrow> gw_inv (setState s e st)"
  by (simp add: gw_inv_def gw_fields conn_live_def)

lemma drop_core:
  assumes "conn_numbers so k pr outs phs q tries"
  shows "conn_numbers None k None outs phs (q + 1) tries" and "conn_newest None phs (q + 1) tries"
  using assms unfolding conn_numbers_def conn_newest_def by (auto simp: le_SucI) fastforce

lemma inv_drop:
  assumes "gw_inv st" and "s \<noteq> GConnected"
  shows "gw_inv (setState s e (st\<lparr>g_seq := g_seq st + 1, g_connected := False, g_socket := None, g_promise := None\<rparr>))"
  using drop_core [OF gw_invD(1) [OF assms(1)]] assms(2)
  by (simp add: gw_inv_def gw_fields conn_waiting_def conn_over_def conn_live_def)

lemma start_core:
  assumes "conn_numbers so k None outs phs q tries" and "conn_waiting so None outs phs"
    and "conn_newest so phs q tries"
  shows "conn_numbers (Some k) (Suc k) (Some k) outs (om_set k CWaiting phs) q tries"
    and "conn_waiting (Some k) (Some k) outs (om_set k CWaiting phs)"
    and "conn_newest (Some k) (om_set k CWaiting phs) q tries"
    and "conn_numbers so (Suc k) (Some k) (om_set k x outs) phs q tries"
    and "conn_numbers so (Suc k) (Some k) outs phs q tries"
    and "conn_waiting so (Some k) outs' phs"
  using assms unfolding conn_defs
  by (metis less_Suc_eq option.inject, metis less_irrefl option.inject, metis option.distinct(1),
      metis less_Suc_eq option.inject, metis less_Suc_eq option.inject, metis option.distinct(1))

lemma start_connect_inv:
  assumes "gw_inv st" and "g_promise st = None"
  shows "gw_inv (fst (start_connect made st))"
  using gw_invD [OF assms(1)] assms(2)
  by (cases made) (simp_all add: gw_inv_def start_connect_def Let_def gw_fields start_core conn_over_def
      conn_live_def)

lemma ensureConnected_inv: "gw_inv st \<Longrightarrow> gw_inv (fst (ensureConnected b made st))"
  by (simp add: ensureConnected_def start_connect_inv split: option.split)

lemma promise_done_core:
  assumes "conn_numbers so k pr outs phs q tries" and "conn_waiting so (Some n) outs phs" and "om_has outs n"
  shows "conn_numbers so k None outs phs q tries" and "conn_waiting so None outs phs"
  using assms unfolding conn_defs by blast+

lemma promise_done_inv:
  assumes "gw_inv st"
  shows "gw_inv (promise_done n st)"
proof (cases "om_has (g_outcomes st) n \<and> g_promise st = Some n")
  case True
  then show ?thesis using gw_invD [OF assms] by (simp add: gw_inv_def promise_done_def promise_done_core)
qed (use assms in \<open>auto simp: promise_done_def\<close>)

lemma send_core:
  assumes "conn_numbers (Some n) k pr outs phs q tries" and "conn_waiting (Some n) pr outs phs"
    and "conn_over (Some n) phs b" and "phase_in phs n \<noteq> CSettled"
  shows "conn_numbers (Some n) k pr outs (om_set n CRequesting phs) (Suc q) (om_set n (Suc q) tries)"
    and "conn_waiting (Some n) pr outs (om_set n CRequesting phs)"
    and "conn_newest (Some n) (om_set n CRequesting phs) (Suc q) (om_set n (Suc q) tries)"
    and "conn_over (Some n) (om_set n CRequesting phs) b"
proof -
  have t: "\<And>m i. om_get tries m = Some i \<Longrightarrow> i \<le> Suc q \<and> i \<noteq> Suc q \<and> m < k"
    using assms(1) unfolding conn_numbers_def by fastforce
  show "conn_numbers (Some n) k pr outs (om_set n CRequesting phs) (Suc q) (om_set n (Suc q) tries)"
    using assms(1) t unfolding conn_numbers_def om_has_simps om_get_set
    by (metis le_refl option.inject)
  show "conn_waiting (Some n) pr outs (om_set n CRequesting phs)" "conn_over (Some n) (om_set n CRequesting phs) b"
    using assms(2-4) unfolding conn_defs by metis+
  show "conn_newest (Some n) (om_set n CRequesting phs) (Suc q) (om_set n (Suc q) tries)"
    using t by (simp add: conn_newest_def) metis
qed

lemma sendConnect_inv:
  assumes "gw_inv st"
  shows "gw_inv (sendConnect n b st)"
proof (cases "phase_of st n = CWaiting \<and> g_socket st = Some n \<and> b")
  case True
  then have so: "g_socket st = Some n" and p: "phase_in (g_phases st) n \<noteq> CSettled" by (simp_all add: phase_of_in)
  note d = gw_invD [OF assms, unfolded so]
  from True send_core [OF d(1,2,4) p] d(5) show ?thesis
    by (simp add: gw_inv_def sendConnect_def is_current_open_def Let_def gw_fields)
qed (use assms in \<open>auto simp: sendConnect_def is_current_open_def\<close>)

lemma connect_then_inv:
  assumes "gw_inv st"
  shows "gw_inv (connect_then n hello b st)"
proof (cases "stale n st")
  case False
  then have t: "om_get (g_tries st) n = Some (g_seq st)" "phase_of st n \<noteq> CSettled" by (simp_all add: stale_def)
  then have so: "g_socket st = Some n"
    using gw_invD(3) [OF assms] unfolding conn_newest_def phase_of_in by blast
  have n: "n < g_sockets st" using try_numbered [OF assms t(1)] by simp
  have p: "gw_inv (set_phase n CSettled st)" by (rule inv_set_phase [OF assms n])
  have "\<not> (g_rejected st \<or> g_intentional st)"
    using gw_invD(4) [OF assms] so t(2) unfolding conn_over_def phase_of_in by blast
  then have c: "gw_inv (setState GConnected None ((set_phase n CSettled st)\<lparr>g_hello := hello, g_connected := True\<rparr>))"
    using gw_invD [OF p] so by (simp add: gw_inv_def gw_fields conn_live_def)
  show ?thesis using n p inv_settle_promise [OF p] inv_settle_promise [OF c]
    by (simp add: connect_then_def False phase_of_in gw_fields phase_in_set)
qed (use assms in \<open>simp add: connect_then_def\<close>)

lemma connect_catch_inv:
  assumes "gw_inv st"
  shows "gw_inv (connect_catch n e b st)"
proof (cases "stale n st \<or> g_connected st")
  case False
  then have t: "om_get (g_tries st) n = Some (g_seq st)" "phase_of st n \<noteq> CSettled" by (simp_all add: stale_def)
  then have so: "g_socket st = Some n"
    using gw_invD(3) [OF assms] unfolding conn_newest_def phase_of_in by blast
  have n: "n < g_sockets st" using try_numbered [OF assms t(1)] by simp
  let ?s = "(setState GError (Some (connect_failure e)) (set_phase n CSettled st))
      \<lparr>g_rejected := True, g_intentional := True\<rparr>"
  have "gw_inv (set_phase n CSettled st)" by (rule inv_set_phase [OF assms n])
  then have c: "gw_inv ?s"
    using so by (simp add: gw_inv_def gw_fields conn_over_def conn_live_def phase_in_set)
  from inv_settle_promise [OF this, of n] n c
  have "gw_inv (settle_connect n x ?s)" "gw_inv (settle_connect n x (?s\<lparr>g_log := l\<rparr>))" for x l
    by (simp add: phase_of_in phase_in_set gw_fields)
      (rule inv_settle_promise, use c n in \<open>simp_all add: phase_of_in phase_in_set gw_fields\<close>)
  then show ?thesis using False by (simp add: connect_catch_def Let_def)
qed (use assms in \<open>auto simp: connect_catch_def\<close>)

lemma retire_inv:
  assumes "gw_inv st"
  shows "gw_inv (retireCurrentSocket n e st)"
proof (cases "g_socket st = Some n")
  case True
  let ?s = "setState GError (Some e) (reject_outstanding e ((clear_connect_timer n st)
      \<lparr>g_seq := g_seq st + 1, g_connected := False, g_socket := None, g_promise := None\<rparr>))"
  have "gw_inv (clear_connect_timer n st)" using assms by simp
  from inv_drop [OF this, of GError "Some e"] have i: "gw_inv ?s"
    by (simp add: gw_inv_def gw_fields)
  have n: "n < g_sockets st" by (rule socket_numbered [OF assms True])
  have "gw_inv (settle_connect n (Some e) (set_phase n CSettled ?s))"
    by (rule inv_settle_promise [OF inv_set_phase [OF i]]) (use n in \<open>simp_all add: phase_of_in phase_in_set gw_fields\<close>)
  with i True show ?thesis by (simp add: retireCurrentSocket_def Let_def)
qed (use assms in \<open>simp add: retireCurrentSocket_def\<close>)

lemma gw_close_inv:
  assumes "gw_inv st"
  shows "gw_inv (gw_close st)"
proof -
  have "gw_inv (setState GIdle None (st\<lparr>g_seq := g_seq st + 1, g_connected := False, g_socket := None, g_promise := None\<rparr>))"
    by (rule inv_drop [OF assms]) simp
  then show ?thesis
    by (simp add: gw_inv_def gw_close_def Let_def gw_fields conn_over_def conn_live_def split: option.split)
qed

lemma gw_on_error_inv:
  assumes "gw_inv st"
  shows "gw_inv (gw_on_error n st)"
proof (cases "n \<notin> set (g_errored st) \<and> g_socket st = Some n")
  case True
  let ?s = "setState GError (Some socket_failed_error) (clear_connect_timer n (st\<lparr>g_errored := g_errored st @ [n]\<rparr>))"
  have i: "gw_inv ?s" by (rule inv_setState) (use assms in simp_all)
  have n: "n < g_sockets st" by (rule socket_numbered [OF assms]) (use True in simp)
  have "gw_inv (settle_connect n (Some socket_failed_error) (set_phase n CSettled ?s))"
    by (rule inv_settle_promise [OF inv_set_phase [OF i]]) (use n in \<open>simp_all add: phase_of_in phase_in_set gw_fields\<close>)
  with True show ?thesis by (simp add: gw_on_error_def Let_def)
qed (use assms in \<open>auto simp: gw_on_error_def Let_def\<close>)

lemma detach_core:
  assumes "conn_numbers (Some n) k pr outs phs q tries" and "conn_newest (Some n) phs q tries"
    and "phase_in phs n = CSettled"
  shows "conn_numbers None k None outs phs q tries" and "conn_newest None phs q tries"
  using assms unfolding conn_defs by (blast, metis option.inject)

lemma inv_detach:
  assumes "gw_inv st" and "g_socket st = Some n" and "phase_of st n = CSettled"
  shows "g_state st \<noteq> GConnected \<Longrightarrow>
      gw_inv (st\<lparr>g_connected := False, g_promise := None, g_socket := None, g_rejected := r, g_intentional := i\<rparr>)"
    and "gw_inv (setState GError x
      (st\<lparr>g_connected := False, g_promise := None, g_socket := None, g_rejected := r, g_intentional := i\<rparr>))"
  using detach_core [of n "g_sockets st" "g_promise st" "g_outcomes st" "g_phases st" "g_seq st" "g_tries st"]
    gw_invD [OF assms(1)] assms(2,3)
  by (simp_all add: gw_inv_def gw_fields phase_of_in conn_waiting_def conn_over_def conn_live_def)

lemma gw_on_close_inv:
  assumes "gw_inv st"
  shows "gw_inv (gw_on_close n ev st)"
proof (cases "g_socket st = Some n")
  case True
  have n: "n < g_sockets st" by (rule socket_numbered [OF assms True])
  define q where "q = (g_rejected st \<or> g_intentional st)"
  show ?thesis
  proof (cases q)
    case q: True
    then have "phase_of st n = CSettled" "g_state st \<noteq> GConnected"
      using gw_invD(4,5) [OF assms] True by (auto simp: conn_over_def conn_live_def phase_of_in q_def)
    from inv_detach(1) [OF assms True this] have
      "gw_inv (st\<lparr>g_connected := False, g_promise := None, g_socket := None, g_rejected := r, g_intentional := i\<rparr>)"
      for r i .
    from this [of False False] this [of "g_rejected st" False] q True show ?thesis
      by (cases "g_rejected st") (simp_all add: gw_on_close_def Let_def gw_inv_def gw_fields q_def)
  next
    case q: False
    let ?e = "Some (createGatewaySocketClosedError ev)"
    let ?p = "set_phase n CSettled st"
    have p: "gw_inv ?p" by (rule inv_set_phase [OF assms n])
    let ?d = "\<lambda>s. setState GError ?e
        (s\<lparr>g_connected := False, g_promise := None, g_socket := None, g_rejected := False, g_intentional := False\<rparr>)"
    have d: "gw_inv (?d ?p)"
      by (rule inv_detach(2) [OF p]) (use True in \<open>auto simp: gw_fields phase_of_in phase_in_set\<close>)
    have d': "phase_of st n = CSettled \<Longrightarrow> gw_inv (?d st)" by (rule inv_detach(2) [OF assms True])
    have "gw_inv (settle_connect n ?e (?d ?p))"
      by (rule inv_settle_promise [OF d]) (use n in \<open>simp_all add: phase_of_in phase_in_set gw_fields\<close>)
    with d' True q show ?thesis
      by (cases "om_has (g_outcomes st) n")
        (simp_all add: gw_on_close_def Let_def gw_inv_def gw_fields q_def phase_of_in)
  qed
qed (use assms in \<open>simp add: gw_on_close_def\<close>)

lemma gw_call_inv: "gw_inv st \<Longrightarrow> gw_inv (gw_call c meth params b made st)"
  using ensureConnected_inv [of st b made]
  by (cases "ensureConnected b made st") (auto simp: gw_call_def split: option.split)

lemma gw_proceed_inv: "gw_inv st \<Longrightarrow> gw_inv (gw_proceed env c b now se st)"
  by (auto simp: gw_proceed_def run_call_def Let_def split: option.split call_state.split)

lemma gw_on_message_inv: "gw_inv st \<Longrightarrow> gw_inv (gw_on_message env n t b st)"
  by (auto simp: gw_on_message_def handleMessage_def Let_def retire_inv sendConnect_inv split: option.split jv.split)

lemma doConnect_inv: "gw_inv st \<Longrightarrow> gw_inv (doConnect env n d b now se cl st)"
  by (auto simp: doConnect_def Let_def connect_catch_inv split: sum.split)

lemma connect_done_inv: "gw_inv st \<Longrightarrow> gw_inv (connect_done t b cl st)"
  by (auto simp: connect_done_def connect_catch_inv connect_then_inv split: option.split outcome.split)

lemma gw_step_inv: "gw_inv st \<Longrightarrow> gw_inv (gw_step env st e)"
  by (cases e) (auto simp: ensureConnected_inv promise_done_inv gw_on_open_def gw_on_timer_def sendConnect_inv
      doConnect_inv connect_done_inv gw_on_message_inv gw_on_error_inv gw_on_close_inv gw_call_inv gw_proceed_inv
      gw_close_inv)

lemma gw_reachable_inv: "gw_reachable env st \<Longrightarrow> gw_inv st"
  by (induction rule: gw_reachable.induct) (simp_all add: gw_inv_new gw_step_inv)

section \<open>Abandoned connect promises\<close>

text \<open>A promise nothing can settle any more: not the current socket's, and its attempt is out of date.\<close>

definition stranded :: "nat \<Rightarrow> gateway \<Rightarrow> bool" where
  "stranded n st =
     (\<not> om_has (g_outcomes st) n \<and> g_socket st \<noteq> Some n \<and> n < g_sockets st
      \<and> or_else (om_get (g_tries st) n) 0 < g_seq st)"

lemma stranded_stale: "stranded n st \<Longrightarrow> stale n st"
  by (auto simp: stranded_def stale_def or_else_def)

lemma stranded_frame [simp]:
  "stranded n (st\<lparr>g_raw := r\<rparr>) = stranded n st" "stranded n (st\<lparr>g_slots := sl\<rparr>) = stranded n st"
  "stranded n (st\<lparr>g_calls := cs\<rparr>) = stranded n st" "stranded n (st\<lparr>g_timers := ts\<rparr>) = stranded n st"
  "stranded n (st\<lparr>g_starting := ts\<rparr>) = stranded n st" "stranded n (st\<lparr>g_requests := rs\<rparr>) = stranded n st"
  "stranded n (st\<lparr>g_errored := ts\<rparr>) = stranded n st" "stranded n (st\<lparr>g_listeners := ts\<rparr>) = stranded n st"
  "stranded n (st\<lparr>g_log := l\<rparr>) = stranded n st" "stranded n (st\<lparr>g_promise := pr\<rparr>) = stranded n st"
  "stranded n (st\<lparr>g_rejected := b\<rparr>) = stranded n st" "stranded n (st\<lparr>g_intentional := b\<rparr>) = stranded n st"
  "stranded n (st\<lparr>g_connected := b\<rparr>) = stranded n st" "stranded n (st\<lparr>g_hello := h\<rparr>) = stranded n st"
  by (simp_all add: stranded_def)

lemma stranded_helpers [simp]:
  "stranded n (clear_connect_timer m st) = stranded n st" "stranded n (reject_outstanding e st) = stranded n st"
  "stranded n (set_call c cs st) = stranded n st" "stranded n (setState s e' st) = stranded n st"
  "stranded n (set_phase m p st) = stranded n st"
  by (simp_all add: stranded_def gw_fields)

lemma stranded_none: "stranded n st \<Longrightarrow> stranded n (st\<lparr>g_socket := None\<rparr>)"
  by (simp add: stranded_def)

lemma stranded_settle: "stranded n st \<Longrightarrow> m \<noteq> n \<Longrightarrow> stranded n (settle_connect m x st)"
  by (simp add: stranded_def gw_fields om_has_simps)

lemma stranded_seq: "stranded n st \<Longrightarrow> stranded n (st\<lparr>g_seq := Suc (g_seq st)\<rparr>)"
  by (simp add: stranded_def)

lemma stranded_start: "stranded n st \<Longrightarrow> stranded n (fst (start_connect made st))"
  by (auto simp: start_connect_def Let_def stranded_def gw_fields om_has_simps)

lemma stranded_ensure: "stranded n st \<Longrightarrow> stranded n (fst (ensureConnected b made st))"
  by (simp add: ensureConnected_def stranded_start split: option.split)

lemma stranded_send: "stranded n st \<Longrightarrow> stranded n (sendConnect m b st)"
  by (auto simp: sendConnect_def is_current_open_def Let_def stranded_def gw_fields)

lemma stranded_then: "stranded n st \<Longrightarrow> stranded n (connect_then m h b st)"
  by (cases "m = n") (simp_all add: connect_then_def stranded_stale stranded_settle)

lemma stranded_catch: "stranded n st \<Longrightarrow> stranded n (connect_catch m e b st)"
  by (cases "m = n") (simp_all add: connect_catch_def Let_def stranded_stale stranded_settle)

lemma stranded_socket: "stranded n st \<Longrightarrow> g_socket st = Some m \<Longrightarrow> m \<noteq> n"
  by (auto simp: stranded_def)

lemma stranded_retire:
  assumes "stranded n st"
  shows "stranded n (retireCurrentSocket m e st)"
proof (cases "g_socket st = Some m")
  case True
  let ?s = "setState GError (Some e) (reject_outstanding e ((clear_connect_timer m st)
      \<lparr>g_seq := g_seq st + 1, g_connected := False, g_socket := None, g_promise := None\<rparr>))"
  have "stranded n ?s" using assms by (simp add: stranded_def gw_fields)
  with stranded_settle [OF this stranded_socket [OF assms True]]
    stranded_settle [of n "set_phase m CSettled ?s", OF _ stranded_socket [OF assms True]] True
  show ?thesis by (simp add: retireCurrentSocket_def Let_def)
qed (use assms in \<open>simp add: retireCurrentSocket_def\<close>)

lemma stranded_close_event:
  assumes "stranded n st"
  shows "stranded n (gw_on_close m ev st)"
proof (cases "g_socket st = Some m")
  case True
  let ?s = "(clear_connect_timer m st)\<lparr>g_connected := False, g_promise := None, g_socket := None\<rparr>"
  have s: "stranded n ?s" using assms by (simp add: stranded_def gw_fields)
  have "stranded n x \<Longrightarrow> stranded n (settle_connect m e x)" for e x
    by (rule stranded_settle [OF _ stranded_socket [OF assms True]])
  with s True show ?thesis by (simp add: gw_on_close_def Let_def)
qed (use assms in \<open>simp add: gw_on_close_def\<close>)

lemma stranded_error:
  assumes "stranded n st"
  shows "stranded n (gw_on_error m st)"
proof (cases "g_socket st = Some m")
  case True
  show ?thesis using assms stranded_settle [OF _ stranded_socket [OF assms True]]
    by (simp add: gw_on_error_def Let_def)
qed (use assms in \<open>simp add: gw_on_error_def Let_def\<close>)

lemma stranded_closed:
  assumes "gw_inv st" and "g_socket st = Some n" and "\<not> om_has (g_outcomes st) n"
  shows "stranded n (gw_close st)"
  using socket_numbered [OF assms(1,2)] assms try_numbered [OF assms(1), of n]
  by (cases "om_get (g_tries st) n") (auto simp: stranded_def gw_close_def Let_def gw_fields or_else_def le_imp_less_Suc)

lemma stranded_close: "stranded n st \<Longrightarrow> stranded n (gw_close st)"
  by (auto simp: gw_close_def Let_def stranded_def gw_fields split: option.split)

lemma stranded_message: "stranded n st \<Longrightarrow> stranded n (gw_on_message env m t b st)"
  by (auto simp: gw_on_message_def handleMessage_def Let_def stranded_retire stranded_send split: option.split jv.split)

lemma stranded_call: "stranded n st \<Longrightarrow> stranded n (gw_call c meth params b made st)"
  using stranded_ensure [of n st b made]
  by (cases "ensureConnected b made st") (auto simp: gw_call_def split: option.split)

lemma stranded_proceed: "stranded n st \<Longrightarrow> stranded n (gw_proceed env c b now se st)"
  by (auto simp: gw_proceed_def run_call_def Let_def split: option.split call_state.split)

lemma stranded_doConnect: "stranded n st \<Longrightarrow> stranded n (doConnect env m d b now se cl st)"
  by (auto simp: doConnect_def Let_def stranded_catch split: sum.split)

lemma stranded_done: "stranded n st \<Longrightarrow> stranded n (connect_done t b cl st)"
  by (auto simp: connect_done_def stranded_catch stranded_then split: option.split outcome.split)

lemma stranded_step: "stranded n st \<Longrightarrow> stranded n (gw_step env st e)"
  by (cases e) (auto simp: stranded_ensure promise_done_def gw_on_open_def gw_on_timer_def stranded_send
      stranded_doConnect stranded_done stranded_message stranded_error stranded_close_event stranded_call
      stranded_proceed stranded_close)

lemma stranded_run: "stranded n st \<Longrightarrow> stranded n (foldl (gw_step env) st es)"
  by (induction es arbitrary: st) (simp_all add: stranded_step)

section \<open>Waiting calls and slots\<close>

text \<open>A call still waiting to be connected.\<close>

definition call_waits :: "nat \<Rightarrow> nat \<Rightarrow> gateway \<Rightarrow> bool" where
  "call_waits c n st = (\<exists>meth params. om_get (g_calls st) c = Some (WaitConnect n meth params))"

lemma calls_kept:
  "g_calls (gw_close st) = g_calls st" "g_calls (gw_on_close n ev st) = g_calls st"
  "g_calls (gw_on_error n st) = g_calls st" "g_calls (gw_on_message env n t b st) = g_calls st"
  "g_calls (connect_done k b cl st) = g_calls st" "g_calls (doConnect env n d b now se cl st) = g_calls st"
  "g_calls (gw_on_timer n b st) = g_calls st" "g_calls (gw_on_open env n b st) = g_calls st"
  "g_calls (promise_done n st) = g_calls st"
  by (auto simp: gw_close_def gw_on_close_def gw_on_error_def gw_on_message_def handleMessage_def
      retireCurrentSocket_def connect_done_def doConnect_def gw_on_timer_def gw_on_open_def promise_done_def
      Let_def gw_fields split: option.split jv.split outcome.split sum.split)

lemma gw_call_calls:
  "g_calls (gw_call c meth params b made st) =
     (if om_has (g_calls st) c then g_calls st
      else om_set c (case snd (ensureConnected b made st) of None \<Rightarrow> CallReady meth params
                     | Some p \<Rightarrow> WaitConnect p meth params) (g_calls st))"
proof -
  have "g_calls (fst (ensureConnected b made st)) = g_calls st" by (simp add: gw_fields)
  then show ?thesis
    by (cases "ensureConnected b made st") (simp add: gw_call_def gw_fields split: option.split)
qed

lemma waits_step:
  assumes "\<not> om_has (g_outcomes st) n" and "call_waits c n st"
  shows "call_waits c n (gw_step env st e)"
proof (cases e)
  case (GProceed d b now se)
  then show ?thesis using assms
    by (cases "d = c") (auto simp: call_waits_def gw_proceed_def Let_def gw_fields om_has_def
        split: option.split call_state.split)
qed (use assms in \<open>auto simp: call_waits_def calls_kept gw_call_calls gw_fields om_has_def split: option.split\<close>)

lemma waits_run: "stranded n st \<Longrightarrow> call_waits c n st \<Longrightarrow> call_waits c n (foldl (gw_step env) st es)"
proof (induction es arbitrary: st)
  case (Cons e es)
  then have "\<not> om_has (g_outcomes st) n" by (simp add: stranded_def)
  with Cons show ?case by (simp add: stranded_step waits_step)
qed simp

text \<open>Without a socket, no request is stored for an answer.\<close>

lemma request_unavailable: "q_pending (raw_request o' meth params False now se r) = q_pending r"
  by (simp add: raw_request_def raw_refuse_def Let_def split: sum.split)

definition no_orphans :: "gateway \<Rightarrow> bool" where
  "no_orphans st = (g_socket st = None \<longrightarrow> q_pending (g_raw st) = [])"

lemma response_nothing: "q_pending r = [] \<Longrightarrow> q_pending (raw_response v r) = []"
  by (simp add: raw_response_def text_of_def split: jv.split)

lemma timeout_nothing: "q_pending r = [] \<Longrightarrow> q_pending (raw_timeout t r) = []"
  by (auto simp: raw_timeout_def Let_def split: option.split)

lemma no_orphans_step:
  assumes "no_orphans st"
  shows "no_orphans (gw_step env st e)"
proof (cases e)
  case (GConnectCall b m)
  then show ?thesis using assms
    by (auto simp: no_orphans_def ensureConnected_def start_connect_def Let_def gw_fields split: option.split)
next
  case (GCall c meth params b m)
  have "no_orphans (fst (ensureConnected b m st))" using assms
    by (auto simp: no_orphans_def ensureConnected_def start_connect_def Let_def gw_fields split: option.split)
  with assms GCall show ?thesis
    by (cases "ensureConnected b m st") (auto simp: no_orphans_def gw_call_def gw_fields split: option.split)
next
  case (GMessage n s b)
  then show ?thesis using assms
    by (auto simp: no_orphans_def gw_on_message_def handleMessage_def retireCurrentSocket_def Let_def gw_fields
        response_nothing reject_all_fields split: option.split jv.split)
next
  case (GProceed c b now se)
  then show ?thesis using assms
    by (auto simp: no_orphans_def gw_proceed_def Let_def gw_fields request_unavailable
        split: option.split call_state.split)
next
  case (GDoConnect n d b now se cl)
  then show ?thesis using assms
    by (auto simp: no_orphans_def doConnect_def Let_def gw_fields request_unavailable split: sum.split)
next
  case (GConnectDone t b cl)
  then show ?thesis using assms
    by (auto simp: no_orphans_def connect_done_def gw_fields split: option.split outcome.split)
next
  case (GSocketClose n ev)
  then show ?thesis using assms
    by (auto simp: no_orphans_def gw_on_close_def Let_def gw_fields reject_all_fields)
next
  case (GSocketError n)
  then show ?thesis using assms by (auto simp: no_orphans_def gw_on_error_def Let_def gw_fields)
next
  case GCloseCall
  then show ?thesis using assms
    by (auto simp: no_orphans_def gw_close_def Let_def gw_fields reject_all_fields split: option.split)
qed (use assms in \<open>auto simp: no_orphans_def promise_done_def gw_on_open_def gw_on_timer_def gw_fields timeout_nothing\<close>)

lemma gw_no_orphans: "gw_reachable env st \<Longrightarrow> no_orphans st"
  by (induction rule: gw_reachable.induct)
    (simp_all add: no_orphans_step, simp add: no_orphans_def gateway_new_def raw_new_def)

text \<open>A call that has not got past \<open>await this.ensureConnected()\<close> holds no place among the slots.\<close>

definition slots_fit :: "nat \<Rightarrow> (nat, call_state) omap \<Rightarrow> slots \<Rightarrow> bool" where
  "slots_fit m cs s =
     (slots_reachable m s \<and> (\<forall>c\<in>set (sl_arrived s).
        case om_get cs c of Some (CallQueued _ _) \<Rightarrow> True | Some (CallRunning _) \<Rightarrow> True | Some CallEnded \<Rightarrow> True | _ \<Rightarrow> False))"

lemma arrived_kept:
  "sl_arrived (slot_leave m c s) = sl_arrived s" "sl_arrived (slot_resume c s) = sl_arrived s"
  "sl_arrived (rejectQueuedRpcRequests s) = sl_arrived s" "sl_arrived (slot_enter m c s) = sl_arrived s @ [c]"
proof -
  have "sl_arrived (drainQueuedRpcRequests m s) = sl_arrived s" for m s
    by (induction m s rule: drainQueuedRpcRequests.induct) (subst drainQueuedRpcRequests.simps, simp)
  then show "sl_arrived (slot_leave m c s) = sl_arrived s" "sl_arrived (slot_resume c s) = sl_arrived s"
    "sl_arrived (rejectQueuedRpcRequests s) = sl_arrived s" "sl_arrived (slot_enter m c s) = sl_arrived s @ [c]"
    by (simp_all add: slot_leave_def slot_resume_def rejectQueuedRpcRequests_def slot_enter_def)
qed

lemma fit_reject: "slots_fit m cs s \<Longrightarrow> slots_fit m cs (rejectQueuedRpcRequests s)"
  using slots_reachable.reject [of m s] by (simp add: slots_fit_def arrived_kept)

lemma fit_set:
  assumes "slots_fit m cs s" and "x = CallEnded \<or> (\<exists>t. x = CallRunning t) \<or> (\<exists>q v. x = CallQueued q v) \<or> c \<notin> set (sl_arrived s)"
  shows "slots_fit m (om_set c x cs) s"
  using assms by (auto simp: slots_fit_def)

lemma fit_absent:
  "slots_fit m cs s \<Longrightarrow> \<not> om_has cs c \<Longrightarrow> c \<notin> set (sl_arrived s)"
  "slots_fit m cs s \<Longrightarrow> om_get cs c = Some (WaitConnect q meth params) \<Longrightarrow> c \<notin> set (sl_arrived s)"
  "slots_fit m cs s \<Longrightarrow> om_get cs c = Some (CallReady meth params) \<Longrightarrow> c \<notin> set (sl_arrived s)"
  by (force simp: slots_fit_def om_has_def split: option.splits)+

lemma fit_leave: "slots_fit m cs s \<Longrightarrow> slots_fit m cs (slot_leave m c s)"
  using slots_reachable.leave [of m s c] by (simp add: slots_fit_def arrived_kept)

lemma fit_resume: "slots_fit m cs s \<Longrightarrow> slots_fit m cs (slot_resume c s)"
  using slots_reachable.resume [of m s c] by (simp add: slots_fit_def arrived_kept)

lemma fit_enter:
  assumes "slots_fit m cs s" and "c \<notin> set (sl_arrived s)" and "(\<exists>t. x = CallRunning t) \<or> (\<exists>q v. x = CallQueued q v)"
  shows "slots_fit m (om_set c x cs) (slot_enter m c s)"
  using slots_reachable.enter [of m s c] assms by (auto simp: slots_fit_def arrived_kept)

abbreviation gw_fit :: "gateway_env \<Rightarrow> gateway \<Rightarrow> bool" where
  "gw_fit env st \<equiv> slots_fit (max_requests (ge_options env)) (g_calls st) (g_slots st)"

lemma gw_call_fit:
  assumes "gw_fit env st"
  shows "gw_fit env (gw_call c meth params b made st)"
proof -
  have "g_slots (fst (ensureConnected b made st)) = g_slots st" by (simp add: gw_fields)
  then have "g_slots (gw_call c meth params b made st) = g_slots st"
    by (cases "ensureConnected b made st") (simp add: gw_call_def gw_fields split: option.split)
  with assms fit_absent(1) [OF assms] show ?thesis
    by (simp add: gw_call_calls fit_set)
qed

lemma gw_proceed_fit:
  assumes "gw_fit env st"
  shows "gw_fit env (gw_proceed env c b now se st)"
proof (cases "om_get (g_calls st) c")
  case (Some x)
  show ?thesis
  proof (cases x)
    case (WaitConnect p meth params)
    with Some assms fit_absent(2) [OF assms] show ?thesis
      by (simp add: gw_proceed_def Let_def gw_fields fit_set split: option.split)
  next
    case (CallReady meth params)
    with Some have "c \<notin> set (sl_arrived (g_slots st))" by (simp add: fit_absent(3) [OF assms])
    with Some CallReady fit_enter [OF assms this] show ?thesis
      by (simp add: gw_proceed_def Let_def gw_fields)
  next
    case (CallQueued meth params)
    with Some assms fit_resume [OF assms, of c] show ?thesis
      by (simp add: gw_proceed_def Let_def gw_fields fit_set)
  next
    case (CallRunning t)
    with Some assms fit_leave [OF assms, of c] show ?thesis
      by (simp add: gw_proceed_def Let_def gw_fields fit_set)
  qed (use Some assms in \<open>simp add: gw_proceed_def\<close>)
qed (use assms in \<open>simp add: gw_proceed_def\<close>)

lemma gw_step_fit: "gw_fit env st \<Longrightarrow> gw_fit env (gw_step env st e)"
proof (cases e)
  case (GMessage n s b)
  assume i: "gw_fit env st"
  show ?thesis using GMessage i fit_reject [OF i]
    by (auto simp: gw_on_message_def handleMessage_def retireCurrentSocket_def Let_def gw_fields
        split: option.split jv.split)
next
  case (GSocketClose n ev)
  assume i: "gw_fit env st"
  show ?thesis using GSocketClose i fit_reject [OF i] by (simp add: gw_on_close_def Let_def gw_fields)
next
  case GCloseCall
  assume i: "gw_fit env st"
  show ?thesis using GCloseCall i fit_reject [OF i] by (simp add: gw_close_def Let_def gw_fields split: option.split)
next
  case (GDoConnect n d b now se cl)
  assume i: "gw_fit env st"
  then show ?thesis using GDoConnect by (simp add: doConnect_def Let_def gw_fields split: sum.split)
next
  case (GConnectDone t b cl)
  assume i: "gw_fit env st"
  then show ?thesis using GConnectDone by (simp add: connect_done_def gw_fields split: option.split outcome.split)
qed (simp_all add: gw_call_fit gw_proceed_fit gw_fields promise_done_def gw_on_open_def gw_on_timer_def
    gw_on_error_def Let_def)

lemma gw_reachable_fit: "gw_reachable env st \<Longrightarrow> gw_fit env st"
proof (induction rule: gw_reachable.induct)
  case start
  show ?case by (simp add: slots_fit_def gateway_new_def slots_reachable.start) (simp add: slots_new_def)
qed (rule gw_step_fit)

section \<open>Properties\<close>

text \<open>C3: What the connection state means. In every reachable state, with ids taken from the sequence:
  the client is in state connected only with a live socket and its connected flag up; without a
  socket no request is stored waiting for an answer; and each request ever made is waiting or has
  exactly one outcome.\<close>

theorem gateway_connection_state:
  assumes "gw_reachable env st" and "\<not> go_frame_client_id (ge_options env)"
  shows "(g_state st = GConnected \<longrightarrow> g_connected st \<and> g_socket st \<noteq> None)
    \<and> (g_socket st = None \<longrightarrow> q_pending (g_raw st) = [])
    \<and> distinct (map fst (q_settled (g_raw st)))
    \<and> (\<forall>t. t < q_issued (g_raw st) \<longleftrightarrow>
          t \<in> set (map fst (q_settled (g_raw st))) \<or> (\<exists>i. om_get (q_pending (g_raw st)) i = Some t))"
proof -
  have r: "raw_inv (g_raw st)" using gw_raw_kept [OF assms] by simp
  then have p: "t \<in> dom (om_get (q_timers (g_raw st))) \<longleftrightarrow> (\<exists>i. om_get (q_pending (g_raw st)) i = Some t)" for t
    unfolding raw_inv_def raw_core_def by (cases "om_get (q_timers (g_raw st)) t") auto
  have d: "distinct (map fst (q_settled (g_raw st)))"
    "t < q_issued (g_raw st) \<longleftrightarrow> t \<in> set (map fst (q_settled (g_raw st))) \<or> t \<in> dom (om_get (q_timers (g_raw st)))" for t
    using r unfolding raw_inv_def raw_core_def by blast+
  show ?thesis
    using gw_invD(5) [OF gw_reachable_inv [OF assms(1)]] gw_no_orphans [OF assms(1)] d p
    unfolding conn_live_def no_orphans_def by blast
qed

definition wit_gateway_env :: gateway_env where
  "wit_gateway_env = \<lparr>ge_options = wit_gateway, ge_token = None, ge_agent = ''t'', ge_locale = ''en'', ge_device = False\<rparr>"

lemma reachable_run: "gw_reachable env (foldl (gw_step env) gateway_new es)"
proof -
  have "gw_reachable env st \<Longrightarrow> gw_reachable env (foldl (gw_step env) st es)" for st
    by (induction es arbitrary: st) (simp_all add: gw_reachable.step)
  then show ?thesis using gw_reachable.start by blast
qed

text \<open>Opening a connection and waiting for it in two calls.\<close>

definition wit_connecting :: gateway where
  "wit_connecting = foldl (gw_step wit_gateway_env) gateway_new [GCall 7 ''status'' (JObj []) True True, GConnectCall True True]"

lemma wit_connecting_fields:
  "g_socket wit_connecting = Some 0" "g_outcomes wit_connecting = []" "g_connected wit_connecting = False"
  "g_calls wit_connecting = [(7, WaitConnect 0 ''status'' (JObj []))]" "g_promise wit_connecting = Some 0"
  by (simp_all add: wit_connecting_def gw_call_def ensureConnected_def start_connect_def Let_def gateway_new_def
      setState_def set_call_def om_has_def)

theorem gateway_connection_state_witness:
  "g_state wit_connecting = GConnecting \<and> q_pending (g_raw wit_connecting) = []
   \<and> distinct (map fst (q_settled (g_raw wit_connecting)))"
proof -
  have "gw_reachable wit_gateway_env wit_connecting" unfolding wit_connecting_def by (rule reachable_run)
  from gateway_connection_state [OF this]
  have "distinct (map fst (q_settled (g_raw wit_connecting)))"
    by (simp add: wit_gateway_env_def wit_gateway_def)
  then show ?thesis
    by (simp add: wit_connecting_def gw_call_def ensureConnected_def start_connect_def Let_def gateway_new_def
        setState_def set_call_def om_has_def raw_new_def)
qed

text \<open>\<open>close()\<close> strands the connect in progress. When \<open>close\<close> is called while a connect promise is
  pending, that promise is never settled, whatever happens afterwards, and a request waiting for it
  waits for ever: the closed socket's own events are ignored because it is no longer current.\<close>

theorem close_strands_connect:
  assumes "gw_reachable env st" and "g_socket st = Some n" and "\<not> om_has (g_outcomes st) n"
    and "om_get (g_calls st) c = Some (WaitConnect n meth params)"
  defines "final \<equiv> \<lambda>es. foldl (gw_step env) (gw_step env st GCloseCall) es"
  shows "\<not> om_has (g_outcomes (final es)) n
    \<and> (\<exists>m' p'. om_get (g_calls (final es)) c = Some (WaitConnect n m' p'))"
proof -
  have s: "stranded n (gw_close st)"
    by (rule stranded_closed [OF gw_reachable_inv [OF assms(1)] assms(2,3)])
  have "call_waits c n (gw_close st)" using assms(4) by (simp add: call_waits_def calls_kept)
  from waits_run [OF s this] stranded_run [OF s] show ?thesis
    by (simp add: final_def call_waits_def stranded_def)
qed

theorem close_strands_connect_witness:
  "\<not> om_has (g_outcomes (foldl (gw_step wit_gateway_env) (gw_step wit_gateway_env wit_connecting GCloseCall)
      [GSocketError 0, GSocketClose 0 None, GPromiseDone 0, GProceed 7 True 5 None])) 0"
proof -
  have "gw_reachable wit_gateway_env wit_connecting" unfolding wit_connecting_def by (rule reachable_run)
  from close_strands_connect [OF this, of 0 7 "''status''" "JObj []"
      "[GSocketError 0, GSocketClose 0 None, GPromiseDone 0, GProceed 7 True 5 None]"]
  show ?thesis by (simp add: wit_connecting_fields om_has_def)
qed

text \<open>A reconnect inherits the connected flag. When the socket of a connected client is closing but
  its close event has not come yet, the next caller opens a new socket without clearing the flag:
  as soon as that socket is open, callers pass \<open>ensureConnected\<close> before any handshake was sent on it,
  and a handshake the gateway rejects settles nothing.\<close>

theorem reconnect_keeps_connected:
  assumes "gw_reachable env st" and "g_connected st" and "g_promise st = None"
  shows "\<exists>st1. ensureConnected False True st = (st1, Some (g_sockets st))
    \<and> g_socket st1 = Some (g_sockets st) \<and> phase_of st1 (g_sockets st) = CWaiting
    \<and> ensureConnected True made st1 = (st1, None)
    \<and> connect_catch (g_sockets st) e closeable (sendConnect (g_sockets st) True st1)
        = sendConnect (g_sockets st) True st1"
proof -
  define st1 where "st1 = fst (start_connect True st)"
  have f: "g_connected st1" "g_socket st1 = Some (g_sockets st)" "phase_of st1 (g_sockets st) = CWaiting"
    using assms(2) by (simp_all add: st1_def start_connect_def Let_def gw_fields phase_of_in phase_in_set)
  have "ensureConnected False True st = (st1, Some (g_sockets st))"
    using assms(3) by (simp add: ensureConnected_def st1_def start_connect_def Let_def)
  moreover have "ensureConnected True made st1 = (st1, None)" using f by (simp add: ensureConnected_def)
  moreover have "connect_catch n e closeable (sendConnect n True st1) = sendConnect n True st1" for n
    using f(1) by (simp add: connect_catch_def gw_fields)
  ultimately show ?thesis using f(2,3) by blast
qed

text \<open>A completed handshake.\<close>

definition wit_sent :: gateway where
  "wit_sent = foldl (gw_step wit_gateway_env) gateway_new
     [GConnectCall True True, GOpen 0 True, GDoConnect 0 (Inr None) True 5 None True]"

definition wit_connected :: gateway where
  "wit_connected = foldl (gw_step wit_gateway_env) wit_sent
     [GMessage 0 (json_text wit_reply) True, GConnectDone 0 True True, GPromiseDone 0]"

lemma wit_params: "\<exists>p. createGatewayRpcConnectParams None ''t'' ''en'' wit_gateway None = Inr p"
proof -
  have "resolveGatewayProtocolRange wit_gateway = Inr (4, 4)" by code_simp
  then show ?thesis
    by (simp add: createGatewayRpcConnectParams_def resolveGatewayRpcClientProfile_def wit_gateway_def trim_graph
        graph_char_def)
qed

lemma wit_reply_facts:
  "json_plain wit_reply" "length (json_text wit_reply) = 50" "is_js_object wit_reply" "\<not> is_challenge wit_reply"
  by code_simp+

lemma wit_sent_fields:
  "g_socket wit_sent = Some 0" "q_pending (g_raw wit_sent) = [(''mc-5-0'', 0)]" "g_requests wit_sent = [(0, 0)]"
  "g_tries wit_sent = [(0, 1)]" "g_seq wit_sent = 1" "g_phases wit_sent = [(0, CRequesting)]"
  "g_promise wit_sent = Some 0" "g_outcomes wit_sent = []"
  "q_settled (g_raw wit_sent) = []" "g_sockets wit_sent = 1"
proof -
  obtain p where p: "createGatewayRpcConnectParams None ''t'' ''en'' wit_gateway None = Inr p"
    using wit_params by blast
  show "g_socket wit_sent = Some 0" "q_pending (g_raw wit_sent) = [(''mc-5-0'', 0)]"
    "g_requests wit_sent = [(0, 0)]" "g_tries wit_sent = [(0, 1)]" "g_seq wit_sent = 1"
    "g_phases wit_sent = [(0, CRequesting)]" "g_promise wit_sent = Some 0" "g_outcomes wit_sent = []"
    "q_settled (g_raw wit_sent) = []" "g_sockets wit_sent = 1"
    by (simp_all add: wit_sent_def gateway_new_def ensureConnected_def start_connect_def Let_def setState_def
        gw_on_open_def wit_gateway_env_def sendConnect_def phase_of_def or_else_def is_current_open_def
        set_phase_def clear_connect_timer_def doConnect_def p [unfolded wit_gateway_def] raw_request_def
        raw_issue_def raw_new_def request_id_def wit_raw wit_gateway_def)
qed

lemma wit_connected_fields: "g_connected wit_connected" "g_promise wit_connected = None" "g_state wit_connected = GConnected"
  "g_sockets wit_connected = 1"
proof -
  have m: "gw_on_message wit_gateway_env 0 (json_text wit_reply) True wit_sent = handleMessage wit_reply wit_sent"
    by (simp add: gw_on_message_def wit_reply_facts json_roundtrip MAX_FRAME_def resolvePositiveIntegerOption_def
        wit_gateway_env_def wit_gateway_def wit_sent_fields)
  have h: "handleMessage wit_reply wit_sent = wit_sent\<lparr>g_raw := raw_response wit_reply (g_raw wit_sent)\<rparr>"
    by (simp add: handleMessage_def wit_reply_facts) (simp add: wit_reply_def get_prop_def text_of_def)
  have r: "om_get (q_pending r) ''mc-5-0'' = Some t \<Longrightarrow>
      q_settled (raw_response wit_reply r) = q_settled r @ [(t, Resolved (get_prop wit_reply ''payload''))]" for r t
    by (simp add: raw_response_def wit_reply_def get_prop_def text_of_def truthy_def)
  show "g_connected wit_connected" "g_promise wit_connected = None" "g_state wit_connected = GConnected"
    "g_sockets wit_connected = 1"
    by (simp_all add: wit_connected_def m h r wit_sent_fields connect_done_def connect_then_def stale_def
        is_current_open_def phase_of_in phase_in_set gw_fields promise_done_def or_else_def phase_in_def om_has_def)
qed

theorem reconnect_keeps_connected_witness:
  "\<exists>st1. ensureConnected False True wit_connected = (st1, Some 1) \<and> ensureConnected True True st1 = (st1, None)"
proof -
  have "gw_reachable wit_gateway_env wit_connected"
    using reachable_run [of wit_gateway_env "_ @ _"] unfolding wit_connected_def wit_sent_def foldl_append .
  from reconnect_keeps_connected [OF this wit_connected_fields(1,2), of True "UVal JNull" True] show ?thesis
    by (auto simp: wit_connected_fields)
qed

text \<open>Concurrency of a client. In every reachable state at most the configured number of calls holds
  a slot, none waits while a slot is free, and a call that is still connecting holds none.\<close>

theorem gateway_calls_bounded:
  assumes "gw_reachable env st"
  shows "length (sl_running (g_slots st)) + length (sl_reserved (g_slots st)) \<le> max_requests (ge_options env)
    \<and> (sl_queue (g_slots st) \<noteq> [] \<longrightarrow>
         length (sl_running (g_slots st)) + length (sl_reserved (g_slots st)) = max_requests (ge_options env))
    \<and> (\<forall>c n. call_waits c n st \<longrightarrow>
         c \<notin> set (sl_running (g_slots st)) \<union> set (sl_reserved (g_slots st)) \<union> set (sl_queue (g_slots st)))"
proof -
  have f: "gw_fit env st" by (rule gw_reachable_fit [OF assms])
  then have i: "slots_inv (max_requests (ge_options env)) (g_slots st)"
    by (auto simp: slots_fit_def intro: slots_reachable_inv)
  then have c: "slots_counted (max_requests (ge_options env)) (g_slots st)"
    "slots_full (max_requests (ge_options env)) (g_slots st)" "slots_apart (g_slots st)"
    by (simp_all add: slots_inv_def)
  have "set (sl_running (g_slots st)) \<union> set (sl_reserved (g_slots st)) \<union> set (sl_queue (g_slots st))
      \<subseteq> set (sl_arrived (g_slots st))"
    using c(3) unfolding slots_apart_def
    by (metis (no_types, lifting) set_mset_mset set_mset_mono set_mset_union Un_upper1 order_trans)
  moreover have "call_waits c n st \<Longrightarrow> c \<notin> set (sl_arrived (g_slots st))" for c n
    unfolding call_waits_def using fit_absent(2) [OF f] by blast
  ultimately show ?thesis using c(1,2) by (auto simp: slots_counted_def slots_full_def)
qed

theorem gateway_calls_bounded_witness:
  "call_waits 7 0 wit_connecting \<and> 7 \<notin> set (sl_running (g_slots wit_connecting))"
proof -
  have "gw_reachable wit_gateway_env wit_connecting" unfolding wit_connecting_def by (rule reachable_run)
  moreover have "call_waits 7 0 wit_connecting" by (simp add: call_waits_def wit_connecting_fields)
  ultimately show ?thesis using gateway_calls_bounded [of wit_gateway_env wit_connecting] by blast
qed

end
