(* ===== verification/Envelope.thy ===== *)
theory Envelope
  imports GatewayRequests
begin

text \<open>
  What a failed call becomes: \<open>src/core/gateway/envelope/envelope.ts\<close> (data served from a fallback,
  with the gap that says why) and \<open>src/contracts/capability-result.ts\<close> (the gap of a capability call),
  with \<open>GatewayHttpError\<close> of \<open>src/core/http/gateway-error.ts\<close>. The awaited call is its outcome, the
  clock a number; an observer hook is a function to what it throws, if anything, and its calls are
  logged.
\<close>

section \<open>Gaps\<close>

datatype ContractGapReason =
    GapBackendUnavailable | GapBackendNotConfigured | GapEndpointNotFound | GapAuthInsufficient
  | GapTransportDisconnected | GapCapabilityUnsupported | GapRequestInvalid | GapRequestAborted | GapUnknown

record ContractGap =
  cg_area :: string
  cg_contract :: string
  cg_note :: string
  cg_reason :: "ContractGapReason option"
  cg_status :: "jnum option"

definition fallbackGap ::
  "string \<Rightarrow> string \<Rightarrow> string \<Rightarrow> ContractGapReason option \<Rightarrow> jnum option \<Rightarrow> ContractGap" where
  "fallbackGap area contract note reason st =
     \<lparr>cg_area = area, cg_contract = contract, cg_note = note, cg_reason = reason, cg_status = st\<rparr>"

definition GatewayHttpError :: "string \<Rightarrow> jnum \<Rightarrow> string option \<Rightarrow> jserror" where
  "GatewayHttpError msg st c =
     mk_error CGatewayHttpError ''GatewayHttpError'' msg (Some (type_text TGatewayHttp))
       (Some (case c of Some x \<Rightarrow> x | None \<Rightarrow> code_text GatewayError)) None [(''status'', JNum st)]"

definition is_class :: "eclass \<Rightarrow> unknown \<Rightarrow> bool" where
  "is_class c e = (case e of UErr x \<Rightarrow> e_class x = c | UVal _ \<Rightarrow> False)"

section \<open>Classifying an error by its message\<close>

definition includes_any :: "string list \<Rightarrow> string \<Rightarrow> bool" where
  "includes_any ws msg = (\<exists>w \<in> set ws. str_includes (to_lower msg) w)"

definition isBackendFailureMessage :: "string \<Rightarrow> bool" where
  "isBackendFailureMessage =
     includes_any [''unavailable'', ''not available'', ''fetch failed'', ''failed to fetch'', ''network error'',
       ''networkerror'', ''econn'', ''timed out'', ''timeout'', ''refused'']"

definition isTransportFailureMessage :: "string \<Rightarrow> bool" where
  "isTransportFailureMessage =
     includes_any [''not connected'', ''gateway client not connected'', ''socket'', ''websocket'']"

text \<open>\<open>/unknown method\b/i\<close>\<close>

definition unknown_method :: re where
  "unknown_method = RSeq (rword ''unknown method'') (RNot (RByte (\<lambda>c. is_alnum c \<or> c = CHR ''_'')))"

record fallback_class =
  fc_message :: string
  fc_reason :: ContractGapReason
  fc_status :: "jnum option"

definition number_prop :: "jv \<Rightarrow> jnum option" where
  "number_prop v = (case v of JNum x \<Rightarrow> Some x | _ \<Rightarrow> None)"

definition status_text :: "unknown \<Rightarrow> string" where
  "status_text e = js_string (err_prop e ''status'')"

definition gateway_http_class :: "unknown \<Rightarrow> fallback_class" where
  "gateway_http_class e =
     (let st = number_prop (err_prop e ''status'') in
      if st = Some (num 404)
      then \<lparr>fc_message = ''The current gateway does not expose one or more required routes yet.'',
             fc_reason = GapEndpointNotFound, fc_status = Some (num 404)\<rparr>
      else if st = Some (num 502) \<or> st = Some (num 503)
      then \<lparr>fc_message = ''Backend unavailable ('' @ status_text e @ '').'', fc_reason = GapBackendUnavailable,
             fc_status = st\<rparr>
      else \<lparr>fc_message = ''Gateway request failed with '' @ status_text e @ ''.'',
             fc_reason = GapBackendUnavailable, fc_status = st\<rparr>)"

definition classifyFallbackError :: "unknown \<Rightarrow> fallback_class" where
  "classifyFallbackError e =
     (if is_class CGatewayHttpError e then gateway_http_class e
      else
        let msg = getErrorMessage e ''Unknown error'' in
        if rtest unknown_method msg
        then \<lparr>fc_message = ''Gateway RPC not supported: '' @ msg, fc_reason = GapBackendUnavailable, fc_status = None\<rparr>
        else if isTransportFailureMessage msg
        then \<lparr>fc_message = ''Transport disconnected: '' @ msg @ ''.'', fc_reason = GapTransportDisconnected,
               fc_status = None\<rparr>
        else if isBackendFailureMessage msg
        then \<lparr>fc_message =
                (if is_class CTypeError e then ''The gateway request failed before a response was received.''
                 else ''Backend unavailable: '' @ msg @ ''.''),
               fc_reason = GapBackendUnavailable, fc_status = None\<rparr>
        else \<lparr>fc_message = ''Runtime: '' @ msg @ ''.'', fc_reason = GapUnknown, fc_status = None\<rparr>)"

section \<open>Data envelopes\<close>

datatype DataSourceMode = FromGateway | FromMock

record 'a data_envelope =
  en_data :: 'a
  en_source :: DataSourceMode
  en_at :: nat
  en_gaps :: "ContractGap list"

record resolve_info =
  ri_source :: DataSourceMode
  ri_fellBack :: bool
  ri_area :: string

definition live_envelope :: "'a \<Rightarrow> nat \<Rightarrow> 'a data_envelope" where
  "live_envelope d now = \<lparr>en_data = d, en_source = FromGateway, en_at = now, en_gaps = []\<rparr>"

definition mock_envelope ::
  "'a \<Rightarrow> nat \<Rightarrow> string \<Rightarrow> string \<Rightarrow> string \<Rightarrow> fallback_class \<Rightarrow> 'a data_envelope" where
  "mock_envelope d now area contract note c =
     \<lparr>en_data = d, en_source = FromMock, en_at = now,
      en_gaps = [fallbackGap area contract (note @ ''. '' @ fc_message c) (Some (fc_reason c)) (fc_status c)]\<rparr>"

text \<open>The \<open>catch\<close> of \<open>withFallback\<close>; the list logs the hook's calls.\<close>

definition fallback_catch ::
  "'a \<Rightarrow> string \<Rightarrow> string \<Rightarrow> string \<Rightarrow> (resolve_info \<Rightarrow> unknown option) \<Rightarrow> nat \<Rightarrow> unknown
     \<Rightarrow> (unknown + 'a data_envelope) \<times> resolve_info list" where
  "fallback_catch fb area contract note hook now e =
     (let c = classifyFallbackError e;
          info = \<lparr>ri_source = FromMock, ri_fellBack = True, ri_area = area\<rparr> in
      if isAuthError e \<or> fc_reason c = GapUnknown then (Inl e, [])
      else
        (case hook info of
           Some e' \<Rightarrow> (Inl e', [info])
         | None \<Rightarrow> (Inr (mock_envelope fb now area contract note c), [info])))"

definition withFallback ::
  "unknown + 'a \<Rightarrow> 'a \<Rightarrow> string \<Rightarrow> string \<Rightarrow> string \<Rightarrow> (resolve_info \<Rightarrow> unknown option) \<Rightarrow> nat
     \<Rightarrow> (unknown + 'a data_envelope) \<times> resolve_info list" where
  "withFallback run fb area contract note hook now =
     (case run of
        Inl e \<Rightarrow> fallback_catch fb area contract note hook now e
      | Inr d \<Rightarrow>
          let info = \<lparr>ri_source = FromGateway, ri_fellBack = False, ri_area = area\<rparr> in
          (case hook info of
             None \<Rightarrow> (Inr (live_envelope d now), [info])
           | Some e \<Rightarrow>
               (case fallback_catch fb area contract note hook now e of (r, infos) \<Rightarrow> (r, info # infos))))"

text \<open>\<open>fb\<close>: what calling \<open>fallback()\<close> gives.\<close>

definition withMutationResult ::
  "unknown + 'a \<Rightarrow> unknown + 'a \<Rightarrow> string \<Rightarrow> string \<Rightarrow> string \<Rightarrow> nat \<Rightarrow> unknown + 'a data_envelope" where
  "withMutationResult run fb area contract note now =
     (case run of
        Inr d \<Rightarrow> Inr (live_envelope d now)
      | Inl e \<Rightarrow>
          let c = classifyFallbackError e in
          if isAuthError e then Inl e
          else if fc_reason c = GapUnknown
          then Inl (UErr (api_error
                 (note @ ''. '' @ contract @ '' unavailable: '' @ getErrorMessage e ''Unknown error'') None None (Some e)))
          else (case fb of
                  Inl e' \<Rightarrow> Inl e'
                | Inr d \<Rightarrow> Inr (mock_envelope d now area contract note c)))"

section \<open>Capability calls\<close>

text \<open>\<open>gatewayRpcCodeReason\<close>: none for the authentication codes.\<close>

definition gatewayRpcCodeReason :: "string \<Rightarrow> ContractGapReason option" where
  "gatewayRpcCodeReason c =
     (if c \<in> {''UNAUTHENTICATED'', ''PERMISSION_DENIED''} then None
      else if c \<in> {''INVALID_REQUEST'', ''INVALID_ARGUMENT'', ''FAILED_PRECONDITION''} then Some GapRequestInvalid
      else if c \<in> {''NOT_FOUND'', ''UNIMPLEMENTED''} then Some GapEndpointNotFound
      else Some GapBackendUnavailable)"

definition CapabilityCallRejected :: "string \<Rightarrow> jnum option \<Rightarrow> jserror" where
  "CapabilityCallRejected msg st =
     mk_error CCapabilityCallRejected ''CapabilityCallRejected'' msg (Some (type_text TValidation))
       (Some (code_text InvalidRequest)) None [(''httpStatus'', (case st of Some x \<Rightarrow> JNum x | None \<Rightarrow> JUndef))]"

definition errorMessageOf :: "unknown \<Rightarrow> string" where
  "errorMessageOf e = (case e of UErr x \<Rightarrow> e_message x | UVal v \<Rightarrow> js_string v)"

text \<open>The \<open>code\<close> of a \<open>GatewayRpcError\<close>; a value that is no string matches no case of the switch.\<close>

definition rpc_code_reason :: "unknown \<Rightarrow> ContractGapReason option" where
  "rpc_code_reason e =
     (case err_prop e ''code'' of JStr c \<Rightarrow> gatewayRpcCodeReason c | _ \<Rightarrow> Some GapBackendUnavailable)"

text \<open>The gap reason of an HTTP status, when the status decides.\<close>

definition status_reason :: "jnum \<Rightarrow> ContractGapReason option" where
  "status_reason x =
     (if x = num 404 then Some GapEndpointNotFound
      else if num_le (num 500) x then Some GapBackendUnavailable
      else if num_le (num 400) x then Some GapRequestInvalid
      else None)"

definition code_reason :: "string option \<Rightarrow> ContractGapReason option" where
  "code_reason c =
     (if c = Some (code_text ValidationFailed) \<or> c = Some (code_text InvalidRequest) then Some GapRequestInvalid
      else if c = Some (code_text EndpointNotFound) then Some GapEndpointNotFound
      else if c = Some (code_text BackendUnavailable) then Some GapBackendUnavailable
      else None)"

definition failure_verb :: "ContractGapReason \<Rightarrow> string" where
  "failure_verb r = (if r = GapRequestInvalid then '' rejected: '' else '' failed: '')"

definition classifyCapabilityFailure ::
  "unknown \<Rightarrow> string \<Rightarrow> string \<Rightarrow> string \<Rightarrow> unknown + ContractGap" where
  "classifyCapabilityFailure e area contract call =
     (if isAuthError e then Inl e
      else if is_class CGatewayRpcError e
      then (case rpc_code_reason e of
              None \<Rightarrow> Inl e
            | Some r \<Rightarrow> Inr (fallbackGap area contract (call @ '' failed: '' @ errorMessageOf e) (Some r) None))
      else if is_class CCapabilityCallRejected e
      then Inr (fallbackGap area contract (call @ '' rejected: '' @ errorMessageOf e) (Some GapRequestInvalid)
             (number_prop (err_prop e ''httpStatus'')))
      else
        (case Option.bind (getErrorStatus e) status_reason of
           Some r \<Rightarrow> Inr (fallbackGap area contract (call @ failure_verb r @ errorMessageOf e) (Some r) (getErrorStatus e))
         | None \<Rightarrow>
             (case code_reason (getErrorCode e) of
                Some r \<Rightarrow> Inr (fallbackGap area contract (call @ failure_verb r @ errorMessageOf e) (Some r) None)
              | None \<Rightarrow>
                  let c = classifyFallbackError e in
                  if fc_reason c = GapUnknown then Inl e
                  else Inr (fallbackGap area contract (call @ '' failed: '' @ fc_message c) (Some (fc_reason c))
                         (fc_status c)))))"

datatype 'a CapabilityResult = LiveResult 'a | GapResult ContractGap

text \<open>The shape shared by the facade's calls: the awaited outcome as a live result or a classified gap.\<close>

definition shaped :: "string \<Rightarrow> string \<Rightarrow> unknown + 'a \<Rightarrow> unknown + 'a CapabilityResult" where
  "shaped area call out =
     (case out of
        Inr d \<Rightarrow> Inr (LiveResult d)
      | Inl e \<Rightarrow> map_sum id GapResult (classifyCapabilityFailure e area call call))"

section \<open>Properties\<close>

lemma gateway_http_reason: "fc_reason (gateway_http_class e) \<in> {GapEndpointNotFound, GapBackendUnavailable}"
  by (simp add: gateway_http_class_def Let_def)

lemma classify_reason:
  "fc_reason (classifyFallbackError e)
     \<in> {GapEndpointNotFound, GapBackendUnavailable, GapTransportDisconnected, GapUnknown}"
  using gateway_http_reason [of e] by (auto simp: classifyFallbackError_def Let_def)

lemma status_reason_known: "status_reason x = Some r \<Longrightarrow> r \<in> {GapEndpointNotFound, GapBackendUnavailable, GapRequestInvalid}"
  by (auto simp: status_reason_def split: if_splits)

lemma code_reason_known: "code_reason c = Some r \<Longrightarrow> r \<in> {GapEndpointNotFound, GapBackendUnavailable, GapRequestInvalid}"
  by (auto simp: code_reason_def split: if_splits)

lemma rpc_reason_known: "rpc_code_reason e = Some r \<Longrightarrow> r \<in> {GapEndpointNotFound, GapBackendUnavailable, GapRequestInvalid}"
  by (auto simp: rpc_code_reason_def gatewayRpcCodeReason_def split: jv.splits if_splits)

text \<open>The reasons a capability call can fail for; the other five belong to other layers.\<close>

definition capability_reasons :: "ContractGapReason set" where
  "capability_reasons = {GapEndpointNotFound, GapBackendUnavailable, GapRequestInvalid, GapTransportDisconnected}"

text \<open>The errors that a capability call rethrows, as a predicate of its own.\<close>

definition rpc_auth :: "unknown \<Rightarrow> bool" where
  "rpc_auth e = (err_prop e ''code'' \<in> {JStr ''UNAUTHENTICATED'', JStr ''PERMISSION_DENIED''})"

definition rethrown :: "unknown \<Rightarrow> bool" where
  "rethrown e =
     (isAuthError e
      \<or> is_class CGatewayRpcError e \<and> rpc_auth e
      \<or> \<not> is_class CGatewayRpcError e \<and> \<not> is_class CCapabilityCallRejected e
        \<and> Option.bind (getErrorStatus e) status_reason = None \<and> code_reason (getErrorCode e) = None
        \<and> fc_reason (classifyFallbackError e) = GapUnknown)"

lemma rpc_none: "rpc_auth e \<longleftrightarrow> rpc_code_reason e = None"
  by (auto simp: rpc_auth_def rpc_code_reason_def gatewayRpcCodeReason_def split: jv.splits)

lemma capability_failure_split:
  "case classifyCapabilityFailure e area contract call of
     Inl e' \<Rightarrow> e' = e \<and> rethrown e
   | Inr g \<Rightarrow> \<not> rethrown e \<and> cg_area g = area \<and> cg_contract g = contract
       \<and> (\<exists>r \<in> capability_reasons. cg_reason g = Some r) \<and> prefix call (cg_note g)"
proof -
  have c: "fc_reason (classifyFallbackError e) \<noteq> GapUnknown \<Longrightarrow> fc_reason (classifyFallbackError e) \<in> capability_reasons"
    using classify_reason [of e] by (auto simp: capability_reasons_def)
  have k: "\<And>r. status_reason x = Some r \<Longrightarrow> r \<in> capability_reasons"
    "\<And>r. code_reason y = Some r \<Longrightarrow> r \<in> capability_reasons"
    "\<And>r. rpc_code_reason e = Some r \<Longrightarrow> r \<in> capability_reasons" for x y
    using status_reason_known code_reason_known rpc_reason_known by (force simp: capability_reasons_def)+
  have q: "GapRequestInvalid \<in> capability_reasons" by (simp add: capability_reasons_def)
  show ?thesis
  proof (cases "getErrorStatus e")
    case None
    with c k q show ?thesis
      by (auto simp: classifyCapabilityFailure_def rethrown_def fallbackGap_def Let_def rpc_none
          split: option.split)
  next
    case (Some x)
    with c k q show ?thesis
      by (auto simp: classifyCapabilityFailure_def rethrown_def fallbackGap_def Let_def rpc_none
          split: option.split)
  qed
qed

text \<open>\<open>unknown method\<close> in either case, as whole words: what the expression finds, without it.\<close>

definition word_char :: "char \<Rightarrow> bool" where
  "word_char c = (is_alnum c \<or> c = CHR ''_'')"

definition says_unknown_method :: "string \<Rightarrow> bool" where
  "says_unknown_method msg =
     list_ex (\<lambda>i. prefix ''unknown method'' (drop i (to_lower msg)) \<and> (case drop (i + 14) msg of [] \<Rightarrow> True | c # _ \<Rightarrow> \<not> word_char c))
       [0..<Suc (length msg)]"

lemma rword_lang: "lang (rword w) {u. to_lower u = w}"
proof (induction w)
  case Nil
  then show ?case by (simp add: rword_def to_lower_def lang_eps)
next
  case (Cons x w)
  have e: "{u @ v | u v. u \<in> {[c] | c. to_lower_char c = x} \<and> v \<in> {u. to_lower u = w}} = {u. to_lower u = x # w}"
    by (auto simp: to_lower_def Cons_eq_map_conv map_eq_Cons_conv) (metis append_Cons append_Nil)
  have r: "rword (x # w) = RSeq (RByte (\<lambda>c. to_lower_char c = x)) (rword w)" by (simp add: rword_def)
  show ?case unfolding r e [symmetric] by (rule lang_seq [OF lang_byte Cons])
qed

lemma unknown_method_at:
  "rmatch_at unknown_method b s \<noteq> None \<longleftrightarrow>
     prefix ''unknown method'' (to_lower s) \<and> (case drop 14 s of [] \<Rightarrow> True | c # _ \<Rightarrow> \<not> word_char c)"
proof -
  let ?st = "\<lparr>rs_start = b, rs_rest = s, rs_caps = []\<rparr>"
  have e: "rmatches (RNot (RByte (\<lambda>c. is_alnum c \<or> c = CHR ''_''))) x \<noteq> [] \<longleftrightarrow> (case rs_rest x of [] \<Rightarrow> True | c # _ \<Rightarrow> \<not> word_char c)" for x
    by (simp add: word_char_def split: list.split)
  have seq: "rmatches (RSeq p q) x \<noteq> [] \<longleftrightarrow> (\<exists>y \<in> set (rmatches p x). rmatches q y \<noteq> [])" for p q x by simp
  have rest: "rs_rest (consume k st) = drop k (rs_rest st)" for k st by (simp add: consume_def)
  have "rmatches unknown_method ?st \<noteq> [] \<longleftrightarrow>
      (\<exists>u. (prefix u s \<and> to_lower u = ''unknown method'') \<and> (case drop (length u) s of [] \<Rightarrow> True | c # _ \<Rightarrow> \<not> word_char c))"
    unfolding unknown_method_def seq e rword_lang [unfolded lang_def, rule_format] by (auto simp: rest)
  also have "\<dots> \<longleftrightarrow> prefix ''unknown method'' (to_lower s) \<and> (case drop 14 s of [] \<Rightarrow> True | c # _ \<Rightarrow> \<not> word_char c)"
  proof
    assume "\<exists>u. (prefix u s \<and> to_lower u = ''unknown method'') \<and> (case drop (length u) s of [] \<Rightarrow> True | c # _ \<Rightarrow> \<not> word_char c)"
    then obtain u t where u: "s = u @ t" "to_lower u = ''unknown method''" "case drop (length u) s of [] \<Rightarrow> True | c # _ \<Rightarrow> \<not> word_char c"
      by (auto simp: prefix_def)
    moreover have "length u = 14" using arg_cong [OF u(2), of length] by (simp add: to_lower_def)
    ultimately show "prefix ''unknown method'' (to_lower s) \<and> (case drop 14 s of [] \<Rightarrow> True | c # _ \<Rightarrow> \<not> word_char c)"
      by (simp add: to_lower_def)
  next
    assume p: "prefix ''unknown method'' (to_lower s) \<and> (case drop 14 s of [] \<Rightarrow> True | c # _ \<Rightarrow> \<not> word_char c)"
    then have t: "take 14 (to_lower s) = ''unknown method''" by (auto simp: prefix_def)
    then have "to_lower (take 14 s) = ''unknown method''" by (simp add: to_lower_def take_map)
    moreover have "14 \<le> length s" using arg_cong [OF t, of length] by (simp add: to_lower_def)
    ultimately show "\<exists>u. (prefix u s \<and> to_lower u = ''unknown method'') \<and> (case drop (length u) s of [] \<Rightarrow> True | c # _ \<Rightarrow> \<not> word_char c)"
      using p by (intro exI [of _ "take 14 s"]) (simp add: take_is_prefix min_absorb2)
  qed
  finally show ?thesis unfolding rmatch_at_set by simp
qed

lemma rtest_unknown_method: "rtest unknown_method msg \<longleftrightarrow> says_unknown_method msg"
proof -
  have "rtest unknown_method msg \<longleftrightarrow> (\<exists>i \<le> length msg. rmatch_at unknown_method (i = 0) (drop i msg) \<noteq> None)"
    unfolding rtest_def rtest_from_iff
  proof
    assume "\<exists>a v. msg = a @ v \<and> rmatch_at unknown_method (True \<and> a = []) v \<noteq> None"
    then obtain a v where "msg = a @ v" "rmatch_at unknown_method (a = []) v \<noteq> None" by auto
    then show "\<exists>i \<le> length msg. rmatch_at unknown_method (i = 0) (drop i msg) \<noteq> None" by (intro exI [of _ "length a"]) simp
  next
    assume "\<exists>i \<le> length msg. rmatch_at unknown_method (i = 0) (drop i msg) \<noteq> None"
    then obtain i where i: "i \<le> length msg" "rmatch_at unknown_method (i = 0) (drop i msg) \<noteq> None" by blast
    have "take i msg = [] \<longleftrightarrow> i = 0 \<or> msg = []" by auto
    with i have "rmatch_at unknown_method (True \<and> take i msg = []) (drop i msg) \<noteq> None" by (cases "msg = []") auto
    then show "\<exists>a v. msg = a @ v \<and> rmatch_at unknown_method (True \<and> a = []) v \<noteq> None"
      by (intro exI [of _ "take i msg"] exI [of _ "drop i msg"]) simp
  qed
  then show ?thesis
    unfolding unknown_method_at says_unknown_method_def
    by (simp add: list_ex_iff less_Suc_eq_le to_lower_def drop_map add.commute Bex_def del: upt_Suc)
qed

text \<open>Who speaks of a failure: the gateway by its wire code, this package before a request, or a transport, by the
  status of its answer, else by a code, else by its message alone.\<close>

definition foreign :: "unknown \<Rightarrow> bool" where
  "foreign e = (\<not> is_class CGatewayRpcError e \<and> \<not> is_class CCapabilityCallRejected e)"

definition status_is :: "(rat \<Rightarrow> bool) \<Rightarrow> unknown \<Rightarrow> bool" where
  "status_is P e = (case getErrorStatus e of Some (Fin s) \<Rightarrow> P s | _ \<Rightarrow> False)"

definition statusless :: "unknown \<Rightarrow> bool" where
  "statusless e = (foreign e \<and> \<not> status_is (\<lambda>s. 400 \<le> s) e)"

definition only_worded :: "unknown \<Rightarrow> bool" where
  "only_worded e =
     (statusless e \<and> getErrorCode e \<notin>
        {Some ''validation_failed'', Some ''invalid_request'', Some ''endpoint_not_found'', Some ''backend_unavailable''})"

definition mentions :: "unknown \<Rightarrow> string list \<Rightarrow> bool" where
  "mentions e ws = list_ex (str_includes (to_lower (getErrorMessage e ''Unknown error''))) ws"

definition wire_code :: "unknown \<Rightarrow> string list \<Rightarrow> bool" where
  "wire_code e cs = (is_class CGatewayRpcError e \<and> list_ex (\<lambda>c. err_prop e ''code'' = JStr c) cs)"

text \<open>The four kinds of failure that become a gap, and the failures that stay errors.\<close>

definition invalid_call :: "unknown \<Rightarrow> bool" where
  "invalid_call e =
     (is_class CCapabilityCallRejected e
      \<or> wire_code e [''INVALID_REQUEST'', ''INVALID_ARGUMENT'', ''FAILED_PRECONDITION'']
      \<or> foreign e \<and> status_is (\<lambda>s. 400 \<le> s \<and> s < 500 \<and> s \<noteq> 404) e
      \<or> statusless e \<and> getErrorCode e \<in> {Some ''validation_failed'', Some ''invalid_request''})"

definition missing_endpoint :: "unknown \<Rightarrow> bool" where
  "missing_endpoint e =
     (wire_code e [''NOT_FOUND'', ''UNIMPLEMENTED'']
      \<or> foreign e \<and> status_is (\<lambda>s. s = 404) e
      \<or> statusless e \<and> getErrorCode e = Some ''endpoint_not_found'')"

definition disconnected :: "unknown \<Rightarrow> bool" where
  "disconnected e =
     (only_worded e \<and> \<not> is_class CGatewayHttpError e \<and> \<not> says_unknown_method (getErrorMessage e ''Unknown error'')
      \<and> mentions e [''not connected'', ''socket''])"

definition backend_outage :: "unknown \<Rightarrow> bool" where
  "backend_outage e =
     (is_class CGatewayRpcError e
        \<and> \<not> wire_code e [''UNAUTHENTICATED'', ''PERMISSION_DENIED'', ''INVALID_REQUEST'', ''INVALID_ARGUMENT'',
              ''FAILED_PRECONDITION'', ''NOT_FOUND'', ''UNIMPLEMENTED'']
      \<or> foreign e \<and> status_is (\<lambda>s. 500 \<le> s) e
      \<or> statusless e \<and> getErrorCode e = Some ''backend_unavailable''
      \<or> only_worded e
        \<and> (is_class CGatewayHttpError e \<or> says_unknown_method (getErrorMessage e ''Unknown error'')
           \<or> \<not> mentions e [''not connected'', ''socket'']
             \<and> mentions e [''unavailable'', ''not available'', ''fetch failed'', ''failed to fetch'', ''network error'',
                 ''networkerror'', ''econn'', ''timed out'', ''timeout'', ''refused'']))"

lemma includes_iff: "str_includes s p \<longleftrightarrow> (\<exists>x y. s = x @ p @ y)"
proof
  assume "str_includes s p"
  then obtain i where "prefix p (drop i s)" using index_of_Some by (auto simp: str_includes_def)
  then show "\<exists>x y. s = x @ p @ y" by (metis append_take_drop_id prefix_def)
next
  assume "\<exists>x y. s = x @ p @ y"
  then obtain x y where "s = x @ p @ y" by blast
  then have "length x \<le> length s" "prefix p (drop (length x) s)" by simp_all
  then show "str_includes s p" unfolding str_includes_def index_of_None by blast
qed

lemma transport_words: "isTransportFailureMessage (getErrorMessage e ''Unknown error'') \<longleftrightarrow> mentions e [''not connected'', ''socket'']"
proof -
  have "''gateway client not connected'' = ''gateway client '' @ ''not connected''" "''websocket'' = ''web'' @ ''socket''" by simp_all
  then have "str_includes s ''gateway client not connected'' \<Longrightarrow> str_includes s ''not connected''"
    "str_includes s ''websocket'' \<Longrightarrow> str_includes s ''socket''" for s
    unfolding includes_iff by (metis append.assoc)+
  then show ?thesis by (auto simp: isTransportFailureMessage_def includes_any_def mentions_def)
qed

lemma backend_words: "isBackendFailureMessage (getErrorMessage e ''Unknown error'') \<longleftrightarrow>
    mentions e [''unavailable'', ''not available'', ''fetch failed'', ''failed to fetch'', ''network error'',
      ''networkerror'', ''econn'', ''timed out'', ''timeout'', ''refused'']"
  by (simp add: isBackendFailureMessage_def includes_any_def mentions_def)

lemma status_kinds:
  "Option.bind (getErrorStatus e) status_reason =
     (if status_is (\<lambda>s. s = 404) e then Some GapEndpointNotFound
      else if status_is (\<lambda>s. 500 \<le> s) e then Some GapBackendUnavailable
      else if status_is (\<lambda>s. 400 \<le> s) e then Some GapRequestInvalid else None)"
proof (cases "getErrorStatus e")
  case (Some x)
  then obtain q where "x = Fin q" by (cases x) (auto simp: getErrorStatus_def is_finite_def split: if_splits jv.splits)
  with Some show ?thesis by (simp add: status_reason_def status_is_def num_def)
qed (simp add: status_is_def)

lemma status_mono: "status_is P e \<Longrightarrow> (\<And>s. P s \<Longrightarrow> Q s) \<Longrightarrow> status_is Q e"
  by (auto simp: status_is_def split: option.splits jnum.splits)

lemma code_kinds:
  "code_reason c =
     (if c \<in> {Some ''validation_failed'', Some ''invalid_request''} then Some GapRequestInvalid
      else if c = Some ''endpoint_not_found'' then Some GapEndpointNotFound
      else if c = Some ''backend_unavailable'' then Some GapBackendUnavailable else None)"
  by (simp add: code_reason_def code_text_def)

lemma wire_kinds:
  "is_class CGatewayRpcError e \<Longrightarrow> rpc_code_reason e =
     (if wire_code e [''UNAUTHENTICATED'', ''PERMISSION_DENIED''] then None
      else if wire_code e [''INVALID_REQUEST'', ''INVALID_ARGUMENT'', ''FAILED_PRECONDITION''] then Some GapRequestInvalid
      else if wire_code e [''NOT_FOUND'', ''UNIMPLEMENTED''] then Some GapEndpointNotFound
      else Some GapBackendUnavailable)"
  by (simp add: rpc_code_reason_def gatewayRpcCodeReason_def wire_code_def split: jv.split)

lemma worded_kinds:
  assumes "only_worded e"
  shows "fc_reason (classifyFallbackError e) =
      (if disconnected e then GapTransportDisconnected else if backend_outage e then GapBackendUnavailable else GapUnknown)
    \<and> fc_status (classifyFallbackError e) = (if is_class CGatewayHttpError e then number_prop (err_prop e ''status'') else None)"
proof -
  have w: "statusless e" "getErrorCode e \<noteq> Some ''backend_unavailable''" "foreign e" "\<not> status_is (\<lambda>s. 400 \<le> s) e"
    using assms by (auto simp: only_worded_def statusless_def)
  have "\<not> status_is (\<lambda>s. 500 \<le> s) e" using w(4) status_mono [of "\<lambda>s. 500 \<le> s" e "\<lambda>s. 400 \<le> s"] by auto
  with w have o: "backend_outage e \<longleftrightarrow> is_class CGatewayHttpError e \<or> says_unknown_method (getErrorMessage e ''Unknown error'')
      \<or> \<not> mentions e [''not connected'', ''socket''] \<and> isBackendFailureMessage (getErrorMessage e ''Unknown error'')"
    using assms by (simp add: backend_outage_def backend_words foreign_def)
  show ?thesis
  proof (cases "is_class CGatewayHttpError e")
    case True
    then have "number_prop (err_prop e ''status'') \<noteq> Some (num 404)"
      using w(4) by (auto simp: status_is_def getErrorStatus_def is_class_def isErrRecord_def number_prop_def num_def is_finite_def
          split: unknown.splits jv.splits)
    then show ?thesis using True o by (simp add: classifyFallbackError_def gateway_http_class_def Let_def disconnected_def)
  next
    case False
    then show ?thesis
      using o assms by (simp add: classifyFallbackError_def Let_def disconnected_def rtest_unknown_method transport_words)
  qed
qed

lemma class_one: "is_class CGatewayRpcError e \<Longrightarrow> \<not> is_class CCapabilityCallRejected e"
  by (auto simp: is_class_def split: unknown.splits)

text \<open>What the theorem below says of a result, so that the sources of a failure can be taken one by one.\<close>

definition well_classified :: "unknown \<Rightarrow> string \<Rightarrow> string \<Rightarrow> string \<Rightarrow> unknown + ContractGap \<Rightarrow> bool" where
  "well_classified e area contract call r =
    (case r of
     Inl e' \<Rightarrow> e' = e \<and>
       (if isAuthError e \<or> wire_code e [''UNAUTHENTICATED'', ''PERMISSION_DENIED''] then True
        else \<not> invalid_call e \<and> \<not> missing_endpoint e \<and> \<not> disconnected e \<and> \<not> backend_outage e)
   | Inr g \<Rightarrow> \<not> isAuthError e \<and> \<not> wire_code e [''UNAUTHENTICATED'', ''PERMISSION_DENIED'']
       \<and> cg_area g = area \<and> cg_contract g = contract
       \<and> cg_reason g \<in> Some ` {GapRequestInvalid, GapEndpointNotFound, GapTransportDisconnected, GapBackendUnavailable}
       \<and> (cg_reason g = Some GapRequestInvalid \<longleftrightarrow> invalid_call e)
       \<and> (cg_reason g = Some GapEndpointNotFound \<longleftrightarrow> missing_endpoint e)
       \<and> (cg_reason g = Some GapTransportDisconnected \<longleftrightarrow> disconnected e)
       \<and> (cg_reason g = Some GapBackendUnavailable \<longleftrightarrow> backend_outage e)
       \<and> cg_status g =
           (if is_class CCapabilityCallRejected e then number_prop (err_prop e ''httpStatus'')
            else if foreign e \<and> status_is (\<lambda>s. 400 \<le> s) e then getErrorStatus e
            else if only_worded e \<and> is_class CGatewayHttpError e then number_prop (err_prop e ''status'')
            else None)
       \<and> prefix (call @ (if invalid_call e \<and> \<not> is_class CGatewayRpcError e then '' rejected: '' else '' failed: '')) (cg_note g))"

lemma classified_rpc:
  assumes "is_class CGatewayRpcError e" and "\<not> isAuthError e"
  shows "well_classified e area contract call (classifyCapabilityFailure e area contract call)"
proof -
  note c = assms class_one [OF assms(1)]
  have k: "\<not> foreign e" "\<not> statusless e" "\<not> only_worded e" using assms by (simp_all add: foreign_def statusless_def only_worded_def)
  have w: "wire_code e (a @ b) \<longleftrightarrow> wire_code e a \<or> wire_code e b" for a b by (auto simp: wire_code_def list_ex_iff)
  have one: "\<not> (wire_code e [''INVALID_REQUEST'', ''INVALID_ARGUMENT'', ''FAILED_PRECONDITION''] \<and> wire_code e [''NOT_FOUND'', ''UNIMPLEMENTED''])"
    by (auto simp: wire_code_def)
  have all: "wire_code e [''UNAUTHENTICATED'', ''PERMISSION_DENIED'', ''INVALID_REQUEST'', ''INVALID_ARGUMENT'',
              ''FAILED_PRECONDITION'', ''NOT_FOUND'', ''UNIMPLEMENTED'']
      \<longleftrightarrow> wire_code e [''UNAUTHENTICATED'', ''PERMISSION_DENIED''] \<or> wire_code e [''INVALID_REQUEST'', ''INVALID_ARGUMENT'', ''FAILED_PRECONDITION'']
        \<or> wire_code e [''NOT_FOUND'', ''UNIMPLEMENTED'']"
    using w [of "[''UNAUTHENTICATED'', ''PERMISSION_DENIED'']" "[''INVALID_REQUEST'', ''INVALID_ARGUMENT'', ''FAILED_PRECONDITION''] @ [''NOT_FOUND'', ''UNIMPLEMENTED'']"]
      w [of "[''INVALID_REQUEST'', ''INVALID_ARGUMENT'', ''FAILED_PRECONDITION'']" "[''NOT_FOUND'', ''UNIMPLEMENTED'']"] by simp
  show ?thesis
    unfolding well_classified_def classifyCapabilityFailure_def wire_kinds [OF assms(1)] invalid_call_def missing_endpoint_def
      disconnected_def backend_outage_def all
    using c k one by (simp add: fallbackGap_def)
qed

lemma classified_rejected:
  assumes "is_class CCapabilityCallRejected e" and "\<not> isAuthError e"
  shows "well_classified e area contract call (classifyCapabilityFailure e area contract call)"
proof -
  have c: "\<not> is_class CGatewayRpcError e" using class_one assms(1) by blast
  then have "\<not> foreign e" "\<not> statusless e" "\<not> only_worded e" "\<not> wire_code e cs" for cs
    using assms by (simp_all add: foreign_def statusless_def only_worded_def wire_code_def)
  with assms c show ?thesis
    by (simp add: well_classified_def classifyCapabilityFailure_def invalid_call_def missing_endpoint_def disconnected_def
        backend_outage_def fallbackGap_def)
qed

lemma classified_foreign:
  assumes "foreign e" and "\<not> isAuthError e"
  shows "well_classified e area contract call (classifyCapabilityFailure e area contract call)"
proof -
  have c: "\<not> is_class CGatewayRpcError e" "\<not> is_class CCapabilityCallRejected e" "\<not> wire_code e cs" for cs
    using assms(1) by (simp_all add: foreign_def wire_code_def)
  note kinds = invalid_call_def missing_endpoint_def disconnected_def backend_outage_def
  show ?thesis
  proof (cases "status_is (\<lambda>s. 400 \<le> s) e")
    case True
    then obtain q where q: "getErrorStatus e = Some (Fin q)" "400 \<le> q"
      by (auto simp: status_is_def split: option.splits jnum.splits)
    have k: "\<not> statusless e" "\<not> only_worded e" using True by (simp_all add: statusless_def only_worded_def)
    show ?thesis
      using assms c k q
      by (auto simp: well_classified_def classifyCapabilityFailure_def kinds status_is_def status_reason_def num_def fallbackGap_def
          failure_verb_def)
  next
    case False
    then have s: "statusless e" and b: "Option.bind (getErrorStatus e) status_reason = None"
      using assms(1) status_mono [of "\<lambda>s. s = 404" e "\<lambda>s. 400 \<le> s"] status_mono [of "\<lambda>s. 500 \<le> s" e "\<lambda>s. 400 \<le> s"]
      by (auto simp: statusless_def status_kinds)
    have n: "\<not> status_is (\<lambda>s. 400 \<le> s \<and> s < 500 \<and> s \<noteq> 404) e" "\<not> status_is (\<lambda>s. s = 404) e" "\<not> status_is (\<lambda>s. 500 \<le> s) e"
      using False status_mono [of _ e "\<lambda>s. 400 \<le> s"] by force+
    show ?thesis
    proof (cases "only_worded e")
      case True
      then have k: "getErrorCode e \<notin> {Some ''validation_failed'', Some ''invalid_request'', Some ''endpoint_not_found'', Some ''backend_unavailable''}"
        by (simp add: only_worded_def)
      then have "code_reason (getErrorCode e) = None" by (simp add: code_kinds)
      moreover have "\<not> invalid_call e" "\<not> missing_endpoint e" using c n k by (simp_all add: kinds)
      moreover have "\<not> (disconnected e \<and> backend_outage e)" using c n k by (auto simp: kinds)
      ultimately show ?thesis
        using assms c b n worded_kinds [OF True] True False
        by (simp add: well_classified_def classifyCapabilityFailure_def Let_def fallbackGap_def)
    next
      case False
      then have k: "getErrorCode e \<in> {Some ''validation_failed'', Some ''invalid_request'', Some ''endpoint_not_found'', Some ''backend_unavailable''}"
        using s by (simp add: only_worded_def)
      show ?thesis
        using k assms c b n s False \<open>\<not> status_is (\<lambda>s. 400 \<le> s) e\<close>
        by (auto simp: well_classified_def classifyCapabilityFailure_def kinds code_kinds fallbackGap_def failure_verb_def)
    qed
  qed
qed

text \<open>C7: What becomes of a failed capability call, for every error value. It stays an error, the same one, exactly when it
  is an authentication failure (by status, type, code or the gateway's wire code) or when nothing names its kind. Otherwise
  it is a gap of the area and contract asked for, with the reason of its one kind: an invalid call, a missing endpoint, a
  lost connection or an outage of the backend, read from the wire code, the status (404; from 400; from 500), the code of an
  error without such a status, and only then the message. The gap carries the status that was read, and its note says
  whether the call was rejected or failed.\<close>

theorem capability_failure_classified:
  "case classifyCapabilityFailure e area contract call of
     Inl e' \<Rightarrow> e' = e \<and>
       (if isAuthError e \<or> wire_code e [''UNAUTHENTICATED'', ''PERMISSION_DENIED''] then True
        else \<not> invalid_call e \<and> \<not> missing_endpoint e \<and> \<not> disconnected e \<and> \<not> backend_outage e)
   | Inr g \<Rightarrow> \<not> isAuthError e \<and> \<not> wire_code e [''UNAUTHENTICATED'', ''PERMISSION_DENIED'']
       \<and> cg_area g = area \<and> cg_contract g = contract
       \<and> cg_reason g \<in> Some ` {GapRequestInvalid, GapEndpointNotFound, GapTransportDisconnected, GapBackendUnavailable}
       \<and> (cg_reason g = Some GapRequestInvalid \<longleftrightarrow> invalid_call e)
       \<and> (cg_reason g = Some GapEndpointNotFound \<longleftrightarrow> missing_endpoint e)
       \<and> (cg_reason g = Some GapTransportDisconnected \<longleftrightarrow> disconnected e)
       \<and> (cg_reason g = Some GapBackendUnavailable \<longleftrightarrow> backend_outage e)
       \<and> cg_status g =
           (if is_class CCapabilityCallRejected e then number_prop (err_prop e ''httpStatus'')
            else if foreign e \<and> status_is (\<lambda>s. 400 \<le> s) e then getErrorStatus e
            else if only_worded e \<and> is_class CGatewayHttpError e then number_prop (err_prop e ''status'')
            else None)
       \<and> prefix (call @ (if invalid_call e \<and> \<not> is_class CGatewayRpcError e then '' rejected: '' else '' failed: '')) (cg_note g)"
proof -
  have "well_classified e area contract call (classifyCapabilityFailure e area contract call)"
  proof (cases "isAuthError e")
    case True
    then show ?thesis by (simp add: well_classified_def classifyCapabilityFailure_def)
  next
    case False
    then show ?thesis using classified_rpc classified_rejected classified_foreign by (cases "foreign e") (auto simp: foreign_def)
  qed
  then show ?thesis unfolding well_classified_def .
qed

text \<open>The errors of the package and of the platform that carry no status and no code a capability call
  reads: here it agrees with the envelope's classification.\<close>

lemma capability_agrees_with_envelope:
  assumes "\<not> is_class CGatewayRpcError e" and "\<not> is_class CCapabilityCallRejected e"
    and "Option.bind (getErrorStatus e) status_reason = None" and "code_reason (getErrorCode e) = None"
  shows "case classifyCapabilityFailure e area contract call of
     Inl e' \<Rightarrow> fst (withFallback (Inl e) fb area contract note (\<lambda>_. None) now) = Inl e'
   | Inr g \<Rightarrow> (\<exists>env g'. fst (withFallback (Inl e) fb area contract note (\<lambda>_. None) now) = Inr env
        \<and> en_gaps env = [g'] \<and> cg_reason g' = cg_reason g \<and> cg_status g' = cg_status g)"
  using assms
  by (auto simp: classifyCapabilityFailure_def withFallback_def fallback_catch_def Let_def fallbackGap_def
      mock_envelope_def split: option.splits)

text \<open>Envelopes are honest about their source. With an observer hook that does not throw, the data of
  a call that worked is handed on as it is, from the gateway, without a gap; a call that failed is
  either rethrown as it is (an authentication failure, or an error nothing classifies) or served
  from the fallback with exactly one gap, with its area, contract and a definite reason; and the hook
  is told once, and only of what is returned. Mutations differ only in wrapping what they rethrow.\<close>

theorem envelope_honest:
  assumes "\<And>i. hook i = None"
  shows "(\<forall>d. run = Inr d \<longrightarrow>
      withFallback run fb area contract note hook now
        = (Inr (live_envelope d now), [\<lparr>ri_source = FromGateway, ri_fellBack = False, ri_area = area\<rparr>]))
    \<and> (\<forall>e. run = Inl e \<longrightarrow>
      (if isAuthError e \<or> fc_reason (classifyFallbackError e) = GapUnknown
       then withFallback run fb area contract note hook now = (Inl e, [])
       else \<exists>g. withFallback run fb area contract note hook now
           = (Inr \<lparr>en_data = fb, en_source = FromMock, en_at = now, en_gaps = [g]\<rparr>,
              [\<lparr>ri_source = FromMock, ri_fellBack = True, ri_area = area\<rparr>])
         \<and> cg_area g = area \<and> cg_contract g = contract
         \<and> (\<exists>r \<in> {GapEndpointNotFound, GapBackendUnavailable, GapTransportDisconnected}. cg_reason g = Some r)
         \<and> withMutationResult run (Inr fb) area contract note now
             = Inr \<lparr>en_data = fb, en_source = FromMock, en_at = now, en_gaps = [g]\<rparr>))"
  using assms classify_reason
  by (auto simp: withFallback_def fallback_catch_def withMutationResult_def Let_def mock_envelope_def fallbackGap_def)

definition wit_outage :: unknown where
  "wit_outage = UErr (GatewayHttpError ''x'' (num 503) None)"

lemma wit_outage: "\<not> isAuthError wit_outage" "fc_reason (classifyFallbackError wit_outage) = GapBackendUnavailable"
  by (simp_all add: wit_outage_def GatewayHttpError_def mk_error_def isAuthError_def getErrorStatus_def
      isErrRecord_def err_prop_def getErrorType_def getErrorCode_def readStringProperty_def type_text_def
      code_text_def num_def classifyFallbackError_def is_class_def gateway_http_class_def number_prop_def Let_def)

theorem envelope_honest_witness:
  "\<exists>g. withFallback (Inl wit_outage) (0::nat) ''a'' ''c'' ''n'' (\<lambda>_. None) 5
     = (Inr \<lparr>en_data = 0, en_source = FromMock, en_at = 5, en_gaps = [g]\<rparr>,
        [\<lparr>ri_source = FromMock, ri_fellBack = True, ri_area = ''a''\<rparr>])"
proof -
  from envelope_honest [of "\<lambda>_. None" "Inl wit_outage" "0::nat" "''a''" "''c''" "''n''" 5] wit_outage
  show ?thesis by auto
qed

text \<open>A throwing observer discards live data. When the hook throws an error that reads as an outage,
  a call that succeeded is answered from the fallback, and reported as fallen back.\<close>

theorem throwing_hook_discards_live_data:
  assumes "hook \<lparr>ri_source = FromGateway, ri_fellBack = False, ri_area = area\<rparr> = Some e"
    and "hook \<lparr>ri_source = FromMock, ri_fellBack = True, ri_area = area\<rparr> = None"
    and "\<not> isAuthError e" and "fc_reason (classifyFallbackError e) \<noteq> GapUnknown"
  shows "\<exists>env. fst (withFallback (Inr d) fb area contract note hook now) = Inr env
    \<and> en_data env = fb \<and> en_source env = FromMock \<and> length (en_gaps env) = 1"
  using assms by (simp add: withFallback_def fallback_catch_def Let_def mock_envelope_def)

theorem throwing_hook_discards_live_data_witness:
  "\<exists>env. fst (withFallback (Inr (7::nat)) 0 ''a'' ''c'' ''n''
      (\<lambda>i. if ri_fellBack i then None else Some wit_outage) 5) = Inr env \<and> en_data env = 0"
  using throwing_hook_discards_live_data
    [of "\<lambda>i. if ri_fellBack i then None else Some wit_outage" "''a''" wit_outage "7::nat" 0 "''c''" "''n''" 5]
    wit_outage by auto

end
