(* ===== verification/RunWait.thy ===== *)
theory RunWait
  imports Envelope
begin

text \<open>
  \<open>src/contracts/run-wait.ts\<close>: waiting for a run by polling, within a poll budget, a time budget and
  the caller's abort signal. The timers, the signal and the retrieval's outcome are events, in any
  order; what runs after an \<open>await\<close> is the event \<open>WContinue\<close>, so an abort can come between a
  settled promise and its continuation. A run is a data value. \<open>w_seen\<close> logs the runs observed and
  \<open>w_calls\<close> counts the retrievals.
\<close>

section \<open>Options\<close>

record wait_options =
  wo_maxPolls :: "jnum option"
  wo_pollIntervalMs :: "jnum option"
  wo_maxWaitMs :: "jnum option"
  wo_signal :: "bool option"

definition MAX_TIMER_MS :: int where
  "MAX_TIMER_MS = 2 ^ 31 - 1"

definition wait_error :: unknown where
  "wait_error = UErr (api_error
     ''Use a non-negative safe poll count and integer timer budgets up to 2,147,483,647 ms.''
     (Some TValidation) (Some InvalidRequest) None)"

definition timer_ok :: "jnum \<Rightarrow> bool" where
  "timer_ok x = (is_integer x \<and> \<not> num_lt x (num 0) \<and> \<not> num_lt (num MAX_TIMER_MS) x)"

definition options_ok :: "wait_options \<Rightarrow> bool" where
  "options_ok w =
     (let maxPolls = or_else (wo_maxPolls w) (num 60) in
      is_safe_integer maxPolls \<and> \<not> num_lt maxPolls (num 0)
      \<and> timer_ok (or_else (wo_pollIntervalMs w) (num 1000)) \<and> timer_ok (or_else (wo_maxWaitMs w) (num 60000)))"

definition max_polls :: "wait_options \<Rightarrow> nat" where
  "max_polls w = nat \<lfloor>num_val (or_else (wo_maxPolls w) (num 60))\<rfloor>"

section \<open>The wait\<close>

datatype wait_reason = WTerminal | WNotPollable | WPollLimit | WTimeout | WAborted | WGap ContractGap

record wait_result =
  wr_reason :: wait_reason
  wr_run :: jv
  wr_polls :: nat

definition observedStopReason :: "jv \<Rightarrow> wait_reason option" where
  "observedStopReason st =
     (if st \<in> {JStr ''completed'', JStr ''failed'', JStr ''cancelled''} then Some WTerminal
      else if st \<in> {JStr ''started'', JStr ''running'', JStr ''stopping''} then None
      else Some WNotPollable)"

datatype wait_phase =
    Pausing | Paused | Observing | Observed "unknown + jv CapabilityResult" | Stopped
  | WDone "unknown + wait_result"

record wait =
  w_phase :: wait_phase
  w_run :: jv
  w_polls :: nat
  w_interruption :: "wait_reason option"
  w_calls :: nat
  w_seen :: "jv list"

definition finish :: "wait_reason \<Rightarrow> wait \<Rightarrow> wait" where
  "finish r st = st\<lparr>w_phase := WDone (Inr \<lparr>wr_reason = r, wr_run = w_run st, wr_polls = w_polls st\<rparr>)\<rparr>"

text \<open>The head of the loop; \<open>pause\<close> starts when nothing stops it.\<close>

definition loop_top :: "nat \<Rightarrow> wait \<Rightarrow> wait" where
  "loop_top m st =
     (case w_interruption st of
        Some r \<Rightarrow> finish r st
      | None \<Rightarrow>
          (case observedStopReason (get_prop (w_run st) ''status'') of
             Some r \<Rightarrow> finish r st
           | None \<Rightarrow> if w_polls st \<ge> m then finish WPollLimit st else st\<lparr>w_phase := Pausing\<rparr>))"

definition wait_new :: "jv \<Rightarrow> wait" where
  "wait_new run =
     \<lparr>w_phase = Pausing, w_run = run, w_polls = 0, w_interruption = None, w_calls = 0, w_seen = [run]\<rparr>"

text \<open>\<open>waitForRun\<close> up to its first \<open>await\<close>.\<close>

definition waitForRun :: "jv \<Rightarrow> wait_options \<Rightarrow> wait" where
  "waitForRun run w =
     (let st = wait_new run in
      if \<not> options_ok w then st\<lparr>w_phase := WDone (Inl wait_error)\<rparr>
      else
        (case observedStopReason (get_prop run ''status'') of
           Some r \<Rightarrow> finish r st
         | None \<Rightarrow>
             if wo_signal w = Some True then finish WAborted st
             else if max_polls w = 0 then finish WPollLimit st
             else if or_else (wo_maxWaitMs w) (num 60000) = num 0 then finish WTimeout st
             else loop_top (max_polls w) st))"

text \<open>\<open>interrupt\<close>: the internal signal fires once, and ends a pause or a pending observation.\<close>

definition interrupt :: "wait_reason \<Rightarrow> wait \<Rightarrow> wait" where
  "interrupt r st =
     (if w_interruption st \<noteq> None then st
      else
        let st1 = st\<lparr>w_interruption := Some r\<rparr> in
        (case w_phase st of
           WDone _ \<Rightarrow> st
         | Pausing \<Rightarrow> st1\<lparr>w_phase := Paused\<rparr>
         | Observing \<Rightarrow> st1\<lparr>w_phase := Stopped\<rparr>
         | _ \<Rightarrow> st1))"

text \<open>What follows an \<open>await\<close>. \<open>abort_in_call\<close>: the caller aborts while \<open>getRun\<close> is being called;
  \<open>thrown\<close>: what that call throws.\<close>

definition wait_continue :: "nat \<Rightarrow> bool \<Rightarrow> unknown option \<Rightarrow> wait \<Rightarrow> wait" where
  "wait_continue m abort_in_call thrown st =
     (case w_phase st of
        Paused \<Rightarrow>
          (case w_interruption st of
             Some r \<Rightarrow> finish r st
           | None \<Rightarrow>
               let st1 = st\<lparr>w_polls := w_polls st + 1, w_calls := w_calls st + 1, w_phase := Observing\<rparr> in
               (case thrown of
                  Some e \<Rightarrow> st1\<lparr>w_phase := WDone (Inl e)\<rparr>
                | None \<Rightarrow> if abort_in_call then interrupt WAborted st1 else st1))
      | Stopped \<Rightarrow> finish (or_else (w_interruption st) WAborted) st
      | Observed (Inl e) \<Rightarrow> st\<lparr>w_phase := WDone (Inl e)\<rparr>
      | Observed (Inr (GapResult g)) \<Rightarrow> finish (WGap g) st
      | Observed (Inr (LiveResult d)) \<Rightarrow> loop_top m (st\<lparr>w_run := d, w_seen := w_seen st @ [d]\<rparr>)
      | _ \<Rightarrow> st)"

datatype wait_event =
    WTimer | WDeadline | WAbort | WSettle "unknown + jv CapabilityResult" | WContinue bool "unknown option"

fun wait_step :: "nat \<Rightarrow> wait \<Rightarrow> wait_event \<Rightarrow> wait" where
  "wait_step m st WTimer = (if w_phase st = Pausing then st\<lparr>w_phase := Paused\<rparr> else st)"
| "wait_step m st WDeadline = interrupt WTimeout st"
| "wait_step m st WAbort = interrupt WAborted st"
| "wait_step m st (WSettle x) = (if w_phase st = Observing then st\<lparr>w_phase := Observed x\<rparr> else st)"
| "wait_step m st (WContinue b t) = wait_continue m b t st"

definition wait_run :: "jv \<Rightarrow> wait_options \<Rightarrow> wait_event list \<Rightarrow> wait" where
  "wait_run run w es = foldl (wait_step (max_polls w)) (waitForRun run w) es"

section \<open>Invariant\<close>

text \<open>What each result means.\<close>

definition result_ok :: "nat \<Rightarrow> wait \<Rightarrow> wait_result \<Rightarrow> bool" where
  "result_ok m st r =
     (wr_run r = last (w_seen st) \<and> wr_polls r = w_calls st
      \<and> (case wr_reason r of
           WTerminal \<Rightarrow> get_prop (wr_run r) ''status'' \<in> {JStr ''completed'', JStr ''failed'', JStr ''cancelled''}
         | WNotPollable \<Rightarrow> get_prop (wr_run r) ''status'' \<notin> {JStr ''completed'', JStr ''failed'',
             JStr ''cancelled'', JStr ''started'', JStr ''running'', JStr ''stopping''}
         | WPollLimit \<Rightarrow> wr_polls r = m
         | WTimeout \<Rightarrow> wr_polls r \<le> m
         | WAborted \<Rightarrow> wr_polls r \<le> m
         | WGap g \<Rightarrow> 0 < wr_polls r))"

definition wait_inv :: "nat \<Rightarrow> wait \<Rightarrow> bool" where
  "wait_inv m st =
     (w_calls st = w_polls st \<and> w_polls st \<le> m \<and> w_seen st \<noteq> [] \<and> last (w_seen st) = w_run st
      \<and> length (w_seen st) \<le> Suc (w_calls st)
      \<and> w_interruption st \<in> {None, Some WTimeout, Some WAborted}
      \<and> (case w_phase st of
           Pausing \<Rightarrow> w_polls st < m \<and> w_interruption st = None \<and> length (w_seen st) = Suc (w_calls st)
         | Paused \<Rightarrow> w_polls st < m \<and> length (w_seen st) = Suc (w_calls st)
         | Observing \<Rightarrow> 0 < w_polls st \<and> w_interruption st = None \<and> length (w_seen st) = w_calls st
         | Observed _ \<Rightarrow> 0 < w_polls st \<and> length (w_seen st) = w_calls st
         | Stopped \<Rightarrow> w_interruption st \<noteq> None
         | WDone (Inr r) \<Rightarrow> result_ok m st r
         | WDone (Inl e) \<Rightarrow> True))"

text \<open>The facts kept in every phase, and the ending of a wait.\<close>

definition wait_core :: "nat \<Rightarrow> wait \<Rightarrow> bool" where
  "wait_core m st =
     (w_calls st = w_polls st \<and> w_polls st \<le> m \<and> w_seen st \<noteq> [] \<and> last (w_seen st) = w_run st
      \<and> length (w_seen st) \<le> Suc (w_calls st) \<and> w_interruption st \<in> {None, Some WTimeout, Some WAborted})"

lemma wait_inv_core: "wait_inv m st \<Longrightarrow> wait_core m st"
  by (simp add: wait_inv_def wait_core_def)

lemma finish_interrupted: "wait_core m st \<Longrightarrow> w_interruption st = Some r \<Longrightarrow> wait_inv m (finish r st)"
  by (auto simp: wait_core_def wait_inv_def finish_def result_ok_def)

lemma finish_gap: "wait_core m st \<Longrightarrow> 0 < w_polls st \<Longrightarrow> wait_inv m (finish (WGap g) st)"
  by (simp add: wait_core_def wait_inv_def finish_def result_ok_def)

lemma loop_top_inv:
  assumes "wait_core m st" and "length (w_seen st) = Suc (w_calls st)"
  shows "wait_inv m (loop_top m st)"
proof (cases "w_interruption st")
  case (Some r)
  with finish_interrupted [OF assms(1)] show ?thesis by (simp add: loop_top_def)
next
  case None
  with assms show ?thesis
    by (auto simp: loop_top_def wait_core_def wait_inv_def finish_def result_ok_def observedStopReason_def)
qed

lemma wait_start_inv: "wait_inv (max_polls w) (waitForRun run w)"
proof (cases "options_ok w")
  case True
  have c: "wait_core (max_polls w) (wait_new run)" by (simp add: wait_core_def wait_new_def)
  have t: "wait_inv (max_polls w) (loop_top (max_polls w) (wait_new run))"
    by (rule loop_top_inv [OF c]) (simp add: wait_new_def)
  have "wait_inv (max_polls w) (finish r (wait_new run))"
    if "result_ok (max_polls w) (wait_new run) \<lparr>wr_reason = r, wr_run = run, wr_polls = 0\<rparr>" for r
    using that by (simp add: wait_inv_def finish_def wait_new_def result_ok_def)
  with t show ?thesis using True
    by (auto simp: waitForRun_def Let_def observedStopReason_def result_ok_def wait_new_def
        split: if_splits)
next
  case False
  then show ?thesis by (simp add: waitForRun_def wait_inv_def wait_new_def Let_def)
qed

lemma interrupt_inv: "wait_inv m st \<Longrightarrow> r \<in> {WTimeout, WAborted} \<Longrightarrow> wait_inv m (interrupt r st)"
  by (cases "w_phase st") (auto simp: interrupt_def wait_inv_def Let_def result_ok_def split: sum.splits)

lemma wait_continue_inv:
  assumes "wait_inv m st"
  shows "wait_inv m (wait_continue m b t st)"
proof (cases "w_phase st")
  case Paused
  let ?s = "st\<lparr>w_polls := w_polls st + 1, w_calls := w_calls st + 1, w_phase := Observing\<rparr>"
  have i: "w_interruption st = None \<Longrightarrow> wait_inv m ?s" using assms Paused by (auto simp: wait_inv_def)
  then have "w_interruption st = None \<Longrightarrow> wait_inv m (?s\<lparr>w_phase := WDone (Inl e)\<rparr>)" for e
    by (auto simp: wait_inv_def)
  with i interrupt_inv [OF i, of WAborted] finish_interrupted [OF wait_inv_core [OF assms]] Paused show ?thesis
    by (auto simp: wait_continue_def Let_def split: option.split)
next
  case Stopped
  with assms have "w_interruption st \<noteq> None" by (simp add: wait_inv_def)
  with Stopped finish_interrupted [OF wait_inv_core [OF assms]] show ?thesis
    by (auto simp: wait_continue_def or_else_def split: option.split)
next
  case (Observed x)
  then have p: "0 < w_polls st" "length (w_seen st) = w_calls st" using assms by (simp_all add: wait_inv_def)
  show ?thesis
  proof (cases x)
    case (Inl e)
    with Observed assms show ?thesis by (simp add: wait_continue_def wait_inv_def)
  next
    case (Inr c)
    show ?thesis
    proof (cases c)
      case (LiveResult d)
      let ?s = "st\<lparr>w_run := d, w_seen := w_seen st @ [d]\<rparr>"
      have "wait_core m ?s" using wait_inv_core [OF assms] p by (auto simp: wait_core_def)
      from loop_top_inv [OF this] p Observed Inr LiveResult show ?thesis by (simp add: wait_continue_def)
    next
      case (GapResult g)
      with Observed Inr finish_gap [OF wait_inv_core [OF assms] p(1)] show ?thesis by (simp add: wait_continue_def)
    qed
  qed
qed (use assms in \<open>simp_all add: wait_continue_def\<close>)

lemma wait_step_inv: "wait_inv m st \<Longrightarrow> wait_inv m (wait_step m st e)"
proof (cases e)
  case (WSettle x)
  assume "wait_inv m st"
  with WSettle show ?thesis by (auto simp: wait_inv_def)
next
  case WTimer
  assume "wait_inv m st"
  with WTimer show ?thesis by (auto simp: wait_inv_def)
qed (simp_all add: interrupt_inv wait_continue_inv)

lemma wait_run_inv: "wait_inv (max_polls w) (wait_run run w es)"
proof -
  have "wait_inv m st \<Longrightarrow> wait_inv m (foldl (wait_step m) st es)" for m st
    by (induction es arbitrary: st) (simp_all add: wait_step_inv)
  then show ?thesis unfolding wait_run_def using wait_start_inv by blast
qed

lemma finished_step: "w_phase st = WDone x \<Longrightarrow> wait_step m st e = st"
  by (cases e) (auto simp: interrupt_def wait_continue_def Let_def)

lemma finished_run: "w_phase st = WDone x \<Longrightarrow> foldl (wait_step m) st es = st"
  by (induction es) (simp_all add: finished_step)

section \<open>Properties\<close>

text \<open>C37: What a wait reports. Whatever the order of timers, aborts, answers and continuations: the
  number of retrievals never exceeds the poll budget; a result carries the run observed last and the
  number of retrievals made; \<open>terminal\<close> and \<open>state-not-pollable\<close> are reported exactly for such a
  status, \<open>poll-limit\<close> with the budget used up; and once there is a result, later events (a late
  answer, a late abort) change nothing.\<close>

theorem run_wait_outcome:
  "w_calls (wait_run run w es) \<le> max_polls w
   \<and> (case w_phase (wait_run run w es) of
        WDone (Inr r) \<Rightarrow> result_ok (max_polls w) (wait_run run w es) r
          \<and> wait_run run w (es @ fs) = wait_run run w es
      | WDone (Inl e) \<Rightarrow> wait_run run w (es @ fs) = wait_run run w es
      | _ \<Rightarrow> options_ok w)"
proof -
  let ?st = "wait_run run w es"
  have i: "wait_inv (max_polls w) ?st" by (rule wait_run_inv)
  have f: "w_phase ?st = WDone x \<Longrightarrow> wait_run run w (es @ fs) = ?st" for x
    using finished_run [of ?st x "max_polls w" fs] by (simp add: wait_run_def)
  have o': "options_ok w \<or> (\<exists>x. w_phase ?st = WDone x)"
    using finished_run [of "waitForRun run w" _ "max_polls w" es]
    by (cases "options_ok w") (auto simp: wait_run_def waitForRun_def Let_def)
  show ?thesis using i f o' by (auto simp: wait_inv_def split: wait_phase.splits sum.splits)
qed

text \<open>The time budget ends every wait. From any point of any wait, once the deadline timer has fired
  (or the caller has aborted) the next continuation settles the promise, even when the retrieval
  never answers.\<close>

theorem run_wait_deadline_ends:
  "(\<exists>x. w_phase (wait_run run w (es @ [WDeadline, WContinue b t])) = WDone x)
   \<and> (\<exists>x. w_phase (wait_run run w (es @ [WAbort, WContinue b t])) = WDone x)"
proof -
  let ?m = "max_polls w"
  have "\<exists>x. w_phase (wait_continue ?m b t (interrupt r st)) = WDone x" if "wait_inv ?m st" for st r
  proof (cases "w_interruption st")
    case None
    with that show ?thesis
      by (cases "w_phase st")
        (auto simp: interrupt_def Let_def wait_continue_def finish_def loop_top_def or_else_def wait_inv_def
          split: sum.split CapabilityResult.split)
  next
    case (Some r')
    with that show ?thesis
      by (cases "w_phase st")
        (auto simp: interrupt_def Let_def wait_continue_def finish_def loop_top_def or_else_def wait_inv_def
          split: sum.split CapabilityResult.split)
  qed
  from this [OF wait_run_inv] show ?thesis by (simp add: wait_run_def)
qed

end
