(* ===== verification/Stores.thy ===== *)
theory Stores
  imports Errors
begin

text \<open>
  The two bounded stores of the runtime: \<open>SynchronousRunStore\<close>
  (\<open>src/core/runtime/synchronous-run-store.ts\<close>) and the request cache of the snapshot loaders
  (\<open>src/core/gateway/snapshots/cache-internals.ts\<close>, \<open>cache.ts\<close>). Both keep a \<open>Map\<close> in order of
  use by deleting and setting the key. What their clients rely on is stated once, as a locale over
  \<open>put\<close>, and both are interpretations of it. Stored values are immutable in the model, so the copies
  that \<open>snapshot\<close> makes are the values themselves.
\<close>

section \<open>The contract\<close>

text \<open>Moving a key to the newest position.\<close>

definition om_renew :: "'k \<Rightarrow> 'v \<Rightarrow> ('k, 'v) omap \<Rightarrow> ('k, 'v) omap" where
  "om_renew k v m = om_set k v (om_del k m)"

lemma om_renew_get [simp]: "om_get (om_renew k v m) j = (if j = k then Some v else om_get m j)"
  by (simp add: om_renew_def)

lemma om_renew_ok [simp]: "om_ok m \<Longrightarrow> om_ok (om_renew k v m)"
  by (simp add: om_renew_def)

lemma om_renew_end: "om_renew k v m = om_del k m @ [(k, v)]"
  unfolding om_renew_def by (rule om_set_fresh) (simp add: om_has_def)

text \<open>
  A recency store: a value put is there, other keys keep their value or are evicted, and of the other
  keys those used earlier are evicted first.
\<close>

locale recency_store =
  fixes put :: "'k \<Rightarrow> 'v \<Rightarrow> ('k, 'v) omap \<Rightarrow> ('k, 'v) omap"
  assumes put_ok: "om_ok m \<Longrightarrow> om_ok (put k v m)"
    and put_self: "om_ok m \<Longrightarrow> om_get (put k v m) k = Some v"
    and put_other: "om_ok m \<Longrightarrow> j \<noteq> k \<Longrightarrow> om_get (put k v m) j \<in> {om_get m j, None}"
begin

definition puts :: "('k \<times> 'v) list \<Rightarrow> ('k, 'v) omap" where
  "puts ps = foldl (\<lambda>m p. put (fst p) (snd p) m) [] ps"

lemma puts_snoc: "puts (ps @ [p]) = put (fst p) (snd p) (puts ps)"
  by (simp add: puts_def)

lemma puts_ok: "om_ok (puts ps)"
  by (induction ps rule: rev_induct) (simp_all add: puts_def put_ok)

text \<open>What is found under a key is what was put there last.\<close>

lemma never_stale: "om_get (puts ps) k = Some v \<Longrightarrow> om_get (rev ps) k = Some v"
proof (induction ps rule: rev_induct)
  case (snoc p ps)
  show ?case
  proof (cases "fst p = k")
    case True
    with snoc put_self [OF puts_ok] show ?thesis by (cases p) (simp add: puts_snoc)
  next
    case False
    with snoc.prems put_other [OF puts_ok, of k "fst p" "snd p" ps] have "om_get (puts ps) k = Some v"
      by (auto simp: puts_snoc)
    with snoc.IH False show ?thesis by (cases p) simp
  qed
qed (simp add: puts_def)

end

section \<open>Synchronous runs\<close>

definition DEFAULT_CAPACITY :: nat where
  "DEFAULT_CAPACITY = 256"

text \<open>The body of \<open>remember\<close> for a status with a \<open>run_id\<close>.\<close>

definition remember_entry :: "nat \<Rightarrow> 'k \<Rightarrow> 'v \<Rightarrow> ('k, 'v) omap \<Rightarrow> ('k, 'v) omap" where
  "remember_entry capacity k v m =
     (let m1 = om_set k v (if om_has m k then om_del k m else m) in
      if length m1 > capacity then om_del (fst (hd m1)) m1 else m1)"

definition remember :: "nat \<Rightarrow> jv \<Rightarrow> (string, jv) omap \<Rightarrow> (string, jv) omap" where
  "remember capacity st m =
     (case get_prop st ''run_id'' of
        JStr k \<Rightarrow> if k = [] then m else remember_entry capacity k st m
      | _ \<Rightarrow> m)"

definition unknownSynchronousRun :: "string \<Rightarrow> string \<Rightarrow> jv" where
  "unknownSynchronousRun providerKind runId =
     JObj [(''run_id'', JStr runId), (''status'', JStr ''unknown''),
       (''error'', JStr (providerKind @ '': runs are synchronous and not retained server-side; '' @
          ''getRun is only available for runs started via this client instance''))]"

lemma om_del_absent: "\<not> om_has m k \<Longrightarrow> om_del k m = m"
  by (simp add: om_has_def map_of_eq_None_iff delete_id)

lemma remember_entry_eq:
  "remember_entry capacity k v m =
     (if length (om_renew k v m) > capacity then om_del (fst (hd (om_renew k v m))) (om_renew k v m)
      else om_renew k v m)"
  by (auto simp: remember_entry_def Let_def om_renew_def om_del_absent)

lemma remember_entry_contract:
  assumes "om_ok m"
  shows "om_ok (remember_entry (Suc c) k v m)"
    and "om_get (remember_entry (Suc c) k v m) k = Some v"
    and "j \<noteq> k \<Longrightarrow> om_get (remember_entry (Suc c) k v m) j \<in> {om_get m j, None}"
proof -
  show "om_ok (remember_entry (Suc c) k v m)" using assms by (simp add: remember_entry_eq)
  have "fst (hd (om_renew k v m)) \<noteq> k" if "length (om_renew k v m) > Suc c"
  proof (cases "om_del k m")
    case Nil
    with that show ?thesis by (simp add: om_renew_end)
  next
    case (Cons p ps)
    have "\<not> om_has (om_del k m) k" by (simp add: om_has_def)
    then have "fst p \<noteq> k" using Cons by (auto simp: om_has_iff)
    with Cons show ?thesis by (simp add: om_renew_end)
  qed
  then show "om_get (remember_entry (Suc c) k v m) k = Some v" by (auto simp: remember_entry_eq)
  show "j \<noteq> k \<Longrightarrow> om_get (remember_entry (Suc c) k v m) j \<in> {om_get m j, None}"
    by (simp add: remember_entry_eq)
qed

interpretation runs: recency_store "remember_entry (Suc c)" for c
  by unfold_locales (rule remember_entry_contract, assumption+)+

lemma remember_entry_length: "length m \<le> Suc c \<Longrightarrow> length (remember_entry (Suc c) k v m) \<le> Suc c"
proof -
  assume m: "length m \<le> Suc c"
  have "om_has (om_renew k v m) (fst (hd (om_renew k v m)))"
    by (cases "om_del k m") (auto simp: om_renew_end om_has_iff)
  from length_om_del_has [OF this] m length_delete_le [of k m] show ?thesis
    by (auto simp: remember_entry_eq) (simp add: om_renew_end)
qed

section \<open>The request cache\<close>

text \<open>An entry's \<open>inFlight\<close> promise counts only as present or not; \<open>expiresAt\<close> may be absent.\<close>

record 'p cache_entry =
  ce_payload :: "'p option"
  ce_expiresAt :: "int option"
  ce_inFlight :: bool

definition CAPACITY :: nat where
  "CAPACITY = 256"

definition expired :: "int \<Rightarrow> 'p cache_entry \<Rightarrow> bool" where
  "expired now e = (\<not> ce_inFlight e \<and> (case ce_expiresAt e of Some t \<Rightarrow> t \<le> now | None \<Rightarrow> False))"

text \<open>The second loop: entries to look at, the cache, and what it keeps.\<close>

fun prune_oldest ::
  "nat \<Rightarrow> 'k \<Rightarrow> ('k, 'p cache_entry) omap \<Rightarrow> ('k, 'p cache_entry) omap \<Rightarrow> ('k, 'p cache_entry) omap" where
  "prune_oldest cap keep [] m = m"
| "prune_oldest cap keep ((k, e) # es) m =
     (if length m \<le> cap then m
      else prune_oldest cap keep es (if k \<noteq> keep \<and> \<not> ce_inFlight e then om_del k m else m))"

definition pruneCache ::
  "nat \<Rightarrow> int \<Rightarrow> 'k \<Rightarrow> ('k, 'p cache_entry) omap \<Rightarrow> ('k, 'p cache_entry) omap" where
  "pruneCache cap now keep m =
     (let live = filter (\<lambda>p. fst p = keep \<or> \<not> expired now (snd p)) m in prune_oldest cap keep live live)"

text \<open>Putting an entry: set it as the newest, then prune around it.\<close>

definition cache_put ::
  "nat \<Rightarrow> int \<Rightarrow> 'k \<Rightarrow> 'p cache_entry \<Rightarrow> ('k, 'p cache_entry) omap \<Rightarrow> ('k, 'p cache_entry) omap" where
  "cache_put cap now k e m = pruneCache cap now k (om_renew k e m)"

definition getCacheEntry ::
  "nat \<Rightarrow> int \<Rightarrow> 'k \<Rightarrow> 'p cache_entry \<Rightarrow> ('k, 'p cache_entry) omap
     \<Rightarrow> 'p cache_entry \<times> ('k, 'p cache_entry) omap" where
  "getCacheEntry cap now k fresh m =
     (let e = (case om_get m k of Some e \<Rightarrow> e | None \<Rightarrow> fresh) in (e, cache_put cap now k e m))"

definition getOrCreateTtlCacheEntry ::
  "int \<Rightarrow> 'k \<Rightarrow> ('k, 'p cache_entry) omap \<Rightarrow> 'p cache_entry \<times> ('k, 'p cache_entry) omap" where
  "getOrCreateTtlCacheEntry now k m =
     getCacheEntry CAPACITY now k \<lparr>ce_payload = None, ce_expiresAt = Some 0, ce_inFlight = False\<rparr> m"

text \<open>Filtering keeps the entries it keeps.\<close>

lemma om_get_filter: "om_ok m \<Longrightarrow> om_get (filter P m) k = (case om_get m k of Some v \<Rightarrow> if P (k, v) then Some v else None | None \<Rightarrow> None)"
proof (induction m)
  case (Cons p m)
  have "fst p \<notin> fst ` set m" using Cons.prems by (simp add: om_ok_def)
  then have "om_get m (fst p) = None" by (simp add: map_of_eq_None_iff)
  moreover have "om_ok m" using Cons.prems by (simp add: om_ok_def)
  ultimately show ?case using Cons.IH by (cases p) auto
qed simp

lemma om_ok_filter [simp]: "om_ok m \<Longrightarrow> om_ok (filter P m)"
  by (simp add: om_ok_def distinct_map_filter)

lemma prune_oldest_ok: "om_ok m \<Longrightarrow> om_ok (prune_oldest cap keep es m)"
  by (induction cap keep es m rule: prune_oldest.induct) simp_all

lemma prune_oldest_self: "om_get (prune_oldest cap keep es m) keep = om_get m keep"
  by (induction cap keep es m rule: prune_oldest.induct) simp_all

lemma prune_oldest_other: "om_get (prune_oldest cap keep es m) j = om_get m j \<or> om_get (prune_oldest cap keep es m) j = None"
proof (induction es arbitrary: m)
  case (Cons p es)
  define m' where "m' = (if fst p \<noteq> keep \<and> \<not> ce_inFlight (snd p) then om_del (fst p) m else m)"
  have "om_get m' j = om_get m j \<or> om_get m' j = None" by (simp add: m'_def)
  moreover have "prune_oldest cap keep (p # es) m = (if length m \<le> cap then m else prune_oldest cap keep es m')"
    by (cases p) (simp add: m'_def)
  ultimately show ?case using Cons.IH [of m'] by (auto split: if_splits)
qed simp

lemma prune_oldest_live:
  "\<forall>e. (j, e) \<in> set es \<longrightarrow> ce_inFlight e \<Longrightarrow> om_get (prune_oldest cap keep es m) j = om_get m j"
proof (induction es arbitrary: m)
  case (Cons p es)
  define m' where "m' = (if fst p \<noteq> keep \<and> \<not> ce_inFlight (snd p) then om_del (fst p) m else m)"
  have "fst p = j \<Longrightarrow> (j, snd p) \<in> set (p # es)" by force
  then have "fst p = j \<Longrightarrow> ce_inFlight (snd p)" using Cons.prems by blast
  then have "om_get m' j = om_get m j" by (auto simp: m'_def)
  moreover have "prune_oldest cap keep (p # es) m = (if length m \<le> cap then m else prune_oldest cap keep es m')"
    by (cases p) (simp add: m'_def)
  moreover have "om_get (prune_oldest cap keep es m') j = om_get m' j" by (rule Cons.IH) (use Cons.prems in simp)
  ultimately show ?case by (simp split: if_splits)
qed simp

lemmas prune_oldest_keeps = prune_oldest_ok prune_oldest_self prune_oldest_other

lemma cache_put_contract:
  assumes "om_ok m"
  shows "om_ok (cache_put cap now k e m)" and "om_get (cache_put cap now k e m) k = Some e"
    and "j \<noteq> k \<Longrightarrow> om_get (cache_put cap now k e m) j \<in> {om_get m j, None}"
proof -
  let ?l = "filter (\<lambda>p. fst p = k \<or> \<not> expired now (snd p)) (om_renew k e m)"
  have o': "om_ok (om_renew k e m)" using assms by simp
  have c: "cache_put cap now k e m = prune_oldest cap k ?l ?l"
    by (simp add: cache_put_def pruneCache_def Let_def)
  show "om_ok (cache_put cap now k e m)" unfolding c using o' by (simp add: prune_oldest_keeps)
  show "om_get (cache_put cap now k e m) k = Some e"
    unfolding c using om_get_filter [OF o'] by (simp add: prune_oldest_keeps)
  show "j \<noteq> k \<Longrightarrow> om_get (cache_put cap now k e m) j \<in> {om_get m j, None}"
    unfolding c using om_get_filter [OF o', of _ j] prune_oldest_keeps(3) [of cap k ?l ?l j]
    by (auto split: option.splits if_splits)
qed

interpretation cache: recency_store "cache_put cap now" for cap now
  by unfold_locales (rule cache_put_contract, assumption+)+

section \<open>Properties\<close>

text \<open>The unbounded reference: every run remembered, in the order of last use.\<close>

definition remembered :: "('k \<times> 'v) list \<Rightarrow> ('k, 'v) omap" where
  "remembered ps = foldl (\<lambda>m p. om_renew (fst p) (snd p) m) [] ps"

lemma remembered_snoc: "remembered (ps @ [p]) = om_renew (fst p) (snd p) (remembered ps)"
  by (simp add: remembered_def)

lemma remembered_ok: "om_ok (remembered ps)"
  by (induction ps rule: rev_induct) (simp_all add: remembered_snoc, simp add: remembered_def)

lemma om_del_append: "om_del k (xs @ ys) = om_del k xs @ om_del k ys"
  by (simp add: AList.delete_eq)

lemma length_om_del: "om_ok m \<Longrightarrow> om_has m k \<Longrightarrow> Suc (length (om_del k m)) = length m"
proof (induction m)
  case (Cons p m)
  show ?case
  proof (cases "fst p = k")
    case True
    then have "\<not> om_has m k" using Cons.prems(1) by (simp add: om_ok_def om_has_iff)
    with True show ?thesis by (cases p) (simp add: om_del_absent)
  next
    case False
    with Cons show ?thesis by (cases p) (auto simp: om_ok_def om_has_def)
  qed
qed (simp add: om_has_def)

lemma remember_newest:
  assumes "om_ok (as @ ms)" and "as = [] \<or> length ms = Suc c" and "length ms \<le> Suc c"
  shows "\<exists>bs. om_renew k v (as @ ms) = bs @ remember_entry (Suc c) k v ms
    \<and> (bs = [] \<or> length (remember_entry (Suc c) k v ms) = Suc c)"
proof (cases "om_has ms k")
  case True
  have "\<not> om_has as k" using assms(1) True by (force simp: om_ok_def om_has_iff)
  moreover have "Suc (length (om_del k ms)) = length ms"
    using assms(1) True by (intro length_om_del) (simp_all add: om_ok_def)
  ultimately show ?thesis using assms(2,3)
    by (intro exI [of _ as]) (auto simp: remember_entry_eq om_renew_end om_del_append om_del_absent)
next
  case False
  show ?thesis
  proof (cases "length ms = Suc c")
    case True
    then obtain p ms' where m: "ms = p # ms'" by (cases ms) auto
    with assms(1) False have "fst p \<noteq> k" "\<not> om_has ms' (fst p)" "\<not> om_has ms' k"
      by (auto simp: om_has_iff om_ok_def)
    then have d: "om_del k ms' = ms'" "om_del k (p # ms') = p # ms'" "om_del (fst p) (p # ms') = ms'"
      using om_del_absent [of ms' "fst p"] by (cases p; simp add: om_del_absent)+
    have "remember_entry (Suc c) k v ms = ms' @ [(k, v)]"
      using True d m \<open>fst p \<noteq> k\<close> by (cases p) (simp add: remember_entry_eq om_renew_end om_del_append)
    with m True d show ?thesis
      by (intro exI [of _ "om_del k as @ [p]"]) (simp add: om_renew_end om_del_append)
  next
    case len: False
    with assms(2,3) False show ?thesis
      by (intro exI [of _ "[]"]) (auto simp: remember_entry_eq om_renew_end om_del_absent)
  qed
qed

lemma remember_window:
  "\<exists>as. remembered ps = as @ runs.puts c ps \<and> (as = [] \<or> length (runs.puts c ps) = Suc c)
     \<and> length (runs.puts c ps) \<le> Suc c"
proof (induction ps rule: rev_induct)
  case Nil
  show ?case by (simp add: remembered_def runs.puts_def)
next
  case (snoc p ps)
  then obtain as where a: "remembered ps = as @ runs.puts c ps"
    "as = [] \<or> length (runs.puts c ps) = Suc c" "length (runs.puts c ps) \<le> Suc c" by blast
  have o': "om_ok (as @ runs.puts c ps)" using remembered_ok [of ps] a(1) by simp
  from remember_newest [OF o' a(2,3), of "fst p" "snd p"] a(1) remember_entry_length [OF a(3)]
  show ?case by (auto simp: remembered_snoc runs.puts_snoc)
qed

text \<open>The statuses that have a run id, with it.\<close>

definition keyed :: "jv list \<Rightarrow> (string \<times> jv) list" where
  "keyed sts = [(k, st). st \<leftarrow> sts, k \<leftarrow> (case get_prop st ''run_id'' of JStr k \<Rightarrow> [k] | _ \<Rightarrow> []), k \<noteq> []]"

lemma remember_puts: "foldl (\<lambda>m st. remember (Suc c) st m) [] sts = runs.puts c (keyed sts)"
proof (induction sts rule: rev_induct)
  case Nil
  show ?case by (simp add: keyed_def runs.puts_def)
next
  case (snoc st sts)
  have "keyed (sts @ [st]) = keyed sts @ keyed [st]" by (simp add: keyed_def)
  with snoc show ?case
    by (cases "get_prop st ''run_id''") (simp_all add: remember_def keyed_def runs.puts_def)
qed

text \<open>The run store is a window on all the runs. Whatever statuses are remembered, with a capacity of
  at least one: the store holds exactly the runs last remembered, newest last, as many as the capacity
  allows (all of them, or a full store); so what \<open>get\<close> finds for a run is the status remembered for it
  last, and a status without a run id changes nothing.\<close>

theorem run_store_window:
  "let m = foldl (\<lambda>m st. remember (Suc c) st m) [] sts in
   (\<exists>evicted. remembered (keyed sts) = evicted @ m \<and> (evicted = [] \<or> length m = Suc c))
   \<and> length m \<le> Suc c \<and> (om_get m k = None \<or> om_get m k = om_get (rev (keyed sts)) k)"
proof -
  have "om_get (runs.puts c ps) k = None \<or> om_get (runs.puts c ps) k = om_get (rev ps) k" for ps
    using runs.never_stale [of c ps k] by (cases "om_get (runs.puts c ps) k") simp_all
  with remember_window [of "keyed sts" c] show ?thesis unfolding remember_puts Let_def by blast
qed

lemma prune_oldest_bound:
  assumes "\<forall>p \<in> set m. fst p \<noteq> keep \<and> \<not> ce_inFlight (snd p) \<longrightarrow> p \<in> set es"
  shows "length (prune_oldest cap keep es m) \<le> cap
    \<or> (\<forall>p \<in> set (prune_oldest cap keep es m). fst p = keep \<or> ce_inFlight (snd p))"
  using assms
proof (induction es arbitrary: m)
  case (Cons p es)
  define m' where "m' = (if fst p \<noteq> keep \<and> \<not> ce_inFlight (snd p) then om_del (fst p) m else m)"
  have e: "prune_oldest cap keep (p # es) m = (if length m \<le> cap then m else prune_oldest cap keep es m')"
    by (cases p) (simp add: m'_def)
  have "set (om_del (fst p) m) \<subseteq> set m - {p}" by (auto simp: AList.delete_eq)
  with Cons.prems have "\<forall>q \<in> set m'. fst q \<noteq> keep \<and> \<not> ce_inFlight (snd q) \<longrightarrow> q \<in> set es"
    by (auto simp: m'_def)
  from Cons.IH [OF this] show ?case by (simp add: e)
qed auto

text \<open>The cache keeps live requests. When an entry is fetched, it is the cached one if there is one,
  and it is in the cache afterwards as the newest; no entry with a request in flight is dropped, no
  entry changes; and the cache is within its capacity unless everything else in it is in flight.\<close>

theorem cache_entry_live:
  assumes "om_ok m" and "getCacheEntry cap now k fresh m = (e, m')"
  shows "e = (case om_get m k of Some x \<Rightarrow> x | None \<Rightarrow> fresh) \<and> om_get m' k = Some e \<and> om_ok m'
    \<and> (\<forall>j x. j \<noteq> k \<and> om_get m j = Some x \<and> ce_inFlight x \<longrightarrow> om_get m' j = Some x)
    \<and> (\<forall>j x. j \<noteq> k \<and> om_get m' j = Some x \<longrightarrow> om_get m j = Some x \<and> \<not> expired now x)
    \<and> (length m' \<le> cap \<or> (\<forall>p \<in> set m'. fst p = k \<or> ce_inFlight (snd p)))"
proof -
  have e: "e = (case om_get m k of Some x \<Rightarrow> x | None \<Rightarrow> fresh)" and m': "m' = cache_put cap now k e m"
    using assms(2) by (auto simp: getCacheEntry_def Let_def)
  define l where "l = filter (\<lambda>p. fst p = k \<or> \<not> expired now (snd p)) (om_renew k e m)"
  have c: "m' = prune_oldest cap k l l" by (simp add: m' cache_put_def pruneCache_def Let_def l_def)
  have g: "j \<noteq> k \<Longrightarrow> om_get l j = (case om_get m j of Some x \<Rightarrow> if expired now x then None else Some x | None \<Rightarrow> None)" for j
    unfolding l_def using om_get_filter [OF om_renew_ok [OF assms(1)]] by (simp split: option.split)
  have o': "om_ok l" unfolding l_def using assms(1) by simp
  have "om_get m' j = Some x" if "j \<noteq> k" "om_get m j = Some x" "ce_inFlight x" for j x
  proof -
    have "om_get l j = Some x" using g that by (simp add: expired_def)
    moreover have "\<forall>e. (j, e) \<in> set l \<longrightarrow> ce_inFlight e"
      using o' calculation that(3) by (auto simp: om_ok_def) (metis map_of_is_SomeI option.inject)
    ultimately show ?thesis unfolding c by (simp add: prune_oldest_live)
  qed
  moreover have "om_get m j = Some x \<and> \<not> expired now x" if "j \<noteq> k" "om_get m' j = Some x" for j x
  proof -
    from that(2) prune_oldest_other [of cap k l l j] have "om_get l j = Some x" unfolding c by auto
    with g [OF that(1)] show ?thesis by (auto split: option.splits if_splits)
  qed
  moreover have "length m' \<le> cap \<or> (\<forall>p \<in> set m'. fst p = k \<or> ce_inFlight (snd p))"
    unfolding c by (rule prune_oldest_bound) simp
  ultimately show ?thesis using e m' cache_put_contract [OF assms(1), where k = k and e = e] by blast
qed

theorem cache_entry_live_witness:
  "fst (getCacheEntry 1 5 ''b'' \<lparr>ce_payload = None :: nat option, ce_expiresAt = Some 0, ce_inFlight = False\<rparr>
      [(''a'', \<lparr>ce_payload = Some 3, ce_expiresAt = Some 9, ce_inFlight = True\<rparr>)])
   = \<lparr>ce_payload = None, ce_expiresAt = Some 0, ce_inFlight = False\<rparr>"
  using cache_entry_live [of "[(''a'', \<lparr>ce_payload = Some 3, ce_expiresAt = Some 9, ce_inFlight = True\<rparr>)]" 1 5 "''b''"
      "\<lparr>ce_payload = None :: nat option, ce_expiresAt = Some 0, ce_inFlight = False\<rparr>"]
  by (cases "getCacheEntry 1 5 ''b'' \<lparr>ce_payload = None :: nat option, ce_expiresAt = Some 0, ce_inFlight = False\<rparr>
      [(''a'', \<lparr>ce_payload = Some 3, ce_expiresAt = Some 9, ce_inFlight = True\<rparr>)]") (auto simp: om_ok_def)

end
