(* ===== verification/RunResults.thy ===== *)
theory RunResults
  imports GatewayRequests
begin

text \<open>
  Reading a finished run: \<open>src/core/runtime/run-results.ts\<close> (what a caller may require of a run or a
  stream), \<open>usage.ts\<close> (token counts in one shape, and their cost) and \<open>run-error-details.ts\<close>. Runs and
  usage records are data values. Arithmetic on prices is exact, and over finite numbers.
\<close>

section \<open>Required results\<close>

definition outcomeErrorCode :: "jv \<Rightarrow> ApiClientErrorCode" where
  "outcomeErrorCode v =
     (if v = JStr ''failed'' then RunFailed else if v = JStr ''cancelled'' then RunCancelled else RunIncomplete)"

definition requireCompletedRun :: "jv \<Rightarrow> unknown + jv" where
  "requireCompletedRun run =
     (if get_prop run ''status'' \<noteq> JStr ''completed''
      then Inl (UErr (api_error
             (''Run '' @ js_string (get_prop run ''run_id'') @ '' is not completed (status: '' @
              js_string (get_prop run ''status'') @ '')'')
             (Some TRun) (Some (outcomeErrorCode (get_prop run ''status''))) (Some (UVal run))))
      else Inr run)"

definition requireRunText :: "jv \<Rightarrow> unknown + string" where
  "requireRunText run =
     (case requireCompletedRun run of
        Inl e \<Rightarrow> Inl e
      | Inr completed \<Rightarrow>
          (case coalesce (get_prop completed ''output'') (get_prop completed ''response'') of
             JStr t \<Rightarrow> Inr t
           | _ \<Rightarrow> Inl (UErr (api_error
                    (''Run '' @ js_string (get_prop run ''run_id'') @ '' completed without required text'')
                    (Some TRun) (Some RunOutputMissing) (Some (UVal run))))))"

definition requireCompletedStream :: "jv \<Rightarrow> unknown + jv" where
  "requireCompletedStream stream =
     (if get_prop stream ''outcome'' \<noteq> JStr ''completed''
      then Inl (UErr (api_error
             (''Stream is not completed (outcome: '' @
              js_string (coalesce (get_prop stream ''outcome'') (JStr ''unknown'')) @ '')'')
             (Some TRun) (Some (outcomeErrorCode (get_prop stream ''outcome''))) (Some (UVal stream))))
      else Inr stream)"

definition requireStreamText :: "jv \<Rightarrow> unknown + string" where
  "requireStreamText stream =
     (case requireCompletedStream stream of
        Inl e \<Rightarrow> Inl e
      | Inr completed \<Rightarrow>
          (case get_prop completed ''output'' of
             JStr t \<Rightarrow> Inr t
           | _ \<Rightarrow> Inl (UErr (api_error ''Stream completed without required text''
                    (Some TRun) (Some RunOutputMissing) (Some (UVal stream))))))"

section \<open>Error details\<close>

definition detail_fields :: "(string \<times> string) list" where
  "detail_fields = [(''code'', ''providerCode''), (''type'', ''providerType''), (''reason'', ''reason'')]"

definition readNativeRunErrorDetails :: "jv \<Rightarrow> jv option" where
  "readNativeRunErrorDetails v =
     (if \<not> is_plain_object v then None
      else
        let details = concat (map (\<lambda>f. case get_prop v (fst f) of
                                    JStr s \<Rightarrow> if trim s \<noteq> [] then [(snd f, JStr s)] else []
                                  | _ \<Rightarrow> []) detail_fields)
        in if details = [] then None else Some (JObj details))"

section \<open>Usage\<close>

record runtime_usage =
  us_input :: "jnum option"
  us_output :: "jnum option"
  us_total :: "jnum option"
  us_cacheRead :: "jnum option"
  us_cacheWrite :: "jnum option"
  us_raw :: "(string, jnum) omap"

definition INPUT_KEYS :: "string list" where
  "INPUT_KEYS = [''input_tokens'', ''inputTokens'', ''prompt_tokens'', ''promptTokenCount'']"

definition OUTPUT_KEYS :: "string list" where
  "OUTPUT_KEYS = [''output_tokens'', ''outputTokens'', ''completion_tokens'', ''candidatesTokenCount'']"

definition TOTAL_KEYS :: "string list" where
  "TOTAL_KEYS = [''total_tokens'', ''totalTokens'', ''totalTokenCount'']"

definition CACHE_READ_KEYS :: "string list" where
  "CACHE_READ_KEYS = [''cache_read_input_tokens'', ''cached_tokens'', ''cacheReadTokens'', ''cachedContentTokenCount'']"

definition CACHE_WRITE_KEYS :: "string list" where
  "CACHE_WRITE_KEYS = [''cache_creation_input_tokens'', ''cacheWriteTokens'']"

fun num_add :: "jnum \<Rightarrow> jnum \<Rightarrow> jnum" where
  "num_add (Fin a) (Fin b) = Fin (a + b)"
| "num_add NaN _ = NaN"
| "num_add _ NaN = NaN"
| "num_add PosInf NegInf = NaN"
| "num_add NegInf PosInf = NaN"
| "num_add PosInf _ = PosInf"
| "num_add NegInf _ = NegInf"
| "num_add (Fin _) x = x"

fun pick :: "(string, jnum) omap \<Rightarrow> string list \<Rightarrow> jnum option" where
  "pick raw [] = None"
| "pick raw (k # ks) = (case om_get raw k of Some x \<Rightarrow> Some x | None \<Rightarrow> pick raw ks)"

text \<open>The numeric members, under their names; an array's names are its indices.\<close>

definition object_entries :: "jv \<Rightarrow> (string \<times> jv) list" where
  "object_entries v =
     (case v of JObj m \<Rightarrow> m | JArr vs \<Rightarrow> zip (map show_nat [0..<length vs]) vs | _ \<Rightarrow> [])"

definition numeric_members :: "(string \<times> jv) list \<Rightarrow> (string, jnum) omap" where
  "numeric_members m =
     foldl (\<lambda>acc p. case snd p of JNum x \<Rightarrow> om_set (fst p) x acc | _ \<Rightarrow> acc) [] m"

definition normalizeRuntimeUsage :: "jv \<Rightarrow> runtime_usage option" where
  "normalizeRuntimeUsage raw =
     (if \<not> is_js_object raw then None
      else
        let numericRaw = numeric_members (object_entries raw) in
        if numericRaw = [] then None
        else
          let inputTokens = pick numericRaw INPUT_KEYS;
              outputTokens = pick numericRaw OUTPUT_KEYS
          in Some \<lparr>us_input = inputTokens, us_output = outputTokens,
               us_total = (case pick numericRaw TOTAL_KEYS of
                  Some t \<Rightarrow> Some t
                | None \<Rightarrow> (case (inputTokens, outputTokens) of
                      (Some i, Some j) \<Rightarrow> Some (num_add i j) | _ \<Rightarrow> None)),
               us_cacheRead = pick numericRaw CACHE_READ_KEYS,
               us_cacheWrite = pick numericRaw CACHE_WRITE_KEYS, us_raw = numericRaw\<rparr>)"

record token_counts =
  tc_input :: "rat option"
  tc_output :: "rat option"
  tc_cacheRead :: "rat option"
  tc_cacheWrite :: "rat option"

definition PER_MILLION :: rat where
  "PER_MILLION = 1000000"

definition cost_line :: "rat option \<Rightarrow> rat option \<Rightarrow> rat" where
  "cost_line tokens price =
     (case (tokens, price) of (Some t, Some p) \<Rightarrow> t * p / PER_MILLION | _ \<Rightarrow> 0)"

definition estimateUsageCost :: "token_counts \<Rightarrow> token_counts \<Rightarrow> rat" where
  "estimateUsageCost usage prices =
     cost_line (tc_input usage) (tc_input prices) + cost_line (tc_output usage) (tc_output prices)
     + cost_line (tc_cacheRead usage) (tc_cacheRead prices) + cost_line (tc_cacheWrite usage) (tc_cacheWrite prices)"

section \<open>Properties\<close>

lemma pick_Some: "pick raw ks = Some x \<Longrightarrow> \<exists>k \<in> set ks. om_get raw k = Some x"
  by (induction ks) (auto split: option.splits)

lemma numeric_members_get:
  "om_ok m \<Longrightarrow> om_get (numeric_members m) k = (case om_get m k of Some (JNum x) \<Rightarrow> Some x | _ \<Rightarrow> None)"
proof (induction m rule: rev_induct)
  case (snoc p m)
  then have o': "om_ok m" "om_get m (fst p) = None"
    by (auto simp: om_ok_def map_of_eq_None_iff)
  have s: "numeric_members (m @ [p]) = (case snd p of JNum x \<Rightarrow> om_set (fst p) x (numeric_members m) | _ \<Rightarrow> numeric_members m)"
    by (simp add: numeric_members_def split: jv.split)
  from snoc.IH [OF o'(1)] o'(2) s show ?case
    by (cases p) (auto simp: map_add_def split: option.split jv.split)
qed (simp add: numeric_members_def)

text \<open>Results are required honestly. A required run or stream is handed back as it is exactly when its
  status is \<open>completed\<close>, its text exactly when it is also a string (an empty one included, the output
  before the response); anything else throws a run error, that tells a failed from a cancelled run and
  carries the run as its cause.\<close>

definition run_error :: "ApiClientErrorCode \<Rightarrow> jv \<Rightarrow> unknown \<Rightarrow> bool" where
  "run_error c run e =
     (isApiClientError e \<and> err_prop e ''type'' = JStr (type_text TRun) \<and> err_prop e ''code'' = JStr (code_text c)
      \<and> (case e of UErr x \<Rightarrow> e_cause x = Some (UVal run) | UVal _ \<Rightarrow> False))"

lemma run_error_made: "run_error c run (UErr (api_error msg (Some TRun) (Some c) (Some (UVal run))))"
  by (simp add: run_error_def api_error_def mk_error_def isApiClientError_def err_prop_def)

theorem required_results:
  "let completed = (get_prop run ''status'' = JStr ''completed'');
       ended = (get_prop stream ''outcome'' = JStr ''completed'');
       text = coalesce (get_prop run ''output'') (get_prop run ''response'')
   in (case requireCompletedRun run of
         Inr r \<Rightarrow> completed \<and> r = run
       | Inl e \<Rightarrow> \<not> completed \<and> run_error (outcomeErrorCode (get_prop run ''status'')) run e)
    \<and> (case requireRunText run of
         Inr t \<Rightarrow> completed \<and> text = JStr t
       | Inl e \<Rightarrow> \<not> (completed \<and> text_of text \<noteq> None)
           \<and> run_error (if completed then RunOutputMissing else outcomeErrorCode (get_prop run ''status'')) run e)
    \<and> (case requireCompletedStream stream of
         Inr r \<Rightarrow> ended \<and> r = stream
       | Inl e \<Rightarrow> \<not> ended \<and> run_error (outcomeErrorCode (get_prop stream ''outcome'')) stream e)
    \<and> (case requireStreamText stream of
         Inr t \<Rightarrow> ended \<and> get_prop stream ''output'' = JStr t
       | Inl e \<Rightarrow> \<not> (ended \<and> text_of (get_prop stream ''output'') \<noteq> None)
           \<and> run_error (if ended then RunOutputMissing else outcomeErrorCode (get_prop stream ''outcome'')) stream e)"
  unfolding Let_def requireRunText_def requireCompletedRun_def requireStreamText_def requireCompletedStream_def
  by (simp add: run_error_made text_of_def split: jv.split)

text \<open>Normalised usage keeps what was reported. A usage record exists exactly when some member is a
  number; its raw part has exactly the numeric members; every count it gives is the value of one of the
  names of that concept, and the total is the reported one or the sum of input and output.\<close>

theorem usage_lossless:
  assumes "om_ok m"
  shows "case normalizeRuntimeUsage (JObj m) of
      None \<Rightarrow> \<not> (\<exists>k x. om_get m k = Some (JNum x))
    | Some u \<Rightarrow> (\<forall>k x. om_get (us_raw u) k = Some x \<longleftrightarrow> om_get m k = Some (JNum x))
        \<and> (\<forall>x. us_input u = Some x \<longrightarrow> (\<exists>k \<in> set INPUT_KEYS. om_get m k = Some (JNum x)))
        \<and> (\<forall>x. us_output u = Some x \<longrightarrow> (\<exists>k \<in> set OUTPUT_KEYS. om_get m k = Some (JNum x)))
        \<and> (\<forall>x. us_total u = Some x \<longrightarrow> (\<exists>k \<in> set TOTAL_KEYS. om_get m k = Some (JNum x))
             \<or> (\<exists>i j. us_input u = Some i \<and> us_output u = Some j \<and> x = num_add i j))
        \<and> (us_total u = None \<longrightarrow> us_input u = None \<or> us_output u = None)"
proof -
  define r where "r = numeric_members m"
  have g: "om_get r k = Some x \<longleftrightarrow> om_get m k = Some (JNum x)" for k x
    unfolding r_def using numeric_members_get [OF assms, of k] by (auto split: option.splits jv.splits)
  have p: "pick r ks = Some x \<Longrightarrow> \<exists>k \<in> set ks. om_get m k = Some (JNum x)" for ks x
    using pick_Some [of r ks x] g by blast
  have n: "r = [] \<Longrightarrow> \<not> (\<exists>k x. om_get m k = Some (JNum x))" using g by (metis map_of.simps(1) option.distinct(1))
  show ?thesis
  proof (cases "r = []")
    case True
    with n show ?thesis by (simp add: normalizeRuntimeUsage_def is_js_object_def object_entries_def r_def Let_def)
  next
    case False
    have u: "normalizeRuntimeUsage (JObj m) = Some \<lparr>us_input = pick r INPUT_KEYS, us_output = pick r OUTPUT_KEYS,
        us_total = (case pick r TOTAL_KEYS of Some t \<Rightarrow> Some t
          | None \<Rightarrow> (case (pick r INPUT_KEYS, pick r OUTPUT_KEYS) of (Some i, Some j) \<Rightarrow> Some (num_add i j) | _ \<Rightarrow> None)),
        us_cacheRead = pick r CACHE_READ_KEYS, us_cacheWrite = pick r CACHE_WRITE_KEYS, us_raw = r\<rparr>"
      using False unfolding r_def
      by (simp add: normalizeRuntimeUsage_def is_js_object_def object_entries_def Let_def)
    show ?thesis unfolding u using g p by (auto split: option.splits)
  qed
qed

theorem usage_lossless_witness:
  "map_option us_total (normalizeRuntimeUsage (JObj [(''input_tokens'', JNum (Fin 2)), (''output_tokens'', JNum (Fin 3))]))
     = Some (Some (Fin 5))"
proof -
  have "om_ok [(''input_tokens'', JNum (Fin 2)), (''output_tokens'', JNum (Fin 3))]" by (simp add: om_ok_def)
  from usage_lossless [OF this] show ?thesis
    by (simp add: normalizeRuntimeUsage_def is_js_object_def object_entries_def numeric_members_def Let_def
        INPUT_KEYS_def OUTPUT_KEYS_def TOTAL_KEYS_def)
qed

end
