(* ===== verification/RunStream.thy ===== *)
theory RunStream
  imports RunResults Envelope
begin

text \<open>
  Streaming a run through a gateway: the event vocabulary of \<open>src/core/runtime/run-stream.ts\<close> and
  \<open>src/core/runtime/control-plane/events.ts\<close>, the translation of control-plane events
  (\<open>control-plane/run-stream-bridge.ts\<close>), the bridge that starts a run and settles with its stream
  (\<open>src/providers/gateway-stream-run.ts\<close>) and the tracking that settles bridges on dispose
  (\<open>src/providers/stream-run-lifecycle.ts\<close>). A consumer's handler may throw: the event that calls it
  says whether it does.
\<close>

section \<open>Events\<close>

datatype approval_choice = AOnce | ASession | AAlways | ADeny

datatype tool_status = ToolPending | ToolRunning | ToolCompleted | ToolFailed

record tool_call =
  tl_id :: string
  tl_name :: string
  tl_status :: tool_status
  tl_output :: "string option"

datatype tool_event = ToolCallStarted | ToolCallCompleted | ToolCallFailed

datatype run_event =
    MessageDelta string string
  | RunCompletedEvent string "jv option"
  | RunFailedEvent string string "jv option"
  | RunCancelledEvent string "string option"
  | ApprovalRequest string "approval_choice list"
  | ToolEvent tool_event string tool_call

definition terminal_event :: "run_event \<Rightarrow> bool" where
  "terminal_event e =
     (case e of RunCompletedEvent _ _ \<Rightarrow> True | RunFailedEvent _ _ _ \<Rightarrow> True | RunCancelledEvent _ _ \<Rightarrow> True
      | _ \<Rightarrow> False)"

text \<open>A control-plane event names its operation first.\<close>

datatype control_event =
    OpStarted string | OpUpdated string jv | ControlDelta string string | ReasoningDelta string string
  | ToolStarted string string string | ToolProgress string string jv | ToolDone string string jv
  | ApprovalRequested string string jv | ApprovalResolved string string bool | UsageUpdated string jv
  | StreamReconnected string | StreamGap string string
  | OpCompleted string | OpFailed string unknown | OpCancelled string | OpInterrupted string "string option"

definition control_terminal :: "control_event \<Rightarrow> bool" where
  "control_terminal e =
     (case e of OpCompleted _ \<Rightarrow> True | OpFailed _ _ \<Rightarrow> True | OpCancelled _ \<Rightarrow> True | OpInterrupted _ _ \<Rightarrow> True
      | _ \<Rightarrow> False)"

record inspection =
  in_valid :: bool
  in_terminalCount :: nat
  in_gaps :: nat

definition inspectRuntimeEventSequence :: "control_event list \<Rightarrow> inspection" where
  "inspectRuntimeEventSequence es =
     (let (t, g) = foldl (\<lambda>(t, g) e. (if control_terminal e then t + 1 else t,
              case e of StreamGap _ _ \<Rightarrow> g + 1 | _ \<Rightarrow> g)) (0, 0) es
      in \<lparr>in_valid = (t = 1), in_terminalCount = t, in_gaps = g\<rparr>)"

section \<open>The translator\<close>

definition choice_text :: "approval_choice \<Rightarrow> string" where
  "choice_text c =
     (case c of AOnce \<Rightarrow> ''once'' | ASession \<Rightarrow> ''session'' | AAlways \<Rightarrow> ''always'' | ADeny \<Rightarrow> ''deny'')"

definition FULL_APPROVAL_CHOICES :: "approval_choice list" where
  "FULL_APPROVAL_CHOICES = [AOnce, ASession, AAlways, ADeny]"

definition choice_of :: "jv \<Rightarrow> approval_choice option" where
  "choice_of v = (case v of JStr s \<Rightarrow> find (\<lambda>c. choice_text c = s) FULL_APPROVAL_CHOICES | _ \<Rightarrow> None)"

definition approvalChoices :: "jv \<Rightarrow> approval_choice list" where
  "approvalChoices request =
     (case get_prop request ''choices'' of
        JArr vs \<Rightarrow>
          (let filtered = concat (map (\<lambda>v. case choice_of v of Some c \<Rightarrow> [c] | None \<Rightarrow> []) vs) in
           if filtered \<noteq> [] then filtered else FULL_APPROVAL_CHOICES)
      | _ \<Rightarrow> FULL_APPROVAL_CHOICES)"

definition errorMessage :: "unknown \<Rightarrow> string" where
  "errorMessage e =
     (case e of
        UErr x \<Rightarrow> e_message x
      | UVal v \<Rightarrow>
          (case get_prop v ''message'' of
             JStr m \<Rightarrow> m
           | _ \<Rightarrow> js_string (coalesce v (JStr ''run failed''))))"

definition stringifyToolResult :: "jv \<Rightarrow> string" where
  "stringifyToolResult v = (case json_stringify v of Some t \<Rightarrow> t | None \<Rightarrow> js_string v)"

record translator =
  tr_names :: "(string, string) omap"
  tr_usage :: "jv option"

definition translator_new :: translator where
  "translator_new = \<lparr>tr_names = [], tr_usage = None\<rparr>"

fun translate :: "translator \<Rightarrow> control_event \<Rightarrow> translator \<times> run_event option" where
  "translate tr (ControlDelta r d) = (tr, Some (MessageDelta r d))"
| "translate tr (UsageUpdated r u) = (tr\<lparr>tr_usage := Some u\<rparr>, None)"
| "translate tr (OpCompleted r) = (tr, Some (RunCompletedEvent r (tr_usage tr)))"
| "translate tr (OpFailed r e) = (tr, Some (RunFailedEvent r (errorMessage e) None))"
| "translate tr (OpCancelled r) = (tr, Some (RunCancelledEvent r None))"
| "translate tr (OpInterrupted r reason) = (tr, Some (RunCancelledEvent r reason))"
| "translate tr (ToolStarted r i n) =
     (tr\<lparr>tr_names := om_set i n (tr_names tr)\<rparr>,
      Some (ToolEvent ToolCallStarted r \<lparr>tl_id = i, tl_name = n, tl_status = ToolRunning, tl_output = None\<rparr>))"
| "translate tr (ToolDone r i v) =
     (tr, Some (ToolEvent ToolCallCompleted r
        \<lparr>tl_id = i, tl_name = or_else (om_get (tr_names tr) i) ''tool'', tl_status = ToolCompleted,
         tl_output = (if v = JUndef then None else Some (stringifyToolResult v))\<rparr>))"
| "translate tr (ApprovalRequested r a v) = (tr, Some (ApprovalRequest r (approvalChoices v)))"
| "translate tr _ = (tr, None)"

section \<open>The bridge\<close>

text \<open>What the bridge calls on the consumer.\<close>

datatype bridge_out = OutEvent run_event | OutError unknown | OutComplete

datatype bridge_phase = BridgeStarting | BridgeStreaming | BridgeOver

record bridge =
  br_phase :: bridge_phase
  br_started :: bool
  br_settled :: bool
  br_completeFired :: bool
  br_landed :: bool
  br_disposed :: bool
  br_aborted :: bool
  br_result :: "(unknown + unit) option"
  br_out :: "bridge_out list"
  br_ids :: "jv list"

text \<open>A promise settles once.\<close>

definition bridge_settle :: "unknown + unit \<Rightarrow> bridge \<Rightarrow> bridge" where
  "bridge_settle r st =
     (case br_result st of Some _ \<Rightarrow> st | None \<Rightarrow> st\<lparr>br_result := Some r, br_phase := BridgeOver\<rparr>)"

text \<open>\<open>finish(error?)\<close>: disposes the subscription, if it is there yet. An absent error is \<open>None\<close>, and
  an error that is \<open>undefined\<close> counts as absent.\<close>

definition bridge_finish :: "unknown option \<Rightarrow> bridge \<Rightarrow> bridge" where
  "bridge_finish e st =
     (if br_settled st then st
      else
        bridge_settle
          (case e of Some x \<Rightarrow> if x = UVal JUndef then Inr () else Inl (UErr (toError x ''Unknown error''))
                   | None \<Rightarrow> Inr ())
          (st\<lparr>br_settled := True, br_disposed := (br_disposed st \<or> br_landed st)\<rparr>))"

text \<open>\<open>fireComplete\<close>; the flag is false when the consumer's \<open>onComplete\<close> throws.\<close>

definition fireComplete :: "bridge \<Rightarrow> bridge" where
  "fireComplete st =
     (if br_settled st \<or> br_completeFired st then st
      else st\<lparr>br_completeFired := True, br_out := br_out st @ [OutComplete]\<rparr>)"

definition complete_calls :: "bridge \<Rightarrow> bool" where
  "complete_calls st = (\<not> br_settled st \<and> \<not> br_completeFired st)"

text \<open>The call up to its first \<open>await\<close>.\<close>

definition bridge_call :: "bool \<Rightarrow> unknown option \<Rightarrow> bridge" where
  "bridge_call aborted invalid =
     (let st = \<lparr>br_phase = BridgeStarting, br_started = False, br_settled = False, br_completeFired = False,
                br_landed = False, br_disposed = False, br_aborted = aborted, br_result = None, br_out = [],
                br_ids = []\<rparr> in
      if aborted then bridge_settle (Inr ()) st
      else (case invalid of
              Some e \<Rightarrow> bridge_settle (Inl e) st
            | None \<Rightarrow> st\<lparr>br_started := True\<rparr>))"

text \<open>\<open>startRun\<close> has settled. \<open>thrown\<close>: what \<open>onRunId\<close> or \<open>createProvider\<close> throws.\<close>

definition bridge_run_started :: "unknown + jv \<Rightarrow> unknown option \<Rightarrow> bridge \<Rightarrow> bridge" where
  "bridge_run_started r thrown st =
     (if br_phase st \<noteq> BridgeStarting then st
      else
        (case r of
           Inl e \<Rightarrow> bridge_settle (Inl e) st
         | Inr status \<Rightarrow>
             let st1 = st\<lparr>br_ids := br_ids st @ [get_prop status ''run_id'']\<rparr> in
             (case thrown of
                Some e \<Rightarrow> bridge_settle (Inl e) st1
              | None \<Rightarrow>
                  let st2 = st1\<lparr>br_phase := BridgeStreaming\<rparr> in
                  if br_aborted st then bridge_finish None st2 else st2)))"

text \<open>The provider has been subscribed to.\<close>

definition streaming :: "bridge \<Rightarrow> bool" where
  "streaming st = (br_phase st = BridgeStreaming \<or> br_settled st)"

definition bridge_abort :: "bridge \<Rightarrow> bridge" where
  "bridge_abort st =
     (if br_aborted st then st
      else
        let st1 = st\<lparr>br_aborted := True\<rparr> in
        if br_phase st = BridgeStreaming then bridge_finish None st1 else st1)"

definition bridge_subscribed :: "unknown + unit \<Rightarrow> bridge \<Rightarrow> bridge" where
  "bridge_subscribed r st =
     (if br_landed st then st
      else
        (case r of
           Inl e \<Rightarrow> bridge_finish (Some e) st
         | Inr _ \<Rightarrow> st\<lparr>br_landed := True, br_disposed := br_settled st\<rparr>))"

definition bridge_end :: "bool \<Rightarrow> bridge \<Rightarrow> bridge" where
  "bridge_end complete_throws st =
     (if complete_calls st \<and> complete_throws then fireComplete st else bridge_finish None (fireComplete st))"

definition bridge_event :: "run_event \<Rightarrow> bool \<Rightarrow> bool \<Rightarrow> bridge \<Rightarrow> bridge" where
  "bridge_event e throws complete_throws st =
     (if br_settled st then st
      else
        let st1 = st\<lparr>br_out := br_out st @ [OutEvent e]\<rparr> in
        if throws \<or> \<not> terminal_event e then st1 else bridge_end complete_throws st1)"

definition stream_transport_error :: unknown where
  "stream_transport_error =
     UErr (api_error ''stream transport error'' (Some TTransport) (Some TransportUnavailable) None)"

definition nullish_error :: "unknown \<Rightarrow> bool" where
  "nullish_error e = (e = UVal JUndef \<or> e = UVal JNull)"

text \<open>\<open>marked\<close>: the error was tagged as not terminal.\<close>

definition bridge_error :: "unknown \<Rightarrow> bool \<Rightarrow> bool \<Rightarrow> bridge \<Rightarrow> bridge" where
  "bridge_error e marked throws st =
     (if br_settled st then st
      else
        let st1 = st\<lparr>br_out := br_out st @ [OutError e]\<rparr> in
        if throws \<or> marked then st1
        else bridge_finish (Some (if nullish_error e then stream_transport_error else e)) st1)"

datatype bridge_input =
    BrStarted "unknown + jv" "unknown option"
  | BrAbort
  | BrSubscribed "unknown + unit"
  | BrEvent run_event bool bool
  | BrError unknown bool bool
  | BrComplete bool

fun bridge_step :: "bridge \<Rightarrow> bridge_input \<Rightarrow> bridge" where
  "bridge_step st (BrStarted r t) = bridge_run_started r t st"
| "bridge_step st BrAbort = bridge_abort st"
| "bridge_step st (BrSubscribed r) = (if streaming st then bridge_subscribed r st else st)"
| "bridge_step st (BrEvent e t c) = (if streaming st then bridge_event e t c st else st)"
| "bridge_step st (BrError e m t) = (if streaming st then bridge_error e m t st else st)"
| "bridge_step st (BrComplete t) = (if streaming st then bridge_end t st else st)"

definition bridge_run :: "bool \<Rightarrow> unknown option \<Rightarrow> bridge_input list \<Rightarrow> bridge" where
  "bridge_run aborted invalid es = foldl bridge_step (bridge_call aborted invalid) es"

definition requireGatewaySessionKey :: "jv \<Rightarrow> unknown + jv" where
  "requireGatewaySessionKey body =
     (case coalesce (get_prop body ''sessionKey'') (coalesce (get_prop body ''session_key'')
             (coalesce (get_prop body ''session_id'') (JStr []))) of
        JStr s \<Rightarrow>
          if trim s = []
          then Inl (UErr (CapabilityCallRejected
                 ''Hermes streaming requires sessionKey (or session_key/session_id) on the run body'' (Some (num 400))))
          else Inr (JStr (trim s))
      | _ \<Rightarrow> Inl (UErr (JsError CTypeError ''trim is not a function'' [] None)))"

section \<open>The control-plane provider\<close>

text \<open>\<open>createRunEventStreamFromControlPlane\<close>: the event it hands on, if any, and whether it ends the stream.
  Errors are handed on marked as not terminal.\<close>

record adapter =
  ad_tr :: translator
  ad_completed :: bool

definition adapter_new :: adapter where
  "adapter_new = \<lparr>ad_tr = translator_new, ad_completed = False\<rparr>"

definition adapter_event :: "control_event \<Rightarrow> bool \<Rightarrow> adapter \<Rightarrow> adapter \<times> run_event option \<times> bool" where
  "adapter_event e throws ad =
     (if ad_completed ad then (ad, None, False)
      else
        (case translate (ad_tr ad) e of
           (tr, None) \<Rightarrow> (ad\<lparr>ad_tr := tr\<rparr>, None, False)
         | (tr, Some ev) \<Rightarrow>
             let ends = terminal_event ev \<and> \<not> throws in (ad\<lparr>ad_tr := tr, ad_completed := ends\<rparr>, Some ev, ends)))"

text \<open>The provider feeding the bridge, for a consumer that does not throw.\<close>

definition pump :: "adapter \<times> bridge \<Rightarrow> control_event \<Rightarrow> adapter \<times> bridge" where
  "pump s e =
     (case s of (ad, b) \<Rightarrow>
        (case adapter_event e False ad of
           (ad', None, _) \<Rightarrow> (ad', b)
         | (ad', Some ev, ends) \<Rightarrow>
             let b1 = bridge_step b (BrEvent ev False False) in
             (ad', if ends then bridge_step b1 (BrComplete False) else b1)))"

section \<open>Tracking\<close>

text \<open>Bridge calls are numbered; \<open>tk_aborted\<close> are the calls whose composed signal is aborted.\<close>

record tracker =
  tk_live :: "nat list"
  tk_disposed :: bool
  tk_calls :: nat
  tk_done :: "nat list"
  tk_aborted :: "nat list"

definition tracker_new :: tracker where
  "tracker_new = \<lparr>tk_live = [], tk_disposed = False, tk_calls = 0, tk_done = [], tk_aborted = []\<rparr>"

definition tracked_call :: "bool \<Rightarrow> tracker \<Rightarrow> tracker" where
  "tracked_call caller_aborted st =
     (let n = tk_calls st; st1 = st\<lparr>tk_calls := n + 1\<rparr>;
          st2 = (if tk_disposed st then st1 else st1\<lparr>tk_live := os_add n (tk_live st1)\<rparr>) in
      if tk_disposed st \<or> caller_aborted then st2\<lparr>tk_aborted := os_add n (tk_aborted st2)\<rparr> else st2)"

text \<open>The \<open>finally\<close>: the listeners are gone, so a settled call's signal no longer changes.\<close>

definition tracked_settled :: "nat \<Rightarrow> tracker \<Rightarrow> tracker" where
  "tracked_settled n st =
     (if n < tk_calls st then st\<lparr>tk_live := removeAll n (tk_live st), tk_done := os_add n (tk_done st)\<rparr> else st)"

definition tracked_caller_abort :: "nat \<Rightarrow> tracker \<Rightarrow> tracker" where
  "tracked_caller_abort n st =
     (if n < tk_calls st \<and> n \<notin> set (tk_done st) then st\<lparr>tk_aborted := os_add n (tk_aborted st)\<rparr> else st)"

definition disposeAll :: "tracker \<Rightarrow> tracker" where
  "disposeAll st =
     st\<lparr>tk_disposed := True, tk_aborted := fold os_add (tk_live st) (tk_aborted st), tk_live := []\<rparr>"

datatype tracker_event = TkCall bool | TkSettled nat | TkCallerAbort nat | TkDispose

fun tracker_step :: "tracker \<Rightarrow> tracker_event \<Rightarrow> tracker" where
  "tracker_step st (TkCall b) = tracked_call b st"
| "tracker_step st (TkSettled n) = tracked_settled n st"
| "tracker_step st (TkCallerAbort n) = tracked_caller_abort n st"
| "tracker_step st TkDispose = disposeAll st"

section \<open>The bridge's invariant\<close>

text \<open>Nothing was handed over after the end; the consumer's \<open>onComplete\<close> was called once at most.\<close>

definition completes :: "bridge_out list \<Rightarrow> nat" where
  "completes xs = length (filter (\<lambda>x. x = OutComplete) xs)"

definition bridge_inv :: "bridge \<Rightarrow> bool" where
  "bridge_inv st =
     (completes (br_out st) = (if br_completeFired st then 1 else 0)
      \<and> (br_settled st \<longrightarrow> br_result st \<noteq> None)
      \<and> (br_phase st = BridgeStreaming \<longrightarrow> \<not> br_settled st \<and> br_result st = None)
      \<and> (br_phase st = BridgeStarting \<longrightarrow> \<not> br_settled st \<and> br_result st = None \<and> \<not> br_landed st \<and> br_out st = [])
      \<and> (br_phase st = BridgeOver \<longrightarrow> br_result st \<noteq> None)
      \<and> (\<not> br_settled st \<longrightarrow> \<not> br_disposed st)
      \<and> (br_settled st \<longrightarrow> br_disposed st = br_landed st)
      \<and> (br_landed st \<longrightarrow> br_phase st = BridgeStreaming \<or> br_settled st)
      \<and> (\<not> br_started st \<longrightarrow> br_phase st = BridgeOver \<and> br_ids st = [] \<and> \<not> br_settled st \<and> \<not> br_landed st \<and> br_out st = [])
      \<and> (br_aborted st \<longrightarrow> br_phase st \<noteq> BridgeStreaming))"

lemma completes_snoc: "completes (xs @ [x]) = (if x = OutComplete then Suc (completes xs) else completes xs)"
  by (simp add: completes_def)

lemma inv_streaming:
  "bridge_inv st \<Longrightarrow> streaming st \<Longrightarrow> \<not> br_settled st \<Longrightarrow>
     br_phase st = BridgeStreaming \<and> br_result st = None \<and> \<not> br_disposed st \<and> br_started st \<and> \<not> br_aborted st"
  unfolding bridge_inv_def streaming_def by blast

lemma finish_inv:
  assumes "bridge_inv st" and "streaming st"
  shows "bridge_inv (bridge_finish e st)"
proof (cases "br_settled st")
  case False
  define r where "r = (case e of Some x \<Rightarrow> if x = UVal JUndef then Inr () else Inl (UErr (toError x ''Unknown error''))
                   | None \<Rightarrow> Inr ())"
  have "bridge_finish e st =
      st\<lparr>br_settled := True, br_disposed := (br_disposed st \<or> br_landed st), br_result := Some r, br_phase := BridgeOver\<rparr>"
    using False inv_streaming [OF assms False] by (simp add: bridge_finish_def bridge_settle_def r_def [symmetric])
  then show ?thesis using False inv_streaming [OF assms False] assms(1) by (simp add: bridge_inv_def)
qed (use assms in \<open>simp add: bridge_finish_def\<close>)

lemma fire_inv: "bridge_inv st \<Longrightarrow> streaming st \<Longrightarrow> bridge_inv (fireComplete st)"
proof (cases "br_settled st \<or> br_completeFired st")
  case False
  assume a: "bridge_inv st" "streaming st"
  from False have "\<not> br_settled st" by simp
  from inv_streaming [OF a this] False a(1) show ?thesis
    by (simp add: fireComplete_def bridge_inv_def completes_snoc)
qed (auto simp: fireComplete_def)

lemma fire_streaming: "streaming (fireComplete st) = streaming st"
  by (simp add: fireComplete_def streaming_def)

lemma out_inv:
  assumes "bridge_inv st" and "streaming st" and "\<not> br_settled st" and "x \<noteq> OutComplete"
  shows "bridge_inv (st\<lparr>br_out := br_out st @ [x]\<rparr>)"
  using assms(1,4) inv_streaming [OF assms(1-3)] by (simp add: bridge_inv_def completes_snoc)

lemma end_inv: "bridge_inv st \<Longrightarrow> streaming st \<Longrightarrow> bridge_inv (bridge_end t st)"
  by (simp add: bridge_end_def fire_inv finish_inv fire_streaming)

lemma event_inv:
  assumes "bridge_inv st" and "streaming st"
  shows "bridge_inv (bridge_event e t c st)"
proof (cases "br_settled st")
  case False
  have s: "streaming (st\<lparr>br_out := br_out st @ [OutEvent e]\<rparr>)" using assms(2) by (simp add: streaming_def)
  have o': "bridge_inv (st\<lparr>br_out := br_out st @ [OutEvent e]\<rparr>)" by (rule out_inv [OF assms False]) simp
  show ?thesis using False o' end_inv [OF o' s] by (simp add: bridge_event_def Let_def)
qed (use assms in \<open>simp add: bridge_event_def\<close>)

lemma error_inv:
  assumes "bridge_inv st" and "streaming st"
  shows "bridge_inv (bridge_error e m t st)"
proof (cases "br_settled st")
  case False
  have s: "streaming (st\<lparr>br_out := br_out st @ [OutError e]\<rparr>)" using assms(2) by (simp add: streaming_def)
  have o': "bridge_inv (st\<lparr>br_out := br_out st @ [OutError e]\<rparr>)" by (rule out_inv [OF assms False]) simp
  show ?thesis using False o' finish_inv [OF o' s] by (simp add: bridge_error_def Let_def)
qed (use assms in \<open>simp add: bridge_error_def\<close>)

lemma subscribed_inv:
  assumes "bridge_inv st" and "streaming st"
  shows "bridge_inv (bridge_subscribed r st)"
proof (cases r)
  case (Inl e)
  with assms finish_inv [OF assms] show ?thesis by (simp add: bridge_subscribed_def)
next
  case (Inr u)
  show ?thesis
  proof (cases "br_settled st")
    case True
    with assms Inr show ?thesis by (simp add: bridge_subscribed_def bridge_inv_def)
  next
    case False
    from inv_streaming [OF assms False] False assms(1) Inr show ?thesis
      by (simp add: bridge_subscribed_def bridge_inv_def)
  qed
qed

lemma abort_inv:
  assumes "bridge_inv st"
  shows "bridge_inv (bridge_abort st)"
proof -
  consider "br_aborted st" | "\<not> br_aborted st" "br_phase st = BridgeStreaming"
    | "\<not> br_aborted st" "br_phase st \<noteq> BridgeStreaming" by blast
  then show ?thesis
  proof cases
    case 2
    then have s: "\<not> br_settled st" "br_result st = None" "\<not> br_disposed st" "br_started st"
      using assms by (simp_all add: bridge_inv_def)
    then show ?thesis using 2 assms
      by (simp add: bridge_abort_def Let_def bridge_finish_def bridge_settle_def) (simp add: bridge_inv_def)
  next
    case 3
    then show ?thesis using assms by (simp add: bridge_abort_def Let_def) (simp add: bridge_inv_def)
  qed (use assms in \<open>simp add: bridge_abort_def\<close>)
qed

lemma run_started_inv:
  assumes "bridge_inv st"
  shows "bridge_inv (bridge_run_started r t st)"
proof (cases "br_phase st = BridgeStarting")
  case True
  then have s: "\<not> br_settled st" "br_result st = None" "\<not> br_landed st" "br_out st = []" "br_started st"
    "\<not> br_disposed st" "\<not> br_completeFired st"
    using assms by (auto simp: bridge_inv_def completes_def split: if_splits)
  show ?thesis
  proof (cases r)
    case (Inl e)
    with True s assms show ?thesis
      by (simp add: bridge_run_started_def bridge_settle_def) (simp add: bridge_inv_def)
  next
    case (Inr status)
    show ?thesis
    proof (cases t)
      case None
      with Inr True s assms show ?thesis
        by (cases "br_aborted st")
          (simp_all add: bridge_run_started_def bridge_finish_def bridge_settle_def Let_def bridge_inv_def)
    next
      case (Some e)
      with Inr True s assms show ?thesis
        by (simp add: bridge_run_started_def bridge_settle_def Let_def) (simp add: bridge_inv_def)
    qed
  qed
qed (use assms in \<open>simp add: bridge_run_started_def\<close>)

lemma bridge_call_inv: "bridge_inv (bridge_call aborted invalid)"
  by (auto simp: bridge_call_def bridge_settle_def Let_def bridge_inv_def completes_def split: option.split)

lemma bridge_step_inv: "bridge_inv st \<Longrightarrow> bridge_inv (bridge_step st e)"
  by (cases e) (simp_all add: run_started_inv abort_inv subscribed_inv event_inv error_inv end_inv)

lemma bridge_run_inv: "bridge_inv (bridge_run aborted invalid es)"
proof -
  have "bridge_inv st \<Longrightarrow> bridge_inv (foldl bridge_step st es)" for st
    by (induction es arbitrary: st) (simp_all add: bridge_step_inv)
  then show ?thesis unfolding bridge_run_def using bridge_call_inv by blast
qed

section \<open>Properties\<close>

lemma settled_step:
  assumes "bridge_inv st" and "br_settled st"
  shows "br_settled (bridge_step st e) \<and> br_out (bridge_step st e) = br_out st
    \<and> br_result (bridge_step st e) = br_result st"
proof -
  have "br_phase st \<noteq> BridgeStarting" "br_phase st \<noteq> BridgeStreaming" using assms by (auto simp: bridge_inv_def)
  then show ?thesis using assms(2)
    by (cases e) (auto simp: bridge_run_started_def bridge_abort_def bridge_finish_def bridge_subscribed_def
        bridge_event_def bridge_error_def bridge_end_def fireComplete_def complete_calls_def Let_def
        split: sum.split)
qed

lemma settled_run:
  "bridge_inv st \<Longrightarrow> br_settled st \<Longrightarrow> br_settled (foldl bridge_step st es)
     \<and> br_out (foldl bridge_step st es) = br_out st \<and> br_result (foldl bridge_step st es) = br_result st"
proof (induction es arbitrary: st)
  case (Cons e es)
  from settled_step [OF Cons.prems, of e] Cons.IH [OF bridge_step_inv [OF Cons.prems(1)], of e] show ?case by simp
qed simp

lemma bridge_run_append: "bridge_run a i (es @ fs) = foldl bridge_step (bridge_run a i es) fs"
  by (simp add: bridge_run_def)

lemma abort_ends: "br_phase (bridge_run aborted invalid (es @ [BrAbort])) \<noteq> BridgeStreaming"
proof -
  have "br_aborted (bridge_abort st)" for st
    by (simp add: bridge_abort_def bridge_finish_def bridge_settle_def Let_def split: option.split)
  then have "br_aborted (bridge_run aborted invalid (es @ [BrAbort]))" by (simp add: bridge_run_append)
  with bridge_run_inv [of aborted invalid "es @ [BrAbort]"] show ?thesis by (simp add: bridge_inv_def)
qed

text \<open>C6: A bridge ends once. Whatever the order of the run's start, aborts, the subscription, events,
  errors and completions, with handlers that may throw: the consumer's \<open>onComplete\<close> is called at most
  once; once the stream has settled nothing more is handed to the consumer and the outcome is final;
  a subscription that arrives is disposed of, at once or on settling; and an abort settles a stream
  immediately.\<close>

theorem bridge_settles_once:
  assumes "br_settled (bridge_run aborted invalid es)"
  shows "completes (br_out (bridge_run aborted invalid (es @ fs))) \<le> 1
    \<and> br_out (bridge_run aborted invalid (es @ fs)) = br_out (bridge_run aborted invalid es)
    \<and> br_result (bridge_run aborted invalid (es @ fs)) = br_result (bridge_run aborted invalid es)
    \<and> br_result (bridge_run aborted invalid es) \<noteq> None
    \<and> br_disposed (bridge_run aborted invalid (es @ fs)) = br_landed (bridge_run aborted invalid (es @ fs))
    \<and> br_phase (bridge_run aborted invalid (gs @ [BrAbort])) \<noteq> BridgeStreaming"
proof -
  have i: "bridge_inv (bridge_run aborted invalid gs)" for gs by (rule bridge_run_inv)
  from settled_run [OF i assms, of fs] have s: "br_settled (bridge_run aborted invalid (es @ fs))"
    "br_out (bridge_run aborted invalid (es @ fs)) = br_out (bridge_run aborted invalid es)"
    "br_result (bridge_run aborted invalid (es @ fs)) = br_result (bridge_run aborted invalid es)"
    by (simp_all add: bridge_run_append)
  have "completes (br_out st) \<le> 1" if "bridge_inv st" for st
    using that by (simp add: bridge_inv_def split: if_splits)
  moreover have "bridge_inv st \<Longrightarrow> br_settled st \<Longrightarrow> br_disposed st = br_landed st \<and> br_result st \<noteq> None" for st
    by (simp add: bridge_inv_def)
  ultimately show ?thesis using s i assms abort_ends by blast
qed

definition wit_stream :: "bridge_input list" where
  "wit_stream = [BrStarted (Inr (JObj [(''run_id'', JStr ''r'')])) None, BrSubscribed (Inr ()),
     BrEvent (RunCompletedEvent ''r'' None) False False]"

lemma wit_stream_settled: "br_settled (bridge_run False None wit_stream)"
  by (simp add: wit_stream_def bridge_run_def bridge_call_def bridge_settle_def Let_def bridge_run_started_def
      streaming_def bridge_subscribed_def bridge_event_def terminal_event_def bridge_end_def complete_calls_def
      fireComplete_def bridge_finish_def)

theorem bridge_settles_once_witness:
  "br_out (bridge_run False None (wit_stream @ [BrEvent (MessageDelta ''r'' ''x'') False False]))
     = br_out (bridge_run False None wit_stream)"
  using bridge_settles_once [OF wit_stream_settled] by blast

text \<open>What a consumer should see of a control-plane stream.\<close>

fun visible :: "translator \<Rightarrow> control_event list \<Rightarrow> run_event list" where
  "visible tr [] = []"
| "visible tr (e # es) =
     (case translate tr e of
        (tr', None) \<Rightarrow> visible tr' es
      | (tr', Some ev) \<Rightarrow> if control_terminal e then [ev] else ev # visible tr' es)"

lemma translate_terminal:
  "translate tr e = (tr', r) \<Longrightarrow> control_terminal e \<longleftrightarrow> (\<exists>ev. r = Some ev \<and> terminal_event ev)"
  by (cases e) (auto simp: control_terminal_def terminal_event_def)

lemma pump_completed:
  "ad_completed ad \<Longrightarrow> foldl pump (ad, b) es = (ad, b)"
  by (induction es) (simp_all add: pump_def adapter_event_def)

lemma pump_run:
  assumes "\<not> ad_completed ad" and "br_phase b = BridgeStreaming" and "\<not> br_settled b" and "\<not> br_completeFired b"
    and "br_landed b" and "br_result b = None"
  shows "br_out (snd (foldl pump (ad, b) es)) = br_out b @ map OutEvent (visible (ad_tr ad) es)
       @ (if \<exists>e \<in> set es. control_terminal e then [OutComplete] else [])
    \<and> br_result (snd (foldl pump (ad, b) es)) = (if \<exists>e \<in> set es. control_terminal e then Some (Inr ()) else None)
    \<and> br_settled (snd (foldl pump (ad, b) es)) = (\<exists>e \<in> set es. control_terminal e)"
  using assms
proof (induction es arbitrary: ad b)
  case (Cons e es)
  obtain tr r where t: "translate (ad_tr ad) e = (tr, r)" by fastforce
  show ?case
  proof (cases r)
    case None
    then have c: "\<not> control_terminal e" using translate_terminal [OF t] by simp
    have p: "pump (ad, b) e = (ad\<lparr>ad_tr := tr\<rparr>, b)"
      using Cons.prems(1) t None by (simp add: pump_def adapter_event_def)
    from Cons.IH [of "ad\<lparr>ad_tr := tr\<rparr>" b] Cons.prems c t None show ?thesis by (simp add: p)
  next
    case (Some ev)
    let ?b = "b\<lparr>br_out := br_out b @ [OutEvent ev]\<rparr>"
    show ?thesis
    proof (cases "control_terminal e")
      case False
      then have v: "\<not> terminal_event ev" using translate_terminal [OF t] Some by simp
      have p: "pump (ad, b) e = (ad\<lparr>ad_tr := tr, ad_completed := False\<rparr>, ?b)"
        using Cons.prems t Some v
        by (simp add: pump_def adapter_event_def Let_def streaming_def bridge_event_def)
      from Cons.IH [of "ad\<lparr>ad_tr := tr, ad_completed := False\<rparr>" ?b] Cons.prems False t Some show ?thesis
        by (simp add: p)
    next
      case True
      then have v: "terminal_event ev" using translate_terminal [OF t] Some by simp
      have p: "pump (ad, b) e = (ad\<lparr>ad_tr := tr, ad_completed := True\<rparr>,
          ?b\<lparr>br_completeFired := True, br_out := br_out ?b @ [OutComplete], br_settled := True,
             br_disposed := True, br_result := Some (Inr ()), br_phase := BridgeOver\<rparr>)"
        using Cons.prems t Some v
        by (simp add: pump_def adapter_event_def Let_def streaming_def bridge_event_def bridge_end_def
            complete_calls_def fireComplete_def bridge_finish_def bridge_settle_def)
      from True t Some show ?thesis by (simp add: p pump_completed)
    qed
  qed
qed simp

text \<open>C1: A control-plane run streams through. Once a run has started and its stream is subscribed to,
  any sequence of control-plane events reaches a consumer that does not throw as exactly the
  translations of the events up to and including the first terminal one, in order, with one
  \<open>onComplete\<close> right after it; the stream's promise is fulfilled then, and not before.\<close>

theorem gateway_stream_end_to_end:
  "let start = bridge_run False None [BrStarted (Inr status) None, BrSubscribed (Inr ())];
       final = snd (foldl pump (adapter_new, start) es);
       ended = (\<exists>e \<in> set es. control_terminal e)
   in br_out final = map OutEvent (visible translator_new es) @ (if ended then [OutComplete] else [])
      \<and> br_result final = (if ended then Some (Inr ()) else None)"
proof -
  define start where "start = bridge_run False None [BrStarted (Inr status) None, BrSubscribed (Inr ())]"
  have "br_phase start = BridgeStreaming" "\<not> br_settled start" "\<not> br_completeFired start" "br_landed start"
    "br_result start = None" "br_out start = []"
    by (simp_all add: start_def bridge_run_def bridge_call_def Let_def bridge_run_started_def streaming_def
        bridge_subscribed_def)
  with pump_run [of adapter_new start es] show ?thesis
    unfolding start_def [symmetric] Let_def by (simp add: adapter_new_def)
qed

definition tracker_inv :: "tracker \<Rightarrow> bool" where
  "tracker_inv st =
     (set (tk_live st) \<subseteq> {..<tk_calls st} - set (tk_done st)
      \<and> {..<tk_calls st} - set (tk_done st) \<subseteq> set (tk_live st) \<union> set (tk_aborted st)
      \<and> (tk_disposed st \<longrightarrow> tk_live st = []) \<and> set (tk_done st) \<subseteq> {..<tk_calls st})"

lemma set_fold_os_add: "set (fold os_add xs ys) = set xs \<union> set ys"
  by (induction xs arbitrary: ys) auto

lemma tracker_step_inv:
  assumes "tracker_inv st"
  shows "tracker_inv (tracker_step st e)"
proof (cases e)
  case (TkCall b)
  have "{..<Suc k} = insert k {..<k}" for k :: nat by auto
  with assms TkCall show ?thesis
    by (cases "tk_disposed st"; cases b) (auto simp: tracker_inv_def tracked_call_def Let_def)
next
  case (TkSettled n)
  with assms show ?thesis by (auto simp: tracker_inv_def tracked_settled_def)
next
  case (TkCallerAbort n)
  with assms show ?thesis by (auto simp: tracker_inv_def tracked_caller_abort_def)
next
  case TkDispose
  with assms show ?thesis by (auto simp: tracker_inv_def disposeAll_def set_fold_os_add)
qed

lemma tracker_run_inv: "tracker_inv st \<Longrightarrow> tracker_inv (foldl tracker_step st es)"
  by (induction es arbitrary: st) (simp_all add: tracker_step_inv)

lemma disposed_kept: "tk_disposed st \<Longrightarrow> tk_disposed (foldl tracker_step st es)"
proof (induction es arbitrary: st)
  case (Cons e es)
  then have "tk_disposed (tracker_step st e)"
    by (cases e) (simp_all add: tracked_call_def tracked_settled_def tracked_caller_abort_def disposeAll_def Let_def)
  with Cons.IH show ?case by simp
qed simp

text \<open>Disposing a client settles its streams. Once the tracker is disposed of, the signal of every
  bridge call that has not settled is aborted, of calls made before as of calls made later; a call made
  on an aborted signal starts no run and is over at once; and an abort ends a stream that is running.\<close>

theorem dispose_settles_streams:
  "let st = foldl tracker_step tracker_new (es @ TkDispose # fs) in
   {..<tk_calls st} - set (tk_done st) \<subseteq> set (tk_aborted st)
   \<and> br_started (bridge_run True invalid is) = False \<and> br_result (bridge_run True invalid is) = Some (Inr ())
   \<and> br_phase (bridge_run a invalid (is @ [BrAbort])) \<noteq> BridgeStreaming"
proof -
  define st where "st = foldl tracker_step tracker_new (es @ TkDispose # fs)"
  have "tracker_inv tracker_new" by (simp add: tracker_inv_def tracker_new_def)
  then have "tracker_inv st" unfolding st_def by (rule tracker_run_inv)
  moreover have "tk_disposed st"
    unfolding st_def using disposed_kept [of "disposeAll (foldl tracker_step tracker_new es)" fs]
    by (simp add: disposeAll_def)
  ultimately have t: "{..<tk_calls st} - set (tk_done st) \<subseteq> set (tk_aborted st)" by (auto simp: tracker_inv_def)
  have o': "br_phase b = BridgeOver \<and> \<not> br_settled b \<and> \<not> br_started b \<and> br_aborted b \<and> br_result b = Some r \<Longrightarrow>
      foldl bridge_step b gs = b" for b r gs
  proof (induction gs arbitrary: b)
    case (Cons g gs)
    then have "bridge_step b g = b"
      by (cases g) (simp_all add: bridge_run_started_def bridge_abort_def streaming_def)
    with Cons show ?case by simp
  qed simp
  have "foldl bridge_step (bridge_call True invalid) is = bridge_call True invalid"
    by (rule o') (simp add: bridge_call_def Let_def bridge_settle_def)
  then have n: "br_started (bridge_run True invalid is) = False \<and> br_result (bridge_run True invalid is) = Some (Inr ())"
    by (simp add: bridge_run_def bridge_call_def Let_def bridge_settle_def)
  from t n abort_ends show ?thesis unfolding st_def Let_def by blast
qed

text \<open>A failed subscription can look like success. When the provider's \<open>subscribe\<close> rejects with
  \<open>undefined\<close>, the bridge fulfils its promise, without an event or an error.\<close>

theorem subscribe_undefined_resolves:
  "let st = bridge_run False None [BrStarted (Inr status) None, BrSubscribed (Inl (UVal JUndef))]
   in br_result st = Some (Inr ()) \<and> br_out st = []"
  by (simp add: bridge_run_def bridge_call_def Let_def bridge_run_started_def streaming_def bridge_subscribed_def
      bridge_finish_def bridge_settle_def)

end
