(* ===== verification/CapabilityClient.thy ===== *)
theory CapabilityClient
  imports RunStream
begin

text \<open>
  The application facade: \<open>src/contracts/capability-client.ts\<close>, with the taxonomy of
  \<open>src/core/runtime/capability-taxonomy.ts\<close> and the merge of \<open>src/contracts/capability-source.ts\<close>.
  The memoised promises (the capability resolution, and the lazily made backends) are state machines
  over numbered attempts; a call is the function of what its awaits gave. A promise that is awaited is
  its outcome; backends, the runtime and the resolver are the environment.
\<close>

section \<open>Capabilities\<close>

datatype CapabilityKey =
    KRuns | KStreaming | KBatch | KSessions | KTasks | KEvents | KModels | KUsage | KAuthStatus
  | KKanban | KTeams | KWorkspace | KOperator | KDiscourse | KMedia | KWiki | KAgentConfig

definition CAPABILITY_TAXONOMY :: "CapabilityKey list" where
  "CAPABILITY_TAXONOMY =
     [KRuns, KStreaming, KBatch, KSessions, KTasks, KEvents, KModels, KUsage, KAuthStatus, KKanban, KTeams,
      KWorkspace, KOperator, KDiscourse, KMedia, KWiki, KAgentConfig]"

definition key_text :: "CapabilityKey \<Rightarrow> string" where
  "key_text k =
     (case k of KRuns \<Rightarrow> ''runs'' | KStreaming \<Rightarrow> ''streaming'' | KBatch \<Rightarrow> ''batch'' | KSessions \<Rightarrow> ''sessions''
      | KTasks \<Rightarrow> ''tasks'' | KEvents \<Rightarrow> ''events'' | KModels \<Rightarrow> ''models'' | KUsage \<Rightarrow> ''usage''
      | KAuthStatus \<Rightarrow> ''authStatus'' | KKanban \<Rightarrow> ''kanban'' | KTeams \<Rightarrow> ''teams'' | KWorkspace \<Rightarrow> ''workspace''
      | KOperator \<Rightarrow> ''operator'' | KDiscourse \<Rightarrow> ''discourse'' | KMedia \<Rightarrow> ''media'' | KWiki \<Rightarrow> ''wiki''
      | KAgentConfig \<Rightarrow> ''agentConfig'')"

definition CAPABILITY_GROUPS :: "(string \<times> CapabilityKey list) list" where
  "CAPABILITY_GROUPS =
     [(''execution'', [KRuns, KStreaming, KBatch]), (''lifecycle'', [KSessions, KTasks, KEvents]),
      (''introspection'', [KModels, KUsage, KAuthStatus]),
      (''domain'', [KKanban, KTeams, KWorkspace, KOperator, KDiscourse, KMedia, KWiki, KAgentConfig])]"

text \<open>A declared support: a member may be present and \<open>undefined\<close>.\<close>

type_synonym support = "(CapabilityKey, bool option) omap"

definition supported :: "support \<Rightarrow> CapabilityKey \<Rightarrow> bool" where
  "supported m k = (om_get m k = Some (Some True))"

definition isCapabilityKey :: "string \<Rightarrow> bool" where
  "isCapabilityKey s = (s \<in> set (map key_text CAPABILITY_TAXONOMY))"

definition mergeCapabilitySupport :: "support \<Rightarrow> support \<Rightarrow> support" where
  "mergeCapabilitySupport fallback runtime =
     foldl (\<lambda>m (k, v). case v of Some b \<Rightarrow> om_set k (Some b) m | None \<Rightarrow> m) fallback runtime"

definition resolvedSupports :: "support \<Rightarrow> support option \<Rightarrow> CapabilityKey \<Rightarrow> bool" where
  "resolvedSupports fallback runtime k =
     supported (case runtime of Some r \<Rightarrow> mergeCapabilitySupport fallback r | None \<Rightarrow> fallback) k"

section \<open>Resolving capabilities\<close>

record resolved =
  rv_supports :: support
  rv_manifest :: jv

text \<open>\<open>cc_outcomes\<close>: the attempts' promises, after the handlers \<open>ensureResolved\<close> attaches.\<close>

record resolution =
  cc_resolved :: "resolved option"
  cc_attempt :: "nat option"
  cc_count :: nat
  cc_outcomes :: "(nat, unknown + unit) omap"

definition resolution_new :: resolution where
  "resolution_new = \<lparr>cc_resolved = None, cc_attempt = None, cc_count = 0, cc_outcomes = []\<rparr>"

text \<open>With a resolver: the attempt the caller awaits.\<close>

definition ensureResolved :: "resolution \<Rightarrow> resolution \<times> nat" where
  "ensureResolved st =
     (case cc_attempt st of
        Some n \<Rightarrow> (st, n)
      | None \<Rightarrow> (st\<lparr>cc_attempt := Some (cc_count st), cc_count := cc_count st + 1\<rparr>, cc_count st))"

definition resolver_settled :: "nat \<Rightarrow> unknown + resolved \<Rightarrow> resolution \<Rightarrow> resolution" where
  "resolver_settled n r st =
     (if n \<ge> cc_count st \<or> om_has (cc_outcomes st) n then st
      else
        (case r of
           Inr v \<Rightarrow> st\<lparr>cc_resolved := Some v, cc_outcomes := om_set n (Inr ()) (cc_outcomes st)\<rparr>
         | Inl e \<Rightarrow>
             if isAuthError e then st\<lparr>cc_outcomes := om_set n (Inl e) (cc_outcomes st)\<rparr>
             else st\<lparr>cc_resolved := None, cc_outcomes := om_set n (Inr ()) (cc_outcomes st)\<rparr>))"

definition refreshCapabilities :: "resolution \<Rightarrow> resolution" where
  "refreshCapabilities st = fst (ensureResolved (st\<lparr>cc_attempt := None, cc_resolved := None\<rparr>))"

datatype resolution_event = CcEnsure | CcSettled nat "unknown + resolved" | CcRefresh

fun resolution_step :: "resolution \<Rightarrow> resolution_event \<Rightarrow> resolution" where
  "resolution_step st CcEnsure = fst (ensureResolved st)"
| "resolution_step st (CcSettled n r) = resolver_settled n r st"
| "resolution_step st CcRefresh = refreshCapabilities st"

definition currentSupports :: "support \<Rightarrow> resolution \<Rightarrow> support" where
  "currentSupports fallback st =
     (case cc_resolved st of Some v \<Rightarrow> mergeCapabilitySupport fallback (rv_supports v) | None \<Rightarrow> fallback)"

definition getManifest :: "resolution \<Rightarrow> jv" where
  "getManifest st = (case cc_resolved st of Some v \<Rightarrow> coalesce (rv_manifest v) JNull | None \<Rightarrow> JNull)"

section \<open>Gaps\<close>

definition yes_no :: "bool \<Rightarrow> string" where
  "yes_no b = (if b then ''true'' else ''false'')"

definition declaredDetail :: "support \<Rightarrow> resolution \<Rightarrow> CapabilityKey \<Rightarrow> string" where
  "declaredDetail fallback st k =
     (case Option.bind (cc_resolved st) (\<lambda>v. Option.bind (om_get (rv_supports v) k) id) of
        Some b \<Rightarrow> ''runtime capabilities report '' @ key_text k @ '' = '' @ yes_no b
      | None \<Rightarrow>
          (case Option.bind (om_get fallback k) id of
             Some b \<Rightarrow> ''static declaration has '' @ key_text k @ '' = '' @ yes_no b
           | None \<Rightarrow> ''capability '' @ [char_of (34::nat)] @ key_text k @ [char_of (34::nat)] @ '' is not declared''))"

definition dquote :: "string \<Rightarrow> string" where
  "dquote s = char_of (34::nat) # s @ [char_of (34::nat)]"

record facade =
  fa_kind :: string
  fa_fallback :: support
  fa_availableOn :: "CapabilityKey \<Rightarrow> string list"

definition not_supported :: "facade \<Rightarrow> CapabilityKey \<Rightarrow> string" where
  "not_supported f k =
     ''provider '' @ dquote (fa_kind f) @ '' does not support capability '' @ dquote (key_text k) @ ''.''"

definition cannot_serve :: "facade \<Rightarrow> CapabilityKey \<Rightarrow> string" where
  "cannot_serve f k =
     ''provider '' @ dquote (fa_kind f) @ '' cannot serve capability '' @ dquote (key_text k) @ '' here.''"

definition newline :: string where
  "newline = [char_of (10::nat)]"

definition unsupportedGap :: "facade \<Rightarrow> CapabilityKey \<Rightarrow> string \<Rightarrow> string \<Rightarrow> string \<Rightarrow> ContractGap" where
  "unsupportedGap f k call detail headline =
     (let on = fa_availableOn f k;
          note = join_with newline
            ([headline, ''  declared support : '' @ detail]
             @ (if on \<noteq> [] then [''  available on     : '' @ join_with '', '' on] else [])
             @ [''  call             : '' @ call])
      in fallbackGap (''capability:'' @ key_text k) call note (Some GapCapabilityUnsupported) None)"

text \<open>\<open>gapFor\<close> once the resolution it awaits has settled.\<close>

definition gapFor :: "facade \<Rightarrow> resolution \<Rightarrow> CapabilityKey \<Rightarrow> string \<Rightarrow> ContractGap option" where
  "gapFor f st k call =
     (if supported (currentSupports (fa_fallback f) st) k then None
      else Some (unsupportedGap f k call (declaredDetail (fa_fallback f) st k) (not_supported f k)))"

section \<open>Calls\<close>

text \<open>\<open>execute\<close>: \<open>gate\<close> is the outcome of the awaited resolution, \<open>run\<close> the outcome of the runtime's
  method, if it has one.\<close>

definition execute ::
  "facade \<Rightarrow> resolution \<Rightarrow> unknown + unit \<Rightarrow> CapabilityKey \<Rightarrow> string \<Rightarrow> (unknown + 'a) option
     \<Rightarrow> unknown + 'a CapabilityResult" where
  "execute f st gate k call run =
     (case gate of
        Inl e \<Rightarrow> Inl e
      | Inr _ \<Rightarrow>
          (case gapFor f st k call of
             Some g \<Rightarrow> Inr (GapResult g)
           | None \<Rightarrow>
               (case run of
                  None \<Rightarrow> Inr (GapResult (unsupportedGap f k call
                    (''runtime client for '' @ dquote (fa_kind f) @ '' does not implement '' @ call) (cannot_serve f k)))
                | Some out \<Rightarrow> shaped (''capability:'' @ key_text k) call out)))"

text \<open>A method of a gated surface: \<open>backend\<close> is absent when none is wired, and otherwise the outcome of
  its factory, with the outcome of the method if the backend has one.\<close>

definition invokeOnSurface ::
  "facade \<Rightarrow> CapabilityKey \<Rightarrow> string \<Rightarrow> (unknown + 'a) option \<Rightarrow> string \<Rightarrow> unknown + 'a CapabilityResult" where
  "invokeOnSurface f k call out missing =
     (case out of
        None \<Rightarrow> Inr (GapResult (unsupportedGap f k call missing (cannot_serve f k)))
      | Some r \<Rightarrow> shaped (''capability:'' @ key_text k) call r)"

definition gated_call ::
  "facade \<Rightarrow> resolution \<Rightarrow> unknown + unit \<Rightarrow> CapabilityKey \<Rightarrow> string \<Rightarrow> string \<Rightarrow> string
     \<Rightarrow> (unknown + (unknown + 'a) option) option \<Rightarrow> unknown + 'a CapabilityResult" where
  "gated_call f st gate k call unwired missing backend =
     (case gate of
        Inl e \<Rightarrow> Inl e
      | Inr _ \<Rightarrow>
          (case gapFor f st k call of
             Some g \<Rightarrow> Inr (GapResult g)
           | None \<Rightarrow>
               (case backend of
                  None \<Rightarrow> Inr (GapResult (unsupportedGap f k call unwired (not_supported f k)))
                | Some (Inl e) \<Rightarrow>
                    map_sum id GapResult (classifyCapabilityFailure e (''capability:'' @ key_text k) call call)
                | Some (Inr out) \<Rightarrow> invokeOnSurface f k call out missing)))"

definition gatedControlPlane ::
  "facade \<Rightarrow> resolution \<Rightarrow> unknown + unit \<Rightarrow> CapabilityKey \<Rightarrow> string
     \<Rightarrow> (unknown + (unknown + 'a) option) option \<Rightarrow> unknown + 'a CapabilityResult" where
  "gatedControlPlane f st gate k prop =
     gated_call f st gate k (''client.'' @ key_text k @ ''.'' @ prop @ ''()'')
       (''no control-plane backend is wired for '' @ dquote (fa_kind f)) (''backend does not implement '' @ prop)"

definition gatedKanban ::
  "facade \<Rightarrow> resolution \<Rightarrow> unknown + unit \<Rightarrow> bool \<Rightarrow> string
     \<Rightarrow> (unknown + (unknown + 'a) option) option \<Rightarrow> unknown + 'a CapabilityResult" where
  "gatedKanban f st gate viaExtended prop =
     gated_call f st gate KKanban
       (''client.kanban.'' @ (if viaExtended then ''extended.'' else []) @ prop @ ''()'')
       (''no kanban backend is wired for '' @ dquote (fa_kind f))
       (''backend does not implement '' @ (if viaExtended then ''extended '' else []) @ prop)"

definition gatedDirect ::
  "facade \<Rightarrow> resolution \<Rightarrow> unknown + unit \<Rightarrow> CapabilityKey \<Rightarrow> string
     \<Rightarrow> (unknown + (unknown + 'a) option) option \<Rightarrow> unknown + 'a CapabilityResult" where
  "gatedDirect f st gate k prop =
     gated_call f st gate k (''client.'' @ key_text k @ ''.'' @ prop @ ''()'')
       (''no '' @ key_text k @ '' backend is wired for '' @ dquote (fa_kind f)) (''backend does not implement '' @ prop)"

text \<open>The execution surface: capability, name of the call.\<close>

datatype execution_method = StartRun | GetRun | CancelRun | SubmitBatch | GetBatch | CancelBatch | GetBatchResults

definition method_key :: "execution_method \<Rightarrow> CapabilityKey" where
  "method_key m = (case m of StartRun \<Rightarrow> KRuns | GetRun \<Rightarrow> KRuns | CancelRun \<Rightarrow> KRuns | _ \<Rightarrow> KBatch)"

definition method_call :: "execution_method \<Rightarrow> string" where
  "method_call m =
     (case m of StartRun \<Rightarrow> ''client.startRun()'' | GetRun \<Rightarrow> ''client.getRun()''
      | CancelRun \<Rightarrow> ''client.cancelRun()'' | SubmitBatch \<Rightarrow> ''client.submitBatch()''
      | GetBatch \<Rightarrow> ''client.getBatch()'' | CancelBatch \<Rightarrow> ''client.cancelBatch()''
      | GetBatchResults \<Rightarrow> ''client.getBatchResults()'')"

text \<open>\<open>startRun\<close> is called without looking for it; the others are looked up first.\<close>

definition execution_call ::
  "facade \<Rightarrow> resolution \<Rightarrow> unknown + unit \<Rightarrow> execution_method \<Rightarrow> (unknown + 'a) option
     \<Rightarrow> unknown + 'a CapabilityResult" where
  "execution_call f st gate m run =
     execute f st gate (method_key m) (method_call m)
       (if m = StartRun \<and> run = None
        then Some (Inl (UErr (JsError CTypeError ''runtime.startRun is not a function'' [] None))) else run)"

section \<open>Memoised backends\<close>

text \<open>\<open>controlPlanePromise\<close>, \<open>kanbanPromise\<close> and \<open>backendPromise\<close>: the attempt that a call awaits, and the
  \<open>catch\<close> of a call whose attempt was rejected.\<close>

record backend_memo =
  mm_current :: "nat option"
  mm_count :: nat

definition memo_new :: backend_memo where
  "memo_new = \<lparr>mm_current = None, mm_count = 0\<rparr>"

definition memo_get :: "backend_memo \<Rightarrow> backend_memo \<times> nat" where
  "memo_get st =
     (case mm_current st of
        Some n \<Rightarrow> (st, n)
      | None \<Rightarrow> (st\<lparr>mm_current := Some (mm_count st), mm_count := mm_count st + 1\<rparr>, mm_count st))"

definition memo_caught :: "nat \<Rightarrow> backend_memo \<Rightarrow> backend_memo" where
  "memo_caught n st = (if mm_current st = Some n then st\<lparr>mm_current := None\<rparr> else st)"

datatype memo_event = MemoGet | MemoCaught nat

fun memo_step :: "backend_memo \<Rightarrow> memo_event \<Rightarrow> backend_memo" where
  "memo_step st MemoGet = fst (memo_get st)"
| "memo_step st (MemoCaught n) = memo_caught n st"

text \<open>\<open>dispose\<close>: \<open>plane\<close> is the control plane's promise, if one was made, and \<open>disposed\<close> what its own
  \<open>dispose\<close> gives; the result is \<open>onDispose\<close>'s, and whether the plane was disposed of.\<close>

definition facade_dispose :: "(unknown + unit) option \<Rightarrow> unknown + unit \<Rightarrow> (unknown + unit) \<times> bool" where
  "facade_dispose plane onDispose = (onDispose, plane = Some (Inr ()))"

text \<open>The teams backend made from the manifest, with the manifest each attempt read.\<close>

record teams_state =
  te_resolution :: resolution
  te_memo :: backend_memo
  te_read :: "(nat, jv) omap"

datatype teams_event = TeResolution resolution_event | TeMemo memo_event | TeRead nat

definition teams_step :: "teams_state \<Rightarrow> teams_event \<Rightarrow> teams_state" where
  "teams_step st e =
     (case e of
        TeResolution x \<Rightarrow> st\<lparr>te_resolution := resolution_step (te_resolution st) x\<rparr>
      | TeMemo x \<Rightarrow> st\<lparr>te_memo := memo_step (te_memo st) x\<rparr>
      | TeRead n \<Rightarrow>
          if om_has (te_read st) n then st
          else st\<lparr>te_read := om_set n (getManifest (te_resolution st)) (te_read st)\<rparr>)"

text \<open>The factory, with the manifest it read and the directory made of it.\<close>

definition teams_factory :: "jv \<Rightarrow> unknown + 'd \<Rightarrow> unknown + 'd" where
  "teams_factory manifest directory =
     (if \<not> truthy manifest
      then Inl (UErr (api_error ''teams manifest unavailable'' None (Some BackendUnavailable) None))
      else
        (case directory of
           Inl e \<Rightarrow> Inl (UErr (api_error (''teams manifest rejected: '' @ errorMessageOf e) None (Some BackendUnavailable) None))
         | Inr d \<Rightarrow> Inr d))"

section \<open>Streaming\<close>

datatype stream_end = EndCompleted | EndFailed | EndCancelled

record observation =
  ob_runId :: "string option"
  ob_outcome :: "stream_end option"
  ob_details :: "jv option"
  ob_lastError :: "unknown option"

definition observation_new :: observation where
  "observation_new = \<lparr>ob_runId = None, ob_outcome = None, ob_details = None, ob_lastError = None\<rparr>"

definition event_run_id :: "run_event \<Rightarrow> string" where
  "event_run_id e =
     (case e of MessageDelta r _ \<Rightarrow> r | RunCompletedEvent r _ \<Rightarrow> r | RunFailedEvent r _ _ \<Rightarrow> r
      | RunCancelledEvent r _ \<Rightarrow> r | ApprovalRequest r _ \<Rightarrow> r | ToolEvent _ r _ \<Rightarrow> r)"

definition observe_id :: "string \<Rightarrow> observation \<Rightarrow> observation" where
  "observe_id i ob = (if ob_runId ob = None \<and> i \<noteq> [] then ob\<lparr>ob_runId := Some i\<rparr> else ob)"

definition observe_event :: "run_event \<Rightarrow> observation \<Rightarrow> observation" where
  "observe_event e ob =
     (let ob1 = observe_id (event_run_id e) ob in
      case e of
        RunCompletedEvent _ _ \<Rightarrow> ob1\<lparr>ob_outcome := Some EndCompleted, ob_details := None\<rparr>
      | RunFailedEvent _ _ d \<Rightarrow> ob1\<lparr>ob_outcome := Some EndFailed, ob_details := d\<rparr>
      | RunCancelledEvent _ _ \<Rightarrow> ob1\<lparr>ob_outcome := Some EndCancelled, ob_details := None\<rparr>
      | _ \<Rightarrow> ob1)"

datatype observed = SeenEvent run_event | SeenError unknown bool | SeenRunId string

fun observe :: "observation \<Rightarrow> observed \<Rightarrow> observation" where
  "observe ob (SeenEvent e) = observe_event e ob"
| "observe ob (SeenError e marked) = (if marked then ob else ob\<lparr>ob_lastError := Some e\<rparr>)"
| "observe ob (SeenRunId i) = observe_id i ob"

record stream_outcome =
  so_runId :: "string option"
  so_outcome :: "stream_end option"
  so_details :: "jv option"

definition facadeAbortError :: "unknown \<Rightarrow> bool" where
  "facadeAbortError e = (err_prop e ''name'' = JStr ''AbortError'')"

definition stream_area :: string where
  "stream_area = ''capability:streaming''"

definition stream_name :: string where
  "stream_name = ''client.streamRun()''"

text \<open>The aborted gap, and the run it asks to cancel.\<close>

definition abortedGap :: "bool \<Rightarrow> observation \<Rightarrow> (unknown + stream_outcome CapabilityResult) \<times> string option" where
  "abortedGap can_cancel ob =
     (let cancelled = (if can_cancel then ob_runId ob else None);
          note = (case cancelled of
              Some i \<Rightarrow> ''cancel requested for run '' @ i
            | None \<Rightarrow> ''no cancel issued (run id unknown or cancelRun unsupported)'')
      in (Inr (GapResult (fallbackGap stream_area stream_name (stream_name @ '' aborted: '' @ note)
             (Some GapRequestAborted) None)), cancelled))"

definition streamRun ::
  "facade \<Rightarrow> resolution \<Rightarrow> unknown + unit \<Rightarrow> bool \<Rightarrow> observed list \<Rightarrow> unknown + unit \<Rightarrow> bool \<Rightarrow> bool
     \<Rightarrow> (unknown + stream_outcome CapabilityResult) \<times> string option" where
  "streamRun f st gate wired seen out aborted can_cancel =
     (case gate of
        Inl e \<Rightarrow> (Inl e, None)
      | Inr _ \<Rightarrow>
          (case gapFor f st KStreaming stream_name of
             Some g \<Rightarrow> (Inr (GapResult g), None)
           | None \<Rightarrow>
               if \<not> wired
               then (Inr (GapResult (unsupportedGap f KStreaming stream_name
                      (''runtime client for '' @ dquote (fa_kind f) @ '' does not implement '' @ stream_name)
                      (cannot_serve f KStreaming))), None)
               else
                 let ob = foldl observe observation_new seen;
                     failed = (\<lambda>e. (map_sum id GapResult
                        (classifyCapabilityFailure e stream_area stream_name stream_name), None)) in
                 (case out of
                    Inl e \<Rightarrow> if aborted \<or> facadeAbortError e then abortedGap can_cancel ob else failed e
                  | Inr _ \<Rightarrow>
                      if aborted then abortedGap can_cancel ob
                      else
                        (case (ob_outcome ob, ob_lastError ob) of
                           (None, Some e) \<Rightarrow> if facadeAbortError e then abortedGap can_cancel ob else failed e
                         | _ \<Rightarrow> (Inr (LiveResult \<lparr>so_runId = ob_runId ob, so_outcome = ob_outcome ob,
                                  so_details = Option.bind (ob_details ob) (\<lambda>d. if truthy d then Some d else None)\<rparr>),
                                None)))))"

section \<open>The taxonomy\<close>

text \<open>The vocabulary of capabilities is exact. Every capability stands once in the taxonomy and in
  exactly one group, distinct capabilities have distinct names, and a string is accepted as a
  capability key just when it is the name of one.\<close>

theorem taxonomy_exact:
  "distinct CAPABILITY_TAXONOMY \<and> k \<in> set CAPABILITY_TAXONOMY
   \<and> concat (map snd CAPABILITY_GROUPS) = CAPABILITY_TAXONOMY
   \<and> (key_text k = key_text k' \<longleftrightarrow> k = k') \<and> (isCapabilityKey s \<longleftrightarrow> s \<in> range key_text)"
proof -
  have all: "k \<in> set CAPABILITY_TAXONOMY" for k
    by (cases k) (simp_all add: CAPABILITY_TAXONOMY_def)
  have "isCapabilityKey s \<longleftrightarrow> s \<in> range key_text"
    using all by (auto simp: isCapabilityKey_def)
  moreover have "key_text k = key_text k' \<longleftrightarrow> k = k'"
    by (cases k; cases k'; simp add: key_text_def)
  ultimately show ?thesis
    using all [of k] by (simp add: CAPABILITY_TAXONOMY_def CAPABILITY_GROUPS_def)
qed

text \<open>The members of the runtime's answer decide, unless they are \<open>undefined\<close>.\<close>

lemma merge_get_ok:
  assumes "om_ok rt"
  shows "om_get (mergeCapabilitySupport fb rt) k
     = (case om_get rt k of Some (Some b) \<Rightarrow> Some (Some b) | _ \<Rightarrow> om_get fb k)"
  using assms
proof (induction rt rule: rev_induct)
  case (snoc x xs)
  obtain k' v where x: "x = (k', v)" by fastforce
  from snoc.prems have ok: "om_ok xs" and fresh: "k' \<notin> fst ` set xs" by (auto simp: om_ok_def x)
  have none: "map_of xs k' = None" using fresh by (metis map_of_eq_None_iff)
  show ?case
  proof (cases v)
    case None
    with snoc.IH [OF ok] none show ?thesis
      by (auto simp: mergeCapabilitySupport_def x map_add_def map_of_append split: option.splits)
  next
    case (Some b)
    with snoc.IH [OF ok] none show ?thesis
      by (auto simp: mergeCapabilitySupport_def om_get_set x)
        (auto simp: x map_add_def map_of_append split: option.splits)
  qed
qed (simp add: mergeCapabilitySupport_def)

text \<open>What a provider supports. A value the runtime reports decides, and only where it reports none
  does the static declaration count: so a capability is supported exactly when the runtime reports
  true, or reports nothing and the declaration has true. Anything else is unsupported.\<close>

theorem runtime_support_decides:
  assumes "om_ok rt"
  shows "(resolvedSupports fb (Some rt) k
     \<longleftrightarrow> om_get rt k = Some (Some True) \<or> om_get rt k \<notin> {Some (Some True), Some (Some False)} \<and> supported fb k)
    \<and> (resolvedSupports fb None k \<longleftrightarrow> om_get fb k = Some (Some True))"
  using merge_get_ok [OF assms, of fb k]
  by (auto simp: resolvedSupports_def supported_def split: option.splits)

theorem runtime_support_decides_witness:
  "\<not> resolvedSupports [(KMedia, Some True)] (Some [(KMedia, Some False), (KWiki, None)]) KMedia
   \<and> resolvedSupports [(KWiki, Some True)] (Some [(KMedia, Some False), (KWiki, None)]) KWiki"
  using runtime_support_decides [of "[(KMedia, Some False), (KWiki, None)]" "[(KMedia, Some True)]" KMedia]
    runtime_support_decides [of "[(KMedia, Some False), (KWiki, None)]" "[(KWiki, Some True)]" KWiki]
  by (simp add: om_ok_def supported_def)

section \<open>Calls\<close>

lemma unsupported_fields:
  "cg_area (unsupportedGap f k call d h) = ''capability:'' @ key_text k"
  "cg_contract (unsupportedGap f k call d h) = call"
  "cg_reason (unsupportedGap f k call d h) = Some GapCapabilityUnsupported"
  by (simp_all add: unsupportedGap_def fallbackGap_def Let_def)

lemma join_with_prefix: "prefix x (join_with s (x # xs))"
  by (cases xs) simp_all

lemma unsupported_headline: "prefix h (cg_note (unsupportedGap f k call d h))"
  by (simp add: unsupportedGap_def fallbackGap_def Let_def join_with_prefix)

text \<open>The failure of a backend as a call reports it.\<close>

definition reported :: "CapabilityKey \<Rightarrow> string \<Rightarrow> unknown \<Rightarrow> ContractGap \<Rightarrow> bool" where
  "reported k call e g =
     (\<not> rethrown e \<and> cg_area g = ''capability:'' @ key_text k \<and> cg_contract g = call
      \<and> (\<exists>r \<in> capability_reasons. cg_reason g = Some r))"

lemma classified_cases:
  "(\<exists>g. classifyCapabilityFailure e (''capability:'' @ key_text k) call call = Inr g \<and> reported k call e g)
   \<or> classifyCapabilityFailure e (''capability:'' @ key_text k) call call = Inl e \<and> rethrown e"
proof (cases "classifyCapabilityFailure e (''capability:'' @ key_text k) call call")
  case (Inl e')
  with capability_failure_split [of e "''capability:'' @ key_text k" call call] show ?thesis by simp
next
  case (Inr g)
  with capability_failure_split [of e "''capability:'' @ key_text k" call call] show ?thesis
    by (simp add: reported_def)
qed

lemma shaped_cases:
  "(case shaped (''capability:'' @ key_text k) call out of
      Inl e \<Rightarrow> out = Inl e \<and> rethrown e
    | Inr (LiveResult d) \<Rightarrow> out = Inr d
    | Inr (GapResult g) \<Rightarrow> \<exists>e. out = Inl e \<and> reported k call e g)"
proof (cases out)
  case (Inl e)
  with classified_cases [of e k call] show ?thesis by (auto simp: shaped_def)
qed (simp add: shaped_def)

text \<open>C2: What a call through the facade gives. It rejects only with the error of an authentication
  failure of the resolver, or with an error of the backend that is rethrown as it is. Live data is
  what the backend returned, and only for a capability that is currently supported. Every other
  outcome is a gap naming the capability and the call: \<open>capability-unsupported\<close> when it is not
  supported, no backend is wired or the backend lacks the method, and else the classified failure
  of the backend.\<close>

theorem facade_calls_classified:
  "case gated_call f st gate k call unwired missing backend of
     Inl e \<Rightarrow> gate = Inl e
       \<or> gate = Inr () \<and> supported (currentSupports (fa_fallback f) st) k \<and> rethrown e
         \<and> (backend = Some (Inl e) \<or> backend = Some (Inr (Some (Inl e))))
   | Inr (LiveResult d) \<Rightarrow>
       gate = Inr () \<and> supported (currentSupports (fa_fallback f) st) k \<and> backend = Some (Inr (Some (Inr d)))
   | Inr (GapResult g) \<Rightarrow>
       gate = Inr () \<and> cg_area g = ''capability:'' @ key_text k \<and> cg_contract g = call
       \<and> (if supported (currentSupports (fa_fallback f) st) k \<and> backend \<noteq> None \<and> backend \<noteq> Some (Inr None)
          then \<exists>e. (backend = Some (Inl e) \<or> backend = Some (Inr (Some (Inl e)))) \<and> reported k call e g
          else cg_reason g = Some GapCapabilityUnsupported)"
proof (cases gate)
  case (Inr u)
  show ?thesis
  proof (cases "supported (currentSupports (fa_fallback f) st) k")
    case False
    with Inr show ?thesis by (simp add: gated_call_def gapFor_def unsupported_fields)
  next
    case sup: True
    show ?thesis
    proof (cases backend)
      case None
      with Inr sup show ?thesis by (simp add: gated_call_def gapFor_def unsupported_fields)
    next
      case (Some b)
      show ?thesis
      proof (cases b)
        case (Inl e)
        from classified_cases [of e k call] Some Inl \<open>gate = Inr u\<close> sup show ?thesis
          by (auto simp: gated_call_def gapFor_def reported_def)
      next
        case b: (Inr out)
        from shaped_cases [where k = k and call = call and out = "the out"] Some b Inr sup show ?thesis
          by (cases out)
            (auto simp: gated_call_def gapFor_def invokeOnSurface_def unsupported_fields reported_def
              split: sum.splits CapabilityResult.splits)
      qed
    qed
  qed
qed (simp add: gated_call_def)

text \<open>The execution surface gives the same, as a surface without a lazily made backend.\<close>

lemma execute_as_gated:
  "execute f st gate k call run = gated_call f st gate k call unwired
     (''runtime client for '' @ dquote (fa_kind f) @ '' does not implement '' @ call) (Some (Inr run))"
  by (simp add: execute_def gated_call_def invokeOnSurface_def split: sum.split option.split)

section \<open>Resolution\<close>

fun is_refresh :: "resolution_event \<Rightarrow> bool" where
  "is_refresh CcRefresh = True"
| "is_refresh _ = False"

abbreviation resolution_run :: "resolution_event list \<Rightarrow> resolution" where
  "resolution_run es \<equiv> foldl resolution_step resolution_new es"

lemma resolution_calls: "cc_count (resolution_run es) \<le> 1 + length (filter is_refresh es)
    \<and> (cc_count (resolution_run es) \<noteq> 0 \<longrightarrow> cc_attempt (resolution_run es) \<noteq> None)"
proof (induction es rule: rev_induct)
  case (snoc e es)
  then show ?case
    by (cases e) (auto simp: ensureResolved_def resolver_settled_def refreshCapabilities_def
        split: option.splits sum.splits)
qed (simp add: resolution_new_def)

text \<open>What is remembered of the first attempt, while nothing refreshes.\<close>

definition first_attempt :: "resolution_event list \<Rightarrow> resolution \<Rightarrow> bool" where
  "first_attempt es st =
     (case om_get (cc_outcomes st) 0 of
        None \<Rightarrow> cc_resolved st = None
      | Some (Inl e) \<Rightarrow> isAuthError e \<and> CcSettled 0 (Inl e) \<in> set es \<and> cc_resolved st = None
      | Some (Inr _) \<Rightarrow>
          (case cc_resolved st of
             Some v \<Rightarrow> CcSettled 0 (Inr v) \<in> set es
           | None \<Rightarrow> \<exists>e. CcSettled 0 (Inl e) \<in> set es \<and> \<not> isAuthError e))"

lemma first_attempt_grows: "first_attempt es st \<Longrightarrow> first_attempt (es @ fs) st"
  by (auto simp: first_attempt_def split: option.splits sum.splits)

lemma first_attempt_settled:
  assumes "first_attempt es st" and "cc_count st \<le> 1"
  shows "first_attempt (es @ [CcSettled n r]) (resolver_settled n r st)"
proof (cases "n \<ge> cc_count st \<or> om_has (cc_outcomes st) n")
  case True
  with first_attempt_grows [OF assms(1)] show ?thesis by (simp add: resolver_settled_def)
next
  case False
  with assms(2) have "n = 0" by simp
  with False have n: "n = 0" "om_get (cc_outcomes st) 0 = None" by (simp_all add: om_has_def)
  with assms(1) have "cc_resolved st = None" by (simp add: first_attempt_def)
  with n False show ?thesis by (auto simp: resolver_settled_def first_attempt_def split: sum.splits)
qed

lemma first_attempt_ensure: "first_attempt es st \<Longrightarrow> first_attempt (es @ [e]) (fst (ensureResolved st))"
  by (auto simp: ensureResolved_def first_attempt_def split: option.splits sum.splits)

lemma first_attempt_run:
  "list_all (\<lambda>e. \<not> is_refresh e) es \<Longrightarrow> first_attempt es (resolution_run es) \<and> cc_count (resolution_run es) \<le> 1"
proof (induction es rule: rev_induct)
  case (snoc e es)
  then have ih: "first_attempt es (resolution_run es)" "cc_count (resolution_run es) \<le> 1" by simp_all
  have "cc_count (resolution_run (es @ [e])) \<le> 1 + length (filter is_refresh (es @ [e]))"
    using resolution_calls [of "es @ [e]"] by simp
  also have "filter is_refresh (es @ [e]) = []"
    using snoc.prems by (auto simp: list_all_iff filter_empty_conv)
  finally have "cc_count (resolution_run (es @ [e])) \<le> 1" by simp
  with ih snoc.prems show ?case
    by (cases e) (auto simp: first_attempt_settled first_attempt_ensure)
qed (simp add: first_attempt_def resolution_new_def)

lemma settled_stays:
  "om_get (cc_outcomes st) n = Some r \<Longrightarrow> om_get (cc_outcomes (resolution_step st e)) n = Some r"
  by (cases e) (auto simp: ensureResolved_def resolver_settled_def refreshCapabilities_def om_has_def
      split: option.splits sum.splits)

lemma settled_stays_run:
  "om_get (cc_outcomes st) n = Some r \<Longrightarrow> om_get (cc_outcomes (foldl resolution_step st es)) n = Some r"
  by (induction es arbitrary: st) (simp_all add: settled_stays)

text \<open>C38: Capabilities are resolved once. However calls and settlements interleave, the resolver is
  called at most once more than there are refreshes, and an attempt that has settled keeps its
  outcome. Without a refresh, what is resolved is what the one attempt delivered: nothing before it
  settles; its value; nothing after a failure that degrades to the static declaration; and an
  authentication failure is what every later call rejects with.\<close>

theorem capabilities_resolved_once:
  "cc_count (resolution_run es) \<le> 1 + length (filter is_refresh es)
   \<and> (case om_get (cc_outcomes (resolution_run es)) n of
        None \<Rightarrow> True
      | Some r \<Rightarrow> om_get (cc_outcomes (resolution_run (es @ fs))) n = Some r)
   \<and> (if list_all (\<lambda>e. \<not> is_refresh e) es then first_attempt es (resolution_run es) else True)"
  using resolution_calls [of es] first_attempt_run [of es]
    settled_stays_run [of "resolution_run es" n _ fs]
  by (auto split: option.split)

text \<open>An older resolution overwrites a newer one. When \<open>refreshCapabilities\<close> runs while the first
  attempt is pending, and the first attempt settles last, the capabilities of before the refresh stay
  in force, and no later call asks the resolver again.\<close>

theorem stale_resolution_wins:
  "let st = resolution_run ([CcEnsure, CcRefresh, CcSettled 1 (Inr new), CcSettled 0 (Inr old)] @ replicate n CcEnsure)
   in cc_resolved st = Some old \<and> cc_attempt st = Some 1 \<and> cc_count st = 2
      \<and> currentSupports fb st = mergeCapabilitySupport fb (rv_supports old)"
proof -
  have ens: "foldl resolution_step st (replicate n CcEnsure) = st" if "cc_attempt st = Some m" for st m
    using that by (induction n) (simp_all add: ensureResolved_def)
  let ?st = "resolution_run [CcEnsure, CcRefresh, CcSettled 1 (Inr new), CcSettled 0 (Inr old)]"
  have "cc_resolved ?st = Some old" "cc_attempt ?st = Some 1" "cc_count ?st = 2"
    by (simp_all add: resolution_new_def ensureResolved_def refreshCapabilities_def resolver_settled_def om_has_def
        del: One_nat_def)
  with ens [of ?st 1] show ?thesis
    by (simp only: foldl_append Let_def currentSupports_def option.case simp_thms)
qed

section \<open>Memoised backends\<close>

definition memo_inv :: "backend_memo \<Rightarrow> bool" where
  "memo_inv st = (case mm_current st of None \<Rightarrow> True | Some n \<Rightarrow> n + 1 = mm_count st)"

lemma memo_inv_step: "memo_inv st \<Longrightarrow> memo_inv (memo_step st e)"
  by (cases e) (auto simp: memo_inv_def memo_get_def memo_caught_def split: option.splits)

lemma memo_inv_run: "memo_inv (foldl memo_step memo_new es)"
  by (induction es rule: rev_induct) (simp_all add: memo_inv_step, simp add: memo_inv_def memo_new_def)

text \<open>A backend is made once and a failed one is made again. A call awaits the newest attempt and
  starts one only when there is none; the failure of the attempt it awaited clears exactly that
  attempt, so the next call starts another, and the late failure of an older attempt changes nothing.\<close>

theorem backend_memo_retries:
  "let st = foldl memo_step memo_new es; st' = fst (memo_get st); n = snd (memo_get st) in
     mm_current st' = Some n \<and> n + 1 = mm_count st'
     \<and> (mm_count st' = mm_count st \<longleftrightarrow> mm_current st = Some n)
     \<and> memo_get st' = (st', n)
     \<and> snd (memo_get (memo_caught n st')) = mm_count st'
     \<and> (m = n \<or> memo_caught m st' = st')"
  using memo_inv_run [of es]
  by (auto simp: Let_def memo_get_def memo_caught_def memo_inv_def split: option.splits)

definition teams_new :: teams_state where
  "teams_new = \<lparr>te_resolution = resolution_new, te_memo = memo_new, te_read = []\<rparr>"

text \<open>The team directory outlives a refresh. After a call to \<open>client.teams\<close> and a refresh that
  resolves a new manifest, \<open>getManifest()\<close> gives the new manifest while every further call to
  \<open>client.teams\<close> is answered from the directory made of the old one.\<close>

theorem teams_stale_after_refresh:
  "let st = foldl teams_step teams_new
       ([TeResolution CcEnsure, TeResolution (CcSettled 0 (Inr old)), TeMemo MemoGet, TeRead 0,
         TeResolution CcRefresh, TeResolution (CcSettled 1 (Inr new))] @ replicate n (TeMemo MemoGet))
   in getManifest (te_resolution st) = coalesce (rv_manifest new) JNull
      \<and> mm_current (te_memo st) = Some 0
      \<and> om_get (te_read st) 0 = Some (coalesce (rv_manifest old) JNull)"
proof -
  have again: "foldl teams_step st (replicate n (TeMemo MemoGet)) = st"
    if "mm_current (te_memo st) = Some m" for st m
    using that by (induction n) (simp_all add: teams_step_def memo_get_def)
  let ?st = "foldl teams_step teams_new
       [TeResolution CcEnsure, TeResolution (CcSettled 0 (Inr old)), TeMemo MemoGet, TeRead 0,
         TeResolution CcRefresh, TeResolution (CcSettled 1 (Inr new))]"
  have "getManifest (te_resolution ?st) = coalesce (rv_manifest new) JNull" "mm_current (te_memo ?st) = Some 0"
    "om_get (te_read ?st) 0 = Some (coalesce (rv_manifest old) JNull)"
    by (simp_all add: teams_new_def teams_step_def resolution_new_def memo_new_def memo_get_def ensureResolved_def
        refreshCapabilities_def resolver_settled_def om_has_def getManifest_def)
  with again [of ?st 0] show ?thesis by (simp only: foldl_append Let_def simp_thms)
qed

section \<open>Streaming a run\<close>

text \<open>The last terminal event decides; of the errors only those that ended the stream count.\<close>

fun stream_terminal :: "observed \<Rightarrow> (stream_end \<times> jv option) option" where
  "stream_terminal (SeenEvent (RunCompletedEvent _ _)) = Some (EndCompleted, None)"
| "stream_terminal (SeenEvent (RunFailedEvent _ _ d)) = Some (EndFailed, d)"
| "stream_terminal (SeenEvent (RunCancelledEvent _ _)) = Some (EndCancelled, None)"
| "stream_terminal _ = None"

fun stream_failure :: "observed \<Rightarrow> unknown option" where
  "stream_failure (SeenError e False) = Some e"
| "stream_failure _ = None"

fun stream_run_id :: "observed \<Rightarrow> string option" where
  "stream_run_id (SeenEvent e) = (if event_run_id e = [] then None else Some (event_run_id e))"
| "stream_run_id (SeenRunId i) = (if i = [] then None else Some i)"
| "stream_run_id _ = None"

definition last_of :: "'a list \<Rightarrow> 'a option" where
  "last_of xs = (if xs = [] then None else Some (last xs))"

lemma last_of_snoc [simp]: "last_of (xs @ [x]) = Some x" and last_of_Nil [simp]: "last_of [] = None"
  by (simp_all add: last_of_def)

definition first_of :: "'a list \<Rightarrow> 'a option" where
  "first_of xs = (case xs of [] \<Rightarrow> None | x # _ \<Rightarrow> Some x)"

lemma first_of_append [simp]: "first_of (xs @ ys) = (case first_of xs of None \<Rightarrow> first_of ys | Some x \<Rightarrow> Some x)"
  by (simp add: first_of_def split: list.split)

lemma first_of_simps [simp]: "first_of [] = None" "first_of (x # xs) = Some x"
  by (simp_all add: first_of_def)

lemma observe_id_simps [simp]:
  "ob_outcome (observe_id i ob) = ob_outcome ob" "ob_details (observe_id i ob) = ob_details ob"
  "ob_lastError (observe_id i ob) = ob_lastError ob"
  "ob_runId (observe_id i ob) = (case ob_runId ob of None \<Rightarrow> (if i = [] then None else Some i) | Some r \<Rightarrow> Some r)"
  by (auto simp: observe_id_def split: option.split)

lemma observed_all:
  "ob_runId (foldl observe observation_new seen) = first_of (List.map_filter stream_run_id seen)
   \<and> ob_outcome (foldl observe observation_new seen) = map_option fst (last_of (List.map_filter stream_terminal seen))
   \<and> ob_details (foldl observe observation_new seen) = Option.bind (last_of (List.map_filter stream_terminal seen)) snd
   \<and> ob_lastError (foldl observe observation_new seen) = last_of (List.map_filter stream_failure seen)"
proof (induction seen rule: rev_induct)
  case (snoc x xs)
  have app: "List.map_filter f (xs @ [x]) = List.map_filter f xs @ (case f x of None \<Rightarrow> [] | Some y \<Rightarrow> [y])"
    for f :: "observed \<Rightarrow> 'b option"
    by (simp add: map_filter_def split: option.split)
  show ?case
  proof (cases x)
    case (SeenEvent e)
    with snoc show ?thesis
      by (cases e) (auto simp: map_filter_def observe_event_def Let_def split: option.split)
  next
    case (SeenError e b)
    with snoc show ?thesis by (cases b) (auto simp: map_filter_def)
  next
    case (SeenRunId i)
    with snoc show ?thesis by (auto simp: map_filter_def split: option.split)
  qed
qed (simp add: observation_new_def map_filter_def)

text \<open>Whether the call ended by an abort: the caller's, or one that the stream reported.\<close>

definition stream_aborted :: "observed list \<Rightarrow> unknown + unit \<Rightarrow> bool \<Rightarrow> bool" where
  "stream_aborted seen out aborted =
     (aborted
      \<or> (case out of
           Inl e \<Rightarrow> facadeAbortError e
         | Inr _ \<Rightarrow> List.map_filter stream_terminal seen = []
             \<and> (case last_of (List.map_filter stream_failure seen) of Some e \<Rightarrow> facadeAbortError e | None \<Rightarrow> False)))"

text \<open>The error that ended the stream, if one did: a rejection, or the last terminal error of a stream
  that ended without a terminal event.\<close>

definition stream_error :: "observed list \<Rightarrow> unknown + unit \<Rightarrow> unknown option" where
  "stream_error seen out =
     (case out of
        Inl e \<Rightarrow> Some e
      | Inr _ \<Rightarrow> if List.map_filter stream_terminal seen = [] then last_of (List.map_filter stream_failure seen) else None)"

lemma aborted_gap: "\<exists>g. abortedGap can_cancel ob = (Inr (GapResult g), if can_cancel then ob_runId ob else None)
    \<and> cg_reason g = Some GapRequestAborted \<and> cg_area g = stream_area \<and> cg_contract g = stream_name"
  by (simp add: abortedGap_def fallbackGap_def Let_def)

lemma last_of_None: "last_of xs = None \<longleftrightarrow> xs = []"
  by (simp add: last_of_def)

lemma last_of_eq: "xs \<noteq> [] \<Longrightarrow> last_of xs = Some (last xs)"
  by (simp add: last_of_def)

text \<open>A supported, wired stream, by the three ways it can end.\<close>

lemma stream_by_end:
  fixes seen :: "observed list"
  assumes "supported (currentSupports (fa_fallback f) st) KStreaming"
  defines "ob \<equiv> foldl observe observation_new seen"
  shows "streamRun f st (Inr ()) True seen out aborted can_cancel =
     (if stream_aborted seen out aborted then abortedGap can_cancel ob
      else
        (case stream_error seen out of
           Some e \<Rightarrow> (map_sum id GapResult (classifyCapabilityFailure e stream_area stream_name stream_name), None)
         | None \<Rightarrow> (Inr (LiveResult \<lparr>so_runId = ob_runId ob, so_outcome = ob_outcome ob,
                      so_details = Option.bind (ob_details ob) (\<lambda>d. if truthy d then Some d else None)\<rparr>), None)))"
proof (cases out)
  case (Inl e)
  with assms(1) show ?thesis
    by (simp add: streamRun_def gapFor_def stream_aborted_def stream_error_def ob_def Let_def)
next
  case (Inr u)
  have o: "ob_outcome ob = map_option fst (last_of (List.map_filter stream_terminal seen))"
    "ob_lastError ob = last_of (List.map_filter stream_failure seen)"
    using observed_all [of seen] by (simp_all add: ob_def)
  show ?thesis
  proof (cases "List.map_filter stream_terminal seen = []")
    case True
    with Inr assms(1) o show ?thesis
      by (cases "last_of (List.map_filter stream_failure seen)")
        (simp_all add: streamRun_def gapFor_def stream_aborted_def stream_error_def ob_def Let_def)
  next
    case False
    with Inr assms(1) o show ?thesis
      by (simp add: streamRun_def gapFor_def stream_aborted_def stream_error_def ob_def Let_def last_of_eq)
  qed
qed

text \<open>C8: What a streamed run reports. For a supported and wired stream: an abort, by the caller or
  reported by the stream, is always a \<open>request-aborted\<close> gap, and cancels the run exactly when its id
  was seen and the runtime can cancel; otherwise an error that ended the stream is classified like any
  other call's; and only a stream that ended without one is live, with the first run id seen and
  the last terminal event. Nothing else cancels a run.\<close>

theorem streamed_run_outcome:
  assumes "supported (currentSupports (fa_fallback f) st) KStreaming"
  shows "case streamRun f st (Inr ()) True seen out aborted can_cancel of (res, cancelled) \<Rightarrow>
     if stream_aborted seen out aborted
     then (\<exists>g. res = Inr (GapResult g) \<and> cg_reason g = Some GapRequestAborted)
        \<and> cancelled = (if can_cancel then first_of (List.map_filter stream_run_id seen) else None)
     else cancelled = None
       \<and> (case stream_error seen out of
            Some e \<Rightarrow> if rethrown e then res = Inl e else \<exists>g. res = Inr (GapResult g) \<and> reported KStreaming stream_name e g
          | None \<Rightarrow> \<exists>o'. res = Inr (LiveResult o') \<and> so_runId o' = first_of (List.map_filter stream_run_id seen)
              \<and> so_outcome o' = map_option fst (last_of (List.map_filter stream_terminal seen)))"
proof -
  have area: "stream_area = ''capability:'' @ key_text KStreaming" by (simp add: stream_area_def key_text_def)
  show ?thesis
  proof (cases "stream_aborted seen out aborted")
    case True
    with stream_by_end [OF assms, of seen out aborted can_cancel]
      aborted_gap [of can_cancel "foldl observe observation_new seen"] observed_all [of seen]
    show ?thesis by auto
  next
    case no: False
    show ?thesis
    proof (cases "stream_error seen out")
      case None
      with stream_by_end [OF assms, of seen out aborted can_cancel] no observed_all [of seen]
      show ?thesis by simp
    next
      case (Some e)
      have "reported KStreaming stream_name e g \<Longrightarrow> \<not> rethrown e" for g by (simp add: reported_def)
      with stream_by_end [OF assms, of seen out aborted can_cancel] no Some
        classified_cases [of e KStreaming stream_name]
      show ?thesis by (auto simp: area)
    qed
  qed
qed

definition wit_facade :: facade where
  "wit_facade = \<lparr>fa_kind = ''x'', fa_fallback = [(KStreaming, Some True)], fa_availableOn = \<lambda>_. []\<rparr>"

lemma wit_streaming: "supported (currentSupports (fa_fallback wit_facade) resolution_new) KStreaming"
  by (simp add: wit_facade_def currentSupports_def resolution_new_def supported_def)

theorem streamed_run_outcome_witness:
  "\<exists>g. streamRun wit_facade resolution_new (Inr ()) True [SeenRunId ''r1''] (Inr ()) True True
     = (Inr (GapResult g), Some ''r1'') \<and> cg_reason g = Some GapRequestAborted"
  using streamed_run_outcome [OF wit_streaming, of "[SeenRunId ''r1'']" "Inr ()" True True]
  by (auto simp: stream_aborted_def map_filter_def split: prod.splits)

end
