(* ===== verification/HttpTransport.thy ===== *)
theory HttpTransport
  imports Backoff
begin

text \<open>
  \<open>createHttpTransport\<close> of \<open>src/core/transport/http.ts\<close>: idempotency, header merging, the retry
  decision and the decoding of responses, on the attempt loop of \<open>Backoff\<close>. What \<open>fetch\<close>, the body
  readers, \<open>Date.parse\<close> and URL resolution answer are inputs, one set for each attempt; a request is
  the log of what was handed to \<open>fetch\<close>, with its outcome.
\<close>

section \<open>Requests\<close>

datatype http_method = GET | HEAD | POST | PUT | PATCH | DELETE

datatype response_mode = ModeResponse | ModeJson | ModeText | ModeBytes

record http_request =
  hq_method :: http_method
  hq_path :: string
  hq_headers :: "(string, string) omap"
  hq_response :: "response_mode option"
  hq_idempotencyKey :: "string option"
  hq_retry :: "retry_policy option"

record http_options =
  ho_defaultHeaders :: "(string, string) omap"

definition method_text :: "http_method \<Rightarrow> string" where
  "method_text m =
     (case m of GET \<Rightarrow> ''GET'' | HEAD \<Rightarrow> ''HEAD'' | POST \<Rightarrow> ''POST'' | PUT \<Rightarrow> ''PUT'' | PATCH \<Rightarrow> ''PATCH''
      | DELETE \<Rightarrow> ''DELETE'')"

definition noRetry :: retry_policy where
  "noRetry = \<lparr>rp_maxAttempts = num 1, rp_baseDelayMs = num 0, rp_maxDelayMs = num 0,
     rp_jitterRatio = None, rp_deadlineMs = None\<rparr>"

definition normalizeIdempotencyKey :: "string option \<Rightarrow> string option" where
  "normalizeIdempotencyKey v =
     (case v of None \<Rightarrow> None | Some s \<Rightarrow> if trim s = [] then None else Some (trim s))"

definition operationSafety :: "http_request \<Rightarrow> string option \<Rightarrow> safety" where
  "operationSafety q key =
     (if hq_method q \<in> {GET, HEAD} then SRead else if key = None then SMutation else SIdempotent)"

definition isTransientStatus :: "int \<Rightarrow> bool" where
  "isTransientStatus st = (st = 408 \<or> st = 429 \<or> st \<ge> 500)"

section \<open>Retry-After\<close>

text \<open>\<open>Number(text)\<close>: the string numeric literals of the language, exactly.\<close>

fun radix_value :: "nat \<Rightarrow> nat \<Rightarrow> string \<Rightarrow> nat option" where
  "radix_value b acc [] = Some acc"
| "radix_value b acc (c # s) =
     (case hex_val c of Some d \<Rightarrow> if d < b then radix_value b (acc * b + d) s else None | None \<Rightarrow> None)"

definition radix_prefix :: "string \<Rightarrow> nat option" where
  "radix_prefix s =
     (let p = to_lower (take 2 s) in
      if p = ''0x'' then Some 16 else if p = ''0o'' then Some 8 else if p = ''0b'' then Some 2 else None)"

definition js_decimal :: "string \<Rightarrow> jnum" where
  "js_decimal t =
     (let ds = take_digits t; u = drop (length ds) t;
          fs = (case u of c # r \<Rightarrow> if c = CHR ''.'' then take_digits r else [] | [] \<Rightarrow> []);
          w = (case u of c # r \<Rightarrow> if c = CHR ''.'' then drop (length fs) r else u | [] \<Rightarrow> [])
      in if ds = [] \<and> fs = [] then NaN
         else (case parse_exp w of
                 Some (e, []) \<Rightarrow> Fin ((of_nat (digits_val ds) + of_nat (digits_val fs) / 10 ^ length fs) * pow10 e)
               | _ \<Rightarrow> NaN))"

definition negate :: "jnum \<Rightarrow> jnum" where
  "negate x = (case x of Fin q \<Rightarrow> Fin (- q) | PosInf \<Rightarrow> NegInf | NegInf \<Rightarrow> PosInf | NaN \<Rightarrow> NaN)"

definition js_unsigned :: "string \<Rightarrow> jnum" where
  "js_unsigned s = (if s = ''Infinity'' then PosInf else js_decimal s)"

definition js_number :: "string \<Rightarrow> jnum" where
  "js_number text' =
     (let s = trim text' in
      if s = [] then num 0
      else
        (case radix_prefix s of
           Some b \<Rightarrow> if drop 2 s = [] then NaN
                     else (case radix_value b 0 (drop 2 s) of Some n \<Rightarrow> num (int n) | None \<Rightarrow> NaN)
         | None \<Rightarrow>
             if hd s = CHR ''-'' then negate (js_unsigned (tl s))
             else if hd s = CHR ''+'' then js_unsigned (tl s)
             else js_unsigned s))"

text \<open>\<open>date_parse\<close> is \<open>Date.parse\<close>, in milliseconds.\<close>

definition parseRetryAfter :: "(string \<Rightarrow> jnum) \<Rightarrow> string option \<Rightarrow> rat \<Rightarrow> rat option" where
  "parseRetryAfter date_parse value now =
     (case value of
        None \<Rightarrow> None
      | Some s \<Rightarrow>
          (case js_number s of
             Fin q \<Rightarrow> if 0 \<le> q then Some (q * 1000)
                      else (case date_parse s of Fin t \<Rightarrow> Some (max 0 (t - now)) | _ \<Rightarrow> None)
           | _ \<Rightarrow> (case date_parse s of Fin t \<Rightarrow> Some (max 0 (t - now)) | _ \<Rightarrow> None)))"

section \<open>Headers\<close>

definition mergeHeaders ::
  "(string, string) omap \<Rightarrow> http_request \<Rightarrow> (string, string) omap \<Rightarrow> string option \<Rightarrow> (string, string) omap" where
  "mergeHeaders defaults q auth key =
     (let headers = fold put_header auth (fold put_header (hq_headers q) (fold put_header defaults []));
          headers1 = (case find (\<lambda>h. to_lower h = ''idempotency-key'') (map fst headers) of
                        Some h \<Rightarrow> om_del h headers | None \<Rightarrow> headers)
      in (case key of Some v \<Rightarrow> om_set ''Idempotency-Key'' v headers1 | None \<Rightarrow> headers1))"

section \<open>Responses\<close>

text \<open>A response as \<open>fetch\<close> gives it, with what reading its body in the requested mode gives.\<close>

record http_response =
  hr_status :: int
  hr_retryAfter :: "string option"
  hr_body :: "unknown + jv"

definition response_ok :: "http_response \<Rightarrow> bool" where
  "response_ok r = (200 \<le> hr_status r \<and> hr_status r \<le> 299)"

datatype http_value = WholeResponse http_response | NoContent | DecodedBody jv

definition decode_failed :: "string \<Rightarrow> int \<Rightarrow> int \<Rightarrow> unknown" where
  "decode_failed operation attempt st =
     UErr (TransportError ''HTTP response decoding failed''
       ((plain_meta KHttp PDecode operation False attempt)\<lparr>tm_status := Some (of_int st)\<rparr>) None)"

definition decodeResponse ::
  "http_response \<Rightarrow> response_mode option \<Rightarrow> string \<Rightarrow> int \<Rightarrow> unknown + http_value" where
  "decodeResponse r mode operation attempt =
     (if mode = None \<or> mode = Some ModeResponse then Inr (WholeResponse r)
      else if hr_status r = 204 \<or> hr_status r = 205 then Inr NoContent
      else (case hr_body r of
              Inr v \<Rightarrow> Inr (DecodedBody v)
            | Inl _ \<Rightarrow> Inl (decode_failed operation attempt (hr_status r))))"

section \<open>A request\<close>

record http_env =
  he_aborted_before :: bool
  he_auth :: "unknown + (string, string) omap option"
  he_aborted_auth :: bool
  he_fetch :: "unknown + http_response"
  he_aborted_fetch :: bool
  he_clock :: rat
  he_aborted_after :: bool
  he_random :: jnum
  he_now :: rat
  he_sleep :: "unknown option"
  he_aborted_sleep :: bool

definition request_failed :: "safety \<Rightarrow> string \<Rightarrow> int \<Rightarrow> unknown" where
  "request_failed s operation attempt =
     UErr (TransportError ''HTTP request failed''
       (plain_meta KHttp PRequest operation (s \<noteq> SMutation) attempt) None)"

definition status_failed ::
  "(string \<Rightarrow> jnum) \<Rightarrow> safety \<Rightarrow> string \<Rightarrow> int \<Rightarrow> http_response \<Rightarrow> rat \<Rightarrow> unknown" where
  "status_failed date_parse s operation attempt r now =
     (let retryable = (s \<noteq> SMutation \<and> isTransientStatus (hr_status r)) in
      UErr (TransportError (''HTTP request failed with status '' @ show_int (hr_status r))
        ((plain_meta KHttp PRequest operation retryable attempt)
           \<lparr>tm_status := Some (of_int (hr_status r)),
            tm_retryAfterMs := (if retryable then parseRetryAfter date_parse (hr_retryAfter r) now else None)\<rparr>)
        None))"

text \<open>\<open>execute\<close>, once \<open>fetch\<close> has settled.\<close>

definition http_execute ::
  "(string \<Rightarrow> jnum) \<Rightarrow> http_request \<Rightarrow> safety \<Rightarrow> string \<Rightarrow> int \<Rightarrow> http_env \<Rightarrow> unknown + http_value" where
  "http_execute date_parse q s operation attempt e =
     (case he_fetch e of
        Inl err \<Rightarrow> if he_aborted_fetch e \<or> isAbortError err then Inl err
                   else Inl (request_failed s operation attempt)
      | Inr r \<Rightarrow>
          if \<not> response_ok r then Inl (status_failed date_parse s operation attempt r (he_clock e))
          else decodeResponse r (hq_response q) operation attempt)"

definition http_operation :: "http_request \<Rightarrow> string" where
  "http_operation q = method_text (hq_method q) @ '' '' @ hq_path q"

definition attempt_of ::
  "(string \<Rightarrow> jnum) \<Rightarrow> http_request \<Rightarrow> safety \<Rightarrow> (int \<Rightarrow> http_env) \<Rightarrow> int \<Rightarrow> http_value attempt_env" where
  "attempt_of date_parse q s env a =
     (let e = env a in
      \<lparr>ae_aborted_before = he_aborted_before e, ae_auth = he_auth e, ae_aborted_auth = he_aborted_auth e,
       ae_execute = http_execute date_parse q s (http_operation q) a e, ae_aborted_after = (he_aborted_fetch e \<or> he_aborted_after e),
       ae_random = he_random e, ae_now = he_now e, ae_sleep = he_sleep e,
       ae_aborted_sleep = he_aborted_sleep e\<rparr>)"

definition http_attempts :: "http_request \<Rightarrow> unknown option \<Rightarrow> attempt_options" where
  "http_attempts q reason =
     \<lparr>ao_kind = KHttp, ao_operation = http_operation q,
      ao_safety = operationSafety q (normalizeIdempotencyKey (hq_idempotencyKey q)),
      ao_policy = (case hq_retry q of Some p \<Rightarrow> p | None \<Rightarrow> noRetry), ao_headers = [], ao_reason = reason\<rparr>"

text \<open>What was handed to \<open>fetch\<close>: the attempt and the headers.\<close>

definition fetched :: "http_options \<Rightarrow> http_request \<Rightarrow> attempt_event list \<Rightarrow> (int \<times> (string, string) omap) list" where
  "fetched opts q tr =
     List.map_filter (\<lambda>ev. case ev of
         Execute a h \<Rightarrow> Some (a, mergeHeaders (ho_defaultHeaders opts) q h
                            (normalizeIdempotencyKey (hq_idempotencyKey q)))
       | _ \<Rightarrow> None) tr"

definition wrong_origin :: "http_request \<Rightarrow> unknown" where
  "wrong_origin q =
     UErr (TransportError ''HTTP request URL must use the configured origin''
       (plain_meta KHttp PConfigure (http_operation q) False 1) None)"

text \<open>\<open>origin\<close>: what resolving the path against the base URL throws, or whether the origin is the
  configured one.\<close>

definition http_send ::
  "(string \<Rightarrow> jnum) \<Rightarrow> http_options \<Rightarrow> http_request \<Rightarrow> unknown + bool \<Rightarrow> unknown option \<Rightarrow> (int \<Rightarrow> http_env)
     \<Rightarrow> rat \<Rightarrow> attempt_event list \<times> (unknown + http_value)" where
  "http_send date_parse opts q origin reason env startedAt =
     (case origin of
        Inl e \<Rightarrow> ([], Inl e)
      | Inr False \<Rightarrow> ([], Inl (wrong_origin q))
      | Inr True \<Rightarrow>
          runTransportAttempts (http_attempts q reason)
            (attempt_of date_parse q (operationSafety q (normalizeIdempotencyKey (hq_idempotencyKey q))) env)
            startedAt)"

section \<open>Facts\<close>

lemma radix_cases: "radix_prefix s = Some b \<Longrightarrow> b \<in> {2, 8, 16}"
  by (auto simp: radix_prefix_def Let_def split: if_splits)

lemma parseRetryAfter_nonneg: "parseRetryAfter dp v now = Some q \<Longrightarrow> 0 \<le> q"
  by (auto simp: parseRetryAfter_def split: option.splits jnum.splits if_splits)

lemma strip_prefixes_all:
  "strip_prefixes ps s = [] \<Longrightarrow> s \<noteq> [] \<Longrightarrow> last s \<in> last ` set ps"
proof (induction ps s rule: strip_prefixes.induct)
  case (1 ps s)
  show ?case
  proof (cases "find (\<lambda>p. p \<noteq> [] \<and> prefix p s) ps")
    case None
    with 1 show ?thesis by (simp add: strip_prefixes_stop)
  next
    case (Some q)
    then have q: "q \<in> set ps" "prefix q s" by (auto simp: find_Some_iff)
    show ?thesis
    proof (cases "drop (length q) s = []")
      case True
      with q have "s = q" by (auto simp: prefix_def)
      with q show ?thesis by blast
    next
      case False
      with 1 Some have "last (drop (length q) s) \<in> last ` set ps" by (simp add: strip_prefixes_step)
      with False show ?thesis by simp
    qed
  qed
qed

lemma trim_graph_start:
  assumes "graph_char c"
  shows "trim (c # s) \<noteq> []"
proof
  assume "trim (c # s) = []"
  moreover have "trim_start (c # s) = c # s"
    unfolding trim_start_def using assms
    by (intro strip_prefixes_id) (auto simp: ws_encodings_def graph_char_def prefix_def Cons_eq_append_conv)
  ultimately have "strip_prefixes (map rev ws_encodings) (rev (c # s)) = []"
    by (simp add: trim_def trim_end_def)
  from strip_prefixes_all [OF this] have "c \<in> last ` set (map rev ws_encodings)" by simp
  with assms show False by (auto simp: ws_encodings_def graph_char_def)
qed

lemma operation_text: "trim (http_operation q) \<noteq> []"
  by (cases "hq_method q") (simp_all add: http_operation_def method_text_def trim_graph_start graph_char_def)

text \<open>The headers of one attempt.\<close>

lemma put_all_ok: "headers_ok hs \<Longrightarrow> headers_ok (fold put_header xs hs)"
  by (simp add: fold_put_header)

lemma headers_ok_filter: "headers_ok hs \<Longrightarrow> headers_ok (filter P hs)"
  by (simp add: headers_ok_def distinct_map_filter comp_def)

text \<open>Deleting the one name that reads as \<open>k\<close>.\<close>

lemma drop_named:
  assumes "headers_ok hs"
  shows "(case find (\<lambda>h. to_lower h = k) (map fst hs) of Some h \<Rightarrow> om_del h hs | None \<Rightarrow> hs)
     = filter (\<lambda>h. to_lower (fst h) \<noteq> k) hs"
proof (cases "find (\<lambda>h. to_lower h = k) (map fst hs)")
  case None
  then have "\<forall>x \<in> set hs. to_lower (fst x) \<noteq> k" by (auto simp: find_None_iff)
  with None show ?thesis by (simp add: filter_id_conv)
next
  case (Some p)
  then have "p \<in> fst ` set hs" "to_lower p = k" by (auto simp: find_Some_iff)
  with Some del_header [OF assms] show ?thesis by simp
qed

definition layered :: "(string, string) omap \<Rightarrow> http_request \<Rightarrow> (string, string) omap \<Rightarrow> string \<Rightarrow> string option" where
  "layered defaults q auth nm =
     map_option snd (find (\<lambda>h. same_header (fst h) nm) (rev (defaults @ hq_headers q @ auth)))"

lemma merged_eq:
  "mergeHeaders defaults q auth key =
     filter (\<lambda>h. to_lower (fst h) \<noteq> ''idempotency-key'') (fold put_header (defaults @ hq_headers q @ auth) [])
     @ (case key of Some v \<Rightarrow> [(''Idempotency-Key'', v)] | None \<Rightarrow> [])"
proof -
  define hs where "hs = fold put_header (defaults @ hq_headers q @ auth) []"
  have flat: "fold put_header auth (fold put_header (hq_headers q) (fold put_header defaults [])) = hs"
    by (simp add: hs_def)
  have "headers_ok []" by (simp add: headers_ok_def)
  then have ok: "headers_ok hs" unfolding hs_def by (rule put_all_ok)
  have "to_lower ''Idempotency-Key'' = ''idempotency-key''" by code_simp
  then have "\<not> om_has (filter (\<lambda>h. to_lower (fst h) \<noteq> ''idempotency-key'') hs) ''Idempotency-Key''"
    by (auto simp: om_has_iff)
  then show ?thesis
    unfolding mergeHeaders_def flat Let_def drop_named [OF ok] hs_def [symmetric]
    by (cases key) (simp_all add: om_set_fresh)
qed

lemma merged_headers:
  shows "headers_ok (mergeHeaders defaults q auth key)"
    and "header_value (mergeHeaders defaults q auth key) nm =
       (if same_header nm ''Idempotency-Key'' then key else layered defaults q auth nm)"
proof -
  let ?hs = "fold put_header (defaults @ hq_headers q @ auth) []"
  let ?P = "\<lambda>h. to_lower (fst h) \<noteq> ''idempotency-key''"
  let ?k = "case key of Some v \<Rightarrow> [(''Idempotency-Key'', v)] | None \<Rightarrow> []"
  have nil: "headers_ok []" by (simp add: headers_ok_def)
  have low: "to_lower ''Idempotency-Key'' = ''idempotency-key''" by code_simp
  have ok: "headers_ok ?hs" by (rule put_all_ok [OF nil])
  have lay: "header_value ?hs nm = layered defaults q auth nm"
    using fold_put_header [OF nil, of "defaults @ hq_headers q @ auth" nm]
    by (auto simp: layered_def header_value_def [of "[]"] split: option.splits)
  show "headers_ok (mergeHeaders defaults q auth key)"
    using headers_ok_filter [OF ok, of ?P] low
    by (cases key) (auto simp: merged_eq headers_ok_def)
  show "header_value (mergeHeaders defaults q auth key) nm =
       (if same_header nm ''Idempotency-Key'' then key else layered defaults q auth nm)"
  proof (cases "same_header nm ''Idempotency-Key''")
    case True
    then have "find (\<lambda>h. ?P h \<and> same_header (fst h) nm) ?hs = None"
      by (auto simp: find_None_iff same_header_def low)
    with True show ?thesis
      by (cases key) (simp_all add: merged_eq header_value_def find_append find_filter same_header_def low)
  next
    case False
    then have "find (\<lambda>h. ?P h \<and> same_header (fst h) nm) ?hs = find (\<lambda>h. same_header (fst h) nm) ?hs"
      by (intro find_cong) (auto simp: same_header_def low)
    with False lay show ?thesis
      by (cases key)
        (auto simp: merged_eq header_value_def find_append find_filter same_header_def low split: option.splits)
  qed
qed

lemma fetched_simps [simp]:
  "fetched opts q [] = []"
  "fetched opts q (Execute a h # tr) =
     (a, mergeHeaders (ho_defaultHeaders opts) q h (normalizeIdempotencyKey (hq_idempotencyKey q))) # fetched opts q tr"
  "fetched opts q (Emit ev # tr) = fetched opts q tr" "fetched opts q (Sleep a d # tr) = fetched opts q tr"
  by (simp_all add: fetched_def map_filter_simps)

lemma fetched_executed: "map fst (fetched opts q tr) = executed tr"
proof (induction tr)
  case (Cons ev tr)
  then show ?case by (cases ev) simp_all
qed simp

lemma fetched_headers:
  "(a, hs) \<in> set (fetched opts q tr)
     \<Longrightarrow> \<exists>h. hs = mergeHeaders (ho_defaultHeaders opts) q h (normalizeIdempotencyKey (hq_idempotencyKey q))"
proof (induction tr)
  case (Cons ev tr)
  then show ?case by (cases ev) auto
qed simp

text \<open>Why a request is sent again.\<close>

definition transient :: "http_env \<Rightarrow> bool" where
  "transient e = (case he_fetch e of Inl _ \<Rightarrow> True | Inr r \<Rightarrow> isTransientStatus (hr_status r))"

text \<open>The delay a server asked for, if it asked.\<close>

definition asked_delay :: "(string \<Rightarrow> jnum) \<Rightarrow> http_env \<Rightarrow> rat option" where
  "asked_delay date_parse e =
     (case he_fetch e of Inl _ \<Rightarrow> None | Inr r \<Rightarrow> parseRetryAfter date_parse (hr_retryAfter r) (he_clock e))"

lemma execute_retryable:
  assumes "1 \<le> a" and "http_execute dp q s (http_operation q) a e = Inl err"
    and "getTransportErrorMetadata err = Some m" and "tm_retryable m" and "\<not> isAbortError err"
    and "\<not> he_aborted_fetch e"
  shows "s \<noteq> SMutation \<and> transient e \<and> tm_retryAfterMs m = asked_delay dp e"
proof (cases "he_fetch e")
  case (Inl x)
  with assms(2,5,6) have err: "err = request_failed s (http_operation q) a"
    by (auto simp: http_execute_def split: if_splits)
  have "meta_ok (plain_meta KHttp PRequest (http_operation q) (s \<noteq> SMutation) a)"
    using assms(1) operation_text by (simp add: plain_meta_ok)
  from TransportError_metadata [OF this] assms(3,4) Inl show ?thesis
    by (auto simp: err request_failed_def plain_meta_def transient_def asked_delay_def)
next
  case (Inr r)
  show ?thesis
  proof (cases "response_ok r")
    case True
    with assms(2) Inr have err: "err = decode_failed (http_operation q) a (hr_status r)"
      by (auto simp: http_execute_def decodeResponse_def split: if_splits sum.splits)
    have "meta_ok ((plain_meta KHttp PDecode (http_operation q) False a)\<lparr>tm_status := Some (of_int (hr_status r))\<rparr>)"
      using assms(1) operation_text by (simp add: meta_ok_def plain_meta_def)
    from TransportError_metadata [OF this] assms(3,4) show ?thesis
      by (auto simp: err decode_failed_def plain_meta_def)
  next
    case False
    with assms(2) Inr have err: "err = status_failed dp s (http_operation q) a r (he_clock e)"
      by (auto simp: http_execute_def)
    let ?m = "(plain_meta KHttp PRequest (http_operation q) (s \<noteq> SMutation \<and> isTransientStatus (hr_status r)) a)
           \<lparr>tm_status := Some (of_int (hr_status r)),
            tm_retryAfterMs := (if s \<noteq> SMutation \<and> isTransientStatus (hr_status r)
              then parseRetryAfter dp (hr_retryAfter r) (he_clock e) else None)\<rparr>"
    have "meta_ok ?m"
      using assms(1) operation_text parseRetryAfter_nonneg [of dp "hr_retryAfter r" "he_clock e"]
      by (auto simp: meta_ok_def plain_meta_def split: option.split)
    from TransportError_metadata [OF this] assms(3,4) Inr show ?thesis
      by (auto simp: err status_failed_def Let_def plain_meta_def transient_def asked_delay_def)
  qed
qed

section \<open>Properties\<close>

text \<open>What a request does on the wire. It is sent for attempts 1 to n, at most as often as its retry
  policy allows, once when it has none, and never twice when it is a mutation without an idempotency
  key; nothing is sent outside the configured origin. Every attempt carries headers whose names
  differ by more than case, among them the normalised idempotency key and no other, whatever the
  callers' headers say; the other headers are the credentials', the request's or the defaults', in
  that order. Only a failure to connect or a status that is transient is followed by another
  attempt, after the delay the server asked for. What is returned is what the last attempt got, from a
  response with a success status.\<close>

theorem http_requests_disciplined:
  assumes "http_send dp opts q origin reason env s = (tr, r)"
  defines "calls \<equiv> fetched opts q tr" and "key \<equiv> normalizeIdempotencyKey (hq_idempotencyKey q)"
  shows "(\<exists>n. map fst calls = [1..n]
        \<and> (n \<le> 0 \<or> of_int n \<le> num_val (rp_maxAttempts (case hq_retry q of Some p \<Rightarrow> p | None \<Rightarrow> noRetry)))
        \<and> (hq_method q \<notin> {GET, HEAD} \<and> key = None \<longrightarrow> n \<le> 1)
        \<and> (origin \<noteq> Inr True \<longrightarrow> n = 0)
        \<and> (\<forall>v. r = Inr v \<longrightarrow> 1 \<le> n \<and> (\<exists>res. he_fetch (env n) = Inr res \<and> response_ok res
             \<and> decodeResponse res (hq_response q) (http_operation q) n = Inr v)))
    \<and> (\<forall>(a, hs) \<in> set calls. distinct (map to_lower (map fst hs))
        \<and> header_value hs ''Idempotency-Key'' = key
        \<and> (\<exists>auth. \<forall>nm. \<not> same_header nm ''Idempotency-Key''
             \<longrightarrow> header_value hs nm = layered (ho_defaultHeaders opts) q auth nm))
    \<and> (\<forall>(a, d) \<in> set (slept tr). transient (env a)
        \<and> (\<exists>x. computeBackoffDelay (case hq_retry q of Some p \<Rightarrow> p | None \<Rightarrow> noRetry) (num a) x
              (map_option Fin (asked_delay dp (env a))) = Inr d))"
proof (cases "origin = Inr True")
  case False
  then have "tr = [] \<and> (\<exists>e. r = Inl e)" using assms(1) by (auto simp: http_send_def split: sum.splits bool.splits)
  then show ?thesis by (auto simp: calls_def intro!: exI [of _ 0])
next
  case True
  let ?s = "operationSafety q key"
  let ?env = "attempt_of dp q ?s env"
  from assms(1) True have run: "runTransportAttempts (http_attempts q reason) ?env s = (tr, r)"
    by (simp add: http_send_def key_def)
  have pol: "ao_policy (http_attempts q reason) = (case hq_retry q of Some p \<Rightarrow> p | None \<Rightarrow> noRetry)"
    and saf: "ao_safety (http_attempts q reason) = ?s"
    by (simp_all add: http_attempts_def key_def)
  from attempts_spec [OF run] obtain n where n: "executed tr = [1..n]"
    "n \<le> 0 \<or> of_int n \<le> num_val (rp_maxAttempts (ao_policy (http_attempts q reason)))"
    "?s = SMutation \<longrightarrow> n \<le> 1"
    "\<forall>x. r = Inr x \<longrightarrow> 1 \<le> n \<and> ae_execute (?env n) = Inr x"
    "\<forall>(j, d) \<in> set (slept tr). 1 \<le> j \<and> may_retry (http_attempts q reason) (?env j) s j d"
    unfolding saf by blast
  have res: "\<exists>res. he_fetch (env n) = Inr res \<and> response_ok res
       \<and> decodeResponse res (hq_response q) (http_operation q) n = Inr v" if "r = Inr v" for v
    using n(4) that by (auto simp: attempt_of_def Let_def http_execute_def split: sum.splits if_splits)
  have mut: "hq_method q \<notin> {GET, HEAD} \<and> key = None \<longrightarrow> ?s = SMutation"
    by (auto simp: operationSafety_def)
  have heads: "distinct (map to_lower (map fst hs)) \<and> header_value hs ''Idempotency-Key'' = key
        \<and> (\<exists>auth. \<forall>nm. \<not> same_header nm ''Idempotency-Key''
             \<longrightarrow> header_value hs nm = layered (ho_defaultHeaders opts) q auth nm)"
    if "(a, hs) \<in> set calls" for a hs
  proof -
    from fetched_headers [of a hs opts q tr] that obtain h where
      h: "hs = mergeHeaders (ho_defaultHeaders opts) q h key" by (auto simp: calls_def key_def)
    have "same_header ''Idempotency-Key'' ''Idempotency-Key''" by (simp add: same_header_def)
    with merged_headers [of "ho_defaultHeaders opts" q h key] h show ?thesis
      by (auto simp: headers_ok_def intro!: exI [of _ h])
  qed
  have slept: "transient (env a) \<and> (\<exists>x. computeBackoffDelay (ao_policy (http_attempts q reason)) (num a) x
              (map_option Fin (asked_delay dp (env a))) = Inr d)" if "(a, d) \<in> set (slept tr)" for a d
  proof -
    from n(5) that have may: "may_retry (http_attempts q reason) (?env a) s a d" and a: "1 \<le> a" by blast+
    from may obtain err m where e: "ae_execute (?env a) = Inl err" "getTransportErrorMetadata err = Some m"
      "tm_retryable m" "\<not> he_aborted_fetch (env a)" "\<not> isAbortError err" and
      c: "computeBackoffDelay (ao_policy (http_attempts q reason)) (num a) (he_random (env a))
             (map_option Fin (tm_retryAfterMs m)) = Inr d"
      by (auto simp: may_retry_def attempt_of_def Let_def)
    with execute_retryable [OF a _ e(2,3,5,4)] e(1)
    have "transient (env a) \<and> tm_retryAfterMs m = asked_delay dp (env a)"
      by (auto simp: attempt_of_def Let_def)
    with c show ?thesis by auto
  qed
  from n(1,2,3) res n(4) mut heads slept True show ?thesis
    unfolding pol calls_def by (auto simp: fetched_executed intro!: exI [of _ n])
qed

definition wit_request :: http_request where
  "wit_request = \<lparr>hq_method = POST, hq_path = ''/runs'', hq_headers = [(''IDEMPOTENCY-KEY'', ''forged'')],
     hq_response = None, hq_idempotencyKey = Some ''k1'', hq_retry = None\<rparr>"

definition wit_response :: http_response where
  "wit_response = \<lparr>hr_status = 200, hr_retryAfter = None, hr_body = Inr JNull\<rparr>"

definition wit_http_env :: http_env where
  "wit_http_env = \<lparr>he_aborted_before = False, he_auth = Inr None, he_aborted_auth = False,
     he_fetch = Inr wit_response, he_aborted_fetch = False, he_clock = 0, he_aborted_after = False,
     he_random = num 0, he_now = 0, he_sleep = None, he_aborted_sleep = False\<rparr>"

lemma wit_send:
  "http_send dp \<lparr>ho_defaultHeaders = []\<rparr> wit_request (Inr True) None (\<lambda>_. wit_http_env) 0
     = ([Execute 1 []], Inr (WholeResponse wit_response))"
proof -
  have v: "validateTransportRetryPolicy noRetry = None" by code_simp
  have n: "num_val (rp_maxAttempts noRetry) = 1" by (simp add: noRetry_def num_def)
  have h: "resolveTransportHeaders [] None = []" by (simp add: resolveTransportHeaders_def)
  have x: "http_execute dp wit_request s op 1 wit_http_env = Inr (WholeResponse wit_response)" for s op
    by (simp add: http_execute_def wit_http_env_def response_ok_def wit_response_def decodeResponse_def wit_request_def)
  show ?thesis
    unfolding http_send_def runTransportAttempts_def
    by (subst attempts_from.simps)
      (simp add: http_attempts_def wit_request_def v n Let_def attempt_of_def attempt_try_def h x [unfolded wit_request_def]
        wit_http_env_def [THEN arg_cong [where f = he_aborted_before]]
        wit_http_env_def [THEN arg_cong [where f = he_auth]]
        wit_http_env_def [THEN arg_cong [where f = he_aborted_auth]])
qed

theorem http_requests_disciplined_witness:
  "\<exists>hs. fetched \<lparr>ho_defaultHeaders = []\<rparr> wit_request [Execute 1 []] = [(1, hs)]
     \<and> header_value hs ''Idempotency-Key'' = Some ''k1''"
proof -
  have "normalizeIdempotencyKey (hq_idempotencyKey wit_request) = Some ''k1''"
    by (simp add: normalizeIdempotencyKey_def wit_request_def trim_graph graph_char_def)
  with http_requests_disciplined [OF wit_send] show ?thesis by simp
qed

end
