(* ===== verification/HttpClient.thy ===== *)
theory HttpClient
  imports HttpTransport Envelope
begin

text \<open>
  The HTTP API client: \<open>src/core/http/client.ts\<close> (URLs, headers, deadline and abort, traces, errors),
  \<open>src/core/http/errors.ts\<close>, the JSON client of \<open>src/core/http/json-client.ts\<close> and what it makes of an
  error body (\<open>src/core/gateway/client/error-details.ts\<close>, \<open>src/core/http/gateway-error.ts\<close>). A request is
  a function of what the platform answered: \<open>fetch\<close>, the body, the credentials resolver, the clock, and
  which abort came first. Identity of errors is equality of their values.
\<close>

section \<open>URLs\<close>

definition strip_slashes :: "string \<Rightarrow> string" where
  "strip_slashes s = rev (dropWhile (\<lambda>c. c = CHR ''/'') (rev s))"

definition normalizeBaseUrl :: "string \<Rightarrow> bool \<Rightarrow> unknown + string" where
  "normalizeBaseUrl baseUrl allowRelative =
     (let trimmed = trim baseUrl in
      if trimmed = [] \<and> allowRelative then Inr []
      else if trimmed = [] then Inl (UErr (invalidConfigError ''Missing baseUrl for HTTP API client''))
      else Inr (strip_slashes trimmed))"

definition normalizePath :: "string \<Rightarrow> string" where
  "normalizePath path =
     (case trim path of
        [] \<Rightarrow> ''/''
      | c # s \<Rightarrow> if c = CHR ''/'' then c # s else CHR ''/'' # c # s)"

definition normalizeBasePath :: "string option \<Rightarrow> string" where
  "normalizeBasePath basePath =
     (case basePath of
        None \<Rightarrow> []
      | Some p \<Rightarrow>
          if p = [] then []
          else (let path = strip_slashes (normalizePath p) in if path = ''/'' then [] else path))"

definition buildUrl :: "string \<Rightarrow> string \<Rightarrow> string \<Rightarrow> string" where
  "buildUrl baseUrl basePath path = baseUrl @ basePath @ normalizePath path"

section \<open>Queries\<close>

text \<open>\<open>URLSearchParams\<close> prints in the \<open>application/x-www-form-urlencoded\<close> format.\<close>

definition upper_hex :: "nat \<Rightarrow> char" where
  "upper_hex n = (if n < 10 then char_of (48 + n) else char_of (55 + n))"

definition form_char :: "char \<Rightarrow> string" where
  "form_char c =
     (if is_alnum c \<or> c \<in> set ''*-._'' then [c]
      else if c = CHR '' '' then ''+''
      else [CHR ''%'', upper_hex (of_char c div 16), upper_hex (of_char c mod 16)])"

definition form_text :: "string \<Rightarrow> string" where
  "form_text s = concat (map form_char s)"

definition form_pair :: "string \<times> string \<Rightarrow> string" where
  "form_pair p = form_text (fst p) @ ''='' @ form_text (snd p)"

text \<open>A parameter is its \<open>String(value)\<close>, or absent when it is \<open>undefined\<close>.\<close>

definition present :: "(string \<times> string option) list \<Rightarrow> (string \<times> string) list" where
  "present params = List.map_filter (\<lambda>(k, v). map_option (Pair k) v) params"

definition query_text :: "(string \<times> string option) list \<Rightarrow> string" where
  "query_text params = join_with ''&'' (map form_pair (present params))"

definition withQuery :: "string \<Rightarrow> (string \<times> string option) list \<Rightarrow> string" where
  "withQuery path params =
     (let query = query_text params;
          target = takeWhile (\<lambda>c. c \<noteq> CHR ''#'') path;
          fragment = dropWhile (\<lambda>c. c \<noteq> CHR ''#'') path;
          separator = (if CHR ''?'' \<in> set target
                       then (if last target = CHR ''?'' \<or> last target = CHR ''&'' then [] else ''&'')
                       else ''?'')
      in if query = [] then path else target @ separator @ query @ fragment)"

section \<open>Errors and traces\<close>

definition HttpApiError :: "string \<Rightarrow> string \<Rightarrow> string \<Rightarrow> string \<Rightarrow> int \<Rightarrow> string \<Rightarrow> unknown" where
  "HttpApiError msg path url method st body =
     UErr (mk_error CHttpApiError ''HttpApiError'' msg (Some (type_text THttp)) (Some (code_text HttpRequestFailed))
       None [(''path'', JStr path), (''url'', JStr url), (''method'', JStr method), (''status'', JNum (num st)),
             (''body'', JStr body)])"

record http_trace =
  ht_at :: rat
  ht_surface :: string
  ht_method :: string
  ht_path :: string
  ht_url :: string
  ht_ok :: bool
  ht_status :: "int option"
  ht_durationMs :: rat
  ht_error :: "string option"

definition previewErrorBody :: "string \<Rightarrow> string" where
  "previewErrorBody s = redactPreviewText s 500"

definition previewTraceText :: "string \<Rightarrow> string" where
  "previewTraceText s = redactPreviewText s 2000"

section \<open>The client\<close>

record client_options =
  co_baseUrl :: string
  co_basePath :: "string option"
  co_allowRelative :: bool
  co_bearerToken :: "string option"
  co_clientId :: "string option"
  co_resolves :: bool
  co_portalHeader :: "bool option"
  co_defaultHeaders :: "(string, string) omap"

record http_client =
  hc_surface :: string
  hc_baseUrl :: string
  hc_basePath :: string
  hc_authToken :: string
  hc_clientId :: string
  hc_portalHeader :: bool
  hc_defaultHeaders :: "(string, string) omap"
  hc_resolves :: bool

definition BaseHttpApiClient :: "string \<Rightarrow> client_options \<Rightarrow> unknown + http_client" where
  "BaseHttpApiClient surface co =
     (case normalizeBaseUrl (co_baseUrl co) (co_allowRelative co) of
        Inl e \<Rightarrow> Inl e
      | Inr baseUrl \<Rightarrow>
          Inr \<lparr>hc_surface = surface, hc_baseUrl = baseUrl, hc_basePath = normalizeBasePath (co_basePath co),
               hc_authToken = (case co_bearerToken co of Some t \<Rightarrow> trim t | None \<Rightarrow> []),
               hc_clientId = (case co_clientId co of
                   Some i \<Rightarrow> if trim i = [] then ''cavi-api-client'' else trim i
                 | None \<Rightarrow> ''cavi-api-client''),
               hc_portalHeader = (case co_portalHeader co of Some b \<Rightarrow> b | None \<Rightarrow> True),
               hc_defaultHeaders = co_defaultHeaders co, hc_resolves = co_resolves co\<rparr>)"

record request_init =
  ri_method :: "http_method option"
  ri_body :: "jv option"
  ri_rawBody :: "string option"
  ri_headers :: "(string, string) omap"
  ri_idempotencyKey :: "string option"

text \<open>The headers being built, with the spelling in use of each name.\<close>

type_synonym built = "(string, string) omap \<times> (string, string) omap"

definition build_header :: "string \<times> string \<Rightarrow> built \<Rightarrow> built" where
  "build_header h b =
     (case b of (headers, names) \<Rightarrow>
        let k = to_lower (fst h);
            headers1 = (case om_get names k of
                          Some previous \<Rightarrow> if previous \<noteq> fst h then om_del previous headers else headers
                        | None \<Rightarrow> headers)
        in (om_set (fst h) (snd h) headers1, om_set k (fst h) names))"

definition build_headers :: "(string \<times> string) list \<Rightarrow> built \<Rightarrow> built" where
  "build_headers hs b = fold build_header hs b"

text \<open>\<open>credentials\<close>: what the resolver returned, when the client has one.\<close>

definition header_layers :: "http_client \<Rightarrow> request_init \<Rightarrow> (string, string) omap \<Rightarrow> (string \<times> string) list" where
  "header_layers hc init credentials =
     [(''Accept'', ''application/json'')]
     @ (if hc_portalHeader hc then [(''X-Portal-Client-Id'', hc_clientId hc)] else [])
     @ hc_defaultHeaders hc @ ri_headers init
     @ (if hc_resolves hc then credentials
        else if hc_authToken hc \<noteq> [] then [(''Authorization'', ''Bearer '' @ hc_authToken hc)] else [])
     @ (case ri_idempotencyKey init of
          Some k \<Rightarrow> if k = [] then [] else [(''Idempotency-Key'', k)] | None \<Rightarrow> [])"

definition buildHeaders :: "http_client \<Rightarrow> request_init \<Rightarrow> (string, string) omap \<Rightarrow> (string, string) omap" where
  "buildHeaders hc init credentials =
     (let b = build_headers (header_layers hc init credentials) ([], []) in
      fst (if ri_body init \<noteq> None \<and> \<not> om_has (snd b) ''content-type''
           then build_header (''Content-Type'', ''application/json'') b else b))"

definition buildRequestBody :: "request_init \<Rightarrow> string option" where
  "buildRequestBody init =
     (case ri_rawBody init of
        Some b \<Rightarrow> Some b
      | None \<Rightarrow> (case ri_body init of None \<Rightarrow> None | Some v \<Rightarrow> json_stringify v))"

section \<open>A request\<close>

datatype abort_source = ByCaller | ByTimeout

text \<open>\<open>createRequestAbortSignal\<close>: the first abort counts.\<close>

definition abort_first :: "bool \<Rightarrow> abort_source list \<Rightarrow> abort_source option" where
  "abort_first aborted events =
     foldl (\<lambda>s e. case s of Some x \<Rightarrow> Some x | None \<Rightarrow> Some e) (if aborted then Some ByCaller else None) events"

record http_reply =
  rp_status :: int
  rp_text :: "unknown + string"
  rp_contentType :: "string option"

text \<open>\<open>ex_signal\<close>: the caller's signal, if one was passed, as the reason it has once aborted;
  \<open>ex_aborts\<close>: the aborts up to the moment an error is caught.\<close>

record exchange =
  ex_credentials :: "unknown + (string, string) omap"
  ex_signal :: "unknown option"
  ex_aborted :: bool
  ex_aborts :: "abort_source list"
  ex_fetch :: "unknown + http_reply"
  ex_startedAt :: rat
  ex_now :: rat

definition init_method :: "request_init \<Rightarrow> string" where
  "init_method init = (case ri_method init of Some m \<Rightarrow> method_text m | None \<Rightarrow> ''GET'')"

definition reply_ok :: "http_reply \<Rightarrow> bool" where
  "reply_ok r = (200 \<le> rp_status r \<and> rp_status r \<le> 299)"

definition request_url :: "http_client \<Rightarrow> string \<Rightarrow> string" where
  "request_url hc path = buildUrl (hc_baseUrl hc) (hc_basePath hc) (normalizePath path)"

definition http_trace_of ::
  "http_client \<Rightarrow> request_init \<Rightarrow> string \<Rightarrow> exchange \<Rightarrow> bool \<Rightarrow> int option \<Rightarrow> string option \<Rightarrow> http_trace" where
  "http_trace_of hc init path ex ok st err =
     \<lparr>ht_at = ex_now ex, ht_surface = hc_surface hc, ht_method = init_method init,
      ht_path = previewTraceText (normalizePath path), ht_url = previewTraceText (request_url hc path),
      ht_ok = ok, ht_status = st, ht_durationMs = ex_now ex - ex_startedAt ex, ht_error = err\<rparr>"

definition http_catch ::
  "http_client \<Rightarrow> request_init \<Rightarrow> string \<Rightarrow> exchange \<Rightarrow> bool \<Rightarrow> unknown \<Rightarrow> http_trace list \<times> unknown" where
  "http_catch hc init path ex consuming e =
     (let source = abort_first (ex_aborted ex) (ex_aborts ex);
          safe = previewErrorBody (getErrorMessage e ''Unknown error'') in
      if is_class CHttpApiError e then ([], e)
      else if source = Some ByCaller \<and> ex_signal ex \<noteq> None \<and> (Some e = ex_signal ex \<or> isAbortError e)
      then ([], the (ex_signal ex))
      else if consuming \<and> source \<noteq> Some ByTimeout then ([], e)
      else ([http_trace_of hc init path ex False None (Some safe)],
            HttpApiError (init_method init @ '' '' @ previewTraceText (normalizePath path) @ '' failed: '' @ safe)
              (normalizePath path) (request_url hc path) (init_method init) 0 []))"

definition requestWithResponse ::
  "http_client \<Rightarrow> request_init \<Rightarrow> string \<Rightarrow> exchange \<Rightarrow> (http_reply \<Rightarrow> unknown + 'a)
     \<Rightarrow> http_trace list \<times> (unknown + 'a)" where
  "requestWithResponse hc init path ex reader =
     (case (if hc_resolves hc then ex_credentials ex else Inr []) of
        Inl e \<Rightarrow> ([], Inl e)
      | Inr _ \<Rightarrow>
          let caught = (\<lambda>consuming e. apsnd Inl (http_catch hc init path ex consuming e)) in
          if ex_aborted ex then caught False (case ex_signal ex of Some r \<Rightarrow> r | None \<Rightarrow> UVal JUndef)
          else
            (case ex_fetch ex of
               Inl e \<Rightarrow> caught False e
             | Inr r \<Rightarrow>
                 if reply_ok r
                 then apfst (\<lambda>ts. http_trace_of hc init path ex True (Some (rp_status r)) None # ts)
                        (case reader r of Inr v \<Rightarrow> ([], Inr v) | Inl e \<Rightarrow> caught True e)
                 else
                   (case rp_text r of
                      Inl e \<Rightarrow> caught False e
                    | Inr t \<Rightarrow>
                        ([http_trace_of hc init path ex False (Some (rp_status r)) (Some (previewErrorBody t))],
                         Inl (HttpApiError (init_method init @ '' '' @ previewTraceText (normalizePath path)
                                @ '' failed with HTTP '' @ show_int (rp_status r))
                              (normalizePath path) (request_url hc path) (init_method init) (rp_status r) t)))))"

section \<open>JSON\<close>

definition invalid_json ::
  "request_init \<Rightarrow> string \<Rightarrow> string \<Rightarrow> string \<Rightarrow> http_reply \<Rightarrow> string \<Rightarrow> unknown" where
  "invalid_json init safePath path url r t =
     HttpApiError (init_method init @ '' '' @ safePath @ '' returned invalid JSON (content-type=''
         @ (case rp_contentType r of Some c \<Rightarrow> c | None \<Rightarrow> ''unknown'') @ ''; preview='' @ previewErrorBody (trim t) @ '')'')
       path url (init_method init) (rp_status r) t"

definition requestJson :: "http_client \<Rightarrow> request_init \<Rightarrow> string \<Rightarrow> exchange \<Rightarrow> http_trace list \<times> (unknown + jv)" where
  "requestJson hc init path ex =
     requestWithResponse hc init path ex (\<lambda>r.
       (case rp_text r of
          Inl e \<Rightarrow> Inl e
        | Inr t \<Rightarrow>
            if trim t = [] then Inr (JObj [])
            else (case json_parse t of
                    Some v \<Rightarrow> Inr v
                  | None \<Rightarrow> Inl (invalid_json init (previewTraceText (normalizePath path)) (normalizePath path)
                              (request_url hc path) r t))))"

definition cleanGatewayErrorText :: "jv \<Rightarrow> string option" where
  "cleanGatewayErrorText v =
     (case v of
        JStr s \<Rightarrow>
          (let t = rreplace (rplus RSpace) (\<lambda>_. '' '') (trim s) in
           if t = [] then None else Some (redactPreviewText t 180))
      | _ \<Rightarrow> None)"

definition as_record :: "jv \<Rightarrow> jv" where
  "as_record v = (case v of JObj m \<Rightarrow> JObj m | _ \<Rightarrow> JNull)"

definition first_some :: "'a option list \<Rightarrow> 'a option" where
  "first_some xs = (case filter (\<lambda>x. x \<noteq> None) xs of x # _ \<Rightarrow> x | [] \<Rightarrow> None)"

definition extractGatewayErrorDetails :: "jv \<Rightarrow> string option \<times> string option" where
  "extractGatewayErrorDetails payload =
     (let rec = as_record payload; err = as_record (get_prop rec ''error'') in
      (first_some [cleanGatewayErrorText (get_prop err ''message''), cleanGatewayErrorText (get_prop rec ''message''),
         cleanGatewayErrorText (get_prop rec ''error'')],
       first_some [cleanGatewayErrorText (get_prop err ''code''), cleanGatewayErrorText (get_prop rec ''code'')]))"

definition parseGatewayErrorText :: "string \<Rightarrow> string \<Rightarrow> string option \<times> string option" where
  "parseGatewayErrorText t contentType =
     (if \<not> str_includes (to_lower contentType) ''application/json'' then (None, None)
      else (case json_parse t of Some v \<Rightarrow> extractGatewayErrorDetails v | None \<Rightarrow> (None, None)))"

definition formatGatewayHttpErrorMessage ::
  "string \<Rightarrow> int \<Rightarrow> string \<Rightarrow> string option \<Rightarrow> string option \<Rightarrow> string" where
  "formatGatewayHttpErrorMessage label st statusText msg cd =
     (let l = (case cleanGatewayErrorText (JStr label) of Some x \<Rightarrow> x | None \<Rightarrow> ''Gateway API'');
          s = cleanGatewayErrorText (JStr statusText);
          detail = Option.bind msg (\<lambda>m. cleanGatewayErrorText (JStr m));
          c = Option.bind cd (\<lambda>m. cleanGatewayErrorText (JStr m));
          base = (case s of Some x \<Rightarrow> l @ '' '' @ show_int st @ '': '' @ x | None \<Rightarrow> l @ '' '' @ show_int st);
          withCode = (case c of Some x \<Rightarrow> base @ '' ['' @ x @ '']'' | None \<Rightarrow> base)
      in (case detail of
            Some d \<Rightarrow> if Some d \<noteq> s then withCode @ '' - '' @ d else withCode
          | None \<Rightarrow> withCode))"

definition buildGatewayHttpError ::
  "string \<Rightarrow> int \<Rightarrow> string \<Rightarrow> string option \<Rightarrow> string option \<Rightarrow> unknown" where
  "buildGatewayHttpError label st statusText msg cd =
     UErr (GatewayHttpError (formatGatewayHttpErrorMessage label st statusText msg cd) (num st)
       (Option.bind cd (\<lambda>m. cleanGatewayErrorText (JStr m))))"

definition json_consume :: "request_init \<Rightarrow> string \<Rightarrow> http_reply \<Rightarrow> unknown + jv" where
  "json_consume init path r =
     (case rp_text r of
        Inl e \<Rightarrow> Inl e
      | Inr t \<Rightarrow>
          if rp_status r = 204 \<or> trim t = [] then Inr (JObj [])
          else (case json_parse t of
                  Some v \<Rightarrow> Inr v
                | None \<Rightarrow> Inl (invalid_json init (redactPreviewText path 2000) path path r t)))"

text \<open>The error that \<open>JSON.parse\<close> led to, when the body was read and did not parse.\<close>

definition parse_error :: "request_init \<Rightarrow> string \<Rightarrow> exchange \<Rightarrow> unknown option" where
  "parse_error init path ex =
     (case ex_fetch ex of
        Inr r \<Rightarrow>
          (case rp_text r of
             Inr t \<Rightarrow>
               if reply_ok r \<and> \<not> ex_aborted ex \<and> rp_status r \<noteq> 204 \<and> trim t \<noteq> [] \<and> json_parse t = None
               then Some (invalid_json init (redactPreviewText path 2000) path path r t) else None
           | Inl _ \<Rightarrow> None)
      | Inl _ \<Rightarrow> None)"

definition status_of :: "unknown \<Rightarrow> int" where
  "status_of e = (case err_prop e ''status'' of JNum (Fin q) \<Rightarrow> \<lfloor>q\<rfloor> | _ \<Rightarrow> 0)"

definition str_prop :: "unknown \<Rightarrow> string \<Rightarrow> string" where
  "str_prop e k = (case err_prop e k of JStr s \<Rightarrow> s | _ \<Rightarrow> [])"

definition requestJsonBody :: "http_client \<Rightarrow> request_init \<Rightarrow> string \<Rightarrow> exchange \<Rightarrow> http_trace list \<times> (unknown + jv)" where
  "requestJsonBody hc init path ex =
     (case requestWithResponse hc init path ex (json_consume init path) of
        (ts, Inr v) \<Rightarrow> (ts, Inr v)
      | (ts, Inl e) \<Rightarrow>
          (ts, Inl
             (if (ex_aborted ex \<or> ByCaller \<in> set (ex_aborts ex)) \<and> Some e = ex_signal ex then e
              else if parse_error init path ex = Some e then e
              else if is_class CHttpApiError e \<and> 0 < status_of e
              then (case parseGatewayErrorText (str_prop e ''body'') ''application/json'' of
                      (msg, cd) \<Rightarrow> buildGatewayHttpError (str_prop e ''path'') (status_of e) [] msg cd)
              else e)))"

section \<open>Headers\<close>

lemma header_value_iff:
  assumes "headers_ok hs"
  shows "header_value hs nm = Some v \<longleftrightarrow> (\<exists>k. om_get hs k = Some v \<and> to_lower k = to_lower nm)"
proof -
  have ok: "distinct (map fst hs)" using headers_ok_om_ok [OF assms] by (simp add: om_ok_def)
  have uniq: "h \<in> set hs \<Longrightarrow> h' \<in> set hs \<Longrightarrow> to_lower (fst h) = to_lower (fst h') \<Longrightarrow> h = h'" for h h'
    using assms by (auto simp: headers_ok_def distinct_map inj_on_def)
  show ?thesis
  proof
    assume "header_value hs nm = Some v"
    then obtain h where "find (\<lambda>h. same_header (fst h) nm) hs = Some h" "snd h = v"
      by (auto simp: header_value_def)
    then have "h \<in> set hs" "snd h = v" "to_lower (fst h) = to_lower nm"
      by (auto simp: find_Some_iff same_header_def)
    with ok show "\<exists>k. om_get hs k = Some v \<and> to_lower k = to_lower nm"
      by (intro exI [of _ "fst h"]) (auto intro!: map_of_is_SomeI)
  next
    assume "\<exists>k. om_get hs k = Some v \<and> to_lower k = to_lower nm"
    then obtain k where k: "(k, v) \<in> set hs" "to_lower k = to_lower nm" by (auto dest: map_of_SomeD)
    then have "find (\<lambda>h. same_header (fst h) nm) hs \<noteq> None" by (auto simp: find_None_iff same_header_def)
    then obtain h where h: "find (\<lambda>h. same_header (fst h) nm) hs = Some h" by blast
    then have "h \<in> set hs" "to_lower (fst h) = to_lower nm" by (auto simp: find_Some_iff same_header_def)
    with uniq [of h "(k, v)"] k h show "header_value hs nm = Some v" by (simp add: header_value_def)
  qed
qed

definition spelled :: "built \<Rightarrow> bool" where
  "spelled b = (headers_ok (fst b) \<and> (\<forall>k p. om_get (snd b) k = Some p \<longleftrightarrow> om_has (fst b) p \<and> to_lower p = k))"

lemma headers_ok_append:
  "headers_ok (hs @ [h]) \<longleftrightarrow> headers_ok hs \<and> (\<forall>p. om_has hs p \<longrightarrow> to_lower p \<noteq> to_lower (fst h))"
proof -
  have image: "y \<notin> f ` S \<longleftrightarrow> (\<forall>x. x \<in> S \<longrightarrow> f x \<noteq> y)" for y :: string and f :: "string \<Rightarrow> string" and S
    by auto
  have "(\<forall>p. om_has hs p \<longrightarrow> to_lower p \<noteq> to_lower (fst h)) \<longleftrightarrow> to_lower (fst h) \<notin> to_lower ` fst ` set hs"
    by (simp only: om_has_iff image [of _ to_lower])
  then show ?thesis unfolding headers_ok_def map_append distinct_append set_map by simp
qed

lemma headers_ok_del: "headers_ok hs \<Longrightarrow> headers_ok (om_del p hs)"
  by (simp add: AList.delete_eq headers_ok_filter case_prod_unfold)

lemma build_header_spelled:
  assumes "spelled b"
  shows "spelled (build_header h b)"
    and "header_value (fst (build_header h b)) nm =
      (if same_header (fst h) nm then Some (snd h) else header_value (fst b) nm)"
proof -
  obtain H N where b: "b = (H, N)" by fastforce
  let ?k = "to_lower (fst h)"
  define H1 where "H1 = (case om_get N ?k of Some p \<Rightarrow> if p \<noteq> fst h then om_del p H else H | None \<Rightarrow> H)"
  have out: "build_header h b = (om_set (fst h) (snd h) H1, om_set ?k (fst h) N)"
    by (simp add: build_header_def b H1_def Let_def)
  have ok: "headers_ok H" and N: "om_get N k = Some p \<longleftrightarrow> om_has H p \<and> to_lower p = k" for k p
    using assms by (auto simp: spelled_def b)
  have uniq: "om_has H p \<Longrightarrow> om_has H p' \<Longrightarrow> to_lower p = to_lower p' \<Longrightarrow> p = p'" for p p'
    using N [of "to_lower p" p] N [of "to_lower p" p'] by simp
  have del: "om_has (om_del p H) x \<longleftrightarrow> x \<noteq> p \<and> om_has H x" for p x
    by (auto simp: om_has_def)
  have has1: "om_has H1 x \<longleftrightarrow> om_has H x \<and> (to_lower x = ?k \<longrightarrow> x = fst h)" for x
  proof (cases "om_get N ?k")
    case None
    then show ?thesis using N [of ?k x] by (auto simp: H1_def)
  next
    case (Some p)
    then have "om_has H p" "to_lower p = ?k" using N by blast+
    with Some uniq [of p x] show ?thesis by (auto simp: H1_def del)
  qed
  have get1: "to_lower x \<noteq> ?k \<Longrightarrow> om_get H1 x = om_get H x" for x
    using N [of ?k] by (auto simp: H1_def split: option.split)
  have ok1: "headers_ok H1" using ok by (auto simp: H1_def headers_ok_del split: option.split)
  have okS: "headers_ok (om_set (fst h) (snd h) H1)"
  proof (cases "om_has H1 (fst h)")
    case True
    then have "map fst (om_set (fst h) (snd h) H1) = map fst H1" by (simp add: update_keys om_has_iff)
    with ok1 show ?thesis by (simp add: headers_ok_def)
  next
    case False
    with has1 have "\<forall>p. om_has H1 p \<longrightarrow> to_lower p \<noteq> ?k" by auto
    with False ok1 show ?thesis by (simp add: om_set_fresh headers_ok_append)
  qed
  have hasS: "om_has (om_set (fst h) (snd h) H1) x \<longleftrightarrow> x = fst h \<or> om_has H1 x" for x
    by (auto simp: om_has_def)
  have "om_get (om_set ?k (fst h) N) k = Some p
      \<longleftrightarrow> om_has (om_set (fst h) (snd h) H1) p \<and> to_lower p = k" for k p
    using N [of k p] by (auto simp: hasS has1)
  with okS show "spelled (build_header h b)" by (simp add: spelled_def out)
  have ext: "(\<exists>k. om_get (om_set (fst h) (snd h) H1) k = Some v \<and> to_lower k = to_lower nm) \<longleftrightarrow>
    (if same_header (fst h) nm then snd h = v else \<exists>k. om_get H k = Some v \<and> to_lower k = to_lower nm)" for v
  proof (cases "same_header (fst h) nm")
    case True
    have "om_get H1 k = None" if "k \<noteq> fst h" "to_lower k = ?k" for k
      using has1 [of k] that by (auto simp: om_has_def)
    with True show ?thesis by (auto simp: same_header_def)
  next
    case False
    then have l: "?k \<noteq> to_lower nm" by (simp add: same_header_def)
    then have "to_lower k = to_lower nm \<Longrightarrow> om_get (om_set (fst h) (snd h) H1) k = om_get H k" for k
      using get1 [of k] by auto
    with False show ?thesis by (simp only: if_False) metis
  qed
  show "header_value (fst (build_header h b)) nm =
      (if same_header (fst h) nm then Some (snd h) else header_value (fst b) nm)"
  proof -
    have "header_value (fst (build_header h b)) nm = Some v \<longleftrightarrow>
        (if same_header (fst h) nm then Some (snd h) else header_value (fst b) nm) = Some v" for v
    proof -
      have "fst (build_header h b) = om_set (fst h) (snd h) H1" "fst b = H"
        by (subst out, simp) (simp add: b)
      with ext [of v] show ?thesis by (simp add: header_value_iff [OF okS] header_value_iff [OF ok])
    qed
    then show ?thesis by (metis option.exhaust)
  qed
qed

lemma build_headers_spelled:
  "spelled b \<Longrightarrow> spelled (build_headers hs b) \<and> header_value (fst (build_headers hs b)) nm =
     (case find (\<lambda>h. same_header (fst h) nm) (rev hs) of Some h \<Rightarrow> Some (snd h) | None \<Rightarrow> header_value (fst b) nm)"
proof (induction hs arbitrary: b)
  case (Cons h hs)
  from Cons.IH [OF build_header_spelled(1) [OF Cons.prems]] show ?case
    by (auto simp: build_headers_def find_append build_header_spelled(2) [OF Cons.prems] split: option.splits)
qed (simp add: build_headers_def)

text \<open>The headers of a request. No two names differ only in case. A name has the value of the last
  layer that sets it: the idempotency key, then the resolver's credentials or else the bearer token,
  the request's headers, the client's defaults, the client id, and \<open>Accept\<close>; and \<open>Content-Type\<close> is JSON
  for a request with a body exactly when no layer sets it.\<close>

theorem request_headers_layered:
  "let hs = buildHeaders hc init credentials;
       layer = find (\<lambda>h. same_header (fst h) nm) (rev (header_layers hc init credentials))
   in distinct (map to_lower (map fst hs))
      \<and> header_value hs nm =
          (case layer of
             Some h \<Rightarrow> Some (snd h)
           | None \<Rightarrow> if same_header ''Content-Type'' nm \<and> ri_body init \<noteq> None then Some ''application/json'' else None)"
proof -
  define b where "b = build_headers (header_layers hc init credentials) ([], [])"
  have nil: "spelled ([], [])" by (simp add: spelled_def headers_ok_def om_has_def)
  have ct: "to_lower ''Content-Type'' = ''content-type''" by code_simp
  from build_headers_spelled [OF nil, of "header_layers hc init credentials" nm]
  have sp: "spelled b" and val: "header_value (fst b) nm =
     (case find (\<lambda>h. same_header (fst h) nm) (rev (header_layers hc init credentials)) of
        Some h \<Rightarrow> Some (snd h) | None \<Rightarrow> None)"
    by (auto simp: b_def header_value_def split: option.splits)
  have has: "om_has (snd b) ''content-type'' \<longleftrightarrow> header_value (fst b) ''Content-Type'' \<noteq> None"
  proof -
    from sp have ok: "headers_ok (fst b)" and
      n: "\<And>p. om_get (snd b) ''content-type'' = Some p \<longleftrightarrow> om_has (fst b) p \<and> to_lower p = ''content-type''"
      by (auto simp: spelled_def)
    have "om_has (snd b) ''content-type'' \<longleftrightarrow> (\<exists>p. om_has (fst b) p \<and> to_lower p = ''content-type'')"
      using n by (auto simp: om_has_def)
    also have "\<dots> \<longleftrightarrow> (\<exists>v. header_value (fst b) ''Content-Type'' = Some v)"
      by (auto simp: header_value_iff [OF ok] ct om_has_def)
    finally show ?thesis by auto
  qed
  have out: "buildHeaders hc init credentials =
     fst (if ri_body init \<noteq> None \<and> \<not> om_has (snd b) ''content-type''
          then build_header (''Content-Type'', ''application/json'') b else b)"
    by (simp only: buildHeaders_def b_def [symmetric] Let_def)
  have same: "same_header ''Content-Type'' nm \<Longrightarrow> header_value hs nm = header_value hs ''Content-Type''" for hs
    by (simp add: header_value_def same_header_def)
  show ?thesis
  proof (cases "ri_body init \<noteq> None \<and> \<not> om_has (snd b) ''content-type''")
    case True
    with build_header_spelled [OF sp, of "(''Content-Type'', ''application/json'')"] val has same [of "fst b"] show ?thesis
      by (auto simp: out spelled_def headers_ok_def Let_def split: option.splits)
  next
    case False
    with sp val has same [of "fst b"] show ?thesis
      by (auto simp: out spelled_def headers_ok_def Let_def split: option.splits)
  qed
qed

section \<open>Queries\<close>

text \<open>Reading a query back: what a server does with it.\<close>

fun form_decode :: "string \<Rightarrow> string" where
  "form_decode (c # s) =
     (if c = CHR ''+'' then CHR '' '' # form_decode s
      else if c = CHR ''%'' then
        (case s of
           a # b # r \<Rightarrow>
             (case (hex_val a, hex_val b) of
                (Some x, Some y) \<Rightarrow> char_of (16 * x + y) # form_decode r
              | _ \<Rightarrow> c # form_decode s)
         | _ \<Rightarrow> c # form_decode s)
      else c # form_decode s)"
| "form_decode [] = []"

fun split_on :: "char \<Rightarrow> string \<Rightarrow> string list" where
  "split_on d [] = [[]]"
| "split_on d (c # s) =
     (if c = d then [] # split_on d s
      else (case split_on d s of x # xs \<Rightarrow> (c # x) # xs | [] \<Rightarrow> [[c]]))"

definition query_pairs :: "string \<Rightarrow> (string \<times> string) list" where
  "query_pairs q =
     (if q = [] then []
      else map (\<lambda>p. (form_decode (takeWhile (\<lambda>c. c \<noteq> CHR ''='') p),
                     form_decode (drop 1 (dropWhile (\<lambda>c. c \<noteq> CHR ''='') p)))) (split_on (CHR ''&'') q))"

text \<open>The bytes that are written as they are, and the digits of the others.\<close>

lemma upper_hex_val: "n < 16 \<Longrightarrow> hex_val (upper_hex n) = Some n"
  by (auto simp: upper_hex_def hex_val_def Let_def)

definition form_safe :: "char \<Rightarrow> bool" where
  "form_safe c = (is_alnum c \<or> c \<in> set ''*-._'')"

lemma form_safe_char: "form_safe c \<Longrightarrow> c \<noteq> CHR ''+'' \<and> c \<noteq> CHR ''%'' \<and> c \<noteq> CHR ''&'' \<and> c \<noteq> CHR ''='' \<and> c \<noteq> CHR ''#''"
  by (auto simp: form_safe_def is_alnum_def Let_def to_lower_char_def is_digit_def)

lemma form_char_cases:
  "form_safe c \<and> form_char c = [c]
   \<or> c = CHR '' '' \<and> form_char c = ''+''
   \<or> (\<exists>a b. form_char c = [CHR ''%'', a, b] \<and> hex_val a = Some (of_char c div 16) \<and> hex_val b = Some (of_char c mod 16)
        \<and> form_safe a \<and> form_safe b)"
proof -
  have "form_safe (upper_hex n)" if "n < 16" for n
    using that by (auto simp: form_safe_def upper_hex_def is_alnum_def is_digit_def to_lower_char_def Let_def)
  moreover have "(of_char c :: nat) div 16 < 16" using nat_of_char_less_256 [of c] by linarith
  ultimately show ?thesis
    using upper_hex_val by (auto simp: form_char_def form_safe_def)
qed

lemma decode_char: "form_decode (form_char c @ s) = c # form_decode s"
proof -
  consider "form_safe c" "form_char c = [c]" | "c = CHR '' ''" "form_char c = ''+''"
    | a b where "form_char c = [CHR ''%'', a, b]" "hex_val a = Some (of_char c div 16)" "hex_val b = Some (of_char c mod 16)"
    using form_char_cases [of c] by blast
  then show ?thesis
  proof cases
    case 1
    with form_safe_char [of c] show ?thesis by simp
  next
    case 3
    have "16 * (of_char c div 16) + of_char c mod 16 = (of_char c :: nat)" by simp
    with 3 show ?thesis by (simp del: mult_div_mod_eq)
  qed simp
qed

lemma decode_text: "form_decode (form_text s @ r) = s @ form_decode r"
  by (induction s) (simp_all add: form_text_def decode_char)

definition inert :: "char \<Rightarrow> bool" where
  "inert c = (c \<noteq> CHR ''&'' \<and> c \<noteq> CHR ''='' \<and> c \<noteq> CHR ''#'')"

lemma form_text_inert: "c \<in> set (form_text s) \<Longrightarrow> inert c"
proof -
  assume "c \<in> set (form_text s)"
  then obtain x where "c \<in> set (form_char x)" by (auto simp: form_text_def)
  with form_char_cases [of x] have "form_safe c \<or> c = CHR ''+'' \<or> c = CHR ''%''" by auto
  with form_safe_char [of c] show "inert c" by (auto simp: inert_def)
qed

lemma split_plain: "d \<notin> set x \<Longrightarrow> split_on d x = [x]"
  by (induction x) auto

lemma split_cons: "d \<notin> set x \<Longrightarrow> split_on d (x @ d # s) = x # split_on d s"
  by (induction x) auto

lemma split_char_join: "xs \<noteq> [] \<Longrightarrow> \<forall>x \<in> set xs. d \<notin> set x \<Longrightarrow> split_on d (join_with [d] xs) = xs"
proof (induction xs)
  case (Cons x xs)
  then show ?case by (cases xs) (simp_all add: split_plain split_cons)
qed simp

lemma pair_parts:
  "takeWhile (\<lambda>c. c \<noteq> CHR ''='') (form_pair p) = form_text (fst p)"
  "drop 1 (dropWhile (\<lambda>c. c \<noteq> CHR ''='') (form_pair p)) = form_text (snd p)"
proof -
  have "\<forall>c \<in> set (form_text (fst p)). c \<noteq> CHR ''=''"
    using form_text_inert by (auto simp: inert_def)
  then show "takeWhile (\<lambda>c. c \<noteq> CHR ''='') (form_pair p) = form_text (fst p)"
    "drop 1 (dropWhile (\<lambda>c. c \<noteq> CHR ''='') (form_pair p)) = form_text (snd p)"
    by (simp_all add: form_pair_def takeWhile_append dropWhile_append)
qed

lemma decode_plain: "form_decode (form_text s) = s"
  using decode_text [of s "[]"] by simp

text \<open>A query says what it was given. Reading the query that \<open>withQuery\<close> prints gives back the
  parameters that are not \<open>undefined\<close>, byte for byte and in order; it is put at the end of the path's
  own query, after a separator, and before the fragment, which is kept; and without parameters the
  path is unchanged.\<close>

theorem query_roundtrip:
  "query_pairs (query_text params) = present params
   \<and> (if present params = [] then withQuery path params = path
      else \<exists>sep. withQuery path params =
             takeWhile (\<lambda>c. c \<noteq> CHR ''#'') path @ sep @ query_text params @ dropWhile (\<lambda>c. c \<noteq> CHR ''#'') path
           \<and> sep \<in> {[], ''?'', ''&''} \<and> CHR ''?'' \<in> set (takeWhile (\<lambda>c. c \<noteq> CHR ''#'') path @ sep)
           \<and> CHR ''#'' \<notin> set (query_text params))"
proof -
  have amp: "\<forall>x \<in> set (map form_pair ps). CHR ''&'' \<notin> set x" for ps
    using form_text_inert by (auto simp: form_pair_def inert_def)
  have nonempty: "query_text params = [] \<longleftrightarrow> present params = []"
    by (cases "present params"; cases "tl (present params)") (simp_all add: query_text_def form_pair_def)
  have "query_pairs (query_text params) = present params"
  proof (cases "present params = []")
    case False
    then have "split_on (CHR ''&'') (query_text params) = map form_pair (present params)"
      unfolding query_text_def by (intro split_char_join amp) simp
    moreover have "query_text params \<noteq> []" using False nonempty by simp
    ultimately show ?thesis by (simp only: query_pairs_def if_False map_map comp_def pair_parts decode_plain) simp
  qed (simp add: query_text_def query_pairs_def)
  moreover have "CHR ''#'' \<notin> set (join_with ''&'' (map form_pair ps))" for ps
  proof (induction ps)
    case (Cons p ps)
    have "CHR ''#'' \<notin> set (form_pair p)" using form_text_inert by (auto simp: form_pair_def inert_def)
    with Cons show ?case by (cases ps) auto
  qed simp
  ultimately show ?thesis
    using nonempty by (auto simp: withQuery_def Let_def query_text_def)
qed

section \<open>Outcomes\<close>

lemma HttpApiError_class: "is_class CHttpApiError (HttpApiError msg path url method st body)"
  by (simp add: HttpApiError_def is_class_def mk_error_def)

lemma http_catch_cases:
  "case http_catch hc init path ex consuming e of (ts, e') \<Rightarrow>
     (if is_class CHttpApiError e then ts = [] \<and> e' = e
      else ts = [] \<and> Some e' = ex_signal ex \<and> abort_first (ex_aborted ex) (ex_aborts ex) = Some ByCaller
        \<or> ts = [] \<and> e' = e \<and> consuming \<and> abort_first (ex_aborted ex) (ex_aborts ex) \<noteq> Some ByTimeout
        \<or> (\<exists>err. ts = [http_trace_of hc init path ex False None (Some err)]) \<and> is_class CHttpApiError e')"
  by (auto simp: http_catch_def Let_def HttpApiError_class)

text \<open>How a request ends. It succeeds only with what its reader made of a success reply to a request
  that was not aborted before, after one successful trace. Otherwise it rejects with the error of the
  credentials, before anything is sent or traced; the caller's abort reason, only when the caller's
  abort came first; an \<open>HttpApiError\<close>; or the reader's own error, unless the deadline passed first. So
  a deadline that comes first never shows as anything but success or an \<open>HttpApiError\<close>. At most one
  trace says that the request failed, and every trace shows the previewed path and URL.\<close>

theorem request_ends:
  "case requestWithResponse hc init path ex reader of (ts, r) \<Rightarrow>
     (case r of
        Inr v \<Rightarrow> \<not> ex_aborted ex \<and> (\<exists>rep. ex_fetch ex = Inr rep \<and> reply_ok rep \<and> reader rep = Inr v
            \<and> ts = [http_trace_of hc init path ex True (Some (rp_status rep)) None])
      | Inl e \<Rightarrow>
          hc_resolves hc \<and> ex_credentials ex = Inl e \<and> ts = []
          \<or> Some e = ex_signal ex \<and> abort_first (ex_aborted ex) (ex_aborts ex) = Some ByCaller
          \<or> is_class CHttpApiError e
          \<or> abort_first (ex_aborted ex) (ex_aborts ex) \<noteq> Some ByTimeout
             \<and> (\<exists>rep. ex_fetch ex = Inr rep \<and> reply_ok rep \<and> reader rep = Inl e))
     \<and> length (filter (\<lambda>t. \<not> ht_ok t) ts) \<le> 1
     \<and> list_all (\<lambda>t. ht_path t = previewTraceText (normalizePath path)
          \<and> ht_url t = previewTraceText (request_url hc path)) ts"
proof -
  have catch: "length (filter (\<lambda>t. \<not> ht_ok t) (fst (http_catch hc init path ex c e))) \<le> 1
     \<and> list_all (\<lambda>t. ht_path t = previewTraceText (normalizePath path)
          \<and> ht_url t = previewTraceText (request_url hc path)) (fst (http_catch hc init path ex c e))" for c e
    using http_catch_cases [where hc = hc and init = init and path = path and ex = ex and consuming = c and e = e]
    by (auto simp: http_trace_of_def split: prod.splits if_splits)
  have err: "Some (snd (http_catch hc init path ex c e)) = ex_signal ex
        \<and> abort_first (ex_aborted ex) (ex_aborts ex) = Some ByCaller
      \<or> is_class CHttpApiError (snd (http_catch hc init path ex c e))
      \<or> c \<and> snd (http_catch hc init path ex c e) = e \<and> abort_first (ex_aborted ex) (ex_aborts ex) \<noteq> Some ByTimeout"
    for c e
    using http_catch_cases [where hc = hc and init = init and path = path and ex = ex and consuming = c and e = e] by (auto split: prod.splits if_splits)
  show ?thesis
  proof (cases "if hc_resolves hc then ex_credentials ex else Inr []")
    case (Inl e)
    then show ?thesis by (auto simp: requestWithResponse_def split: if_splits)
  next
    case cred: (Inr x)
    show ?thesis
    proof (cases "ex_aborted ex")
      case True
      with cred catch [of False "case ex_signal ex of Some r \<Rightarrow> r | None \<Rightarrow> UVal JUndef"]
          err [of False "case ex_signal ex of Some r \<Rightarrow> r | None \<Rightarrow> UVal JUndef"] show ?thesis
        by (auto simp: requestWithResponse_def Let_def apsnd_def map_prod_def split: prod.splits)
    next
      case na: False
      show ?thesis
      proof (cases "ex_fetch ex")
        case (Inl e)
        with cred na catch [of False e] err [of False e] show ?thesis
          by (auto simp: requestWithResponse_def Let_def apsnd_def map_prod_def split: prod.splits)
      next
        case f: (Inr rep)
        show ?thesis
        proof (cases "reply_ok rep")
          case ok: True
          show ?thesis
          proof (cases "reader rep")
            case (Inl e)
            with cred na f ok catch [of True e] err [of True e] show ?thesis
              by (auto simp: requestWithResponse_def Let_def apsnd_def apfst_def map_prod_def http_trace_of_def
                  split: prod.splits)
          next
            case (Inr v)
            with cred na f ok show ?thesis
              by (simp add: requestWithResponse_def Let_def http_trace_of_def)
          qed
        next
          case False
          show ?thesis
          proof (cases "rp_text rep")
            case (Inl e)
            with cred na f False catch [of False e] err [of False e] show ?thesis
              by (auto simp: requestWithResponse_def Let_def apsnd_def map_prod_def split: prod.splits)
          next
            case (Inr t)
            with cred na f False show ?thesis
              by (simp add: requestWithResponse_def Let_def http_trace_of_def HttpApiError_class)
          qed
        qed
      qed
    qed
  qed
qed

section \<open>From a status to a gap\<close>

text \<open>The fields of the gateway's error.\<close>

lemma gateway_error_fields:
  fixes label statusText :: string and st :: int and msg cd :: "string option"
  defines "e \<equiv> buildGatewayHttpError label st statusText msg cd"
  shows "is_class CGatewayHttpError e" "\<not> is_class CGatewayRpcError e" "\<not> is_class CCapabilityCallRejected e"
    "err_prop e ''status'' = JNum (num st)" "getErrorStatus e = Some (num st)"
    "getErrorType e \<noteq> Some (type_text TAuth)"
  by (simp_all add: e_def buildGatewayHttpError_def GatewayHttpError_def is_class_def mk_error_def err_prop_def
      getErrorStatus_def isErrRecord_def num_def getErrorType_def readStringProperty_def type_text_def)

lemma http_error_fields:
  fixes msg path url meth body :: string and st :: int
  defines "e \<equiv> HttpApiError msg path url meth st body"
  shows "status_of e = st" "str_prop e ''body'' = body" "str_prop e ''path'' = path"
  by (simp_all add: e_def HttpApiError_def mk_error_def status_of_def str_prop_def err_prop_def num_def)

text \<open>The reason of the gap for an HTTP status.\<close>

definition gap_of_status :: "int \<Rightarrow> ContractGapReason" where
  "gap_of_status st =
     (if st = 404 then GapEndpointNotFound else if st < 500 then GapRequestInvalid else GapBackendUnavailable)"

lemma status_reason_gap: "400 \<le> st \<Longrightarrow> status_reason (num st) = Some (gap_of_status st)"
  by (auto simp: status_reason_def gap_of_status_def num_def)

text \<open>C5: From the wire to the gap. A reply with an error status, to a request of the JSON client that was
  not aborted, is traced once as a failure with that status and rejects with a \<open>GatewayHttpError\<close> of the
  same status, whatever the body holds; a capability call that fails with it rethrows it when the
  status is 401 or 403 or the body names an authentication code, and otherwise gives a gap with that
  status: not found for 404, request invalid for the other 4xx, backend unavailable for 5xx.\<close>

theorem http_status_to_gap:
  assumes "ex_fetch ex = Inr rep" and "rp_text rep = Inr t" and "400 \<le> rp_status rep"
    and "\<not> ex_aborted ex" and "ByCaller \<notin> set (ex_aborts ex)" and "\<not> hc_resolves hc"
  shows "case requestJsonBody hc init path ex of (ts, r) \<Rightarrow>
     ts = [http_trace_of hc init path ex False (Some (rp_status rep)) (Some (previewErrorBody t))]
     \<and> (\<exists>e. r = Inl e \<and> is_class CGatewayHttpError e \<and> err_prop e ''status'' = JNum (num (rp_status rep))
         \<and> (case shaped area call (Inl e :: unknown + 'a) of
              Inl e' \<Rightarrow> e' = e \<and> (rp_status rep \<in> {401, 403}
                 \<or> getErrorCode e \<in> {Some (code_text AuthRequired), Some (code_text AuthForbidden)})
            | Inr (GapResult g) \<Rightarrow> rp_status rep \<notin> {401, 403} \<and> cg_status g = Some (num (rp_status rep))
                 \<and> cg_reason g = Some (gap_of_status (rp_status rep))
            | Inr (LiveResult _) \<Rightarrow> False))"
proof -
  define h where "h = HttpApiError (init_method init @ '' '' @ previewTraceText (normalizePath path)
       @ '' failed with HTTP '' @ show_int (rp_status rep)) (normalizePath path) (request_url hc path) (init_method init)
       (rp_status rep) t"
  have no: "\<not> reply_ok rep" using assms(3) by (simp add: reply_ok_def)
  have req: "requestWithResponse hc init path ex (json_consume init path) =
      ([http_trace_of hc init path ex False (Some (rp_status rep)) (Some (previewErrorBody t))], Inl h)"
    using assms(1,2,4,6) no by (simp add: requestWithResponse_def Let_def h_def)
  have pe: "parse_error init path ex = None" using assms(1,2) no by (simp add: parse_error_def)
  obtain msg cd where d: "parseGatewayErrorText t ''application/json'' = (msg, cd)" by fastforce
  let ?e = "buildGatewayHttpError (normalizePath path) (rp_status rep) [] msg cd"
  have c: "is_class CHttpApiError h" unfolding h_def by (rule HttpApiError_class)
  have f: "status_of h = rp_status rep" "str_prop h ''body'' = t" "str_prop h ''path'' = normalizePath path"
    unfolding h_def by (rule http_error_fields)+
  have out: "requestJsonBody hc init path ex =
      ([http_trace_of hc init path ex False (Some (rp_status rep)) (Some (previewErrorBody t))], Inl ?e)"
    using assms(3,4,5) c f d pe by (simp add: requestJsonBody_def req)
  note g = gateway_error_fields [of "normalizePath path" "rp_status rep" "[]" msg cd]
  have auth: "isAuthError ?e \<longleftrightarrow> rp_status rep \<in> {401, 403}
       \<or> getErrorCode ?e \<in> {Some (code_text AuthRequired), Some (code_text AuthForbidden)}"
    using g(5,6) by (auto simp: isAuthError_def num_def)
  have gap: "case shaped area call (Inl ?e :: unknown + 'a) of
              Inl e' \<Rightarrow> e' = ?e \<and> isAuthError ?e
            | Inr (GapResult g) \<Rightarrow> \<not> isAuthError ?e \<and> cg_status g = Some (num (rp_status rep))
                 \<and> cg_reason g = Some (gap_of_status (rp_status rep))
            | Inr (LiveResult _) \<Rightarrow> False"
    using g status_reason_gap [OF assms(3)]
    by (simp add: shaped_def classifyCapabilityFailure_def fallbackGap_def split: sum.splits CapabilityResult.splits)
  from gap auth g(1,4) show ?thesis
    by (auto simp: out split: sum.splits CapabilityResult.splits)
qed

definition wit_client :: http_client where
  "wit_client = \<lparr>hc_surface = ''s'', hc_baseUrl = ''http://h'', hc_basePath = [], hc_authToken = [],
     hc_clientId = ''c'', hc_portalHeader = True, hc_defaultHeaders = [], hc_resolves = False\<rparr>"

definition wit_exchange :: exchange where
  "wit_exchange = \<lparr>ex_credentials = Inr [], ex_signal = None, ex_aborted = False, ex_aborts = [],
     ex_fetch = Inr \<lparr>rp_status = 422, rp_text = Inr [], rp_contentType = None\<rparr>, ex_startedAt = 0, ex_now = 5\<rparr>"

theorem http_status_to_gap_witness:
  "\<forall>init. \<exists>ts e. requestJsonBody wit_client init ''/x'' wit_exchange = (ts, Inl e) \<and> length ts = 1
     \<and> err_prop e ''status'' = JNum (num 422)"
proof
  fix init
  have "ex_fetch wit_exchange = Inr \<lparr>rp_status = 422, rp_text = Inr [], rp_contentType = None\<rparr>"
    "\<not> ex_aborted wit_exchange" "ByCaller \<notin> set (ex_aborts wit_exchange)" "\<not> hc_resolves wit_client"
    by (simp_all add: wit_exchange_def wit_client_def)
  from http_status_to_gap [OF this(1) _ _ this(2,3,4), of "[]" init "''/x''" "''a''" "''c''", where 'a = unit]
  show "\<exists>ts e. requestJsonBody wit_client init ''/x'' wit_exchange = (ts, Inl e) \<and> length ts = 1
     \<and> err_prop e ''status'' = JNum (num 422)"
    by (auto split: prod.splits)
qed

end
