(* ===== verification/UriPath.thy ===== *)
theory UriPath
  imports HttpClient
begin

text \<open>
  Paths and their escapes: \<open>encodeURIComponent\<close> and \<open>decodeURIComponent\<close>, the path checks of
  \<open>src/contracts/team-manifest/normalize.ts\<close> and the public companion of one of them,
  \<open>assertSafeRelativePath\<close> of \<open>src/contracts/paths.ts\<close>, with the endpoint tables of that file. The
  lemmas say that escaping is undone by decoding, that normalising a path twice changes nothing, and that
  no accepted path has a segment that climbs, before or after one decoding.
\<close>

section \<open>Fallible steps\<close>

text \<open>A statement that may throw, followed by the rest of the function.\<close>

definition and_then :: "'e + 'a \<Rightarrow> ('a \<Rightarrow> 'e + 'b) \<Rightarrow> 'e + 'b" where
  "and_then r f = (case r of Inl e \<Rightarrow> Inl e | Inr x \<Rightarrow> f x)"

text \<open>A fallible function over a list, left to right, until the first error.\<close>

fun each :: "('a \<Rightarrow> 'e + 'b) \<Rightarrow> 'a list \<Rightarrow> 'e + 'b list" where
  "each f [] = Inr []"
| "each f (x # xs) = and_then (f x) (\<lambda>y. and_then (each f xs) (\<lambda>ys. Inr (y # ys)))"

text \<open>A fallible function of an optional value.\<close>

definition maybe :: "('a \<Rightarrow> 'e + 'b) \<Rightarrow> 'a option \<Rightarrow> 'e + 'b option" where
  "maybe f x = (case x of None \<Rightarrow> Inr None | Some v \<Rightarrow> and_then (f v) (\<lambda>w. Inr (Some w)))"

lemma and_then_simps [simp]: "and_then (Inr x) f = f x" "and_then (Inl e) f = Inl e"
  by (simp_all add: and_then_def)

lemma and_then_Inr: "and_then r f = Inr y \<longleftrightarrow> (\<exists>x. r = Inr x \<and> f x = Inr y)"
  by (cases r) simp_all

lemma and_then_Inl: "and_then r f = Inl e \<longleftrightarrow> r = Inl e \<or> (\<exists>x. r = Inr x \<and> f x = Inl e)"
  by (cases r) auto

lemma each_Inr: "each f xs = Inr ys \<longleftrightarrow> list_all2 (\<lambda>x y. f x = Inr y) xs ys"
  by (induction xs arbitrary: ys) (auto simp: and_then_Inr list_all2_Cons1)

lemma maybe_Inr: "maybe f x = Inr y \<longleftrightarrow> rel_option (\<lambda>a b. f a = Inr b) x y"
  by (cases x; cases y) (auto simp: maybe_def and_then_Inr)

lemma maybe_None [simp]: "maybe f None = Inr None"
  by (simp add: maybe_def)

section \<open>Optional text\<close>

text \<open>\<open>nonEmpty\<close>: \<open>null\<close>, \<open>undefined\<close> and blank text are all \<open>null\<close>.\<close>

definition nonEmpty :: "string option \<Rightarrow> string option" where
  "nonEmpty value =
     (case value of None \<Rightarrow> None | Some s \<Rightarrow> if trim s = [] then None else Some (trim s))"

definition requiredText :: "string option \<Rightarrow> string \<Rightarrow> jserror + string" where
  "requiredText value label =
     (case nonEmpty value of
        None \<Rightarrow> Inl (invalidConfigError (''team manifest: missing '' @ label))
      | Some s \<Rightarrow> Inr s)"

definition clean :: "string \<Rightarrow> bool" where
  "clean s = (s \<noteq> [] \<and> trim s = s)"

lemma nonEmpty_None [simp]: "nonEmpty None = None"
  by (simp add: nonEmpty_def)

lemma nonEmpty_Some_iff: "nonEmpty v = Some s \<longleftrightarrow> (\<exists>t. v = Some t \<and> trim t = s \<and> s \<noteq> [])"
  by (auto simp: nonEmpty_def split: option.splits)

lemma nonEmpty_clean: "nonEmpty v = Some s \<Longrightarrow> clean s"
  by (auto simp: nonEmpty_Some_iff clean_def)

lemma clean_nonEmpty: "clean s \<Longrightarrow> nonEmpty (Some s) = Some s"
  by (simp add: nonEmpty_def clean_def)

lemma nonEmpty_idem [simp]: "nonEmpty (nonEmpty v) = nonEmpty v"
  by (cases "nonEmpty v") (auto dest: nonEmpty_clean clean_nonEmpty)

lemma requiredText_Inr: "requiredText v l = Inr s \<longleftrightarrow> nonEmpty v = Some s"
  by (auto simp: requiredText_def split: option.splits)

lemma requiredText_clean: "clean s \<Longrightarrow> requiredText (Some s) l = Inr s"
  by (simp add: requiredText_Inr clean_nonEmpty)

section \<open>Percent escapes\<close>

definition uri_unreserved :: "char \<Rightarrow> bool" where
  "uri_unreserved c = (is_alnum c \<or> c \<in> set ''-_.!~*()'' \<or> of_char c = (39 :: nat))"

definition uri_char :: "char \<Rightarrow> string" where
  "uri_char c =
     (if uri_unreserved c then [c]
      else [CHR ''%'', upper_hex (of_char c div 16), upper_hex (of_char c mod 16)])"

definition encodeURIComponent :: "string \<Rightarrow> string" where
  "encodeURIComponent s = concat (map uri_char s)"

text \<open>
  \<open>decodeURIComponent\<close>, \<^term>\<open>None\<close> when it throws: the bytes of a run of escapes, collected in the
  first argument, must be well-formed UTF-8 by themselves.
\<close>

fun uri_decode_from :: "string \<Rightarrow> string \<Rightarrow> string option" where
  "uri_decode_from run [] = (if utf8_valid run then Some run else None)"
| "uri_decode_from run (c # s) =
     (if c = CHR ''%'' then
        (case s of
           a # b # r \<Rightarrow>
             (case (hex_val a, hex_val b) of
                (Some x, Some y) \<Rightarrow> uri_decode_from (run @ [char_of (16 * x + y)]) r
              | _ \<Rightarrow> None)
         | _ \<Rightarrow> None)
      else if utf8_valid run then map_option (\<lambda>t. run @ c # t) (uri_decode_from [] s)
      else None)"

definition decodeURIComponent :: "string \<Rightarrow> string option" where
  "decodeURIComponent s = uri_decode_from [] s"

definition decodePathSegment :: "string \<Rightarrow> string" where
  "decodePathSegment seg = (case decodeURIComponent seg of Some d \<Rightarrow> d | None \<Rightarrow> seg)"

section \<open>Path checks\<close>

text \<open>
  The scheme expression \<open>/^[a-z][a-z0-9+.-]*:/iu\<close>. Under the flags \<open>iu\<close> a letter class also matches
  U+017F and U+212A, which fold to \<open>s\<close> and \<open>k\<close>. The class excludes the colon, so the expression looks
  at the text before the first one.
\<close>

definition scheme_letters :: "string list" where
  "scheme_letters =
     map (\<lambda>c. [c]) ''abcdefghijklmnopqrstuvwxyzABCDEFGHIJKLMNOPQRSTUVWXYZ''
     @ map (map char_of) [[0xC5, 0xBF], [0xE2, 0x84, 0xAA] :: nat list]"

definition scheme_chars :: "string list" where
  "scheme_chars = scheme_letters @ map (\<lambda>c. [c]) ''0123456789+.-''"

definition scheme_name :: "string \<Rightarrow> bool" where
  "scheme_name name =
     list_ex (\<lambda>p. prefix p name \<and> strip_prefixes scheme_chars (drop (length p) name) = []) scheme_letters"

definition has_scheme :: "string \<Rightarrow> bool" where
  "has_scheme s = (CHR '':'' \<in> set s \<and> scheme_name (takeWhile (\<lambda>c. c \<noteq> CHR '':'') s))"

definition backslash :: char where
  "backslash = CHR 0x5C"

text \<open>\<open>split("/").map(trim).filter(Boolean)\<close>.\<close>

definition path_segments :: "string \<Rightarrow> string list" where
  "path_segments s = filter (\<lambda>x. x \<noteq> []) (map trim (split_char (CHR ''/'') s))"

text \<open>A segment that climbs out of its directory, or hides a separator, before or after decoding.\<close>

definition climbs :: "string \<Rightarrow> bool" where
  "climbs seg =
     (let decoded = decodePathSegment seg in
      seg = ''.'' \<or> seg = ''..'' \<or> decoded = ''.'' \<or> decoded = ''..''
      \<or> CHR ''/'' \<in> set decoded \<or> backslash \<in> set decoded)"

definition not_relative :: "string \<Rightarrow> bool" where
  "not_relative trimmed =
     (has_scheme trimmed \<or> prefix ''/'' trimmed \<or> backslash \<in> set trimmed)"

definition normalizeRelativePath :: "string \<Rightarrow> jserror + string" where
  "normalizeRelativePath value =
     (case nonEmpty (Some value) of
        None \<Rightarrow> Inl (invalidConfigError ''team manifest: missing workspace path'')
      | Some trimmed \<Rightarrow>
          if not_relative trimmed
          then Inl (invalidConfigError (''team manifest: workspace path must be relative: '' @ trimmed))
          else (let segs = path_segments trimmed in
                if segs = [] \<or> list_ex climbs segs
                then Inl (invalidConfigError (''team manifest: invalid workspace path: '' @ trimmed))
                else Inr (join_with ''/'' segs)))"

definition normalizeAbsoluteApiPath :: "string \<Rightarrow> string \<Rightarrow> jserror + string" where
  "normalizeAbsoluteApiPath value label =
     and_then (requiredText (Some value) label) (\<lambda>trimmed.
       let bad = Inl (invalidConfigError (''team manifest: invalid '' @ label @ '': '' @ trimmed)) in
       if \<not> prefix ''/'' trimmed \<or> prefix ''//'' trimmed \<or> has_scheme trimmed
          \<or> list_ex (\<lambda>c. c = backslash \<or> c = CHR ''?'' \<or> c = CHR ''#'') trimmed
       then bad
       else (let segs = path_segments trimmed in
             if segs = [] \<or> list_ex climbs segs then bad else Inr (CHR ''/'' # join_with ''/'' segs)))"

definition normalizeRootPath :: "string \<Rightarrow> jserror + string" where
  "normalizeRootPath value =
     (case nonEmpty (Some value) of
        None \<Rightarrow> Inl (invalidConfigError ''team manifest: missing workspace rootPath'')
      | Some trimmed \<Rightarrow> normalizeAbsoluteApiPath trimmed ''workspace rootPath'')"

definition segment_mark :: "char \<Rightarrow> bool" where
  "segment_mark c = (c = CHR ''/'' \<or> c = CHR ''?'' \<or> c = CHR ''#'' \<or> c = backslash)"

definition pathSegment :: "string \<Rightarrow> string \<Rightarrow> jserror + string" where
  "pathSegment value label =
     and_then (requiredText (Some value) label) (\<lambda>seg.
       let decoded = decodePathSegment seg in
       if seg = ''.'' \<or> seg = ''..'' \<or> decoded = ''.'' \<or> decoded = ''..''
          \<or> list_ex segment_mark seg \<or> list_ex segment_mark decoded
       then Inl (invalidConfigError (''team manifest: invalid '' @ label @ '': '' @ seg))
       else Inr (encodeURIComponent seg))"

definition joinUrlPath :: "string list \<Rightarrow> jserror + string" where
  "joinUrlPath segs =
     and_then (each (\<lambda>seg. pathSegment seg ''path segment'') segs) (\<lambda>es. Inr (CHR ''/'' # join_with ''/'' es))"

definition workspacePathSegments :: "string option \<Rightarrow> jserror + string list" where
  "workspacePathSegments value =
     and_then (requiredText value ''workspace path'') (\<lambda>v.
     and_then (normalizeRelativePath v) (\<lambda>p. Inr (split_char (CHR ''/'') p)))"

definition joinWorkspacePath :: "string \<Rightarrow> string \<Rightarrow> jserror + string" where
  "joinWorkspacePath rootPath relativePath =
     and_then (normalizeRootPath rootPath) (\<lambda>root.
     and_then (normalizeRelativePath relativePath) (\<lambda>rel. Inr (root @ ''/'' @ rel)))"

text \<open>The public companion, \<open>contracts/paths.ts\<close>.\<close>

definition assertSafeRelativePath :: "string option \<Rightarrow> jserror + string" where
  "assertSafeRelativePath value =
     (let trimmed = (case value of None \<Rightarrow> [] | Some s \<Rightarrow> trim s) in
      if trimmed = [] then Inl (invalidInputError ''assertSafeRelativePath: path must not be empty'')
      else if not_relative trimmed
      then Inl (invalidInputError (''assertSafeRelativePath: path must be relative: '' @ trimmed))
      else (let segs = path_segments trimmed in
            if segs = [] then Inl (invalidInputError (''assertSafeRelativePath: invalid path: '' @ trimmed))
            else if list_ex climbs segs
            then Inl (invalidInputError (''assertSafeRelativePath: path must not traverse: '' @ trimmed))
            else Inr (join_with ''/'' segs)))"

text \<open>\<open>appendHttpQuery\<close>: a parameter is its \<open>String(value)\<close>, absent when it is \<open>undefined\<close>.\<close>

definition appendHttpQuery :: "string \<Rightarrow> (string \<times> string option) list option \<Rightarrow> string" where
  "appendHttpQuery path query =
     (case query of
        None \<Rightarrow> path
      | Some q \<Rightarrow> (let suffix = query_text q in if suffix \<noteq> [] then path @ ''?'' @ suffix else path))"

section \<open>Well-formed text in parts\<close>

lemma form_bytes:
  assumes "f \<in> set utf8_forms" and "list_all2 (\<lambda>(lo, hi) c. cont_byte lo hi c) f p"
  shows "p \<noteq> [] \<and> (if (of_char (hd p) :: nat) < 128 then tl p = [] else 192 \<le> (of_char (hd p) :: nat))
    \<and> (\<forall>d \<in> set (tl p). 128 \<le> (of_char d :: nat) \<and> (of_char d :: nat) < 192)"
  using assms by (auto simp: utf8_forms_def list_all2_Cons1 cont_byte_def)

definition lead_byte :: "char \<Rightarrow> bool" where
  "lead_byte c = ((of_char c :: nat) < 128 \<or> 192 \<le> (of_char c :: nat))"

lemma form_lead:
  assumes "f \<in> set utf8_forms" and "list_all2 (\<lambda>(lo, hi) c. cont_byte lo hi c) f p"
  shows "p \<noteq> [] \<and> lead_byte (hd p) \<and> (\<forall>d \<in> set (tl p). \<not> lead_byte d)"
  using form_bytes [OF assms] by (fastforce simp: lead_byte_def split: if_splits)

lemma form_lead_ok:
  assumes "f \<in> set utf8_forms" and "list_all2 (\<lambda>(lo, hi) c. cont_byte lo hi c) f p"
  shows "lead_ok f (of_char (hd p))"
proof -
  obtain r rs where "f = r # rs" using utf8_forms_nonempty [OF assms(1)] by (cases f) blast+
  with assms(2) show ?thesis by (cases p) (auto simp: lead_ok_def cont_byte_def)
qed

lemma utf8_seq_lead: "utf8_seq s \<Longrightarrow> s \<noteq> [] \<Longrightarrow> lead_byte (hd s)"
  by (induction rule: utf8_seq.induct) (auto dest!: form_lead simp: hd_append)

text \<open>A text cut where a character begins is well formed on both sides.\<close>

lemma utf8_seq_cut:
  "utf8_seq s \<Longrightarrow> s = a @ b \<Longrightarrow> b = [] \<or> lead_byte (hd b) \<Longrightarrow> utf8_seq a \<and> utf8_seq b"
proof (induction arbitrary: a rule: utf8_seq.induct)
  case Empty
  then show ?case by (simp add: utf8_seq.Empty)
next
  case (Step f p s)
  note fl = form_lead [OF Step.hyps(1,2)]
  show ?case
  proof (cases "length p \<le> length a")
    case True
    with Step.prems(1) obtain a' where a: "a = p @ a'" "s = a' @ b"
      by (metis append_eq_append_conv_if append_take_drop_id)
    from Step.IH [OF a(2) Step.prems(2)] show ?thesis
      using utf8_seq.Step [OF Step.hyps(1,2)] by (simp add: a(1))
  next
    case False
    with Step.prems(1) obtain p' where p: "p = a @ p'" "b = p' @ s" "p' \<noteq> []"
      by (auto simp: append_eq_append_conv2)
    show ?thesis
    proof (cases a)
      case Nil
      with Step.prems(1) utf8_seq.Step [OF Step.hyps(1,2,3)] show ?thesis by (simp add: utf8_seq.Empty)
    next
      case (Cons x a')
      with p have "hd b \<in> set (tl p)" by (cases p') auto
      moreover have "b \<noteq> []" using p by simp
      ultimately show ?thesis using fl Step.prems(2) by blast
    qed
  qed
qed

lemma utf8_cut:
  assumes "utf8_valid (a @ b)" and "b = [] \<or> lead_byte (hd b)"
  shows "utf8_valid a \<and> utf8_valid b"
  using utf8_seq_cut [OF _ refl assms(2)] assms(1) by (simp add: utf8_valid_iff)

lemma utf8_cut_ascii:
  assumes "utf8_valid (a @ c # b)" and "(of_char c :: nat) < 128"
  shows "utf8_valid a \<and> utf8_valid b"
proof -
  have v: "utf8_valid a" "utf8_valid (c # b)"
    using utf8_cut [of a "c # b"] assms by (auto simp: lead_byte_def)
  from v(2) have "utf8_seq (c # b)" by (simp add: utf8_valid_iff)
  then have "utf8_seq b"
  proof cases
    case (Step f p s)
    with form_bytes [OF Step(2,3)] assms(2) show ?thesis by (cases p) (auto split: if_splits)
  qed
  with v(1) show ?thesis by (simp add: utf8_valid_iff)
qed

lemma utf8_cancel_right:
  "utf8_valid (a @ b) \<Longrightarrow> utf8_valid b \<Longrightarrow> utf8_valid a"
  using utf8_cut [of a b] utf8_seq_lead [of b] by (auto simp: utf8_valid_iff)

lemma utf8_cancel_left:
  assumes "utf8_valid (a @ b)" and "utf8_valid a"
  shows "utf8_valid b"
proof -
  have "utf8_seq a \<Longrightarrow> utf8_seq (a @ b) \<Longrightarrow> utf8_seq b" for a
  proof (induction rule: utf8_seq.induct)
    case (Step f p s)
    note fl = form_lead [OF Step.hyps(1,2)]
    from Step.prems have "utf8_seq (p @ s @ b)" by simp
    then obtain g q t where g: "g \<in> set utf8_forms" "list_all2 (\<lambda>(lo, hi) c. cont_byte lo hi c) g q"
        "utf8_seq t" "p @ s @ b = q @ t"
      using fl by (cases rule: utf8_seq.cases) auto
    have q: "q \<noteq> []" using form_lead [OF g(1,2)] by blast
    have "hd p = hd q" using arg_cong [OF g(4), of hd] fl q by simp
    moreover have "lead_ok f (of_char (hd p))" "lead_ok g (of_char (hd q))"
      using form_lead_ok [OF Step.hyps(1,2)] form_lead_ok [OF g(1,2)] by simp_all
    ultimately have "f = g" using utf8_forms_disjoint [OF Step.hyps(1) g(1)] by simp
    then have "length p = length q" using Step.hyps(2) g(2) by (auto dest!: list_all2_lengthD)
    with g(3,4) Step.IH show ?case by simp
  qed simp
  with assms show ?thesis by (simp add: utf8_valid_iff)
qed

section \<open>Escaping is undone by decoding\<close>

lemma uri_unreserved_plain:
  "uri_unreserved c \<Longrightarrow> (of_char c :: nat) < 128 \<and> c \<noteq> CHR ''%'' \<and> c \<noteq> CHR ''/'' \<and> c \<noteq> CHR ''?'' \<and> c \<noteq> CHR ''#''
     \<and> c \<noteq> backslash \<and> c \<noteq> CHR ''{'' \<and> graph_char c"
  by (auto simp: uri_unreserved_def is_alnum_def Let_def to_lower_char_def is_digit_def backslash_def
      graph_char_def split: if_splits)

lemma uri_unreserved_hex: "n < 16 \<Longrightarrow> uri_unreserved (upper_hex n)"
  by (auto simp: uri_unreserved_def upper_hex_def is_alnum_def is_digit_def to_lower_char_def Let_def)

lemma uri_char_cases:
  obtains "uri_unreserved c" "uri_char c = [c]"
  | a b where "\<not> uri_unreserved c" "uri_char c = [CHR ''%'', a, b]" "hex_val a = Some (of_char c div 16)"
      "hex_val b = Some (of_char c mod 16)" "uri_unreserved a" "uri_unreserved b"
proof (cases "uri_unreserved c")
  case True
  then show ?thesis using that(1) by (simp add: uri_char_def)
next
  case False
  have "(of_char c :: nat) div 16 < 16" using nat_of_char_less_256 [of c] by linarith
  with False show ?thesis using that(2) upper_hex_val uri_unreserved_hex by (simp add: uri_char_def)
qed

lemma uri_decode_encode:
  "utf8_valid (run @ s) \<Longrightarrow> uri_decode_from run (encodeURIComponent s) = Some (run @ s)"
proof (induction s arbitrary: run)
  case Nil
  then show ?case by (simp add: encodeURIComponent_def)
next
  case (Cons c s)
  have e: "encodeURIComponent (c # s) = uri_char c @ encodeURIComponent s"
    by (simp add: encodeURIComponent_def)
  show ?case
  proof (cases c rule: uri_char_cases)
    case 1
    note c = uri_unreserved_plain [OF 1(1)]
    have "utf8_valid run \<and> utf8_valid s" using utf8_cut_ascii [OF Cons.prems] c by blast
    with Cons.IH [of "[]"] c 1(2) show ?thesis by (simp add: e)
  next
    case (2 a b)
    have "char_of (16 * (of_char c div 16) + of_char c mod 16 :: nat) = c"
      by (metis char_of_char mult_div_mod_eq)
    with 2(2-4) Cons.IH [of "run @ [c]"] Cons.prems show ?thesis by (simp add: e)
  qed
qed

lemma decode_encode: "utf8_valid s \<Longrightarrow> decodeURIComponent (encodeURIComponent s) = Some s"
  by (simp add: decodeURIComponent_def uri_decode_encode)

lemma encode_chars: "c \<in> set (encodeURIComponent s) \<Longrightarrow> uri_unreserved c \<or> c = CHR ''%''"
proof -
  assume "c \<in> set (encodeURIComponent s)"
  then obtain x where x: "c \<in> set (uri_char x)" by (auto simp: encodeURIComponent_def)
  show ?thesis using x by (cases x rule: uri_char_cases) auto
qed

lemma encode_nonempty: "s \<noteq> [] \<Longrightarrow> encodeURIComponent s \<noteq> []"
  by (cases s) (auto simp: encodeURIComponent_def uri_char_def)

section \<open>Segments\<close>

lemma strip_prefixes_chars: "strip_prefixes ps s = [] \<Longrightarrow> c \<in> set s \<Longrightarrow> \<exists>p \<in> set ps. c \<in> set p"
proof (induction ps s rule: strip_prefixes.induct)
  case (1 ps s)
  show ?case
  proof (cases "find (\<lambda>p. p \<noteq> [] \<and> prefix p s) ps")
    case None
    with "1.prems" show ?thesis by (simp add: strip_prefixes_stop)
  next
    case (Some q)
    then have q: "q \<in> set ps" "prefix q s" by (auto simp: find_Some_iff)
    then have "c \<in> set q \<or> c \<in> set (drop (length q) s)" using "1.prems"(2) by (auto simp: prefix_def)
    with 1 Some q show ?thesis by (auto simp: strip_prefixes_step)
  qed
qed

lemma ws_no_slash: "p \<in> set ws_encodings \<Longrightarrow> CHR ''/'' \<notin> set p \<and> p \<noteq> []"
  by (auto simp: ws_encodings_def char_of_def bit_simps)

lemma trim_prefix_start: "\<not> (\<exists>p \<in> set ws_encodings. prefix p s) \<Longrightarrow> trim_start s = s"
  by (auto simp: trim_start_def intro!: strip_prefixes_id)

lemma trim_suffix_end: "\<not> (\<exists>p \<in> set ws_encodings. suffix p s) \<Longrightarrow> trim_end s = s"
proof -
  assume "\<not> (\<exists>p \<in> set ws_encodings. suffix p s)"
  then have "strip_prefixes (map rev ws_encodings) (rev s) = rev s"
    by (intro strip_prefixes_id) (auto simp: suffix_to_prefix)
  then show ?thesis by (simp add: trim_end_def)
qed

lemma trim_no_prefix: "p \<in> set ws_encodings \<Longrightarrow> \<not> prefix p (trim s)"
  using strip_prefixes_none [of p ws_encodings s] ws_no_slash [of p] trim_end_prefix [of "trim_start s"]
  by (auto simp: trim_def trim_start_def intro: prefix_order.trans)

lemma trim_no_suffix: "p \<in> set ws_encodings \<Longrightarrow> \<not> suffix p (trim s)"
  using strip_prefixes_none [of "rev p" "map rev ws_encodings" "rev (trim_start s)"] ws_no_slash [of p]
  by (auto simp: trim_def trim_end_def suffix_to_prefix)

text \<open>Trimming cuts whole characters.\<close>

lemma strip_prefixes_valid:
  "(\<And>p. p \<in> set ps \<Longrightarrow> utf8_valid p) \<Longrightarrow> utf8_valid s \<Longrightarrow> utf8_valid (strip_prefixes ps s)"
proof (induction ps s rule: strip_prefixes.induct)
  case (1 ps s)
  show ?case
  proof (cases "find (\<lambda>p. p \<noteq> [] \<and> prefix p s) ps")
    case None
    with "1.prems" show ?thesis by (simp add: strip_prefixes_stop)
  next
    case (Some q)
    then have q: "q \<in> set ps" "prefix q s" by (auto simp: find_Some_iff)
    then have "utf8_valid (drop (length q) s)"
      using "1.prems" utf8_cancel_left [of q "drop (length q) s"] by (auto simp: prefix_def)
    with 1 Some show ?thesis by (simp add: strip_prefixes_step)
  qed
qed

lemma strip_suffixes_valid:
  "(\<And>p. p \<in> set ps \<Longrightarrow> utf8_valid (rev p)) \<Longrightarrow> utf8_valid (rev s) \<Longrightarrow>
   utf8_valid (rev (strip_prefixes ps s))"
proof (induction ps s rule: strip_prefixes.induct)
  case (1 ps s)
  show ?case
  proof (cases "find (\<lambda>p. p \<noteq> [] \<and> prefix p s) ps")
    case None
    with "1.prems" show ?thesis by (simp add: strip_prefixes_stop)
  next
    case (Some q)
    then have q: "q \<in> set ps" "prefix q s" by (auto simp: find_Some_iff)
    then have "utf8_valid (rev (drop (length q) s))"
      using "1.prems" utf8_cancel_right [of "rev (drop (length q) s)" "rev q"] by (auto simp: prefix_def)
    with 1 Some show ?thesis by (simp add: strip_prefixes_step)
  qed
qed

lemma utf8_form_valid:
  "f \<in> set utf8_forms \<Longrightarrow> list_all2 (\<lambda>(lo, hi) c. cont_byte lo hi c) f p \<Longrightarrow> utf8_valid p"
  using utf8_seq.Step [of f p "[]"] by (simp add: utf8_valid_iff utf8_seq.Empty)

lemma ws_valid: "p \<in> set ws_encodings \<Longrightarrow> utf8_valid p"
proof -
  assume p: "p \<in> set ws_encodings"
  have "list_all (\<lambda>p. list_ex (\<lambda>f. list_all2 (\<lambda>(lo, hi) c. cont_byte lo hi c) f p) utf8_forms) ws_encodings"
    by (simp add: ws_encodings_def utf8_forms_def cont_byte_def)
  with p show "utf8_valid p" by (auto simp: list_all_iff list_ex_iff intro: utf8_form_valid)
qed

lemma trim_valid: "utf8_valid s \<Longrightarrow> utf8_valid (trim s)"
  unfolding trim_def trim_end_def trim_start_def
  by (rule strip_suffixes_valid) (auto simp: ws_valid intro: strip_prefixes_valid)

lemma split_valid: "(of_char d :: nat) < 128 \<Longrightarrow> utf8_valid s \<Longrightarrow> x \<in> set (split_char d s) \<Longrightarrow> utf8_valid x"
proof -
  have parts: "utf8_valid (a @ s) \<Longrightarrow> (of_char d :: nat) < 128 \<Longrightarrow> split_char d s = y # ys \<Longrightarrow>
      utf8_valid (a @ y) \<and> (\<forall>x \<in> set ys. utf8_valid x)" for a y ys
  proof (induction s arbitrary: a y ys)
    case (Cons c s)
    show ?case
    proof (cases "c = d")
      case True
      with Cons.prems utf8_cut_ascii [of a d s] have v: "utf8_valid a" "utf8_valid ([] @ s)" by auto
      obtain z zs where z: "split_char d s = z # zs" by (cases "split_char d s") simp_all
      moreover have "y = []" "ys = z # zs" using Cons.prems(3) True z by simp_all
      ultimately show ?thesis using Cons.IH [OF v(2) Cons.prems(2) z] v(1) by simp
    next
      case False
      obtain z zs where z: "split_char d s = z # zs" by (cases "split_char d s") simp_all
      with Cons.IH [of "a @ [c]" z zs] Cons.prems False show ?thesis by auto
    qed
  qed simp
  obtain y ys where y: "split_char d s = y # ys" by (cases "split_char d s") simp_all
  assume "(of_char d :: nat) < 128" "utf8_valid s" "x \<in> set (split_char d s)"
  with parts [of "[]", OF _ _ y] y show "utf8_valid x" by auto
qed

text \<open>The segments of a path, and the path of its segments.\<close>

definition segment :: "string \<Rightarrow> bool" where
  "segment s = (clean s \<and> CHR ''/'' \<notin> set s)"

lemma set_trim: "set (trim s) \<subseteq> set s"
proof -
  have "set (trim s) \<subseteq> set (trim_start s)"
    using trim_end_prefix [of "trim_start s"] unfolding trim_def by (rule set_mono_prefix)
  also have "\<dots> \<subseteq> set s"
    by (simp add: trim_start_def strip_prefixes_suffix set_mono_suffix)
  finally show ?thesis .
qed

lemma path_segments_segment: "x \<in> set (path_segments s) \<Longrightarrow> segment x"
  using set_trim split_char_no_sep [of _ "CHR ''/''" s]
  by (auto simp: path_segments_def segment_def clean_def)

lemma path_segments_valid: "utf8_valid s \<Longrightarrow> x \<in> set (path_segments s) \<Longrightarrow> utf8_valid x"
  using split_valid [of "CHR ''/''" s] by (auto simp: path_segments_def intro!: trim_valid)

lemma split_join_segments:
  "xs \<noteq> [] \<Longrightarrow> list_all (\<lambda>x. d \<notin> set x) xs \<Longrightarrow> split_char d (join_with [d] xs) = xs"
  by (induction "[d]" xs rule: join_with.induct) (auto simp: split_char_single split_char_append)

lemma path_segments_join:
  assumes "xs \<noteq> []" and "list_all segment xs"
  shows "path_segments (join_with ''/'' xs) = xs" "path_segments (CHR ''/'' # join_with ''/'' xs) = xs"
proof -
  have s: "split_char (CHR ''/'') (join_with ''/'' xs) = xs"
    using assms by (intro split_join_segments) (auto simp: list_all_iff segment_def)
  have m: "filter (\<lambda>x. x \<noteq> []) (map trim xs) = xs"
    using assms(2) by (induction xs) (auto simp: segment_def clean_def)
  show "path_segments (join_with ''/'' xs) = xs" by (simp add: path_segments_def s m)
  have "trim [] = []" using trim_length [of "[]"] by simp
  then show "path_segments (CHR ''/'' # join_with ''/'' xs) = xs"
    by (simp add: path_segments_def s m)
qed

lemma segment_no_ws:
  "segment x \<Longrightarrow> p \<in> set ws_encodings \<Longrightarrow> \<not> prefix p x \<and> \<not> suffix p x"
  using trim_no_prefix [of p x] trim_no_suffix [of p x] by (simp add: segment_def clean_def)

lemma prefix_before:
  assumes "prefix p (x @ r)" and "d \<notin> set p" and "r = [] \<or> hd r = d"
  shows "prefix p x"
proof (cases "length p \<le> length x")
  case True
  with assms(1) show ?thesis by (metis prefixI prefix_length_prefix)
next
  case False
  with assms(1) obtain y ys where "p = x @ y # ys" "prefix (y # ys) r"
    by (auto simp: prefix_append neq_Nil_conv dest: prefix_length_le)
  with assms(2,3) show ?thesis by (auto simp: prefix_def)
qed

lemma suffix_after:
  assumes "suffix p (l @ x)" and "d \<notin> set p" and "l = [] \<or> last l = d"
  shows "suffix p x"
  using prefix_before [of "rev p" "rev x" "rev l" d] assms
  by (simp add: suffix_to_prefix hd_rev)

lemma join_head:
  "xs \<noteq> [] \<Longrightarrow> \<exists>r. join_with [d] xs = hd xs @ r \<and> (r = [] \<or> hd r = d)"
  by (induction "[d]" xs rule: join_with.induct) auto

lemma join_last:
  "xs \<noteq> [] \<Longrightarrow> \<exists>l. join_with [d] xs = l @ last xs \<and> (l = [] \<or> last l = d)"
proof (induction "[d]" xs rule: join_with.induct)
  case (3 x y ys)
  then obtain l where "join_with [d] (y # ys) = l @ last (y # ys)" "l = [] \<or> last l = d" by auto
  then show ?case by (intro exI [of _ "x @ [d] @ l"]) auto
qed auto

lemma trim_idI:
  "(\<And>p. p \<in> set ws_encodings \<Longrightarrow> \<not> prefix p s \<and> \<not> suffix p s) \<Longrightarrow> trim s = s"
  using trim_prefix_start [of s] trim_suffix_end [of s] by (auto simp: trim_def)

lemma trim_join:
  assumes "xs \<noteq> []" and "list_all segment xs"
  shows "clean (join_with ''/'' xs)" "clean (CHR ''/'' # join_with ''/'' xs)"
proof -
  from join_head [OF assms(1), of "CHR ''/''"] obtain r where
    r: "join_with ''/'' xs = hd xs @ r" "r = [] \<or> hd r = CHR ''/''" by blast
  from join_last [OF assms(1), of "CHR ''/''"] obtain l where
    l: "join_with ''/'' xs = l @ last xs" "l = [] \<or> last l = CHR ''/''" by blast
  have s: "segment (hd xs)" "segment (last xs)" using assms by (auto simp: list_all_iff)
  have np: "\<not> prefix p (join_with ''/'' xs)" if "p \<in> set ws_encodings" for p
    using prefix_before [of p "hd xs" r "CHR ''/''"] segment_no_ws [OF s(1) that] ws_no_slash [OF that] r by auto
  have ns: "\<not> suffix p (join_with ''/'' xs)" if "p \<in> set ws_encodings" for p
    using suffix_after [of p l "last xs" "CHR ''/''"] segment_no_ws [OF s(2) that] ws_no_slash [OF that] l by auto
  have ns': "\<not> suffix p (CHR ''/'' # join_with ''/'' xs)" if "p \<in> set ws_encodings" for p
    using suffix_after [of p "CHR ''/'' # l" "last xs" "CHR ''/''"] segment_no_ws [OF s(2) that] ws_no_slash [OF that] l
    by (cases "l = []") auto
  have np': "\<not> prefix p (CHR ''/'' # s)" if "p \<in> set ws_encodings" for p s
    using ws_no_slash [OF that] by (cases p) auto
  have "hd xs \<noteq> []" using s(1) by (simp add: segment_def clean_def)
  then show "clean (join_with ''/'' xs)" using np ns r(1) by (simp add: clean_def trim_idI)
  show "clean (CHR ''/'' # join_with ''/'' xs)" using np' ns' by (simp add: clean_def trim_idI)
qed

lemma set_join: "set (join_with [d] xs) \<subseteq> insert d (\<Union>x \<in> set xs. set x)"
  by (induction "[d]" xs rule: join_with.induct) auto

text \<open>A scheme is decided by the first segment.\<close>

lemma scheme_name_chars: "scheme_name s \<Longrightarrow> c \<in> set s \<Longrightarrow> c \<noteq> CHR ''/''"
proof -
  have t: "\<forall>p \<in> set scheme_chars. CHR ''/'' \<notin> set p"
    by (simp add: scheme_chars_def scheme_letters_def char_of_def bit_simps)
  assume "scheme_name s" and c: "c \<in> set s"
  then obtain p where p: "p \<in> set scheme_letters" "prefix p s" "strip_prefixes scheme_chars (drop (length p) s) = []"
    by (auto simp: scheme_name_def list_ex_iff)
  from p(2) c have "c \<in> set p \<or> c \<in> set (drop (length p) s)" by (auto simp: prefix_def)
  then show "c \<noteq> CHR ''/''"
    using t p(1) strip_prefixes_chars [OF p(3)] by (auto simp: scheme_chars_def)
qed

lemma takeWhile_prefix: "x \<in> set a \<Longrightarrow> takeWhile (\<lambda>c. c \<noteq> x) (a @ b) = takeWhile (\<lambda>c. c \<noteq> x) a"
  by (induction a) auto

lemma has_scheme_first:
  assumes "r = [] \<or> hd r = CHR ''/''" and "has_scheme (x @ r)"
  shows "has_scheme x"
proof (cases "CHR '':'' \<in> set x")
  case True
  with assms(2) show ?thesis by (simp add: has_scheme_def takeWhile_prefix)
next
  case False
  then have t: "takeWhile (\<lambda>c. c \<noteq> CHR '':'') (x @ r) = x @ takeWhile (\<lambda>c. c \<noteq> CHR '':'') r"
    by (intro takeWhile_append2) auto
  from assms False obtain r' where "r = CHR ''/'' # r'" by (cases r) (auto simp: has_scheme_def)
  then have "CHR ''/'' \<in> set (takeWhile (\<lambda>c. c \<noteq> CHR '':'') (x @ r))" unfolding t by simp
  with assms(2) scheme_name_chars show ?thesis unfolding has_scheme_def by blast
qed

lemma has_scheme_extend: "has_scheme x \<Longrightarrow> has_scheme (x @ r)"
  by (auto simp: has_scheme_def takeWhile_prefix)

section \<open>What an accepted path is\<close>

text \<open>A list of segments none of which climbs.\<close>

definition safe_segments :: "string list \<Rightarrow> bool" where
  "safe_segments segs = (segs \<noteq> [] \<and> list_all (\<lambda>x. segment x \<and> \<not> climbs x) segs)"

lemma safe_segments_segment: "safe_segments segs \<Longrightarrow> segs \<noteq> [] \<and> list_all segment segs"
  by (auto simp: safe_segments_def list_all_iff)

lemma path_segments_safe:
  "path_segments s \<noteq> [] \<Longrightarrow> \<not> list_ex climbs (path_segments s) \<Longrightarrow> safe_segments (path_segments s)"
  using path_segments_segment [of _ s] by (auto simp: safe_segments_def list_all_iff list_ex_iff)

lemma segments_chars:
  assumes "c \<in> set (join_with ''/'' (path_segments s))"
  shows "c \<in> set s \<or> c = CHR ''/''"
proof -
  have "set x \<subseteq> set s" if x: "x \<in> set (split_char (CHR ''/'') s)" for x
  proof -
    have "set y \<subseteq> insert (CHR ''/'') (set (join_with ''/'' ys))" if "y \<in> set ys" for y ys
      using that by (induction "''/''" ys rule: join_with.induct) auto
    from this [OF x] split_char_no_sep [OF x] show ?thesis by (auto simp: join_split)
  qed
  then have "\<Union> (set ` set (path_segments s)) \<subseteq> set s"
    using set_trim by (auto simp: path_segments_def)
  with assms set_join [of "CHR ''/''" "path_segments s"] show ?thesis by blast
qed

text \<open>The first segment is a prefix of a trimmed path that does not start with a slash, up to trailing blanks.\<close>

lemma strip_prefixes_last: "strip_prefixes ps s = [] \<Longrightarrow> s \<noteq> [] \<Longrightarrow> \<exists>p \<in> set ps. p \<noteq> [] \<and> suffix p s"
proof (induction ps s rule: strip_prefixes.induct)
  case (1 ps s)
  show ?case
  proof (cases "find (\<lambda>p. p \<noteq> [] \<and> prefix p s) ps")
    case None
    with "1.prems" show ?thesis by (simp add: strip_prefixes_stop)
  next
    case (Some q)
    then have q: "q \<in> set ps" "q \<noteq> []" "prefix q s" by (auto simp: find_Some_iff)
    show ?thesis
    proof (cases "drop (length q) s = []")
      case True
      with q show ?thesis by (auto simp: prefix_def)
    next
      case False
      with 1 Some obtain p where "p \<in> set ps" "p \<noteq> []" "suffix p (drop (length q) s)"
        by (auto simp: strip_prefixes_step)
      then show ?thesis using suffix_drop [of "length q" s] by (auto intro: suffix_order.trans)
    qed
  qed
qed

lemma first_segment:
  assumes "clean s" and "\<not> prefix ''/'' s"
  shows "\<exists>x r. path_segments s = trim x # r \<and> segment (trim x) \<and> prefix (trim x) s"
proof -
  obtain x xs where x: "split_char (CHR ''/'') s = x # xs" by (cases "split_char (CHR ''/'') s") simp_all
  have p: "prefix x s" using join_head [of "x # xs" "CHR ''/''"] join_split [of "CHR ''/''" s] x
    by (auto simp: prefix_def)
  have "x \<noteq> []"
  proof
    assume "x = []"
    with x join_split [of "CHR ''/''" s] have "s = [] \<or> prefix ''/'' s"
      by (cases xs) auto
    with assms show False by (simp add: clean_def)
  qed
  have "trim_start x = x"
    using trim_no_prefix [of _ s] assms(1) p
    by (intro trim_prefix_start) (auto simp: clean_def intro: prefix_order.trans)
  then have t: "trim x = trim_end x" by (simp add: trim_def)
  have "trim x \<noteq> []"
  proof
    assume "trim x = []"
    then have "strip_prefixes (map rev ws_encodings) (rev x) = []" using t by (simp add: trim_end_def)
    from strip_prefixes_last [OF this] \<open>x \<noteq> []\<close> obtain q where "q \<in> set ws_encodings" "prefix q x"
      by (auto simp: suffix_to_prefix)
    with p trim_no_prefix [of q s] assms(1) show False
      by (auto simp: clean_def intro: prefix_order.trans)
  qed
  moreover from this have "path_segments s = trim x # filter (\<lambda>x. x \<noteq> []) (map trim xs)"
    by (simp add: path_segments_def x)
  moreover from this have "segment (trim x)" using path_segments_segment [of "trim x" s] by simp
  moreover have "prefix (trim x) s" using trim_end_prefix [of x] p t by (metis prefix_order.trans)
  ultimately show ?thesis by blast
qed

text \<open>A path that starts with a slash has no scheme.\<close>

lemma slash_no_scheme: "\<not> has_scheme (CHR ''/'' # s)"
  using has_scheme_first [of "CHR ''/'' # s" "[]"] by (auto simp: has_scheme_def)

lemma join_no_slash:
  assumes "xs \<noteq> []" and "list_all segment xs"
  shows "\<not> prefix ''/'' (join_with ''/'' xs)"
proof -
  from join_head [OF assms(1)] obtain r where "join_with ''/'' xs = hd xs @ r" by blast
  moreover have "segment (hd xs)" using assms by (cases xs) auto
  ultimately show ?thesis by (cases "hd xs") (auto simp: segment_def clean_def)
qed

lemma not_relative_join:
  assumes "clean s" and "\<not> not_relative s"
  shows "\<not> not_relative (join_with ''/'' (path_segments s))"
proof -
  from assms(2) have s: "\<not> has_scheme s" "\<not> prefix ''/'' s" "backslash \<notin> set s" by (simp_all add: not_relative_def)
  from first_segment [OF assms(1) s(2)] obtain x r where
    x: "path_segments s = trim x # r" "segment (trim x)" "prefix (trim x) s" by blast
  from join_head [of "path_segments s" "CHR ''/''"] x(1) obtain t where
    t: "join_with ''/'' (path_segments s) = trim x @ t" "t = [] \<or> hd t = CHR ''/''" by auto
  have "\<not> has_scheme (trim x)" using x(3) s(1) has_scheme_extend by (auto simp: prefix_def)
  then have "\<not> has_scheme (join_with ''/'' (path_segments s))" using has_scheme_first [OF t(2)] t(1) by auto
  moreover have "\<not> prefix ''/'' (join_with ''/'' (path_segments s))"
    using path_segments_segment [of _ s] x(1) by (intro join_no_slash) (auto simp: list_all_iff)
  moreover have "backslash \<notin> set (join_with ''/'' (path_segments s))"
    using segments_chars [of backslash s] s(3) by (auto simp: backslash_def)
  ultimately show ?thesis by (simp add: not_relative_def)
qed

lemma normalizeRelativePath_Inr:
  "normalizeRelativePath v = Inr p \<longleftrightarrow>
     trim v \<noteq> [] \<and> \<not> not_relative (trim v) \<and> safe_segments (path_segments (trim v))
     \<and> p = join_with ''/'' (path_segments (trim v))"
  using path_segments_safe [of "trim v"]
  by (auto simp: normalizeRelativePath_def nonEmpty_def Let_def safe_segments_def list_all_iff list_ex_iff)

lemma normalizeAbsolute_Inr:
  "normalizeAbsoluteApiPath v label = Inr p \<longleftrightarrow>
     prefix ''/'' (trim v) \<and> \<not> prefix ''//'' (trim v)
     \<and> list_all (\<lambda>c. c \<noteq> backslash \<and> c \<noteq> CHR ''?'' \<and> c \<noteq> CHR ''#'') (trim v)
     \<and> safe_segments (path_segments (trim v)) \<and> p = CHR ''/'' # join_with ''/'' (path_segments (trim v))"
proof -
  have "prefix ''/'' (trim v) \<Longrightarrow> \<not> has_scheme (trim v) \<and> trim v \<noteq> []"
    using slash_no_scheme by (auto simp: prefix_def)
  then show ?thesis
    using path_segments_safe [of "trim v"]
    by (auto simp: normalizeAbsoluteApiPath_def and_then_Inr requiredText_Inr nonEmpty_Some_iff Let_def
        safe_segments_def list_all_iff list_ex_iff split: if_splits)
qed

lemma relative_again:
  assumes "normalizeRelativePath v = Inr p"
  shows "normalizeRelativePath p = Inr p"
proof -
  from assms have v: "clean (trim v)" "\<not> not_relative (trim v)" "safe_segments (path_segments (trim v))"
    and p: "p = join_with ''/'' (path_segments (trim v))"
    by (simp_all add: normalizeRelativePath_Inr clean_def)
  note j = trim_join [OF safe_segments_segment [OF v(3), THEN conjunct1] safe_segments_segment [OF v(3), THEN conjunct2]]
  have t: "trim p = p" "p \<noteq> []" using j by (simp_all add: p clean_def)
  have "path_segments p = path_segments (trim v)"
    unfolding p using safe_segments_segment [OF v(3)] by (intro path_segments_join) auto
  with v not_relative_join [OF v(1,2)] t show ?thesis by (simp add: normalizeRelativePath_Inr p)
qed

lemma absolute_again:
  assumes "normalizeAbsoluteApiPath v l = Inr p"
  shows "normalizeAbsoluteApiPath p l' = Inr p"
proof -
  from assms have v: "prefix ''/'' (trim v)" "safe_segments (path_segments (trim v))"
      "list_all (\<lambda>c. c \<noteq> backslash \<and> c \<noteq> CHR ''?'' \<and> c \<noteq> CHR ''#'') (trim v)"
    and p: "p = CHR ''/'' # join_with ''/'' (path_segments (trim v))"
    by (simp_all add: normalizeAbsolute_Inr)
  note s = safe_segments_segment [OF v(2)]
  have t: "trim p = p" using trim_join s by (simp add: p clean_def)
  have "path_segments p = path_segments (trim v)" unfolding p using s by (intro path_segments_join) auto
  moreover have "\<not> prefix ''//'' p"
    using join_no_slash [of "path_segments (trim v)"] s by (simp add: p)
  moreover have "list_all (\<lambda>c. c \<noteq> backslash \<and> c \<noteq> CHR ''?'' \<and> c \<noteq> CHR ''#'') p"
    using v(3) segments_chars [of _ "trim v"] by (auto simp: p list_all_iff backslash_def)
  ultimately show ?thesis using v(2) t by (simp add: normalizeAbsolute_Inr p)
qed

lemma absolute_clean: "normalizeAbsoluteApiPath v l = Inr p \<Longrightarrow> clean p"
  using trim_join safe_segments_segment by (auto simp: normalizeAbsolute_Inr)

lemma relative_clean: "normalizeRelativePath v = Inr p \<Longrightarrow> clean p"
  using trim_join safe_segments_segment by (auto simp: normalizeRelativePath_Inr)

lemma root_again:
  assumes "normalizeRootPath v = Inr p"
  shows "normalizeRootPath p = Inr p"
proof -
  from assms obtain t where t: "normalizeAbsoluteApiPath t ''workspace rootPath'' = Inr p"
    by (auto simp: normalizeRootPath_def split: option.splits)
  with absolute_clean [OF t] absolute_again [OF t] show ?thesis
    by (simp add: normalizeRootPath_def clean_nonEmpty)
qed

text \<open>How a file server resolves the segments of a path against a directory.\<close>

fun walk :: "string list \<Rightarrow> string list \<Rightarrow> string list" where
  "walk dir [] = dir"
| "walk dir (s # ss) =
     walk (if s = [] \<or> s = ''.'' then dir else if s = ''..'' then butlast dir else dir @ [s]) ss"

lemma walk_plain:
  "list_all (\<lambda>s. s \<noteq> [] \<and> s \<noteq> ''.'' \<and> s \<noteq> ''..'') segs \<Longrightarrow> walk dir segs = dir @ segs"
  by (induction dir segs rule: walk.induct) auto

lemma uri_decode_length:
  "uri_decode_from run s = Some t \<Longrightarrow> (if s = [] then length run else Suc (length run)) \<le> length t"
proof (induction run s arbitrary: t rule: uri_decode_from.induct)
  case (2 run c s)
  show ?case
  proof (cases "c = CHR ''%''")
    case True
    with "2.prems" obtain a b r x y where
      s: "s = a # b # r" "hex_val a = Some x" "hex_val b = Some y"
        "uri_decode_from (run @ [char_of (16 * x + y)]) r = Some t"
      by (auto split: list.splits option.splits)
    from "2.IH"(1) [OF True s(1) refl refl s(2,3,4)] show ?thesis by (auto split: if_splits)
  next
    case False
    with "2.prems" show ?thesis by (auto split: if_splits)
  qed
qed (auto split: if_splits)

lemma decode_nonempty: "s \<noteq> [] \<Longrightarrow> decodePathSegment s \<noteq> []"
proof (cases "decodeURIComponent s")
  case (Some t)
  assume "s \<noteq> []"
  with uri_decode_length [of "[]" s t] Some have "t \<noteq> []" by (cases t) (simp_all add: decodeURIComponent_def)
  with Some show ?thesis by (simp add: decodePathSegment_def)
qed (simp add: decodePathSegment_def)

lemma safe_segments_plain:
  assumes "safe_segments segs"
  shows "list_all (\<lambda>s. s \<noteq> [] \<and> s \<noteq> ''.'' \<and> s \<noteq> ''..'') segs"
    "list_all (\<lambda>s. s \<noteq> [] \<and> s \<noteq> ''.'' \<and> s \<noteq> ''..'') (map decodePathSegment segs)"
    "list_all (\<lambda>s. CHR ''/'' \<notin> set s \<and> backslash \<notin> set s) (map decodePathSegment segs)"
proof -
  have s: "list_all (\<lambda>x. x \<noteq> [] \<and> \<not> climbs x) segs"
    using assms by (auto simp: safe_segments_def list_all_iff segment_def clean_def)
  then show "list_all (\<lambda>s. s \<noteq> [] \<and> s \<noteq> ''.'' \<and> s \<noteq> ''..'') segs"
    by (rule list.pred_mono_strong) (simp add: climbs_def Let_def)
  from s have "list_all (\<lambda>x. decodePathSegment x \<noteq> [] \<and> \<not> climbs x) segs"
    by (rule list.pred_mono_strong) (simp add: decode_nonempty)
  then show "list_all (\<lambda>s. s \<noteq> [] \<and> s \<noteq> ''.'' \<and> s \<noteq> ''..'') (map decodePathSegment segs)"
    "list_all (\<lambda>s. CHR ''/'' \<notin> set s \<and> backslash \<notin> set s) (map decodePathSegment segs)"
    by (auto simp: list.pred_map comp_def climbs_def Let_def elim!: list.pred_mono_strong)
qed

lemma safe_segments_walk:
  assumes "safe_segments segs"
  shows "walk dir segs = dir @ segs" "walk dir (map decodePathSegment segs) = dir @ map decodePathSegment segs"
  using safe_segments_plain [OF assms] by (auto intro: walk_plain)

lemma split_join_safe: "safe_segments segs \<Longrightarrow> split_char (CHR ''/'') (join_with ''/'' segs) = segs"
  by (intro split_join_segments) (auto simp: safe_segments_def list_all_iff segment_def)

text \<open>The manifest's check of a relative path and the public \<open>assertSafeRelativePath\<close> are in lockstep:
  they accept the same paths and return the same normal form, and their normal form is accepted again,
  unchanged, by both.\<close>

theorem relative_checks_lockstep:
  "(case normalizeRelativePath v of Inr p \<Rightarrow> Some p | Inl _ \<Rightarrow> None)
     = (case assertSafeRelativePath (Some v) of Inr p \<Rightarrow> Some p | Inl _ \<Rightarrow> None)
   \<and> (case normalizeRelativePath v of
        Inr p \<Rightarrow> normalizeRelativePath p = Inr p \<and> assertSafeRelativePath (Some p) = Inr p
      | Inl _ \<Rightarrow> True)"
proof -
  have a: "(case normalizeRelativePath v of Inr p \<Rightarrow> Some p | Inl _ \<Rightarrow> None)
     = (case assertSafeRelativePath (Some v) of Inr p \<Rightarrow> Some p | Inl _ \<Rightarrow> None)" for v
    by (auto simp: normalizeRelativePath_def assertSafeRelativePath_def nonEmpty_def Let_def)
  show ?thesis
  proof (cases "normalizeRelativePath v")
    case (Inr p)
    with a [of p] relative_again [OF Inr] have "assertSafeRelativePath (Some p) = Inr p"
      by (simp split: sum.splits)
    with Inr a [of v] relative_again [OF Inr] show ?thesis by simp
  qed (use a [of v] in simp)
qed

end
