(* ===== verification/TeamManifests.thy ===== *)
theory TeamManifests
  imports UriPath
begin

text \<open>
  Team manifests: the types of \<open>src/contracts/team-manifest/types.ts\<close> and the normalisation of
  \<open>src/contracts/team-manifest/normalize.ts\<close>. A field that is absent, \<open>undefined\<close> or \<open>null\<close> is
  \<^term>\<open>None\<close>, and an absent list is the empty list: every reader of the sources treats them alike
  (\<open>?? []\<close>, \<open>nonEmpty\<close>). Modes, types and methods are the texts they are at run time, since the code
  checks them; metadata, schemas and default values are plain data. The lemmas say that a normalised
  manifest is well formed (clean unique names, known modes, contained paths) and is its own normal form.
\<close>

section \<open>Types\<close>

type_synonym data_record = "(string, jv) omap"

record ManifestIdentity =
  mi_name :: "string option"
  mi_displayName :: "string option"
  mi_slug :: "string option"
  mi_code :: "string option"
  mi_aliases :: "string list"
  mi_metadata :: "data_record option"

datatype TeamWorkspacePathEntry = PathText string | PathEntry string "string option"

record TeamWorkspaceConfig =
  wk_rootPath :: string
  wk_paths :: "TeamWorkspacePathEntry list"

record TeamActionParamContract =
  ap_key :: string
  ap_type :: "string option"
  ap_required :: "bool option"
  ap_default :: "jv option"
  ap_values :: "string list"
  ap_aliases :: "string list"
  ap_description :: "string option"
  ap_metadata :: "data_record option"

record TeamActionInputContract =
  ai_mode :: "string option"
  ai_command :: "string option"
  ai_params :: "TeamActionParamContract list"
  ai_schema :: "data_record option"
  ai_examples :: "string list"
  ai_metadata :: "data_record option"

record TeamActionArtifactContract =
  af_key :: string
  af_contentType :: "string option"
  af_path :: "string option"
  af_description :: "string option"
  af_metadata :: "data_record option"

record TeamActionOutputContract =
  ou_mode :: "string option"
  ou_contentType :: "string option"
  ou_schema :: "data_record option"
  ou_artifacts :: "TeamActionArtifactContract list"
  ou_metadata :: "data_record option"

record TeamActionRouteContract =
  rt_method :: "string option"
  rt_surfaceKey :: "string option"
  rt_path :: "string option"
  rt_metadata :: "data_record option"

record TeamActionContract =
  ac_id :: string
  ac_title :: "string option"
  ac_description :: "string option"
  ac_enabled :: "bool option"
  ac_route :: "TeamActionRouteContract option"
  ac_input :: "TeamActionInputContract option"
  ac_output :: "TeamActionOutputContract option"
  ac_defaults :: "data_record option"
  ac_capabilities :: "string list"
  ac_metadata :: "data_record option"

record ManifestMember =
  mb_id :: string
  mb_identity :: "ManifestIdentity option"
  mb_workspace :: "TeamWorkspaceConfig option"
  mb_actions :: "TeamActionContract list"
  mb_capabilities :: "string list"
  mb_metadata :: "data_record option"

record ManifestRouteConfig =
  rk_key :: string
  rk_path :: "string option"

record ManifestTeam =
  mt_id :: string
  mt_identity :: "ManifestIdentity option"
  mt_members :: "ManifestMember list"
  mt_workspace :: "TeamWorkspaceConfig option"
  mt_actions :: "TeamActionContract list"
  mt_capabilities :: "string list"
  mt_routes :: "ManifestRouteConfig list"
  mt_metadata :: "data_record option"

record GatewayRouteBinding =
  gb_id :: string
  gb_teamId :: string
  gb_memberId :: "string option"
  gb_source :: "string option"
  gb_channel :: "string option"
  gb_actionId :: "string option"
  gb_routeKey :: "string option"
  gb_sessionKeyPattern :: "string option"
  gb_metadata :: "data_record option"

text \<open>The version is the constant 1.\<close>

record TeamManifest =
  mf_version :: nat
  mf_actions :: "TeamActionContract list"
  mf_bindings :: "GatewayRouteBinding list"
  mf_teams :: "ManifestTeam list"

definition TEAM_MANIFEST_VERSION :: nat where
  "TEAM_MANIFEST_VERSION = 1"

definition DEFAULT_TEAM_ID :: string where
  "DEFAULT_TEAM_ID = ''default''"

definition DEFAULT_TEAM_MEMBER_ID :: string where
  "DEFAULT_TEAM_MEMBER_ID = ''default-agent''"

definition TEAM_ACTION_INPUT_MODES :: "string list" where
  "TEAM_ACTION_INPUT_MODES = [''command'', ''json'', ''text'']"

definition TEAM_ACTION_OUTPUT_MODES :: "string list" where
  "TEAM_ACTION_OUTPUT_MODES = [''artifact'', ''json'', ''markdown'', ''text'']"

record CreateDefaultTeamManifestOptions =
  cd_teamId :: "string option"
  cd_memberId :: "string option"
  cd_workspaceRootPath :: "string option"
  cd_workspacePaths :: "TeamWorkspacePathEntry list"

section \<open>Lists of names\<close>

definition quoted :: "string \<Rightarrow> string" where
  "quoted s = CHR 0x22 # s @ [CHR 0x22]"

fun unique_from :: "string list \<Rightarrow> string list \<Rightarrow> string list" where
  "unique_from seen [] = []"
| "unique_from seen (v # vs) =
     (case nonEmpty (Some v) of
        None \<Rightarrow> unique_from seen vs
      | Some trimmed \<Rightarrow>
          if trimmed \<in> set seen then unique_from seen vs
          else trimmed # unique_from (os_add trimmed seen) vs)"

definition uniqueStrings :: "string list \<Rightarrow> string list" where
  "uniqueStrings vs = unique_from [] vs"

text \<open>
  The loop the normalisers share: each entry is normalised, and an entry whose name was seen before is
  an error, worded by the caller.
\<close>

fun unique_entries ::
  "('a \<Rightarrow> jserror + 'b) \<Rightarrow> ('b \<Rightarrow> string) \<Rightarrow> string \<Rightarrow> string list \<Rightarrow> 'a list \<Rightarrow> jserror + 'b list" where
  "unique_entries f key what seen [] = Inr []"
| "unique_entries f key what seen (x # xs) =
     and_then (f x) (\<lambda>entry.
       if key entry \<in> set seen
       then Inl (invalidConfigError (''team manifest: duplicate '' @ what @ '' '' @ quoted (key entry)))
       else and_then (unique_entries f key what (os_add (key entry) seen) xs) (\<lambda>rest. Inr (entry # rest)))"

section \<open>Actions\<close>

definition invalid_value :: "string \<Rightarrow> string \<Rightarrow> jserror" where
  "invalid_value what v =
     invalidConfigError (''team manifest: invalid '' @ what @ '' '' @ quoted v)"

definition normalizeActionInputMode :: "string option \<Rightarrow> jserror + string option" where
  "normalizeActionInputMode value =
     (case nonEmpty value of
        None \<Rightarrow> Inr None
      | Some m \<Rightarrow> if m \<in> set TEAM_ACTION_INPUT_MODES then Inr (Some m)
                  else Inl (invalid_value ''action input mode'' m))"

definition normalizeActionOutputMode :: "string option \<Rightarrow> jserror + string option" where
  "normalizeActionOutputMode value =
     (case nonEmpty value of
        None \<Rightarrow> Inr None
      | Some m \<Rightarrow> if m \<in> set TEAM_ACTION_OUTPUT_MODES then Inr (Some m)
                  else Inl (invalid_value ''action output mode'' m))"

definition normalizeActionParamType :: "string option \<Rightarrow> jserror + string option" where
  "normalizeActionParamType value =
     (case nonEmpty value of
        None \<Rightarrow> Inr None
      | Some t \<Rightarrow>
          if t \<in> {''boolean'', ''enum'', ''file'', ''json'', ''number'', ''string''} then Inr (Some t)
          else Inl (invalid_value ''action param type'' t))"

definition to_upper_char :: "char \<Rightarrow> char" where
  "to_upper_char c =
     (let n = of_char c :: nat in if 97 \<le> n \<and> n \<le> 122 then char_of (n - 32) else c)"

definition normalizeActionHttpMethod :: "string option \<Rightarrow> jserror + string option" where
  "normalizeActionHttpMethod value =
     (case map_option (map to_upper_char) (nonEmpty value) of
        None \<Rightarrow> Inr None
      | Some m \<Rightarrow>
          if m \<in> {''DELETE'', ''GET'', ''PATCH'', ''POST'', ''PUT''} then Inr (Some m)
          else Inl (invalid_value ''action route method'' m))"

text \<open>
  An assignment \<open>record[key] = value\<close>: the key \<open>__proto__\<close> reaches the prototype's setter and adds no
  property.
\<close>

definition put_prop :: "string \<Rightarrow> jv \<Rightarrow> data_record \<Rightarrow> data_record" where
  "put_prop k v m = (if k = ''__proto__'' then m else om_set k v m)"

definition filled :: "data_record \<Rightarrow> data_record option" where
  "filled m = (if m = [] then None else Some m)"

definition normalizeActionDefaults :: "data_record option \<Rightarrow> data_record option" where
  "normalizeActionDefaults defaults =
     (case defaults of
        None \<Rightarrow> None
      | Some d \<Rightarrow>
          filled (fold (\<lambda>(k, v) m. case nonEmpty (Some k) of Some k' \<Rightarrow> put_prop k' v m | None \<Rightarrow> m) d []))"

definition normalizeActionParamContract :: "TeamActionParamContract \<Rightarrow> jserror + TeamActionParamContract" where
  "normalizeActionParamContract param =
     and_then (requiredText (Some (ap_key param)) ''action param key'') (\<lambda>key.
     and_then (normalizeActionParamType (ap_type param)) (\<lambda>ty.
     Inr \<lparr>ap_key = key, ap_type = ty, ap_required = ap_required param, ap_default = ap_default param,
          ap_values = uniqueStrings (ap_values param), ap_aliases = uniqueStrings (ap_aliases param),
          ap_description = nonEmpty (ap_description param), ap_metadata = ap_metadata param\<rparr>))"

definition normalizeActionParams :: "TeamActionParamContract list \<Rightarrow> jserror + TeamActionParamContract list" where
  "normalizeActionParams params = unique_entries normalizeActionParamContract ap_key ''action param'' [] params"

definition normalizeActionInputContract :: "TeamActionInputContract \<Rightarrow> jserror + TeamActionInputContract" where
  "normalizeActionInputContract input =
     and_then (normalizeActionInputMode (ai_mode input)) (\<lambda>mode.
     and_then (normalizeActionParams (ai_params input)) (\<lambda>params.
     Inr \<lparr>ai_mode = mode, ai_command = nonEmpty (ai_command input), ai_params = params,
          ai_schema = ai_schema input, ai_examples = uniqueStrings (ai_examples input),
          ai_metadata = ai_metadata input\<rparr>))"

definition normalizeActionArtifactContract :: "TeamActionArtifactContract \<Rightarrow> jserror + TeamActionArtifactContract" where
  "normalizeActionArtifactContract artifact =
     and_then (requiredText (Some (af_key artifact)) ''action artifact key'') (\<lambda>key.
     Inr \<lparr>af_key = key, af_contentType = nonEmpty (af_contentType artifact), af_path = nonEmpty (af_path artifact),
          af_description = nonEmpty (af_description artifact), af_metadata = af_metadata artifact\<rparr>)"

definition normalizeActionArtifacts :: "TeamActionArtifactContract list \<Rightarrow> jserror + TeamActionArtifactContract list" where
  "normalizeActionArtifacts artifacts =
     unique_entries normalizeActionArtifactContract af_key ''action artifact'' [] artifacts"

definition normalizeActionOutputContract :: "TeamActionOutputContract \<Rightarrow> jserror + TeamActionOutputContract" where
  "normalizeActionOutputContract output =
     and_then (normalizeActionOutputMode (ou_mode output)) (\<lambda>mode.
     and_then (normalizeActionArtifacts (ou_artifacts output)) (\<lambda>artifacts.
     Inr \<lparr>ou_mode = mode, ou_contentType = nonEmpty (ou_contentType output), ou_schema = ou_schema output,
          ou_artifacts = artifacts, ou_metadata = ou_metadata output\<rparr>))"

definition normalizeActionRouteContract :: "TeamActionRouteContract \<Rightarrow> jserror + TeamActionRouteContract" where
  "normalizeActionRouteContract route =
     and_then (normalizeActionHttpMethod (rt_method route)) (\<lambda>meth.
     and_then (maybe (\<lambda>p. normalizeAbsoluteApiPath p ''action route path'') (nonEmpty (rt_path route))) (\<lambda>path.
     Inr \<lparr>rt_method = meth, rt_surfaceKey = nonEmpty (rt_surfaceKey route), rt_path = path,
          rt_metadata = rt_metadata route\<rparr>))"

definition normalizeTeamActionContract :: "TeamActionContract \<Rightarrow> jserror + TeamActionContract" where
  "normalizeTeamActionContract action =
     and_then (requiredText (Some (ac_id action)) ''action id'') (\<lambda>aid.
     and_then (maybe normalizeActionRouteContract (ac_route action)) (\<lambda>route.
     and_then (maybe normalizeActionInputContract (ac_input action)) (\<lambda>input.
     and_then (maybe normalizeActionOutputContract (ac_output action)) (\<lambda>output.
     Inr \<lparr>ac_id = aid, ac_title = nonEmpty (ac_title action), ac_description = nonEmpty (ac_description action),
          ac_enabled = ac_enabled action, ac_route = route, ac_input = input, ac_output = output,
          ac_defaults = normalizeActionDefaults (ac_defaults action),
          ac_capabilities = uniqueStrings (ac_capabilities action), ac_metadata = ac_metadata action\<rparr>))))"

definition normalizeTeamActionContracts :: "TeamActionContract list \<Rightarrow> jserror + TeamActionContract list" where
  "normalizeTeamActionContracts actions = unique_entries normalizeTeamActionContract ac_id ''action'' [] actions"

section \<open>Workspaces, members and teams\<close>

record NormalizedWorkspacePathEntry =
  np_key :: string
  np_path :: string

definition normalizeWorkspacePathEntry :: "TeamWorkspacePathEntry \<Rightarrow> jserror + NormalizedWorkspacePathEntry" where
  "normalizeWorkspacePathEntry entry =
     (case entry of
        PathText s \<Rightarrow> and_then (normalizeRelativePath s) (\<lambda>path. Inr \<lparr>np_key = path, np_path = path\<rparr>)
      | PathEntry k p \<Rightarrow>
          (case nonEmpty (Some k) of
             None \<Rightarrow> Inl (invalidConfigError ''team manifest: missing workspace path key'')
           | Some key \<Rightarrow>
               and_then (normalizeRelativePath (case p of Some path \<Rightarrow> path | None \<Rightarrow> key)) (\<lambda>path.
               Inr \<lparr>np_key = key, np_path = path\<rparr>)))"

text \<open>A normalised entry is stored back as an entry with a key and a path.\<close>

definition path_entry :: "NormalizedWorkspacePathEntry \<Rightarrow> TeamWorkspacePathEntry" where
  "path_entry e = PathEntry (np_key e) (Some (np_path e))"

definition normalizeWorkspaceConfig :: "TeamWorkspaceConfig \<Rightarrow> jserror + TeamWorkspaceConfig" where
  "normalizeWorkspaceConfig workspace =
     and_then (normalizeRootPath (wk_rootPath workspace)) (\<lambda>root.
     and_then (each normalizeWorkspacePathEntry (wk_paths workspace)) (\<lambda>paths.
     Inr \<lparr>wk_rootPath = root, wk_paths = map path_entry paths\<rparr>))"

definition normalizeIdentity :: "ManifestIdentity \<Rightarrow> ManifestIdentity" where
  "normalizeIdentity identity =
     \<lparr>mi_name = nonEmpty (mi_name identity), mi_displayName = nonEmpty (mi_displayName identity),
      mi_slug = nonEmpty (mi_slug identity), mi_code = nonEmpty (mi_code identity),
      mi_aliases = uniqueStrings (mi_aliases identity), mi_metadata = mi_metadata identity\<rparr>"

definition normalizeMember :: "ManifestMember \<Rightarrow> jserror + ManifestMember" where
  "normalizeMember mem =
     and_then (requiredText (Some (mb_id mem)) ''member id'') (\<lambda>mid.
     and_then (maybe normalizeWorkspaceConfig (mb_workspace mem)) (\<lambda>workspace.
     and_then (normalizeTeamActionContracts (mb_actions mem)) (\<lambda>actions.
     Inr \<lparr>mb_id = mid, mb_identity = map_option normalizeIdentity (mb_identity mem), mb_workspace = workspace,
          mb_actions = actions, mb_capabilities = uniqueStrings (mb_capabilities mem),
          mb_metadata = mb_metadata mem\<rparr>)))"

definition normalizeMembers :: "ManifestMember list \<Rightarrow> jserror + ManifestMember list" where
  "normalizeMembers members = unique_entries normalizeMember mb_id ''member'' [] members"

text \<open>Here the name is checked before the path is normalised.\<close>

fun normalize_routes_from :: "string list \<Rightarrow> ManifestRouteConfig list \<Rightarrow> jserror + ManifestRouteConfig list" where
  "normalize_routes_from seen [] = Inr []"
| "normalize_routes_from seen (route # routes) =
     and_then (requiredText (Some (rk_key route)) ''route key'') (\<lambda>key.
       if key \<in> set seen
       then Inl (invalidConfigError (''team manifest: duplicate route '' @ quoted key))
       else
         and_then (maybe (\<lambda>p. normalizeAbsoluteApiPath p ''route path'') (nonEmpty (rk_path route))) (\<lambda>path.
         and_then (normalize_routes_from (os_add key seen) routes) (\<lambda>rest.
         Inr (\<lparr>rk_key = key, rk_path = path\<rparr> # rest))))"

definition normalizeTeamRoutes :: "ManifestRouteConfig list \<Rightarrow> jserror + ManifestRouteConfig list" where
  "normalizeTeamRoutes routes = normalize_routes_from [] routes"

definition normalizeTeam :: "ManifestTeam \<Rightarrow> jserror + ManifestTeam" where
  "normalizeTeam team =
     and_then (requiredText (Some (mt_id team)) ''team id'') (\<lambda>tid.
     and_then (normalizeMembers (mt_members team)) (\<lambda>members.
     and_then (maybe normalizeWorkspaceConfig (mt_workspace team)) (\<lambda>workspace.
     and_then (normalizeTeamActionContracts (mt_actions team)) (\<lambda>actions.
     and_then (normalizeTeamRoutes (mt_routes team)) (\<lambda>routes.
     Inr \<lparr>mt_id = tid, mt_identity = map_option normalizeIdentity (mt_identity team), mt_members = members,
          mt_workspace = workspace, mt_actions = actions, mt_capabilities = uniqueStrings (mt_capabilities team),
          mt_routes = routes, mt_metadata = mt_metadata team\<rparr>)))))"

definition normalizeTeams :: "ManifestTeam list \<Rightarrow> jserror + ManifestTeam list" where
  "normalizeTeams teams = unique_entries normalizeTeam mt_id ''team'' [] teams"

section \<open>Bindings and the manifest\<close>

definition normalizeGatewayRouteBinding :: "GatewayRouteBinding \<Rightarrow> jserror + GatewayRouteBinding" where
  "normalizeGatewayRouteBinding binding =
     and_then (requiredText (Some (gb_id binding)) ''gateway route binding id'') (\<lambda>bid.
     and_then (requiredText (Some (gb_teamId binding)) ''gateway route binding teamId'') (\<lambda>tid.
     Inr \<lparr>gb_id = bid, gb_teamId = tid, gb_memberId = nonEmpty (gb_memberId binding),
          gb_source = nonEmpty (gb_source binding), gb_channel = nonEmpty (gb_channel binding),
          gb_actionId = nonEmpty (gb_actionId binding), gb_routeKey = nonEmpty (gb_routeKey binding),
          gb_sessionKeyPattern = nonEmpty (gb_sessionKeyPattern binding), gb_metadata = gb_metadata binding\<rparr>))"

definition normalizeGatewayRouteBindings :: "GatewayRouteBinding list \<Rightarrow> jserror + GatewayRouteBinding list" where
  "normalizeGatewayRouteBindings bindings =
     unique_entries normalizeGatewayRouteBinding gb_id ''gateway route binding'' [] bindings"

definition normalize_filled :: "TeamManifest \<Rightarrow> jserror + TeamManifest" where
  "normalize_filled manifest =
     and_then (normalizeTeamActionContracts (mf_actions manifest)) (\<lambda>actions.
     and_then (normalizeGatewayRouteBindings (mf_bindings manifest)) (\<lambda>bindings.
     and_then (normalizeTeams (mf_teams manifest)) (\<lambda>teams.
     Inr \<lparr>mf_version = TEAM_MANIFEST_VERSION, mf_actions = actions, mf_bindings = bindings, mf_teams = teams\<rparr>)))"

definition blank_team :: ManifestTeam where
  "blank_team = \<lparr>mt_id = [], mt_identity = None, mt_members = [], mt_workspace = None, mt_actions = [],
     mt_capabilities = [], mt_routes = [], mt_metadata = None\<rparr>"

text \<open>The default manifest has one team, so its normalisation does not come back here.\<close>

definition createDefaultTeamManifest :: "CreateDefaultTeamManifestOptions \<Rightarrow> jserror + TeamManifest" where
  "createDefaultTeamManifest opts =
     (let teamId = (case nonEmpty (cd_teamId opts) of Some t \<Rightarrow> t | None \<Rightarrow> DEFAULT_TEAM_ID);
          memberId = (case nonEmpty (cd_memberId opts) of Some m \<Rightarrow> m | None \<Rightarrow> DEFAULT_TEAM_MEMBER_ID);
          workspace = map_option (\<lambda>root. \<lparr>wk_rootPath = root, wk_paths = cd_workspacePaths opts\<rparr>)
            (cd_workspaceRootPath opts)
      in normalize_filled
           \<lparr>mf_version = TEAM_MANIFEST_VERSION, mf_actions = [], mf_bindings = [],
            mf_teams = [blank_team\<lparr>mt_id := teamId,
              mt_identity := Some \<lparr>mi_name = Some teamId, mi_displayName = Some teamId, mi_slug = Some teamId,
                mi_code = Some teamId, mi_aliases = [], mi_metadata = None\<rparr>,
              mt_members := [\<lparr>mb_id = memberId, mb_identity = None, mb_workspace = workspace, mb_actions = [],
                mb_capabilities = [], mb_metadata = None\<rparr>],
              mt_workspace := workspace\<rparr>]\<rparr>)"

definition normalizeTeamManifest :: "TeamManifest option \<Rightarrow> jserror + TeamManifest" where
  "normalizeTeamManifest manifest =
     (case manifest of
        None \<Rightarrow> createDefaultTeamManifest \<lparr>cd_teamId = None, cd_memberId = None, cd_workspaceRootPath = None, cd_workspacePaths = []\<rparr>
      | Some m \<Rightarrow>
          if mf_teams m = []
          then createDefaultTeamManifest \<lparr>cd_teamId = None, cd_memberId = None, cd_workspaceRootPath = None, cd_workspacePaths = []\<rparr>
          else normalize_filled m)"

section \<open>Lookup\<close>

definition findTeamManifestTeam :: "TeamManifest \<Rightarrow> string option \<Rightarrow> ManifestTeam option" where
  "findTeamManifestTeam manifest teamId =
     (case nonEmpty teamId of
        None \<Rightarrow> None
      | Some t \<Rightarrow> find (\<lambda>team. mt_id team = t) (mf_teams manifest))"

definition findTeamManifestMember :: "ManifestTeam \<Rightarrow> string option \<Rightarrow> ManifestMember option" where
  "findTeamManifestMember team memberId =
     (case nonEmpty memberId of
        None \<Rightarrow> None
      | Some m \<Rightarrow> find (\<lambda>mem. mb_id mem = m) (mt_members team))"

definition findTeamActionContract :: "TeamActionContract list \<Rightarrow> string option \<Rightarrow> TeamActionContract option" where
  "findTeamActionContract actions actionId =
     (case nonEmpty actionId of
        None \<Rightarrow> None
      | Some a \<Rightarrow> find (\<lambda>action. ac_id action = a) actions)"

definition findWorkspacePath :: "TeamWorkspaceConfig \<Rightarrow> string \<Rightarrow> jserror + NormalizedWorkspacePathEntry option" where
  "findWorkspacePath workspace keyOrPath =
     and_then (normalizeRelativePath keyOrPath) (\<lambda>requested.
       foldr (\<lambda>entry later.
           and_then (normalizeWorkspacePathEntry entry) (\<lambda>normalized.
             if np_key normalized = keyOrPath \<or> np_path normalized = requested then Inr (Some normalized)
             else later))
         (wk_paths workspace) (Inr None))"

section \<open>Normal forms\<close>

text \<open>
  The contract of a normaliser: its results are well formed, and well formed values are its fixed points.
  So a normalised value is its own normal form.
\<close>

locale normalizer =
  fixes norm :: "'a \<Rightarrow> jserror + 'a"
    and ok :: "'a \<Rightarrow> bool"
  assumes gives_ok: "norm x = Inr y \<Longrightarrow> ok y"
    and keeps_ok: "ok y \<Longrightarrow> norm y = Inr y"
begin

lemma again: "norm x = Inr y \<Longrightarrow> norm y = Inr y"
  by (rule keeps_ok) (rule gives_ok)

lemma fixed_iff: "norm y = Inr y \<longleftrightarrow> ok y"
  using gives_ok keeps_ok by blast

lemma on_option: "normalizer (maybe norm) (pred_option ok)"
proof
  fix x y
  show "maybe norm x = Inr y \<Longrightarrow> pred_option ok y"
    by (cases y) (auto simp: maybe_Inr option_rel_Some2 dest: gives_ok)
  show "pred_option ok y \<Longrightarrow> maybe norm y = Inr y"
    by (cases y) (auto simp: maybe_def keeps_ok)
qed

lemma entries_ok:
  "unique_entries norm key what seen xs = Inr ys \<Longrightarrow>
     list_all ok ys \<and> distinct (map key ys) \<and> set (map key ys) \<inter> set seen = {}"
  by (induction xs arbitrary: seen ys) (fastforce simp: and_then_Inr dest: gives_ok split: if_splits)+

lemma entries_fixed:
  "list_all ok ys \<Longrightarrow> distinct (map key ys) \<Longrightarrow> set (map key ys) \<inter> set seen = {} \<Longrightarrow>
   unique_entries norm key what seen ys = Inr ys"
  by (induction ys arbitrary: seen) (auto simp: keeps_ok)

lemma on_entries:
  "normalizer (unique_entries norm key what []) (\<lambda>ys. list_all ok ys \<and> distinct (map key ys))"
  by standard (auto dest: entries_ok simp: entries_fixed)

end

subsection \<open>Texts, names and paths\<close>

definition names_ok :: "string list \<Rightarrow> bool" where
  "names_ok xs = (list_all clean xs \<and> distinct xs)"

abbreviation text_ok :: "string option \<Rightarrow> bool" where
  "text_ok \<equiv> pred_option clean"

definition relative_ok :: "string \<Rightarrow> bool" where
  "relative_ok p =
     (safe_segments (split_char (CHR ''/'') p) \<and> \<not> has_scheme p \<and> backslash \<notin> set p)"

definition absolute_ok :: "string \<Rightarrow> bool" where
  "absolute_ok p =
     (p \<noteq> [] \<and> hd p = CHR ''/'' \<and> safe_segments (split_char (CHR ''/'') (tl p))
      \<and> list_all (\<lambda>c. c \<noteq> backslash \<and> c \<noteq> CHR ''?'' \<and> c \<noteq> CHR ''#'') p)"

lemma nonEmpty_ok [simp]: "text_ok (nonEmpty v)"
  by (cases "nonEmpty v") (auto dest: nonEmpty_clean)

lemma nonEmpty_fixed: "text_ok v \<Longrightarrow> nonEmpty v = v"
  by (cases v) (simp_all add: clean_nonEmpty)

lemma unique_from_ok:
  "list_all clean (unique_from seen vs) \<and> distinct (unique_from seen vs) \<and> set (unique_from seen vs) \<inter> set seen = {}"
  by (induction seen vs rule: unique_from.induct) (auto split: option.splits dest: nonEmpty_clean)

lemma unique_from_fixed:
  "list_all clean vs \<Longrightarrow> distinct vs \<Longrightarrow> set vs \<inter> set seen = {} \<Longrightarrow> unique_from seen vs = vs"
  by (induction seen vs rule: unique_from.induct) (auto simp: clean_nonEmpty)

lemma uniqueStrings_ok [simp]: "names_ok (uniqueStrings vs)"
  using unique_from_ok [of "[]" vs] by (simp add: uniqueStrings_def names_ok_def)

lemma uniqueStrings_fixed: "names_ok vs \<Longrightarrow> uniqueStrings vs = vs"
  by (simp add: uniqueStrings_def names_ok_def unique_from_fixed)

lemma relative_segments:
  assumes "relative_ok p"
  shows "path_segments p = split_char (CHR ''/'') p" "clean p" "\<not> prefix ''/'' p"
proof -
  let ?s = "split_char (CHR ''/'') p"
  from assms have s: "?s \<noteq> []" "list_all segment ?s" using safe_segments_segment by (auto simp: relative_ok_def)
  show "path_segments p = ?s" "clean p" "\<not> prefix ''/'' p"
    using path_segments_join(1) [OF s] trim_join(1) [OF s] join_no_slash [OF s] by (simp_all add: join_split)
qed

interpretation relative: normalizer normalizeRelativePath relative_ok
proof
  fix v p
  assume n: "normalizeRelativePath v = Inr p"
  from relative_again [OF n] relative_clean [OF n] have "\<not> not_relative p" by (simp add: normalizeRelativePath_Inr clean_def)
  moreover have "split_char (CHR ''/'') p = path_segments (trim v)" "safe_segments (path_segments (trim v))"
    using n split_join_safe by (auto simp: normalizeRelativePath_Inr)
  ultimately show "relative_ok p" by (simp add: relative_ok_def not_relative_def)
next
  fix p
  assume "relative_ok p"
  with relative_segments [of p] show "normalizeRelativePath p = Inr p"
    by (simp add: normalizeRelativePath_Inr relative_ok_def not_relative_def clean_def join_split)
qed

interpretation absolute: normalizer "\<lambda>p. normalizeAbsoluteApiPath p label" absolute_ok for label
proof
  fix v p
  assume n: "normalizeAbsoluteApiPath v label = Inr p"
  from absolute_again [OF n] absolute_clean [OF n]
  have "list_all (\<lambda>c. c \<noteq> backslash \<and> c \<noteq> CHR ''?'' \<and> c \<noteq> CHR ''#'') p"
    by (simp add: normalizeAbsolute_Inr clean_def)
  then show "absolute_ok p"
    using n split_join_safe by (auto simp: normalizeAbsolute_Inr absolute_ok_def)
next
  fix p
  assume a: "absolute_ok p"
  then obtain q where q: "p = CHR ''/'' # q" "safe_segments (split_char (CHR ''/'') q)"
    by (cases p) (auto simp: absolute_ok_def)
  note s = safe_segments_segment [OF q(2)]
  have "path_segments p = split_char (CHR ''/'') q" "clean p" "\<not> prefix ''/'' q"
    using path_segments_join(2) [OF s [THEN conjunct1] s [THEN conjunct2]]
      trim_join(2) [OF s [THEN conjunct1] s [THEN conjunct2]]
      join_no_slash [OF s [THEN conjunct1] s [THEN conjunct2]] by (simp_all add: q(1) join_split)
  with a q show "normalizeAbsoluteApiPath p label = Inr p"
    by (simp add: normalizeAbsolute_Inr absolute_ok_def join_split clean_def)
qed

subsection \<open>Actions\<close>

definition param_types :: "string list" where
  "param_types = [''boolean'', ''enum'', ''file'', ''json'', ''number'', ''string'']"

definition http_methods :: "string list" where
  "http_methods = [''DELETE'', ''GET'', ''PATCH'', ''POST'', ''PUT'']"

definition defaults_ok :: "data_record option \<Rightarrow> bool" where
  "defaults_ok = pred_option (\<lambda>d. d \<noteq> [] \<and> om_ok d \<and> list_all (\<lambda>(k, v). clean k \<and> k \<noteq> ''__proto__'') d)"

definition param_ok :: "TeamActionParamContract \<Rightarrow> bool" where
  "param_ok p =
     (clean (ap_key p) \<and> pred_option (\<lambda>t. t \<in> set param_types) (ap_type p) \<and> names_ok (ap_values p)
      \<and> names_ok (ap_aliases p) \<and> text_ok (ap_description p))"

definition input_ok :: "TeamActionInputContract \<Rightarrow> bool" where
  "input_ok i =
     (pred_option (\<lambda>m. m \<in> set TEAM_ACTION_INPUT_MODES) (ai_mode i) \<and> text_ok (ai_command i)
      \<and> (list_all param_ok (ai_params i) \<and> distinct (map ap_key (ai_params i))) \<and> names_ok (ai_examples i))"

definition artifact_ok :: "TeamActionArtifactContract \<Rightarrow> bool" where
  "artifact_ok a =
     (clean (af_key a) \<and> text_ok (af_contentType a) \<and> text_ok (af_path a) \<and> text_ok (af_description a))"

definition output_ok :: "TeamActionOutputContract \<Rightarrow> bool" where
  "output_ok u =
     (pred_option (\<lambda>m. m \<in> set TEAM_ACTION_OUTPUT_MODES) (ou_mode u) \<and> text_ok (ou_contentType u)
      \<and> (list_all artifact_ok (ou_artifacts u) \<and> distinct (map af_key (ou_artifacts u))))"

definition route_ok :: "TeamActionRouteContract \<Rightarrow> bool" where
  "route_ok r =
     (pred_option (\<lambda>m. m \<in> set http_methods) (rt_method r) \<and> text_ok (rt_surfaceKey r)
      \<and> pred_option absolute_ok (rt_path r))"

definition action_ok :: "TeamActionContract \<Rightarrow> bool" where
  "action_ok a =
     (clean (ac_id a) \<and> text_ok (ac_title a) \<and> text_ok (ac_description a) \<and> pred_option route_ok (ac_route a)
      \<and> pred_option input_ok (ac_input a) \<and> pred_option output_ok (ac_output a) \<and> defaults_ok (ac_defaults a)
      \<and> names_ok (ac_capabilities a))"

definition actions_ok :: "TeamActionContract list \<Rightarrow> bool" where
  "actions_ok as = (list_all action_ok as \<and> distinct (map ac_id as))"

text \<open>A choice among known texts.\<close>

lemma known_clean:
  "list_all clean (TEAM_ACTION_INPUT_MODES @ TEAM_ACTION_OUTPUT_MODES @ param_types @ http_methods)"
  by (simp add: TEAM_ACTION_INPUT_MODES_def TEAM_ACTION_OUTPUT_MODES_def param_types_def http_methods_def
      clean_def trim_graph graph_char_def)

lemma known_choice:
  assumes "list_all clean ks"
    and f: "\<And>v. f v = (case nonEmpty v of None \<Rightarrow> Inr None | Some m \<Rightarrow> if m \<in> set ks then Inr (Some m) else Inl (er m))"
  shows "normalizer f (pred_option (\<lambda>m. m \<in> set ks))"
proof
  fix x y
  show "f x = Inr y \<Longrightarrow> pred_option (\<lambda>m. m \<in> set ks) y"
    by (cases y) (auto simp: f split: option.splits if_splits)
  show "pred_option (\<lambda>m. m \<in> set ks) y \<Longrightarrow> f y = Inr y"
    using assms(1) by (cases y) (auto simp: f clean_nonEmpty list_all_iff)
qed

interpretation input_mode: normalizer normalizeActionInputMode "pred_option (\<lambda>m. m \<in> set TEAM_ACTION_INPUT_MODES)"
  using known_clean by (intro known_choice) (auto simp: normalizeActionInputMode_def)

interpretation output_mode: normalizer normalizeActionOutputMode "pred_option (\<lambda>m. m \<in> set TEAM_ACTION_OUTPUT_MODES)"
  using known_clean by (intro known_choice) (auto simp: normalizeActionOutputMode_def)

interpretation param_type: normalizer normalizeActionParamType "pred_option (\<lambda>t. t \<in> set param_types)"
  using known_clean
  by (intro known_choice [where er = "invalid_value ''action param type''"])
    (simp_all add: normalizeActionParamType_def param_types_def split: option.split)

interpretation http_method: normalizer normalizeActionHttpMethod "pred_option (\<lambda>m. m \<in> set http_methods)"
proof
  fix x y
  show "normalizeActionHttpMethod x = Inr y \<Longrightarrow> pred_option (\<lambda>m. m \<in> set http_methods) y"
    by (auto simp: normalizeActionHttpMethod_def http_methods_def split: option.splits if_splits)
  assume "pred_option (\<lambda>m. m \<in> set http_methods) y"
  moreover have "nonEmpty (Some m) = Some m" if "m \<in> set http_methods" for m
    using that known_clean by (intro clean_nonEmpty) (auto simp: list_all_iff)
  moreover have "map to_upper_char m = m" if "m \<in> set http_methods" for m
    using that by (auto simp: http_methods_def to_upper_char_def Let_def)
  ultimately show "normalizeActionHttpMethod y = Inr y"
    by (cases y) (auto simp: normalizeActionHttpMethod_def http_methods_def)
qed

lemma put_props_ok:
  assumes "om_ok m" and "list_all (\<lambda>(k, v). clean k \<and> k \<noteq> ''__proto__'') m"
  shows "om_ok (fold (\<lambda>(k, v) m. case nonEmpty (Some k) of Some k' \<Rightarrow> put_prop k' v m | None \<Rightarrow> m) d m)
    \<and> list_all (\<lambda>(k, v). clean k \<and> k \<noteq> ''__proto__'')
        (fold (\<lambda>(k, v) m. case nonEmpty (Some k) of Some k' \<Rightarrow> put_prop k' v m | None \<Rightarrow> m) d m)"
  using assms
proof (induction d arbitrary: m)
  case (Cons kv d)
  obtain k v where kv: "kv = (k, v)" by fastforce
  have "list_all (\<lambda>(k, v). clean k \<and> k \<noteq> ''__proto__'') (om_set j x m)" if "clean j" "j \<noteq> ''__proto__''" for j x
    using Cons.prems(2) that by (induction m) auto
  with Cons show ?case
    by (auto simp: kv put_prop_def split: option.splits dest: nonEmpty_clean)
qed simp

lemma put_props_fixed:
  "om_ok (m @ d) \<Longrightarrow> list_all (\<lambda>(k, v). clean k \<and> k \<noteq> ''__proto__'') d \<Longrightarrow>
   fold (\<lambda>(k, v) m. case nonEmpty (Some k) of Some k' \<Rightarrow> put_prop k' v m | None \<Rightarrow> m) d m = m @ d"
proof (induction d arbitrary: m)
  case (Cons kv d)
  obtain k v where kv: "kv = (k, v)" by fastforce
  from Cons.prems(1) have "\<not> om_has m k" by (auto simp: om_ok_def kv om_has_iff)
  then have "om_set k v m = m @ [(k, v)]" by (rule om_set_fresh)
  with Cons.IH [of "m @ [(k, v)]"] Cons.prems show ?case by (simp add: kv clean_nonEmpty put_prop_def)
qed simp

interpretation defaults: normalizer "\<lambda>d. Inr (normalizeActionDefaults d)" defaults_ok
proof
  fix x y
  assume "Inr (normalizeActionDefaults x) = (Inr y :: jserror + data_record option)"
  then show "defaults_ok y"
    using put_props_ok [of "[]"] by (auto simp: normalizeActionDefaults_def defaults_ok_def filled_def split: option.splits)
next
  fix y
  assume "defaults_ok y"
  then show "Inr (normalizeActionDefaults y) = (Inr y :: jserror + data_record option)"
    using put_props_fixed [of "[]"]
    by (cases y) (auto simp: normalizeActionDefaults_def defaults_ok_def filled_def)
qed

lemmas normal_texts = and_then_Inr requiredText_Inr nonEmpty_clean uniqueStrings_fixed nonEmpty_fixed clean_nonEmpty

interpretation param: normalizer normalizeActionParamContract param_ok
  by standard
    (auto simp: normalizeActionParamContract_def param_ok_def normal_texts param_type.keeps_ok dest: param_type.gives_ok)

interpretation params: normalizer normalizeActionParams "\<lambda>ps. list_all param_ok ps \<and> distinct (map ap_key ps)"
  unfolding normalizeActionParams_def by (rule param.on_entries)

interpretation artifact: normalizer normalizeActionArtifactContract artifact_ok
  by standard (auto simp: normalizeActionArtifactContract_def artifact_ok_def normal_texts)

interpretation artifacts: normalizer normalizeActionArtifacts "\<lambda>as. list_all artifact_ok as \<and> distinct (map af_key as)"
  unfolding normalizeActionArtifacts_def by (rule artifact.on_entries)

interpretation action_input: normalizer normalizeActionInputContract input_ok
proof
  fix x y
  show "normalizeActionInputContract x = Inr y \<Longrightarrow> input_ok y"
    using input_mode.gives_ok params.gives_ok
    by (auto simp: normalizeActionInputContract_def input_ok_def and_then_Inr)
  show "input_ok y \<Longrightarrow> normalizeActionInputContract y = Inr y"
    by (simp add: normalizeActionInputContract_def input_ok_def normal_texts input_mode.keeps_ok params.keeps_ok)
qed

interpretation action_output: normalizer normalizeActionOutputContract output_ok
proof
  fix x y
  show "normalizeActionOutputContract x = Inr y \<Longrightarrow> output_ok y"
    using output_mode.gives_ok artifacts.gives_ok
    by (auto simp: normalizeActionOutputContract_def output_ok_def and_then_Inr)
  show "output_ok y \<Longrightarrow> normalizeActionOutputContract y = Inr y"
    by (simp add: normalizeActionOutputContract_def output_ok_def normal_texts output_mode.keeps_ok artifacts.keeps_ok)
qed

lemma absolute_text: "absolute_ok p \<Longrightarrow> clean p"
  by (rule absolute_clean) (rule absolute.keeps_ok)

interpretation optional_path: normalizer "\<lambda>v. maybe (\<lambda>p. normalizeAbsoluteApiPath p label) (nonEmpty v)" "pred_option absolute_ok"
  for label
proof
  fix x y
  show "maybe (\<lambda>p. normalizeAbsoluteApiPath p label) (nonEmpty x) = Inr y \<Longrightarrow> pred_option absolute_ok y"
    by (cases y) (auto simp: maybe_Inr option_rel_Some2 dest: absolute.gives_ok)
  show "pred_option absolute_ok y \<Longrightarrow> maybe (\<lambda>p. normalizeAbsoluteApiPath p label) (nonEmpty y) = Inr y"
    by (cases y) (auto simp: maybe_def absolute.keeps_ok clean_nonEmpty absolute_text)
qed

interpretation action_route: normalizer normalizeActionRouteContract route_ok
proof
  fix x y
  show "normalizeActionRouteContract x = Inr y \<Longrightarrow> route_ok y"
    using http_method.gives_ok optional_path.gives_ok
    by (auto simp: normalizeActionRouteContract_def route_ok_def and_then_Inr)
  show "route_ok y \<Longrightarrow> normalizeActionRouteContract y = Inr y"
    by (simp add: normalizeActionRouteContract_def route_ok_def normal_texts http_method.keeps_ok optional_path.keeps_ok)
qed

interpretation optional_route: normalizer "maybe normalizeActionRouteContract" "pred_option route_ok"
  by (rule action_route.on_option)

interpretation optional_input: normalizer "maybe normalizeActionInputContract" "pred_option input_ok"
  by (rule action_input.on_option)

interpretation optional_output: normalizer "maybe normalizeActionOutputContract" "pred_option output_ok"
  by (rule action_output.on_option)

interpretation action: normalizer normalizeTeamActionContract action_ok
proof
  fix x y
  show "normalizeTeamActionContract x = Inr y \<Longrightarrow> action_ok y"
    using optional_route.gives_ok optional_input.gives_ok optional_output.gives_ok defaults.gives_ok
    by (auto simp: normalizeTeamActionContract_def action_ok_def normal_texts)
  have "normalizeActionDefaults d = d" if "defaults_ok d" for d using defaults.keeps_ok [OF that] by simp
  then show "action_ok y \<Longrightarrow> normalizeTeamActionContract y = Inr y"
    by (simp add: normalizeTeamActionContract_def action_ok_def normal_texts
        optional_route.keeps_ok optional_input.keeps_ok optional_output.keeps_ok)
qed

interpretation actions: normalizer normalizeTeamActionContracts actions_ok
  unfolding normalizeTeamActionContracts_def actions_ok_def by (rule action.on_entries)

subsection \<open>Teams\<close>

definition path_entry_ok :: "TeamWorkspacePathEntry \<Rightarrow> bool" where
  "path_entry_ok e = (case e of PathEntry k (Some p) \<Rightarrow> clean k \<and> relative_ok p | _ \<Rightarrow> False)"

definition workspace_ok :: "TeamWorkspaceConfig \<Rightarrow> bool" where
  "workspace_ok w = (absolute_ok (wk_rootPath w) \<and> list_all path_entry_ok (wk_paths w))"

definition identity_ok :: "ManifestIdentity \<Rightarrow> bool" where
  "identity_ok i =
     (text_ok (mi_name i) \<and> text_ok (mi_displayName i) \<and> text_ok (mi_slug i) \<and> text_ok (mi_code i)
      \<and> names_ok (mi_aliases i))"

definition member_ok :: "ManifestMember \<Rightarrow> bool" where
  "member_ok m =
     (clean (mb_id m) \<and> pred_option identity_ok (mb_identity m) \<and> pred_option workspace_ok (mb_workspace m)
      \<and> actions_ok (mb_actions m) \<and> names_ok (mb_capabilities m))"

definition routes_ok :: "ManifestRouteConfig list \<Rightarrow> bool" where
  "routes_ok rs =
     (list_all (\<lambda>r. clean (rk_key r) \<and> pred_option absolute_ok (rk_path r)) rs \<and> distinct (map rk_key rs))"

definition team_ok :: "ManifestTeam \<Rightarrow> bool" where
  "team_ok t =
     (clean (mt_id t) \<and> pred_option identity_ok (mt_identity t)
      \<and> (list_all member_ok (mt_members t) \<and> distinct (map mb_id (mt_members t)))
      \<and> pred_option workspace_ok (mt_workspace t) \<and> actions_ok (mt_actions t) \<and> names_ok (mt_capabilities t)
      \<and> routes_ok (mt_routes t))"

definition binding_ok :: "GatewayRouteBinding \<Rightarrow> bool" where
  "binding_ok b =
     (clean (gb_id b) \<and> clean (gb_teamId b) \<and> text_ok (gb_memberId b) \<and> text_ok (gb_source b)
      \<and> text_ok (gb_channel b) \<and> text_ok (gb_actionId b) \<and> text_ok (gb_routeKey b)
      \<and> text_ok (gb_sessionKeyPattern b))"

definition manifest_ok :: "TeamManifest \<Rightarrow> bool" where
  "manifest_ok m =
     (mf_version m = TEAM_MANIFEST_VERSION \<and> actions_ok (mf_actions m)
      \<and> (list_all binding_ok (mf_bindings m) \<and> distinct (map gb_id (mf_bindings m)))
      \<and> mf_teams m \<noteq> [] \<and> (list_all team_ok (mf_teams m) \<and> distinct (map mt_id (mf_teams m))))"

lemma path_entry_gives: "normalizeWorkspacePathEntry e = Inr n \<Longrightarrow> path_entry_ok (path_entry n)"
  by (auto simp: normalizeWorkspacePathEntry_def path_entry_ok_def path_entry_def and_then_Inr nonEmpty_clean
      split: TeamWorkspacePathEntry.splits option.splits dest: relative.gives_ok relative_clean)

lemma path_entry_keeps:
  assumes "path_entry_ok e"
  shows "\<exists>n. normalizeWorkspacePathEntry e = Inr n \<and> path_entry n = e"
proof -
  from assms obtain k p where "e = PathEntry k (Some p)" "clean k" "relative_ok p"
    by (auto simp: path_entry_ok_def split: TeamWorkspacePathEntry.splits option.splits)
  then show ?thesis
    by (intro exI [of _ "\<lparr>np_key = k, np_path = p\<rparr>"])
      (simp add: normalizeWorkspacePathEntry_def path_entry_def clean_nonEmpty relative.keeps_ok)
qed

lemma path_entries_keep:
  "list_all path_entry_ok es \<Longrightarrow> \<exists>ns. each normalizeWorkspacePathEntry es = Inr ns \<and> map path_entry ns = es"
proof (induction es)
  case (Cons e es)
  then obtain ns n where "each normalizeWorkspacePathEntry es = Inr ns" "map path_entry ns = es"
      "normalizeWorkspacePathEntry e = Inr n" "path_entry n = e"
    using path_entry_keeps by fastforce
  then show ?case by (intro exI [of _ "n # ns"]) simp
qed simp

interpretation root: normalizer normalizeRootPath absolute_ok
proof
  fix x y
  show "normalizeRootPath x = Inr y \<Longrightarrow> absolute_ok y"
    by (auto simp: normalizeRootPath_def split: option.splits dest: absolute.gives_ok)
  show "absolute_ok y \<Longrightarrow> normalizeRootPath y = Inr y"
    by (simp add: normalizeRootPath_def clean_nonEmpty absolute_text absolute.keeps_ok)
qed

interpretation workspace: normalizer normalizeWorkspaceConfig workspace_ok
proof
  fix x y
  assume "normalizeWorkspaceConfig x = Inr y"
  then obtain ns where "each normalizeWorkspacePathEntry (wk_paths x) = Inr ns" "wk_paths y = map path_entry ns"
      "absolute_ok (wk_rootPath y)"
    using root.gives_ok by (auto simp: normalizeWorkspaceConfig_def and_then_Inr)
  then show "workspace_ok y"
    by (auto simp: workspace_ok_def each_Inr list_all_length list_all2_conv_all_nth intro: path_entry_gives)
next
  fix y
  assume "workspace_ok y"
  then show "normalizeWorkspaceConfig y = Inr y"
    using path_entries_keep [of "wk_paths y"]
    by (auto simp: normalizeWorkspaceConfig_def workspace_ok_def root.keeps_ok)
qed

interpretation optional_workspace: normalizer "maybe normalizeWorkspaceConfig" "pred_option workspace_ok"
  by (rule workspace.on_option)

interpretation identity: normalizer "\<lambda>i. Inr (map_option normalizeIdentity i)" "pred_option identity_ok"
proof
  fix x y
  show "Inr (map_option normalizeIdentity x) = (Inr y :: jserror + ManifestIdentity option) \<Longrightarrow> pred_option identity_ok y"
    by (cases x) (auto simp: normalizeIdentity_def identity_ok_def)
  show "pred_option identity_ok y \<Longrightarrow> Inr (map_option normalizeIdentity y) = (Inr y :: jserror + ManifestIdentity option)"
    by (cases y) (simp_all add: normalizeIdentity_def identity_ok_def nonEmpty_fixed uniqueStrings_fixed)
qed

interpretation team_member: normalizer normalizeMember member_ok
proof
  fix x y
  show "normalizeMember x = Inr y \<Longrightarrow> member_ok y"
    using optional_workspace.gives_ok actions.gives_ok identity.gives_ok
    by (auto simp: normalizeMember_def member_ok_def normal_texts)
  have "map_option normalizeIdentity d = d" if "pred_option identity_ok d" for d using identity.keeps_ok [OF that] by simp
  then show "member_ok y \<Longrightarrow> normalizeMember y = Inr y"
    by (simp add: normalizeMember_def member_ok_def normal_texts optional_workspace.keeps_ok actions.keeps_ok)
qed

interpretation members: normalizer normalizeMembers "\<lambda>ms. list_all member_ok ms \<and> distinct (map mb_id ms)"
  unfolding normalizeMembers_def by (rule team_member.on_entries)

lemma routes_give:
  "normalize_routes_from seen xs = Inr ys \<Longrightarrow> routes_ok ys \<and> set (map rk_key ys) \<inter> set seen = {}"
proof (induction seen xs arbitrary: ys rule: normalize_routes_from.induct)
  case (2 seen route routes)
  then obtain key path rest where k: "clean key" "key \<notin> set seen" "pred_option absolute_ok path"
      "normalize_routes_from (os_add key seen) routes = Inr rest" "ys = \<lparr>rk_key = key, rk_path = path\<rparr> # rest"
      "requiredText (Some (rk_key route)) ''route key'' = Inr key"
    using optional_path.gives_ok by (auto simp: normal_texts split: if_splits)
  with "2.IH" [OF k(2,4)] show ?case
    using "2.prems" by (auto simp: routes_ok_def and_then_Inr split: if_splits)
qed (simp add: routes_ok_def)

lemma routes_keep:
  "routes_ok ys \<Longrightarrow> set (map rk_key ys) \<inter> set seen = {} \<Longrightarrow> normalize_routes_from seen ys = Inr ys"
  by (induction ys arbitrary: seen) (auto simp: routes_ok_def normal_texts requiredText_clean optional_path.keeps_ok)

interpretation team_routes: normalizer normalizeTeamRoutes routes_ok
  by standard (auto simp: normalizeTeamRoutes_def routes_keep dest: routes_give)

interpretation team: normalizer normalizeTeam team_ok
proof
  fix x y
  show "normalizeTeam x = Inr y \<Longrightarrow> team_ok y"
    using optional_workspace.gives_ok actions.gives_ok identity.gives_ok members.gives_ok team_routes.gives_ok
    by (auto simp: normalizeTeam_def team_ok_def normal_texts)
  have "map_option normalizeIdentity d = d" if "pred_option identity_ok d" for d using identity.keeps_ok [OF that] by simp
  then show "team_ok y \<Longrightarrow> normalizeTeam y = Inr y"
    by (simp add: normalizeTeam_def team_ok_def normal_texts optional_workspace.keeps_ok actions.keeps_ok
        members.keeps_ok team_routes.keeps_ok)
qed

interpretation teams: normalizer normalizeTeams "\<lambda>ts. list_all team_ok ts \<and> distinct (map mt_id ts)"
  unfolding normalizeTeams_def by (rule team.on_entries)

interpretation binding: normalizer normalizeGatewayRouteBinding binding_ok
  by standard (auto simp: normalizeGatewayRouteBinding_def binding_ok_def normal_texts)

interpretation bindings: normalizer normalizeGatewayRouteBindings "\<lambda>bs. list_all binding_ok bs \<and> distinct (map gb_id bs)"
  unfolding normalizeGatewayRouteBindings_def by (rule binding.on_entries)

lemma team_list_nonempty: "normalizeTeams ts = Inr us \<Longrightarrow> ts \<noteq> [] \<Longrightarrow> us \<noteq> []"
  by (cases ts) (auto simp: normalizeTeams_def and_then_Inr split: if_splits)

lemma filled_manifest_ok: "normalize_filled m = Inr n \<Longrightarrow> mf_teams m \<noteq> [] \<Longrightarrow> manifest_ok n"
  using actions.gives_ok bindings.gives_ok teams.gives_ok team_list_nonempty
  by (auto simp: normalize_filled_def manifest_ok_def and_then_Inr)

interpretation manifest: normalizer "\<lambda>m. normalizeTeamManifest (Some m)" manifest_ok
proof
  fix x y
  show "normalizeTeamManifest (Some x) = Inr y \<Longrightarrow> manifest_ok y"
    by (auto simp: normalizeTeamManifest_def createDefaultTeamManifest_def Let_def split: if_splits
        intro: filled_manifest_ok)
  show "manifest_ok y \<Longrightarrow> normalizeTeamManifest (Some y) = Inr y"
    by (simp add: normalizeTeamManifest_def manifest_ok_def normalize_filled_def actions.keeps_ok bindings.keeps_ok
        teams.keeps_ok TEAM_MANIFEST_VERSION_def)
qed

section \<open>What normalising a manifest gives\<close>

lemma normalizeTeam_id: "normalizeTeam t = Inr u \<Longrightarrow> mt_id u = trim (mt_id t)"
  by (auto simp: normalizeTeam_def and_then_Inr requiredText_Inr nonEmpty_Some_iff)

lemma entries_all2: "unique_entries f key what seen xs = Inr ys \<Longrightarrow> list_all2 (\<lambda>x y. f x = Inr y) xs ys"
  by (induction xs arbitrary: seen ys) (auto simp: and_then_Inr split: if_splits)

lemma normalizeTeams_ids: "normalizeTeams ts = Inr us \<Longrightarrow> map mt_id us = map (trim \<circ> mt_id) ts"
  unfolding normalizeTeams_def
  by (drule entries_all2, induction rule: list_all2_induct) (auto dest: normalizeTeam_id)

lemma default_manifest_filled:
  "createDefaultTeamManifest \<lparr>cd_teamId = None, cd_memberId = None, cd_workspaceRootPath = None, cd_workspacePaths = []\<rparr>
     = normalizeTeamManifest None"
  by (simp add: normalizeTeamManifest_def)

lemma normalised_ok: "normalizeTeamManifest m = Inr n \<Longrightarrow> manifest_ok n"
proof (cases m)
  case None
  let ?none = "\<lparr>mf_version = 1, mf_actions = [], mf_bindings = [], mf_teams = []\<rparr> :: TeamManifest"
  assume "normalizeTeamManifest m = Inr n"
  with None have "normalizeTeamManifest (Some ?none) = Inr n" by (simp add: normalizeTeamManifest_def)
  then show ?thesis by (rule manifest.gives_ok)
qed (use manifest.gives_ok in blast)

text \<open>C20: Normalising a manifest gives a well formed one (trimmed, non-empty and unique names at every
  level, known modes, types and methods, paths that do not climb), keeps its teams in order under their
  trimmed ids, or gives the default manifest when there is none, and is a fixed point: a normalised manifest
  is its own normal form. A manifest is its own normal form exactly when it is well formed.\<close>

theorem manifest_normalised:
  "(case normalizeTeamManifest (Some m) of
      Inl _ \<Rightarrow> True
    | Inr n \<Rightarrow> manifest_ok n \<and> normalizeTeamManifest (Some n) = Inr n
        \<and> (if mf_teams m = [] then normalizeTeamManifest None = Inr n
           else map mt_id (mf_teams n) = map (trim \<circ> mt_id) (mf_teams m)))
   \<and> (normalizeTeamManifest (Some m) = Inr m \<longleftrightarrow> manifest_ok m)"
proof (cases "normalizeTeamManifest (Some m)")
  case (Inr n)
  have "map mt_id (mf_teams n) = map (trim \<circ> mt_id) (mf_teams m)" if "mf_teams m \<noteq> []"
    using Inr that normalizeTeams_ids by (auto simp: normalizeTeamManifest_def normalize_filled_def and_then_Inr)
  moreover have "normalizeTeamManifest None = Inr n" if "mf_teams m = []"
    using Inr that by (simp add: normalizeTeamManifest_def)
  ultimately show ?thesis
    using Inr manifest.gives_ok [OF Inr] manifest.again [OF Inr] manifest.fixed_iff [of m] by simp
qed (use manifest.fixed_iff [of m] in simp)

end
