(* ===== verification/TeamResolve.thy ===== *)
theory TeamResolve
  imports TeamManifests
begin

text \<open>
  Resolution over a manifest, \<open>src/contracts/team-manifest/resolve.ts\<close>: the actions of a team under the
  manifest, team and member scopes, the API paths of actions and routes, the binding of a gateway event,
  and the whitelisted paths of a workspace. Records that callers pass (\<open>params\<close>, \<open>query\<close>) are read at
  their own keys. The lemmas say which scope wins, that a built path decodes to exactly the names it was
  built from, which binding is chosen, and that a workspace path stays under its root.
\<close>

section \<open>Merging\<close>

text \<open>\<open>Object.assign\<close> of an optional record.\<close>

definition assign_props :: "data_record option \<Rightarrow> data_record \<Rightarrow> data_record" where
  "assign_props src m = (case src of None \<Rightarrow> m | Some d \<Rightarrow> fold (\<lambda>(k, v). put_prop k v) d m)"

definition mergeRecords :: "data_record option \<Rightarrow> data_record option \<Rightarrow> data_record option" where
  "mergeRecords base override = filled (assign_props override (assign_props base []))"

text \<open>\<open>override ?? base\<close>, and the same when only a truthy text is kept.\<close>

definition either_of :: "'a option \<Rightarrow> 'a option \<Rightarrow> 'a option" where
  "either_of override base = (case override of Some x \<Rightarrow> Some x | None \<Rightarrow> base)"

definition text_of_either :: "string option \<Rightarrow> string option \<Rightarrow> string option" where
  "text_of_either override base =
     (case either_of override base of Some s \<Rightarrow> if s = [] then None else Some s | None \<Rightarrow> None)"

definition mergeActionParamContract ::
  "TeamActionParamContract \<Rightarrow> TeamActionParamContract \<Rightarrow> TeamActionParamContract" where
  "mergeActionParamContract base override =
     \<lparr>ap_key = ap_key base, ap_type = text_of_either (ap_type override) (ap_type base),
      ap_required = either_of (ap_required override) (ap_required base),
      ap_default = either_of (ap_default override) (ap_default base),
      ap_values = uniqueStrings (ap_values base @ ap_values override),
      ap_aliases = uniqueStrings (ap_aliases base @ ap_aliases override),
      ap_description = text_of_either (ap_description override) (ap_description base),
      ap_metadata = mergeRecords (ap_metadata base) (ap_metadata override)\<rparr>"

text \<open>The loops over a \<open>Map\<close> by key: an entry of the override is merged into the one it meets.\<close>

definition merge_by ::
  "('a \<Rightarrow> string) \<Rightarrow> ('a \<Rightarrow> 'a \<Rightarrow> 'a) \<Rightarrow> 'a list \<Rightarrow> 'a list \<Rightarrow> 'a list" where
  "merge_by key merge base override =
     map snd
       (fold (\<lambda>x m. om_set (key x) (case om_get m (key x) of Some e \<Rightarrow> merge e x | None \<Rightarrow> x) m) override
         (fold (\<lambda>x m. om_set (key x) x m) base []))"

definition mergeActionParams ::
  "TeamActionParamContract list \<Rightarrow> TeamActionParamContract list \<Rightarrow> TeamActionParamContract list" where
  "mergeActionParams base override = merge_by ap_key mergeActionParamContract base override"

definition params_of :: "TeamActionInputContract option \<Rightarrow> TeamActionParamContract list" where
  "params_of i = (case i of Some x \<Rightarrow> ai_params x | None \<Rightarrow> [])"

definition examples_of :: "TeamActionInputContract option \<Rightarrow> string list" where
  "examples_of i = (case i of Some x \<Rightarrow> ai_examples x | None \<Rightarrow> [])"

definition mergeActionInputContract ::
  "TeamActionInputContract option \<Rightarrow> TeamActionInputContract option \<Rightarrow> TeamActionInputContract option" where
  "mergeActionInputContract base override =
     (if base = None \<and> override = None then None
      else Some
        \<lparr>ai_mode = text_of_either (Option.bind override ai_mode) (Option.bind base ai_mode),
         ai_command = text_of_either (Option.bind override ai_command) (Option.bind base ai_command),
         ai_params = mergeActionParams (params_of base) (params_of override),
         ai_schema = either_of (Option.bind override ai_schema) (Option.bind base ai_schema),
         ai_examples = uniqueStrings (examples_of base @ examples_of override),
         ai_metadata = mergeRecords (Option.bind base ai_metadata) (Option.bind override ai_metadata)\<rparr>)"

definition mergeActionArtifactContract ::
  "TeamActionArtifactContract \<Rightarrow> TeamActionArtifactContract \<Rightarrow> TeamActionArtifactContract" where
  "mergeActionArtifactContract base override =
     \<lparr>af_key = af_key base, af_contentType = text_of_either (af_contentType override) (af_contentType base),
      af_path = text_of_either (af_path override) (af_path base),
      af_description = text_of_either (af_description override) (af_description base),
      af_metadata = mergeRecords (af_metadata base) (af_metadata override)\<rparr>"

definition mergeActionArtifacts ::
  "TeamActionArtifactContract list \<Rightarrow> TeamActionArtifactContract list \<Rightarrow> TeamActionArtifactContract list" where
  "mergeActionArtifacts base override = merge_by af_key mergeActionArtifactContract base override"

definition artifacts_of :: "TeamActionOutputContract option \<Rightarrow> TeamActionArtifactContract list" where
  "artifacts_of u = (case u of Some x \<Rightarrow> ou_artifacts x | None \<Rightarrow> [])"

definition mergeActionOutputContract ::
  "TeamActionOutputContract option \<Rightarrow> TeamActionOutputContract option \<Rightarrow> TeamActionOutputContract option" where
  "mergeActionOutputContract base override =
     (if base = None \<and> override = None then None
      else Some
        \<lparr>ou_mode = text_of_either (Option.bind override ou_mode) (Option.bind base ou_mode),
         ou_contentType = text_of_either (Option.bind override ou_contentType) (Option.bind base ou_contentType),
         ou_schema = either_of (Option.bind override ou_schema) (Option.bind base ou_schema),
         ou_artifacts = mergeActionArtifacts (artifacts_of base) (artifacts_of override),
         ou_metadata = mergeRecords (Option.bind base ou_metadata) (Option.bind override ou_metadata)\<rparr>)"

definition mergeActionRouteContract ::
  "TeamActionRouteContract option \<Rightarrow> TeamActionRouteContract option \<Rightarrow> TeamActionRouteContract option" where
  "mergeActionRouteContract base override =
     (if base = None \<and> override = None then None
      else Some
        \<lparr>rt_method = text_of_either (Option.bind override rt_method) (Option.bind base rt_method),
         rt_surfaceKey = text_of_either (Option.bind override rt_surfaceKey) (Option.bind base rt_surfaceKey),
         rt_path = text_of_either (Option.bind override rt_path) (Option.bind base rt_path),
         rt_metadata = mergeRecords (Option.bind base rt_metadata) (Option.bind override rt_metadata)\<rparr>)"

definition mergeTeamActionContracts ::
  "TeamActionContract \<Rightarrow> TeamActionContract \<Rightarrow> jserror + TeamActionContract" where
  "mergeTeamActionContracts base override =
     (if ac_id base \<noteq> ac_id override
      then Inl (invalidConfigError (''team manifest: cannot merge action '' @ quoted (ac_id override) @ '' into '' @ quoted (ac_id base)))
      else Inr
        \<lparr>ac_id = ac_id base, ac_title = text_of_either (ac_title override) (ac_title base),
         ac_description = text_of_either (ac_description override) (ac_description base),
         ac_enabled = either_of (ac_enabled override) (ac_enabled base),
         ac_route = mergeActionRouteContract (ac_route base) (ac_route override),
         ac_input = mergeActionInputContract (ac_input base) (ac_input override),
         ac_output = mergeActionOutputContract (ac_output base) (ac_output override),
         ac_defaults = mergeRecords (ac_defaults base) (ac_defaults override),
         ac_capabilities = uniqueStrings (ac_capabilities base @ ac_capabilities override),
         ac_metadata = mergeRecords (ac_metadata base) (ac_metadata override)\<rparr>)"

section \<open>Resolving an action\<close>

record ResolveTeamActionContractOptions =
  rq_memberId :: "string option"
  rq_params :: "data_record option"
  rq_query :: "data_record option"

fun merge_all :: "TeamActionContract \<Rightarrow> TeamActionContract list \<Rightarrow> jserror + TeamActionContract" where
  "merge_all merged [] = Inr merged"
| "merge_all merged (a # as) = and_then (mergeTeamActionContracts merged a) (\<lambda>m. merge_all m as)"

text \<open>The actions of that name from the widest scope to the narrowest.\<close>

definition scoped_actions ::
  "TeamManifest \<Rightarrow> ManifestTeam \<Rightarrow> ManifestMember option \<Rightarrow> string \<Rightarrow> TeamActionContract list" where
  "scoped_actions manifest team mem actionId =
     List.map_filter id
       [findTeamActionContract (mf_actions manifest) (Some actionId),
        findTeamActionContract (mt_actions team) (Some actionId),
        Option.bind mem (\<lambda>m. findTeamActionContract (mb_actions m) (Some actionId))]"

definition resolveTeamActionContract ::
  "TeamManifest \<Rightarrow> string option \<Rightarrow> string option \<Rightarrow> ResolveTeamActionContractOptions \<Rightarrow> jserror + TeamActionContract" where
  "resolveTeamActionContract manifest teamId actionId opts =
     and_then (requiredText teamId ''team id'') (\<lambda>tid.
     and_then (requiredText actionId ''action id'') (\<lambda>aid.
       case findTeamManifestTeam manifest (Some tid) of
         None \<Rightarrow> Inl (invalidConfigError (''team manifest: unknown team '' @ quoted tid))
       | Some team \<Rightarrow>
           (let mid = nonEmpty (rq_memberId opts);
                mem = Option.bind mid (\<lambda>m. findTeamManifestMember team (Some m))
            in case (mid, mem) of
                 (Some m, None) \<Rightarrow>
                   Inl (invalidConfigError (''team manifest: unknown member '' @ quoted m @ '' for team '' @ quoted (mt_id team)))
               | _ \<Rightarrow>
                   (case scoped_actions manifest team mem aid of
                      [] \<Rightarrow> Inl (invalidConfigError (''team manifest: unknown action '' @ quoted aid @ '' for team '' @ quoted (mt_id team)))
                    | a # as \<Rightarrow> merge_all a as))))"

section \<open>API paths\<close>

definition word_char :: "char \<Rightarrow> bool" where
  "word_char c = (is_alnum c \<or> c = CHR ''_'')"

definition param_text :: "data_record option \<Rightarrow> string \<Rightarrow> string option" where
  "param_text params token =
     (case Option.bind params (\<lambda>m. om_get m token) of
        None \<Rightarrow> None
      | Some v \<Rightarrow> if nullish v \<or> v = JStr [] then None else Some (js_string v))"

function substituteRouteParams :: "string \<Rightarrow> data_record option \<Rightarrow> jserror + string" where
  "substituteRouteParams [] params = Inr []"
| "substituteRouteParams (c # s) params =
     (let token = takeWhile word_char s; after = dropWhile word_char s in
      if c = CHR ''{'' \<and> token \<noteq> [] \<and> prefix ''}'' after
      then (case param_text params token of
              None \<Rightarrow> Inl (invalidConfigError (''team manifest: missing route param '' @ quoted token))
            | Some v \<Rightarrow> and_then (substituteRouteParams (tl after) params) (\<lambda>t. Inr (encodeURIComponent v @ t)))
      else and_then (substituteRouteParams s params) (\<lambda>t. Inr (c # t)))"
  by pat_completeness auto
termination
proof (relation "measure (\<lambda>(s, p). length s)")
  fix c :: char and s token after and params v
  assume "after = dropWhile word_char s"
  then show "((tl after, params), c # s, params) \<in> measure (\<lambda>(s, p). length s)"
    using length_dropWhile_le [of word_char s] by simp
qed auto

record ResolveTeamRoutePathOptions =
  ro_teamId :: "string option"
  ro_actionId :: "string option"
  ro_agentId :: "string option"
  ro_workspacePath :: "string option"

definition resolveTeamRoutePath :: "string \<Rightarrow> ResolveTeamRoutePathOptions \<Rightarrow> jserror + string" where
  "resolveTeamRoutePath routeKey opts =
     and_then (requiredText (ro_teamId opts) ''team id'') (\<lambda>teamId.
       if routeKey = ''action'' then
         and_then (requiredText (ro_actionId opts) ''action id'') (\<lambda>actionId.
         joinUrlPath [''api'', ''teams'', teamId, ''actions'', actionId])
       else if routeKey = ''agent.action'' then
         and_then (requiredText (ro_agentId opts) ''agent id'') (\<lambda>agentId.
         and_then (requiredText (ro_actionId opts) ''action id'') (\<lambda>actionId.
         joinUrlPath [''api'', ''teams'', teamId, ''agents'', agentId, ''actions'', actionId]))
       else if routeKey \<in> {''kanban'', ''runs'', ''config''} then
         joinUrlPath [''api'', ''teams'', teamId, routeKey]
       else if routeKey = ''workspace'' then
         and_then (workspacePathSegments (ro_workspacePath opts)) (\<lambda>segs.
         joinUrlPath ([''api'', ''teams'', teamId, ''workspace''] @ segs))
       else if routeKey = ''agent.config'' then
         and_then (requiredText (ro_agentId opts) ''agent id'') (\<lambda>agentId.
         joinUrlPath [''api'', ''teams'', teamId, ''agents'', agentId, ''config''])
       else if routeKey = ''agent.workspace'' then
         and_then (requiredText (ro_agentId opts) ''agent id'') (\<lambda>agentId.
         and_then (workspacePathSegments (ro_workspacePath opts)) (\<lambda>segs.
         joinUrlPath ([''api'', ''teams'', teamId, ''agents'', agentId, ''workspace''] @ segs)))
       else Inl (invalidConfigError (''team manifest: unknown team route '' @ quoted routeKey)))"

text \<open>A query parameter is its \<open>String(value)\<close>, absent when \<open>undefined\<close>.\<close>

definition query_params :: "data_record \<Rightarrow> (string \<times> string option) list" where
  "query_params q = map (\<lambda>(k, v). (k, if v = JUndef then None else Some (js_string v))) q"

definition resolveTeamActionApiPath ::
  "TeamManifest \<Rightarrow> string option \<Rightarrow> string option \<Rightarrow> ResolveTeamActionContractOptions \<Rightarrow> jserror + string" where
  "resolveTeamActionApiPath manifest teamId actionId opts =
     and_then (resolveTeamActionContract manifest teamId actionId opts) (\<lambda>action.
       if ac_enabled action = Some False
       then Inl (invalidConfigError (''team manifest: action '' @ quoted (ac_id action) @ '' is disabled''))
       else
         (case Option.bind (ac_route action) rt_path of
            Some (c # p) \<Rightarrow>
              and_then (substituteRouteParams (c # p) (rq_params opts)) (\<lambda>withParams.
              Inr (case rq_query opts of
                     Some q \<Rightarrow> appendHttpQuery withParams (Some (query_params q))
                   | None \<Rightarrow> withParams))
          | _ \<Rightarrow>
              (case nonEmpty (rq_memberId opts) of
                 Some m \<Rightarrow>
                   and_then (requiredText teamId ''team id'') (\<lambda>tid.
                   resolveTeamRoutePath ''agent.action''
                     \<lparr>ro_teamId = Some tid, ro_actionId = Some (ac_id action), ro_agentId = Some m, ro_workspacePath = None\<rparr>)
               | None \<Rightarrow>
                   and_then (requiredText teamId ''team id'') (\<lambda>tid.
                   resolveTeamRoutePath ''action''
                     \<lparr>ro_teamId = Some tid, ro_actionId = Some (ac_id action), ro_agentId = None, ro_workspacePath = None\<rparr>))))"

section \<open>Bindings\<close>

record ResolveGatewayRouteBindingOptions =
  bo_bindingId :: "string option"
  bo_source :: "string option"
  bo_channel :: "string option"
  bo_sessionKey :: "string option"
  bo_key :: "string option"
  bo_agentId :: "string option"
  bo_actionId :: "string option"

definition normalizeBindingMatchValue :: "string option \<Rightarrow> string option" where
  "normalizeBindingMatchValue value = map_option to_lower (nonEmpty value)"

text \<open>
  \<open>replace(/token/gu, replacement)\<close> with a replacement string: \<open>$$\<close>, \<open>$&\<close>, the text before and the text
  after the match are expanded.
\<close>

fun expand_replacement :: "string \<Rightarrow> string \<Rightarrow> string \<Rightarrow> string \<Rightarrow> string" where
  "expand_replacement matched before after (d # c # s) =
     (if d = CHR ''$'' \<and> c = CHR ''$'' then CHR ''$'' # expand_replacement matched before after s
      else if d = CHR ''$'' \<and> c = CHR ''&'' then matched @ expand_replacement matched before after s
      else if d = CHR ''$'' \<and> c = CHR 0x60 then before @ expand_replacement matched before after s
      else if d = CHR ''$'' \<and> c = CHR 0x27 then after @ expand_replacement matched before after s
      else d # expand_replacement matched before after (c # s))"
| "expand_replacement matched before after s = s"

function replace_token :: "string \<Rightarrow> string \<Rightarrow> string \<Rightarrow> string \<Rightarrow> string" where
  "replace_token token repl before [] = []"
| "replace_token token repl before (c # s) =
     (if token \<noteq> [] \<and> prefix token (c # s)
      then (let after = drop (length token) (c # s) in
            expand_replacement token before after repl @ replace_token token repl (before @ token) after)
      else c # replace_token token repl (before @ [c]) s)"
  by pat_completeness auto
termination by (relation "measure (\<lambda>(t, r, b, s). length s)") (auto simp: neq_Nil_conv)

definition expandSessionKeyPattern :: "string \<Rightarrow> GatewayRouteBinding \<Rightarrow> string" where
  "expandSessionKeyPattern pattern binding =
     replace_token ''{actionId}'' (case gb_actionId binding of Some a \<Rightarrow> a | None \<Rightarrow> []) []
       (replace_token ''{memberId}'' (case gb_memberId binding of Some m \<Rightarrow> m | None \<Rightarrow> []) []
         (replace_token ''{teamId}'' (gb_teamId binding) [] pattern))"

text \<open>
  The expression \<open>^...$\<close> built from the parts between the stars, each literal, with \<open>.*\<close> between them:
  \<open>.*\<close> crosses anything but a line terminator.
\<close>

definition line_terminators :: "string list" where
  "line_terminators = map (map char_of) [[10], [13], [0xE2, 0x80, 0xA8], [0xE2, 0x80, 0xA9] :: nat list]"

fun glob_rest :: "string list \<Rightarrow> string \<Rightarrow> bool" where
  "glob_rest [] s = (s = [])"
| "glob_rest (p # ps) s =
     (prefix p s \<and> glob_rest ps (drop (length p) s)
      \<or> (case s of [] \<Rightarrow> False
         | c # t \<Rightarrow> \<not> list_ex (\<lambda>lt. prefix lt s) line_terminators \<and> glob_rest (p # ps) t))"

definition glob_match :: "string \<Rightarrow> string \<Rightarrow> bool" where
  "glob_match expanded candidate =
     (case split_char (CHR ''*'') expanded of
        [] \<Rightarrow> False
      | p # ps \<Rightarrow> prefix p candidate \<and> glob_rest ps (drop (length p) candidate))"

definition matchesSessionKeyPattern :: "GatewayRouteBinding \<Rightarrow> string option \<Rightarrow> bool" where
  "matchesSessionKeyPattern binding sessionKey =
     (case nonEmpty (gb_sessionKeyPattern binding) of
        None \<Rightarrow> True
      | Some pattern \<Rightarrow>
          (case nonEmpty sessionKey of
             None \<Rightarrow> False
           | Some candidate \<Rightarrow>
               (let expanded = expandSessionKeyPattern pattern binding in
                if CHR ''*'' \<notin> set expanded then candidate = expanded
                else glob_match expanded candidate)))"

definition given :: "string option \<Rightarrow> bool" where
  "given v = (case v of Some s \<Rightarrow> s \<noteq> [] | None \<Rightarrow> False)"

definition points :: "int \<Rightarrow> bool \<Rightarrow> int" where
  "points n b = (if b then n else 0)"

definition bindingMatchScore :: "GatewayRouteBinding \<Rightarrow> ResolveGatewayRouteBindingOptions \<Rightarrow> int" where
  "bindingMatchScore binding opts =
     (let inputSource = normalizeBindingMatchValue (bo_source opts);
          inputChannel = normalizeBindingMatchValue (bo_channel opts);
          inputAgentId = normalizeBindingMatchValue (bo_agentId opts);
          inputActionId = normalizeBindingMatchValue (bo_actionId opts);
          bindingSource = normalizeBindingMatchValue (gb_source binding);
          bindingChannel = normalizeBindingMatchValue (gb_channel binding);
          bindingMemberId = normalizeBindingMatchValue (gb_memberId binding);
          bindingActionId = normalizeBindingMatchValue (gb_actionId binding);
          sessionKey = (case nonEmpty (bo_sessionKey opts) of Some s \<Rightarrow> Some s | None \<Rightarrow> nonEmpty (bo_key opts))
      in
        if given (bo_bindingId opts) \<and> map_option trim (bo_bindingId opts) \<noteq> Some (gb_id binding) then -1
        else if bindingSource \<noteq> None \<and> bindingSource \<noteq> inputSource \<and> bindingSource \<noteq> inputChannel then -1
        else if bindingChannel \<noteq> None \<and> bindingChannel \<noteq> inputChannel \<and> bindingChannel \<noteq> inputSource then -1
        else if bindingMemberId \<noteq> None \<and> inputAgentId \<noteq> None \<and> bindingMemberId \<noteq> inputAgentId then -1
        else if bindingActionId \<noteq> None \<and> inputActionId \<noteq> None \<and> bindingActionId \<noteq> inputActionId then -1
        else if \<not> matchesSessionKeyPattern binding sessionKey then -1
        else points 100 (given (bo_bindingId opts)) + points 20 (given (gb_sessionKeyPattern binding))
           + points 10 (bindingSource \<noteq> None) + points 10 (bindingChannel \<noteq> None)
           + points 5 (bindingMemberId \<noteq> None) + points 5 (bindingActionId \<noteq> None))"

definition bindingRouteKey :: "GatewayRouteBinding \<Rightarrow> string" where
  "bindingRouteKey binding =
     (case nonEmpty (gb_routeKey binding) of
        Some explicit \<Rightarrow> explicit
      | None \<Rightarrow>
          if nonEmpty (gb_actionId binding) \<noteq> None
          then (if nonEmpty (gb_memberId binding) \<noteq> None then ''agent.action'' else ''action'')
          else ''runs'')"

record GatewayResolvedRouteBinding =
  gr_id :: string
  gr_teamId :: string
  gr_memberId :: "string option"
  gr_source :: "string option"
  gr_channel :: "string option"
  gr_actionId :: "string option"
  gr_routeKey :: string
  gr_path :: string
  gr_metadata :: "data_record option"

text \<open>The loop: a binding replaces the selected one when its score is higher.\<close>

definition select_binding ::
  "ResolveGatewayRouteBindingOptions \<Rightarrow> GatewayRouteBinding list \<Rightarrow> GatewayRouteBinding option \<times> int" where
  "select_binding opts bindings =
     fold (\<lambda>b (selected, best).
         let score = bindingMatchScore b opts in if best < score then (Some b, score) else (selected, best))
       bindings (None, -1)"

definition resolveGatewayRouteBinding ::
  "TeamManifest \<Rightarrow> ResolveGatewayRouteBindingOptions \<Rightarrow> jserror + GatewayResolvedRouteBinding option" where
  "resolveGatewayRouteBinding manifest opts =
     and_then (normalizeGatewayRouteBindings (mf_bindings manifest)) (\<lambda>bindings.
       case select_binding opts bindings of
         (None, _) \<Rightarrow> Inr None
       | (Some selected, best) \<Rightarrow>
           if best < 0 then Inr None
           else
             (case findTeamManifestTeam manifest (Some (gb_teamId selected)) of
                None \<Rightarrow>
                  Inl (invalidConfigError (''team manifest: binding '' @ quoted (gb_id selected)
                    @ '' references unknown team '' @ quoted (gb_teamId selected)))
              | Some team \<Rightarrow>
                  (let memberId = nonEmpty (gb_memberId selected);
                       routeKey = bindingRouteKey selected;
                       actionId = nonEmpty (gb_actionId selected)
                   in if memberId \<noteq> None \<and> findTeamManifestMember team memberId = None
                      then Inl (invalidConfigError (''team manifest: binding '' @ quoted (gb_id selected)
                             @ '' references unknown member '' @ quoted (the memberId) @ '' for team '' @ quoted (mt_id team)))
                      else
                        and_then (resolveTeamRoutePath routeKey
                            \<lparr>ro_teamId = Some (mt_id team), ro_actionId = actionId, ro_agentId = memberId, ro_workspacePath = None\<rparr>)
                          (\<lambda>path. Inr (Some
                            \<lparr>gr_id = gb_id selected, gr_teamId = mt_id team, gr_memberId = memberId,
                             gr_source = nonEmpty (gb_source selected), gr_channel = nonEmpty (gb_channel selected),
                             gr_actionId = actionId, gr_routeKey = routeKey, gr_path = path,
                             gr_metadata = gb_metadata selected\<rparr>)))))"

section \<open>Workspaces\<close>

definition workspace_of :: "ManifestTeam \<Rightarrow> string option \<Rightarrow> TeamWorkspaceConfig option" where
  "workspace_of team memberId =
     either_of (Option.bind (findTeamManifestMember team memberId) mb_workspace) (mt_workspace team)"

definition no_root :: "ManifestTeam \<Rightarrow> jserror" where
  "no_root team = invalidConfigError (''team manifest: team '' @ quoted (mt_id team) @ '' has no workspace root'')"

definition resolveTeamWorkspaceEntry ::
  "ManifestTeam \<Rightarrow> string \<Rightarrow> string option \<Rightarrow> jserror + NormalizedWorkspacePathEntry" where
  "resolveTeamWorkspaceEntry team keyOrPath memberId =
     (case workspace_of team memberId of
        None \<Rightarrow> Inl (no_root team)
      | Some workspace \<Rightarrow>
          and_then (findWorkspacePath workspace keyOrPath) (\<lambda>found.
            case found of
              None \<Rightarrow> Inl (invalidConfigError (''team manifest: workspace path '' @ quoted keyOrPath
                        @ '' is not whitelisted for team '' @ quoted (mt_id team)))
            | Some entry \<Rightarrow> Inr entry))"

definition resolveTeamWorkspacePath :: "ManifestTeam \<Rightarrow> string \<Rightarrow> string option \<Rightarrow> jserror + string" where
  "resolveTeamWorkspacePath team keyOrPath memberId =
     (case workspace_of team memberId of
        None \<Rightarrow> Inl (no_root team)
      | Some workspace \<Rightarrow>
          and_then (resolveTeamWorkspaceEntry team keyOrPath memberId) (\<lambda>entry.
          joinWorkspacePath (wk_rootPath workspace) (np_path entry)))"

definition resolveTeamWorkspaceApiPath :: "ManifestTeam \<Rightarrow> string \<Rightarrow> string option \<Rightarrow> jserror + string" where
  "resolveTeamWorkspaceApiPath team keyOrPath memberId =
     and_then (resolveTeamWorkspaceEntry team keyOrPath memberId) (\<lambda>entry.
       if given memberId
       then resolveTeamRoutePath ''agent.workspace''
              \<lparr>ro_teamId = Some (mt_id team), ro_actionId = None, ro_agentId = memberId, ro_workspacePath = Some (np_path entry)\<rparr>
       else resolveTeamRoutePath ''workspace''
              \<lparr>ro_teamId = Some (mt_id team), ro_actionId = None, ro_agentId = None, ro_workspacePath = Some (np_path entry)\<rparr>)"

section \<open>Paths that are built\<close>

lemma joinUrlPath_Inr:
  "joinUrlPath segs = Inr p \<longleftrightarrow>
     (\<exists>es. list_all2 (\<lambda>s e. pathSegment s ''path segment'' = Inr e) segs es \<and> p = CHR ''/'' # join_with ''/'' es)"
  by (auto simp: joinUrlPath_def and_then_Inr each_Inr)

text \<open>A name that may be a segment: it does not climb and has no mark of a URL, before or after decoding.\<close>

definition plain_name :: "string \<Rightarrow> bool" where
  "plain_name s =
     (s \<noteq> [] \<and> s \<noteq> ''.'' \<and> s \<noteq> ''..'' \<and> decodePathSegment s \<noteq> ''.'' \<and> decodePathSegment s \<noteq> ''..''
      \<and> list_all (\<lambda>c. \<not> segment_mark c) s \<and> list_all (\<lambda>c. \<not> segment_mark c) (decodePathSegment s))"

lemma pathSegment_Inr:
  "pathSegment s l = Inr e \<longleftrightarrow> plain_name (trim s) \<and> e = encodeURIComponent (trim s)"
  by (auto simp: pathSegment_def and_then_Inr requiredText_Inr nonEmpty_Some_iff plain_name_def Let_def
      list_all_iff list_ex_iff split: if_splits)

lemma encode_no_slash: "CHR ''/'' \<notin> set (encodeURIComponent s)"
  using encode_chars [of "CHR ''/''" s] uri_unreserved_plain [of "CHR ''/''"] by auto

lemma joinUrlPath_decodes:
  assumes "joinUrlPath segs = Inr p" and "segs \<noteq> []" and "list_all utf8_valid segs"
  shows "hd p = CHR ''/''" "map decodeURIComponent (split_char (CHR ''/'') (tl p)) = map (Some \<circ> trim) segs"
    "list_all (\<lambda>s. plain_name (trim s)) segs"
    "list_all (\<lambda>c. uri_unreserved c \<or> c = CHR ''%'' \<or> c = CHR ''/'') p"
proof -
  from assms(1) obtain es where
    es: "list_all2 (\<lambda>s e. pathSegment s ''path segment'' = Inr e) segs es" "p = CHR ''/'' # join_with ''/'' es"
    by (auto simp: joinUrlPath_Inr)
  from es(1) have e: "es = map (encodeURIComponent \<circ> trim) segs" "list_all (\<lambda>s. plain_name (trim s)) segs"
    by (induction rule: list_all2_induct) (auto simp: pathSegment_Inr)
  show "hd p = CHR ''/''" by (simp add: es(2))
  show "list_all (\<lambda>s. plain_name (trim s)) segs" by (rule e(2))
  have "split_char (CHR ''/'') (join_with ''/'' es) = es"
    using assms(2) by (intro split_join_segments) (auto simp: e(1) list_all_iff encode_no_slash)
  moreover have "map decodeURIComponent es = map (Some \<circ> trim) segs"
    using assms(3) by (auto simp: e(1) list_all_iff decode_encode trim_valid)
  ultimately show "map decodeURIComponent (split_char (CHR ''/'') (tl p)) = map (Some \<circ> trim) segs"
    by (simp add: es(2))
  show "list_all (\<lambda>c. uri_unreserved c \<or> c = CHR ''%'' \<or> c = CHR ''/'') p"
    using set_join [of "CHR ''/''" es] encode_chars by (auto simp: es(2) e(1) list_all_iff)
qed

text \<open>The names a route is built from.\<close>

definition route_names :: "string \<Rightarrow> ResolveTeamRoutePathOptions \<Rightarrow> string option list" where
  "route_names routeKey opts =
     (let team = [Some ''api'', Some ''teams'', nonEmpty (ro_teamId opts)];
          agent = [Some ''agents'', nonEmpty (ro_agentId opts)];
          action = [Some ''actions'', nonEmpty (ro_actionId opts)];
          files = Some ''workspace'' # (case workspacePathSegments (ro_workspacePath opts) of
             Inr segs \<Rightarrow> map Some segs | Inl _ \<Rightarrow> [None])
      in if routeKey = ''action'' then team @ action
         else if routeKey = ''agent.action'' then team @ agent @ action
         else if routeKey \<in> {''kanban'', ''runs'', ''config''} then team @ [Some routeKey]
         else if routeKey = ''workspace'' then team @ files
         else if routeKey = ''agent.config'' then team @ agent @ [Some ''config'']
         else if routeKey = ''agent.workspace'' then team @ agent @ files
         else [None])"

lemma route_names_join:
  assumes "resolveTeamRoutePath routeKey opts = Inr p"
  shows "joinUrlPath (map the (route_names routeKey opts)) = Inr p \<and> None \<notin> set (route_names routeKey opts)"
proof -
  have q: "requiredText v l = (case nonEmpty v of Some s \<Rightarrow> Inr s | None \<Rightarrow> Inl (invalidConfigError (''team manifest: missing '' @ l)))" for v l
    by (cases "nonEmpty v") (simp_all add: requiredText_def)
  have o: "map the (map Some xs) = xs" for xs :: "string list" by (simp add: comp_def)
  show ?thesis
  proof (cases "routeKey = ''kanban'' \<or> routeKey = ''runs'' \<or> routeKey = ''config''")
    case True
    with assms show ?thesis
      unfolding resolveTeamRoutePath_def route_names_def q Let_def
      by (elim disjE) (simp_all split: option.split_asm)
  next
    case False
    with assms show ?thesis
      unfolding resolveTeamRoutePath_def route_names_def q Let_def
      by (cases "workspacePathSegments (ro_workspacePath opts)")
        (simp_all add: o split: option.split_asm if_split_asm)
  qed
qed

lemma resolveTeamRoutePath_names:
  assumes "resolveTeamRoutePath routeKey opts = Inr p"
  shows "\<exists>segs. route_names routeKey opts = map Some segs \<and> segs \<noteq> [] \<and> joinUrlPath segs = Inr p"
proof -
  note j = route_names_join [OF assms]
  then have "map Some (map the (route_names routeKey opts)) = route_names routeKey opts"
    by (auto intro!: map_idI) (metis option.collapse)
  moreover have "route_names routeKey opts \<noteq> []" by (simp add: route_names_def Let_def)
  ultimately show ?thesis using j by (intro exI [of _ "map the (route_names routeKey opts)"]) simp
qed

definition route_text_valid :: "ResolveTeamRoutePathOptions \<Rightarrow> bool" where
  "route_text_valid opts =
     list_all (pred_option utf8_valid) [ro_teamId opts, ro_actionId opts, ro_agentId opts, ro_workspacePath opts]"

lemma nonEmpty_valid: "pred_option utf8_valid v \<Longrightarrow> nonEmpty v = Some s \<Longrightarrow> utf8_valid s"
  by (cases v) (auto simp: nonEmpty_def trim_valid split: if_splits)

lemma workspacePathSegments_valid:
  assumes "workspacePathSegments v = Inr segs" and "pred_option utf8_valid v"
  shows "list_all utf8_valid segs \<and> list_all (\<lambda>s. trim s = s) segs"
proof -
  from assms(1) obtain t where t: "nonEmpty v = Some t" "safe_segments (path_segments (trim t))"
      "segs = split_char (CHR ''/'') (join_with ''/'' (path_segments (trim t)))"
    by (auto simp: workspacePathSegments_def and_then_Inr requiredText_Inr normalizeRelativePath_Inr)
  then have "segs = path_segments (trim t)" by (simp add: split_join_safe)
  then show ?thesis
    using path_segments_valid [of "trim t"] nonEmpty_valid [OF assms(2) t(1)] path_segments_segment [of _ "trim t"]
    by (auto simp: list_all_iff trim_valid segment_def clean_def)
qed

lemma map_Some_inj: "map Some xs = map Some ys \<longleftrightarrow> xs = ys"
  by (simp add: inj_map_eq_map)

lemma trim_words: "trim ''api'' = ''api''" "trim ''teams'' = ''teams''" "trim ''agents'' = ''agents''"
  "trim ''actions'' = ''actions''" "trim ''workspace'' = ''workspace''" "trim ''config'' = ''config''"
  "trim ''kanban'' = ''kanban''" "trim ''runs'' = ''runs''"
  by (rule trim_graph; simp add: graph_char_def)+

lemma route_names_valid:
  assumes "route_text_valid opts" and "route_names routeKey opts = map Some segs"
  shows "list_all utf8_valid segs \<and> list_all (\<lambda>s. trim s = s) segs"
proof -
  let ?ok = "\<lambda>n. case n of Some s \<Rightarrow> utf8_valid s \<and> trim s = s | None \<Rightarrow> True"
  have w: "utf8_valid ''api''" "utf8_valid ''teams''" "utf8_valid ''agents''" "utf8_valid ''actions''"
    "utf8_valid ''workspace''" "utf8_valid ''config''" "utf8_valid ''kanban''" "utf8_valid ''runs''"
    by (rule utf8_valid_ascii; simp)+
  have n: "?ok (nonEmpty v)" if "pred_option utf8_valid v" for v
    using nonEmpty_valid [OF that] nonEmpty_clean [of v] by (auto simp: clean_def split: option.splits)
  have f: "list_all ?ok (case workspacePathSegments (ro_workspacePath opts) of Inr segs \<Rightarrow> map Some segs | Inl _ \<Rightarrow> [None])"
    using workspacePathSegments_valid [of "ro_workspacePath opts"] assms(1)
    by (auto simp: route_text_valid_def list_all_iff split: sum.splits)
  have "list_all ?ok (route_names routeKey opts)"
    using assms(1) f n w trim_words by (simp add: route_names_def Let_def route_text_valid_def)
  then show ?thesis unfolding assms(2) by (simp add: list_all_iff)
qed

text \<open>C29: A route path says exactly what it was built from: split at its slashes and decoded once, its
  segments are \<open>api\<close>, \<open>teams\<close>, the trimmed team id and the names of the route, so two routes with
  different names have different paths; no name in it is or decodes to \<open>.\<close> or \<open>..\<close>, or holds a slash, a
  backslash, a question mark or a hash, before or after a second decoding; and the path is made of
  unreserved characters, escapes and slashes only.\<close>

theorem route_path_roundtrip:
  assumes "resolveTeamRoutePath routeKey opts = Inr p" and "route_text_valid opts"
  shows "map decodeURIComponent (split_char (CHR ''/'') (tl p)) = route_names routeKey opts
    \<and> list_all (\<lambda>n. case n of Some s \<Rightarrow> plain_name s | None \<Rightarrow> False) (route_names routeKey opts)
    \<and> hd p = CHR ''/'' \<and> list_all (\<lambda>c. uri_unreserved c \<or> c = CHR ''%'' \<or> c = CHR ''/'') p"
proof -
  from resolveTeamRoutePath_names [OF assms(1)] obtain segs where
    s: "route_names routeKey opts = map Some segs" "segs \<noteq> []" "joinUrlPath segs = Inr p" by blast
  from route_names_valid [OF assms(2) s(1)] have v: "list_all utf8_valid segs" "map trim segs = segs"
    by (auto simp: list_all_iff map_idI)
  note d = joinUrlPath_decodes [OF s(3,2) v(1)]
  have "map (Some \<circ> trim) segs = map Some segs" using v(2) by (metis list.map_comp)
  with d(2) s(1) have "map decodeURIComponent (split_char (CHR ''/'') (tl p)) = route_names routeKey opts" by simp
  moreover have "list_all plain_name (map trim segs)" using d(3) by (simp add: list_all_iff)
  then have "list_all (\<lambda>n. case n of Some s \<Rightarrow> plain_name s | None \<Rightarrow> False) (route_names routeKey opts)"
    by (simp add: v(2) s(1) list_all_iff)
  ultimately show ?thesis using d(1,4) by simp
qed

definition wit_route :: ResolveTeamRoutePathOptions where
  "wit_route = \<lparr>ro_teamId = Some ''a b'', ro_actionId = None, ro_agentId = None, ro_workspacePath = None\<rparr>"

lemma plain_literal:
  "CHR ''%'' \<notin> set s \<Longrightarrow> s \<noteq> [] \<Longrightarrow> s \<noteq> ''.'' \<Longrightarrow> s \<noteq> ''..'' \<Longrightarrow> list_all (\<lambda>c. \<not> segment_mark c) s \<Longrightarrow> plain_name s"
proof -
  have d: "CHR ''%'' \<notin> set s \<Longrightarrow> uri_decode_from [] s = Some s" for s
    by (induction s) auto
  show "CHR ''%'' \<notin> set s \<Longrightarrow> s \<noteq> [] \<Longrightarrow> s \<noteq> ''.'' \<Longrightarrow> s \<noteq> ''..'' \<Longrightarrow> list_all (\<lambda>c. \<not> segment_mark c) s \<Longrightarrow> plain_name s"
    by (simp add: plain_name_def decodePathSegment_def decodeURIComponent_def d)
qed

theorem route_path_roundtrip_witness:
  "resolveTeamRoutePath ''runs'' wit_route = Inr ''/api/teams/a%20b/runs''
   \<and> map decodeURIComponent (split_char (CHR ''/'') ''api/teams/a%20b/runs'') = map Some [''api'', ''teams'', ''a b'', ''runs'']"
proof -
  have t: "trim ''a b'' = ''a b''" by (rule trim_graph) (simp_all add: graph_char_def)
  have p: "plain_name ''api'' \<and> plain_name ''teams'' \<and> plain_name ''a b'' \<and> plain_name ''runs''"
    by (intro conjI plain_literal) (simp_all add: segment_mark_def backslash_def)
  have seg: "pathSegment s l = Inr (encodeURIComponent (trim s))" if "plain_name (trim s)" for s l
    using that by (simp add: pathSegment_Inr)
  have e: "encodeURIComponent ''api'' = ''api''" "encodeURIComponent ''teams'' = ''teams''"
    "encodeURIComponent ''a b'' = ''a%20b''" "encodeURIComponent ''runs'' = ''runs''" by code_simp+
  have r: "resolveTeamRoutePath ''runs'' wit_route = Inr ''/api/teams/a%20b/runs''"
    using t p by (simp add: resolveTeamRoutePath_def wit_route_def requiredText_Inr [THEN iffD2] nonEmpty_def
        joinUrlPath_def seg trim_words e)
  have "route_text_valid wit_route"
    by (simp add: route_text_valid_def wit_route_def utf8_valid_ascii)
  from route_path_roundtrip [OF r this] r t show ?thesis
    by (simp add: route_names_def wit_route_def nonEmpty_def)
qed

section \<open>Workspace paths\<close>

lemma findWorkspacePath_Some:
  "findWorkspacePath workspace keyOrPath = Inr (Some n) \<Longrightarrow>
     \<exists>e \<in> set (wk_paths workspace). normalizeWorkspacePathEntry e = Inr n
       \<and> (np_key n = keyOrPath \<or> normalizeRelativePath keyOrPath = Inr (np_path n))"
proof -
  have "foldr (\<lambda>entry later. and_then (normalizeWorkspacePathEntry entry) (\<lambda>normalized.
             if np_key normalized = keyOrPath \<or> np_path normalized = req then Inr (Some normalized) else later))
         es (Inr None) = Inr (Some n) \<Longrightarrow>
       \<exists>e \<in> set es. normalizeWorkspacePathEntry e = Inr n \<and> (np_key n = keyOrPath \<or> np_path n = req)" for req es
    by (induction es) (auto simp: and_then_Inr split: if_splits)
  then show "findWorkspacePath workspace keyOrPath = Inr (Some n) \<Longrightarrow> ?thesis"
    by (fastforce simp: findWorkspacePath_def and_then_Inr)
qed

lemma entry_path: "normalizeWorkspacePathEntry e = Inr n \<Longrightarrow> \<exists>v. normalizeRelativePath v = Inr (np_path n)"
  by (auto simp: normalizeWorkspacePathEntry_def and_then_Inr split: TeamWorkspacePathEntry.splits option.splits)

lemma split_append_slash:
  "split_char d (a @ d # b) = split_char d a @ split_char d b"
  by (induction a) (auto split: list.splits)

text \<open>C27: A workspace path that resolves is one that was declared: it is the workspace root (the member's
  own workspace when it has one, the team's otherwise), a slash and the normal form of an entry of its
  list, which has the requested key or the requested path; and a file server that walks its segments, as
  they are or decoded once, ends below the root's own directory at the entry, whatever the root and the
  entry hold.\<close>

theorem workspace_path_contained:
  "case resolveTeamWorkspacePath team keyOrPath memberId of
     Inl _ \<Rightarrow> True
   | Inr p \<Rightarrow>
       (\<exists>ws root e n. workspace_of team memberId = Some ws \<and> normalizeRootPath (wk_rootPath ws) = Inr root
          \<and> e \<in> set (wk_paths ws) \<and> normalizeWorkspacePathEntry e = Inr n
          \<and> (np_key n = keyOrPath \<or> normalizeRelativePath keyOrPath = Inr (np_path n))
          \<and> p = root @ ''/'' @ np_path n
          \<and> walk [] (split_char (CHR ''/'') (tl p)) = walk [] (split_char (CHR ''/'') (tl root)) @ split_char (CHR ''/'') (np_path n)
          \<and> walk [] (map decodePathSegment (split_char (CHR ''/'') (tl p)))
              = walk [] (map decodePathSegment (split_char (CHR ''/'') (tl root)))
                @ map decodePathSegment (split_char (CHR ''/'') (np_path n)))"
proof (cases "resolveTeamWorkspacePath team keyOrPath memberId")
  case (Inr p)
  then obtain ws entry root rel where
    ws: "workspace_of team memberId = Some ws" "resolveTeamWorkspaceEntry team keyOrPath memberId = Inr entry"
      "normalizeRootPath (wk_rootPath ws) = Inr root" "normalizeRelativePath (np_path entry) = Inr rel" "p = root @ ''/'' @ rel"
    by (auto simp: resolveTeamWorkspacePath_def joinWorkspacePath_def and_then_Inr split: option.splits)
  from ws(1,2) have "findWorkspacePath ws keyOrPath = Inr (Some entry)"
    by (auto simp: resolveTeamWorkspaceEntry_def and_then_Inr split: option.splits)
  from findWorkspacePath_Some [OF this] obtain e where
    e: "e \<in> set (wk_paths ws)" "normalizeWorkspacePathEntry e = Inr entry"
      "np_key entry = keyOrPath \<or> normalizeRelativePath keyOrPath = Inr (np_path entry)" by blast
  from entry_path [OF e(2)] obtain v where "normalizeRelativePath v = Inr (np_path entry)" by blast
  from relative_again [OF this] ws(4) have rel: "rel = np_path entry" by simp
  from root.gives_ok [OF ws(3)] obtain q where q: "root = CHR ''/'' # q" "safe_segments (split_char (CHR ''/'') q)"
    by (cases root) (auto simp: absolute_ok_def)
  from relative.gives_ok [OF ws(4)] have r: "safe_segments (split_char (CHR ''/'') rel)" by (simp add: relative_ok_def)
  have t: "split_char (CHR ''/'') (tl p) = split_char (CHR ''/'') q @ split_char (CHR ''/'') rel"
    by (simp add: ws(5) q(1) split_append_slash)
  from q(2) r have "safe_segments (split_char (CHR ''/'') (tl p))" by (simp add: t safe_segments_def)
  from safe_segments_walk [OF this, of "[]"] safe_segments_walk [OF q(2), of "[]"] ws e
  show ?thesis
    by (auto simp: Inr rel q(1) t split_append_slash intro!: exI [of _ ws] exI [of _ e] exI [of _ entry])
qed simp

section \<open>Parameters of an action's path\<close>

declare substituteRouteParams.simps(2) [simp del]

definition placeholder :: "char \<Rightarrow> string \<Rightarrow> bool" where
  "placeholder c s = (c = CHR ''{'' \<and> takeWhile word_char s \<noteq> [] \<and> prefix ''}'' (dropWhile word_char s))"

lemma substitute_hit:
  "placeholder c s \<Longrightarrow> substituteRouteParams (c # s) params =
     (case param_text params (takeWhile word_char s) of
        None \<Rightarrow> Inl (invalidConfigError (''team manifest: missing route param '' @ quoted (takeWhile word_char s)))
      | Some v \<Rightarrow> and_then (substituteRouteParams (tl (dropWhile word_char s)) params) (\<lambda>t. Inr (encodeURIComponent v @ t)))"
  by (subst substituteRouteParams.simps(2)) (simp add: placeholder_def Let_def)

lemma substitute_miss:
  "\<not> placeholder c s \<Longrightarrow> substituteRouteParams (c # s) params = and_then (substituteRouteParams s params) (\<lambda>t. Inr (c # t))"
  by (auto simp: substituteRouteParams.simps(2) [of c] placeholder_def Let_def)

lemma word_char_slash [simp]: "\<not> word_char (CHR ''/'')"
  by (simp add: word_char_def is_alnum_def to_lower_char_def is_digit_def Let_def)

lemma takeWhile_slash: "takeWhile word_char (s @ CHR ''/'' # b) = takeWhile word_char s"
  by (induction s) auto

lemma dropWhile_slash: "dropWhile word_char (s @ CHR ''/'' # b) = dropWhile word_char s @ CHR ''/'' # b"
  by (induction s) auto

lemma prefix_brace: "prefix ''}'' (a @ CHR ''/'' # b) \<longleftrightarrow> prefix ''}'' a"
  by (cases a) auto

lemma placeholder_slash: "placeholder c (s @ CHR ''/'' # b) \<longleftrightarrow> placeholder c s"
  by (simp add: placeholder_def takeWhile_slash dropWhile_slash prefix_brace)

lemma substitute_slash:
  "substituteRouteParams (a @ CHR ''/'' # b) params =
     and_then (substituteRouteParams a params) (\<lambda>x. and_then (substituteRouteParams b params) (\<lambda>y. Inr (x @ CHR ''/'' # y)))"
proof (induction a params rule: substituteRouteParams.induct)
  case (1 params)
  have "\<not> placeholder (CHR ''/'') b" by (simp add: placeholder_def)
  then show ?case by (simp add: substitute_miss)
next
  case (2 c s params)
  show ?case
  proof (cases "placeholder c s")
    case True
    then have t: "tl (dropWhile word_char s @ CHR ''/'' # b) = tl (dropWhile word_char s) @ CHR ''/'' # b"
      by (cases "dropWhile word_char s") (auto simp: placeholder_def)
    note h = substitute_hit [OF True] substitute_hit [of c "s @ CHR ''/'' # b", unfolded placeholder_slash, OF True]
    show ?thesis
    proof (cases "param_text params (takeWhile word_char s)")
      case None
      then show ?thesis by (simp add: h takeWhile_slash)
    next
      case (Some v)
      from "2.IH"(1) [OF refl refl True [unfolded placeholder_def] Some] Some t show ?thesis
        by (cases "substituteRouteParams (tl (dropWhile word_char s)) params"; cases "substituteRouteParams b params")
          (simp_all add: h takeWhile_slash dropWhile_slash)
    qed
  next
    case False
    with "2.IH"(2) [OF refl refl False [unfolded placeholder_def]] show ?thesis
      by (cases "substituteRouteParams s params"; cases "substituteRouteParams b params")
        (simp_all add: substitute_miss placeholder_slash)
  qed
qed

lemma substitute_chars:
  "substituteRouteParams s params = Inr p \<Longrightarrow> c \<in> set p \<Longrightarrow> c \<in> set s \<or> uri_unreserved c \<or> c = CHR ''%''"
proof (induction s params arbitrary: p rule: substituteRouteParams.induct)
  case (2 d s params)
  show ?case
  proof (cases "placeholder d s")
    case True
    with "2.prems"(1) obtain v t where v: "param_text params (takeWhile word_char s) = Some v"
        "substituteRouteParams (tl (dropWhile word_char s)) params = Inr t" "p = encodeURIComponent v @ t"
      by (auto simp: substitute_hit and_then_Inr split: option.splits)
    have "set (tl (dropWhile word_char s)) \<subseteq> set s"
      by (metis list.set_sel(2) list.sel(2) set_dropWhileD subsetI)
    with "2.IH"(1) [OF refl refl True [unfolded placeholder_def] v(1,2)] "2.prems"(2) v(3) encode_chars [of c v]
    show ?thesis by auto
  next
    case False
    with "2.prems"(1) obtain t where "substituteRouteParams s params = Inr t" "p = d # t"
      by (auto simp: substitute_miss and_then_Inr)
    with "2.IH"(2) [OF refl refl False [unfolded placeholder_def]] "2.prems"(2) show ?thesis by auto
  qed
qed simp

lemma substitute_no_slash:
  "CHR ''/'' \<notin> set s \<Longrightarrow> substituteRouteParams s params = Inr p \<Longrightarrow> CHR ''/'' \<notin> set p"
  using substitute_chars [of s params p "CHR ''/''"] uri_unreserved_plain [of "CHR ''/''"] by auto

text \<open>The values put into an action's path stay in their segments: when every placeholder has a value,
  the segments of the result are those of the template, each with its own placeholders filled, so a value
  adds no slash, and no question mark, hash or backslash that the template does not have.\<close>

theorem route_params_stay:
  "case substituteRouteParams path params of
     Inl _ \<Rightarrow> True
   | Inr p \<Rightarrow>
       list_all2 (\<lambda>t s. substituteRouteParams t params = Inr s) (split_char (CHR ''/'') path) (split_char (CHR ''/'') p)
       \<and> set p \<inter> {CHR ''?'', CHR ''#'', backslash} \<subseteq> set path"
proof (cases "substituteRouteParams path params")
  case (Inr p)
  have l: "list_all2 (\<lambda>t s. substituteRouteParams t params = Inr s) ts (split_char (CHR ''/'') p)"
    if "substituteRouteParams (join_with ''/'' ts) params = Inr p" "ts \<noteq> []" "\<forall>t \<in> set ts. CHR ''/'' \<notin> set t" for ts p
    using that
  proof (induction "''/''" ts arbitrary: p rule: join_with.induct)
    case (2 t)
    then have "CHR ''/'' \<notin> set p" using substitute_no_slash by auto
    with 2 show ?case by (simp add: split_char_single)
  next
    case (3 t u us)
    then obtain x y where xy: "substituteRouteParams t params = Inr x"
        "substituteRouteParams (join_with ''/'' (u # us)) params = Inr y" "p = x @ CHR ''/'' # y"
      by (auto simp: substitute_slash and_then_Inr)
    moreover have "CHR ''/'' \<notin> set x" using 3 xy(1) substitute_no_slash by auto
    ultimately show ?case using 3 by (simp add: split_char_append)
  qed simp
  have "set p \<inter> {CHR ''?'', CHR ''#'', backslash} \<subseteq> set path"
    using substitute_chars [OF Inr] uri_unreserved_plain by (auto simp: backslash_def)
  with l [of "split_char (CHR ''/'') path" p] show ?thesis
    by (simp add: Inr join_split split_char_no_sep)
qed simp

text \<open>A value may still be a directory step: only the slash is escaped.\<close>

lemma route_param_may_climb:
  "substituteRouteParams ''/files/{name}'' (Some [(''name'', JStr ''..'')]) = Inr ''/files/..''"
  by code_simp

section \<open>The binding of an event\<close>

lemma score_id:
  "0 \<le> bindingMatchScore b opts \<Longrightarrow> given (bo_bindingId opts) \<Longrightarrow> map_option trim (bo_bindingId opts) = Some (gb_id b)"
  by (rule ccontr) (simp add: bindingMatchScore_def Let_def)

text \<open>The first binding of the highest score.\<close>

definition first_best :: "('a \<Rightarrow> int) \<Rightarrow> 'a list \<Rightarrow> nat \<Rightarrow> bool" where
  "first_best f xs i =
     (i < length xs \<and> list_all (\<lambda>x. f x \<le> f (xs ! i)) xs \<and> list_all (\<lambda>x. f x < f (xs ! i)) (take i xs))"

lemma select_binding_spec:
  "case select_binding opts bs of
     (None, best) \<Rightarrow> best = -1 \<and> list_all (\<lambda>b. bindingMatchScore b opts \<le> -1) bs
   | (Some b, best) \<Rightarrow> best = bindingMatchScore b opts \<and> -1 < best
       \<and> (\<exists>i. first_best (\<lambda>b. bindingMatchScore b opts) bs i \<and> b = bs ! i)"
proof (induction bs rule: rev_induct)
  case Nil
  show ?case by (simp add: select_binding_def)
next
  case (snoc x bs)
  have step: "select_binding opts (bs @ [x]) = (case select_binding opts bs of (selected, best) \<Rightarrow>
      if best < bindingMatchScore x opts then (Some x, bindingMatchScore x opts) else (selected, best))"
    by (simp add: select_binding_def Let_def)
  obtain sel best where sb: "select_binding opts bs = (sel, best)" by fastforce
  show ?case
  proof (cases "best < bindingMatchScore x opts")
    case True
    have "list_all (\<lambda>b. bindingMatchScore b opts < bindingMatchScore x opts) bs"
    proof (cases sel)
      case None
      with snoc sb True show ?thesis by (auto simp: list_all_iff)
    next
      case (Some b)
      with snoc sb True show ?thesis by (fastforce simp: list_all_iff first_best_def)
    qed
    then have "first_best (\<lambda>b. bindingMatchScore b opts) (bs @ [x]) (length bs)"
      by (auto simp: first_best_def list_all_iff)
    moreover have "-1 \<le> best" using snoc sb by (cases sel) auto
    ultimately show ?thesis using True by (auto simp: step sb intro!: exI [of _ "length bs"])
  next
    case False
    show ?thesis
    proof (cases sel)
      case None
      with snoc sb False show ?thesis by (auto simp: step)
    next
      case (Some b)
      with snoc sb obtain i where i: "first_best (\<lambda>b. bindingMatchScore b opts) bs i" "b = bs ! i"
          "best = bindingMatchScore b opts" "-1 < best" by auto
      then have "first_best (\<lambda>b. bindingMatchScore b opts) (bs @ [x]) i"
        using False by (auto simp: first_best_def nth_append)
      with i False Some show ?thesis
        by (auto simp: step sb first_best_def nth_append intro!: exI [of _ i])
    qed
  qed
qed

text \<open>C24: The binding of an event is the first one with the highest score among the normalised bindings
  that match it, and there is none only when no binding matches; with an explicit binding id it is the
  binding of that id. Its team exists in the manifest, its member (if it names one) in that team, and its
  path is the route path of its key with that team, member and action.\<close>

theorem binding_selected:
  "case resolveGatewayRouteBinding manifest opts of
     Inl _ \<Rightarrow> True
   | Inr None \<Rightarrow>
       (case normalizeGatewayRouteBindings (mf_bindings manifest) of
          Inl _ \<Rightarrow> False
        | Inr bs \<Rightarrow> list_all (\<lambda>b. bindingMatchScore b opts < 0) bs)
   | Inr (Some r) \<Rightarrow>
       (\<exists>bs i team. normalizeGatewayRouteBindings (mf_bindings manifest) = Inr bs
          \<and> first_best (\<lambda>b. bindingMatchScore b opts) bs i \<and> 0 \<le> bindingMatchScore (bs ! i) opts
          \<and> gr_id r = gb_id (bs ! i)
          \<and> (if given (bo_bindingId opts) then map_option trim (bo_bindingId opts) = Some (gr_id r) else True)
          \<and> findTeamManifestTeam manifest (Some (gb_teamId (bs ! i))) = Some team \<and> gr_teamId r = mt_id team
          \<and> gr_memberId r = nonEmpty (gb_memberId (bs ! i)) \<and> gr_actionId r = nonEmpty (gb_actionId (bs ! i))
          \<and> (case gr_memberId r of None \<Rightarrow> True | Some _ \<Rightarrow> findTeamManifestMember team (gr_memberId r) \<noteq> None)
          \<and> gr_routeKey r = bindingRouteKey (bs ! i)
          \<and> resolveTeamRoutePath (gr_routeKey r)
              \<lparr>ro_teamId = Some (gr_teamId r), ro_actionId = gr_actionId r, ro_agentId = gr_memberId r, ro_workspacePath = None\<rparr>
            = Inr (gr_path r))"
proof (cases "normalizeGatewayRouteBindings (mf_bindings manifest)")
  case (Inl e)
  then show ?thesis by (simp add: resolveGatewayRouteBinding_def)
next
  case (Inr bs)
  obtain sel best where sb: "select_binding opts bs = (sel, best)" by fastforce
  note spec = select_binding_spec [of opts bs, unfolded sb]
  show ?thesis
  proof (cases sel)
    case None
    with spec have "list_all (\<lambda>b. bindingMatchScore b opts < 0) bs" by (auto simp: list_all_iff)
    with None Inr sb show ?thesis by (simp add: resolveGatewayRouteBinding_def)
  next
    case (Some b)
    with spec obtain i where i: "first_best (\<lambda>b. bindingMatchScore b opts) bs i" "b = bs ! i"
        "best = bindingMatchScore b opts" "-1 < best" by auto
    then have nn: "0 \<le> bindingMatchScore (bs ! i) opts" "\<not> best < 0" by simp_all
    show ?thesis
    proof (cases "findTeamManifestTeam manifest (Some (gb_teamId b))")
      case None
      with Some Inr sb nn(2) show ?thesis by (simp add: resolveGatewayRouteBinding_def)
    next
      case team: (Some team)
      show ?thesis
      proof (cases "resolveGatewayRouteBinding manifest opts")
        case r: (Inr ro)
        with Some Inr sb nn team obtain path where p:
          "\<not> (nonEmpty (gb_memberId b) \<noteq> None \<and> findTeamManifestMember team (nonEmpty (gb_memberId b)) = None)"
          "resolveTeamRoutePath (bindingRouteKey b)
             \<lparr>ro_teamId = Some (mt_id team), ro_actionId = nonEmpty (gb_actionId b),
              ro_agentId = nonEmpty (gb_memberId b), ro_workspacePath = None\<rparr> = Inr path"
          "ro = Some \<lparr>gr_id = gb_id b, gr_teamId = mt_id team, gr_memberId = nonEmpty (gb_memberId b),
             gr_source = nonEmpty (gb_source b), gr_channel = nonEmpty (gb_channel b),
             gr_actionId = nonEmpty (gb_actionId b), gr_routeKey = bindingRouteKey b, gr_path = path,
             gr_metadata = gb_metadata b\<rparr>"
          by (auto simp: resolveGatewayRouteBinding_def Let_def and_then_Inr split: if_splits)
        have "if given (bo_bindingId opts) then map_option trim (bo_bindingId opts) = Some (gb_id (bs ! i)) else True"
          using score_id [OF nn(1)] by simp
        with p team i nn Inr show ?thesis
          unfolding r p(3) by (auto intro!: exI [of _ bs] exI [of _ i] exI [of _ team] split: option.split)
      qed simp
    qed
  qed
qed

section \<open>The scopes of an action\<close>

subsection \<open>Merging keeps actions well formed\<close>

lemma text_of_either_ok: "text_ok a \<Longrightarrow> text_ok b \<Longrightarrow> text_of_either a b = either_of a b"
  by (auto simp: text_of_either_def either_of_def clean_def split: option.splits)

lemma either_pred: "pred_option P a \<Longrightarrow> pred_option P b \<Longrightarrow> pred_option P (either_of a b)"
  by (cases a) (simp_all add: either_of_def)

lemma text_either_pred: "pred_option P a \<Longrightarrow> pred_option P b \<Longrightarrow> pred_option P (text_of_either a b)"
  using either_pred [of P a b] by (auto simp: text_of_either_def split: option.splits)

lemma bind_pred: "pred_option P x \<Longrightarrow> (\<And>y. P y \<Longrightarrow> pred_option Q (f y)) \<Longrightarrow> pred_option Q (Option.bind x f)"
  by (cases x) simp_all

lemma keyed_fold:
  assumes "list_all ok xs" and "om_ok m" and "list_all (\<lambda>(k, x). key x = k \<and> ok x) m"
    and merge: "\<And>x y. ok x \<Longrightarrow> ok y \<Longrightarrow> key x = key y \<Longrightarrow> ok (g x y) \<and> key (g x y) = key x"
  shows "om_ok (fold (\<lambda>x m. om_set (key x) (case om_get m (key x) of Some e \<Rightarrow> g e x | None \<Rightarrow> x) m) xs m)
    \<and> list_all (\<lambda>(k, x). key x = k \<and> ok x)
        (fold (\<lambda>x m. om_set (key x) (case om_get m (key x) of Some e \<Rightarrow> g e x | None \<Rightarrow> x) m) xs m)"
  using assms(1-3)
proof (induction xs arbitrary: m)
  case (Cons x xs)
  have put: "list_all (\<lambda>(k, x). key x = k \<and> ok x) (om_set k y m)" if "key y = k" "ok y" for k y
    using Cons.prems(3) that by (induction m) auto
  have e: "key e = k \<and> ok e" if "om_get m k = Some e" for k e
    using Cons.prems(3) map_of_SomeD [OF that] by (auto simp: list_all_iff)
  have "list_all (\<lambda>(k, x). key x = k \<and> ok x)
      (om_set (key x) (case om_get m (key x) of Some e \<Rightarrow> g e x | None \<Rightarrow> x) m)"
    using Cons.prems(1) e [of "key x"] merge [of _ x] by (intro put) (auto split: option.splits)
  with Cons show ?case by simp
qed simp

lemma keyed_values:
  "om_ok m \<Longrightarrow> list_all (\<lambda>(k, x). key x = k \<and> ok x) m \<Longrightarrow>
   list_all ok (map snd m) \<and> distinct (map key (map snd m))"
proof -
  assume m: "om_ok m" "list_all (\<lambda>(k, x). key x = k \<and> ok x) m"
  then have e: "map key (map snd m) = map fst m" by (auto simp: list_all_iff)
  have "distinct (map key (map snd m))" unfolding e using m(1) by (simp add: om_ok_def)
  with m(2) show ?thesis by (auto simp: list_all_iff)
qed

lemma merge_by_ok:
  assumes "list_all ok base" and "list_all ok override"
    and merge: "\<And>x y. ok x \<Longrightarrow> ok y \<Longrightarrow> key x = key y \<Longrightarrow> ok (g x y) \<and> key (g x y) = key x"
  shows "list_all ok (merge_by key g base override) \<and> distinct (map key (merge_by key g base override))"
proof -
  let ?m = "fold (\<lambda>x m. om_set (key x) x m) base []"
  have c: "(case o' of None \<Rightarrow> x | Some e \<Rightarrow> x) = x" for o' :: "'a option" and x :: 'a
    by (cases o') simp_all
  have "om_ok ([] :: (string \<times> 'a) list)" "list_all (\<lambda>(k, x). key x = k \<and> ok x) []" by simp_all
  from keyed_fold [of ok base "[]" key "\<lambda>e x. x", OF assms(1) this, unfolded c]
  have "om_ok ?m \<and> list_all (\<lambda>(k, x). key x = k \<and> ok x) ?m" by simp
  then have m: "om_ok ?m" "list_all (\<lambda>(k, x). key x = k \<and> ok x) ?m" by simp_all
  show ?thesis
    unfolding merge_by_def
    by (rule keyed_values) (use keyed_fold [of ok override ?m key g, OF assms(2) m merge] in blast)+
qed

lemma assign_props_keys:
  "om_ok m \<Longrightarrow> list_all (\<lambda>(k, v). P k \<and> k \<noteq> ''__proto__'') m \<Longrightarrow> list_all (\<lambda>(k, v). P k) d \<Longrightarrow>
   om_ok (fold (\<lambda>(k, v). put_prop k v) d m) \<and> list_all (\<lambda>(k, v). P k \<and> k \<noteq> ''__proto__'') (fold (\<lambda>(k, v). put_prop k v) d m)"
proof (induction d arbitrary: m)
  case (Cons kv d)
  obtain k v where kv: "kv = (k, v)" by fastforce
  have "list_all (\<lambda>(k, v). P k \<and> k \<noteq> ''__proto__'') (om_set k v m)" if "k \<noteq> ''__proto__''"
    using Cons.prems that by (induction m) (auto simp: kv om_ok_def)
  with Cons show ?case by (auto simp: kv put_prop_def)
qed simp

lemma mergeRecords_ok: "defaults_ok a \<Longrightarrow> defaults_ok b \<Longrightarrow> defaults_ok (mergeRecords a b)"
proof -
  have p: "om_ok (assign_props d m) \<and> list_all (\<lambda>(k, v). clean k \<and> k \<noteq> ''__proto__'') (assign_props d m)"
    if "om_ok m" "list_all (\<lambda>(k, v). clean k \<and> k \<noteq> ''__proto__'') m" "defaults_ok d" for d m
    using that assign_props_keys [of m clean "the d"]
    by (cases d) (auto simp: assign_props_def defaults_ok_def list_all_iff)
  assume "defaults_ok a" "defaults_ok b"
  with p [of "[]" a] p [of "assign_props a []" b] show ?thesis
    by (auto simp: mergeRecords_def filled_def defaults_ok_def)
qed

lemma merge_param_ok:
  "param_ok x \<Longrightarrow> param_ok y \<Longrightarrow> param_ok (mergeActionParamContract x y) \<and> ap_key (mergeActionParamContract x y) = ap_key x"
  by (simp add: param_ok_def mergeActionParamContract_def text_either_pred)

lemma merge_artifact_ok:
  "artifact_ok x \<Longrightarrow> artifact_ok y \<Longrightarrow>
   artifact_ok (mergeActionArtifactContract x y) \<and> af_key (mergeActionArtifactContract x y) = af_key x"
  by (simp add: artifact_ok_def mergeActionArtifactContract_def text_either_pred)

lemma merge_input_ok:
  assumes "pred_option input_ok a" and "pred_option input_ok b"
  shows "pred_option input_ok (mergeActionInputContract a b)"
proof -
  have p: "list_all param_ok (params_of i)" if "pred_option input_ok i" for i
    using that by (cases i) (simp_all add: params_of_def input_ok_def)
  have f: "pred_option P (Option.bind a f) \<and> pred_option P (Option.bind b f)" if "\<And>i. input_ok i \<Longrightarrow> pred_option P (f i)" for P f
    using assms that by (auto intro: bind_pred)
  have "pred_option (\<lambda>m. m \<in> set TEAM_ACTION_INPUT_MODES) (text_of_either (Option.bind b ai_mode) (Option.bind a ai_mode))"
    using f [of "\<lambda>m. m \<in> set TEAM_ACTION_INPUT_MODES" ai_mode] by (simp add: text_either_pred input_ok_def)
  moreover have "text_ok (text_of_either (Option.bind b ai_command) (Option.bind a ai_command))"
    using f [of clean ai_command] by (simp add: text_either_pred input_ok_def)
  ultimately show ?thesis
    using merge_by_ok [where ok = param_ok and key = ap_key and g = mergeActionParamContract,
        OF p [OF assms(1)] p [OF assms(2)]] merge_param_ok
    by (simp add: mergeActionInputContract_def input_ok_def mergeActionParams_def)
qed

lemma merge_output_ok:
  assumes "pred_option output_ok a" and "pred_option output_ok b"
  shows "pred_option output_ok (mergeActionOutputContract a b)"
proof -
  have p: "list_all artifact_ok (artifacts_of i)" if "pred_option output_ok i" for i
    using that by (cases i) (simp_all add: artifacts_of_def output_ok_def)
  have f: "pred_option P (Option.bind a f) \<and> pred_option P (Option.bind b f)" if "\<And>i. output_ok i \<Longrightarrow> pred_option P (f i)" for P f
    using assms that by (auto intro: bind_pred)
  have "pred_option (\<lambda>m. m \<in> set TEAM_ACTION_OUTPUT_MODES) (text_of_either (Option.bind b ou_mode) (Option.bind a ou_mode))"
    using f [of "\<lambda>m. m \<in> set TEAM_ACTION_OUTPUT_MODES" ou_mode] by (simp add: text_either_pred output_ok_def)
  moreover have "text_ok (text_of_either (Option.bind b ou_contentType) (Option.bind a ou_contentType))"
    using f [of clean ou_contentType] by (simp add: text_either_pred output_ok_def)
  ultimately show ?thesis
    using merge_by_ok [where ok = artifact_ok and key = af_key and g = mergeActionArtifactContract,
        OF p [OF assms(1)] p [OF assms(2)]] merge_artifact_ok
    by (simp add: mergeActionOutputContract_def output_ok_def mergeActionArtifacts_def)
qed

lemma merge_route_ok:
  assumes "pred_option route_ok a" and "pred_option route_ok b"
  shows "pred_option route_ok (mergeActionRouteContract a b)"
proof -
  have f: "pred_option P (text_of_either (Option.bind b f) (Option.bind a f))" if "\<And>i. route_ok i \<Longrightarrow> pred_option P (f i)" for P f
    using assms that by (auto intro!: text_either_pred bind_pred)
  then show ?thesis by (simp add: mergeActionRouteContract_def route_ok_def)
qed

lemma merge_action_ok:
  "action_ok a \<Longrightarrow> action_ok b \<Longrightarrow> mergeTeamActionContracts a b = Inr c \<Longrightarrow> action_ok c"
  by (auto simp: mergeTeamActionContracts_def action_ok_def text_either_pred merge_route_ok merge_input_ok
      merge_output_ok mergeRecords_ok split: if_splits)

subsection \<open>The innermost scope that says something\<close>

fun innermost :: "'a option list \<Rightarrow> 'a option" where
  "innermost [] = None"
| "innermost (x # xs) = either_of (innermost xs) x"

lemma either_assoc: "either_of (either_of a b) c = either_of a (either_of b c)"
  by (cases a) (simp_all add: either_of_def)

lemma either_None [simp]: "either_of None b = b" "either_of a None = a"
  by (cases a; simp add: either_of_def)+

lemma merge_all_field:
  assumes f: "\<And>x y z. action_ok x \<Longrightarrow> action_ok y \<Longrightarrow> mergeTeamActionContracts x y = Inr z \<Longrightarrow> f z = either_of (f y) (f x)"
  shows "list_all action_ok (a # as) \<Longrightarrow> merge_all a as = Inr r \<Longrightarrow> f r = innermost (map f (a # as))"
proof (induction as arbitrary: a)
  case (Cons b bs)
  then obtain m where m: "mergeTeamActionContracts a b = Inr m" "merge_all m bs = Inr r" by (auto simp: and_then_Inr)
  from Cons.prems(1) merge_action_ok [OF _ _ m(1)] have "list_all action_ok (m # bs)" by simp
  from Cons.IH [OF this m(2)] f [OF _ _ m(1)] Cons.prems(1) show ?case by (simp add: either_assoc)
qed simp

lemma merge_all_ok: "list_all action_ok (a # as) \<Longrightarrow> merge_all a as = Inr r \<Longrightarrow> action_ok r"
  by (induction as arbitrary: a) (auto simp: and_then_Inr dest: merge_action_ok)

lemma merge_all_same:
  "list_all (\<lambda>x. ac_id x = i) (a # as) \<Longrightarrow> \<exists>r. merge_all a as = Inr r \<and> ac_id r = i"
  by (induction as arbitrary: a) (auto simp: mergeTeamActionContracts_def)

lemma unique_from_append:
  "unique_from seen (xs @ ys) = unique_from seen xs @ unique_from (seen @ unique_from seen xs) ys"
proof (induction seen xs rule: unique_from.induct)
  case (2 seen v vs)
  have cong: "set s = set s' \<Longrightarrow> unique_from s ys = unique_from s' ys" for s s' ys
    by (induction s ys arbitrary: s' rule: unique_from.induct) (auto split: option.splits)
  show ?case
  proof (cases "nonEmpty (Some v)")
    case None
    with 2 show ?thesis by simp
  next
    case (Some t)
    show ?thesis
    proof (cases "t \<in> set seen")
      case True
      with 2 Some show ?thesis by simp
    next
      case False
      with 2 Some have "unique_from (os_add t seen) (vs @ ys) = unique_from (os_add t seen) vs
          @ unique_from (os_add t seen @ unique_from (os_add t seen) vs) ys" by simp
      moreover have "unique_from (os_add t seen @ unique_from (os_add t seen) vs) ys
          = unique_from (seen @ t # unique_from (os_add t seen) vs) ys"
        by (rule cong) auto
      ultimately show ?thesis using Some False by simp
    qed
  qed
qed simp

lemma uniqueStrings_again: "uniqueStrings (uniqueStrings xs @ ys) = uniqueStrings (xs @ ys)"
proof -
  have "unique_from [] (uniqueStrings xs) = uniqueStrings xs"
    using uniqueStrings_fixed [OF uniqueStrings_ok] by (simp add: uniqueStrings_def)
  then show ?thesis by (simp add: uniqueStrings_def unique_from_append)
qed

lemma merge_all_capabilities:
  "merge_all a as = Inr r \<Longrightarrow> uniqueStrings (ac_capabilities r) = uniqueStrings (concat (map ac_capabilities (a # as)))"
proof (induction as arbitrary: a)
  case (Cons b bs)
  then obtain m where m: "mergeTeamActionContracts a b = Inr m" "merge_all m bs = Inr r" by (auto simp: and_then_Inr)
  then have "ac_capabilities m = uniqueStrings (ac_capabilities a @ ac_capabilities b)"
    by (auto simp: mergeTeamActionContracts_def split: if_splits)
  with Cons.IH [OF m(2)] show ?case by (simp add: uniqueStrings_again)
qed simp

text \<open>Looking a key up in an optional record.\<close>

definition looked :: "data_record option \<Rightarrow> string \<Rightarrow> jv option" where
  "looked d k = Option.bind d (\<lambda>m. om_get m k)"

lemma fold_put_lookup:
  "om_ok d \<Longrightarrow> list_all (\<lambda>(k, v). k \<noteq> ''__proto__'') d \<Longrightarrow>
   om_get (fold (\<lambda>(k, v). put_prop k v) d m) k = either_of (om_get d k) (om_get m k)"
proof (induction d arbitrary: m)
  case (Cons kv d)
  obtain j v where kv: "kv = (j, v)" by fastforce
  with Cons.prems have d: "om_ok d" "list_all (\<lambda>(k, v). k \<noteq> ''__proto__'') d" "om_get d j = None" "j \<noteq> ''__proto__''"
    by (auto simp: om_ok_def map_of_eq_None_iff)
  with Cons.IH [OF d(1,2), of "put_prop j v m"] show ?case
    by (auto simp: kv put_prop_def either_of_def)
qed (simp add: either_of_def)

lemma merge_records_lookup:
  assumes "defaults_ok a" and "defaults_ok b"
  shows "looked (mergeRecords a b) k = either_of (looked b k) (looked a k)"
proof -
  have p: "om_get (assign_props d m) k = either_of (looked d k) (om_get m k)" if "defaults_ok d" for d m
  proof (cases d)
    case (Some x)
    with that have "om_ok x" "list_all (\<lambda>(k, v). k \<noteq> ''__proto__'') x"
      by (auto simp: defaults_ok_def list_all_iff)
    from fold_put_lookup [OF this] Some show ?thesis by (simp add: assign_props_def looked_def)
  qed (simp add: assign_props_def looked_def)
  have "looked (mergeRecords a b) k = om_get (assign_props b (assign_props a [])) k"
    by (simp add: mergeRecords_def filled_def looked_def)
  with p [OF assms(2)] p [OF assms(1), of "[]"] show ?thesis by simp
qed

definition route_path_of :: "TeamActionContract \<Rightarrow> string option" where
  "route_path_of a = Option.bind (ac_route a) rt_path"

lemma merged_fields:
  assumes "action_ok x" and "action_ok y" and "mergeTeamActionContracts x y = Inr z"
  shows "ac_title z = either_of (ac_title y) (ac_title x)"
    "ac_description z = either_of (ac_description y) (ac_description x)"
    "ac_enabled z = either_of (ac_enabled y) (ac_enabled x)"
    "route_path_of z = either_of (route_path_of y) (route_path_of x)"
    "looked (ac_defaults z) k = either_of (looked (ac_defaults y) k) (looked (ac_defaults x) k)"
proof -
  have z: "z = \<lparr>ac_id = ac_id x, ac_title = text_of_either (ac_title y) (ac_title x),
         ac_description = text_of_either (ac_description y) (ac_description x),
         ac_enabled = either_of (ac_enabled y) (ac_enabled x),
         ac_route = mergeActionRouteContract (ac_route x) (ac_route y),
         ac_input = mergeActionInputContract (ac_input x) (ac_input y),
         ac_output = mergeActionOutputContract (ac_output x) (ac_output y),
         ac_defaults = mergeRecords (ac_defaults x) (ac_defaults y),
         ac_capabilities = uniqueStrings (ac_capabilities x @ ac_capabilities y),
         ac_metadata = mergeRecords (ac_metadata x) (ac_metadata y)\<rparr>"
    using assms(3) by (simp add: mergeTeamActionContracts_def split: if_splits)
  from assms(1,2) have t: "text_ok (ac_title x)" "text_ok (ac_title y)" "text_ok (ac_description x)"
    "text_ok (ac_description y)" "defaults_ok (ac_defaults x)" "defaults_ok (ac_defaults y)"
    by (simp_all add: action_ok_def)
  have "text_ok (route_path_of a)" if "action_ok a" for a
    using that absolute_text
    by (cases "ac_route a"; cases "rt_path (the (ac_route a))") (auto simp: action_ok_def route_path_of_def route_ok_def)
  then have p: "text_ok (route_path_of x)" "text_ok (route_path_of y)" using assms(1,2) by simp_all
  show "ac_title z = either_of (ac_title y) (ac_title x)"
    "ac_description z = either_of (ac_description y) (ac_description x)"
    "ac_enabled z = either_of (ac_enabled y) (ac_enabled x)"
    "looked (ac_defaults z) k = either_of (looked (ac_defaults y) k) (looked (ac_defaults x) k)"
    using t by (simp_all add: z text_of_either_ok merge_records_lookup)
  show "route_path_of z = either_of (route_path_of y) (route_path_of x)"
    using text_of_either_ok [OF p(2,1)]
    by (auto simp: z mergeActionRouteContract_def route_path_of_def)
qed

lemma find_text:
  "nonEmpty v = Some t \<Longrightarrow> findTeamManifestTeam n (Some t) = findTeamManifestTeam n v"
  "nonEmpty v = Some t \<Longrightarrow> findTeamManifestMember team (Some t) = findTeamManifestMember team v"
  "nonEmpty v = Some t \<Longrightarrow> findTeamActionContract as (Some t) = findTeamActionContract as v"
  by (simp_all add: findTeamManifestTeam_def findTeamManifestMember_def findTeamActionContract_def
      clean_nonEmpty [OF nonEmpty_clean])

lemma find_action: "findTeamActionContract as (Some i) = Some a \<Longrightarrow> a \<in> set as \<and> Some (ac_id a) = nonEmpty (Some i)"
  by (auto simp: findTeamActionContract_def find_Some_iff split: option.splits)

lemma find_team: "findTeamManifestTeam n v = Some t \<Longrightarrow> t \<in> set (mf_teams n)"
  by (auto simp: findTeamManifestTeam_def find_Some_iff split: option.splits)

lemma find_member: "findTeamManifestMember t v = Some m \<Longrightarrow> m \<in> set (mt_members t)"
  by (auto simp: findTeamManifestMember_def find_Some_iff split: option.splits)

lemma scoped_ok:
  assumes "manifest_ok n" and "t \<in> set (mf_teams n)" and "pred_option (\<lambda>m. m \<in> set (mt_members t)) mem" and "clean i"
  shows "list_all (\<lambda>a. action_ok a \<and> ac_id a = i) (scoped_actions n t mem i)"
proof -
  have t: "team_ok t" using assms(1,2) by (auto simp: manifest_ok_def list_all_iff)
  have m: "actions_ok (mb_actions m)" if "mem = Some m" for m
    using that t assms(3) by (auto simp: team_ok_def member_ok_def list_all_iff)
  have f: "action_ok a \<and> ac_id a = i" if "findTeamActionContract as (Some i) = Some a" "actions_ok as" for as a
    using find_action [OF that(1)] that(2) assms(4) by (auto simp: actions_ok_def list_all_iff clean_nonEmpty)
  show ?thesis
    using f m assms(1) t
    by (cases mem) (auto simp: scoped_actions_def List.map_filter_def manifest_ok_def team_ok_def)
qed

text \<open>C23: Over a normalised manifest, resolving an action succeeds exactly when the team is known, the
  member (if one is named) is one of its members and some scope declares the action. The result is well
  formed, has the requested id, and takes its title, description, enabled flag, route path and every
  default value from the innermost scope (member, team, manifest) that gives one; its capabilities are
  those of all scopes, widest first, without repetition.\<close>

theorem action_scopes:
  "case normalizeTeamManifest m of
     Inl _ \<Rightarrow> True
   | Inr n \<Rightarrow>
       (let team = findTeamManifestTeam n teamId;
            mid = nonEmpty (rq_memberId opts);
            mem = Option.bind team (\<lambda>t. findTeamManifestMember t mid);
            as = (case (team, nonEmpty actionId) of (Some t, Some i) \<Rightarrow> scoped_actions n t mem i | _ \<Rightarrow> [])
        in case resolveTeamActionContract n teamId actionId opts of
             Inl _ \<Rightarrow> (case (mid, mem) of (Some _, None) \<Rightarrow> True | _ \<Rightarrow> as = [])
           | Inr r \<Rightarrow>
               (case (mid, mem) of (Some _, None) \<Rightarrow> False | _ \<Rightarrow> as \<noteq> [])
               \<and> action_ok r \<and> Some (ac_id r) = nonEmpty actionId
               \<and> ac_title r = innermost (map ac_title as) \<and> ac_description r = innermost (map ac_description as)
               \<and> ac_enabled r = innermost (map ac_enabled as) \<and> route_path_of r = innermost (map route_path_of as)
               \<and> (\<forall>k. looked (ac_defaults r) k = innermost (map (\<lambda>a. looked (ac_defaults a) k) as))
               \<and> ac_capabilities r = uniqueStrings (concat (map ac_capabilities as)))"
proof (cases "normalizeTeamManifest m")
  case (Inr n)
  note n = normalised_ok [OF Inr]
  define team where "team = findTeamManifestTeam n teamId"
  define mid where "mid = nonEmpty (rq_memberId opts)"
  define mem where "mem = Option.bind team (\<lambda>t. findTeamManifestMember t mid)"
  define as where "as = (case (team, nonEmpty actionId) of (Some t, Some i) \<Rightarrow> scoped_actions n t mem i | _ \<Rightarrow> [])"
  note defs = team_def [symmetric] mid_def [symmetric] mem_def [symmetric] as_def [symmetric]
  have "case resolveTeamActionContract n teamId actionId opts of
          Inl _ \<Rightarrow> (case (mid, mem) of (Some _, None) \<Rightarrow> True | _ \<Rightarrow> as = [])
        | Inr r \<Rightarrow>
            (case (mid, mem) of (Some _, None) \<Rightarrow> False | _ \<Rightarrow> as \<noteq> [])
            \<and> action_ok r \<and> Some (ac_id r) = nonEmpty actionId
            \<and> ac_title r = innermost (map ac_title as) \<and> ac_description r = innermost (map ac_description as)
            \<and> ac_enabled r = innermost (map ac_enabled as) \<and> route_path_of r = innermost (map route_path_of as)
            \<and> (\<forall>k. looked (ac_defaults r) k = innermost (map (\<lambda>a. looked (ac_defaults a) k) as))
            \<and> ac_capabilities r = uniqueStrings (concat (map ac_capabilities as))"
  proof (cases "team = None \<or> nonEmpty actionId = None")
    case True
    then have "as = []" by (auto simp: as_def split: option.splits)
    moreover have "\<exists>e. resolveTeamActionContract n teamId actionId opts = Inl e"
    proof (cases "nonEmpty teamId")
      case (Some t)
      with True show ?thesis
        by (cases "nonEmpty actionId") (auto simp: resolveTeamActionContract_def requiredText_def find_text(1) team_def)
    qed (simp add: resolveTeamActionContract_def requiredText_def)
    ultimately show ?thesis by (auto split: option.splits)
  next
    case False
    then obtain tm i where tm: "team = Some tm" "nonEmpty actionId = Some i" by auto
    then obtain t where t: "nonEmpty teamId = Some t" by (cases "nonEmpty teamId") (auto simp: team_def findTeamManifestTeam_def)
    have mem: "Option.bind mid (\<lambda>m. findTeamManifestMember tm (Some m)) = mem"
      using find_text(2) [of "rq_memberId opts"]
      by (cases mid) (auto simp: mem_def tm(1) mid_def findTeamManifestMember_def)
    have as: "as = scoped_actions n tm mem i" by (simp add: as_def tm)
    have res: "resolveTeamActionContract n teamId actionId opts =
        (case (mid, mem) of
           (Some x, None) \<Rightarrow> Inl (invalidConfigError (''team manifest: unknown member '' @ quoted x @ '' for team '' @ quoted (mt_id tm)))
         | _ \<Rightarrow> (case as of
                   [] \<Rightarrow> Inl (invalidConfigError (''team manifest: unknown action '' @ quoted i @ '' for team '' @ quoted (mt_id tm)))
                 | a # as \<Rightarrow> merge_all a as))"
      using t tm find_text(1) [OF t, of n] unfolding as mem [symmetric]
      by (simp add: resolveTeamActionContract_def requiredText_def team_def mid_def [symmetric] Let_def)
    have "pred_option (\<lambda>m. m \<in> set (mt_members tm)) mem"
      using find_member [of tm mid] by (cases mem) (auto simp: mem_def tm(1))
    from scoped_ok [OF n find_team this nonEmpty_clean [OF tm(2)]] tm(1)
    have ok: "list_all (\<lambda>a. action_ok a \<and> ac_id a = i) as" by (simp add: as team_def)
    show ?thesis
    proof (cases as)
      case Nil
      then show ?thesis by (auto simp: res split: option.splits)
    next
      case (Cons a rest)
      from ok Cons have oks: "list_all action_ok (a # rest)" "list_all (\<lambda>x. ac_id x = i) (a # rest)"
        by (auto simp: list_all_iff)
      from merge_all_same [OF oks(2)] obtain r where r: "merge_all a rest = Inr r" "ac_id r = i" by blast
      note field = merge_all_field [OF _ oks(1) r(1)]
      have "names_ok (ac_capabilities r)" using merge_all_ok [OF oks(1) r(1)] by (simp add: action_ok_def)
      then have "ac_capabilities r = uniqueStrings (concat (map ac_capabilities as))"
        using merge_all_capabilities [OF r(1)] by (simp add: Cons uniqueStrings_fixed)
      moreover have "ac_title r = innermost (map ac_title as)" "ac_description r = innermost (map ac_description as)"
        "ac_enabled r = innermost (map ac_enabled as)" "route_path_of r = innermost (map route_path_of as)"
        "looked (ac_defaults r) k = innermost (map (\<lambda>a. looked (ac_defaults a) k) as)" for k
        unfolding Cons by (rule field; erule merged_fields; assumption)+
      ultimately show ?thesis
        using merge_all_ok [OF oks(1) r(1)] r tm(2) Cons
        by (auto simp: res split: option.splits)
    qed
  qed
  then show ?thesis unfolding Inr by (simp only: sum.case Let_def defs)
qed simp

section \<open>Corner cases of the path and pattern rules\<close>

text \<open>A \<open>.\<close> segment is rejected, not collapsed.\<close>

lemma dot_segment_rejected:
  "''.'' \<in> set (path_segments (trim v)) \<Longrightarrow> \<exists>e. assertSafeRelativePath (Some v) = Inl e"
  by (auto simp: assertSafeRelativePath_def Let_def list_ex_iff climbs_def)

text \<open>Escapes that climb pass when another escape of the segment is malformed: it is not decoded at all.\<close>

lemma malformed_escape_passes: "\<not> climbs ''%2e%2e%2f%zz''"
  by code_simp

text \<open>The names put into a session key pattern are read as pattern text.\<close>

lemma pattern_reads_names:
  "expandSessionKeyPattern ''{teamId}:main''
     \<lparr>gb_id = ''b'', gb_teamId = ''*'', gb_memberId = None, gb_source = None, gb_channel = None, gb_actionId = None,
      gb_routeKey = None, gb_sessionKeyPattern = Some ''{teamId}:main'', gb_metadata = None\<rparr> = ''*:main''
   \<and> glob_match ''*:main'' ''other:main''"
  by code_simp

text \<open>An unknown member has the team's own workspace.\<close>

lemma unknown_member_workspace:
  "findTeamManifestMember team memberId = None \<Longrightarrow> workspace_of team memberId = mt_workspace team"
  by (simp add: workspace_of_def either_of_def)

end
