(* ===== verification/Teams.thy ===== *)
theory Teams
  imports TeamResolve
begin

text \<open>
  The team directory of \<open>src/core/teams/directory.ts\<close>, its projections from a manifest
  (\<open>src/core/teams/from-manifest.ts\<close> and \<open>src/contracts/team-directory.ts\<close>) and the manifest sources of
  \<open>src/contracts/manifest-source.ts\<close>. A directory is its list of teams: the functions it exposes close over
  that list. The lemmas say when a directory is refused, that every name of a team leads to it, and that the
  two projections give directories that resolve alike.
\<close>

section \<open>Teams\<close>

record TeamIdentity =
  ti_name :: string
  ti_displayName :: string
  ti_slug :: string
  ti_code :: string
  ti_aliases :: "string list"

record TeamMember =
  tb_id :: string
  tb_identity :: TeamIdentity
  tb_capabilities :: "string list"

record Team =
  ta_id :: string
  ta_identity :: TeamIdentity
  ta_members :: "TeamMember list"
  ta_capabilities :: "string list"
  ta_metadata :: "data_record option"

section \<open>Lookup keys\<close>

lemma trim_start_shorter:
  assumes "list_ex (\<lambda>w. prefix w s) ws_encodings"
  shows "length (trim_start s) < length s"
proof (rule ccontr)
  assume "\<not> length (trim_start s) < length s"
  moreover have "suffix (trim_start s) s" by (simp add: trim_start_def strip_prefixes_suffix)
  then obtain zs where "s = zs @ trim_start s" by (auto simp: suffix_def)
  moreover from this have "length s = length zs + length (trim_start s)" by (metis length_append)
  ultimately have "trim_start s = s" by (cases zs) auto
  with assms ws_no_slash strip_prefixes_none [of _ ws_encodings s] show False
    by (auto simp: list_ex_iff trim_start_def)
qed

text \<open>\<open>replace(/\s+/g, "-")\<close>: each run of white space becomes one dash.\<close>

function dash_spaces :: "string \<Rightarrow> string" where
  "dash_spaces [] = []"
| "dash_spaces (c # s) =
     (if list_ex (\<lambda>w. prefix w (c # s)) ws_encodings then CHR ''-'' # dash_spaces (trim_start (c # s))
      else c # dash_spaces s)"
  by pat_completeness auto

termination
  by (relation "measure length") (use trim_start_shorter in fastforce)+

definition normalizeTeamLookupValue :: "string \<Rightarrow> string" where
  "normalizeTeamLookupValue value =
     dash_spaces (map (\<lambda>c. if c = CHR ''_'' then CHR ''-'' else c) (to_lower (trim value)))"

fun uniq_from :: "string list \<Rightarrow> string option list \<Rightarrow> string list" where
  "uniq_from seen [] = []"
| "uniq_from seen (v # vs) =
     (case v of
        None \<Rightarrow> uniq_from seen vs
      | Some s \<Rightarrow>
          if s = [] \<or> trim s = [] then uniq_from seen vs
          else (let key = normalizeTeamLookupValue (trim s) in
                if key \<in> set seen then uniq_from seen vs else key # uniq_from (os_add key seen) vs))"

definition uniqNormalized :: "string option list \<Rightarrow> string list" where
  "uniqNormalized vs = uniq_from [] vs"

definition identityTokens :: "string \<Rightarrow> TeamIdentity \<Rightarrow> string option list" where
  "identityTokens i identity = Some i # Some (ti_slug identity) # Some (ti_code identity) # map Some (ti_aliases identity)"

definition getTeamLookupKeys :: "Team \<Rightarrow> string list" where
  "getTeamLookupKeys team = uniqNormalized (identityTokens (ta_id team) (ta_identity team))"

text \<open>\<open>!identifier?.trim()\<close>.\<close>

definition blank :: "string option \<Rightarrow> bool" where
  "blank identifier = (case identifier of None \<Rightarrow> True | Some s \<Rightarrow> trim s = [])"

definition matchesTeamIdentifier :: "Team \<Rightarrow> string option \<Rightarrow> bool" where
  "matchesTeamIdentifier team identifier =
     (\<not> blank identifier \<and> normalizeTeamLookupValue (the identifier) \<in> set (getTeamLookupKeys team))"

definition resolveTeamFromCollection :: "Team list \<Rightarrow> string option \<Rightarrow> Team option" where
  "resolveTeamFromCollection teams identifier =
     (if blank identifier then None else find (\<lambda>team. matchesTeamIdentifier team identifier) teams)"

section \<open>The directory\<close>

definition ambiguous_key :: "string \<Rightarrow> string \<Rightarrow> string \<Rightarrow> jserror" where
  "ambiguous_key key owner tid =
     api_error (''team directory: ambiguous lookup key '' @ quoted key @ '' for teams '' @ quoted owner
       @ '' and '' @ quoted tid) None (Some Conflict) None"

text \<open>The two nested loops over teams and keys, with the \<open>Map\<close> of owners; an empty owner is falsy.\<close>

fun claim_keys :: "string \<Rightarrow> string list \<Rightarrow> (string, string) omap \<Rightarrow> jserror + (string, string) omap" where
  "claim_keys tid [] owners = Inr owners"
| "claim_keys tid (key # keys) owners =
     (case om_get owners key of
        Some owner \<Rightarrow>
          if owner \<noteq> [] \<and> owner \<noteq> tid then Inl (ambiguous_key key owner tid)
          else claim_keys tid keys (om_set key tid owners)
      | None \<Rightarrow> claim_keys tid keys (om_set key tid owners))"

fun claim_all :: "Team list \<Rightarrow> (string, string) omap \<Rightarrow> jserror + (string, string) omap" where
  "claim_all [] owners = Inr owners"
| "claim_all (team # teams) owners =
     and_then (claim_keys (ta_id team) (getTeamLookupKeys team) owners) (claim_all teams)"

definition createTeamDirectory :: "Team list \<Rightarrow> jserror + Team list" where
  "createTeamDirectory teams = and_then (claim_all teams []) (\<lambda>_. Inr teams)"

definition listMembers :: "Team list \<Rightarrow> string \<Rightarrow> TeamMember list" where
  "listMembers dir teamId =
     (case find (\<lambda>entry. ta_id entry = teamId) dir of Some team \<Rightarrow> ta_members team | None \<Rightarrow> [])"

definition resolveTeam :: "Team list \<Rightarrow> string option \<Rightarrow> Team option" where
  "resolveTeam dir identifier = resolveTeamFromCollection dir identifier"

definition requireTeam :: "Team list \<Rightarrow> string option \<Rightarrow> jserror + Team" where
  "requireTeam dir identifier =
     (case resolveTeam dir identifier of
        Some team \<Rightarrow> Inr team
      | None \<Rightarrow>
          Inl (api_error (''team directory: unknown team '' @ quoted (case identifier of Some s \<Rightarrow> s | None \<Rightarrow> []))
            None (Some ValidationFailed) None))"

definition resolveMember :: "Team list \<Rightarrow> string \<Rightarrow> string option \<Rightarrow> TeamMember option" where
  "resolveMember dir teamId memberIdentifier =
     (case find (\<lambda>entry. ta_id entry = teamId) dir of
        None \<Rightarrow> None
      | Some team \<Rightarrow>
          if blank memberIdentifier then None
          else (let needle = normalizeTeamLookupValue (the memberIdentifier) in
                find (\<lambda>mem. needle \<in> set (uniqNormalized (identityTokens (tb_id mem) (tb_identity mem))))
                  (ta_members team)))"

section \<open>Projections of a manifest\<close>

definition identityFrom :: "string \<Rightarrow> ManifestIdentity option \<Rightarrow> TeamIdentity" where
  "identityFrom i identity =
     (let name = (case Option.bind identity mi_name of Some n \<Rightarrow> n | None \<Rightarrow> i);
          slug = (case Option.bind identity mi_slug of Some s \<Rightarrow> s | None \<Rightarrow> i)
      in \<lparr>ti_name = name,
          ti_displayName = (case Option.bind identity mi_displayName of Some d \<Rightarrow> d | None \<Rightarrow> name),
          ti_slug = slug,
          ti_code = (case Option.bind identity mi_code of Some c \<Rightarrow> c | None \<Rightarrow> slug),
          ti_aliases = (case identity of Some x \<Rightarrow> mi_aliases x | None \<Rightarrow> [])\<rparr>)"

definition memberFrom :: "ManifestMember \<Rightarrow> TeamMember" where
  "memberFrom mem =
     \<lparr>tb_id = mb_id mem, tb_identity = identityFrom (mb_id mem) (mb_identity mem), tb_capabilities = mb_capabilities mem\<rparr>"

definition manifestTeamToTeam :: "ManifestTeam \<Rightarrow> Team" where
  "manifestTeamToTeam team =
     \<lparr>ta_id = mt_id team, ta_identity = identityFrom (mt_id team) (mt_identity team),
      ta_members = map memberFrom (mt_members team), ta_capabilities = mt_capabilities team,
      ta_metadata = mt_metadata team\<rparr>"

definition teamDirectoryFromManifest :: "TeamManifest \<Rightarrow> jserror + Team list" where
  "teamDirectoryFromManifest manifest = createTeamDirectory (map manifestTeamToTeam (mf_teams manifest))"

text \<open>The projection of \<open>contracts/team-directory.ts\<close>: a missing name falls back to the display name first.\<close>

definition identity_with_display :: "string \<Rightarrow> ManifestIdentity option \<Rightarrow> TeamIdentity" where
  "identity_with_display i identity =
     (let name = (case Option.bind identity mi_name of
            Some n \<Rightarrow> n
          | None \<Rightarrow> (case Option.bind identity mi_displayName of Some d \<Rightarrow> d | None \<Rightarrow> i));
          slug = (case Option.bind identity mi_slug of Some s \<Rightarrow> s | None \<Rightarrow> i)
      in \<lparr>ti_name = name,
          ti_displayName = (case Option.bind identity mi_displayName of Some d \<Rightarrow> d | None \<Rightarrow> name),
          ti_slug = slug,
          ti_code = (case Option.bind identity mi_code of Some c \<Rightarrow> c | None \<Rightarrow> slug),
          ti_aliases = (case identity of Some x \<Rightarrow> mi_aliases x | None \<Rightarrow> [])\<rparr>)"

definition memberFromManifest :: "ManifestMember \<Rightarrow> TeamMember" where
  "memberFromManifest mem =
     \<lparr>tb_id = mb_id mem, tb_identity = identity_with_display (mb_id mem) (mb_identity mem),
      tb_capabilities = mb_capabilities mem\<rparr>"

definition teamFromManifest :: "ManifestTeam \<Rightarrow> Team" where
  "teamFromManifest team =
     \<lparr>ta_id = mt_id team, ta_identity = identity_with_display (mt_id team) (mt_identity team),
      ta_members = map memberFromManifest (mt_members team), ta_capabilities = mt_capabilities team,
      ta_metadata = mt_metadata team\<rparr>"

definition createTeamDirectoryFromManifest :: "TeamManifest \<Rightarrow> jserror + Team list" where
  "createTeamDirectoryFromManifest manifest =
     and_then (normalizeTeamManifest (Some manifest)) (\<lambda>n. createTeamDirectory (map teamFromManifest (mf_teams n)))"

section \<open>Manifest sources\<close>

text \<open>A promise is the number of the load that made it; its value is that load's, normalised.\<close>

record manifest_source =
  ms_cached :: "nat option"
  ms_loads :: nat

definition createCachedManifestSource :: manifest_source where
  "createCachedManifestSource = \<lparr>ms_cached = None, ms_loads = 0\<rparr>"

definition source_refresh :: "manifest_source \<Rightarrow> nat \<times> manifest_source" where
  "source_refresh st = (ms_loads st, \<lparr>ms_cached = Some (ms_loads st), ms_loads = Suc (ms_loads st)\<rparr>)"

definition source_get :: "manifest_source \<Rightarrow> nat \<times> manifest_source" where
  "source_get st = (case ms_cached st of Some p \<Rightarrow> (p, st) | None \<Rightarrow> source_refresh st)"

definition source_value :: "(nat \<Rightarrow> unknown + TeamManifest option) \<Rightarrow> nat \<Rightarrow> unknown + TeamManifest" where
  "source_value loader p =
     (case loader p of
        Inl e \<Rightarrow> Inl e
      | Inr m \<Rightarrow> (case normalizeTeamManifest m of Inl e \<Rightarrow> Inl (UErr e) | Inr n \<Rightarrow> Inr n))"

section \<open>When a directory is refused\<close>

text \<open>Two teams with different ids that share a key.\<close>

definition clash :: "Team \<Rightarrow> Team \<Rightarrow> bool" where
  "clash t u = (ta_id t \<noteq> ta_id u \<and> list_ex (\<lambda>k. k \<in> set (getTeamLookupKeys u)) (getTeamLookupKeys t))"

lemma claim_keys_Inr:
  "claim_keys tid keys owners = Inr owners' \<Longrightarrow>
     (\<forall>k. om_get owners' k = (if k \<in> set keys then Some tid else om_get owners k))
     \<and> (\<forall>k \<in> set keys. \<forall>q. om_get owners k = Some q \<longrightarrow> q = [] \<or> q = tid)"
proof (induction tid keys owners rule: claim_keys.induct)
  case (2 tid key keys owners)
  then have "claim_keys tid keys (om_set key tid owners) = Inr owners'"
      "\<forall>q. om_get owners key = Some q \<longrightarrow> q = [] \<or> q = tid"
    by (auto split: option.splits if_splits)
  moreover from 2 this(1) have "(\<forall>k. om_get owners' k = (if k \<in> set keys then Some tid else om_get (om_set key tid owners) k))
     \<and> (\<forall>k \<in> set keys. \<forall>q. om_get (om_set key tid owners) k = Some q \<longrightarrow> q = [] \<or> q = tid)"
    by (auto split: option.splits if_splits)
  ultimately show ?case by (auto split: if_splits)
qed simp

lemma claim_keys_Inl:
  "claim_keys tid keys owners = Inl e \<Longrightarrow>
     \<exists>k \<in> set keys. \<exists>q. om_get owners k = Some q \<and> q \<noteq> [] \<and> q \<noteq> tid \<and> e = ambiguous_key k q tid"
proof (induction tid keys owners rule: claim_keys.induct)
  case (2 tid key keys owners)
  show ?case
  proof (cases "\<exists>q. om_get owners key = Some q \<and> q \<noteq> [] \<and> q \<noteq> tid")
    case True
    with 2 show ?thesis by auto
  next
    case False
    with 2 have "\<exists>k \<in> set keys. \<exists>q. om_get (om_set key tid owners) k = Some q \<and> q \<noteq> [] \<and> q \<noteq> tid \<and> e = ambiguous_key k q tid"
      by (auto split: option.splits if_splits)
    then show ?thesis by (auto split: if_splits)
  qed
qed simp

lemma claim_all_Inr:
  assumes "list_all (\<lambda>t. ta_id t \<noteq> []) ts" and "\<forall>k q. om_get owners k = Some q \<longrightarrow> q \<noteq> []"
    and "claim_all ts owners = Inr owners'"
  shows "(\<forall>t \<in> set ts. \<forall>k \<in> set (getTeamLookupKeys t). \<forall>q. om_get owners k = Some q \<longrightarrow> q = ta_id t)
     \<and> (\<forall>t \<in> set ts. \<forall>u \<in> set ts. \<not> clash t u)"
  using assms
proof (induction ts owners rule: claim_all.induct)
  case (2 team teams owners)
  from "2.prems"(3) obtain ow where ow: "claim_keys (ta_id team) (getTeamLookupKeys team) owners = Inr ow" "claim_all teams ow = Inr owners'"
    by (auto simp: and_then_Inr)
  note ck = claim_keys_Inr [OF ow(1)]
  have ne: "\<forall>k q. om_get ow k = Some q \<longrightarrow> q \<noteq> []" using ck "2.prems"(1,2) by (auto split: if_splits)
  have "list_all (\<lambda>t. ta_id t \<noteq> []) teams" using "2.prems"(1) by simp
  from "2.IH" [OF this ne ow(2)]
  have ih: "\<forall>t \<in> set teams. \<forall>k \<in> set (getTeamLookupKeys t). \<forall>q. om_get ow k = Some q \<longrightarrow> q = ta_id t"
    "\<forall>t \<in> set teams. \<forall>u \<in> set teams. \<not> clash t u" by blast+
  have own: "\<forall>k \<in> set (getTeamLookupKeys team). \<forall>q. om_get owners k = Some q \<longrightarrow> q = ta_id team"
    using ck "2.prems"(2) by blast
  have rest: "\<forall>t \<in> set teams. \<forall>k \<in> set (getTeamLookupKeys t). \<forall>q. om_get owners k = Some q \<longrightarrow> q = ta_id t"
  proof (intro ballI allI impI)
    fix t k q
    assume t: "t \<in> set teams" "k \<in> set (getTeamLookupKeys t)" "om_get owners k = Some q"
    show "q = ta_id t"
    proof (cases "k \<in> set (getTeamLookupKeys team)")
      case True
      then have "om_get ow k = Some (ta_id team)" using ck by simp
      then have "ta_id t = ta_id team" using ih(1) t(1,2) by metis
      with own True t(3) show ?thesis by metis
    next
      case False
      then have "om_get ow k = Some q" using ck t(3) by simp
      with ih(1) t(1,2) show ?thesis by blast
    qed
  qed
  have first: "\<not> clash team t \<and> \<not> clash t team" if "t \<in> set teams" for t
  proof -
    have "ta_id t = ta_id team" if "k \<in> set (getTeamLookupKeys team)" "k \<in> set (getTeamLookupKeys t)" for k
    proof -
      have "om_get ow k = Some (ta_id team)" using ck that(1) by simp
      with ih(1) \<open>t \<in> set teams\<close> that(2) show ?thesis by metis
    qed
    then show ?thesis by (auto simp: clash_def list_ex_iff)
  qed
  have "\<not> clash team team" by (simp add: clash_def)
  with own rest first ih(2) show ?case by auto
qed simp

lemma claim_all_Inl:
  assumes "\<forall>k q. om_get owners k = Some q \<longrightarrow> (\<exists>t \<in> S. ta_id t = q \<and> k \<in> set (getTeamLookupKeys t))"
    and "claim_all ts owners = Inl e"
  shows "\<exists>t \<in> S \<union> set ts. \<exists>u \<in> set ts. clash t u \<and> (\<exists>k. e = ambiguous_key k (ta_id t) (ta_id u))"
  using assms
proof (induction ts owners arbitrary: S rule: claim_all.induct)
  case (2 team teams owners)
  show ?case
  proof (cases "claim_keys (ta_id team) (getTeamLookupKeys team) owners")
    case (Inl e')
    with "2.prems"(2) have "e' = e" by simp
    from claim_keys_Inl [OF Inl] obtain k q where k: "k \<in> set (getTeamLookupKeys team)" "om_get owners k = Some q"
        "q \<noteq> ta_id team" "e' = ambiguous_key k q (ta_id team)" by blast
    with "2.prems"(1) obtain t where "t \<in> S" "ta_id t = q" "k \<in> set (getTeamLookupKeys t)" by blast
    with k \<open>e' = e\<close> show ?thesis by (fastforce simp: clash_def list_ex_iff)
  next
    case (Inr ow)
    note ck = claim_keys_Inr [OF Inr]
    have s: "\<forall>k q. om_get ow k = Some q \<longrightarrow> (\<exists>t \<in> insert team S. ta_id t = q \<and> k \<in> set (getTeamLookupKeys t))"
      using ck "2.prems"(1) by (auto split: if_splits)
    have "claim_all teams ow = Inl e" using "2.prems"(2) Inr by simp
    from "2.IH" [OF s this] obtain t u k where t: "t \<in> insert team S \<union> set teams" "u \<in> set teams" "clash t u"
        "e = ambiguous_key k (ta_id t) (ta_id u)" by blast
    then have "t \<in> S \<union> set (team # teams)" "u \<in> set (team # teams)" by auto
    with t(3,4) show ?thesis by blast
  qed
qed simp

lemma ambiguous_code: "getErrorCode (UErr (ambiguous_key k a b)) = Some (code_text Conflict)"
  by (simp add: ambiguous_key_def api_error_def mk_error_def getErrorCode_def readStringProperty_def isErrRecord_def
      err_prop_def code_text_def trim_graph graph_char_def)

section \<open>Every name leads to its team\<close>

lemma uniq_from_keys:
  "set (uniq_from seen vs) \<union> set seen
     = {normalizeTeamLookupValue (trim s) | s. Some s \<in> set vs \<and> trim s \<noteq> []} \<union> set seen"
proof (induction seen vs rule: uniq_from.induct)
  case (2 seen v vs)
  have "trim [] = []" using trim_length [of "[]"] by simp
  with 2 show ?case by (cases v) (auto simp: Let_def split: if_splits)
qed simp

lemma normalize_trim: "normalizeTeamLookupValue (trim s) = normalizeTeamLookupValue s"
  by (simp add: normalizeTeamLookupValue_def)

lemma lookup_keys:
  "set (getTeamLookupKeys t) = {normalizeTeamLookupValue s | s. Some s \<in> set (identityTokens (ta_id t) (ta_identity t)) \<and> trim s \<noteq> []}"
  using uniq_from_keys [of "[]"] by (auto simp: getTeamLookupKeys_def uniqNormalized_def normalize_trim)

lemma find_unique:
  assumes "x \<in> set xs" and "P x" and "\<And>y. y \<in> set xs \<Longrightarrow> P y \<Longrightarrow> y = x"
  shows "find P xs = Some x"
proof (cases "find P xs")
  case None
  with assms(1,2) show ?thesis by (auto simp: find_None_iff)
next
  case (Some y)
  then have "y \<in> set xs" "P y" by (auto simp: find_Some_iff)
  with assms(3) Some show ?thesis by simp
qed

lemma distinct_ids: "distinct (map f xs) \<Longrightarrow> x \<in> set xs \<Longrightarrow> y \<in> set xs \<Longrightarrow> f x = f y \<Longrightarrow> x = y"
  by (auto simp: distinct_map inj_on_def)

text \<open>C30: The directory of a normalised manifest is refused only when two of its teams with different ids
  share a lookup key, with a conflict error that names them. Otherwise a name resolves to a team exactly
  when it is, up to case, outer blanks, underscores and inner blanks, the id, slug, code or an alias of
  that team, whatever the order of the teams; in particular every non-blank name a team carries resolves
  to it.\<close>

theorem directory_resolves_names:
  "case normalizeTeamManifest m of
     Inl _ \<Rightarrow> True
   | Inr n \<Rightarrow>
       (case teamDirectoryFromManifest n of
          Inl e \<Rightarrow> getErrorCode (UErr e) = Some (code_text Conflict)
            \<and> (\<exists>t u. {t, u} \<subseteq> manifestTeamToTeam ` set (mf_teams n) \<and> clash t u)
        | Inr dir \<Rightarrow>
            list_all (\<lambda>t.
                (resolveTeam dir v = Some t \<longleftrightarrow> matchesTeamIdentifier t v)
                \<and> list_all (\<lambda>token. if blank token then True else resolveTeam dir token = Some t)
                    (identityTokens (ta_id t) (ta_identity t)))
              dir)"
proof (cases "normalizeTeamManifest m")
  case (Inr n)
  from normalised_ok [OF Inr] have ids: "distinct (map mt_id (mf_teams n))" "list_all (\<lambda>t. mt_id t \<noteq> []) (mf_teams n)"
    by (auto simp: manifest_ok_def team_ok_def clean_def list_all_iff)
  let ?ts = "map manifestTeamToTeam (mf_teams n)"
  have tid: "ta_id (manifestTeamToTeam t) = mt_id t" for t by (simp add: manifestTeamToTeam_def)
  show ?thesis
  proof (cases "claim_all ?ts []")
    case (Inl e)
    have "\<exists>t \<in> {} \<union> set ?ts. \<exists>u \<in> set ?ts. clash t u \<and> (\<exists>k. e = ambiguous_key k (ta_id t) (ta_id u))"
      by (rule claim_all_Inl [OF _ Inl]) simp
    then obtain t u k where "t \<in> set ?ts" "u \<in> set ?ts" "clash t u" "e = ambiguous_key k (ta_id t) (ta_id u)" by blast
    then have "getErrorCode (UErr e) = Some (code_text Conflict)
        \<and> (\<exists>t u. {t, u} \<subseteq> manifestTeamToTeam ` set (mf_teams n) \<and> clash t u)"
      by (auto simp: ambiguous_code)
    moreover have "teamDirectoryFromManifest n = Inl e"
      by (simp add: teamDirectoryFromManifest_def createTeamDirectory_def Inl)
    ultimately show ?thesis by (simp add: Inr)
  next
    case own: (Inr ow)
    have dir: "teamDirectoryFromManifest n = Inr ?ts"
      by (simp add: teamDirectoryFromManifest_def createTeamDirectory_def own)
    have "list_all (\<lambda>t. ta_id t \<noteq> []) ?ts" using ids(2) by (simp add: tid list_all_iff)
    from claim_all_Inr [OF this _ own] have nc: "\<forall>t \<in> set ?ts. \<forall>u \<in> set ?ts. \<not> clash t u" by simp
    have dist: "distinct (map ta_id ?ts)" using ids(1) by (simp add: comp_def tid)
    have same: "u = t" if "t \<in> set ?ts" "u \<in> set ?ts" "matchesTeamIdentifier t w" "matchesTeamIdentifier u w" for t u w
    proof -
      from that nc have "\<not> clash t u" by blast
      then have "ta_id t = ta_id u" using that(3,4) by (auto simp: clash_def matchesTeamIdentifier_def list_ex_iff)
      with distinct_ids [OF dist that(1,2)] show ?thesis by simp
    qed
    have res: "resolveTeam ?ts w = Some t" if "t \<in> set ?ts" "matchesTeamIdentifier t w" for t w
      using that same by (auto simp: resolveTeam_def resolveTeamFromCollection_def matchesTeamIdentifier_def
          simp del: set_map intro!: find_unique)
    have rev: "matchesTeamIdentifier t w" if "resolveTeam ?ts w = Some t" for t w
      using that by (auto simp: resolveTeam_def resolveTeamFromCollection_def find_Some_iff split: if_splits)
    have tok: "matchesTeamIdentifier t w" if "w \<in> set (identityTokens (ta_id t) (ta_identity t))" "\<not> blank w" for t w
    proof -
      from that(2) obtain s where "w = Some s" "trim s \<noteq> []" by (auto simp: blank_def split: option.splits)
      with that show ?thesis by (auto simp: matchesTeamIdentifier_def lookup_keys)
    qed
    show ?thesis
      unfolding Inr dir sum.case list_all_iff
    proof (intro ballI conjI)
      fix t assume t: "t \<in> set ?ts"
      show "resolveTeam ?ts v = Some t \<longleftrightarrow> matchesTeamIdentifier t v" using res [OF t] rev by blast
      fix token assume "token \<in> set (identityTokens (ta_id t) (ta_identity t))"
      then show "if blank token then True else resolveTeam ?ts token = Some t" using res [OF t] tok by simp
    qed
  qed
qed simp

section \<open>The two projections\<close>

lemma projections_keys: "getTeamLookupKeys (teamFromManifest t) = getTeamLookupKeys (manifestTeamToTeam t)"
  by (simp add: getTeamLookupKeys_def identityTokens_def teamFromManifest_def manifestTeamToTeam_def
      identity_with_display_def identityFrom_def Let_def)

lemma projections_match: "matchesTeamIdentifier (teamFromManifest t) v = matchesTeamIdentifier (manifestTeamToTeam t) v"
  by (simp add: matchesTeamIdentifier_def projections_keys)

lemma projections_claim:
  "claim_all (map teamFromManifest ts) owners = claim_all (map manifestTeamToTeam ts) owners"
proof (induction ts arbitrary: owners)
  case (Cons t ts)
  have "ta_id (teamFromManifest t) = ta_id (manifestTeamToTeam t)"
    by (simp add: teamFromManifest_def manifestTeamToTeam_def)
  moreover have "claim_all (map teamFromManifest ts) = claim_all (map manifestTeamToTeam ts)"
    using Cons by blast
  ultimately show ?case by (simp add: projections_keys)
qed simp

lemma find_map_cong:
  "(\<And>x. P (f x) = Q (g x)) \<Longrightarrow>
   rel_option (\<lambda>a b. \<exists>x. a = f x \<and> b = g x) (find P (map f xs)) (find Q (map g xs))"
  by (induction xs) auto

text \<open>C31: The two projections of a manifest agree: the directory built by the contracts layer from a manifest and
  the one built by the core from its normal form are refused alike, with the same error, and resolve every
  identifier to projections of the same manifest team.\<close>

theorem team_projections_agree:
  "case normalizeTeamManifest (Some m) of
     Inl e \<Rightarrow> createTeamDirectoryFromManifest m = Inl e
   | Inr n \<Rightarrow>
       (case (createTeamDirectoryFromManifest m, teamDirectoryFromManifest n) of
          (Inr a, Inr b) \<Rightarrow>
            rel_option (\<lambda>x y. \<exists>t. x = teamFromManifest t \<and> y = manifestTeamToTeam t) (resolveTeam a v) (resolveTeam b v)
        | (Inl e, Inl e') \<Rightarrow> e = e'
        | _ \<Rightarrow> False)"
proof (cases "normalizeTeamManifest (Some m)")
  case (Inr n)
  have r: "rel_option (\<lambda>x y. \<exists>t. x = teamFromManifest t \<and> y = manifestTeamToTeam t)
      (resolveTeam (map teamFromManifest ts) v) (resolveTeam (map manifestTeamToTeam ts) v)" for ts
    by (simp add: resolveTeam_def resolveTeamFromCollection_def find_map_cong projections_match)
  show ?thesis
    by (cases "claim_all (map manifestTeamToTeam (mf_teams n)) []")
      (simp_all add: Inr createTeamDirectoryFromManifest_def teamDirectoryFromManifest_def createTeamDirectory_def
        projections_claim r)
qed (simp add: createTeamDirectoryFromManifest_def)

text \<open>They may name a team differently: the display name alone is a name for one of them only.\<close>

lemma projections_name_apart:
  "ti_name (identityFrom ''t'' (Some \<lparr>mi_name = None, mi_displayName = Some ''Team'', mi_slug = None, mi_code = None,
     mi_aliases = [], mi_metadata = None\<rparr>)) = ''t''
   \<and> ti_name (identity_with_display ''t'' (Some \<lparr>mi_name = None, mi_displayName = Some ''Team'', mi_slug = None,
     mi_code = None, mi_aliases = [], mi_metadata = None\<rparr>)) = ''Team''"
  by (simp add: identityFrom_def identity_with_display_def Let_def)

section \<open>A cached source\<close>

text \<open>The loader runs once until a refresh, even when its first run failed.\<close>

lemma source_cached:
  "source_get (snd (source_get st)) = (fst (source_get st), snd (source_get st))"
  by (simp add: source_get_def source_refresh_def split: option.splits)

end
