(* ===== verification/RunEvents.thy ===== *)
theory RunEvents
  imports RunStream SseStream HttpClient UriPath
begin

text \<open>
  Reading a gateway run's events over HTTP: \<open>src/core/gateway/run/sse-run-event-provider.ts\<close> (the event
  stream, the translation of its messages, the polling fallback and the subscription) and the failure
  classifier \<open>src/core/gateway/run/stream-failure.ts\<close>. The answers of \<open>fetch\<close>, the clock, \<open>Date.parse\<close>
  and what the consumer's handlers throw are arguments. Lengths of texts cut with \<open>slice\<close> are bytes.
\<close>

section \<open>Stream failures\<close>

definition TERMINAL_GATEWAY_RPC_CODES :: "string list" where
  "TERMINAL_GATEWAY_RPC_CODES =
     [''unauthorized'', ''forbidden'', ''invalid_token'', ''auth_failed'', ''authentication_failed'',
      ''not_authenticated'', ''not_paired'', ''pairing_required'', ''device_identity_required'',
      ''origin_not_allowed'', ''socket_policy_violation'']"

definition RETRYABLE_GATEWAY_RPC_CODES :: "string list" where
  "RETRYABLE_GATEWAY_RPC_CODES = [''socket_error'', ''socket_closed'', ''socket_unavailable'', ''timeout'', ''closed'']"

definition rpc_code :: "unknown \<Rightarrow> string" where
  "rpc_code e = to_lower (trim (str_prop e ''code''))"

definition isTerminalGatewayRpcError :: "unknown \<Rightarrow> bool" where
  "isTerminalGatewayRpcError e = (rpc_code e \<in> set TERMINAL_GATEWAY_RPC_CODES)"

definition isAuthLikeStreamError :: "string \<Rightarrow> bool" where
  "isAuthLikeStreamError message =
     list_ex (str_includes (to_lower message))
       [''unauthorized'', ''forbidden'', ''authentication'', ''pairing required'', ''not paired'',
        ''device identity required'', ''not authorized'', ''401'', ''403'']"

definition isOriginPolicyLikeStreamError :: "string \<Rightarrow> bool" where
  "isOriginPolicyLikeStreamError message =
     (let normalized = to_lower message in
      str_includes normalized ''origin not allowed''
      \<or> str_includes normalized ''gateway.controlui.allowedorigins''
      \<or> (str_includes normalized ''code=1008'' \<and> str_includes normalized ''policy''))"

definition isDevicePairingLikeStreamError :: "string \<Rightarrow> bool" where
  "isDevicePairingLikeStreamError message =
     (let normalized = to_lower message in
      str_includes normalized ''pairing'' \<or> str_includes normalized ''not paired''
      \<or> str_includes normalized ''device pairing''
      \<or> (str_includes normalized ''device''
          \<and> (str_includes normalized ''approve'' \<or> str_includes normalized ''pending'' \<or> str_includes normalized ''pair'')))"

definition isTerminalStreamErrorMessage :: "string \<Rightarrow> bool" where
  "isTerminalStreamErrorMessage message =
     (isAuthLikeStreamError message \<or> isOriginPolicyLikeStreamError message \<or> isDevicePairingLikeStreamError message)"

datatype stream_state = StIdle | StConnecting | StReconnecting | StConnected | StError

record stream_failure_view =
  sf_state :: stream_state
  sf_message :: "string option"
  sf_retryable :: bool

definition falsy :: "unknown \<Rightarrow> bool" where
  "falsy e = (case e of UErr _ \<Rightarrow> False | UVal v \<Rightarrow> \<not> truthy v)"

definition normalizeGatewayStreamFailure :: "unknown \<Rightarrow> stream_failure_view" where
  "normalizeGatewayStreamFailure error =
     (if falsy error then \<lparr>sf_state = StIdle, sf_message = None, sf_retryable = False\<rparr>
      else
        let x = toError error ''Unknown error''; e = UErr x in
        if is_gateway_rpc_error e \<and> isTerminalGatewayRpcError e
        then \<lparr>sf_state = StError, sf_message = Some (e_message x), sf_retryable = False\<rparr>
        else if isTerminalStreamErrorMessage (e_message x)
        then \<lparr>sf_state = StError, sf_message = Some (e_message x), sf_retryable = False\<rparr>
        else if is_gateway_rpc_error e \<and> rpc_code e \<in> set RETRYABLE_GATEWAY_RPC_CODES
        then \<lparr>sf_state = StReconnecting, sf_message = Some (e_message x), sf_retryable = True\<rparr>
        else \<lparr>sf_state = StReconnecting, sf_message = Some (e_message x), sf_retryable = True\<rparr>)"

section \<open>Events\<close>

record stream_tool_call = tool_call +
  tl_event :: "string option"
  tl_input :: "string option"
  tl_error :: "string option"
  tl_durationMs :: "jnum option"
  tl_at :: "jnum option"

text \<open>The union \<open>RunStreamEvent\<close>, with its time stamps.\<close>

datatype stream_event =
    SeDelta (se_run: string) string (se_at: "jnum option")
  | SeCompleted (se_run: string) "string option" "runtime_usage option" (se_at: "jnum option")
  | SeFailed (se_run: string) string (se_at: "jnum option")
  | SeCancelled (se_run: string) "string option" (se_at: "jnum option")
  | SeApproval (se_run: string) "approval_choice list" (se_at: "jnum option")
  | SeTool tool_event (se_run: string) stream_tool_call (se_at: "jnum option")

definition se_terminal :: "stream_event \<Rightarrow> bool" where
  "se_terminal e = (case e of SeCompleted _ _ _ _ \<Rightarrow> True | SeFailed _ _ _ \<Rightarrow> True | SeCancelled _ _ _ \<Rightarrow> True | _ \<Rightarrow> False)"

definition se_name_of :: "stream_event \<Rightarrow> string" where
  "se_name_of e =
     (case e of SeDelta _ _ _ \<Rightarrow> ''message.delta'' | SeCompleted _ _ _ _ \<Rightarrow> ''run.completed''
      | SeFailed _ _ _ \<Rightarrow> ''run.failed'' | SeCancelled _ _ _ \<Rightarrow> ''run.cancelled''
      | SeApproval _ _ _ \<Rightarrow> ''approval.request''
      | SeTool ToolCallStarted _ _ _ \<Rightarrow> ''tool.call.started''
      | SeTool ToolCallCompleted _ _ _ \<Rightarrow> ''tool.call.completed''
      | SeTool ToolCallFailed _ _ _ \<Rightarrow> ''tool.call.failed'')"

section \<open>Reading a raw event\<close>

definition readString :: "jv \<Rightarrow> string list \<Rightarrow> string option" where
  "readString r keys = first_some (map (\<lambda>k. asString (get_prop r k)) keys)"

definition readNumber :: "jv \<Rightarrow> string list \<Rightarrow> jnum option" where
  "readNumber r keys = first_some (map (\<lambda>k. asNumber (get_prop r k)) keys)"

text \<open>\<open>JSON.stringify(value, null, 2)\<close>; the first argument is the current indentation.\<close>

definition pad :: "nat \<Rightarrow> string" where
  "pad n = char_of (10::nat) # replicate (2 * n) (CHR '' '')"

fun pretty :: "nat \<Rightarrow> jv \<Rightarrow> string" where
  "pretty n (JArr vs) =
     (if vs = [] then ''[]''
      else ''['' @ join_with '','' (map (\<lambda>v. pad (Suc n) @ pretty (Suc n) v) vs) @ pad n @ '']'')"
| "pretty n (JObj m) =
     (if list_all (\<lambda>p. snd p = JUndef) m then ''{}''
      else ''{'' @ join_with '','' (map (\<lambda>p. pad (Suc n) @ quote (fst p) @ '': '' @ pretty (Suc n) (snd p))
                                    (filter (\<lambda>p. snd p \<noteq> JUndef) m)) @ pad n @ ''}'')"
| "pretty n v = json_text v"

definition stringifyPayload :: "jv \<Rightarrow> string option" where
  "stringifyPayload v =
     (case v of
        JUndef \<Rightarrow> None
      | JNull \<Rightarrow> None
      | JStr s \<Rightarrow> (let trimmed = trim s in if trimmed \<noteq> [] then Some (take 900 trimmed) else None)
      | JNum x \<Rightarrow> Some (number_text x)
      | JBool b \<Rightarrow> Some (if b then ''true'' else ''false'')
      | _ \<Rightarrow> (let json = pretty 0 v in Some (if length json > 900 then take 900 json @ ''...'' else json)))"

definition parseTimestamp :: "(string \<Rightarrow> jnum) \<Rightarrow> jv \<Rightarrow> jnum option" where
  "parseTimestamp date_parse v =
     (case v of
        JNum x \<Rightarrow> if is_finite x then Some x else None
      | JStr s \<Rightarrow> if is_finite (date_parse s) then Some (date_parse s) else None
      | _ \<Rightarrow> None)"

definition normalizeToolStatus :: "string option \<Rightarrow> string \<Rightarrow> tool_status" where
  "normalizeToolStatus v eventName =
     (let lower = to_lower (case v of Some s \<Rightarrow> if s \<noteq> [] then s else eventName | None \<Rightarrow> eventName) in
      if str_includes lower ''fail'' \<or> str_includes lower ''error'' then ToolFailed
      else if str_includes lower ''complete'' \<or> str_includes lower ''success'' \<or> str_includes lower ''done''
      then ToolCompleted
      else if str_includes lower ''start'' \<or> str_includes lower ''run'' \<or> str_includes lower ''delta''
      then ToolRunning
      else ToolPending)"

definition normalizeApprovalChoices :: "jv \<Rightarrow> approval_choice list" where
  "normalizeApprovalChoices v =
     (case v of
        JArr vs \<Rightarrow>
          (let out = concat (map (\<lambda>x. case choice_of x of Some c \<Rightarrow> [c] | None \<Rightarrow> []) vs) in
           if out \<noteq> [] then out else FULL_APPROVAL_CHOICES)
      | _ \<Rightarrow> FULL_APPROVAL_CHOICES)"

definition readGatewaySseUsage :: "jv \<Rightarrow> runtime_usage option" where
  "readGatewaySseUsage raw =
     (let usage = get_prop raw ''usage'' in if is_plain_object usage then normalizeRuntimeUsage usage else None)"

text \<open>The name of a tool without one: the event's name without its first part, its separators as blanks.\<close>

definition name_sep :: "char \<Rightarrow> bool" where
  "name_sep c = (c \<in> set ''.:_-'')"

definition drop_event_head :: "string \<Rightarrow> string" where
  "drop_event_head s =
     (if to_lower (take 3 s) = ''run'' \<and> 3 < length s \<and> name_sep (s ! 3) then drop 4 s
      else if to_lower (take 4 s) = ''tool'' \<and> 4 < length s \<and> name_sep (s ! 4) then drop 5 s
      else s)"

function blank_seps :: "string \<Rightarrow> string" where
  "blank_seps [] = []"
| "blank_seps (c # s) = (if name_sep c then CHR '' '' # blank_seps (dropWhile name_sep s) else c # blank_seps s)"
  by pat_completeness auto
termination
  by (relation "measure length") (auto simp: le_imp_less_Suc length_dropWhile_le)

definition fallback_tool_name :: "string \<Rightarrow> string" where
  "fallback_tool_name eventName =
     (let rest = trim (blank_seps (drop_event_head eventName)) in
      ''tool '' @ (if rest \<noteq> [] then rest else ''call''))"

text \<open>\<open>raw.a ?? raw.b ?? ...\<close>.\<close>

definition first_prop :: "jv \<Rightarrow> string list \<Rightarrow> jv" where
  "first_prop r keys = foldr (\<lambda>k acc. coalesce (get_prop r k) acc) (butlast keys) (get_prop r (last keys))"

definition text_prop :: "jv \<Rightarrow> string \<Rightarrow> string option" where
  "text_prop r k = text_of (get_prop r k)"

definition parseToolEvent :: "rat \<Rightarrow> jv \<Rightarrow> string \<Rightarrow> jnum option \<Rightarrow> stream_event option" where
  "parseToolEvent now raw runId stamp =
     (let eventName = or_else (text_prop raw ''event'') [];
          lowerEvent = to_lower eventName;
          explicitName = readString raw [''tool_name'', ''toolName'', ''function_name'', ''functionName''];
          toolFieldName = readString raw [''tool''];
          genericName = (if str_includes lowerEvent ''tool'' then readString raw [''name''] else None);
          explicit = first_some [explicitName, toolFieldName, genericName]
      in if \<not> str_includes lowerEvent ''tool'' \<and> explicitName = None \<and> toolFieldName = None then None
         else
           let status = normalizeToolStatus (readString raw [''status'', ''state'', ''phase'']) lowerEvent;
               variant = (if status = ToolFailed then ToolCallFailed
                          else if status = ToolCompleted then ToolCallCompleted else ToolCallStarted);
               name = or_else explicit (fallback_tool_name eventName)
           in Some (SeTool variant runId
                \<lparr>tl_id = runId @ '':'' @ name @ '':'' @ number_text (or_else stamp (Fin now)),
                 tl_name = name, tl_status = status,
                 tl_output = stringifyPayload (first_prop raw [''output'', ''result'', ''response'']),
                 tl_event = (if eventName = [] then None else Some eventName),
                 tl_input = stringifyPayload (first_prop raw [''input'', ''args'', ''arguments'', ''params'', ''request'']),
                 tl_error = readString raw [''error'', ''errorMessage'', ''message''],
                 tl_durationMs = readNumber raw [''duration_ms'', ''durationMs'', ''elapsed_ms'', ''elapsedMs''],
                 tl_at = stamp\<rparr> stamp))"

definition raw_run_id :: "jv \<Rightarrow> string \<Rightarrow> string" where
  "raw_run_id raw defaultRunId =
     (case text_prop raw ''run_id'' of Some s \<Rightarrow> if trim s \<noteq> [] then s else defaultRunId | None \<Rightarrow> defaultRunId)"

text \<open>Every branch hands at most one event to the handler.\<close>

definition emitFromRaw :: "(string \<Rightarrow> jnum) \<Rightarrow> rat \<Rightarrow> jv \<Rightarrow> string \<Rightarrow> stream_event option" where
  "emitFromRaw date_parse now raw defaultRunId =
     (let eventName = or_else (text_prop raw ''event'') [];
          runId = raw_run_id raw defaultRunId;
          stamp = parseTimestamp date_parse (get_prop raw ''timestamp'')
      in if eventName = ''message.delta'' then Some (SeDelta runId (or_else (text_prop raw ''delta'') []) stamp)
         else if eventName = ''run.completed''
         then Some (SeCompleted runId (text_prop raw ''output'') (readGatewaySseUsage raw) stamp)
         else if eventName = ''run.failed''
         then Some (SeFailed runId (or_else (text_prop raw ''error'') ''run failed'') stamp)
         else if eventName = ''run.cancelled'' then Some (SeCancelled runId (text_prop raw ''error'') stamp)
         else if eventName = ''approval.request''
         then Some (SeApproval runId (normalizeApprovalChoices (get_prop raw ''choices'')) stamp)
         else parseToolEvent now raw runId stamp)"

definition parseRawEvent :: "string \<Rightarrow> jv option" where
  "parseRawEvent data =
     (case json_parse data of Some (JObj m) \<Rightarrow> Some (JObj m) | _ \<Rightarrow> None)"

definition emitFromSseMessage :: "(string \<Rightarrow> jnum) \<Rightarrow> rat \<Rightarrow> string \<Rightarrow> sse_message \<Rightarrow> stream_event option" where
  "emitFromSseMessage date_parse now runId m =
     Option.bind (parseRawEvent (sm_data m)) (\<lambda>raw. emitFromRaw date_parse now raw runId)"

section \<open>The provider\<close>

text \<open>A header source is a record of optional texts; \<open>null\<close> and \<open>undefined\<close> are \<open>None\<close>.\<close>

type_synonym header_source = "(string \<times> string option) list"

datatype sse_phase = PhaseEvents | PhasePoll

record sse_provider =
  sp_httpBase :: string
  sp_authToken :: string
  sp_clientId :: string
  sp_run :: "string \<Rightarrow> string"
  sp_runEvents :: "string \<Rightarrow> string"
  sp_headers :: header_source
  sp_resolveHeaders :: "(string \<Rightarrow> sse_phase \<Rightarrow> header_source) option"
  sp_fallbackToPoll :: bool
  sp_pollIntervalMs :: jnum
  sp_pollTimeoutMs :: jnum

record sse_provider_options =
  spo_httpBase :: string
  spo_authToken :: "string option"
  spo_clientId :: string
  spo_endpoints :: "((string \<Rightarrow> string) \<times> (string \<Rightarrow> string)) option"
  spo_headers :: "header_source option"
  spo_resolveHeaders :: "(string \<Rightarrow> sse_phase \<Rightarrow> header_source) option"
  spo_fallbackToPoll :: "bool option"
  spo_pollIntervalMs :: "jnum option"
  spo_pollTimeoutMs :: "jnum option"

text \<open>\<open>GATEWAY_API_ENDPOINTS.run\<close> and \<open>.runEvents\<close>.\<close>

definition api_run :: "string \<Rightarrow> string" where
  "api_run runId = ''/v1/runs/'' @ encodeURIComponent runId"

definition api_run_events :: "string \<Rightarrow> string" where
  "api_run_events runId = ''/v1/runs/'' @ encodeURIComponent runId @ ''/events''"

definition normalizeHttpBase :: "string \<Rightarrow> unknown + string" where
  "normalizeHttpBase httpBase =
     (let normalized = strip_slashes (trim httpBase) in
      if normalized = [] then Inl (UErr (invalidConfigError ''GatewaySseRunEventProvider requires httpBase''))
      else Inr normalized)"

definition normalizeClientId :: "string \<Rightarrow> unknown + string" where
  "normalizeClientId clientId =
     (let normalized = trim clientId in
      if normalized = [] then Inl (UErr (invalidConfigError ''GatewaySseRunEventProvider requires clientId''))
      else Inr normalized)"

definition GatewaySseRunEventProvider :: "sse_provider_options \<Rightarrow> unknown + sse_provider" where
  "GatewaySseRunEventProvider o' =
     and_then (normalizeHttpBase (spo_httpBase o')) (\<lambda>base.
     and_then (normalizeClientId (spo_clientId o')) (\<lambda>client.
       Inr \<lparr>sp_httpBase = base,
            sp_authToken = (case spo_authToken o' of Some t \<Rightarrow> trim t | None \<Rightarrow> []),
            sp_clientId = client,
            sp_run = (case spo_endpoints o' of Some (r, _) \<Rightarrow> r | None \<Rightarrow> api_run),
            sp_runEvents = (case spo_endpoints o' of Some (_, e) \<Rightarrow> e | None \<Rightarrow> api_run_events),
            sp_headers = or_else (spo_headers o') [],
            sp_resolveHeaders = spo_resolveHeaders o',
            sp_fallbackToPoll = or_else (spo_fallbackToPoll o') True,
            sp_pollIntervalMs = or_else (spo_pollIntervalMs o') (num 1250),
            sp_pollTimeoutMs = or_else (spo_pollTimeoutMs o') (num 120000)\<rparr>))"

definition merge_header :: "(string, string) omap \<Rightarrow> string \<times> string option \<Rightarrow> (string, string) omap" where
  "merge_header target p =
     (case snd p of
        None \<Rightarrow> target
      | Some v \<Rightarrow> let k = trim (fst p) in if k = [] then target else om_set k v target)"

definition mergeHeaders_into :: "(string, string) omap \<Rightarrow> header_source \<Rightarrow> (string, string) omap" where
  "mergeHeaders_into target source = foldl merge_header target source"

definition provider_headers :: "sse_provider \<Rightarrow> string \<Rightarrow> sse_phase \<Rightarrow> string \<Rightarrow> (string, string) omap" where
  "provider_headers p runId phase accept =
     (let headers = [(''Accept'', accept), (''X-Portal-Client-Id'', sp_clientId p)]
            @ (if sp_authToken p \<noteq> [] then [(''Authorization'', ''Bearer '' @ sp_authToken p)] else []);
          merged = mergeHeaders_into headers (sp_headers p)
      in (case sp_resolveHeaders p of
            None \<Rightarrow> merged
          | Some resolve \<Rightarrow> mergeHeaders_into merged (resolve runId phase)))"

definition shouldFallbackToPoll :: "int \<Rightarrow> string \<Rightarrow> bool" where
  "shouldFallbackToPoll status body =
     (if status \<in> {404, 405, 406, 501} then True
      else status = 400 \<and> str_includes (to_lower body) ''stream'' \<and> str_includes (to_lower body) ''enabled'')"

definition formatHttpError :: "string \<Rightarrow> int \<Rightarrow> string \<Rightarrow> string" where
  "formatHttpError what status body =
     what @ '' with HTTP '' @ show_int status @ (if trim body \<noteq> [] then '': '' @ take 240 (trim body) else [])"

definition httpStatusError :: "string \<Rightarrow> int \<Rightarrow> string \<Rightarrow> unknown" where
  "httpStatusError what status body =
     UErr (mk_error CApiClientError ''ApiClientError'' (formatHttpError what status body)
       (Some (type_text THttp)) (Some (code_text HttpRequestFailed)) None [(''status'', JNum (num status))])"

section \<open>Streaming, polling, subscribing\<close>

text \<open>What the consumer sees, and the requests made. A request is its URL and its headers.\<close>

datatype sub_out = SoRequest string "(string, string) omap" | SoEvent stream_event | SoComplete | SoError unknown

text \<open>
  The surroundings of a subscription: \<open>Date.parse\<close>, the clock for the names of tool calls, whether the
  signal is aborted at the start; what the event handler does after the events it has been handed
  (throw, abort); what \<open>onComplete\<close> throws, and whether it disposes.
\<close>

record run_env =
  rv_date_parse :: "string \<Rightarrow> jnum"
  rv_now :: rat
  rv_aborted :: bool
  rv_onEvent :: "stream_event list \<Rightarrow> unknown option"
  rv_abort :: "stream_event list \<Rightarrow> bool"
  rv_onComplete :: "unknown option"
  rv_completeDisposes :: bool

record events_reply = http_reply +
  er_body :: "(bool \<times> sse_read) list option"

text \<open>A turn of the polling loop: whether the signal is aborted before it, the answer, the clock at the
  deadline check, and what \<open>wait\<close> rejects with.\<close>

record poll_round =
  po_aborted :: bool
  po_reply :: "unknown + http_reply"
  po_now :: rat
  po_wait :: "unknown option"

definition poll_null_error :: unknown where
  "poll_null_error = UErr (JsError CTypeError ''Cannot read properties of null'' [] None)"

definition poll_payload :: "string \<Rightarrow> unknown + jv" where
  "poll_payload text' =
     (if trim text' = [] then Inr (JObj [])
      else
        (case json_parse text' of
           None \<Rightarrow> Inl (UErr (invalidJsonError THttp (''run status polling returned invalid JSON: '' @ take 240 text')))
         | Some v \<Rightarrow> if v = JNull then Inl poll_null_error else Inr v))"

definition poll_event :: "(string \<Rightarrow> jnum) \<Rightarrow> string \<Rightarrow> jv \<Rightarrow> stream_event option" where
  "poll_event date_parse runId payload =
     (let status = or_else (text_prop payload ''status'') [];
          resolvedRunId = raw_run_id payload runId;
          stamp = parseTimestamp date_parse (get_prop payload ''timestamp'')
      in if status = ''completed''
         then Some (SeCompleted resolvedRunId (text_prop payload ''output'')
                (if truthy (get_prop payload ''usage'') then normalizeRuntimeUsage (get_prop payload ''usage'') else None)
                stamp)
         else if status = ''failed''
         then Some (SeFailed resolvedRunId (or_else (text_prop payload ''error'') ''run failed'') stamp)
         else if status = ''cancelled'' then Some (SeCancelled resolvedRunId (text_prop payload ''error'') stamp)
         else None)"

definition poll_reply :: "(string \<Rightarrow> jnum) \<Rightarrow> string \<Rightarrow> unknown + http_reply \<Rightarrow> unknown + stream_event option" where
  "poll_reply date_parse runId r =
     and_then r (\<lambda>rep. and_then (rp_text rep) (\<lambda>text'.
       if \<not> reply_ok rep then Inl (httpStatusError ''run status polling failed'' (rp_status rep) text')
       else and_then (poll_payload text') (\<lambda>payload. Inr (poll_event date_parse runId payload))))"

definition poll_timeout_error :: "jnum \<Rightarrow> unknown" where
  "poll_timeout_error ms =
     UErr (api_error (''run polling timed out after '' @ number_text ms @ ''ms'') (Some TTimeout) (Some CTimeout) None)"

fun pollUntilTerminal :: "sse_provider \<Rightarrow> run_env \<Rightarrow> string \<Rightarrow> rat \<Rightarrow> poll_round list \<Rightarrow> sub_out list \<times> consume_end" where
  "pollUntilTerminal p env runId startedAt [] = ([], Waiting)"
| "pollUntilTerminal p env runId startedAt (r # rs) =
     (if po_aborted r then ([], Failed (UErr (abortError ''run polling aborted'')))
      else
        let request = SoRequest (sp_httpBase p @ sp_run p runId) (provider_headers p runId PhasePoll ''application/json'') in
        case poll_reply (rv_date_parse env) runId (po_reply r) of
          Inl e \<Rightarrow> ([request], Failed e)
        | Inr (Some ev) \<Rightarrow>
            ([request, SoEvent ev], case rv_onEvent env [ev] of None \<Rightarrow> Finished | Some e \<Rightarrow> Failed e)
        | Inr None \<Rightarrow>
            if num_lt (sp_pollTimeoutMs p) (Fin (po_now r - startedAt))
            then ([request], Failed (poll_timeout_error (sp_pollTimeoutMs p)))
            else
              (case po_wait r of
                 Some e \<Rightarrow> ([request], Failed e)
               | None \<Rightarrow> (case pollUntilTerminal p env runId startedAt rs of (out, e) \<Rightarrow> (request # out, e))))"

definition events_of :: "run_env \<Rightarrow> string \<Rightarrow> sse_message list \<Rightarrow> stream_event list" where
  "events_of env runId ms =
     concat (map (\<lambda>m. opt_list (emitFromSseMessage (rv_date_parse env) (rv_now env) runId m)) ms)"

text \<open>What a message does to the stream: the handler runs for those that are events.\<close>

definition handler_env :: "run_env \<Rightarrow> string \<Rightarrow> sse_env" where
  "handler_env env runId =
     \<lparr>en_abort = (\<lambda>ms. if events_of env runId [last ms] = [] then False else rv_abort env (events_of env runId ms)),
      en_throw = (\<lambda>ms. if events_of env runId [last ms] = [] then None else rv_onEvent env (events_of env runId ms))\<rparr>"

definition streamEvents ::
  "sse_provider \<Rightarrow> run_env \<Rightarrow> string \<Rightarrow> unknown + events_reply \<Rightarrow> rat \<Rightarrow> poll_round list \<Rightarrow> sub_out list \<times> consume_end" where
  "streamEvents p env runId answer startedAt rounds =
     (let request = SoRequest (sp_httpBase p @ sp_runEvents p runId) (provider_headers p runId PhaseEvents ''text/event-stream'');
          poll = (case pollUntilTerminal p env runId startedAt rounds of (out, e) \<Rightarrow> (request # out, e))
      in case answer of
           Inl e \<Rightarrow> ([request], Failed e)
         | Inr rep \<Rightarrow>
             if \<not> reply_ok (http_reply.truncate rep)
             then (let body = (case rp_text rep of Inr t \<Rightarrow> t | Inl _ \<Rightarrow> []) in
                   if sp_fallbackToPoll p \<and> shouldFallbackToPoll (rp_status rep) body then poll
                   else ([request], Failed (httpStatusError ''run events failed'' (rp_status rep) body)))
             else if sp_fallbackToPoll p \<and> or_else (rp_contentType rep) [] \<noteq> [] \<and> \<not> isSseContentType (rp_contentType rep)
             then poll
             else
               (case er_body rep of
                  None \<Rightarrow>
                    if sp_fallbackToPoll p then poll
                    else ([request], Failed (UErr (protocolError THttp ''run events response missing readable body'')))
                | Some reads \<Rightarrow>
                    (case consumeSseStream (handler_env env runId) None (rv_aborted env) reads of
                       (st, e) \<Rightarrow> (request # map SoEvent (events_of env runId (sc_messages st)), e))))"

text \<open>What follows the stream: \<open>disposed\<close> says whether the subscription has been disposed by then.\<close>

definition stream_over :: "run_env \<Rightarrow> bool \<Rightarrow> consume_end \<Rightarrow> sub_out list" where
  "stream_over env disposed e =
     (case e of
        Waiting \<Rightarrow> []
      | Finished \<Rightarrow>
          if disposed then []
          else SoComplete # (case rv_onComplete env of
                 None \<Rightarrow> []
               | Some err \<Rightarrow> if rv_completeDisposes env then [] else [SoError err])
      | Failed err \<Rightarrow> if disposed then [] else [SoError err])"

definition subscribe_run ::
  "sse_provider \<Rightarrow> run_env \<Rightarrow> string \<Rightarrow> bool \<Rightarrow> unknown + events_reply \<Rightarrow> rat \<Rightarrow> poll_round list \<Rightarrow> sub_out list" where
  "subscribe_run p env runId disposed answer startedAt rounds =
     (case streamEvents p env runId answer startedAt rounds of (out, e) \<Rightarrow> out @ stream_over env disposed e)"

section \<open>The decoder on well-formed text\<close>

text \<open>Between two characters of well-formed text the streaming decoder is ready, and hands out what it reads.\<close>

definition td_ready :: "text_decoder \<Rightarrow> bool" where
  "td_ready td = (td_pending td = [] \<and> td_needed td = 0 \<and> td_lower td = 0x80 \<and> td_upper td = 0xBF)"

lemma td_form:
  assumes "f \<in> set utf8_forms" and "list_all2 (\<lambda>(lo, hi) c. cont_byte lo hi c) f q"
    and "td_ready td" and "td_seen td \<or> q \<noteq> utf8_bom"
  shows "td_decode td q = (q, td\<lparr>td_seen := True\<rparr>)"
  using assms(1,2,3,4)
  by (auto simp: utf8_forms_def list_all2_Cons1 cont_byte_def td_ready_def td_byte_def td_lead_def td_emit_def)

lemma td_ready_text: "utf8_seq s \<Longrightarrow> td_ready td \<Longrightarrow> td_seen td \<Longrightarrow> td_decode td s = (s, td)"
proof (induction arbitrary: td rule: utf8_seq.induct)
  case (Step f q s)
  have "td_decode td q = (q, td)" using td_form [OF Step.hyps(1,2)] Step.prems by simp
  with Step show ?case by (simp add: td_decode_append)
qed simp

lemma td_plain_text:
  assumes "utf8_valid (c # s)" and "(of_char c :: nat) < 128"
  shows "td_decode td_new (c # s) = (c # s, td_new\<lparr>td_seen := True\<rparr>)"
proof -
  have "utf8_valid s"
    using assms utf8_cancel_left [of "[c]" s] utf8_valid_ascii [of "[c]"] by simp
  then have "td_decode (td_new\<lparr>td_seen := True\<rparr>) s = (s, td_new\<lparr>td_seen := True\<rparr>)"
    by (intro td_ready_text) (simp_all add: utf8_valid_iff td_ready_def td_new_def)
  moreover have "td_byte td_new c = ([c], td_new\<lparr>td_seen := True\<rparr>)"
    using assms(2) by (simp add: td_byte_def td_lead_def td_emit_def td_new_def utf8_bom_def)
  ultimately show ?thesis by simp
qed

section \<open>A gateway's stream\<close>

text \<open>How a gateway writes an event: a JSON object in one \<open>data:\<close> line, then a blank line.\<close>

definition stamp_member :: "jnum option \<Rightarrow> (string, jv) omap" where
  "stamp_member stamp = opt_member ''timestamp'' (map_option JNum stamp)"

definition wire_event :: "stream_event \<Rightarrow> jv" where
  "wire_event e =
     (let kind = [(''event'', JStr (se_name_of e)), (''run_id'', JStr (se_run e))] in
      case e of
        SeDelta r d t \<Rightarrow> JObj (kind @ [(''delta'', JStr d)] @ stamp_member t)
      | SeCompleted r x u t \<Rightarrow> JObj (kind @ opt_member ''output'' (map_option JStr x)
          @ opt_member ''usage'' (map_option (\<lambda>v. JObj (map (map_prod id JNum) (us_raw v))) u) @ stamp_member t)
      | SeFailed r x t \<Rightarrow> JObj (kind @ [(''error'', JStr x)] @ stamp_member t)
      | SeCancelled r x t \<Rightarrow> JObj (kind @ opt_member ''error'' (map_option JStr x) @ stamp_member t)
      | SeApproval r cs t \<Rightarrow> JObj (kind @ [(''choices'', JArr (map (\<lambda>c. JStr (choice_text c)) cs))] @ stamp_member t)
      | SeTool _ _ _ _ \<Rightarrow> JNull)"

text \<open>The events of a run's life that a gateway can write: a named run, whole time stamps, usage as the reader
  leaves it, some choice.\<close>

definition stamp_ok :: "jnum option \<Rightarrow> bool" where
  "stamp_ok stamp = (case stamp of None \<Rightarrow> True | Some x \<Rightarrow> is_safe_integer x)"

definition usage_ok :: "runtime_usage \<Rightarrow> bool" where
  "usage_ok u = (om_ok (us_raw u) \<and> list_all (\<lambda>p. utf8_valid (fst p) \<and> is_safe_integer (snd p)) (us_raw u)
     \<and> normalizeRuntimeUsage (JObj (map (map_prod id JNum) (us_raw u))) = Some u)"

definition opt_text_ok :: "string option \<Rightarrow> bool" where
  "opt_text_ok x = (case x of None \<Rightarrow> True | Some s \<Rightarrow> utf8_valid s)"

definition writable :: "stream_event \<Rightarrow> bool" where
  "writable e = (utf8_valid (se_run e) \<and> trim (se_run e) \<noteq> [] \<and> stamp_ok (se_at e)
     \<and> (case e of SeDelta _ d _ \<Rightarrow> utf8_valid d
        | SeCompleted _ x u _ \<Rightarrow> opt_text_ok x \<and> (case u of None \<Rightarrow> True | Some v \<Rightarrow> usage_ok v)
        | SeFailed _ x _ \<Rightarrow> utf8_valid x
        | SeCancelled _ x _ \<Rightarrow> opt_text_ok x
        | SeApproval _ cs _ \<Rightarrow> cs \<noteq> []
        | SeTool _ _ _ _ \<Rightarrow> False))"

definition wire_block :: "stream_event \<Rightarrow> string" where
  "wire_block e = ''data: '' @ json_text (wire_event e)"

definition wire_stream :: "stream_event list \<Rightarrow> string" where
  "wire_stream es = concat (map (\<lambda>e. wire_block e @ lf_lf) es)"

lemma stamp_read: "stamp_ok stamp \<Longrightarrow> parseTimestamp dp (case stamp of None \<Rightarrow> JUndef | Some x \<Rightarrow> JNum x) = stamp"
  by (auto simp: stamp_ok_def parseTimestamp_def is_safe_integer_def is_finite_def split: option.splits jnum.splits)

lemma stamp_read_cases:
  "parseTimestamp dp JUndef = None" "stamp_ok (Some x) \<Longrightarrow> parseTimestamp dp (JNum x) = Some x"
  using stamp_read [of "Some x" dp] by (simp_all add: parseTimestamp_def)

lemma choice_of_text [simp]: "choice_of (JStr (choice_text c)) = Some c"
  by (cases c) (simp_all add: choice_of_def choice_text_def FULL_APPROVAL_CHOICES_def)

lemma choices_read: "cs \<noteq> [] \<Longrightarrow> normalizeApprovalChoices (JArr (map (\<lambda>c. JStr (choice_text c)) cs)) = cs"
proof -
  have "concat (map (\<lambda>x. case choice_of x of Some c \<Rightarrow> [c] | None \<Rightarrow> []) (map (\<lambda>c. JStr (choice_text c)) cs)) = cs"
    by (induction cs) simp_all
  then show "cs \<noteq> [] \<Longrightarrow> ?thesis" by (simp add: normalizeApprovalChoices_def)
qed

lemma opt_member_get [simp]: "om_get (opt_member k v) j = (if j = k then v else None)"
  by (simp add: opt_member_def split: option.split)

lemma text_of_opt [simp]:
  "text_of (case map_option JStr x of None \<Rightarrow> JUndef | Some v \<Rightarrow> v) = x"
  by (simp add: text_of_def split: option.split)

lemma read_written: "writable e \<Longrightarrow> emitFromRaw dp now (wire_event e) d = Some e"
proof (cases e)
  case (SeCompleted r x u t)
  assume w: "writable e"
  have us: "readGatewaySseUsage (wire_event e) = u"
    using w SeCompleted by (cases u)
      (simp_all add: readGatewaySseUsage_def wire_event_def get_prop_def stamp_member_def is_plain_object_def
        map_add_def writable_def usage_ok_def Let_def)
  show ?thesis using w us unfolding SeCompleted
    by (auto simp: emitFromRaw_def wire_event_def get_prop_def text_prop_def text_of_def or_else_def raw_run_id_def
        se_name_of_def stamp_member_def writable_def stamp_read_cases map_add_def Let_def option.case_eq_if)
qed (auto simp: emitFromRaw_def wire_event_def get_prop_def text_prop_def text_of_def or_else_def raw_run_id_def
        se_name_of_def stamp_member_def writable_def stamp_read_cases choices_read map_add_def Let_def split: option.splits)

lemma opt_member_keys: "fst ` set (opt_member k v) \<subseteq> {k}" "distinct (map fst (opt_member k v))"
  by (auto simp: opt_member_def split: option.splits)

lemma plain_members_all: "plain_members m \<longleftrightarrow> list_all (\<lambda>p. json_plain (snd p)) m"
  by (induction m) auto

lemma plain_items_all: "plain_items vs \<longleftrightarrow> list_all json_plain vs"
  by (induction vs) auto

lemma opt_member_all: "list_all P (opt_member k v) \<longleftrightarrow> (case v of None \<Rightarrow> True | Some x \<Rightarrow> P (k, x))"
  by (simp add: opt_member_def split: option.split)

lemma opt_member_fresh [simp]: "(j, w) \<in> set (opt_member k v) \<longleftrightarrow> j = k \<and> v = Some w"
  by (auto simp: opt_member_def split: option.splits)

lemma map_fst_opt: "map fst (opt_member k v) = (if v = None then [] else [k])"
  by (simp add: opt_member_def split: option.split)

lemma wire_plain: "writable e \<Longrightarrow> json_plain (wire_event e)"
  by (cases e)
    (auto simp: wire_event_def writable_def stamp_member_def plain_members_all opt_member_all map_fst_opt
      stamp_ok_def usage_ok_def om_ok_def list_all_iff plain_items_all comp_def fst_map_prod snd_map_prod
      split: option.splits)

lemma members_utf8_all: "members_utf8 m \<longleftrightarrow> list_all (\<lambda>p. utf8_valid (fst p) \<and> json_utf8 (snd p)) m"
  by (induction m) auto

lemma items_utf8_all: "items_utf8 vs \<longleftrightarrow> list_all json_utf8 vs"
  by (induction vs) auto

lemma names_valid:
  "utf8_valid ''event''" "utf8_valid ''run_id''" "utf8_valid ''delta''" "utf8_valid ''output''"
  "utf8_valid ''usage''" "utf8_valid ''error''" "utf8_valid ''choices''" "utf8_valid ''timestamp''"
  by (rule utf8_valid_ascii, simp)+

lemma event_name_valid: "utf8_valid (se_name_of e)" "utf8_valid (choice_text c)"
  by (rule utf8_valid_ascii, simp add: se_name_of_def choice_text_def
      split: stream_event.split tool_event.split approval_choice.split)+

lemma wire_utf8: "writable e \<Longrightarrow> json_utf8 (wire_event e)"
  by (cases e)
    (auto simp: wire_event_def writable_def stamp_member_def members_utf8_all opt_member_all names_valid
      event_name_valid stamp_ok_def usage_ok_def opt_text_ok_def list_all_iff items_utf8_all
      split: option.splits)

text \<open>A block without control characters is the next block of the text it starts.\<close>

definition printable :: "string \<Rightarrow> bool" where
  "printable s = list_all (\<lambda>c. 32 \<le> (of_char c :: nat)) s"

lemma printable_nth: "printable x \<Longrightarrow> j < length x \<Longrightarrow> (x @ s) ! j \<noteq> CHR 0x0A \<and> (x @ s) ! j \<noteq> CHR 0x0D"
  by (auto simp: printable_def list_all_length nth_append)

lemma printable_prefix:
  assumes "printable x" and "j < length x" and "c = CHR 0x0A \<or> c = CHR 0x0D"
  shows "\<not> prefix (c # y) (drop j (x @ s))"
proof
  assume "prefix (c # y) (drop j (x @ s))"
  then have "(x @ s) ! j = c" using assms(2) by (metis length_append nth_via_drop prefix_def append_Cons trans_less_add1)
  with printable_nth [OF assms(1,2), of s] assms(3) show False by auto
qed

lemma take_block: "printable x \<Longrightarrow> takeNextSseBlock (x @ lf_lf @ rest) = Some (x, rest)"
proof -
  assume x: "printable x"
  have "index_of (x @ lf_lf @ rest) lf_lf = Some (length x)"
    using printable_prefix [OF x, of _ "CHR 0x0A"] by (intro index_of_eqI) (auto simp: lf_lf_def)
  moreover have "length x \<le> j" if "index_of (x @ lf_lf @ rest) crlf_crlf = Some j" for j
    using index_of_Some [OF that] printable_prefix [OF x, of j "CHR 0x0D"]
    by (auto simp: crlf_crlf_def crlf_def not_less [symmetric])
  ultimately show ?thesis by (auto simp: takeNextSseBlock_def lf_lf_def split: option.splits)
qed

lemma wire_printable: "printable (wire_block e)"
  using json_text_printable(1) by (auto simp: printable_def wire_block_def list_all_iff)

lemma printable_single: "printable s \<Longrightarrow> split_lines s = [s]"
proof -
  assume p: "printable s"
  then have "CHR 0x0A \<notin> set s" by (auto simp: printable_def list_all_iff)
  then have "split_char (CHR 0x0A) s = [s]" by (rule split_char_single)
  then show ?thesis by (simp add: split_lines_def)
qed

definition wire_message :: "stream_event \<Rightarrow> sse_message" where
  "wire_message e = \<lparr>sm_data = json_text (wire_event e), sm_event = None, sm_id = None, sm_retry = None\<rparr>"

lemma parse_wire: "parseSseBlock (wire_block e) = Some (wire_message e)"
  using printable_single [OF wire_printable, of e]
  by (simp add: parseSseBlock_def wire_message_def sse_line_def wire_block_def)

lemma drain_wire: "drainSseMessages (wire_stream es) = (map wire_message es, [])"
proof (induction es)
  case Nil
  then show ?case
    by (simp add: wire_stream_def drainSseMessages.simps takeNextSseBlock_def lf_lf_def crlf_crlf_def crlf_def)
next
  case (Cons e es)
  have "wire_stream (e # es) = wire_block e @ lf_lf @ wire_stream es" by (simp add: wire_stream_def)
  with take_block [OF wire_printable, of e "wire_stream es"] Cons parse_wire [of e] show ?case
    by (subst drainSseMessages.simps) (simp add: opt_list_def)
qed

lemma decode_wire: "list_all writable es \<Longrightarrow> \<exists>td. td_decode td_new (wire_stream es) = (wire_stream es, td) \<and> td_flush td = []"
proof (cases es)
  case (Cons e es')
  assume w: "list_all writable es"
  have "utf8_valid (wire_block e @ lf_lf)" if "writable e" for e
  proof -
    have "utf8_valid ''data: ''" "utf8_valid lf_lf" by (rule utf8_valid_ascii, simp add: lf_lf_def)+
    with utf8_valid_json_text(1) [OF wire_utf8 [OF that]] show ?thesis
      unfolding wire_block_def by (intro utf8_valid_append)
  qed
  with w have "utf8_valid (wire_stream es)"
    unfolding wire_stream_def by (induction es) (auto intro: utf8_valid_append simp del: append_assoc)
  moreover obtain s where "wire_stream es = CHR ''d'' # s" by (simp add: Cons wire_stream_def wire_block_def)
  ultimately show ?thesis using td_plain_text [of "CHR ''d''" s] by (auto simp: td_flush_def td_new_def)
qed (simp add: wire_stream_def td_flush_def td_new_def)

lemma emit_wire: "writable e \<Longrightarrow> emitFromSseMessage dp now d (wire_message e) = Some e"
  using json_roundtrip [OF wire_plain, of e] read_written [of e dp now d]
  by (cases e) (auto simp: emitFromSseMessage_def wire_message_def parseRawEvent_def wire_event_def writable_def Let_def)

definition calm :: "run_env \<Rightarrow> bool" where
  "calm env = (rv_onEvent env = (\<lambda>_. None) \<and> rv_abort env = (\<lambda>_. False) \<and> rv_onComplete env = None \<and> \<not> rv_aborted env)"

definition event_reply :: "string option \<Rightarrow> (bool \<times> sse_read) list \<Rightarrow> events_reply" where
  "event_reply contentType reads = \<lparr>rp_status = 200, rp_text = Inr [], rp_contentType = contentType, er_body = Some reads\<rparr>"

lemma handler_quiet: "calm env \<Longrightarrow> handler_env env r = quiet"
  by (simp add: handler_env_def quiet_def calm_def fun_eq_iff)

lemma events_wire: "list_all writable es \<Longrightarrow> events_of env r (map wire_message es) = es"
  by (induction es) (simp_all add: events_of_def emit_wire opt_list_def)

lemma consume_wire:
  assumes "list_all writable es" and "length (wire_stream es) \<le> DEFAULT_MAX_SSE_BUFFER_BYTES"
    and "concat vs = wire_stream es"
  shows "\<exists>st. consumeSseStream quiet None False (map (\<lambda>v. (False, RValue v)) vs @ [(False, RDone)]) = (st, Finished)
    \<and> sc_messages st = map wire_message es"
proof -
  obtain td where td: "td_decode td_new (wire_stream es) = (wire_stream es, td)" "td_flush td = []"
    using decode_wire [OF assms(1)] by blast
  have c: "consumed [] (consumer_new False)"
    using drain_wire [of "[]"] by (simp add: consumed_def consumer_new_def wire_stream_def)
  have "td_decode (sc_decoder (consumer_new False)) (concat vs) = (wire_stream es, td)"
    using td(1) assms(3) by (simp add: consumer_new_def)
  from consume_reads_consumed [OF c this, of DEFAULT_MAX_SSE_BUFFER_BYTES] assms(2) fits_short td(2)
  obtain st where "consume_reads quiet DEFAULT_MAX_SSE_BUFFER_BYTES (map (\<lambda>v. (False, RValue v)) vs @ [(False, RDone)])
      (consumer_new False) = (st, Finished)"
    "sc_messages st = fst (drainSseMessages (wire_stream es)) @ opt_list (parseSseBlock (snd (drainSseMessages (wire_stream es))))"
    by auto
  moreover have "parseSseBlock [] = None" by (simp add: parseSseBlock_def split_lines_def sse_line_def strip_cr_def)
  moreover have "resolveMaxBufferBytes None = Inr DEFAULT_MAX_SSE_BUFFER_BYTES"
    by (simp add: resolveMaxBufferBytes_def validateLimit_def DEFAULT_MAX_SSE_BUFFER_BYTES_def num_def
        is_safe_integer_def max_safe_def is_int_rat_def)
  ultimately show ?thesis
    by (simp add: consumeSseStream_def drain_wire opt_list_def del: consume_reads.simps)
qed

lemma stream_wire:
  assumes "list_all writable es" and "length (wire_stream es) \<le> DEFAULT_MAX_SSE_BUFFER_BYTES"
    and "concat vs = wire_stream es" and "calm env"
  shows "streamEvents p env runId
      (Inr (event_reply (Some ''text/event-stream; charset=utf-8'') (map (\<lambda>v. (False, RValue v)) vs @ [(False, RDone)])))
      startedAt rounds
    = (SoRequest (sp_httpBase p @ sp_runEvents p runId) (provider_headers p runId PhaseEvents ''text/event-stream'')
      # map SoEvent es, Finished)"
proof -
  have "isSseContentType (Some ''text/event-stream; charset=utf-8'')" by code_simp
  with consume_wire [OF assms(1-3)] events_wire [OF assms(1), of env runId] handler_quiet [OF assms(4), of runId] assms(4)
  show ?thesis
    by (auto simp: streamEvents_def event_reply_def reply_ok_def http_reply.truncate_def or_else_def calm_def)
qed

text \<open>C10: A run's events end to end. The events a gateway writes (each as one \<open>data:\<close> line of JSON and a blank
  line) reach the consumer exactly, in order, with their time stamps, usage and choices, however the bytes
  of the body are cut into reads, even inside a character; then the subscription completes, once.\<close>

theorem run_events_end_to_end:
  assumes "list_all writable es" and "length (wire_stream es) \<le> DEFAULT_MAX_SSE_BUFFER_BYTES"
    and "concat vs = wire_stream es" and "calm env"
  shows "subscribe_run p env runId False
      (Inr (event_reply (Some ''text/event-stream; charset=utf-8'') (map (\<lambda>v. (False, RValue v)) vs @ [(False, RDone)])))
      startedAt rounds
    = SoRequest (sp_httpBase p @ sp_runEvents p runId) (provider_headers p runId PhaseEvents ''text/event-stream'')
      # map SoEvent es @ [SoComplete]"
  using stream_wire [OF assms, of p runId startedAt rounds] assms(4)
  by (simp add: subscribe_run_def stream_over_def calm_def)

definition wit_provider :: sse_provider where
  "wit_provider = \<lparr>sp_httpBase = ''h'', sp_authToken = [], sp_clientId = ''c'', sp_run = api_run, sp_runEvents = api_run_events,
     sp_headers = [], sp_resolveHeaders = None, sp_fallbackToPoll = True, sp_pollIntervalMs = num 10, sp_pollTimeoutMs = num 15\<rparr>"

definition wit_env :: run_env where
  "wit_env = \<lparr>rv_date_parse = (\<lambda>_. NaN), rv_now = 0, rv_aborted = False, rv_onEvent = (\<lambda>_. None), rv_abort = (\<lambda>_. False),
     rv_onComplete = None, rv_completeDisposes = False\<rparr>"

definition wit_events :: "stream_event list" where
  "wit_events = [SeDelta ''r'' ''hi'' None, SeCompleted ''r'' (Some ''hi'') None (Some (num 5))]"

lemma wit_writable: "list_all writable wit_events"
proof -
  have v: "utf8_valid ''r''" "utf8_valid ''hi''" by (rule utf8_valid_ascii, simp)+
  have t: "trim ''r'' = ''r''" by (rule trim_graph) (simp_all add: graph_char_def)
  show ?thesis
    by (simp add: wit_events_def writable_def v t stamp_ok_def opt_text_ok_def num_def is_safe_integer_def max_safe_def
        is_int_rat_def)
qed

lemma wit_length: "length (wire_stream wit_events) \<le> DEFAULT_MAX_SSE_BUFFER_BYTES"
proof -
  have "length (wire_stream wit_events) = 133" by code_simp
  then show ?thesis by (simp add: DEFAULT_MAX_SSE_BUFFER_BYTES_def)
qed

theorem run_events_end_to_end_witness:
  "subscribe_run wit_provider wit_env ''r'' False
      (Inr (event_reply (Some ''text/event-stream; charset=utf-8'')
        [(False, RValue (take 3 (wire_stream wit_events))), (False, RValue (drop 3 (wire_stream wit_events))), (False, RDone)]))
      0 []
    = SoRequest ''h/v1/runs/r/events'' [(''Accept'', ''text/event-stream''), (''X-Portal-Client-Id'', ''c'')]
      # map SoEvent wit_events @ [SoComplete]"
proof -
  have c: "concat [take 3 (wire_stream wit_events), drop 3 (wire_stream wit_events)] = wire_stream wit_events" by simp
  have "calm wit_env" by (simp add: calm_def wit_env_def)
  from run_events_end_to_end [OF wit_writable wit_length c this, of wit_provider "''r''" 0 "[]"]
  have "subscribe_run wit_provider wit_env ''r'' False
      (Inr (event_reply (Some ''text/event-stream; charset=utf-8'')
        [(False, RValue (take 3 (wire_stream wit_events))), (False, RValue (drop 3 (wire_stream wit_events))), (False, RDone)]))
      0 []
    = SoRequest (''h'' @ api_run_events ''r'') (provider_headers wit_provider ''r'' PhaseEvents ''text/event-stream'')
      # map SoEvent wit_events @ [SoComplete]"
    by (simp add: wit_provider_def)
  moreover have "api_run_events ''r'' = ''/v1/runs/r/events''" by code_simp
  moreover have "provider_headers wit_provider ''r'' PhaseEvents ''text/event-stream''
      = [(''Accept'', ''text/event-stream''), (''X-Portal-Client-Id'', ''c'')]"
    by (simp add: provider_headers_def wit_provider_def mergeHeaders_into_def)
  ultimately show ?thesis by simp
qed

section \<open>Polling\<close>

fun request_count :: "sub_out list \<Rightarrow> nat" where
  "request_count [] = 0"
| "request_count (SoRequest _ _ # out) = Suc (request_count out)"
| "request_count (_ # out) = request_count out"

fun out_events :: "sub_out list \<Rightarrow> stream_event list" where
  "out_events [] = []"
| "out_events (SoEvent e # out) = e # out_events out"
| "out_events (_ # out) = out_events out"

lemma poll_event_terminal: "poll_event dp r v = Some e \<Longrightarrow> se_terminal e"
  by (auto simp: poll_event_def se_terminal_def Let_def split: if_splits)

lemma poll_reply_terminal: "poll_reply dp r a = Inr (Some e) \<Longrightarrow> se_terminal e"
  by (auto simp: poll_reply_def and_then_Inr split: if_splits dest: poll_event_terminal)

lemma poll_events:
  "case pollUntilTerminal p env r s rounds of (out, e) \<Rightarrow>
     (out_events out = [] \<and> e \<noteq> Finished)
     \<or> (\<exists>ev. out_events out = [ev] \<and> se_terminal ev
           \<and> e = (case rv_onEvent env [ev] of None \<Rightarrow> Finished | Some x \<Rightarrow> Failed x))"
proof (induction rounds)
  case (Cons x rs)
  obtain out e where rec: "pollUntilTerminal p env r s rs = (out, e)" by fastforce
  show ?case
  proof (cases "poll_reply (rv_date_parse env) r (po_reply x)")
    case (Inr o')
    with Cons rec show ?thesis
      by (cases o'; cases "po_wait x") (auto simp: poll_reply_terminal Let_def)
  qed simp
qed simp

text \<open>Polls are spaced by the interval, so the deadline bounds them.\<close>

lemma poll_bound:
  assumes "sp_pollTimeoutMs p = Fin t" and "0 < d"
    and "\<And>i. i < length rounds \<Longrightarrow> s + of_nat (k + i) * d \<le> po_now (rounds ! i)"
  shows "case pollUntilTerminal p env r s rounds of (out, e) \<Rightarrow>
     (2 \<le> request_count out \<longrightarrow> of_nat (k + request_count out - 2) * d \<le> t)
     \<and> (e = Waiting \<longrightarrow> rounds = [] \<or> of_nat (k + length rounds - 1) * d \<le> t)"
  using assms
proof (induction rounds arbitrary: k)
  case (Cons x rs)
  obtain out e where rec: "pollUntilTerminal p env r s rs = (out, e)" by fastforce
  have "s + of_nat (Suc k + i) * d \<le> po_now (rs ! i)" if "i < length rs" for i
    using Cons.prems(3) [of "Suc i"] that by (simp add: algebra_simps)
  from Cons.IH [OF Cons.prems(1,2) this] have ih:
    "2 \<le> request_count out \<longrightarrow> of_nat (k + request_count out - 1) * d \<le> t"
    "e = Waiting \<longrightarrow> rs = [] \<or> of_nat (k + length rs) * d \<le> t" by (simp_all add: rec)
  have now: "of_nat k * d \<le> po_now x - s" using Cons.prems(3) [of 0] by simp
  show ?case
  proof (cases "poll_reply (rv_date_parse env) r (po_reply x) = Inr None \<and> \<not> po_aborted x
      \<and> po_now x - s \<le> t \<and> po_wait x = None")
    case True
    then have k: "of_nat k * d \<le> t" using now by simp
    have "request_count out = 0 \<or> request_count out = 1 \<or> 2 \<le> request_count out" by linarith
    then show ?thesis
    proof (elim disjE)
      assume "request_count out = 1"
      with True rec ih k Cons.prems(1) show ?thesis by (auto simp: not_less)
    qed (use True rec ih k Cons.prems(1) in \<open>auto simp: not_less\<close>)
  next
    case False
    then show ?thesis using Cons.prems(1)
      by (auto simp: rec not_less Let_def split: sum.splits option.splits)
  qed
qed simp

text \<open>C15: Polling ends, in time and with one answer. When the clock advances by at least \<open>d\<close> between polls, a
  run that never reports a terminal status is polled at most \<open>timeout / d + 2\<close> times and then given up;
  whatever the answers, the consumer is handed at most one event, a terminal one, and the poll succeeds
  exactly when that event was handed over and accepted.\<close>

theorem run_poll_outcome:
  assumes "sp_pollTimeoutMs p = Fin t" and "0 < d"
    and "list_all (\<lambda>i. startedAt + of_nat i * d \<le> po_now (rounds ! i)) [0..<length rounds]"
  shows "case pollUntilTerminal p env runId startedAt rounds of (out, e) \<Rightarrow>
     (if 2 \<le> request_count out then of_nat (request_count out - 2) * d \<le> t else True)
     \<and> (if rounds \<noteq> [] \<and> t < of_nat (length rounds - 1) * d then e \<noteq> Waiting else True)
     \<and> (if e = Finished then \<exists>ev. out_events out = [ev] \<and> se_terminal ev \<and> rv_onEvent env [ev] = None
        else out_events out = [] \<or> (\<exists>ev x. out_events out = [ev] \<and> rv_onEvent env [ev] = Some x \<and> e = Failed x))"
proof -
  have "\<And>i. i < length rounds \<Longrightarrow> startedAt + of_nat (0 + i) * d \<le> po_now (rounds ! i)"
    using assms(3) by (simp add: list_all_iff)
  from poll_bound [where r = runId and env = env, OF assms(1,2) this]
    poll_events [where p = p and env = env and r = runId and s = startedAt and rounds = rounds]
  show ?thesis by (auto split: prod.splits option.splits)
qed

definition wit_round :: "rat \<Rightarrow> poll_round" where
  "wit_round t = \<lparr>po_aborted = False, po_reply = Inr \<lparr>rp_status = 200, rp_text = Inr [], rp_contentType = None\<rparr>,
     po_now = t, po_wait = None\<rparr>"

theorem run_poll_outcome_witness:
  "snd (pollUntilTerminal wit_provider wit_env ''r'' 0 [wit_round 0, wit_round 10, wit_round 20]) \<noteq> Waiting"
  using run_poll_outcome [where p = wit_provider and t = 15 and d = 10 and startedAt = 0
      and rounds = "[wit_round 0, wit_round 10, wit_round 20]" and env = wit_env and runId = "''r''"]
  by (auto simp: wit_provider_def wit_round_def num_def numeral_2_eq_2 split: prod.splits)

section \<open>The subscription\<close>

definition is_call :: "sub_out \<Rightarrow> bool" where
  "is_call x = (case x of SoComplete \<Rightarrow> True | SoError _ \<Rightarrow> True | _ \<Rightarrow> False)"

lemma poll_no_calls: "list_all (\<lambda>x. \<not> is_call x) (fst (pollUntilTerminal p env r s rounds))"
proof (induction rounds)
  case (Cons x rs)
  then show ?case
    by (auto simp: is_call_def Let_def split: sum.splits option.splits prod.splits)
qed simp

lemma stream_no_calls: "list_all (\<lambda>x. \<not> is_call x) (fst (streamEvents p env r a s rounds))"
proof -
  obtain out e where poll: "pollUntilTerminal p env r s rounds = (out, e)" by fastforce
  have "list_all (\<lambda>x. \<not> is_call x) (map SoEvent es)" for es by (induction es) (simp_all add: is_call_def)
  with poll_no_calls [of p env r s rounds] show ?thesis
    by (auto simp: streamEvents_def poll Let_def is_call_def split: sum.split option.split prod.split)
qed

text \<open>C13: A subscription settles once. Whatever the server, the signal and the handlers do, the consumer's
  \<open>onComplete\<close> and \<open>onError\<close> come after every event, there is exactly one such call when the stream has
  ended and none while it waits, and none once the subscription is disposed; only a consumer whose
  \<open>onComplete\<close> throws is called twice.\<close>

theorem subscription_settles_once:
  "let out = subscribe_run p env runId disposed answer startedAt rounds;
       calls = filter is_call out;
       e = snd (streamEvents p env runId answer startedAt rounds)
   in out = filter (\<lambda>x. \<not> is_call x) out @ calls
      \<and> (if disposed \<or> e = Waiting then calls = []
         else if e = Finished \<and> rv_onComplete env \<noteq> None then hd calls = SoComplete \<and> length calls \<le> 2
         else calls = [case e of Failed x \<Rightarrow> SoError x | _ \<Rightarrow> SoComplete])"
proof -
  obtain out e where s: "streamEvents p env runId answer startedAt rounds = (out, e)" by fastforce
  have n: "list_all (\<lambda>x. \<not> is_call x) out" using stream_no_calls [of p env runId answer startedAt rounds] s by simp
  have c: "list_all is_call (stream_over env disposed e)"
    by (simp add: stream_over_def is_call_def split: consume_end.split option.split)
  have "filter is_call out = []" "filter (\<lambda>x. \<not> is_call x) out = out"
    "filter is_call (stream_over env disposed e) = stream_over env disposed e"
    "filter (\<lambda>x. \<not> is_call x) (stream_over env disposed e) = []"
    using n c by (simp_all add: filter_empty_conv filter_id_conv list_all_iff)
  then have f: "subscribe_run p env runId disposed answer startedAt rounds = out @ stream_over env disposed e"
    "filter is_call (out @ stream_over env disposed e) = stream_over env disposed e"
    "filter (\<lambda>x. \<not> is_call x) (out @ stream_over env disposed e) = out"
    by (simp_all add: subscribe_run_def s)
  have "if disposed \<or> e = Waiting then stream_over env disposed e = []
      else if e = Finished \<and> rv_onComplete env \<noteq> None
      then hd (stream_over env disposed e) = SoComplete \<and> length (stream_over env disposed e) \<le> 2
      else stream_over env disposed e = [case e of Failed x \<Rightarrow> SoError x | _ \<Rightarrow> SoComplete]"
    by (simp add: stream_over_def split: consume_end.split option.split)
  then show ?thesis unfolding Let_def s snd_conv f(1) f(2,3) by blast
qed

section \<open>Corner cases\<close>

text \<open>A retryable code does not keep a failure retryable: the message decides.\<close>

lemma retryable_code_ignored:
  "normalizeGatewayStreamFailure (UErr (mk_error CGatewayRpcError ''GatewayRpcError'' ''closed (id 401)'' None (Some ''socket_closed'') None []))
     = \<lparr>sf_state = StError, sf_message = Some ''closed (id 401)'', sf_retryable = False\<rparr>"
proof -
  have t: "trim ''socket_closed'' = ''socket_closed''" by (rule trim_graph) (simp_all add: graph_char_def)
  have "isAuthLikeStreamError ''closed (id 401)''" by code_simp
  moreover have "to_lower ''socket_closed'' = ''socket_closed''" by code_simp
  ultimately show ?thesis
    by (simp add: normalizeGatewayStreamFailure_def falsy_def toError_def is_gateway_rpc_error_def
        isTerminalGatewayRpcError_def isTerminalStreamErrorMessage_def rpc_code_def str_prop_def mk_error_def
        err_prop_def TERMINAL_GATEWAY_RPC_CODES_def t)
qed

text \<open>The signal of the caller, aborted, ends an event stream as if it had completed.\<close>

lemma aborted_stream_completes:
  "subscribe_run p (env\<lparr>rv_aborted := True, rv_onComplete := None\<rparr>) r False (Inr (event_reply (Some ''text/event-stream'') reads)) s rounds
     = [SoRequest (sp_httpBase p @ sp_runEvents p r) (provider_headers p r PhaseEvents ''text/event-stream''), SoComplete]"
proof -
  have "isSseContentType (Some ''text/event-stream'')" by code_simp
  moreover have "resolveMaxBufferBytes None = Inr DEFAULT_MAX_SSE_BUFFER_BYTES"
    by (simp add: resolveMaxBufferBytes_def validateLimit_def DEFAULT_MAX_SSE_BUFFER_BYTES_def num_def
        is_safe_integer_def max_safe_def is_int_rat_def)
  ultimately show ?thesis
    by (simp add: subscribe_run_def streamEvents_def event_reply_def reply_ok_def http_reply.truncate_def or_else_def
        stream_over_def consumeSseStream_def consumer_new_def consume_trailing_def events_of_def)
qed

text \<open>An unfinished tool call reads as completed.\<close>

lemma incomplete_is_completed:
  "normalizeToolStatus (Some ''incomplete'') e = ToolCompleted" "normalizeToolStatus (Some ''unsuccessful'') e = ToolCompleted"
proof -
  have "str_includes (to_lower ''incomplete'') ''complete''" "\<not> str_includes (to_lower ''incomplete'') ''fail''"
    "\<not> str_includes (to_lower ''incomplete'') ''error''" by code_simp+
  then show "normalizeToolStatus (Some ''incomplete'') e = ToolCompleted" by (simp add: normalizeToolStatus_def)
  have "str_includes (to_lower ''unsuccessful'') ''success''" "\<not> str_includes (to_lower ''unsuccessful'') ''fail''"
    "\<not> str_includes (to_lower ''unsuccessful'') ''error''" by code_simp+
  then show "normalizeToolStatus (Some ''unsuccessful'') e = ToolCompleted" by (simp add: normalizeToolStatus_def)
qed

text \<open>A header in another case does not replace the provider's: both are sent.\<close>

lemma provider_headers_case:
  "provider_headers (wit_provider\<lparr>sp_headers := [(''accept'', Some ''x'')]\<rparr>) r PhasePoll ''application/json''
     = [(''Accept'', ''application/json''), (''X-Portal-Client-Id'', ''c''), (''accept'', ''x'')]"
proof -
  have "trim ''accept'' = ''accept''" by (rule trim_graph) (simp_all add: graph_char_def)
  then show ?thesis
    by (simp add: provider_headers_def wit_provider_def mergeHeaders_into_def merge_header_def Let_def)
qed

end
