(* ===== verification/RunCompose.thy ===== *)
theory RunCompose
  imports RunEvents
begin

text \<open>
  Putting run-event providers together: \<open>src/core/gateway/run/event-stream.ts\<close>. The provider that polls a
  run's preview for tool calls, the fan-out of one subscription to several providers, and the wrapper that
  consults a fallback provider when the primary one has shown no tool call. What providers, snapshots and
  handlers answer are arguments; the wrapper is a state machine over the calls it receives, for a consumer
  whose \<open>onError\<close> and \<open>onComplete\<close> do not throw.
\<close>

section \<open>Polling the preview of a run\<close>

record preview_item =
  pv_role :: "string option"
  pv_text :: string
  pv_at :: "jnum option"
  pv_eventType :: "string option"
  pv_toolName :: "string option"
  pv_durationMs :: "jnum option"
  pv_error :: "string option"

definition isToolItem :: "preview_item \<Rightarrow> bool" where
  "isToolItem item =
     (if map_option (\<lambda>s. to_lower (trim s)) (pv_eventType item) = Some ''tool'' then True
      else if (case pv_toolName item of Some n \<Rightarrow> n \<noteq> [] \<and> 0 < length (trim n) | None \<Rightarrow> False) then True
      else str_includes (case pv_role item of Some r \<Rightarrow> to_lower (trim r) | None \<Rightarrow> []) ''tool'')"

text \<open>\<open>/^([a-zA-Z][a-zA-Z0-9_-]{1,40})[:(\s]/\<close>: no character of the name can end it.\<close>

definition ascii_letter :: "char \<Rightarrow> bool" where
  "ascii_letter c = (let n = of_char c :: nat in (65 \<le> n \<and> n \<le> 90) \<or> (97 \<le> n \<and> n \<le> 122))"

definition name_char :: "char \<Rightarrow> bool" where
  "name_char c = (ascii_letter c \<or> is_digit c \<or> c = CHR ''_'' \<or> c = CHR ''-'')"

definition deriveToolNameFromText :: "string \<Rightarrow> string option" where
  "deriveToolNameFromText s =
     (case s of
        [] \<Rightarrow> None
      | c # cs \<Rightarrow>
          let more = takeWhile name_char cs; after = dropWhile name_char cs in
          if ascii_letter c \<and> 1 \<le> length more \<and> length more \<le> 40
            \<and> list_ex (\<lambda>w. prefix w after) ([CHR '':''] # [CHR ''('' ] # ws_encodings)
          then Some (c # more) else None)"

definition blank_to_none :: "string option \<Rightarrow> string option" where
  "blank_to_none x = (case x of Some s \<Rightarrow> if trim s \<noteq> [] then Some (trim s) else None | None \<Rightarrow> None)"

definition previewItemToToolEvent :: "rat \<Rightarrow> string \<Rightarrow> preview_item \<Rightarrow> stream_event option" where
  "previewItemToToolEvent now runId item =
     (let name = map_option trim (pv_toolName item);
          body = trim (pv_text item);
          failed = (case pv_error item of Some e \<Rightarrow> e \<noteq> [] | None \<Rightarrow> False)
      in if or_else name [] = [] \<and> body = [] then None
         else Some (SeTool (if failed then ToolCallFailed else ToolCallCompleted) runId
           \<lparr>tl_id = runId @ '':'' @ or_else name ''tool'' @ '':'' @ number_text (or_else (pv_at item) (Fin now)),
            tl_name = (case name of Some n \<Rightarrow> n | None \<Rightarrow> or_else (deriveToolNameFromText body) ''tool''),
            tl_status = (if failed then ToolFailed else ToolCompleted),
            tl_output = (if body \<noteq> [] then Some body else None),
            tl_event = blank_to_none (pv_eventType item),
            tl_input = None,
            tl_error = blank_to_none (pv_error item),
            tl_durationMs = (case pv_durationMs item of
               Some (Fin d) \<Rightarrow> if d > 0 then Some (Fin d) else None | _ \<Rightarrow> None),
            tl_at = pv_at item\<rparr> (pv_at item)))"

text \<open>The key is a text; it is compared by its UTF-16 units, of which the item's text gives the first 64.\<close>

definition preview_key :: "preview_item \<Rightarrow> nat list" where
  "preview_key item =
     utf16_units (or_else (pv_toolName item) [] @ ''#'' @ (case pv_at item of Some x \<Rightarrow> number_text x | None \<Rightarrow> ''na'') @ ''#'')
     @ take 64 (utf16_units (pv_text item))"










section \<open>Fanning out\<close>

text \<open>\<open>Promise.all\<close> of the subscriptions, in the order in which they settle: the first rejection is the
  composite's, and the other subscriptions go on.\<close>

definition compose_subscribe :: "(unknown + nat) list \<Rightarrow> unknown + nat list" where
  "compose_subscribe answers =
     (case find (\<lambda>a. case a of Inl _ \<Rightarrow> True | Inr _ \<Rightarrow> False) answers of
        Some (Inl e) \<Rightarrow> Inl e
      | _ \<Rightarrow> Inr (concat (map (\<lambda>a. case a of Inr s \<Rightarrow> [s] | Inl _ \<Rightarrow> []) answers)))"

text \<open>Its \<open>dispose\<close>: whether it has run, and the subscriptions disposed.\<close>

definition compose_dispose :: "nat list \<Rightarrow> bool \<times> nat list \<Rightarrow> bool \<times> nat list" where
  "compose_dispose subs st = (if fst st then st else (True, snd st @ subs))"

section \<open>The fallback for tool calls\<close>

definition se_tool :: "stream_event \<Rightarrow> bool" where
  "se_tool e = (case e of SeTool _ _ _ _ \<Rightarrow> True | _ \<Rightarrow> False)"

definition se_completed :: "stream_event \<Rightarrow> bool" where
  "se_completed e = (case e of SeCompleted _ _ _ _ \<Rightarrow> True | _ \<Rightarrow> False)"

text \<open>\<open>fb_subscribed\<close> counts the calls of the fallback's \<open>subscribe\<close>, \<open>fb_dropped\<close> the subscriptions
  disposed; \<open>fb_sub\<close> is whether one is held.\<close>

record fallback =
  fb_disposed :: bool
  fb_sawTool :: bool
  fb_sub :: bool
  fb_started :: bool
  fb_primaryComplete :: bool
  fb_fallbackComplete :: bool
  fb_completedEmitted :: bool
  fb_subscribed :: nat
  fb_dropped :: nat
  fb_primaryDropped :: bool
  fb_out :: "sub_out list"

definition fallback_new :: fallback where
  "fallback_new = \<lparr>fb_disposed = False, fb_sawTool = False, fb_sub = False, fb_started = False,
     fb_primaryComplete = False, fb_fallbackComplete = False, fb_completedEmitted = False, fb_subscribed = 0,
     fb_dropped = 0, fb_primaryDropped = False, fb_out = []\<rparr>"

definition maybeComplete :: "fallback \<Rightarrow> fallback" where
  "maybeComplete st =
     (if fb_disposed st \<or> fb_completedEmitted st then st
      else
        let fallbackNeeded = (fb_primaryComplete st \<and> \<not> fb_sawTool st \<and> fb_started st) in
        if fb_primaryComplete st \<and> (\<not> fallbackNeeded \<or> fb_fallbackComplete st)
        then st\<lparr>fb_completedEmitted := True, fb_out := fb_out st @ [SoComplete]\<rparr>
        else st)"

text \<open>The calls: by the primary (an event, with whether the consumer's handler throws at it, an error, the
  completion), by the fallback, the settling of the fallback's \<open>subscribe\<close>, and the consumer's \<open>dispose\<close>.\<close>

datatype fallback_call =
    PrimaryEvent stream_event bool
  | PrimaryError unknown
  | PrimaryComplete
  | FallbackEvent stream_event
  | FallbackError unknown
  | FallbackComplete
  | FallbackSubscribed
  | FallbackRejected unknown
  | FallbackDispose

fun fallback_step :: "fallback \<Rightarrow> fallback_call \<Rightarrow> fallback" where
  "fallback_step st (PrimaryEvent ev throws) =
     (let st1 = st\<lparr>fb_out := fb_out st @ [SoEvent ev]\<rparr> in
      if throws then st1
      else
        let st2 = (if se_tool ev then st1\<lparr>fb_sawTool := True\<rparr> else st1);
            st3 = (if se_completed ev \<and> \<not> fb_sawTool st2 \<and> \<not> fb_disposed st2
                   then st2\<lparr>fb_started := True, fb_subscribed := fb_subscribed st2 + 1\<rparr> else st2)
        in if se_terminal ev then st3\<lparr>fb_primaryComplete := True\<rparr> else st3)"
| "fallback_step st (PrimaryError e) = st\<lparr>fb_out := fb_out st @ [SoError e]\<rparr>"
| "fallback_step st PrimaryComplete = maybeComplete (st\<lparr>fb_primaryComplete := True\<rparr>)"
| "fallback_step st (FallbackEvent ev) = st\<lparr>fb_out := fb_out st @ [SoEvent ev]\<rparr>"
| "fallback_step st (FallbackError e) = st\<lparr>fb_out := fb_out st @ [SoError e]\<rparr>"
| "fallback_step st FallbackComplete = maybeComplete (st\<lparr>fb_fallbackComplete := True\<rparr>)"
| "fallback_step st FallbackSubscribed =
     (if fb_disposed st then st\<lparr>fb_dropped := fb_dropped st + 1\<rparr> else maybeComplete (st\<lparr>fb_sub := True\<rparr>))"
| "fallback_step st (FallbackRejected e) =
     maybeComplete (st\<lparr>fb_fallbackComplete := True, fb_out := fb_out st @ [SoError e]\<rparr>)"
| "fallback_step st FallbackDispose =
     (if fb_disposed st then st
      else st\<lparr>fb_disposed := True, fb_primaryDropped := True,
              fb_dropped := fb_dropped st + (if fb_sub st then 1 else 0)\<rparr>)"

definition fallback_run :: "fallback_call list \<Rightarrow> fallback" where
  "fallback_run cs = foldl fallback_step fallback_new cs"

section \<open>What a preview shows\<close>

text \<open>The reference: the first tool item of each key, in order.\<close>

fun first_by :: "('a \<Rightarrow> 'k) \<Rightarrow> 'k set \<Rightarrow> 'a list \<Rightarrow> 'a list" where
  "first_by key seen [] = []"
| "first_by key seen (x # xs) =
     (if key x \<in> seen then first_by key seen xs else x # first_by key (insert (key x) seen) xs)"

definition preview_tools :: "preview_item list \<Rightarrow> preview_item list" where
  "preview_tools items = first_by preview_key {} (filter isToolItem items)"







section \<open>The wrapper\<close>

definition completes :: "fallback \<Rightarrow> nat" where
  "completes st = length (filter (\<lambda>x. x = SoComplete) (fb_out st))"

definition fallback_inv :: "fallback \<Rightarrow> bool" where
  "fallback_inv st = (filter (\<lambda>x. x = SoComplete) (fb_out st) = (if fb_completedEmitted st then [SoComplete] else [])
     \<and> (fb_completedEmitted st \<longrightarrow> fb_primaryComplete st) \<and> (fb_disposed st \<longleftrightarrow> fb_primaryDropped st))"

lemma maybeComplete_inv: "fallback_inv st \<Longrightarrow> fallback_inv (maybeComplete st)"
  unfolding maybeComplete_def Let_def by (simp add: fallback_inv_def)

lemma fallback_inv_step:
  assumes "fallback_inv st"
  shows "fallback_inv (fallback_step st c)"
proof (cases c)
  case (PrimaryEvent ev b)
  with assms show ?thesis by (simp add: fallback_inv_def Let_def)
next
  case PrimaryComplete
  show ?thesis unfolding PrimaryComplete fallback_step.simps
    by (rule maybeComplete_inv) (use assms in \<open>simp add: fallback_inv_def\<close>)
next
  case FallbackComplete
  show ?thesis unfolding FallbackComplete fallback_step.simps
    by (rule maybeComplete_inv) (use assms in \<open>simp add: fallback_inv_def\<close>)
next
  case FallbackSubscribed
  have "fallback_inv (maybeComplete (st\<lparr>fb_sub := True\<rparr>))"
    by (rule maybeComplete_inv) (use assms in \<open>simp add: fallback_inv_def\<close>)
  with assms show ?thesis unfolding FallbackSubscribed fallback_step.simps by (simp add: fallback_inv_def)
next
  case (FallbackRejected e)
  show ?thesis unfolding FallbackRejected fallback_step.simps
    by (rule maybeComplete_inv) (use assms in \<open>simp add: fallback_inv_def\<close>)
qed (use assms in \<open>simp_all add: fallback_inv_def\<close>)

lemma fallback_run_inv: "fallback_inv (fallback_run cs)"
proof (induction cs rule: rev_induct)
  case Nil
  then show ?case by (simp add: fallback_run_def fallback_inv_def fallback_new_def completes_def)
next
  case (snoc c cs)
  then show ?case using fallback_inv_step by (simp add: fallback_run_def)
qed

lemma maybeComplete_disposed: "fb_disposed st \<Longrightarrow> maybeComplete st = st"
  by (simp add: maybeComplete_def)

lemma disposed_stays: "fb_disposed st \<Longrightarrow> fb_disposed (fallback_step st c) \<and> completes (fallback_step st c) = completes st
    \<and> fb_primaryDropped (fallback_step st c) = fb_primaryDropped st
    \<and> fb_subscribed (fallback_step st c) = fb_subscribed st"
  by (cases c) (simp_all add: maybeComplete_disposed completes_def Let_def)

lemma disposed_run: "fb_disposed st \<Longrightarrow> completes (foldl fallback_step st cs) = completes st
    \<and> fb_subscribed (foldl fallback_step st cs) = fb_subscribed st"
  by (induction cs arbitrary: st) (simp_all add: disposed_stays)

text \<open>C19: The wrapper completes at most once, only after its primary has ended, and never after it is
  disposed: from then on it neither completes nor consults the fallback, and the primary's subscription is
  disposed with it.\<close>

theorem fallback_completes_once:
  "let st = fallback_run (before @ FallbackDispose # after)
   in completes (fallback_run before) \<le> 1
      \<and> (if completes (fallback_run before) = 1 then fb_primaryComplete (fallback_run before) else True)
      \<and> completes st = completes (fallback_run before) \<and> fb_subscribed st = fb_subscribed (fallback_run before)
      \<and> fb_primaryDropped (fallback_run (before @ [FallbackDispose]))"
proof -
  define st where "st = fallback_step (fallback_run before) FallbackDispose"
  have d: "fb_disposed st" "completes st = completes (fallback_run before)" "fb_subscribed st = fb_subscribed (fallback_run before)"
    by (simp_all add: st_def completes_def)
  have "fallback_run (before @ FallbackDispose # after) = foldl fallback_step st after"
    by (simp add: fallback_run_def st_def)
  moreover have "fallback_inv st" unfolding st_def by (rule fallback_inv_step [OF fallback_run_inv])
  moreover have "fallback_run (before @ [FallbackDispose]) = st" by (simp add: fallback_run_def st_def)
  ultimately show ?thesis
    using d disposed_run [OF d(1), of after] fallback_run_inv [of before]
    by (simp add: fallback_inv_def completes_def Let_def split: if_splits)
qed

text \<open>The calls that neither come from the primary's stream nor dispose.\<close>

definition settled_call :: "fallback_call \<Rightarrow> bool" where
  "settled_call c = (case c of PrimaryEvent _ _ \<Rightarrow> False | FallbackDispose \<Rightarrow> False | _ \<Rightarrow> True)"

text \<open>What the calls say, without the wrapper's flags: the primary has shown a tool call, or the run's completion; the
  fallback has come to its end.\<close>

definition shows_tool :: "fallback_call \<Rightarrow> bool" where
  "shows_tool c = (case c of PrimaryEvent ev throws \<Rightarrow> \<not> throws \<and> se_tool ev | _ \<Rightarrow> False)"

definition shows_completed :: "fallback_call \<Rightarrow> bool" where
  "shows_completed c = (case c of PrimaryEvent ev throws \<Rightarrow> \<not> throws \<and> se_completed ev | _ \<Rightarrow> False)"

definition fallback_ended :: "fallback_call \<Rightarrow> bool" where
  "fallback_ended c = (case c of FallbackComplete \<Rightarrow> True | FallbackRejected _ \<Rightarrow> True | _ \<Rightarrow> False)"

text \<open>The fallback's tool calls are waited for.\<close>

definition fallback_awaited :: "fallback_call list \<Rightarrow> bool" where
  "fallback_awaited cs = (list_ex shows_completed cs \<and> \<not> list_ex shows_tool cs)"

definition fallback_done :: "fallback \<Rightarrow> bool" where
  "fallback_done st = (fb_sawTool st \<or> \<not> fb_started st \<or> fb_fallbackComplete st)"

definition fallback_live :: "fallback \<Rightarrow> bool" where
  "fallback_live st = (\<not> fb_disposed st \<and> fb_primaryComplete st \<and> (fallback_done st \<longrightarrow> fb_completedEmitted st))"

lemma maybeComplete_live: "\<not> fb_disposed st \<Longrightarrow> fb_primaryComplete st \<Longrightarrow> fallback_live (maybeComplete st)"
  unfolding maybeComplete_def Let_def by (simp add: fallback_live_def fallback_done_def)

lemma fallback_live_step:
  assumes "fallback_live st" and "settled_call c"
  shows "fallback_live (fallback_step st c)"
proof -
  have st: "\<not> fb_disposed st" "fb_primaryComplete st" using assms(1) by (simp_all add: fallback_live_def)
  have m: "fallback_live (maybeComplete s)" if "fb_disposed s = fb_disposed st" "fb_primaryComplete s" for s
    using that st by (simp add: maybeComplete_live)
  show ?thesis
    using assms st by (cases c) (simp_all add: m settled_call_def, simp_all add: fallback_live_def fallback_done_def)
qed

lemma not_disposed_run:
  "FallbackDispose \<notin> set cs \<Longrightarrow> \<not> fb_disposed st \<Longrightarrow> \<not> fb_disposed (foldl fallback_step st cs)"
proof (induction cs arbitrary: st)
  case (Cons c cs)
  have "\<not> fb_disposed (maybeComplete s)" if "\<not> fb_disposed s" for s
    using that by (simp add: maybeComplete_def Let_def)
  with Cons show ?case by (cases c) (simp_all add: Let_def)
qed simp

text \<open>The flags are what the calls have said.\<close>

lemma maybeComplete_flags:
  "fb_sawTool (maybeComplete st) = fb_sawTool st" "fb_started (maybeComplete st) = fb_started st"
  "fb_fallbackComplete (maybeComplete st) = fb_fallbackComplete st" "fb_disposed (maybeComplete st) = fb_disposed st"
  "fb_primaryComplete (maybeComplete st) = fb_primaryComplete st"
  by (simp_all add: maybeComplete_def Let_def)

lemma tool_not_completed: "se_tool ev \<Longrightarrow> \<not> se_completed ev"
  by (cases ev) (simp_all add: se_tool_def se_completed_def)

lemma flags_step:
  assumes "c \<noteq> FallbackDispose" and "\<not> fb_disposed st"
  shows "\<not> fb_disposed (fallback_step st c) \<and> fb_sawTool (fallback_step st c) = (fb_sawTool st \<or> shows_tool c)
    \<and> fb_fallbackComplete (fallback_step st c) = (fb_fallbackComplete st \<or> fallback_ended c)
    \<and> fb_started (fallback_step st c) = (fb_started st \<or> shows_completed c \<and> \<not> fb_sawTool st)"
proof (cases c)
  case (PrimaryEvent ev throws)
  then show ?thesis
    using assms(2) tool_not_completed [of ev]
    by (cases throws; cases "se_tool ev"; cases "se_completed ev \<and> \<not> fb_sawTool st")
      (auto simp: shows_tool_def shows_completed_def fallback_ended_def Let_def)
qed (use assms in \<open>simp_all add: maybeComplete_flags shows_tool_def shows_completed_def fallback_ended_def\<close>)

lemma flags_said:
  "FallbackDispose \<notin> set cs \<Longrightarrow>
     \<not> fb_disposed (fallback_run cs) \<and> fb_sawTool (fallback_run cs) = list_ex shows_tool cs
     \<and> fb_fallbackComplete (fallback_run cs) = list_ex fallback_ended cs
     \<and> (\<not> list_ex shows_tool cs \<longrightarrow> fb_started (fallback_run cs) = list_ex shows_completed cs)"
proof (induction cs rule: rev_induct)
  case Nil
  then show ?case by (simp add: fallback_run_def fallback_new_def)
next
  case (snoc c cs)
  have r: "fallback_run (cs @ [c]) = fallback_step (fallback_run cs) c" by (simp add: fallback_run_def)
  show ?case using snoc flags_step [of c "fallback_run cs"] unfolding r by auto
qed

text \<open>Nothing completes a wrapper that waits for its fallback, until the fallback ends.\<close>

lemma fallback_waits_step:
  assumes "fb_primaryComplete st" and "\<not> fb_sawTool st" and "fb_started st" and "\<not> fb_fallbackComplete st"
    and "settled_call c" and "\<not> fallback_ended c"
  shows "completes (fallback_step st c) = completes st \<and> fb_primaryComplete (fallback_step st c)
    \<and> \<not> fb_sawTool (fallback_step st c) \<and> fb_started (fallback_step st c) \<and> \<not> fb_fallbackComplete (fallback_step st c)"
proof -
  have m: "maybeComplete s = s" if "fb_primaryComplete s" "\<not> fb_sawTool s" "fb_started s" "\<not> fb_fallbackComplete s" for s
    using that by (simp add: maybeComplete_def Let_def)
  show ?thesis
    using assms by (cases c) (simp_all add: m settled_call_def fallback_ended_def completes_def)
qed

lemma fallback_waits_run:
  "fb_primaryComplete st \<Longrightarrow> \<not> fb_sawTool st \<Longrightarrow> fb_started st \<Longrightarrow> \<not> fb_fallbackComplete st \<Longrightarrow> list_all settled_call cs
   \<Longrightarrow> \<not> list_ex fallback_ended cs \<Longrightarrow> completes (foldl fallback_step st cs) = completes st"
  by (induction cs arbitrary: st) (simp_all add: fallback_waits_step)

text \<open>C12: A wrapped run completes when it should. Once the primary has completed, a wrapper that is not disposed has
  completed, exactly once, unless the fallback is awaited, because the primary has shown the run's completion and no tool
  call; then it has completed as soon as the fallback has completed or could not be subscribed to, and not before.
  This holds whatever the order in which the calls arrive.\<close>

theorem fallback_completes:
  assumes "FallbackDispose \<notin> set before" and "list_all settled_call later"
  shows "completes (fallback_run (before @ PrimaryComplete # later))
    = (if fallback_awaited before \<and> \<not> list_ex fallback_ended (before @ later) then completes (fallback_run before) else 1)"
proof -
  define st where "st = fallback_run (before @ PrimaryComplete # later)"
  let ?cs = "before @ PrimaryComplete # later"
  have d: "FallbackDispose \<notin> set ?cs" using assms by (auto simp: list_all_iff settled_call_def)
  note said = flags_said [OF assms(1)]
  have l: "fallback_live (fallback_step (fallback_run before) PrimaryComplete)"
    using said by (simp add: maybeComplete_live)
  have "fallback_live (foldl fallback_step s later)" if "fallback_live s" for s
    using assms(2) that by (induction later arbitrary: s) (simp_all add: fallback_live_step)
  from this [OF l] have live: "fallback_live st" by (simp add: st_def fallback_run_def)
  have inv: "fallback_inv st" unfolding st_def by (rule fallback_run_inv)
  have quiet: "\<not> list_ex shows_tool later" "\<not> list_ex shows_completed later"
    using assms(2) by (auto simp: list_all_iff list_ex_iff settled_call_def shows_tool_def shows_completed_def split: fallback_call.splits)
  have flags: "fb_sawTool st = list_ex shows_tool before" "fb_fallbackComplete st = list_ex fallback_ended (before @ later)"
    "\<not> list_ex shows_tool before \<longrightarrow> fb_started st = list_ex shows_completed before"
    using flags_said [OF d] quiet by (simp_all add: st_def shows_tool_def shows_completed_def fallback_ended_def)
  show ?thesis
  proof (cases "fallback_awaited before \<and> \<not> list_ex fallback_ended (before @ later)")
    case True
    let ?s = "fallback_step (fallback_run before) PrimaryComplete"
    have f: "\<not> fb_sawTool (fallback_run before)" "fb_started (fallback_run before)" "\<not> fb_fallbackComplete (fallback_run before)"
      using True said by (auto simp: fallback_awaited_def)
    have "completes ?s = completes (fallback_run before)" using f by (simp add: maybeComplete_def completes_def)
    moreover have "completes (foldl fallback_step ?s later) = completes ?s"
      by (rule fallback_waits_run) (use f True assms(2) in \<open>simp_all add: maybeComplete_flags\<close>)
    ultimately show ?thesis using True by (simp add: fallback_run_def)
  next
    case False
    then have "fallback_done st" using flags by (auto simp: fallback_done_def fallback_awaited_def)
    then have "completes st = 1" using live inv by (simp add: fallback_live_def fallback_inv_def completes_def)
    then show ?thesis unfolding if_not_P [OF False] st_def .
  qed
qed

theorem fallback_completes_witness:
  "completes (fallback_run [PrimaryEvent (SeCompleted ''r'' None None None) False, PrimaryComplete, FallbackRejected (UVal JNull)]) = 1
   \<and> completes (fallback_run [PrimaryEvent (SeCompleted ''r'' None None None) False, PrimaryComplete, FallbackSubscribed]) = 0"
  using fallback_completes [of "[PrimaryEvent (SeCompleted ''r'' None None None) False]" "[FallbackRejected (UVal JNull)]"]
    fallback_completes [of "[PrimaryEvent (SeCompleted ''r'' None None None) False]" "[FallbackSubscribed]"]
  by (simp add: settled_call_def fallback_awaited_def shows_completed_def shows_tool_def fallback_ended_def se_tool_def se_completed_def
      completes_def fallback_run_def fallback_new_def se_terminal_def Let_def)

section \<open>Stitching the tool calls in\<close>















section \<open>Corner cases\<close>

text \<open>The comment of \<open>RunPreviewPollProvider\<close> promises to dedupe by tool name and time, so that a tool call is never shown
  twice. The key has the item's text too: a call whose text has changed between two snapshots is shown again.\<close>

lemma changed_text_shown_again:
  assumes "pv_toolName i = pv_toolName j" and "pv_at i = pv_at j" and "isToolItem i" and "isToolItem j"
    and "take 64 (utf16_units (pv_text i)) \<noteq> take 64 (utf16_units (pv_text j))"
  shows "preview_tools [i, j] = [i, j]"
  using assms by (simp add: preview_tools_def preview_key_def)

lemma utf16_ascii: "list_all (\<lambda>c. (of_char c :: nat) < 128) s \<Longrightarrow> utf16_units s = map of_char s"
proof (induction s)
  case (Cons c s)
  then have "utf16_chars (c # s) = [c] # utf16_chars s" by (simp add: utf16_chars.simps [of "c # s"] utf8_width_def)
  with Cons show ?case by (simp add: utf16_units_def code_point_def code_units_def)
qed (simp add: utf16_units_def utf16_chars.simps)

definition polled_item :: "string \<Rightarrow> preview_item" where
  "polled_item t = \<lparr>pv_role = None, pv_text = t, pv_at = Some (num 1), pv_eventType = None, pv_toolName = Some ''grep'',
     pv_durationMs = None, pv_error = None\<rparr>"

lemma changed_text_reached: "preview_tools [polled_item ''run'', polled_item ''done''] = [polled_item ''run'', polled_item ''done'']"
proof (rule changed_text_shown_again)
  show "isToolItem (polled_item ''run'')" "isToolItem (polled_item ''done'')"
    by (simp_all add: isToolItem_def polled_item_def trim_graph graph_char_def)
  show "take 64 (utf16_units (pv_text (polled_item ''run''))) \<noteq> take 64 (utf16_units (pv_text (polled_item ''done'')))"
    by (simp add: polled_item_def utf16_ascii)
qed (simp_all add: polled_item_def)

text \<open>A fallback that fails after it was subscribed to leaves the wrapper without a completion, as
  \<open>RunPreviewPollProvider\<close> does when its snapshot cannot be fetched.\<close>

lemma fallback_error_hangs:
  "completes (fallback_run [PrimaryEvent (SeCompleted r x u t) False, FallbackSubscribed, PrimaryComplete, FallbackError e]) = 0"
  by (simp add: completes_def fallback_run_def fallback_new_def maybeComplete_def se_tool_def se_completed_def
      se_terminal_def Let_def)

text \<open>A second completed event starts a second fallback.\<close>

lemma fallback_started_twice:
  "fb_subscribed (fallback_run [PrimaryEvent (SeCompleted r x u t) False, PrimaryEvent (SeCompleted r x u t) False]) = 2"
  by (simp add: fallback_run_def fallback_new_def se_tool_def se_completed_def se_terminal_def Let_def)

text \<open>A failing provider rejects the composite, whose other subscriptions are never handed to anyone.\<close>

lemma compose_loses_subscriptions: "compose_subscribe [Inr s, Inl e] = Inl e"
  by (simp add: compose_subscribe_def)

text \<open>A blank tool name names a tool call.\<close>

lemma blank_tool_name:
  assumes "trim n = []" and "trim (pv_text item) \<noteq> []" and "pv_toolName item = Some n"
  shows "\<exists>v c t. previewItemToToolEvent now r item = Some (SeTool v r c t) \<and> tl_name c = []"
  using assms by (simp add: previewItemToToolEvent_def or_else_def Let_def)

end

