(* ===== verification/ChatRun.thy ===== *)
theory ChatRun
  imports RunCompose
begin

text \<open>
  Chat runs of the Hermes provider: \<open>src/providers/hermes/chat-run.ts\<close> (route source and metadata, the start
  of a run, its approvals, and the promise of a streamed run), \<open>src/providers/hermes/sse-run-event-provider.ts\<close>
  and the request side of \<open>src/core/http/raw-client.ts\<close>. Free-form records are data values in the order of their
  members. A file's bytes and the platform's answers are arguments.
\<close>

section \<open>Route source and metadata\<close>

definition isDict :: "jv \<Rightarrow> bool" where
  "isDict v = (truthy v \<and> is_js_object v)"

definition cleanOptionalString :: "string option \<Rightarrow> string option" where
  "cleanOptionalString v = (case v of None \<Rightarrow> None | Some s \<Rightarrow> if trim s = [] then None else Some (trim s))"

definition deriveThreadIdFromSessionKey :: "string \<Rightarrow> string option" where
  "deriveThreadIdFromSessionKey sessionKey = cleanOptionalString (Some (last (split_char (CHR '':'') sessionKey)))"

record route_channel =
  rh_default :: "string option"
  rh_overrides :: "(string, string) omap"

definition deriveRouteSourceChannelId :: "string option \<Rightarrow> string option \<Rightarrow> route_channel option \<Rightarrow> string option" where
  "deriveRouteSourceChannelId profile agent channel =
     (let targetProfile = cleanOptionalString profile; targetAgent = cleanOptionalString agent in
      if targetProfile \<noteq> None \<and> targetProfile \<noteq> Some ''default'' then targetProfile
      else
        let override = (case targetAgent of
              Some a \<Rightarrow> cleanOptionalString (Option.bind channel (\<lambda>c. om_get (rh_overrides c) a)) | None \<Rightarrow> None);
            fallback' = (case targetProfile of Some p \<Rightarrow> Some p | None \<Rightarrow> targetAgent)
        in if targetProfile = Some ''default'' \<and> override \<noteq> None then override
           else if targetProfile = Some ''default'' \<and> targetAgent = None
             \<and> (case Option.bind channel rh_default of Some d \<Rightarrow> d \<noteq> [] | None \<Rightarrow> False)
           then cleanOptionalString (Option.bind channel rh_default)
           else fallback')"

definition binding_key :: "string \<Rightarrow> bool" where
  "binding_key k = (k = ''binding'' \<or> k = ''routeBinding'')"

definition sanitizeHermesRouteMetadata :: "(string, jv) omap option \<Rightarrow> (string, jv) omap option" where
  "sanitizeHermesRouteMetadata metadata =
     (case metadata of
        None \<Rightarrow> None
      | Some m \<Rightarrow>
          let out = filter (\<lambda>p. \<not> (binding_key (fst p) \<and> isDict (snd p))) m in
          if out = [] then None else Some out)"

definition sanitizeHermesRouteSource :: "(string, jv) omap option \<Rightarrow> (string, jv) omap option" where
  "sanitizeHermesRouteSource source =
     (case source of
        None \<Rightarrow> None
      | Some m \<Rightarrow> let out = filter (\<lambda>p. snd p \<noteq> JUndef) m in if out = [] then None else Some out)"

definition opt_text :: "string option \<Rightarrow> jv" where
  "opt_text v = (case v of Some s \<Rightarrow> JStr s | None \<Rightarrow> JUndef)"

text \<open>\<open>{ ...a, ...b }\<close>.\<close>

definition spread :: "(string, jv) omap \<Rightarrow> (string, jv) omap \<Rightarrow> (string, jv) omap" where
  "spread a b = foldl (\<lambda>m p. om_set (fst p) (snd p) m) a b"

record chat_params =
  ct_httpBase :: string
  ct_authToken :: string
  ct_clientId :: string
  ct_headers :: "(string, string) omap"
  ct_input :: string
  ct_sessionId :: string
  ct_sessionKey :: "string option"
  ct_targetProfile :: "string option"
  ct_targetAgent :: "string option"
  ct_action :: "string option"
  ct_harness :: "string option"
  ct_source :: "(string, jv) omap option"
  ct_routeChannel :: "route_channel option"
  ct_metadata :: "(string, jv) omap option"
  ct_attachments :: "jv list"

definition resolveHermesRouteSource :: "chat_params \<Rightarrow> string \<Rightarrow> (string, jv) omap option" where
  "resolveHermesRouteSource ps sessionKey =
     (let explicit = sanitizeHermesRouteSource (ct_source ps) in
      case cleanOptionalString (ct_harness ps) of
        None \<Rightarrow> explicit
      | Some harness \<Rightarrow>
          let generated = sanitizeHermesRouteSource (Some
                [(''platform'', JStr ''mobile_app''), (''app_env'', JStr (ct_clientId ps)),
                 (''channel_id'', opt_text (deriveRouteSourceChannelId (ct_targetProfile ps) (ct_targetAgent ps) (ct_routeChannel ps))),
                 (''conversation_id'', JStr sessionKey),
                 (''thread_id'', opt_text (deriveThreadIdFromSessionKey sessionKey)),
                 (''gateway_implementation'', JStr harness)])
          in sanitizeHermesRouteSource (Some (spread (or_else generated []) (or_else explicit []))))"

section \<open>Starting a run\<close>

text \<open>An attachment: its name, its type, its size and its base64 text.\<close>

definition serializeAttachment :: "jv \<Rightarrow> jv" where
  "serializeAttachment a =
     JObj [(''name'', get_prop a ''name''), (''mime_type'', get_prop a ''mimeType''), (''mimeType'', get_prop a ''mimeType''),
       (''size'', get_prop a ''size''), (''data_base64'', get_prop a ''dataBase64''), (''dataBase64'', get_prop a ''dataBase64'')]"

definition addOptionalRunField :: "string \<Rightarrow> string option \<Rightarrow> (string, jv) omap \<Rightarrow> (string, jv) omap" where
  "addOptionalRunField k v body =
     (case cleanOptionalString v of Some s \<Rightarrow> om_set k (JStr s) body | None \<Rightarrow> body)"

definition session_key :: "chat_params \<Rightarrow> string" where
  "session_key ps = (case cleanOptionalString (ct_sessionKey ps) of Some k \<Rightarrow> k | None \<Rightarrow> ct_sessionId ps)"

definition run_body :: "chat_params \<Rightarrow> (string, jv) omap" where
  "run_body ps =
     (let sessionKey = session_key ps;
          b0 = [(''input'', JStr (ct_input ps)), (''session_id'', JStr (ct_sessionId ps)),
                (''sessionKey'', JStr sessionKey), (''session_key'', JStr sessionKey)];
          b1 = addOptionalRunField ''action'' (ct_action ps)
                 (addOptionalRunField ''target_agent'' (ct_targetAgent ps)
                   (addOptionalRunField ''targetAgent'' (ct_targetAgent ps)
                     (addOptionalRunField ''target_profile'' (ct_targetProfile ps)
                       (addOptionalRunField ''targetProfile'' (ct_targetProfile ps) b0))));
          b2 = (case resolveHermesRouteSource ps sessionKey of Some s \<Rightarrow> om_set ''source'' (JObj s) b1 | None \<Rightarrow> b1);
          b3 = (case sanitizeHermesRouteMetadata (ct_metadata ps) of Some m \<Rightarrow> om_set ''metadata'' (JObj m) b2 | None \<Rightarrow> b2)
      in if ct_attachments ps \<noteq> [] then om_set ''attachments'' (JArr (map serializeAttachment (ct_attachments ps))) b3 else b3)"

definition createHermesChatRunHttpClient :: "chat_params \<Rightarrow> unknown + http_client" where
  "createHermesChatRunHttpClient ps =
     BaseHttpApiClient ''hermes-chat-run''
       \<lparr>co_baseUrl = ct_httpBase ps, co_basePath = None, co_allowRelative = True, co_bearerToken = Some (ct_authToken ps),
        co_clientId = Some (ct_clientId ps), co_resolves = False, co_portalHeader = None, co_defaultHeaders = ct_headers ps\<rparr>"

definition parseJsonResponse :: "string \<Rightarrow> http_reply \<Rightarrow> unknown + jv" where
  "parseJsonResponse what r =
     and_then (rp_text r) (\<lambda>t.
       if trim t = [] then Inr (JObj [])
       else (case json_parse t of
               Some v \<Rightarrow> Inr v
             | None \<Rightarrow> Inl (UErr (invalidJsonError THttp (what @ '' returned invalid JSON'')))))"

definition run_init :: "chat_params \<Rightarrow> request_init" where
  "run_init ps = \<lparr>ri_method = Some POST, ri_body = Some (JObj (run_body ps)), ri_rawBody = None,
     ri_headers = [(''X-Hermes-Session-Key'', session_key ps)], ri_idempotencyKey = None\<rparr>"

definition started_run :: "jv \<Rightarrow> unknown + string" where
  "started_run payload =
     (case (if isDict payload then get_prop payload ''run_id'' else JUndef) of
        JStr (c # s) \<Rightarrow> Inr (c # s)
      | _ \<Rightarrow> Inl (UErr (protocolError THttp ''run start missing run_id'')))"

definition startHermesChatRun :: "chat_params \<Rightarrow> exchange \<Rightarrow> unknown + string" where
  "startHermesChatRun ps ex =
     and_then (createHermesChatRunHttpClient ps) (\<lambda>hc.
     and_then (snd (requestWithResponse hc (run_init ps) ''/v1/runs'' ex (parseJsonResponse ''run start''))) started_run)"

definition approval_init :: "(string, string) omap \<Rightarrow> string option \<Rightarrow> approval_choice \<Rightarrow> request_init" where
  "approval_init headers sessionKey choice =
     \<lparr>ri_method = Some POST, ri_body = Some (JObj [(''choice'', JStr (choice_text choice))]), ri_rawBody = None,
      ri_headers = (case cleanOptionalString sessionKey of
         Some k \<Rightarrow> om_set ''X-Hermes-Session-Key'' k headers | None \<Rightarrow> headers),
      ri_idempotencyKey = None\<rparr>"

definition api_run_approval :: "string \<Rightarrow> string" where
  "api_run_approval runId = ''/v1/runs/'' @ encodeURIComponent runId @ ''/approval''"

text \<open>The reader disposes of the body, and no failure of that counts.\<close>

definition resolveHermesChatRunApproval ::
  "chat_params \<Rightarrow> string \<Rightarrow> approval_choice \<Rightarrow> exchange \<Rightarrow> unknown + unit" where
  "resolveHermesChatRunApproval ps runId choice ex =
     and_then (createHermesChatRunHttpClient ps) (\<lambda>hc.
       snd (requestWithResponse hc (approval_init (ct_headers ps) (ct_sessionKey ps) choice) (api_run_approval runId) ex
              (\<lambda>_. Inr ())))"

section \<open>The provider\<close>

text \<open>Its resolved headers end with the session key.\<close>

definition HermesSseRunEventProvider :: "sse_provider_options \<Rightarrow> string \<Rightarrow> unknown + sse_provider" where
  "HermesSseRunEventProvider o' key =
     (let sessionKey = trim key in
      if sessionKey = [] then Inl (UErr (invalidConfigError ''HermesSseRunEventProvider requires sessionKey''))
      else GatewaySseRunEventProvider (o'\<lparr>
             spo_endpoints := Some (case spo_endpoints o' of Some e \<Rightarrow> e | None \<Rightarrow> (api_run, api_run_events)),
             spo_resolveHeaders := Some (\<lambda>r ph.
               om_set ''X-Hermes-Session-Key'' (Some sessionKey)
                 (case spo_resolveHeaders o' of Some f \<Rightarrow> f r ph | None \<Rightarrow> []))\<rparr>))"

definition chat_provider :: "chat_params \<Rightarrow> unknown + sse_provider" where
  "chat_provider ps =
     HermesSseRunEventProvider
       \<lparr>spo_httpBase = ct_httpBase ps, spo_authToken = Some (ct_authToken ps), spo_clientId = ct_clientId ps,
        spo_endpoints = None, spo_headers = Some (map (\<lambda>p. (fst p, Some (snd p))) (ct_headers ps)),
        spo_resolveHeaders = None, spo_fallbackToPoll = None, spo_pollIntervalMs = None, spo_pollTimeoutMs = None\<rparr>
       (session_key ps)"

section \<open>The promise of a streamed run\<close>

text \<open>\<open>ch_landed\<close>: the subscription is there; \<open>ch_disposed\<close> counts its disposals.\<close>

record chat =
  ch_settled :: bool
  ch_result :: "(unknown + bool) option"
  ch_landed :: bool
  ch_disposed :: nat
  ch_saw :: bool
  ch_out :: "stream_event list"

definition chat_new :: chat where
  "chat_new = \<lparr>ch_settled = False, ch_result = None, ch_landed = False, ch_disposed = 0, ch_saw = False, ch_out = []\<rparr>"

definition chat_settle :: "unknown + bool \<Rightarrow> chat \<Rightarrow> chat" where
  "chat_settle r st =
     (if ch_settled st then st
      else st\<lparr>ch_settled := True, ch_disposed := ch_disposed st + (if ch_landed st then 1 else 0), ch_result := Some r\<rparr>)"

definition settleResolve :: "chat \<Rightarrow> chat" where
  "settleResolve st = chat_settle (Inr (ch_saw st)) st"

definition settleReject :: "unknown \<Rightarrow> chat \<Rightarrow> chat" where
  "settleReject e st = chat_settle (Inl (UErr (toError e ''Unknown error''))) st"

definition assistant_event :: "stream_event \<Rightarrow> bool" where
  "assistant_event e = (case e of SeDelta _ _ _ \<Rightarrow> True | _ \<Rightarrow> se_terminal e)"

text \<open>An event carries what the consumer's handler throws at it.\<close>

datatype chat_call =
    ChatEvent stream_event "unknown option"
  | ChatError unknown
  | ChatComplete
  | ChatSubscribed
  | ChatRejected unknown
  | ChatAbort

fun chat_step :: "chat \<Rightarrow> chat_call \<Rightarrow> chat" where
  "chat_step st (ChatEvent ev thrown) =
     (if ch_settled st then st
      else
        let st1 = st\<lparr>ch_saw := ch_saw st \<or> assistant_event ev, ch_out := ch_out st @ [ev]\<rparr> in
        (case thrown of Some e \<Rightarrow> settleReject e st1 | None \<Rightarrow> st1))"
| "chat_step st (ChatError e) = settleReject e st"
| "chat_step st ChatComplete = settleResolve st"
| "chat_step st ChatSubscribed =
     (let st1 = st\<lparr>ch_landed := True\<rparr> in if ch_settled st then st1\<lparr>ch_disposed := ch_disposed st + 1\<rparr> else st1)"
| "chat_step st (ChatRejected e) = settleReject e st"
| "chat_step st ChatAbort = settleReject (UErr (abortError ''aborted'')) st"

definition chat_run :: "chat_call list \<Rightarrow> chat" where
  "chat_run cs = foldl chat_step chat_new cs"

text \<open>What the subscription's calls are to the promise, for a handler that does not throw.\<close>

definition chat_call_of :: "sub_out \<Rightarrow> chat_call list" where
  "chat_call_of x =
     (case x of SoEvent e \<Rightarrow> [ChatEvent e None] | SoComplete \<Rightarrow> [ChatComplete] | SoError e \<Rightarrow> [ChatError e]
      | SoRequest _ _ \<Rightarrow> [])"

text \<open>The stages before the promise: the run is started, then the provider is made.\<close>

definition streamHermesChatRun :: "chat_params \<Rightarrow> exchange \<Rightarrow> unknown + string \<times> sse_provider" where
  "streamHermesChatRun ps ex =
     (let key = session_key ps in
      and_then (startHermesChatRun (ps\<lparr>ct_sessionKey := Some key\<rparr>) ex) (\<lambda>runId.
      and_then (chat_provider (ps\<lparr>ct_sessionKey := Some key\<rparr>)) (\<lambda>p. Inr (runId, p))))"

section \<open>What the gateway is sent\<close>

lemma om_get_spread: "om_get (spread a b) k = (case om_get (rev b) k of Some v \<Rightarrow> Some v | None \<Rightarrow> om_get a k)"
  unfolding spread_def by (induction b arbitrary: a) (auto simp: map_add_def split: option.splits)

lemma source_clean: "sanitizeHermesRouteSource m = Some s \<Longrightarrow> s \<noteq> [] \<and> list_all (\<lambda>p. snd p \<noteq> JUndef) s"
  by (auto simp: sanitizeHermesRouteSource_def Let_def list_all_iff split: option.splits if_splits)

lemma resolved_source_clean: "resolveHermesRouteSource ps k = Some s \<Longrightarrow> s \<noteq> [] \<and> list_all (\<lambda>p. snd p \<noteq> JUndef) s"
  by (auto simp: resolveHermesRouteSource_def Let_def split: option.splits dest: source_clean)

lemma metadata_clean:
  "sanitizeHermesRouteMetadata m = Some s \<Longrightarrow> s \<noteq> [] \<and> list_all (\<lambda>p. \<not> (binding_key (fst p) \<and> isDict (snd p))) s"
  by (auto simp: sanitizeHermesRouteMetadata_def Let_def list_all_iff split: option.splits if_splits)

lemma optional_get [simp]:
  "om_get (addOptionalRunField k v b) j =
     (if j = k then (case cleanOptionalString v of Some s \<Rightarrow> Some (JStr s) | None \<Rightarrow> om_get b j) else om_get b j)"
  by (simp add: addOptionalRunField_def split: option.split)

lemma run_body_fields:
  "om_get (run_body ps) ''input'' = Some (JStr (ct_input ps))"
  "om_get (run_body ps) ''session_key'' = Some (JStr (session_key ps))"
  "om_get (run_body ps) ''sessionKey'' = Some (JStr (session_key ps))"
  "om_get (run_body ps) ''targetProfile'' = map_option JStr (cleanOptionalString (ct_targetProfile ps))"
  "om_get (run_body ps) ''target_profile'' = map_option JStr (cleanOptionalString (ct_targetProfile ps))"
  "om_get (run_body ps) ''targetAgent'' = map_option JStr (cleanOptionalString (ct_targetAgent ps))"
  "om_get (run_body ps) ''target_agent'' = map_option JStr (cleanOptionalString (ct_targetAgent ps))"
  "om_get (run_body ps) ''source'' = map_option JObj (resolveHermesRouteSource ps (session_key ps))"
  "om_get (run_body ps) ''metadata'' = map_option JObj (sanitizeHermesRouteMetadata (ct_metadata ps))"
  by (simp_all add: run_body_def Let_def split: option.split)

text \<open>C25: What a chat run sends is well formed whatever the caller passes: both spellings of a routing field agree
  and are absent together, the session key is the caller's or the session, the metadata holds no binding record,
  and neither metadata nor route source is sent empty or with an undefined member.\<close>

theorem chat_body_clean:
  "let b = run_body ps in
     om_get b ''targetProfile'' = om_get b ''target_profile'' \<and> om_get b ''targetAgent'' = om_get b ''target_agent''
   \<and> om_get b ''sessionKey'' = Some (JStr (session_key ps)) \<and> om_get b ''session_key'' = Some (JStr (session_key ps))
   \<and> session_key ps = (case ct_sessionKey ps of Some k \<Rightarrow> if trim k = [] then ct_sessionId ps else trim k | None \<Rightarrow> ct_sessionId ps)
   \<and> (case om_get b ''metadata'' of
        None \<Rightarrow> True
      | Some v \<Rightarrow> (case v of
            JObj m \<Rightarrow> m \<noteq> [] \<and> list_all (\<lambda>p. if binding_key (fst p) then \<not> isDict (snd p) else True) m | _ \<Rightarrow> False))
   \<and> (case om_get b ''source'' of
        None \<Rightarrow> True
      | Some v \<Rightarrow> (case v of JObj m \<Rightarrow> m \<noteq> [] \<and> list_all (\<lambda>p. snd p \<noteq> JUndef) m | _ \<Rightarrow> False))"
proof -
  have k: "session_key ps = (case ct_sessionKey ps of Some k \<Rightarrow> if trim k = [] then ct_sessionId ps else trim k | None \<Rightarrow> ct_sessionId ps)"
    by (simp add: session_key_def cleanOptionalString_def split: option.split)
  have m: "case map_option JObj (sanitizeHermesRouteMetadata (ct_metadata ps)) of None \<Rightarrow> True
      | Some v \<Rightarrow> (case v of JObj m \<Rightarrow> m \<noteq> [] \<and> list_all (\<lambda>p. if binding_key (fst p) then \<not> isDict (snd p) else True) m | _ \<Rightarrow> False)"
    using metadata_clean [of "ct_metadata ps"] by (auto simp: list_all_iff split: option.split)
  have "case map_option JObj (resolveHermesRouteSource ps (session_key ps)) of None \<Rightarrow> True
      | Some v \<Rightarrow> (case v of JObj m \<Rightarrow> m \<noteq> [] \<and> list_all (\<lambda>p. snd p \<noteq> JUndef) m | _ \<Rightarrow> False)"
    using resolved_source_clean [of ps "session_key ps"] by (auto split: option.split)
  with m k show ?thesis unfolding Let_def run_body_fields by blast
qed

section \<open>The promise\<close>

definition chat_inv :: "chat \<Rightarrow> bool" where
  "chat_inv st = ((ch_settled st \<longleftrightarrow> ch_result st \<noteq> None)
     \<and> ch_saw st = list_ex assistant_event (ch_out st)
     \<and> (case ch_result st of Some (Inr b) \<Rightarrow> b = ch_saw st | _ \<Rightarrow> True))"

lemma chat_settle_inv: "chat_inv st \<Longrightarrow> (case r of Inr b \<Rightarrow> b = ch_saw st | Inl _ \<Rightarrow> True) \<Longrightarrow> chat_inv (chat_settle r st)"
  by (auto simp: chat_inv_def chat_settle_def split: sum.splits option.splits)

lemma chat_inv_step: "chat_inv st \<Longrightarrow> chat_inv (chat_step st c)"
proof (cases c)
  case (ChatEvent ev t)
  assume i: "chat_inv st"
  have "chat_inv (st\<lparr>ch_saw := ch_saw st \<or> assistant_event ev, ch_out := ch_out st @ [ev]\<rparr>)" if "\<not> ch_settled st"
    using i that by (auto simp: chat_inv_def)
  with i show ?thesis by (simp add: ChatEvent settleReject_def chat_settle_inv Let_def split: option.split)
qed (simp_all add: settleReject_def settleResolve_def chat_settle_inv, auto simp: chat_inv_def Let_def split: option.splits sum.splits)

lemma chat_run_inv: "chat_inv (chat_run cs)"
proof (induction cs rule: rev_induct)
  case (snoc c cs)
  then show ?case by (simp add: chat_run_def chat_inv_step)
qed (simp add: chat_run_def chat_new_def chat_inv_def)

lemma chat_settled_step: "ch_settled st \<Longrightarrow> ch_settled (chat_step st c) \<and> ch_result (chat_step st c) = ch_result st
    \<and> ch_out (chat_step st c) = ch_out st"
  by (cases c) (simp_all add: settleReject_def settleResolve_def chat_settle_def Let_def)

lemma chat_settled_run: "ch_settled st \<Longrightarrow> ch_result (foldl chat_step st cs) = ch_result st \<and> ch_out (foldl chat_step st cs) = ch_out st"
  by (induction cs arbitrary: st) (simp_all add: chat_settled_step)

definition subscribed_once :: "chat_call list \<Rightarrow> bool" where
  "subscribed_once cs = (length (filter (\<lambda>c. c = ChatSubscribed) cs) \<le> 1)"

lemma chat_disposal:
  "subscribed_once cs \<Longrightarrow> ch_landed (chat_run cs) = (ChatSubscribed \<in> set cs)
     \<and> ch_disposed (chat_run cs) = (if ch_settled (chat_run cs) \<and> ch_landed (chat_run cs) then 1 else 0)"
proof (induction cs rule: rev_induct)
  case (snoc c cs)
  have "subscribed_once cs" using snoc.prems by (simp add: subscribed_once_def split: if_splits)
  note ih = snoc.IH [OF this]
  have f: "ChatSubscribed \<notin> set cs" if "c = ChatSubscribed"
    using snoc.prems that by (auto simp: subscribed_once_def filter_empty_conv)
  show ?case
    using ih f by (cases c) (auto simp: chat_run_def settleReject_def settleResolve_def chat_settle_def Let_def
        split: option.splits)
qed (simp add: chat_run_def chat_new_def)

text \<open>C14: The promise of a streamed chat settles once: after that no event reaches the consumer and nothing changes
  the outcome, whatever calls arrive. It resolves with whether an assistant event was seen, and a subscription
  that was made is disposed exactly once, however its arrival and the settlement are ordered.\<close>

theorem chat_settles_once:
  "let st = chat_run cs; later = chat_run (cs @ after) in
     (if ch_result st \<noteq> None then ch_result later = ch_result st \<and> ch_out later = ch_out st else True)
   \<and> (case ch_result st of Some (Inr b) \<Rightarrow> b = list_ex assistant_event (ch_out st) | _ \<Rightarrow> True)
   \<and> (if subscribed_once cs
      then ch_disposed st = (if ch_result st \<noteq> None \<and> ChatSubscribed \<in> set cs then 1 else 0) else True)"
proof -
  have l: "chat_run (cs @ after) = foldl chat_step (chat_run cs) after" by (simp add: chat_run_def)
  have i: "chat_inv (chat_run cs)" by (rule chat_run_inv)
  from i have s: "ch_settled (chat_run cs) \<longleftrightarrow> ch_result (chat_run cs) \<noteq> None" by (simp add: chat_inv_def)
  have "case ch_result (chat_run cs) of Some (Inr b) \<Rightarrow> b = list_ex assistant_event (ch_out (chat_run cs)) | _ \<Rightarrow> True"
    using i by (auto simp: chat_inv_def split: option.splits sum.splits)
  then show ?thesis
    using chat_settled_run [of "chat_run cs" after] chat_disposal [of cs] s by (simp add: Let_def l)
qed

section \<open>A chat from start to end\<close>

lemma hermes_provider_session:
  assumes "chat_provider ps = Inr p"
  shows "sp_runEvents p = api_run_events"
    and "om_get (provider_headers p r ph accept) ''X-Hermes-Session-Key'' = Some (trim (session_key ps))"
proof -
  have t: "trim ''X-Hermes-Session-Key'' = ''X-Hermes-Session-Key''" by (rule trim_graph) (simp_all add: graph_char_def)
  have g: "sp_resolveHeaders p = Some (\<lambda>r ph. [(''X-Hermes-Session-Key'', Some (trim (session_key ps)))])"
    "sp_runEvents p = api_run_events"
    using assms by (auto simp: chat_provider_def HermesSseRunEventProvider_def GatewaySseRunEventProvider_def and_then_Inr Let_def
        split: if_splits)
  show "sp_runEvents p = api_run_events" by (rule g(2))
  show "om_get (provider_headers p r ph accept) ''X-Hermes-Session-Key'' = Some (trim (session_key ps))"
    by (simp add: provider_headers_def g mergeHeaders_into_def [of _ "[_]"] merge_header_def t Let_def)
qed

text \<open>What a chat shows does not depend on its subscription.\<close>

definition chat_core :: "chat \<Rightarrow> bool \<times> (unknown + bool) option \<times> bool \<times> stream_event list" where
  "chat_core st = (ch_settled st, ch_result st, ch_saw st, ch_out st)"

lemma chat_core_step: "chat_core a = chat_core b \<Longrightarrow> chat_core (chat_step a c) = chat_core (chat_step b c)"
  by (cases c) (auto simp: chat_core_def settleReject_def settleResolve_def chat_settle_def Let_def split: option.split)

lemma chat_core_subscribed: "chat_core (chat_step a ChatSubscribed) = chat_core a"
  by (simp add: chat_core_def Let_def)

lemma chat_unsubscribed:
  "chat_core a = chat_core b \<Longrightarrow> chat_core (foldl chat_step a cs) = chat_core (foldl chat_step b (filter (\<lambda>c. c \<noteq> ChatSubscribed) cs))"
proof (induction cs arbitrary: a b)
  case (Cons c cs)
  have "chat_core (chat_step a c) = chat_core (if c = ChatSubscribed then b else chat_step b c)"
    using Cons.prems chat_core_step [OF Cons.prems] chat_core_subscribed by auto
  from Cons.IH [OF this] show ?case by auto
qed simp

lemma chat_events_run:
  "\<not> ch_settled st \<Longrightarrow> foldl chat_step st (map (\<lambda>e. ChatEvent e None) es)
     = st\<lparr>ch_out := ch_out st @ es, ch_saw := ch_saw st \<or> list_ex assistant_event es\<rparr>"
  by (induction es arbitrary: st) auto

text \<open>C9: A chat from start to end. Once a run has started and its provider is made, the events its gateway writes
  reach the chat's consumer exactly, in order, whatever the cuts of the body and whenever the subscription
  arrives; the promise resolves with whether an assistant event was among them; and the stream is asked for
  under the run's encoded id, with the session's key.\<close>

theorem chat_run_end_to_end:
  assumes "streamHermesChatRun ps ex = Inr (runId, p)" and "calm env"
    and "list_all writable es" and "length (wire_stream es) \<le> DEFAULT_MAX_SSE_BUFFER_BYTES" and "concat vs = wire_stream es"
    and "filter (\<lambda>c. c \<noteq> ChatSubscribed) cs = concat (map chat_call_of (subscribe_run p env runId False
      (Inr (event_reply (Some ''text/event-stream; charset=utf-8'') (map (\<lambda>v. (False, RValue v)) vs @ [(False, RDone)])))
      startedAt rounds))"
  shows "ch_out (chat_run cs) = es \<and> ch_result (chat_run cs) = Some (Inr (list_ex assistant_event es))
    \<and> sp_runEvents p runId = ''/v1/runs/'' @ encodeURIComponent runId @ ''/events''
    \<and> om_get (provider_headers p runId PhaseEvents accept) ''X-Hermes-Session-Key'' = Some (trim (session_key ps))"
proof -
  from assms(1) have p: "chat_provider (ps\<lparr>ct_sessionKey := Some (session_key ps)\<rparr>) = Inr p"
    by (auto simp: streamHermesChatRun_def and_then_Inr Let_def)
  then have ne: "trim (session_key (ps\<lparr>ct_sessionKey := Some (session_key ps)\<rparr>)) \<noteq> []"
    by (auto simp: chat_provider_def HermesSseRunEventProvider_def Let_def)
  have key: "trim (session_key (ps\<lparr>ct_sessionKey := Some (session_key ps)\<rparr>)) = trim (session_key ps)"
    by (auto simp: session_key_def cleanOptionalString_def trim_idem split: option.splits)
  have "concat (map chat_call_of (map SoEvent es)) = map (\<lambda>e. ChatEvent e None) es"
    by (induction es) (simp_all add: chat_call_of_def)
  then have f: "filter (\<lambda>c. c \<noteq> ChatSubscribed) cs = map (\<lambda>e. ChatEvent e None) es @ [ChatComplete]"
    using assms(6) stream_wire [OF assms(3-5,2), of p runId startedAt rounds] assms(2)
    by (simp add: subscribe_run_def stream_over_def calm_def chat_call_of_def)
  have "chat_core (chat_run cs) = chat_core (foldl chat_step chat_new (map (\<lambda>e. ChatEvent e None) es @ [ChatComplete]))"
    using chat_unsubscribed [of chat_new chat_new cs] f by (simp add: chat_run_def)
  moreover have "\<not> ch_settled chat_new" by (simp add: chat_new_def)
  ultimately show ?thesis
    using hermes_provider_session [OF p] key
    by (simp add: chat_events_run settleResolve_def chat_settle_def chat_new_def api_run_events_def chat_core_def)
qed

definition wit_chat :: chat_params where
  "wit_chat = \<lparr>ct_httpBase = ''h'', ct_authToken = [], ct_clientId = ''c'', ct_headers = [], ct_input = ''hi'', ct_sessionId = ''s'',
     ct_sessionKey = None, ct_targetProfile = None, ct_targetAgent = None, ct_action = None, ct_harness = None,
     ct_source = None, ct_routeChannel = None, ct_metadata = None, ct_attachments = []\<rparr>"

definition wit_answer :: exchange where
  "wit_answer = \<lparr>ex_credentials = Inr [], ex_signal = None, ex_aborted = False, ex_aborts = [],
     ex_fetch = Inr \<lparr>rp_status = 200, rp_text = Inr (json_text (JObj [(''run_id'', JStr ''r'')])), rp_contentType = None\<rparr>,
     ex_startedAt = 0, ex_now = 0\<rparr>"

lemma trim_short: "trim ''s'' = ''s''" "trim ''c'' = ''c''" "trim ''h'' = ''h''"
  by (rule trim_graph, simp_all add: graph_char_def)+

lemma wit_started: "startHermesChatRun (wit_chat\<lparr>ct_sessionKey := Some ''s''\<rparr>) wit_answer = Inr ''r''"
proof -
  have n: "trim (json_text (JObj [(''run_id'', JStr ''r'')])) \<noteq> []"
    using trim_graph [of "json_text (JObj [(''run_id'', JStr ''r'')])"] by (simp add: graph_char_def)
  have j: "json_parse (json_text (JObj [(''run_id'', JStr ''r'')])) = Some (JObj [(''run_id'', JStr ''r'')])"
    by (rule json_roundtrip) simp
  show ?thesis
    using n j by (simp add: startHermesChatRun_def createHermesChatRunHttpClient_def BaseHttpApiClient_def normalizeBaseUrl_def
        wit_chat_def wit_answer_def trim_short requestWithResponse_def reply_ok_def parseJsonResponse_def started_run_def
        isDict_def truthy_def is_js_object_def get_prop_def Let_def del: json_text.simps)
qed

lemma wit_chat_provider: "\<exists>p. chat_provider (wit_chat\<lparr>ct_sessionKey := Some ''s''\<rparr>) = Inr p"
  by (simp add: chat_provider_def HermesSseRunEventProvider_def GatewaySseRunEventProvider_def normalizeHttpBase_def
      normalizeClientId_def session_key_def cleanOptionalString_def wit_chat_def trim_short strip_slashes_def Let_def)

theorem chat_run_end_to_end_witness:
  "\<exists>p. streamHermesChatRun wit_chat wit_answer = Inr (''r'', p)
    \<and> ch_result (chat_run (ChatSubscribed # map (\<lambda>e. ChatEvent e None) wit_events @ [ChatComplete])) = Some (Inr True)"
proof -
  obtain p where p: "chat_provider (wit_chat\<lparr>ct_sessionKey := Some ''s''\<rparr>) = Inr p" using wit_chat_provider by blast
  have "session_key wit_chat = ''s''" by (simp add: session_key_def cleanOptionalString_def wit_chat_def)
  then have s: "streamHermesChatRun wit_chat wit_answer = Inr (''r'', p)"
    by (simp add: streamHermesChatRun_def wit_started p)
  have c: "calm wit_env" by (simp add: calm_def wit_env_def)
  have v: "concat [wire_stream wit_events] = wire_stream wit_events" by simp
  have "concat (map chat_call_of (subscribe_run p wit_env ''r'' False
      (Inr (event_reply (Some ''text/event-stream; charset=utf-8'') (map (\<lambda>v. (False, RValue v)) [wire_stream wit_events] @ [(False, RDone)])))
      0 [])) = map (\<lambda>e. ChatEvent e None) wit_events @ [ChatComplete]"
    using stream_wire [OF wit_writable wit_length v c, of p "''r''" 0 "[]"]
    by (simp add: subscribe_run_def stream_over_def wit_env_def chat_call_of_def wit_events_def)
  then have "filter (\<lambda>c. c \<noteq> ChatSubscribed) (ChatSubscribed # map (\<lambda>e. ChatEvent e None) wit_events @ [ChatComplete])
      = concat (map chat_call_of (subscribe_run p wit_env ''r'' False
      (Inr (event_reply (Some ''text/event-stream; charset=utf-8'') (map (\<lambda>v. (False, RValue v)) [wire_stream wit_events] @ [(False, RDone)])))
      0 []))"
    by (simp add: comp_def)
  from chat_run_end_to_end [OF s c wit_writable wit_length v this] s show ?thesis
    by (auto simp: wit_events_def assistant_event_def)
qed

section \<open>Corner cases\<close>

text \<open>A blank session is refused only after its run has been started: the run is left behind.\<close>

lemma blank_session_starts:
  assumes "trim (session_key ps) = []"
    and "startHermesChatRun (ps\<lparr>ct_sessionKey := Some (session_key ps)\<rparr>) ex = Inr runId"
  shows "streamHermesChatRun ps ex = Inl (UErr (invalidConfigError ''HermesSseRunEventProvider requires sessionKey''))"
proof -
  have "trim (session_key (ps\<lparr>ct_sessionKey := Some (session_key ps)\<rparr>)) = []"
    using assms(1) by (auto simp: session_key_def cleanOptionalString_def trim_idem split: option.splits if_splits)
  with assms(2) show ?thesis
    by (simp add: streamHermesChatRun_def chat_provider_def HermesSseRunEventProvider_def)
qed

text \<open>A snapshot that cannot be fetched fails a chat whose run has completed.\<close>

lemma snapshot_failure_rejects:
  "ch_result (chat_run (concat (map chat_call_of
     (fb_out (fallback_run [PrimaryEvent (SeCompleted r x u t) False, FallbackSubscribed, FallbackError (UErr e), PrimaryComplete])))))
   = Some (Inl (UErr e))"
  by (simp add: fallback_run_def fallback_new_def maybeComplete_def se_tool_def se_completed_def se_terminal_def Let_def
      chat_call_of_def chat_run_def chat_new_def settleReject_def chat_settle_def toError_def)

end
