(* ===== verification/Sorting.thy ===== *)
theory Sorting
  imports Prelude "HOL-Library.Multiset"
begin

text \<open>
  \<open>Array.prototype.sort\<close>. With a comparison function that is consistent, the engine's result is the one stable
  order; \<open>stable_sort\<close> computes it by insertion. What a comparison has to satisfy is the locale \<open>comparison\<close>;
  \<open>string_cmp\<close>, the default order, is an interpretation of the stronger one, in which a sorted list is determined
  by its elements. UTF-8 bytes order strings by code point.
\<close>

fun insert_by :: "('a \<Rightarrow> 'a \<Rightarrow> int) \<Rightarrow> 'a \<Rightarrow> 'a list \<Rightarrow> 'a list" where
  "insert_by cmp x [] = [x]"
| "insert_by cmp x (y # ys) = (if cmp x y \<le> 0 then x # y # ys else y # insert_by cmp x ys)"

definition stable_sort :: "('a \<Rightarrow> 'a \<Rightarrow> int) \<Rightarrow> 'a list \<Rightarrow> 'a list" where
  "stable_sort cmp xs = foldr (insert_by cmp) xs []"

lemma mset_insert_by [simp]: "mset (insert_by cmp x ys) = add_mset x (mset ys)"
  by (induction ys) auto

lemma mset_stable_sort [simp]: "mset (stable_sort cmp xs) = mset xs"
  by (induction xs) (auto simp: stable_sort_def)

lemma set_stable_sort [simp]: "set (stable_sort cmp xs) = set xs"
  using mset_stable_sort [of cmp xs] by (metis set_mset_mset)

lemma distinct_stable_sort [simp]: "distinct (stable_sort cmp xs) = distinct xs"
  using mset_stable_sort [of cmp xs] by (metis mset_eq_imp_distinct_iff)

lemma length_stable_sort [simp]: "length (stable_sort cmp xs) = length xs"
  using mset_stable_sort [of cmp xs] by (metis size_mset)

lemma stable_sort_Nil [simp]: "stable_sort cmp [] = []"
  by (simp add: stable_sort_def)

section \<open>Consistent comparisons\<close>

locale comparison =
  fixes cmp :: "'a \<Rightarrow> 'a \<Rightarrow> int"
  assumes total: "cmp a b \<le> 0 \<or> cmp b a \<le> 0"
    and trans: "cmp a b \<le> 0 \<Longrightarrow> cmp b c \<le> 0 \<Longrightarrow> cmp a c \<le> 0"
begin

abbreviation in_order :: "'a list \<Rightarrow> bool" where
  "in_order \<equiv> sorted_wrt (\<lambda>a b. cmp a b \<le> 0)"

lemma in_order_insert: "in_order ys \<Longrightarrow> in_order (insert_by cmp x ys)"
proof (induction ys)
  case (Cons y ys)
  have s: "set (insert_by cmp x ys) = insert x (set ys)"
    using mset_insert_by [of cmp x ys] by (metis set_mset_add_mset_insert set_mset_mset)
  show ?case
  proof (cases "cmp x y \<le> 0")
    case True
    then show ?thesis using Cons.prems trans by auto
  next
    case False
    then have "cmp y x \<le> 0" using total by blast
    then show ?thesis using Cons False s by auto
  qed
qed simp

lemma in_order_sort: "in_order (stable_sort cmp xs)"
  by (induction xs) (simp_all add: stable_sort_def in_order_insert)

text \<open>A list in order stays as it is.\<close>

lemma sort_in_order: "in_order xs \<Longrightarrow> stable_sort cmp xs = xs"
proof (induction xs)
  case (Cons x xs)
  then have "stable_sort cmp xs = xs" by simp
  then have "stable_sort cmp (x # xs) = insert_by cmp x xs" by (simp add: stable_sort_def)
  then show ?case using Cons.prems by (cases xs) auto
qed simp

lemma sort_idem: "stable_sort cmp (stable_sort cmp xs) = stable_sort cmp xs"
  by (rule sort_in_order [OF in_order_sort])

end

locale strict_comparison = comparison +
  assumes antisym: "cmp a b \<le> 0 \<Longrightarrow> cmp b a \<le> 0 \<Longrightarrow> a = b"
begin

lemma in_order_unique: "in_order xs \<Longrightarrow> in_order ys \<Longrightarrow> mset xs = mset ys \<Longrightarrow> xs = ys"
proof (induction xs arbitrary: ys)
  case (Cons x xs)
  then obtain y ys' where ys: "ys = y # ys'" by (cases ys) auto
  have "x \<in> set ys" "y \<in> set (x # xs)"
    using Cons.prems(3) ys by (metis list.set_intros(1) mset_eq_setD)+
  then have "x = y"
    using Cons.prems(1,2) ys by (auto intro: antisym)
  then show ?case using Cons ys by auto
qed simp

text \<open>The order in which the elements came does not matter.\<close>

lemma sort_perm: "mset xs = mset ys \<Longrightarrow> stable_sort cmp xs = stable_sort cmp ys"
  by (rule in_order_unique) (simp_all add: in_order_sort)

end

section \<open>The default order\<close>

fun string_cmp :: "string \<Rightarrow> string \<Rightarrow> int" where
  "string_cmp [] [] = 0"
| "string_cmp [] (d # t) = - 1"
| "string_cmp (c # s) [] = 1"
| "string_cmp (c # s) (d # t) =
     (if (of_char c :: nat) < of_char d then - 1 else if (of_char d :: nat) < of_char c then 1 else string_cmp s t)"

interpretation byte_order: strict_comparison string_cmp
proof
  show "string_cmp a b \<le> 0 \<or> string_cmp b a \<le> 0" for a b
    by (induction a b rule: string_cmp.induct) auto
  show "string_cmp a b \<le> 0 \<Longrightarrow> string_cmp b c \<le> 0 \<Longrightarrow> string_cmp a c \<le> 0" for a b c
  proof (induction a b arbitrary: c rule: string_cmp.induct)
    case (4 x s y t)
    show ?case
    proof (cases c)
      case (Cons z u)
      show ?thesis
        using "4.IH" [of u] "4.prems" Cons
        by (cases "(of_char x :: nat)" "of_char y :: nat" rule: linorder_cases;
            cases "(of_char y :: nat)" "of_char z :: nat" rule: linorder_cases) simp_all
    qed (use "4.prems" in simp)
  next
    case 2
    then show ?case by (cases c) auto
  qed auto
  show "string_cmp a b \<le> 0 \<Longrightarrow> string_cmp b a \<le> 0 \<Longrightarrow> a = b" for a b
  proof (induction a b rule: string_cmp.induct)
    case (4 x s y t)
    then show ?case by (cases "(of_char x :: nat)" "of_char y :: nat" rule: linorder_cases) simp_all
  qed auto
qed

lemma string_cmp_refl [simp]: "string_cmp a a = 0"
  by (induction a) auto

end
