(* ===== verification/AgentConfigs.thy ===== *)
theory AgentConfigs
  imports TeamManifests GatewayRequests Sorting
begin

text \<open>
  Agent configuration: \<open>src/core/gateway/agent/config.ts\<close> (paths into a configuration, the schema of its fields, the
  form built from both, and the client that reads and patches it) and \<open>voice-config.ts\<close>. Records are read by their
  own members; names an object inherits (\<open>constructor\<close>, \<open>toString\<close>) are not. \<open>localeCompare\<close> and the clock are
  arguments, and a length in UTF-16 units is counted on the UTF-8 bytes.
\<close>

section \<open>Reading values\<close>

definition cleanString :: "jv \<Rightarrow> string" where
  "cleanString v = (case v of JStr s \<Rightarrow> trim s | _ \<Rightarrow> [])"

definition asRecord :: "jv \<Rightarrow> (string, jv) omap" where
  "asRecord v = (case v of JObj m \<Rightarrow> m | _ \<Rightarrow> [])"

definition asArray :: "jv \<Rightarrow> jv list" where
  "asArray v = (case v of JArr vs \<Rightarrow> vs | _ \<Rightarrow> [])"

definition asCleanStrings :: "jv \<Rightarrow> string list" where
  "asCleanStrings v = filter (\<lambda>s. s \<noteq> []) (map cleanString (asArray v))"

definition member_of :: "(string, jv) omap \<Rightarrow> string \<Rightarrow> jv" where
  "member_of m k = (case om_get m k of Some v \<Rightarrow> v | None \<Rightarrow> JUndef)"

text \<open>\<open>a || b\<close> on strings, \<open>a || undefined\<close>, and \<open>String(v ?? "")\<close>.\<close>

definition or_text :: "string \<Rightarrow> string \<Rightarrow> string" where
  "or_text a b = (if a = [] then b else a)"

definition some_text :: "string \<Rightarrow> string option" where
  "some_text s = (if s = [] then None else Some s)"

definition shown_text :: "jv \<Rightarrow> string" where
  "shown_text v = (if nullish v then [] else js_string v)"

text \<open>\<open>length\<close>: a byte that continues a character counts nothing, one that starts a four-byte character two.\<close>

definition utf16_length :: "string \<Rightarrow> nat" where
  "utf16_length s = sum_list (map (\<lambda>c. let n = (of_char c :: nat) in
     if 128 \<le> n \<and> n < 192 then 0 else if 240 \<le> n then 2 else 1) s)"

section \<open>Paths\<close>

definition pathSegments :: "string \<Rightarrow> string list" where
  "pathSegments path = filter (\<lambda>s. s \<noteq> []) (map trim (split_char (CHR ''.'') path))"

fun get_segments :: "jv \<Rightarrow> string list \<Rightarrow> jv" where
  "get_segments current [] = current"
| "get_segments current (seg # rest) =
     (case om_get (asRecord current) seg of None \<Rightarrow> JUndef | Some v \<Rightarrow> get_segments v rest)"

definition getPathValue :: "(string, jv) omap \<Rightarrow> string \<Rightarrow> jv" where
  "getPathValue config path = get_segments (JObj config) (pathSegments path)"

definition UNSAFE_CONFIG_PATH_SEGMENTS :: "string list" where
  "UNSAFE_CONFIG_PATH_SEGMENTS = [''__proto__'', ''constructor'', ''prototype'']"

text \<open>The cursor's walk: what is no object on the way is replaced by an empty one.\<close>

fun set_segments :: "(string, jv) omap \<Rightarrow> string list \<Rightarrow> jv \<Rightarrow> (string, jv) omap" where
  "set_segments m [] v = m"
| "set_segments m [k] v = om_set k v m"
| "set_segments m (k # l # ls) v = om_set k (JObj (set_segments (asRecord (member_of m k)) (l # ls) v)) m"

definition cloneJsonRecord :: "(string, jv) omap \<Rightarrow> unknown + (string, jv) omap" where
  "cloneJsonRecord config =
     (case json_clone (JObj config) of
        Some v \<Rightarrow> Inr (asRecord v) | None \<Rightarrow> Inl (UErr (JsError CSyntaxError [] [] None)))"

definition setAgentConfigPathValue :: "(string, jv) omap \<Rightarrow> string \<Rightarrow> jv \<Rightarrow> unknown + (string, jv) omap" where
  "setAgentConfigPathValue config path v =
     (let segments = pathSegments path in
      if segments = [] then Inr config
      else (case find (\<lambda>s. s \<in> set UNSAFE_CONFIG_PATH_SEGMENTS) segments of
              Some s \<Rightarrow> Inl (UErr (invalidInputError
                (''setAgentConfigPathValue: unsafe path segment '' @ [CHR 0x22] @ s @ [CHR 0x22])))
            | None \<Rightarrow> and_then (cloneJsonRecord config) (\<lambda>next'. Inr (set_segments next' segments v))))"

fun flattenConfigPaths :: "jv \<Rightarrow> string \<Rightarrow> (string, jv) omap \<Rightarrow> (string, jv) omap"
  and flatten_members :: "(string \<times> jv) list \<Rightarrow> string \<Rightarrow> (string, jv) omap \<Rightarrow> (string, jv) omap" where
  "flattenConfigPaths (JObj m) pre out =
     (if pre \<noteq> [] \<and> m = [] then om_set pre (JObj m) out else flatten_members m pre out)"
| "flattenConfigPaths v pre out = (if pre \<noteq> [] then om_set pre v out else out)"
| "flatten_members [] pre out = out"
| "flatten_members ((k, v) # ms) pre out =
     flatten_members ms pre (flattenConfigPaths v (if pre \<noteq> [] then pre @ ''.'' @ k else k) out)"

section \<open>Labels\<close>

definition is_word :: "char \<Rightarrow> bool" where
  "is_word c = (is_alnum c \<or> c = CHR ''_'')"

text \<open>\<open>\b\w\<close>: a word character that follows none.\<close>

fun capitalise :: "bool \<Rightarrow> string \<Rightarrow> string" where
  "capitalise after_word [] = []"
| "capitalise after_word (c # s) = (if is_word c \<and> \<not> after_word then to_upper_char c else c) # capitalise (is_word c) s"

definition is_lower :: "char \<Rightarrow> bool" where
  "is_lower c = (let n = of_char c :: nat in 97 \<le> n \<and> n \<le> 122)"

definition is_upper :: "char \<Rightarrow> bool" where
  "is_upper c = (let n = of_char c :: nat in 65 \<le> n \<and> n \<le> 90)"

definition camel :: re where
  "camel = RSeq (RGroup 1 (RByte (\<lambda>c. is_lower c \<or> is_digit c))) (RGroup 2 (RByte is_upper))"

definition titleCase :: "string \<Rightarrow> string" where
  "titleCase s =
     (let a = rreplace (rplus (rset ''_-'')) (\<lambda>_. '' '') s;
          b = rreplace camel (\<lambda>st. capture st 1 @ '' '' @ capture st 2) a
      in capitalise False (rreplace (rplus RSpace) (\<lambda>_. '' '') (trim b)))"

definition labelFromPath :: "string \<Rightarrow> string" where
  "labelFromPath path = titleCase (if pathSegments path = [] then path else last (pathSegments path))"

section \<open>The schema\<close>

record choice_option =
  op_value :: string
  op_label :: string

datatype AgentConfigFieldKind =
    KText "string option"
  | KMultiline "string option" "nat option"
  | KNumber "jnum option" "jnum option" "jnum option"
  | KToggle
  | KSelect "choice_option list"
  | KChips "string list option"
  | KList "string option" "string list option"
  | KJson "nat option"

record GatewayConfigSchemaField =
  sf_type :: "string option"
  sf_description :: "string option"
  sf_category :: "string option"
  sf_options :: "jv list option"
  sf_min :: "jnum option"
  sf_max :: "jnum option"
  sf_step :: "jnum option"

definition REASONING_EFFORT_OPTIONS :: "choice_option list" where
  "REASONING_EFFORT_OPTIONS =
     [\<lparr>op_value = [], op_label = ''Default''\<rparr>, \<lparr>op_value = ''none'', op_label = ''None''\<rparr>,
      \<lparr>op_value = ''minimal'', op_label = ''Minimal''\<rparr>, \<lparr>op_value = ''low'', op_label = ''Low''\<rparr>,
      \<lparr>op_value = ''medium'', op_label = ''Medium''\<rparr>, \<lparr>op_value = ''high'', op_label = ''High''\<rparr>,
      \<lparr>op_value = ''xhigh'', op_label = ''Extra high''\<rparr>]"

definition CLI_TOOLSET_SUGGESTIONS :: "string list" where
  "CLI_TOOLSET_SUGGESTIONS =
     [''browser'', ''clarify'', ''code_execution'', ''cronjob'', ''delegation'', ''file'', ''image_gen'', ''memory'',
      ''session_search'', ''skills'', ''terminal'', ''todo'', ''web'', ''webhook'']"

definition normalizeSchemaField :: "jv \<Rightarrow> GatewayConfigSchemaField" where
  "normalizeSchemaField v =
     (let rec = asRecord v in
      \<lparr>sf_type = Some (or_text (cleanString (member_of rec ''type'')) ''string''),
       sf_description = some_text (cleanString (member_of rec ''description'')),
       sf_category = some_text (cleanString (member_of rec ''category'')),
       sf_options = (case member_of rec ''options'' of JArr vs \<Rightarrow> Some vs | _ \<Rightarrow> None),
       sf_min = asNumber (member_of rec ''min''), sf_max = asNumber (member_of rec ''max''),
       sf_step = asNumber (member_of rec ''step'')\<rparr>)"

definition inferSchemaType :: "jv \<Rightarrow> string" where
  "inferSchemaType v =
     (case v of JBool _ \<Rightarrow> ''boolean'' | JNum _ \<Rightarrow> ''number'' | JArr _ \<Rightarrow> ''list'' | JObj _ \<Rightarrow> ''object'' | _ \<Rightarrow> ''string'')"

definition withOption :: "choice_option list \<Rightarrow> string \<Rightarrow> string option \<Rightarrow> choice_option list" where
  "withOption options v label =
     (if v = [] \<and> label = None \<or> list_ex (\<lambda>x. op_value x = v) options then options
      else \<lparr>op_value = v, op_label = (case label of Some l \<Rightarrow> or_text l v | None \<Rightarrow> v)\<rparr> # options)"

definition is_primitive :: "jv \<Rightarrow> bool" where
  "is_primitive v = (case v of JStr _ \<Rightarrow> True | JNum _ \<Rightarrow> True | JBool _ \<Rightarrow> True | _ \<Rightarrow> False)"

definition schema_option :: "jv \<Rightarrow> choice_option option" where
  "schema_option v =
     (let rec = asRecord v;
          val = or_text (cleanString (member_of rec ''value'')) (or_text (cleanString (member_of rec ''id''))
                  (or_text (cleanString (member_of rec ''name'')) (if is_primitive v then js_string v else [])))
      in if val = [] then None
         else Some \<lparr>op_value = val,
           op_label = or_text (cleanString (member_of rec ''label'')) (or_text (cleanString (member_of rec ''name'')) val)\<rparr>)"

definition normalizeSchemaOptions :: "jv list option \<Rightarrow> jv \<Rightarrow> choice_option list" where
  "normalizeSchemaOptions options currentValue =
     withOption (map the (filter (\<lambda>x. x \<noteq> None) (map schema_option (or_else options []))))
       (shown_text currentValue) (if currentValue = JNull then Some ''Unset'' else None)"

definition normalizeSchemaPayload :: "jv \<Rightarrow> (string, GatewayConfigSchemaField) omap \<times> string list" where
  "normalizeSchemaPayload payload =
     (let root = asRecord payload in
      (foldl (\<lambda>m p. if fst p = [] \<or> isSensitiveKey (fst p) then m else om_set (fst p) (normalizeSchemaField (snd p)) m)
         [] (asRecord (member_of root ''fields'')),
       asCleanStrings (member_of root ''category_order'')))"

definition categoryForPath :: "string \<Rightarrow> GatewayConfigSchemaField option \<Rightarrow> string" where
  "categoryForPath path schema =
     or_text (trim (or_else (Option.bind schema sf_category) []))
       (case pathSegments path of s # _ \<Rightarrow> s | [] \<Rightarrow> ''general'')"

definition text_items :: "jv \<Rightarrow> bool" where
  "text_items v = (case v of JArr vs \<Rightarrow> list_all (\<lambda>x. case x of JStr _ \<Rightarrow> True | JNum _ \<Rightarrow> True | _ \<Rightarrow> False) vs | _ \<Rightarrow> False)"

definition is_array :: "jv \<Rightarrow> bool" where
  "is_array v = (case v of JArr _ \<Rightarrow> True | _ \<Rightarrow> False)"

definition kindForSchemaField :: "string \<Rightarrow> GatewayConfigSchemaField option \<Rightarrow> jv \<Rightarrow> AgentConfigFieldKind" where
  "kindForSchemaField path schema v =
     (let ty = or_text (to_lower (trim (or_else (Option.bind schema sf_type) []))) (inferSchemaType v) in
      if path = ''agent.reasoning_effort'' then KSelect (withOption REASONING_EFFORT_OPTIONS (shown_text v) None)
      else if ty = ''boolean'' \<or> ty = ''bool'' then KToggle
      else if ty = ''number'' \<or> ty = ''integer'' \<or> ty = ''float''
      then KNumber (Option.bind schema sf_min) (Option.bind schema sf_max) (Option.bind schema sf_step)
      else if ty = ''select''
      then (let options = normalizeSchemaOptions (Option.bind schema sf_options) v in
            if options \<noteq> [] then KSelect options else KText (Some path))
      else if ty = ''list'' \<or> is_array v
      then (if path = ''platform_toolsets.cli'' then KChips (Some CLI_TOOLSET_SUGGESTIONS)
            else if text_items v then KList (Some ''comma-separated values'') None
            else KJson (Some 5))
      else if ty = ''object'' \<or> is_js_object v then KJson (Some 6)
      else if ty = ''text'' \<or> str_includes (to_lower path) ''prompt''
        \<or> (case v of JStr s \<Rightarrow> 120 < utf16_length s | _ \<Rightarrow> False)
      then KMultiline None (Some 4)
      else KText (Some path))"

definition defaultValueForKind :: "AgentConfigFieldKind \<Rightarrow> jv" where
  "defaultValueForKind k =
     (case k of KToggle \<Rightarrow> JBool False | KNumber _ _ _ \<Rightarrow> JNum (Fin 0) | KChips _ \<Rightarrow> JArr [] | KList _ _ \<Rightarrow> JArr []
      | KJson _ \<Rightarrow> JObj [] | _ \<Rightarrow> JStr [])"

definition configFieldValue :: "jv \<Rightarrow> jv" where
  "configFieldValue v = (if v = JUndef then JStr [] else v)"

section \<open>Profiles\<close>

record AgentProfileSummary =
  pf_agentId :: string
  pf_agentName :: string
  pf_sourcePath :: "string option"
  pf_isActive :: "bool option"
  pf_isDefault :: "bool option"
  pf_model :: "string option"
  pf_provider :: "string option"

definition profile_of :: "jv \<Rightarrow> AgentProfileSummary option" where
  "profile_of v =
     (let p = asRecord v; agentId = cleanString (member_of p ''name'') in
      if agentId = [] then None
      else Some \<lparr>pf_agentId = agentId, pf_agentName = agentId, pf_sourcePath = some_text (cleanString (member_of p ''path'')),
        pf_isActive = asBoolean (member_of p ''is_active''), pf_isDefault = asBoolean (member_of p ''is_default''),
        pf_model = some_text (cleanString (member_of p ''model'')),
        pf_provider = some_text (cleanString (member_of p ''provider''))\<rparr>)"

definition normalizeAgentProfiles :: "jv \<Rightarrow> AgentProfileSummary list" where
  "normalizeAgentProfiles payload =
     map the (filter (\<lambda>x. x \<noteq> None) (map profile_of (asArray (member_of (asRecord payload) ''profiles''))))"

definition findAgentProfile :: "AgentProfileSummary list \<Rightarrow> string \<Rightarrow> AgentProfileSummary option" where
  "findAgentProfile profiles agentId = find (\<lambda>p. pf_agentId p = agentId) profiles"

definition profile_id_char :: "char \<Rightarrow> bool" where
  "profile_id_char c = (is_lower c \<or> is_digit c)"

definition AGENT_PROFILE_ID_RE :: "string \<Rightarrow> bool" where
  "AGENT_PROFILE_ID_RE s =
     (s = ''default''
      \<or> (case s of [] \<Rightarrow> False
         | c # t \<Rightarrow> profile_id_char c \<and> list_all (\<lambda>d. profile_id_char d \<or> d = CHR ''_'' \<or> d = CHR ''-'') t \<and> length t \<le> 63))"

text \<open>Its \<open>status\<close> is never given here.\<close>

definition GatewayAgentConfigApiError :: "string \<Rightarrow> string option \<Rightarrow> unknown" where
  "GatewayAgentConfigApiError msg path =
     UErr (mk_error CApiClientError ''GatewayAgentConfigApiError'' msg None None None
       [(''status'', JUndef), (''path'', case path of Some p \<Rightarrow> JStr p | None \<Rightarrow> JUndef)])"

definition assertAgentProfileId :: "string \<Rightarrow> unknown + string" where
  "assertAgentProfileId agentId =
     (if AGENT_PROFILE_ID_RE (trim agentId) then Inr (trim agentId)
      else Inl (GatewayAgentConfigApiError (''Invalid agent profile id '' @ [CHR 0x22] @ agentId @ [CHR 0x22]
        @ ''. Expected '' @ [CHR 0x22] @ ''default'' @ [CHR 0x22] @ '' or [a-z0-9][a-z0-9_-]{0,63}.'') None))"

definition agentProfileConfigSourcePath :: "string \<Rightarrow> unknown + string" where
  "agentProfileConfigSourcePath agentId =
     and_then (assertAgentProfileId agentId) (\<lambda>i.
       Inr (if i = ''default'' then ''profiles/default/config.yaml'' else ''profiles/'' @ i @ ''/config.yaml''))"

definition agentConfigEndpoint :: "string \<Rightarrow> string" where
  "agentConfigEndpoint agentId = ''/api/agent-configs/'' @ encodeURIComponent agentId @ ''/config''"

definition agentProfileConfigPath :: "string \<Rightarrow> unknown + string" where
  "agentProfileConfigPath agentId = and_then (assertAgentProfileId agentId) (\<lambda>i. Inr (agentConfigEndpoint i))"

definition sourcePathForProfile :: "AgentProfileSummary option \<Rightarrow> string \<Rightarrow> (string \<Rightarrow> unknown + string) \<Rightarrow> unknown + string" where
  "sourcePathForProfile profile agentId defaultSourcePath =
     (case or_else (Option.bind profile pf_sourcePath) [] of
        [] \<Rightarrow> defaultSourcePath agentId
      | c # s \<Rightarrow>
          (let path = strip_slashes (trim (c # s)) in
           Inr (if suffix ''.yaml'' path \<or> suffix ''.yml'' path then path else path @ ''/config.yaml'')))"

section \<open>Voices\<close>

record AgentTtsProviderVoice =
  tv_provider :: string
  tv_isActive :: bool
  tv_voiceId :: "string option"
  tv_model :: "string option"
  tv_extras :: "(string, jv) omap"

record AgentVoiceConfig =
  vc_activeProvider :: "string option"
  vc_voices :: "AgentTtsProviderVoice list"

definition knownVoiceKeys :: "string list" where
  "knownVoiceKeys = [''voice_id'', ''voiceId'', ''voice'', ''model_id'', ''modelId'', ''model'']"

definition voice_extra :: "string \<times> jv \<Rightarrow> (string, jv) omap" where
  "voice_extra p =
     (if fst p \<in> set knownVoiceKeys then []
      else (case snd p of
              JStr s \<Rightarrow> if trim s \<noteq> [] then [(fst p, JStr (trim s))] else []
            | JNum x \<Rightarrow> if is_finite x then [p] else []
            | _ \<Rightarrow> []))"

definition voice_of :: "string option \<Rightarrow> string \<times> jv \<Rightarrow> AgentTtsProviderVoice option" where
  "voice_of activeProvider p =
     (if fst p = ''provider'' \<or> \<not> is_plain_object (snd p) then None
      else let sub = asRecord (snd p) in
        Some \<lparr>tv_provider = fst p, tv_isActive = (Some (fst p) = activeProvider),
          tv_voiceId = some_text (or_text (cleanString (member_of sub ''voice_id''))
            (or_text (cleanString (member_of sub ''voiceId'')) (cleanString (member_of sub ''voice'')))),
          tv_model = some_text (or_text (cleanString (member_of sub ''model_id''))
            (or_text (cleanString (member_of sub ''modelId'')) (cleanString (member_of sub ''model'')))),
          tv_extras = concat (map voice_extra sub)\<rparr>)"

definition tts_block :: "jv \<Rightarrow> (string, jv) omap" where
  "tts_block rawConfig =
     (let root = asRecord rawConfig; tts = asRecord (member_of root ''tts'') in
      if member_of tts ''provider'' \<noteq> JUndef \<or> tts \<noteq> [] then tts
      else asRecord (member_of (asRecord (member_of root ''config'')) ''tts''))"

definition voice_cmp :: "(string \<Rightarrow> string \<Rightarrow> int) \<Rightarrow> AgentTtsProviderVoice \<Rightarrow> AgentTtsProviderVoice \<Rightarrow> int" where
  "voice_cmp lc a b =
     (if tv_isActive a \<and> \<not> tv_isActive b then - 1
      else if \<not> tv_isActive a \<and> tv_isActive b then 1
      else lc (tv_provider a) (tv_provider b))"

definition parseAgentVoiceConfig :: "(string \<Rightarrow> string \<Rightarrow> int) \<Rightarrow> jv \<Rightarrow> AgentVoiceConfig" where
  "parseAgentVoiceConfig lc rawConfig =
     (let tts = tts_block rawConfig; active = some_text (cleanString (member_of tts ''provider'')) in
      \<lparr>vc_activeProvider = active,
       vc_voices = stable_sort (voice_cmp lc) (map the (filter (\<lambda>x. x \<noteq> None) (map (voice_of active) tts)))\<rparr>)"

section \<open>The form\<close>

record AgentConfigField =
  cf_key :: string
  cf_label :: string
  cf_description :: "string option"
  cf_kind :: AgentConfigFieldKind
  cf_value :: jv
  cf_editable :: "bool option"
  cf_sourcePath :: "string list option"

record AgentConfigSection =
  cs_id :: string
  cs_label :: string
  cs_fields :: "AgentConfigField list"

text \<open>A gateway's own sections are passed on as they are.\<close>

datatype form_sections = Built "AgentConfigSection list" | Native "jv list"

record AgentConfig =
  ac_agentId :: string
  ac_agentName :: string
  ac_sourcePath :: "string option"
  ac_etag :: "string option"
  ac_sections :: form_sections
  ac_voice :: "AgentVoiceConfig option"
  ac_fetchedAt :: jnum

definition category_index :: "string list \<Rightarrow> string \<Rightarrow> int" where
  "category_index order c = (if c \<in> set order then int (length (takeWhile (\<lambda>x. x \<noteq> c) order)) else max_safe)"

definition compareConfigPaths ::
  "(string \<Rightarrow> string \<Rightarrow> int) \<Rightarrow> (string, GatewayConfigSchemaField) omap \<Rightarrow> string list \<Rightarrow> string \<Rightarrow> string \<Rightarrow> int" where
  "compareConfigPaths lc fds order a b =
     (let ca = categoryForPath a (om_get fds a); cb = categoryForPath b (om_get fds b);
          ia = category_index order ca; ib = category_index order cb in
      if ia \<noteq> ib then ia - ib else if ca \<noteq> cb then lc ca cb else lc a b)"

definition config_paths :: "(string, jv) omap \<Rightarrow> (string, GatewayConfigSchemaField) omap \<Rightarrow> string list" where
  "config_paths config fds =
     foldl (\<lambda>ps p. if \<not> prefix ''_'' p \<and> \<not> isSensitiveKey p then os_add p ps else ps)
       (foldl (\<lambda>ps p. if \<not> isSensitiveKey p then os_add p ps else ps) [] (map fst fds))
       (map fst (flattenConfigPaths (JObj config) [] []))"

definition config_field ::
  "(string, jv) omap \<Rightarrow> (string, jv) omap \<Rightarrow> (string, GatewayConfigSchemaField) omap \<Rightarrow> string \<Rightarrow> AgentConfigField" where
  "config_field config defaults fds path =
     (let schema = om_get fds path; configValue = getPathValue config path;
          raw = (if configValue \<noteq> JUndef then configValue else getPathValue defaults path);
          kind = kindForSchemaField path schema raw
      in \<lparr>cf_key = path, cf_label = labelFromPath path,
          cf_description = Some (or_text (trim (or_else (Option.bind schema sf_description) [])) path),
          cf_kind = kind, cf_value = (if raw = JUndef then defaultValueForKind kind else configFieldValue raw),
          cf_editable = None, cf_sourcePath = Some (pathSegments path)\<rparr>)"

definition bucket_field ::
  "(string, GatewayConfigSchemaField) omap \<Rightarrow> (string \<Rightarrow> AgentConfigField) \<Rightarrow> (string, AgentConfigField list) omap
     \<Rightarrow> string \<Rightarrow> (string, AgentConfigField list) omap" where
  "bucket_field fds mk m path =
     (let category = categoryForPath path (om_get fds path) in
      om_set category (or_else (om_get m category) [] @ [mk path]) m)"

definition section_of :: "string \<Rightarrow> string \<Rightarrow> AgentConfigField list \<Rightarrow> AgentConfigSection option" where
  "section_of i label fds = (if fds \<noteq> [] then Some \<lparr>cs_id = i, cs_label = label, cs_fields = fds\<rparr> else None)"

definition identity_field :: "string \<Rightarrow> string \<Rightarrow> string \<Rightarrow> string \<Rightarrow> string list \<Rightarrow> AgentConfigField" where
  "identity_field key label description v path =
     \<lparr>cf_key = key, cf_label = label, cf_description = Some description, cf_kind = KText None, cf_value = JStr v,
      cf_editable = Some False, cf_sourcePath = Some path\<rparr>"

record config_input =
  ci_agentId :: string
  ci_config :: jv
  ci_schema :: jv
  ci_defaults :: jv
  ci_profile :: "AgentProfileSummary option"
  ci_defaultSourcePath :: "string \<Rightarrow> unknown + string"
  ci_fetchedAt :: "jnum option"
  ci_etag :: "string option"

definition config_sections ::
  "(string \<Rightarrow> string \<Rightarrow> int) \<Rightarrow> (string, jv) omap \<Rightarrow> (string, jv) omap \<Rightarrow> (string, GatewayConfigSchemaField) omap
     \<Rightarrow> string list \<Rightarrow> AgentConfigSection list" where
  "config_sections lc config defaults fds categoryOrder =
     (let paths = stable_sort (compareConfigPaths lc fds categoryOrder) (config_paths config fds);
          sectionMap = foldl (bucket_field fds (config_field config defaults fds)) [] paths;
          sectionOrder = categoryOrder @ stable_sort string_cmp (filter (\<lambda>c. c \<notin> set categoryOrder) (map fst sectionMap))
      in map the (filter (\<lambda>x. x \<noteq> None)
           (map (\<lambda>c. section_of c (titleCase c) (or_else (om_get sectionMap c) [])) sectionOrder)))"

definition buildAgentConfigFromConfigSnapshot ::
  "(string \<Rightarrow> string \<Rightarrow> int) \<Rightarrow> rat \<Rightarrow> config_input \<Rightarrow> unknown + AgentConfig" where
  "buildAgentConfigFromConfigSnapshot lc now inp =
     and_then (assertAgentProfileId (ci_agentId inp)) (\<lambda>agentId.
     and_then (sourcePathForProfile (ci_profile inp) agentId (ci_defaultSourcePath inp)) (\<lambda>sourcePath.
       let config = asRecord (ci_config inp); defaults = asRecord (ci_defaults inp);
           schema = normalizeSchemaPayload (coalesce (ci_schema inp) (JObj []));
           name = or_text (or_else (map_option pf_agentName (ci_profile inp)) []) agentId;
           identity = section_of ''profile'' ''Profile''
             [identity_field ''profile.name'' ''Profile'' ''Profile that owns this config'' name [''profile'', ''name''],
              identity_field ''profile.configPath'' ''Config source'' ''Profile config source'' sourcePath
                [''profile'', ''config.yaml'']];
           voice = parseAgentVoiceConfig lc (JObj config)
       in Inr \<lparr>ac_agentId = agentId, ac_agentName = name, ac_sourcePath = Some sourcePath,
            ac_etag = some_text (or_else (ci_etag inp) []),
            ac_sections = Built (map the (filter (\<lambda>x. x \<noteq> None)
              (identity # map Some (config_sections lc config defaults (fst schema) (snd schema))))),
            ac_voice = (if vc_voices voice \<noteq> [] then Some voice else None),
            ac_fetchedAt = or_else (ci_fetchedAt inp) (Fin now)\<rparr>))"

section \<open>Reading a gateway's answer\<close>

definition root_profile :: "(string, jv) omap \<Rightarrow> string \<Rightarrow> AgentProfileSummary option" where
  "root_profile rt agentId =
     (let p = asRecord (member_of rt ''profile'') in
      if truthy (member_of p ''name'')
      then Some \<lparr>pf_agentId = agentId, pf_agentName = or_text (cleanString (member_of p ''name'')) agentId,
             pf_sourcePath = Some (cleanString (member_of p ''path'')), pf_isActive = None, pf_isDefault = None,
             pf_model = None, pf_provider = None\<rparr>
      else None)"

definition snapshot_input ::
  "(string, jv) omap \<Rightarrow> string \<Rightarrow> (string \<Rightarrow> unknown + string) \<Rightarrow> (string, jv) omap \<Rightarrow> jv \<Rightarrow> jv \<Rightarrow> rat \<Rightarrow> config_input" where
  "snapshot_input rt agentId defaultSourcePath config schema defaults now =
     \<lparr>ci_agentId = agentId, ci_config = JObj config, ci_schema = schema, ci_defaults = defaults,
      ci_profile = root_profile rt agentId, ci_defaultSourcePath = defaultSourcePath,
      ci_fetchedAt = Some (or_else (asNumber (member_of rt ''fetchedAt'')) (Fin now)),
      ci_etag = Some (cleanString (member_of rt ''etag''))\<rparr>"

definition native_config :: "(string \<Rightarrow> string \<Rightarrow> int) \<Rightarrow> rat \<Rightarrow> (string, jv) omap \<Rightarrow> jv list \<Rightarrow> string \<Rightarrow> AgentConfig" where
  "native_config lc now candidate sections agentId =
     (let voice = parseAgentVoiceConfig lc (JObj candidate) in
      \<lparr>ac_agentId = or_text (cleanString (member_of candidate ''agentId'')) agentId,
       ac_agentName = or_text (cleanString (member_of candidate ''agentName''))
         (or_text (cleanString (member_of candidate ''name'')) agentId),
       ac_sourcePath = some_text (cleanString (member_of candidate ''sourcePath'')),
       ac_etag = some_text (cleanString (member_of candidate ''etag'')),
       ac_sections = Native sections, ac_voice = (if vc_voices voice \<noteq> [] then Some voice else None),
       ac_fetchedAt = or_else (asNumber (member_of candidate ''fetchedAt'')) (Fin now)\<rparr>)"

definition normalizeNativeConfigResponse ::
  "(string \<Rightarrow> string \<Rightarrow> int) \<Rightarrow> rat \<Rightarrow> jv \<Rightarrow> string \<Rightarrow> (string \<Rightarrow> unknown + string) \<Rightarrow> unknown + AgentConfig option" where
  "normalizeNativeConfigResponse lc now payload agentId defaultSourcePath =
     (let root = asRecord payload; config = asRecord (member_of root ''config'');
          candidate = (if truthy (member_of config ''sections'') then config else root) in
      case member_of candidate ''sections'' of
        JArr sections \<Rightarrow> Inr (Some (native_config lc now candidate sections agentId))
      | _ \<Rightarrow>
          if asRecord (member_of root ''schema'') \<noteq> [] \<or> asRecord (member_of root ''defaults'') \<noteq> []
          then and_then (buildAgentConfigFromConfigSnapshot lc now
                 (snapshot_input root agentId defaultSourcePath config (member_of root ''schema'') (member_of root ''defaults'') now))
                 (Inr \<circ> Some)
          else
            let raw = asRecord (member_of root ''rawConfig'');
                rawConfig = (if truthy (member_of raw ''model'') \<or> truthy (member_of raw ''agent'') then raw else config) in
            if rawConfig \<noteq> []
            then and_then (buildAgentConfigFromConfigSnapshot lc now
                   (snapshot_input root agentId defaultSourcePath rawConfig JUndef JUndef now)) (Inr \<circ> Some)
            else Inr None)"

section \<open>The client\<close>

definition AGENT_PROFILE_CONFIG_PATCH_CONTRACT :: string where
  "AGENT_PROFILE_CONFIG_PATCH_CONTRACT = ''AGENT_PROFILE_CONFIG_PATCH_V1''"

definition buildAgentProfileConfigPatchBody ::
  "string \<Rightarrow> (string, jv) omap \<Rightarrow> string option \<Rightarrow> jv \<Rightarrow> (string \<Rightarrow> unknown + string) \<Rightarrow> unknown + jv" where
  "buildAgentProfileConfigPatchBody agentId diff baseEtag sourcePath defaultSourcePath =
     and_then (assertAgentProfileId agentId) (\<lambda>i.
     and_then (if cleanString sourcePath \<noteq> [] then Inr (cleanString sourcePath) else defaultSourcePath i) (\<lambda>path.
       Inr (JObj ([(''contract'', JStr AGENT_PROFILE_CONFIG_PATCH_CONTRACT), (''version'', JNum (Fin 1)), (''agentId'', JStr i),
         (''profile'', JStr i), (''source'', JStr ''profile-config-yaml''), (''sourcePath'', JStr path),
         (''patch'', JObj (filter (\<lambda>p. snd p \<noteq> JUndef) diff))]
         @ (case some_text (or_else baseEtag []) of Some e \<Rightarrow> [(''baseEtag'', JStr e)] | None \<Rightarrow> [])))))"

record config_endpoints =
  ce_profiles :: string
  ce_agentConfigs :: string
  ce_agentConfig :: "string \<Rightarrow> string"

definition GATEWAY_AGENT_CONFIG_API_ENDPOINTS :: config_endpoints where
  "GATEWAY_AGENT_CONFIG_API_ENDPOINTS =
     \<lparr>ce_profiles = ''/api/profiles'', ce_agentConfigs = ''/api/agent-configs'', ce_agentConfig = agentConfigEndpoint\<rparr>"

record config_client =
  cc_http :: http_client
  cc_endpoints :: config_endpoints
  cc_defaultSourcePath :: "string \<Rightarrow> unknown + string"

definition GatewayAgentConfigApiClient ::
  "client_options \<Rightarrow> string option \<Rightarrow> config_endpoints option \<Rightarrow> (string \<Rightarrow> unknown + string) option \<Rightarrow> unknown + config_client" where
  "GatewayAgentConfigApiClient options surface endpoints defaultSourcePath =
     and_then (BaseHttpApiClient (or_else surface ''gateway-agent-config-api'') options) (\<lambda>hc.
       Inr \<lparr>cc_http = hc, cc_endpoints = or_else endpoints GATEWAY_AGENT_CONFIG_API_ENDPOINTS,
         cc_defaultSourcePath = or_else defaultSourcePath agentProfileConfigSourcePath\<rparr>)"

definition plain_init :: request_init where
  "plain_init = \<lparr>ri_method = None, ri_body = None, ri_rawBody = None, ri_headers = [], ri_idempotencyKey = None\<rparr>"

definition patch_init :: "jv \<Rightarrow> request_init" where
  "patch_init body = plain_init\<lparr>ri_method := Some PATCH, ri_body := Some body\<rparr>"

text \<open>\<open>Number(v)\<close>.\<close>

definition to_number :: "jv \<Rightarrow> jnum" where
  "to_number v =
     (case v of JNum x \<Rightarrow> x | JStr s \<Rightarrow> SseStream.js_number s | JBool b \<Rightarrow> (if b then Fin 1 else Fin 0) | JNull \<Rightarrow> Fin 0
      | JArr vs \<Rightarrow> SseStream.js_number (js_string (JArr vs)) | _ \<Rightarrow> NaN)"

definition isMissingAgentConfigRouteError :: "unknown \<Rightarrow> bool" where
  "isMissingAgentConfigRouteError e = (to_number (err_prop e ''status'') \<in> {Fin 404, Fin 405, Fin 501})"

text \<open>What a call asked for, in order, and what came of it; the answers are those to its requests.\<close>

type_synonym asked = "(string \<times> request_init) list"

definition listProfiles :: "config_client \<Rightarrow> exchange \<Rightarrow> exchange \<Rightarrow> asked \<times> (unknown + AgentProfileSummary list)" where
  "listProfiles c ex1 ex2 =
     (let first = (ce_agentConfigs (cc_endpoints c), plain_init); second = (ce_profiles (cc_endpoints c), plain_init);
          legacy = ([first, second], map_sum id normalizeAgentProfiles (snd (requestJson (cc_http c) plain_init (ce_profiles (cc_endpoints c)) ex2)))
      in case snd (requestJson (cc_http c) plain_init (ce_agentConfigs (cc_endpoints c)) ex1) of
           Inl e \<Rightarrow> if isMissingAgentConfigRouteError e then legacy else ([first], Inl e)
         | Inr payload \<Rightarrow>
             let root = asRecord payload;
                 native = normalizeAgentProfiles (JObj [(''profiles'',
                   coalesce (member_of root ''agents'') (member_of root ''profiles''))])
             in if native \<noteq> [] then ([first], Inr native) else legacy)"

definition getProfileConfig ::
  "(string \<Rightarrow> string \<Rightarrow> int) \<Rightarrow> rat \<Rightarrow> config_client \<Rightarrow> string \<Rightarrow> exchange \<Rightarrow> asked \<times> (unknown + AgentConfig)" where
  "getProfileConfig lc now c agentId ex =
     (case assertAgentProfileId agentId of
        Inl e \<Rightarrow> ([], Inl e)
      | Inr i \<Rightarrow>
          ([(ce_agentConfig (cc_endpoints c) i, plain_init)],
           and_then (snd (requestJson (cc_http c) plain_init (ce_agentConfig (cc_endpoints c) i) ex)) (\<lambda>payload.
           and_then (normalizeNativeConfigResponse lc now payload i (cc_defaultSourcePath c)) (\<lambda>config.
             (case config of
                Some x \<Rightarrow> Inr x
              | None \<Rightarrow> Inl (GatewayAgentConfigApiError ''Agent config API returned an invalid config payload.''
                  (Some (ce_agentConfig (cc_endpoints c) i))))))))"

definition patchProfileConfig ::
  "(string \<Rightarrow> string \<Rightarrow> int) \<Rightarrow> rat \<Rightarrow> config_client \<Rightarrow> string \<Rightarrow> (string, jv) omap \<Rightarrow> string option \<Rightarrow> jv \<Rightarrow> exchange \<Rightarrow> exchange
     \<Rightarrow> asked \<times> (unknown + AgentConfig)" where
  "patchProfileConfig lc now c agentId diff baseEtag sourcePath ex1 ex2 =
     (case assertAgentProfileId agentId of
        Inl e \<Rightarrow> ([], Inl e)
      | Inr i \<Rightarrow>
          (case buildAgentProfileConfigPatchBody i diff baseEtag sourcePath (cc_defaultSourcePath c) of
             Inl e \<Rightarrow> ([], Inl e)
           | Inr body \<Rightarrow>
               let asked = (ce_agentConfig (cc_endpoints c) i, patch_init body) in
               (case and_then (snd (requestJson (cc_http c) (patch_init body) (ce_agentConfig (cc_endpoints c) i) ex1)) (\<lambda>payload.
                       normalizeNativeConfigResponse lc now payload i (cc_defaultSourcePath c)) of
                  Inl e \<Rightarrow> ([asked], Inl e)
                | Inr (Some config) \<Rightarrow> ([asked], Inr config)
                | Inr None \<Rightarrow> apfst (Cons asked) (getProfileConfig lc now c i ex2))))"

section \<open>Setting a value\<close>

lemma get_prop_asRecord: "get_prop v k = member_of (asRecord v) k"
  by (simp add: get_prop_def member_of_def asRecord_def split: jv.split)

lemma asRecord_JObj [simp]: "asRecord (JObj m) = m"
  by (simp add: asRecord_def)

lemma get_set_segments:
  "segs \<noteq> [] \<Longrightarrow> get_segments (JObj (set_segments m segs v)) qs =
     (if prefix segs qs then get_segments v (drop (length segs) qs)
      else if prefix qs segs then JObj (set_segments (asRecord (get_segments (JObj m) qs)) (drop (length qs) segs) v)
      else get_segments (JObj m) qs)"
proof (induction m segs v arbitrary: qs rule: set_segments.induct)
  case (2 m k v)
  show ?case by (cases qs) auto
next
  case (3 m k l ls v)
  show ?case
  proof (cases qs)
    case (Cons q qs')
    show ?thesis
    proof (cases "q = k")
      case True
      have "get_segments JUndef qs' = (if qs' = [] then JUndef else JUndef)" for qs'
        by (cases qs') (simp_all add: asRecord_def)
      moreover have "get_segments (JObj (asRecord (member_of m k))) qs' = (case om_get m k of None \<Rightarrow> JUndef | Some x \<Rightarrow> get_segments x qs')"
        if "qs' \<noteq> []"
        using that by (cases qs') (auto simp: member_of_def asRecord_def split: option.splits)
      ultimately show ?thesis
        using "3.IH" [of qs'] Cons True
        by (cases "qs' = []") (auto simp: member_of_def split: option.splits)
    qed (use Cons in auto)
  qed (simp add: member_of_def)
qed simp

lemma json_clone_plain: "json_plain v \<Longrightarrow> json_clone v = Some v"
proof -
  assume p: "json_plain v"
  then have "json_stringify v = Some (json_text v)" by (cases v) (simp_all add: json_stringify_def)
  then show ?thesis using json_roundtrip [OF p] by (simp add: json_clone_def)
qed

lemma find_list_ex: "find P xs = None \<longleftrightarrow> \<not> list_ex P xs"
  by (induction xs) auto

text \<open>C22: Writing a value into a configuration and reading it back. A path through an unsafe name is refused, and only
  such a path; a blank path changes nothing; otherwise the value is read back at the path and below it, what lies on
  the way is an object, and every path that neither extends nor leads to it reads as before.\<close>

theorem config_path_roundtrip:
  assumes "json_plain (JObj config)"
  shows "let segs = pathSegments path; qs = pathSegments q in
    case setAgentConfigPathValue config path v of
      Inl e \<Rightarrow> list_ex (\<lambda>s. s \<in> set UNSAFE_CONFIG_PATH_SEGMENTS) segs
    | Inr c \<Rightarrow>
        \<not> list_ex (\<lambda>s. s \<in> set UNSAFE_CONFIG_PATH_SEGMENTS) segs
        \<and> (if segs = [] then c = config
           else if prefix segs qs then getPathValue c q = get_segments v (drop (length segs) qs)
           else if prefix qs segs then is_plain_object (getPathValue c q)
           else getPathValue c q = getPathValue config q)"
proof (cases "find (\<lambda>s. s \<in> set UNSAFE_CONFIG_PATH_SEGMENTS) (pathSegments path)")
  case None
  then show ?thesis
    using assms get_set_segments [of "pathSegments path" config v "pathSegments q"] find_list_ex
    by (auto simp: setAgentConfigPathValue_def cloneJsonRecord_def json_clone_plain getPathValue_def is_plain_object_def Let_def)
next
  case (Some s)
  then have "list_ex (\<lambda>s. s \<in> set UNSAFE_CONFIG_PATH_SEGMENTS) (pathSegments path)" "pathSegments path \<noteq> []"
    using find_list_ex [of "\<lambda>s. s \<in> set UNSAFE_CONFIG_PATH_SEGMENTS" "pathSegments path"] by auto
  then show ?thesis using Some by (simp add: setAgentConfigPathValue_def Let_def)
qed

theorem config_path_roundtrip_witness:
  "case setAgentConfigPathValue [(''a'', JObj [(''b'', JNull)])] ''a.c'' (JBool True) of
     Inl _ \<Rightarrow> False | Inr c \<Rightarrow> getPathValue c ''a.b'' = JNull"
proof -
  have "trim ''a'' = ''a''" "trim ''b'' = ''b''" "trim ''c'' = ''c''" by (rule trim_graph; simp add: graph_char_def)+
  then have s: "pathSegments ''a.b'' = [''a'', ''b'']" "pathSegments ''a.c'' = [''a'', ''c'']" by (simp_all add: pathSegments_def)
  have "getPathValue [(''a'', JObj [(''b'', JNull)])] ''a.b'' = JNull" by (simp add: getPathValue_def s)
  then show ?thesis
    using config_path_roundtrip [of "[(''a'', JObj [(''b'', JNull)])]" "''a.c''" "''a.b''" "JBool True"]
    by (simp add: s UNSAFE_CONFIG_PATH_SEGMENTS_def Let_def split: sum.splits)
qed

section \<open>The form of a configuration\<close>

lemma foldl_os_add:
  "set (foldl (\<lambda>ps p. if P p then os_add p ps else ps) acc xs) = set acc \<union> {x \<in> set xs. P x}"
  "distinct acc \<Longrightarrow> distinct (foldl (\<lambda>ps p. if P p then os_add p ps else ps) acc xs)"
  by (induction xs arbitrary: acc) auto

lemma config_paths_set:
  "p \<in> set (config_paths config fds) \<longleftrightarrow>
     \<not> isSensitiveKey p \<and> (om_has fds p \<or> \<not> prefix ''_'' p \<and> om_has (flattenConfigPaths (JObj config) [] []) p)"
  by (auto simp: config_paths_def foldl_os_add om_has_iff simp del: flattenConfigPaths.simps)

lemma config_paths_distinct: "distinct (config_paths config fds)"
  by (simp add: config_paths_def foldl_os_add)

abbreviation path_category :: "(string, GatewayConfigSchemaField) omap \<Rightarrow> string \<Rightarrow> string" where
  "path_category fds p \<equiv> categoryForPath p (om_get fds p)"

lemma bucket_fold:
  "om_get (foldl (bucket_field fds mk) m ps) c =
      (if om_has m c \<or> c \<in> path_category fds ` set ps
       then Some (or_else (om_get m c) [] @ map mk (filter (\<lambda>p. path_category fds p = c) ps)) else None)"
  "om_ok m \<Longrightarrow> om_ok (foldl (bucket_field fds mk) m ps)"
  by (induction ps arbitrary: m) (auto simp: bucket_field_def Let_def om_has_def or_else_def split: option.splits)

lemma bucket_keys: "set (map fst (foldl (bucket_field fds mk) [] ps)) = path_category fds ` set ps"
proof -
  have "c \<in> fst ` set (foldl (bucket_field fds mk) [] ps) \<longleftrightarrow> c \<in> path_category fds ` set ps" for c
    unfolding om_has_iff [symmetric] unfolding om_has_def bucket_fold by (simp add: om_has_def)
  then show ?thesis by (simp only: set_map) blast
qed

text \<open>The categories shown: those of the schema's order that have a path, then the others by name.\<close>

definition section_categories ::
  "(string, jv) omap \<Rightarrow> (string, GatewayConfigSchemaField) omap \<Rightarrow> string list \<Rightarrow> string list" where
  "section_categories config fds order =
     (let cats = remdups (map (path_category fds) (config_paths config fds)) in
      filter (\<lambda>c. c \<in> set cats) order @ stable_sort string_cmp (filter (\<lambda>c. c \<notin> set order) cats))"

lemma map_the_filter: "map the (filter (\<lambda>x. x \<noteq> None) (map (\<lambda>c. if P c then Some (f c) else None) xs)) = map f (filter P xs)"
  by (induction xs) auto

lemma config_sections_eq:
  "config_sections lc config defaults fds order =
     map (\<lambda>c. \<lparr>cs_id = c, cs_label = titleCase c, cs_fields = map (config_field config defaults fds)
           (filter (\<lambda>p. path_category fds p = c) (stable_sort (compareConfigPaths lc fds order) (config_paths config fds)))\<rparr>)
       (section_categories config fds order)"
  (is "_ = map ?sec _")
proof -
  let ?ps = "stable_sort (compareConfigPaths lc fds order) (config_paths config fds)"
  let ?m = "foldl (bucket_field fds (config_field config defaults fds)) [] ?ps"
  let ?rest = "filter (\<lambda>c. c \<notin> set order) (map fst ?m)"
  let ?cats = "remdups (map (path_category fds) (config_paths config fds))"
  have keys: "set (map fst ?m) = set ?cats" unfolding bucket_keys by simp
  have g: "section_of c (titleCase c) (or_else (om_get ?m c) []) = (if c \<in> set ?cats then Some (?sec c) else None)" for c
    by (auto simp: bucket_fold section_of_def om_has_def or_else_def filter_empty_conv)
  have "distinct (map fst ?m)" using bucket_fold(2) [of "[]"] by (simp add: om_ok_def)
  then have "mset ?rest = mset (filter (\<lambda>c. c \<notin> set order) ?cats)"
    using keys by (simp only: set_eq_iff_mset_eq_distinct [symmetric] distinct_filter distinct_remdups set_filter)
  then have r: "stable_sort string_cmp ?rest = stable_sort string_cmp (filter (\<lambda>c. c \<notin> set order) ?cats)"
    by (rule byte_order.sort_perm)
  have "filter (\<lambda>c. c \<in> set ?cats) (stable_sort string_cmp ?rest) = stable_sort string_cmp ?rest"
    using keys by (auto simp: filter_id_conv)
  then have "filter (\<lambda>c. c \<in> set ?cats) (order @ stable_sort string_cmp ?rest) = section_categories config fds order"
    unfolding section_categories_def Let_def filter_append r by simp
  moreover have "config_sections lc config defaults fds order
      = map ?sec (filter (\<lambda>c. c \<in> set ?cats) (order @ stable_sort string_cmp ?rest))"
    using map_the_filter [of "\<lambda>c. c \<in> set ?cats" ?sec "order @ stable_sort string_cmp ?rest"]
    unfolding config_sections_def Let_def g by simp
  ultimately show ?thesis by simp
qed






section \<open>The order of the form\<close>

lemma category_index_pos: "0 \<le> category_index order c"
  by (simp add: category_index_def max_safe_def)

lemma strict_refl: "strict_comparison lc \<Longrightarrow> lc a a \<le> 0"
  using comparison.total [OF strict_comparison.axioms(1)] by metis

text \<open>A consistent collation that tells strings apart orders the paths consistently.\<close>

lemma config_comparison:
  assumes "strict_comparison lc"
  shows "strict_comparison (compareConfigPaths lc fds order)"
proof
  note lc = comparison.total [OF strict_comparison.axioms(1) [OF assms]]
    comparison.trans [OF strict_comparison.axioms(1) [OF assms]] strict_comparison.antisym [OF assms]
  let ?c = "path_category fds" and ?i = "\<lambda>p. category_index order (path_category fds p)"
  have le: "compareConfigPaths lc fds order a b \<le> 0 \<longleftrightarrow>
      ?i a < ?i b \<or> ?i a = ?i b \<and> (if ?c a \<noteq> ?c b then lc (?c a) (?c b) \<le> 0 else lc a b \<le> 0)" for a b
    by (auto simp: compareConfigPaths_def Let_def)
  show "compareConfigPaths lc fds order a b \<le> 0 \<or> compareConfigPaths lc fds order b a \<le> 0" for a b
    unfolding le using lc(1) by (cases "?i a" "?i b" rule: linorder_cases) auto
  show "compareConfigPaths lc fds order a c \<le> 0"
    if "compareConfigPaths lc fds order a b \<le> 0" "compareConfigPaths lc fds order b c \<le> 0" for a b c
  proof (cases "?i a < ?i b \<or> ?i b < ?i c")
    case True
    then show ?thesis using that unfolding le by linarith
  next
    case False
    then have i: "?i a = ?i b" "?i b = ?i c" using that unfolding le by linarith+
    show ?thesis
    proof (cases "?c a = ?c b \<and> ?c b = ?c c")
      case True
      then show ?thesis using that lc(2) [of a b c] unfolding le by simp
    next
      case False
      have "lc (?c a) (?c b) \<le> 0" "lc (?c b) (?c c) \<le> 0"
        using that i strict_refl [OF assms] unfolding le by (metis order_less_irrefl)+
      then show ?thesis using lc(2,3) [of "?c a" "?c b"] lc(2) [of "?c a" "?c b" "?c c"] False i unfolding le by auto
    qed
  qed
  show "a = b" if "compareConfigPaths lc fds order a b \<le> 0" "compareConfigPaths lc fds order b a \<le> 0" for a b
    using that lc(3) [of a b] lc(3) [of "?c a" "?c b"] unfolding le by (auto split: if_splits)
qed

text \<open>The form does not depend on how a configuration lists its members: when the collation is consistent and tells
  strings apart, two configurations with the same paths give the same sections in the same order, each listing its
  paths in the collation's order.\<close>

theorem config_form_order:
  assumes "strict_comparison lc" and "set (config_paths config fds) = set (config_paths config' fds)"
  shows "map (\<lambda>s. (cs_id s, map cf_key (cs_fields s))) (config_sections lc config defaults fds order)
      = map (\<lambda>s. (cs_id s, map cf_key (cs_fields s))) (config_sections lc config' defaults fds order)
    \<and> list_all (\<lambda>s. sorted_wrt (\<lambda>a b. lc a b \<le> 0) (map cf_key (cs_fields s))) (config_sections lc config defaults fds order)"
proof -
  note cmp = config_comparison [OF assms(1), of fds order]
  have m: "mset (config_paths config fds) = mset (config_paths config' fds)"
    using assms(2) config_paths_distinct set_eq_iff_mset_eq_distinct by blast
  have ps: "stable_sort (compareConfigPaths lc fds order) (config_paths config fds)
      = stable_sort (compareConfigPaths lc fds order) (config_paths config' fds)"
    by (rule strict_comparison.sort_perm [OF cmp m])
  let ?cats = "\<lambda>c. filter (\<lambda>x. x \<notin> set order) (remdups (map (path_category fds) (config_paths c fds)))"
  have "distinct (?cats c)" for c by simp
  moreover have "set (?cats config) = set (?cats config')" using assms(2) by simp
  ultimately have "mset (?cats config) = mset (?cats config')" using set_eq_iff_mset_eq_distinct by blast
  then have "stable_sort string_cmp (?cats config) = stable_sort string_cmp (?cats config')"
    by (rule byte_order.sort_perm)
  then have cs: "section_categories config fds order = section_categories config' fds order"
    using assms(2) by (simp add: section_categories_def Let_def)
  have k: "cf_key (config_field c d fds p) = p" for c d p by (simp add: config_field_def Let_def)
  have "sorted_wrt (\<lambda>a b. lc a b \<le> 0) (filter (\<lambda>p. path_category fds p = c) xs)"
    if "sorted_wrt (\<lambda>a b. compareConfigPaths lc fds order a b \<le> 0) xs" for c xs
    using that by (induction xs) (auto simp: compareConfigPaths_def Let_def)
  then have "sorted_wrt (\<lambda>a b. lc a b \<le> 0) (filter (\<lambda>p. path_category fds p = c)
      (stable_sort (compareConfigPaths lc fds order) (config_paths config fds)))" for c
    using comparison.in_order_sort [OF strict_comparison.axioms(1) [OF cmp]] by blast
  then show ?thesis
    using ps cs by (simp add: config_sections_eq k comp_def list_all_iff)
qed

theorem config_form_order_witness:
  "map (\<lambda>s. (cs_id s, map cf_key (cs_fields s))) (config_sections string_cmp [(''a'', JNull), (''b'', JBool True)] [] [] [])
     = map (\<lambda>s. (cs_id s, map cf_key (cs_fields s))) (config_sections string_cmp [(''b'', JBool True), (''a'', JNull)] [] [] [])"
proof -
  have "set (config_paths [(''a'', JNull), (''b'', JBool True)] []) = set (config_paths [(''b'', JBool True), (''a'', JNull)] [])"
    by (auto simp: config_paths_set om_has_def split: if_splits)
  from config_form_order [OF byte_order.strict_comparison_axioms this, of "[]" "[]"] show ?thesis by simp
qed

section \<open>Choices\<close>

lemma withOption_offers:
  "(v \<noteq> [] \<or> label \<noteq> None) \<Longrightarrow> list_ex (\<lambda>x. op_value x = v) (withOption options v label)"
  by (auto simp: withOption_def)

lemma kind_select:
  "kindForSchemaField path schema v = KSelect os \<Longrightarrow>
     if path = ''agent.reasoning_effort'' then os = withOption REASONING_EFFORT_OPTIONS (shown_text v) None
     else os = normalizeSchemaOptions (Option.bind schema sf_options) v \<and> os \<noteq> []"
  unfolding kindForSchemaField_def Let_def
  by (simp only: AgentConfigFieldKind.distinct AgentConfigFieldKind.inject if_True if_False simp_thms split: if_split_asm)

lemma kind_number:
  "kindForSchemaField path schema v = KNumber lo hi step \<Longrightarrow>
     lo = Option.bind schema sf_min \<and> hi = Option.bind schema sf_max \<and> step = Option.bind schema sf_step"
  unfolding kindForSchemaField_def Let_def
  by (simp only: AgentConfigFieldKind.distinct AgentConfigFieldKind.inject if_True if_False simp_thms split: if_split_asm)

text \<open>A select field always has choices, and its current value is one of them, whatever the schema offers; a
  number field carries the schema's limits and only finite ones.\<close>

theorem select_offers_current:
  "case kindForSchemaField path (Some (normalizeSchemaField schema)) v of
     KSelect options \<Rightarrow> options \<noteq> []
       \<and> (if shown_text v \<noteq> [] \<or> v = JNull \<and> path \<noteq> ''agent.reasoning_effort''
          then list_ex (\<lambda>x. op_value x = shown_text v) options else True)
   | KNumber lo hi step \<Rightarrow>
       lo = asNumber (member_of (asRecord schema) ''min'') \<and> hi = asNumber (member_of (asRecord schema) ''max'')
       \<and> pred_option is_finite lo \<and> pred_option is_finite hi \<and> pred_option is_finite step
   | _ \<Rightarrow> True"
proof (cases "kindForSchemaField path (Some (normalizeSchemaField schema)) v")
  case (KSelect os)
  have r: "withOption REASONING_EFFORT_OPTIONS x l \<noteq> []" for x l
    by (simp add: withOption_def REASONING_EFFORT_OPTIONS_def)
  have k: "if path = ''agent.reasoning_effort'' then os = withOption REASONING_EFFORT_OPTIONS (shown_text v) None
     else os = normalizeSchemaOptions (sf_options (normalizeSchemaField schema)) v \<and> os \<noteq> []"
    using kind_select [OF KSelect] unfolding Option.bind.simps .
  have "os \<noteq> []" using k r by (cases "path = ''agent.reasoning_effort''") metis+
  moreover have "list_ex (\<lambda>x. op_value x = shown_text v) os"
    if "shown_text v \<noteq> [] \<or> v = JNull \<and> path \<noteq> ''agent.reasoning_effort''"
    using k that withOption_offers [of "shown_text v"]
    by (cases "path = ''agent.reasoning_effort''") (simp_all add: normalizeSchemaOptions_def)
  ultimately show ?thesis unfolding KSelect by simp
next
  case (KNumber lo hi step)
  have "pred_option is_finite (asNumber x)" for x by (cases "asNumber x") (auto dest: asNumber_Some)
  then show ?thesis
    using kind_number [OF KNumber] unfolding KNumber by (simp add: normalizeSchemaField_def Let_def)
qed simp_all

section \<open>The client's calls\<close>

lemma profile_id_unreserved: "AGENT_PROFILE_ID_RE s \<Longrightarrow> list_all uri_unreserved s"
proof -
  have p: "profile_id_char c \<Longrightarrow> uri_unreserved c" for c
    by (auto simp: profile_id_char_def is_lower_def uri_unreserved_def is_alnum_def to_lower_char_def Let_def)
  have "uri_unreserved CHR ''_''" "uri_unreserved CHR ''-''" "list_all uri_unreserved ''default''"
    by (simp_all add: uri_unreserved_def is_alnum_def to_lower_char_def Let_def)
  then show "AGENT_PROFILE_ID_RE s \<Longrightarrow> list_all uri_unreserved s"
    using p by (cases s) (auto simp: AGENT_PROFILE_ID_RE_def list_all_iff)
qed

lemma encode_unreserved: "list_all uri_unreserved s \<Longrightarrow> encodeURIComponent s = s"
  by (induction s) (simp_all add: encodeURIComponent_def uri_char_def)

lemma agent_endpoint_plain: "AGENT_PROFILE_ID_RE s \<Longrightarrow> agentConfigEndpoint s = ''/api/agent-configs/'' @ s @ ''/config''"
  by (simp add: agentConfigEndpoint_def encode_unreserved profile_id_unreserved)

lemma assert_valid: "AGENT_PROFILE_ID_RE (trim s) \<Longrightarrow> assertAgentProfileId (trim s) = Inr (trim s)"
  by (simp add: assertAgentProfileId_def)

text \<open>C26: Patching a profile. An id that is no profile id is refused before any request; otherwise the only requests are
  one \<open>PATCH\<close> that carries the id and the defined members of the change, and, exactly when it is answered without a
  configuration, one read, both at the profile's own path, into which the id goes unescaped.\<close>

theorem config_patch_calls:
  "case patchProfileConfig lc now c agentId diff baseEtag sourcePath ex1 ex2 of (asked, result) \<Rightarrow>
     (if AGENT_PROFILE_ID_RE (trim agentId)
      then list_all (\<lambda>r. fst r = ce_agentConfig (cc_endpoints c) (trim agentId)) asked
        \<and> (if cc_endpoints c = GATEWAY_AGENT_CONFIG_API_ENDPOINTS
           then ce_agentConfig (cc_endpoints c) (trim agentId) = ''/api/agent-configs/'' @ trim agentId @ ''/config'' else True)
        \<and> (case asked of
             [] \<Rightarrow> cleanString sourcePath = [] \<and> (\<exists>e. cc_defaultSourcePath c (trim agentId) = Inl e \<and> result = Inl e)
           | (_, init) # reads \<Rightarrow>
               ri_method init = Some PATCH
               \<and> get_prop (the (ri_body init)) ''agentId'' = JStr (trim agentId)
               \<and> get_prop (the (ri_body init)) ''patch'' = JObj (filter (\<lambda>p. snd p \<noteq> JUndef) diff)
               \<and> reads = (if and_then (snd (requestJson (cc_http c) init (ce_agentConfig (cc_endpoints c) (trim agentId)) ex1))
                    (\<lambda>payload. normalizeNativeConfigResponse lc now payload (trim agentId) (cc_defaultSourcePath c)) = Inr None
                  then [(ce_agentConfig (cc_endpoints c) (trim agentId), plain_init)] else []))
      else asked = [] \<and> (\<exists>e. result = Inl e))"
proof (cases "AGENT_PROFILE_ID_RE (trim agentId)")
  case True
  note a = assert_valid [OF True]
  have a': "assertAgentProfileId agentId = Inr (trim agentId)" using True by (simp add: assertAgentProfileId_def)
  show ?thesis
  proof (cases "buildAgentProfileConfigPatchBody (trim agentId) diff baseEtag sourcePath (cc_defaultSourcePath c)")
    case (Inl e)
    then have "cleanString sourcePath = []" "cc_defaultSourcePath c (trim agentId) = Inl e"
      by (auto simp: buildAgentProfileConfigPatchBody_def and_then_Inl a split: if_splits)
    then show ?thesis
      using True a' Inl agent_endpoint_plain [OF True] by (simp add: patchProfileConfig_def GATEWAY_AGENT_CONFIG_API_ENDPOINTS_def)
  next
    case (Inr body)
    then have b: "get_prop body ''agentId'' = JStr (trim agentId)"
      "get_prop body ''patch'' = JObj (filter (\<lambda>p. snd p \<noteq> JUndef) diff)"
      by (auto simp: buildAgentProfileConfigPatchBody_def and_then_Inr a get_prop_def)
    show ?thesis
      using True a' a Inr b agent_endpoint_plain [OF True]
      by (auto simp: patchProfileConfig_def getProfileConfig_def GATEWAY_AGENT_CONFIG_API_ENDPOINTS_def Let_def patch_init_def
          split: sum.split option.split)
  qed
next
  case False
  then show ?thesis by (simp add: patchProfileConfig_def assertAgentProfileId_def)
qed

section \<open>Corner cases\<close>

text \<open>A member whose name has a dot is listed under a path that reads as absent.\<close>

lemma dotted_member_unread:
  "om_has (flattenConfigPaths (JObj [(''a.b'', v)]) [] []) ''a.b'' \<and> getPathValue [(''a.b'', v)] ''a.b'' = JUndef"
  if "\<not> is_js_object v"
proof -
  have "trim ''a'' = ''a''" "trim ''b'' = ''b''" by (rule trim_graph; simp add: graph_char_def)+
  then show ?thesis
    using that by (cases v) (simp_all add: getPathValue_def pathSegments_def om_has_def is_js_object_def)
qed

text \<open>A path without segments reads as the whole configuration.\<close>

lemma dot_path_reads_all: "getPathValue config ''.'' = JObj config"
  by (simp add: getPathValue_def pathSegments_def trim_def trim_start_def trim_end_def strip_prefixes_stop find_None_iff)

text \<open>A schema field on the path of an object shows the object with all its members.\<close>

lemma parent_path_shows_members:
  "getPathValue config p = JObj m \<Longrightarrow> cf_value (config_field config defaults fds p) = JObj m"
  by (simp add: config_field_def configFieldValue_def Let_def)

text \<open>A category the schema lists twice is shown twice.\<close>

lemma repeated_category:
  "c \<in> path_category fds ` set (config_paths config fds) \<Longrightarrow> \<not> distinct (section_categories config fds [c, c])"
  by (simp add: section_categories_def Let_def)

text \<open>An option whose value is a number has no value.\<close>

lemma number_option_dropped: "schema_option (JObj [(''value'', JNum x), (''label'', JStr l)]) = None"
  by (simp add: schema_option_def member_of_def cleanString_def or_text_def is_primitive_def Let_def)

end
