(* ===== verification/AgentCommands.thy ===== *)
theory AgentCommands
  imports AgentConfigs RunCompose
begin

text \<open>
  Chat commands and mentions: \<open>src/core/gateway/agent/commands.ts\<close>. The slash commands an agent or a gateway's
  capabilities offer are collected from free-form values, normalised and shown without repetition, the core ones
  first. An agent is the data value it is read from.
\<close>

section \<open>Shortcuts\<close>

record AgentCommandShortcut =
  sc_id :: string
  sc_label :: string
  sc_insert :: string
  sc_description :: "string option"

record AgentMentionSuggestion =
  ms_id :: string
  ms_label :: string
  ms_insert :: string

definition core_shortcut :: "string \<Rightarrow> string \<Rightarrow> string \<Rightarrow> AgentCommandShortcut" where
  "core_shortcut i tail description =
     \<lparr>sc_id = i, sc_label = ''/'' @ i, sc_insert = ''/'' @ i @ tail, sc_description = Some description\<rparr>"

definition FALLBACK_CORE_SLASH_COMMANDS :: "AgentCommandShortcut list" where
  "FALLBACK_CORE_SLASH_COMMANDS =
     [core_shortcut ''help'' [] ''Short help summary from the gateway'',
      core_shortcut ''commands'' [] ''Live command catalog for this session'',
      core_shortcut ''agent'' '' '' ''Show or switch the active agent'',
      core_shortcut ''session'' [] ''Show the current session binding'',
      core_shortcut ''status'' [] ''Gateway, runtime, and provider usage status'',
      core_shortcut ''tools'' [] ''Tools the active agent can use right now'',
      core_shortcut ''new'' [] ''Start a new session (alias: /reset)'',
      core_shortcut ''stop'' [] ''Abort the current run'',
      core_shortcut ''model'' [] ''Show or set the active model'',
      core_shortcut ''think'' '' '' ''Set thinking level (e.g. low|medium|high)'',
      core_shortcut ''verbose'' '' '' ''Toggle verbose output (on|off|full)'',
      core_shortcut ''queue'' '' '' ''Manage queue behavior (steer|interrupt|...)'',
      core_shortcut ''skill'' '' '' ''Run a skill by name'',
      core_shortcut ''focus'' '' '' ''Bind this thread to an agent target'',
      core_shortcut ''unfocus'' [] ''Remove the current thread binding'',
      core_shortcut ''whoami'' [] ''Show your sender id'']"

section \<open>Text\<close>

definition cleanInsertString :: "jv \<Rightarrow> string" where
  "cleanInsertString v = (case v of JStr s \<Rightarrow> trim_start s | _ \<Rightarrow> [])"

definition slug_char :: "char \<Rightarrow> bool" where
  "slug_char c = (is_lower c \<or> is_digit c)"

definition underscore :: re where
  "underscore = rplus (RByte (\<lambda>c. c = CHR ''_''))"

definition stableSlug :: "string \<Rightarrow> string" where
  "stableSlug v =
     or_text (take 72 (rreplace (RAlt (RSeq RStart underscore) (RSeq underscore REnd)) (\<lambda>_. [])
       (rreplace (rplus (RByte (\<lambda>c. \<not> slug_char c))) (\<lambda>_. ''_'') (to_lower v)))) ''command''"

text \<open>The text before the first white space.\<close>

fun commandHead :: "string \<Rightarrow> string" where
  "commandHead [] = []"
| "commandHead (c # s) = (if 0 < space_len (c # s) then [] else c # commandHead s)"

definition agentLabel :: "jv \<Rightarrow> string" where
  "agentLabel agent =
     or_text (cleanString (get_prop agent ''name'')) (or_text (cleanString (get_prop agent ''id'')) ''agent'')"

definition agent_slug :: "jv \<Rightarrow> string" where
  "agent_slug agent = stableSlug (or_text (cleanString (get_prop agent ''id'')) (agentLabel agent))"

definition first_text :: "string list \<Rightarrow> string" where
  "first_text ss = (case filter (\<lambda>s. s \<noteq> []) ss of s # _ \<Rightarrow> s | [] \<Rightarrow> [])"

definition firstString :: "jv \<Rightarrow> string list \<Rightarrow> string" where
  "firstString r keys = first_text (map (\<lambda>k. cleanString (get_prop r k)) keys)"

definition firstInsertString :: "jv \<Rightarrow> string list \<Rightarrow> string" where
  "firstInsertString r keys =
     (case filter (\<lambda>s. trim s \<noteq> []) (map (\<lambda>k. cleanInsertString (get_prop r k)) keys) of s # _ \<Rightarrow> s | [] \<Rightarrow> [])"

definition normalizeSlashTrigger :: "jv \<Rightarrow> jv \<Rightarrow> AgentCommandShortcut option" where
  "normalizeSlashTrigger agent raw =
     (let trigger = cleanString raw; label = commandHead trigger in
      if \<not> prefix ''/'' trigger \<or> length label \<le> 1 then None
      else
        let tail = trim (drop (length label) trigger) in
        Some \<lparr>sc_id = ''agent_'' @ agent_slug agent @ ''_'' @ stableSlug trigger, sc_label = label,
          sc_insert = (if suffix '' '' trigger then trigger else if tail \<noteq> [] then trigger else label),
          sc_description = Some (if tail \<noteq> [] then agentLabel agent @ '' preset: '' @ tail else agentLabel agent @ '' command'')\<rparr>)"

section \<open>Where commands are found\<close>

definition COMMAND_VALUE_KEYS :: "string list" where
  "COMMAND_VALUE_KEYS = [''command'', ''cmd'', ''slashCommand'', ''slash_command'', ''insert'', ''template'', ''prefill'',
     ''value'', ''name'', ''id'']"

definition COMMAND_DESCRIPTION_KEYS :: "string list" where
  "COMMAND_DESCRIPTION_KEYS = [''description'', ''summary'', ''help'', ''hint'', ''label'']"

definition COMMAND_SOURCE_KEYS :: "string list" where
  "COMMAND_SOURCE_KEYS = [''commands'', ''slashCommands'', ''slash_commands'', ''commandRegistry'', ''command_registry'',
     ''command'', ''cmd'', ''slashCommand'', ''slash_command'', ''commandModifier'', ''command_modifier'']"

definition COMMAND_SECTION_KEYS :: "string list" where
  "COMMAND_SECTION_KEYS = [''routing'', ''config'', ''snapshot'', ''orchestration'', ''metadata'', ''profile'']"

definition MENTION_SOURCE_KEYS :: "string list" where
  "MENTION_SOURCE_KEYS = [''triggers'', ''mentions'', ''mentionTriggers'', ''mention_triggers'', ''aliases'', ''keywords'']"

definition starts_slash :: "string \<Rightarrow> bool" where
  "starts_slash s = prefix ''/'' s"

definition normalizeSlashCommandEntry :: "jv \<Rightarrow> jv \<Rightarrow> AgentCommandShortcut option" where
  "normalizeSlashCommandEntry agent raw =
     (case raw of
        JStr _ \<Rightarrow> normalizeSlashTrigger agent raw
      | JObj _ \<Rightarrow>
          (let insertCandidate = firstInsertString raw [''insert'', ''template'', ''prefill''];
               commandCandidate = firstString raw COMMAND_VALUE_KEYS;
               command = (if starts_slash insertCandidate then insertCandidate
                          else if starts_slash commandCandidate then commandCandidate else [])
           in case normalizeSlashTrigger agent (JStr command) of
                None \<Rightarrow> None
              | Some shortcut \<Rightarrow>
                  (let description = firstString raw COMMAND_DESCRIPTION_KEYS in
                   if description = [] \<or> starts_slash description then Some shortcut
                   else Some (shortcut\<lparr>sc_description := Some description\<rparr>)))
      | _ \<Rightarrow> None)"

definition has_command :: "(string, jv) omap \<Rightarrow> bool" where
  "has_command m = list_ex (\<lambda>k. cleanString (member_of m k) \<noteq> []) COMMAND_VALUE_KEYS"

fun collectCommandEntries :: "jv \<Rightarrow> jv list"
  and collect_items :: "jv list \<Rightarrow> jv list"
  and collect_values :: "(string \<times> jv) list \<Rightarrow> jv list" where
  "collectCommandEntries JUndef = []"
| "collectCommandEntries JNull = []"
| "collectCommandEntries (JArr vs) = collect_items vs"
| "collectCommandEntries (JObj m) = (if has_command m then [JObj m] else collect_values m)"
| "collectCommandEntries v = [v]"
| "collect_items [] = []"
| "collect_items (v # vs) = collectCommandEntries v @ collect_items vs"
| "collect_values [] = []"
| "collect_values ((k, v) # ms) = collectCommandEntries v @ collect_values ms"

definition CATALOG_KEYS :: "string list" where
  "CATALOG_KEYS = [''commands'', ''slashCommands'', ''slash_commands'', ''core'', ''agent'', ''teams'']"

text \<open>Of an object without a command, only the members under the catalog's keys are visited, in the keys' order.\<close>

fun collectCapabilityCommandEntries :: "jv \<Rightarrow> jv list"
  and capability_items :: "jv list \<Rightarrow> jv list"
  and capability_members :: "(string \<times> jv) list \<Rightarrow> (string, jv list) omap" where
  "collectCapabilityCommandEntries JUndef = []"
| "collectCapabilityCommandEntries JNull = []"
| "collectCapabilityCommandEntries (JArr vs) = capability_items vs"
| "collectCapabilityCommandEntries (JObj m) =
     (if has_command m then [JObj m]
      else concat (map (\<lambda>k. or_else (om_get (capability_members m) k) []) CATALOG_KEYS))"
| "collectCapabilityCommandEntries v = [v]"
| "capability_items [] = []"
| "capability_items (v # vs) = collectCapabilityCommandEntries v @ capability_items vs"
| "capability_members [] = []"
| "capability_members ((k, v) # ms) = (k, collectCapabilityCommandEntries v) # capability_members ms"

text \<open>The first argument is the number of levels left of the four.\<close>

fun sections_within :: "nat \<Rightarrow> jv \<Rightarrow> jv list" where
  "sections_within 0 v = []"
| "sections_within (Suc n) v =
     (if \<not> is_plain_object v then []
      else concat (map (\<lambda>k. collectCommandEntries (get_prop v k)) COMMAND_SOURCE_KEYS)
         @ concat (map (\<lambda>k. sections_within n (get_prop v k)) COMMAND_SECTION_KEYS))"

definition collectCommandSections :: "jv \<Rightarrow> jv list" where
  "collectCommandSections v = sections_within 4 v"

definition agent_entries :: "jv \<Rightarrow> jv list" where
  "agent_entries agent =
     (let agentId = cleanString (get_prop agent ''id''); label = agentLabel agent in
      if agentId = [] then []
      else [JObj [(''command'', JStr (''/agent '' @ agentId)), (''description'', JStr (''Switch command context to '' @ label))],
            JObj [(''command'', JStr (''/focus '' @ agentId)), (''description'', JStr (''Bind this thread to '' @ label))]])"

definition collectSlashCommandEntries :: "jv \<Rightarrow> jv list" where
  "collectSlashCommandEntries agent =
     collectCommandEntries (get_prop agent ''triggers'') @ collectCommandSections agent @ agent_entries agent"

definition collectMentionEntries :: "jv \<Rightarrow> jv list" where
  "collectMentionEntries agent =
     (if \<not> is_plain_object agent then []
      else concat (map (\<lambda>k. collectCommandEntries (get_prop agent k)) MENTION_SOURCE_KEYS))"

definition normalizeMentionTrigger :: "jv \<Rightarrow> jv \<Rightarrow> AgentMentionSuggestion option" where
  "normalizeMentionTrigger agent raw =
     (let trigger = cleanString raw in
      if trigger = [] \<or> starts_slash trigger then None
      else Some \<lparr>ms_id = ''mention_'' @ agent_slug agent @ ''_'' @ stableSlug trigger, ms_label = trigger,
             ms_insert = (if suffix '' '' trigger then trigger else trigger @ '' '')\<rparr>)"

section \<open>The lists shown\<close>

definition shortcut_key :: "AgentCommandShortcut \<Rightarrow> string" where
  "shortcut_key sc = to_lower (sc_label sc) @ [CHR 0x00] @ to_lower (sc_insert sc)"

definition pushUniqueShortcut ::
  "AgentCommandShortcut list \<times> string list \<Rightarrow> AgentCommandShortcut \<Rightarrow> AgentCommandShortcut list \<times> string list" where
  "pushUniqueShortcut st sc =
     (let (out, seen) = st; key = shortcut_key sc in
      if key \<in> set seen then st else (out @ [sc], os_add key seen))"

definition mention_key :: "AgentMentionSuggestion \<Rightarrow> string" where
  "mention_key c = to_lower (trim (ms_insert c))"

definition pushUniqueMention ::
  "AgentMentionSuggestion list \<times> string list \<Rightarrow> AgentMentionSuggestion \<Rightarrow> AgentMentionSuggestion list \<times> string list" where
  "pushUniqueMention st c =
     (let (out, seen) = st; key = mention_key c in
      if key = [] \<or> key \<in> set seen then st else (out @ [c], os_add key seen))"

definition CAPABILITY_KEYS :: "string list" where
  "CAPABILITY_KEYS = [''commands'', ''slashCommands'', ''slash_commands'', ''commandCatalog'', ''command_catalog'', ''features'']"

definition catalog_shortcut :: "jv \<Rightarrow> AgentCommandShortcut option" where
  "catalog_shortcut entry =
     (let command = (case entry of
            JStr s \<Rightarrow> cleanString entry
          | JObj _ \<Rightarrow> firstInsertString entry [''command'', ''name'', ''id'', ''insert'', ''template'', ''prefill'']
          | _ \<Rightarrow> []);
          ins = (if starts_slash command then command else if command \<noteq> [] then ''/'' @ command else []);
          label = commandHead ins
      in if ins = [] \<or> length label \<le> 1 then None
         else let description = (if is_plain_object entry then firstString entry COMMAND_DESCRIPTION_KEYS else []) in
           Some \<lparr>sc_id = ''core_'' @ stableSlug ins, sc_label = label, sc_insert = ins,
             sc_description = (if description \<noteq> [] \<and> \<not> starts_slash description then Some description else None)\<rparr>)"

definition push_some :: "('s \<Rightarrow> 'a \<Rightarrow> 's) \<Rightarrow> 's \<Rightarrow> 'a option \<Rightarrow> 's" where
  "push_some push st x = (case x of Some a \<Rightarrow> push st a | None \<Rightarrow> st)"

definition capability_entries :: "jv \<Rightarrow> jv list" where
  "capability_entries capabilities = concat (map (\<lambda>k. collectCapabilityCommandEntries (get_prop capabilities k)) CAPABILITY_KEYS)"

definition extractGatewayCommandCatalog :: "jv \<Rightarrow> AgentCommandShortcut list" where
  "extractGatewayCommandCatalog capabilities =
     (if \<not> is_plain_object capabilities then []
      else fst (foldl (push_some pushUniqueShortcut) ([], []) (map catalog_shortcut (capability_entries capabilities))))"

definition buildAgentSlashShortcuts :: "jv \<Rightarrow> AgentCommandShortcut list option \<Rightarrow> AgentCommandShortcut list" where
  "buildAgentSlashShortcuts agent coreCommands =
     fst (foldl (push_some pushUniqueShortcut)
       (foldl pushUniqueShortcut ([], []) (or_else coreCommands FALLBACK_CORE_SLASH_COMMANDS))
       (map (normalizeSlashCommandEntry agent) (collectSlashCommandEntries agent)))"

definition buildAgentMentionChips :: "jv \<Rightarrow> AgentMentionSuggestion list" where
  "buildAgentMentionChips agent =
     fst (foldl (push_some pushUniqueMention) ([], []) (map (normalizeMentionTrigger agent) (collectMentionEntries agent)))"

record AgentCommandSurface =
  cu_slashShortcuts :: "AgentCommandShortcut list"
  cu_mentionChips :: "AgentMentionSuggestion list"

definition buildAgentCommandSurface :: "jv \<Rightarrow> AgentCommandShortcut list option \<Rightarrow> AgentCommandSurface" where
  "buildAgentCommandSurface agent coreCommands =
     \<lparr>cu_slashShortcuts = buildAgentSlashShortcuts agent coreCommands, cu_mentionChips = buildAgentMentionChips agent\<rparr>"

section \<open>Lists without repetition\<close>

lemma first_by_keys: "key ` set (first_by key seen xs) = key ` set xs - seen"
  by (induction xs arbitrary: seen) auto

lemma first_by_distinct: "distinct (map key (first_by key seen xs))"
proof (induction xs arbitrary: seen)
  case (Cons x xs)
  then show ?case using first_by_keys [of key "insert (key x) seen" xs] by (auto simp: set_map [symmetric] simp del: set_map)
qed simp

lemma set_first_by: "set (first_by key seen xs) \<subseteq> set xs"
  by (induction xs arbitrary: seen) auto

definition somes :: "'a option list \<Rightarrow> 'a list" where
  "somes xs = map the (filter (\<lambda>x. x \<noteq> None) xs)"

lemma somes_simps [simp]: "somes [] = []" "somes (None # xs) = somes xs" "somes (Some x # xs) = x # somes xs"
  by (simp_all add: somes_def)

lemma set_somes: "x \<in> set (somes xs) \<longleftrightarrow> Some x \<in> set xs"
  by (induction xs) (auto simp: somes_def)

lemma push_some_fold: "foldl (push_some push) st xs = foldl push st (somes xs)"
  by (induction xs arbitrary: st) (auto simp: push_some_def split: option.split)

lemma push_shortcuts:
  "foldl pushUniqueShortcut (out, seen) xs = (out @ first_by shortcut_key (set seen) xs, snd (foldl pushUniqueShortcut (out, seen) xs))
   \<and> set (snd (foldl pushUniqueShortcut (out, seen) xs)) = set seen \<union> shortcut_key ` set xs"
proof (induction xs arbitrary: out seen)
  case (Cons x xs)
  show ?case
    using Cons.IH [of "out @ [x]" "os_add (shortcut_key x) seen"] Cons.IH [of out seen]
    by (auto simp: pushUniqueShortcut_def Let_def)
qed simp

lemma fst_push_shortcuts: "fst (foldl pushUniqueShortcut ([], []) xs) = first_by shortcut_key {} xs"
  using push_shortcuts [of "[]" "[]" xs, THEN conjunct1, THEN arg_cong [where f = fst]] by simp

lemma push_mentions:
  "fst (foldl pushUniqueMention (out, seen) xs) = out @ first_by mention_key (set seen) (filter (\<lambda>c. mention_key c \<noteq> []) xs)"
  by (induction xs arbitrary: out seen) (auto simp: pushUniqueMention_def Let_def)

section \<open>Commands\<close>

lemma commandHead_prefix: "prefix (commandHead s) s"
  by (induction s) auto

lemma ws_nonempty: "[] \<notin> set ws_encodings"
  by (simp add: ws_encodings_def)

lemma space_len_0: "space_len s = 0 \<longleftrightarrow> (\<forall>p \<in> set ws_encodings. \<not> prefix p s)"
proof (cases "find (\<lambda>p. prefix p s) ws_encodings")
  case (Some p)
  then have "p \<in> set ws_encodings" "prefix p s" by (auto simp: find_Some_iff)
  moreover have "p \<noteq> []" using ws_nonempty \<open>p \<in> set ws_encodings\<close> by auto
  ultimately show ?thesis using Some by (auto simp: space_len_def)
next
  case None
  then show ?thesis using find_None_iff [THEN iffD1, OF None] by (simp add: space_len_def)
qed

lemma space_len_prefix: "prefix s t \<Longrightarrow> space_len t = 0 \<Longrightarrow> space_len s = 0"
  unfolding space_len_0 by (auto dest: prefix_order.trans)

lemma commandHead_idem: "commandHead (commandHead s) = commandHead s"
proof (induction s)
  case (Cons c s)
  have "space_len (c # commandHead s) = 0" if "space_len (c # s) = 0"
    using that space_len_prefix [of "c # commandHead s" "c # s"] commandHead_prefix by auto
  then show ?case using Cons by auto
qed simp

lemma blank_ws: "'' '' \<in> set ws_encodings"
proof -
  have "map char_of [32 :: nat] = '' ''" by code_simp
  then show ?thesis unfolding ws_encodings_def by force
qed

lemma trim_no_blank: "\<not> suffix '' '' (trim s)"
proof -
  have "\<not> prefix '' '' (strip_prefixes (map rev ws_encodings) (rev (trim_start s)))"
    by (rule strip_prefixes_none) (use blank_ws in force)+
  then show ?thesis by (simp add: trim_def trim_end_def suffix_to_prefix)
qed

lemma blank_head: "0 < space_len (CHR '' '' # s)"
  using space_len_0 [of "CHR '' '' # s"] blank_ws by fastforce

lemma commandHead_no_blank: "\<not> suffix '' '' (commandHead s)"
proof (induction s)
  case (Cons c s)
  have "c \<noteq> CHR '' ''" if "space_len (c # s) = 0" using that blank_head [of s] by auto
  with Cons show ?case by (auto simp: suffix_Cons)
qed simp

definition shortcut_ok :: "AgentCommandShortcut \<Rightarrow> bool" where
  "shortcut_ok sc =
     (starts_slash (sc_label sc) \<and> 2 \<le> length (sc_label sc) \<and> commandHead (sc_label sc) = sc_label sc
      \<and> prefix (sc_label sc) (sc_insert sc))"

lemma slash_head: "prefix ''/'' s \<Longrightarrow> prefix ''/'' (commandHead s)"
proof (cases s)
  case (Cons c t)
  assume "prefix ''/'' s"
  then have c: "c = CHR ''/''" using Cons by simp
  have "graph_char d \<Longrightarrow> d \<notin> hd ` set ws_encodings" for d by (auto simp: graph_char_def ws_encodings_def)
  then have "CHR ''/'' \<notin> hd ` set ws_encodings" by (simp add: graph_char_def)
  moreover have "p \<in> set ws_encodings \<Longrightarrow> prefix p (CHR ''/'' # t) \<Longrightarrow> hd p = CHR ''/''" for p
    using ws_nonempty by (cases p) auto
  ultimately have "space_len (CHR ''/'' # t) = 0" unfolding space_len_0 by (metis image_eqI)
  then show ?thesis using Cons c by simp
qed simp

lemma trigger_ok:
  "normalizeSlashTrigger agent raw = Some sc \<Longrightarrow> shortcut_ok sc \<and> \<not> suffix '' '' (sc_insert sc) \<and> sc_description sc \<noteq> None"
  using trim_no_blank slash_head
  by (auto simp: normalizeSlashTrigger_def shortcut_ok_def starts_slash_def commandHead_idem commandHead_prefix
      commandHead_no_blank cleanString_def Let_def split: if_splits jv.splits)

lemma entry_ok:
  "normalizeSlashCommandEntry agent raw = Some sc \<Longrightarrow> shortcut_ok sc \<and> \<not> suffix '' '' (sc_insert sc) \<and> sc_description sc \<noteq> None"
  unfolding normalizeSlashCommandEntry_def Let_def
  by (auto simp: shortcut_ok_def split: jv.splits option.splits if_splits dest!: trigger_ok)

lemma catalog_ok: "catalog_shortcut entry = Some sc \<Longrightarrow> shortcut_ok sc \<and> prefix ''core_'' (sc_id sc)"
proof -
  define command where "command = (case entry of
            JStr s \<Rightarrow> cleanString entry
          | JObj _ \<Rightarrow> firstInsertString entry [''command'', ''name'', ''id'', ''insert'', ''template'', ''prefill'']
          | _ \<Rightarrow> [])"
  define ins where "ins = (if starts_slash command then command else if command \<noteq> [] then ''/'' @ command else [])"
  assume "catalog_shortcut entry = Some sc"
  then have "sc_label sc = commandHead ins" "sc_insert sc = ins" "sc_id sc = ''core_'' @ stableSlug ins" "ins \<noteq> []"
    "\<not> length (commandHead ins) \<le> 1"
    unfolding catalog_shortcut_def Let_def command_def [symmetric] ins_def [symmetric] by (auto split: if_splits)
  moreover have "prefix ''/'' ins" if "ins \<noteq> []" using that by (auto simp: ins_def starts_slash_def split: if_splits)
  ultimately show ?thesis
    using slash_head by (auto simp: shortcut_ok_def starts_slash_def commandHead_idem commandHead_prefix)
qed

lemma trim_after_blank:
  assumes "trim t = t" and "t \<noteq> []" and "graph_char c" and "graph_char (last s)" and "s \<noteq> []"
  shows "trim (c # s @ CHR '' '' # t) = c # s @ CHR '' '' # t"
proof -
  let ?u = "c # s @ CHR '' '' # t"
  have h: "\<not> prefix p ?u" if "p \<in> set ws_encodings" for p
  proof -
    have "hd p \<noteq> c" using that assms(3) by (auto simp: graph_char_def ws_encodings_def)
    then show ?thesis using that ws_nonempty by (cases p) auto
  qed
  have "p \<in> set ws_encodings \<Longrightarrow> 2 \<le> length p \<Longrightarrow> d \<in> set p \<Longrightarrow> 128 \<le> (of_char d :: nat)" for p d
    by (auto simp: ws_encodings_def)
  then have long: "p \<in> set ws_encodings \<Longrightarrow> 2 \<le> length p \<Longrightarrow> CHR '' '' \<notin> set p" for p by fastforce
  have e: "\<not> suffix p ?u" if p: "p \<in> set ws_encodings" for p
  proof
    assume s: "suffix p ?u"
    show False
    proof (cases "length p \<le> length t")
      case True
      have "?u = (c # s @ '' '') @ t" by simp
      with s True have "suffix p t" by (metis suffix_append suffix_length_suffix suffixI)
      moreover have "\<not> suffix p (trim t)"
      proof -
        have "\<not> prefix (rev p) (strip_prefixes (map rev ws_encodings) (rev (trim_start t)))"
          by (rule strip_prefixes_none) (use p ws_nonempty in auto)
        then show ?thesis by (simp add: trim_def trim_end_def suffix_to_prefix)
      qed
      ultimately show False using assms(1) by simp
    next
      case False
      have "?u = (c # s) @ (CHR '' '' # t)" by simp
      then have "suffix (CHR '' '' # t) ?u" by (metis suffixI)
      then have "suffix (CHR '' '' # t) p" by (rule suffix_length_suffix [OF _ s]) (use False in simp)
      then have "CHR '' '' \<in> set p" using set_mono_suffix by fastforce
      moreover have "2 \<le> length p" using False assms(2) by (cases t) auto
      ultimately show False using long [OF p] by blast
    qed
  qed
  have "trim_start ?u = ?u" unfolding trim_start_def by (rule strip_prefixes_id) (use h in blast)
  moreover have "strip_prefixes (map rev ws_encodings) (rev ?u) = rev ?u"
    by (rule strip_prefixes_id) (use e in \<open>auto simp: suffix_to_prefix\<close>)
  ultimately show ?thesis by (simp add: trim_def trim_end_def)
qed

lemma trim_start_fixed: "trim t = t \<Longrightarrow> trim_start t = t"
proof -
  assume t: "trim t = t"
  have "length t \<le> length (trim_start t)"
    using t trim_end_prefix [of "trim_start t"] by (metis prefix_length_le trim_def)
  moreover have "suffix (trim_start t) t" by (simp add: trim_start_def strip_prefixes_suffix)
  ultimately show ?thesis by (metis suffix_length_le suffix_order.dual_order.antisym le_antisym suffix_def append_eq_append_conv append_Nil)
qed

lemma trim_blank_tail: "trim t = t \<Longrightarrow> trim (CHR '' '' # t) = t"
proof -
  assume t: "trim t = t"
  obtain q where f: "find (\<lambda>p. p \<noteq> [] \<and> prefix p (CHR '' '' # t)) ws_encodings = Some q"
    using blank_ws by (cases "find (\<lambda>p. p \<noteq> [] \<and> prefix p (CHR '' '' # t)) ws_encodings") (force simp: find_None_iff)+
  then have q: "q \<in> set ws_encodings" "q \<noteq> []" "prefix q (CHR '' '' # t)" by (auto simp: find_Some_iff)
  have "(of_char (hd q) :: nat) = 32" using q(2,3) by (cases q) simp_all
  then have "length q = 1" using q(1) by (auto simp: ws_encodings_def)
  then have "trim_start (CHR '' '' # t) = trim_start t"
    using strip_prefixes_step [OF f] by (simp add: trim_start_def)
  then show ?thesis using t by (simp add: trim_def)
qed

lemma trim_Nil [simp]: "trim [] = []"
  using trim_length [of "[]"] by simp

lemma agent_entry_offered:
  assumes "cleanString (get_prop agent ''id'') = t" and "t \<noteq> []" and "w \<in> {''agent'', ''focus''}"
  shows "\<exists>sc. Some sc \<in> set (map (normalizeSlashCommandEntry agent) (collectSlashCommandEntries agent))
    \<and> sc_label sc = ''/'' @ w \<and> sc_insert sc = ''/'' @ w @ '' '' @ t"
proof -
  have tt: "trim t = t" using assms(1) by (auto simp: cleanString_def split: jv.splits)
  obtain d where entry: "JObj [(''command'', JStr (''/'' @ w @ '' '' @ t)), (''description'', JStr d)] \<in> set (agent_entries agent)"
    using assms by (auto simp: agent_entries_def Let_def)
  let ?e = "JObj [(''command'', JStr (''/'' @ w @ '' '' @ t)), (''description'', JStr d)]"
  have tr: "trim (''/'' @ w @ '' '' @ t) = ''/'' @ w @ '' '' @ t"
    using assms(3) trim_after_blank [OF tt assms(2), of "CHR ''/''" w] by (auto simp: graph_char_def)
  have nb: "space_len (x # y) = 0" if "graph_char x" for x y
  proof -
    have "x \<notin> hd ` set ws_encodings" using that by (auto simp: graph_char_def ws_encodings_def)
    moreover have "p \<in> set ws_encodings \<Longrightarrow> prefix p (x # y) \<Longrightarrow> hd p = x" for p
      using ws_nonempty by (cases p) auto
    ultimately show ?thesis unfolding space_len_0 by (metis image_eqI)
  qed
  have hd: "commandHead (''/'' @ w @ '' '' @ t) = ''/'' @ w"
    using assms(3) blank_head [of t] by (auto simp: nb graph_char_def)
  have ci: "firstInsertString ?e [''insert'', ''template'', ''prefill''] = []"
    by (simp add: firstInsertString_def get_prop_def cleanInsertString_def trim_def trim_start_def trim_end_def
        strip_prefixes_id prefix_def)
  have cs: "firstString ?e COMMAND_VALUE_KEYS = ''/'' @ w @ '' '' @ t"
    using tr by (simp add: firstString_def first_text_def COMMAND_VALUE_KEYS_def get_prop_def cleanString_def)
  have nd: "w = ''agent'' \<or> w = ''focus''" using assms(3) by simp
  then have "normalizeSlashTrigger agent (JStr (''/'' @ w @ '' '' @ t)) \<noteq> None
      \<and> sc_label (the (normalizeSlashTrigger agent (JStr (''/'' @ w @ '' '' @ t)))) = ''/'' @ w
      \<and> sc_insert (the (normalizeSlashTrigger agent (JStr (''/'' @ w @ '' '' @ t)))) = ''/'' @ w @ '' '' @ t"
    using hd tr trim_blank_tail [OF tt] assms(2) by (auto simp: normalizeSlashTrigger_def cleanString_def Let_def)
  then obtain sc where sc: "normalizeSlashTrigger agent (JStr (''/'' @ w @ '' '' @ t)) = Some sc" "sc_label sc = ''/'' @ w"
    "sc_insert sc = ''/'' @ w @ '' '' @ t" by auto
  have "\<exists>sc'. normalizeSlashCommandEntry agent ?e = Some sc' \<and> sc_label sc' = sc_label sc \<and> sc_insert sc' = sc_insert sc"
    using ci cs sc nd by (auto simp: normalizeSlashCommandEntry_def starts_slash_def Let_def simp del: commandHead.simps)
  then show ?thesis using entry sc by (force simp: collectSlashCommandEntries_def)
qed

section \<open>What is shown\<close>

lemma built_shortcuts:
  "buildAgentSlashShortcuts agent core = first_by shortcut_key {} (or_else core FALLBACK_CORE_SLASH_COMMANDS
     @ somes (map (normalizeSlashCommandEntry agent) (collectSlashCommandEntries agent)))"
  unfolding buildAgentSlashShortcuts_def push_some_fold foldl_append [symmetric] by (rule fst_push_shortcuts)

text \<open>C28: The slash commands shown for an agent are the core ones followed by its own, each key's first only. Every one of
  its own is a command: a label of one word after a slash, with which the inserted text begins, no trailing blank,
  and a description. An agent with an id always offers to switch to it and to focus it.\<close>

theorem slash_commands_shown:
  "let out = buildAgentSlashShortcuts agent core;
       own = somes (map (normalizeSlashCommandEntry agent) (collectSlashCommandEntries agent));
       agentId = cleanString (get_prop agent ''id'') in
     out = first_by shortcut_key {} (or_else core FALLBACK_CORE_SLASH_COMMANDS @ own)
   \<and> distinct (map shortcut_key out)
   \<and> shortcut_key ` set out = shortcut_key ` (set (or_else core FALLBACK_CORE_SLASH_COMMANDS) \<union> set own)
   \<and> list_all (\<lambda>sc. shortcut_ok sc \<and> \<not> suffix '' '' (sc_insert sc) \<and> sc_description sc \<noteq> None) own
   \<and> list_all (\<lambda>w. if agentId \<noteq> [] then list_ex (\<lambda>sc. shortcut_key sc =
         to_lower (''/'' @ w) @ [CHR 0x00] @ to_lower (''/'' @ w @ '' '' @ agentId)) out else True) [''agent'', ''focus'']"
proof -
  let ?own = "somes (map (normalizeSlashCommandEntry agent) (collectSlashCommandEntries agent))"
  let ?out = "buildAgentSlashShortcuts agent core"
  let ?id = "cleanString (get_prop agent ''id'')"
  let ?key = "\<lambda>w. to_lower (''/'' @ w) @ [CHR 0x00] @ to_lower (''/'' @ w @ '' '' @ ?id)"
  have keys: "shortcut_key ` set ?out = shortcut_key ` (set (or_else core FALLBACK_CORE_SLASH_COMMANDS) \<union> set ?own)"
    unfolding built_shortcuts first_by_keys by simp
  have own: "list_all (\<lambda>sc. shortcut_ok sc \<and> \<not> suffix '' '' (sc_insert sc) \<and> sc_description sc \<noteq> None) ?own"
    using entry_ok by (auto simp: list_all_iff set_somes)
  have "\<exists>sc \<in> set ?out. shortcut_key sc = ?key w" if w: "w \<in> {''agent'', ''focus''}" and i: "?id \<noteq> []" for w
  proof -
    obtain sc where "sc \<in> set ?own" "sc_label sc = ''/'' @ w" "sc_insert sc = ''/'' @ w @ '' '' @ ?id"
      using agent_entry_offered [OF refl i w] by (auto simp: set_somes)
    then have "?key w \<in> shortcut_key ` set ?own" by (force simp: shortcut_key_def)
    then have "?key w \<in> shortcut_key ` set ?out" unfolding keys image_Un by (rule UnI2)
    then show ?thesis by (rule imageE) (simp add: Bex_def, blast)
  qed
  then have offered: "list_all (\<lambda>w. if ?id \<noteq> [] then list_ex (\<lambda>sc. shortcut_key sc = ?key w) ?out else True) [''agent'', ''focus'']"
    unfolding list_all_iff list_ex_iff
    by (cases "?id = []") (simp_all only: list.set insert_iff empty_iff simp_thms if_True if_False Ball_def, blast)
  have "distinct (map shortcut_key ?out)" unfolding built_shortcuts by (rule first_by_distinct)
  then show ?thesis unfolding Let_def by (intro conjI built_shortcuts keys own offered)
qed

definition found_entry :: "jv \<Rightarrow> bool" where
  "found_entry v = (case v of JObj m \<Rightarrow> has_command m | JArr _ \<Rightarrow> False | _ \<Rightarrow> \<not> nullish v)"

lemma capability_found:
  "list_all found_entry (collectCapabilityCommandEntries v)"
  "list_all found_entry (capability_items vs)"
  "\<forall>k. list_all found_entry (or_else (om_get (capability_members m) k) [])"
proof (induction v and vs and m rule: collectCapabilityCommandEntries_capability_items_capability_members.induct)
  case (4 m)
  then show ?case by (auto simp: found_entry_def list_all_iff split: option.splits)
qed (auto simp: found_entry_def nullish_def list_all_iff or_else_def)

lemma catalog_description:
  "catalog_shortcut entry = Some sc \<Longrightarrow> sc_description sc = Some d \<Longrightarrow> d \<noteq> [] \<and> \<not> starts_slash d"
  by (auto simp: catalog_shortcut_def Let_def split: if_splits)

text \<open>A catalog read from capabilities has no command twice, the first of each key in the order the capabilities list
  them, and each is a core command: one word after a slash, with which the inserted text begins, and no description
  that is itself a command. What is read are texts, numbers and the like, and records that name a command.\<close>

theorem command_catalog_shown:
  "let out = extractGatewayCommandCatalog capabilities in
     out = first_by shortcut_key {} (if is_plain_object capabilities then somes (map catalog_shortcut (capability_entries capabilities)) else [])
   \<and> distinct (map shortcut_key out)
   \<and> list_all (\<lambda>sc. shortcut_ok sc \<and> prefix ''core_'' (sc_id sc)
       \<and> (case sc_description sc of Some d \<Rightarrow> d \<noteq> [] \<and> \<not> starts_slash d | None \<Rightarrow> True)) out
   \<and> list_all found_entry (capability_entries capabilities)"
proof -
  let ?out = "extractGatewayCommandCatalog capabilities"
  let ?all = "if is_plain_object capabilities then somes (map catalog_shortcut (capability_entries capabilities)) else []"
  let ?ok = "\<lambda>sc. shortcut_ok sc \<and> prefix ''core_'' (sc_id sc)
       \<and> (case sc_description sc of Some d \<Rightarrow> d \<noteq> [] \<and> \<not> starts_slash d | None \<Rightarrow> True)"
  have out: "?out = first_by shortcut_key {} ?all"
    by (simp add: extractGatewayCommandCatalog_def push_some_fold fst_push_shortcuts)
  have "?ok sc" if "catalog_shortcut entry = Some sc" for entry sc
    using catalog_ok [OF that] catalog_description [OF that] by (simp split: option.split)
  moreover have "\<exists>entry. catalog_shortcut entry = Some sc" if "sc \<in> set ?all" for sc
  proof -
    have "sc \<in> set (somes (map catalog_shortcut (capability_entries capabilities)))"
      using that by (cases "is_plain_object capabilities") simp_all
    then show ?thesis unfolding set_somes set_map by (metis imageE)
  qed
  ultimately have "\<forall>sc \<in> set ?all. ?ok sc" by meson
  then have ok: "list_all ?ok ?out"
    unfolding out list_all_iff using set_first_by [of shortcut_key "{}" ?all] by blast
  have "distinct (map shortcut_key ?out)" unfolding out by (rule first_by_distinct)
  moreover have "list_all found_entry (capability_entries capabilities)"
    using capability_found(1) by (simp add: capability_entries_def list_all_iff)
  ultimately show ?thesis unfolding Let_def using out ok by (intro conjI)
qed

lemma mention_ok: "normalizeMentionTrigger agent raw = Some c \<Longrightarrow>
   ms_insert c = ms_label c @ '' '' \<and> ms_label c \<noteq> [] \<and> \<not> starts_slash (ms_label c) \<and> trim (ms_label c) = ms_label c"
  using trim_no_blank by (auto simp: normalizeMentionTrigger_def cleanString_def Let_def split: if_splits jv.splits)

text \<open>The mentions: no two alike up to case, none a command, each inserted with one blank after it.\<close>

theorem mentions_shown:
  "let out = buildAgentMentionChips agent in
     distinct (map mention_key out)
   \<and> list_all (\<lambda>c. ms_insert c = ms_label c @ '' '' \<and> ms_label c \<noteq> [] \<and> \<not> starts_slash (ms_label c)) out"
proof -
  have out: "buildAgentMentionChips agent = first_by mention_key {}
      (filter (\<lambda>c. mention_key c \<noteq> []) (somes (map (normalizeMentionTrigger agent) (collectMentionEntries agent))))"
    using push_mentions [of "[]" "[]"] by (simp add: buildAgentMentionChips_def push_some_fold)
  have "list_all (\<lambda>c. ms_insert c = ms_label c @ '' '' \<and> ms_label c \<noteq> [] \<and> \<not> starts_slash (ms_label c))
      (somes (map (normalizeMentionTrigger agent) (collectMentionEntries agent)))"
    using mention_ok by (auto simp: list_all_iff set_somes)
  then show ?thesis
    using set_first_by [of mention_key] by (fastforce simp: out first_by_distinct list_all_iff Let_def)
qed

section \<open>Corner cases\<close>

text \<open>An agent's template loses the blank after it, which the gateway's catalog and the built-in list keep.\<close>

lemma trailing_blank_lost:
  "map_option sc_insert (normalizeSlashCommandEntry agent (JObj [(''template'', JStr ''/deploy '')])) \<noteq> Some ''/deploy ''"
proof -
  have "suffix '' '' ''/deploy ''" by (simp add: suffix_def)
  then show ?thesis using entry_ok by fastforce
qed

end
