(* ===== verification/RawGateway.thy ===== *)
theory RawGateway
  imports Backoff
begin

text \<open>
  The raw gateway channel, \<open>src/core/runtime/control-plane/raw-gateway.ts\<close>: the connection lifecycle that wraps a
  delegate, with its manual connects, its reconnect task and its disposal, and the checks of a request. A promise is
  the number \<open>startConnect\<close> gave it; an asynchronous function is the point at which it waits, and the events of the
  environment resume it, in any order: the delegate's connect settles or its state changes, a sleep ends, a
  reaction runs. A listener is a number; what listeners do when they are called is not in the model.
\<close>

section \<open>The state\<close>

datatype raw_conn = RgIdle | RgConnecting | RgReconnecting | RgConnected | RgError

text \<open>Where the reconnect task waits: its sleep, a manual connect, its own connect, or for its end to be noticed.\<close>

datatype task_wait = TkSleep | TkManual nat | TkConnect nat | TkOver

record raw_task =
  tk_startedAt :: rat
  tk_observed :: nat
  tk_error :: unknown
  tk_attempt :: nat
  tk_wait :: task_wait

record raw_notice =
  rn_listeners :: "nat list"
  rn_state :: raw_conn
  rn_error :: unknown

record raw_life =
  rl_state :: raw_conn
  rl_listeners :: "nat list"
  rl_connect :: "nat option"
  rl_tokens :: nat
  rl_scheduled :: "nat list"
  rl_running :: "nat list"
  rl_settled :: "(nat, unknown option) omap"
  rl_generation :: nat
  rl_manuals :: "(nat, nat) omap"
  rl_lastManual :: "(nat \<times> unknown) option"
  rl_task :: "raw_task option"
  rl_disposed :: bool
  rl_disposing :: bool
  rl_delegateDisposed :: nat
  rl_notices :: "raw_notice list"

definition raw_new :: "raw_conn \<Rightarrow> raw_life" where
  "raw_new s =
     \<lparr>rl_state = s, rl_listeners = [], rl_connect = None, rl_tokens = 0, rl_scheduled = [], rl_running = [], rl_settled = [],
      rl_generation = 0, rl_manuals = [], rl_lastManual = None, rl_task = None, rl_disposed = False, rl_disposing = False,
      rl_delegateDisposed = 0, rl_notices = []\<rparr>"

text \<open>What a resumed task reads: the clock, the random source, the delegate's state.\<close>

record task_env =
  te_startedAt :: rat
  te_now :: rat
  te_random :: jnum
  te_delegate :: raw_conn

definition absent :: unknown where
  "absent = UVal JUndef"

definition raw_publish :: "raw_conn \<Rightarrow> unknown \<Rightarrow> raw_life \<Rightarrow> raw_life" where
  "raw_publish s e st =
     st\<lparr>rl_state := s, rl_notices := rl_notices st @ [\<lparr>rn_listeners = rl_listeners st, rn_state = s, rn_error = e\<rparr>]\<rparr>"

definition publish_change :: "raw_conn \<Rightarrow> raw_life \<Rightarrow> raw_life" where
  "publish_change s st = (if rl_state st \<noteq> s then raw_publish s absent st else st)"

definition publish_error :: "unknown \<Rightarrow> raw_life \<Rightarrow> raw_life" where
  "publish_error e st = (if rl_state st \<noteq> RgError then raw_publish RgError e st else st)"

section \<open>Connecting\<close>

definition disposed_error :: unknown where
  "disposed_error = UErr (api_error ''Raw gateway lifecycle is disposed'' (Some TTransport) (Some SocketClosed) None)"

definition startConnect :: "raw_life \<Rightarrow> nat \<times> raw_life" where
  "startConnect st =
     (let n = rl_tokens st in
      if rl_disposed st then (n, st\<lparr>rl_tokens := Suc n, rl_settled := om_set n (Some disposed_error) (rl_settled st)\<rparr>)
      else (case rl_connect st of
              Some t \<Rightarrow> (t, st)
            | None \<Rightarrow> (n, st\<lparr>rl_tokens := Suc n, rl_scheduled := rl_scheduled st @ [n], rl_connect := Some n\<rparr>)))"

definition raw_connect :: "raw_life \<Rightarrow> raw_life" where
  "raw_connect st =
     (case rl_connect st of
        Some _ \<Rightarrow> st
      | None \<Rightarrow>
          let generation = Suc (rl_generation st);
              (t, st1) = startConnect (st\<lparr>rl_generation := generation\<rparr>)
          in st1\<lparr>rl_manuals := om_set generation t (rl_manuals st1)\<rparr>)"

text \<open>The delegate's \<open>connect\<close> is called one turn after it was started.\<close>

definition raw_invoke :: "nat \<Rightarrow> raw_life \<Rightarrow> raw_life" where
  "raw_invoke t st =
     (if t \<in> set (rl_scheduled st)
      then st\<lparr>rl_scheduled := removeAll t (rl_scheduled st), rl_running := rl_running st @ [t]\<rparr> else st)"

definition raw_settle :: "nat \<Rightarrow> unknown + raw_conn \<Rightarrow> raw_life \<Rightarrow> raw_life" where
  "raw_settle t r st =
     (if t \<notin> set (rl_running st) then st
      else
        let st1 = (case r of Inr s \<Rightarrow> publish_change s st | Inl _ \<Rightarrow> st) in
        st1\<lparr>rl_running := removeAll t (rl_running st1),
            rl_connect := (if rl_connect st1 = Some t then None else rl_connect st1),
            rl_settled := om_set t (case r of Inl e \<Rightarrow> Some e | Inr _ \<Rightarrow> None) (rl_settled st1)\<rparr>)"

definition raw_observe :: "nat \<Rightarrow> raw_life \<Rightarrow> raw_life" where
  "raw_observe generation st =
     (case Option.bind (om_get (rl_manuals st) generation) (om_get (rl_settled st)) of
        None \<Rightarrow> st
      | Some r \<Rightarrow>
          st\<lparr>rl_manuals := om_del generation (rl_manuals st),
             rl_lastManual := Some (generation, case r of Some e \<Rightarrow> e | None \<Rightarrow> absent)\<rparr>)"

section \<open>The reconnect task\<close>

definition retryable_error :: "unknown \<Rightarrow> bool" where
  "retryable_error e = (case getTransportErrorMetadata e of Some m \<Rightarrow> tm_retryable m | None \<Rightarrow> False)"

definition retry_after :: "unknown \<Rightarrow> jnum option" where
  "retry_after e = Option.bind (getTransportErrorMetadata e) (\<lambda>m. map_option Fin (tm_retryAfterMs m))"

definition task_over :: "raw_task \<Rightarrow> raw_life \<Rightarrow> raw_life" where
  "task_over tk st = st\<lparr>rl_task := Some (tk\<lparr>tk_wait := TkOver\<rparr>)\<rparr>"

text \<open>The head of the loop, up to the sleep.\<close>

definition task_turn :: "retry_policy \<Rightarrow> task_env \<Rightarrow> raw_task \<Rightarrow> raw_life \<Rightarrow> raw_life" where
  "task_turn p te tk st =
     (let err = tk_error tk in
      if \<not> (num_lt (num (int (tk_attempt tk))) (rp_maxAttempts p) \<and> \<not> rl_disposed st)
      then task_over tk (if rl_disposed st then st else publish_error err st)
      else if \<not> retryable_error err then task_over tk (publish_error err st)
      else
        (case computeBackoffDelay p (num (int (tk_attempt tk))) (te_random te) (retry_after err) of
           Inl _ \<Rightarrow> task_over tk st
         | Inr delayMs \<Rightarrow>
             if (case rp_deadlineMs p of
                   Some d \<Rightarrow> num_lt d (Fin (te_now te - tk_startedAt tk + of_int delayMs)) | None \<Rightarrow> False)
             then task_over tk (if rl_disposed st then st else publish_error err st)
             else (raw_publish RgReconnecting err st)\<lparr>rl_task := Some (tk\<lparr>tk_wait := TkSleep\<rparr>)\<rparr>))"

text \<open>A failure inside the loop: the next attempt.\<close>

definition task_failed :: "retry_policy \<Rightarrow> task_env \<Rightarrow> unknown \<Rightarrow> raw_task \<Rightarrow> raw_life \<Rightarrow> raw_life" where
  "task_failed p te e tk st = task_turn p te (tk\<lparr>tk_error := e, tk_attempt := Suc (tk_attempt tk)\<rparr>) st"

definition task_connect :: "raw_task \<Rightarrow> raw_life \<Rightarrow> raw_life" where
  "task_connect tk st =
     (if \<not> retryable_error (tk_error tk) then task_over tk (publish_error (tk_error tk) st)
      else let (t, st1) = startConnect st in st1\<lparr>rl_task := Some (tk\<lparr>tk_wait := TkConnect t\<rparr>)\<rparr>)"

definition task_slept :: "raw_task \<Rightarrow> raw_life \<Rightarrow> raw_life" where
  "task_slept tk st =
     (if rl_disposed st then task_over tk st
      else if rl_generation st = tk_observed tk then task_connect tk st
      else
        let tk1 = tk\<lparr>tk_observed := rl_generation st\<rparr> in
        (case rl_connect st of
           Some t \<Rightarrow> st\<lparr>rl_task := Some (tk1\<lparr>tk_wait := TkManual t\<rparr>)\<rparr>
         | None \<Rightarrow>
             (case rl_lastManual st of
                Some (g, e) \<Rightarrow>
                  if g = tk_observed tk1
                  then (if e = absent \<and> rl_state st = RgConnected then task_over tk1 st
                        else task_connect (if e \<noteq> absent then tk1\<lparr>tk_error := e\<rparr> else tk1) st)
                  else task_connect tk1 st
              | None \<Rightarrow> task_connect tk1 st)))"

definition task_resume :: "retry_policy \<Rightarrow> task_env \<Rightarrow> raw_life \<Rightarrow> raw_life" where
  "task_resume p te st =
     (case rl_task st of
        None \<Rightarrow> st
      | Some tk \<Rightarrow>
          (case tk_wait tk of
             TkManual t \<Rightarrow>
               (case om_get (rl_settled st) t of
                  None \<Rightarrow> st
                | Some None \<Rightarrow> if rl_state st = RgConnected then task_over tk st else task_connect tk st
                | Some (Some e) \<Rightarrow> task_connect (tk\<lparr>tk_error := e\<rparr>) st)
           | TkConnect t \<Rightarrow>
               (case om_get (rl_settled st) t of
                  None \<Rightarrow> st
                | Some None \<Rightarrow> task_over tk (publish_change (te_delegate te) st)
                | Some (Some e) \<Rightarrow> task_failed p te e tk st)
           | _ \<Rightarrow> st))"

definition task_sleep_ends :: "retry_policy \<Rightarrow> task_env \<Rightarrow> unknown option \<Rightarrow> raw_life \<Rightarrow> raw_life" where
  "task_sleep_ends p te failure st =
     (case rl_task st of
        None \<Rightarrow> st
      | Some tk \<Rightarrow>
          if tk_wait tk \<noteq> TkSleep then st
          else (case failure of None \<Rightarrow> task_slept tk st | Some e \<Rightarrow> task_failed p te e tk st))"

definition task_noticed :: "raw_life \<Rightarrow> raw_life" where
  "task_noticed st =
     (case rl_task st of Some tk \<Rightarrow> if tk_wait tk = TkOver then st\<lparr>rl_task := None\<rparr> else st | None \<Rightarrow> st)"

text \<open>\<open>reconnect\<close> runs up to its first wait; without a retryable error it returns at once.\<close>

definition raw_reconnect :: "retry_policy \<Rightarrow> task_env \<Rightarrow> unknown \<Rightarrow> raw_life \<Rightarrow> raw_life" where
  "raw_reconnect p te e st =
     (let tk = \<lparr>tk_startedAt = te_startedAt te, tk_observed = rl_generation st, tk_error = e, tk_attempt = 1, tk_wait = TkSleep\<rparr> in
      if \<not> retryable_error e then task_over tk st else task_turn p te tk st)"

section \<open>Events\<close>

definition raw_delegate :: "retry_policy option \<Rightarrow> task_env \<Rightarrow> raw_conn \<Rightarrow> unknown \<Rightarrow> raw_life \<Rightarrow> raw_life" where
  "raw_delegate policy te s e st =
     (if rl_disposed st then st
      else
        let st1 = raw_publish s e st in
        (case policy of
           Some p \<Rightarrow> if s = RgError \<and> rl_task st1 = None then raw_reconnect p te e st1 else st1
         | None \<Rightarrow> st1))"

text \<open>Disposal, once: its first part runs at the call, the rest when the task has ended.\<close>

definition raw_dispose :: "raw_life \<Rightarrow> raw_life" where
  "raw_dispose st =
     (if rl_disposed st then st else st\<lparr>rl_disposed := True, rl_listeners := [], rl_disposing := True\<rparr>)"

definition raw_dispose_rest :: "raw_life \<Rightarrow> raw_life" where
  "raw_dispose_rest st =
     (if rl_disposing st \<and> rl_task st = None
      then st\<lparr>rl_disposing := False, rl_delegateDisposed := Suc (rl_delegateDisposed st)\<rparr> else st)"

datatype raw_event =
    RwConnect
  | RwInvoke nat
  | RwSettle nat "unknown + raw_conn"
  | RwObserve nat
  | RwDelegate task_env raw_conn unknown
  | RwSlept task_env "unknown option"
  | RwResume task_env
  | RwNoticed
  | RwListen nat
  | RwUnlisten nat
  | RwDispose
  | RwDisposeRest

fun raw_step :: "retry_policy option \<Rightarrow> raw_life \<Rightarrow> raw_event \<Rightarrow> raw_life" where
  "raw_step policy st RwConnect = raw_connect st"
| "raw_step policy st (RwInvoke t) = raw_invoke t st"
| "raw_step policy st (RwSettle t r) = raw_settle t r st"
| "raw_step policy st (RwObserve g) = raw_observe g st"
| "raw_step policy st (RwDelegate te s e) = raw_delegate policy te s e st"
| "raw_step policy st (RwSlept te failure) = (case policy of Some p \<Rightarrow> task_sleep_ends p te failure st | None \<Rightarrow> st)"
| "raw_step policy st (RwResume te) = (case policy of Some p \<Rightarrow> task_resume p te st | None \<Rightarrow> st)"
| "raw_step policy st RwNoticed = task_noticed st"
| "raw_step policy st (RwListen l) = st\<lparr>rl_listeners := os_add l (rl_listeners st)\<rparr>"
| "raw_step policy st (RwUnlisten l) = st\<lparr>rl_listeners := removeAll l (rl_listeners st)\<rparr>"
| "raw_step policy st RwDispose = raw_dispose st"
| "raw_step policy st RwDisposeRest = raw_dispose_rest st"

definition raw_run :: "retry_policy option \<Rightarrow> raw_conn \<Rightarrow> raw_event list \<Rightarrow> raw_life" where
  "raw_run policy s es = foldl (raw_step policy) (raw_new s) es"

text \<open>The constructor refuses an invalid policy.\<close>

definition createRawGatewayConnectionLifecycle :: "retry_policy option \<Rightarrow> raw_conn \<Rightarrow> unknown + raw_life" where
  "createRawGatewayConnectionLifecycle policy s =
     (case Option.bind policy validateTransportRetryPolicy of Some e \<Rightarrow> Inl e | None \<Rightarrow> Inr (raw_new s))"

section \<open>Requests\<close>

definition normalizeRawGatewayRequest :: "jv \<Rightarrow> jv \<Rightarrow> unknown option \<Rightarrow> unknown + string \<times> (string, jv) omap" where
  "normalizeRawGatewayRequest operationId payload aborted =
     (case operationId of
        JStr s \<Rightarrow>
          if trim s = [] then Inl (UErr (invalidInputError ''Raw gateway operation ID must not be blank''))
          else if payload \<noteq> JUndef \<and> \<not> is_plain_object payload
          then Inl (UErr (JsError CTypeError ''Raw gateway request payload must be an object'' [] None))
          else (case aborted of
                  Some reason \<Rightarrow> Inl reason
                | None \<Rightarrow> Inr (trim s, case payload of JObj m \<Rightarrow> m | _ \<Rightarrow> []))
      | _ \<Rightarrow> Inl (UErr (JsError CTypeError ''Raw gateway operation ID must be a string'' [] None)))"

text \<open>A listener's own failure is its answer; every listener is called, in order.\<close>

definition dispatchRawGatewayListeners :: "('v \<Rightarrow> unknown option) list \<Rightarrow> 'v \<Rightarrow> unknown option list" where
  "dispatchRawGatewayListeners listeners v = map (\<lambda>l. l v) listeners"

section \<open>The state is consistent\<close>

definition in_budget :: "retry_policy option \<Rightarrow> raw_task \<Rightarrow> bool" where
  "in_budget policy tk =
     (case policy of Some p \<Rightarrow> tk_wait tk = TkOver \<or> num_lt (num (int (tk_attempt tk))) (rp_maxAttempts p) | None \<Rightarrow> False)"

definition waits_for :: "raw_task \<Rightarrow> nat option" where
  "waits_for tk = (case tk_wait tk of TkManual t \<Rightarrow> Some t | TkConnect t \<Rightarrow> Some t | _ \<Rightarrow> None)"

text \<open>Promises: the one connect in flight is the one that is remembered, and it is not settled.\<close>

definition promises_inv :: "raw_life \<Rightarrow> bool" where
  "promises_inv st =
     (rl_scheduled st @ rl_running st = (case rl_connect st of Some t \<Rightarrow> [t] | None \<Rightarrow> [])
      \<and> (case rl_connect st of Some t \<Rightarrow> t < rl_tokens st \<and> \<not> om_has (rl_settled st) t | None \<Rightarrow> True)
      \<and> (\<forall>t. om_has (rl_settled st) t \<longrightarrow> t < rl_tokens st))"

definition task_inv :: "retry_policy option \<Rightarrow> raw_life \<Rightarrow> bool" where
  "task_inv policy st =
     (case rl_task st of
        None \<Rightarrow> True
      | Some tk \<Rightarrow>
          in_budget policy tk \<and> 1 \<le> tk_attempt tk
          \<and> (case waits_for tk of Some t \<Rightarrow> om_has (rl_settled st) t \<or> rl_connect st = Some t | None \<Rightarrow> True))"

definition disposal_inv :: "raw_life \<Rightarrow> bool" where
  "disposal_inv st =
     (rl_delegateDisposed st = (if rl_disposed st \<and> \<not> rl_disposing st then 1 else 0)
      \<and> (if rl_disposing st then rl_disposed st else True)
      \<and> (if rl_delegateDisposed st \<noteq> 0 then rl_task st = None else True))"

definition raw_inv :: "retry_policy option \<Rightarrow> raw_life \<Rightarrow> bool" where
  "raw_inv policy st = (promises_inv st \<and> task_inv policy st \<and> disposal_inv st)"

lemma publish_fields [simp]:
  "rl_task (raw_publish s e st) = rl_task st" "rl_connect (raw_publish s e st) = rl_connect st"
  "rl_tokens (raw_publish s e st) = rl_tokens st" "rl_scheduled (raw_publish s e st) = rl_scheduled st"
  "rl_running (raw_publish s e st) = rl_running st" "rl_settled (raw_publish s e st) = rl_settled st"
  "rl_disposed (raw_publish s e st) = rl_disposed st" "rl_disposing (raw_publish s e st) = rl_disposing st"
  "rl_delegateDisposed (raw_publish s e st) = rl_delegateDisposed st" "rl_listeners (raw_publish s e st) = rl_listeners st"
  "rl_generation (raw_publish s e st) = rl_generation st" "rl_state (raw_publish s e st) = s"
  by (simp_all add: raw_publish_def)

text \<open>What the invariant reads, without the task.\<close>

definition frame_of :: "raw_life \<Rightarrow> (nat option \<times> nat \<times> nat list \<times> nat list) \<times> (nat, unknown option) omap
    \<times> (nat \<times> (nat, nat) omap \<times> (nat \<times> unknown) option) \<times> bool \<times> bool \<times> nat \<times> nat list" where
  "frame_of st =
     ((rl_connect st, rl_tokens st, rl_scheduled st, rl_running st), rl_settled st,
      (rl_generation st, rl_manuals st, rl_lastManual st),
      rl_disposed st, rl_disposing st, rl_delegateDisposed st, rl_listeners st)"

lemma frame_fields:
  assumes "frame_of a = frame_of b"
  shows "promises_inv a = promises_inv b" "rl_disposed a = rl_disposed b" "rl_disposing a = rl_disposing b"
    "rl_delegateDisposed a = rl_delegateDisposed b" "rl_settled a = rl_settled b" "rl_connect a = rl_connect b"
    "rl_tokens a = rl_tokens b" "rl_listeners a = rl_listeners b" "rl_scheduled a = rl_scheduled b" "rl_running a = rl_running b"
  using assms by (simp_all add: frame_of_def promises_inv_def split: option.split)

lemma frame_simps [simp]:
  "frame_of (raw_publish s e st) = frame_of st" "frame_of (publish_change s st) = frame_of st"
  "frame_of (publish_error e st) = frame_of st" "frame_of (task_over tk st) = frame_of st"
  "frame_of (st\<lparr>rl_task := x\<rparr>) = frame_of st"
  by (simp_all add: frame_of_def raw_publish_def publish_change_def publish_error_def task_over_def)

lemma task_over_inv [simp]: "rl_task (task_over tk st) = Some (tk\<lparr>tk_wait := TkOver\<rparr>)"
  by (simp add: task_over_def)

lemma om_has_set: "om_has (om_set k v m) j \<longleftrightarrow> j = k \<or> om_has m j"
  by (simp add: om_has_def)

definition known_promise :: "raw_life \<Rightarrow> nat \<Rightarrow> bool" where
  "known_promise st t = (om_has (rl_settled st) t \<or> rl_connect st = Some t)"

lemma task_turn_ok:
  "frame_of (task_turn p te tk st) = frame_of st
   \<and> (\<exists>tk'. rl_task (task_turn p te tk st) = Some tk' \<and> tk_attempt tk' = tk_attempt tk \<and> in_budget (Some p) tk'
       \<and> (tk_wait tk' = TkOver \<or> tk_wait tk' = TkSleep))"
  unfolding task_turn_def Let_def
  by (auto simp: in_budget_def task_over_def split: sum.split option.split)

lemma startConnect_ok:
  assumes "promises_inv st" and "startConnect st = (t, st')"
  shows "promises_inv st' \<and> known_promise st' t \<and> rl_task st' = rl_task st \<and> rl_disposed st' = rl_disposed st
     \<and> rl_disposing st' = rl_disposing st \<and> rl_delegateDisposed st' = rl_delegateDisposed st
     \<and> (known_promise st u \<longrightarrow> known_promise st' u) \<and> rl_listeners st' = rl_listeners st \<and> rl_notices st' = rl_notices st"
proof -
  have n: "\<not> om_has (rl_settled st) (rl_tokens st)"
    using assms(1) by (auto simp: promises_inv_def)
  show ?thesis
    using assms n
    by (auto simp: startConnect_def promises_inv_def known_promise_def om_has_set Let_def split: if_splits option.splits)
qed

text \<open>An operation of the task: nothing but the task and the promises changes, and it leaves a sound task.\<close>

definition task_sound :: "retry_policy option \<Rightarrow> nat \<Rightarrow> raw_life \<Rightarrow> raw_life \<Rightarrow> bool" where
  "task_sound policy lo st st' =
     (promises_inv st' \<and> rl_disposed st' = rl_disposed st \<and> rl_disposing st' = rl_disposing st
      \<and> rl_delegateDisposed st' = rl_delegateDisposed st \<and> rl_listeners st' = rl_listeners st
      \<and> (case rl_task st' of
           Some tk \<Rightarrow> in_budget policy tk \<and> lo \<le> tk_attempt tk
             \<and> (case waits_for tk of Some t \<Rightarrow> known_promise st' t | None \<Rightarrow> True)
         | None \<Rightarrow> False))"

lemma turn_sound: "promises_inv st \<Longrightarrow> task_sound (Some p) (tk_attempt tk) st (task_turn p te tk st)"
  using task_turn_ok [of p te tk st] frame_fields [of "task_turn p te tk st" st]
  by (auto simp: task_sound_def waits_for_def split: option.splits)

lemma over_sound: "promises_inv st \<Longrightarrow> frame_of st' = frame_of st \<Longrightarrow> policy \<noteq> None \<Longrightarrow>
    task_sound policy (tk_attempt tk) st (task_over tk st')"
  using frame_fields [of "task_over tk st'" st]
  by (auto simp: task_sound_def waits_for_def in_budget_def)

lemma connect_sound:
  assumes "promises_inv st" and "in_budget (Some p) tk \<or> tk_wait tk = TkOver" and "num_lt (num (int (tk_attempt tk))) (rp_maxAttempts p)"
  shows "task_sound (Some p) (tk_attempt tk) st (task_connect tk st)"
proof (cases "retryable_error (tk_error tk)")
  case True
  obtain t st1 where s: "startConnect st = (t, st1)" by (cases "startConnect st")
  note k = startConnect_ok [OF assms(1) s, of 0]
  have p: "promises_inv (st1\<lparr>rl_task := x\<rparr>) = promises_inv st1" for x by (simp add: promises_inv_def split: option.split)
  then show ?thesis
    using True s k assms(3)
    by (auto simp: task_connect_def task_sound_def in_budget_def waits_for_def known_promise_def p)
next
  case False
  have "task_sound (Some p) (tk_attempt tk) st (task_over tk (publish_error (tk_error tk) st))"
    by (rule over_sound) (simp_all add: assms(1))
  then show ?thesis using False by (simp add: task_connect_def)
qed

lemma sound_inv:
  assumes "raw_inv policy st" and "rl_delegateDisposed st = 0" and "1 \<le> lo" and "task_sound policy lo st st'"
  shows "raw_inv policy st'"
proof -
  obtain tk where t: "rl_task st' = Some tk" "in_budget policy tk" "lo \<le> tk_attempt tk"
    "case waits_for tk of Some t \<Rightarrow> known_promise st' t | None \<Rightarrow> True"
    using assms(4) by (auto simp: task_sound_def split: option.splits)
  then show ?thesis
    using assms by (auto simp: raw_inv_def task_inv_def disposal_inv_def task_sound_def known_promise_def split: option.splits if_splits)
qed

lemma task_alive: "raw_inv policy st \<Longrightarrow> rl_task st = Some tk \<Longrightarrow> rl_delegateDisposed st = 0 \<and> in_budget policy tk \<and> 1 \<le> tk_attempt tk"
  by (auto simp: raw_inv_def task_inv_def disposal_inv_def split: if_splits)

lemma sound_mono: "lo' \<le> lo \<Longrightarrow> task_sound policy lo st st' \<Longrightarrow> task_sound policy lo' st st'"
  by (auto simp: task_sound_def split: option.splits)

lemma slept_sound:
  assumes "promises_inv st" and "num_lt (num (int (tk_attempt tk))) (rp_maxAttempts p)"
  shows "task_sound (Some p) (tk_attempt tk) st (task_slept tk st)"
proof -
  note c = connect_sound [OF assms(1), of p]
  have b: "in_budget (Some p) (tk\<lparr>tk_wait := w\<rparr>)" for w using assms(2) by (simp add: in_budget_def)
  have w: "task_sound (Some p) (tk_attempt tk) st (st\<lparr>rl_task := Some (tk'\<lparr>tk_wait := TkManual t\<rparr>)\<rparr>)"
    if "rl_connect st = Some t" "tk_attempt tk' = tk_attempt tk" for t tk'
    using that assms by (auto simp: task_sound_def waits_for_def known_promise_def in_budget_def promises_inv_def split: option.split)
  have o': "task_sound (Some p) (tk_attempt tk) st (task_over tk' st)" if "tk_attempt tk' = tk_attempt tk" for tk'
    using over_sound [OF assms(1), of st "Some p" tk'] that by simp
  have c': "task_sound (Some p) (tk_attempt tk) st (task_connect tk' st)" if "tk_attempt tk' = tk_attempt tk" for tk'
    using c [of tk'] assms(2) that by (cases "tk_wait tk' = TkOver") (auto simp: in_budget_def)
  show ?thesis
    unfolding task_slept_def Let_def by (auto simp: w o' c' split: option.split)
qed

lemma resumed_sound:
  assumes "raw_inv (Some p) st" and "rl_task st = Some tk" and "tk_wait tk \<noteq> TkOver"
  shows "task_resume p te st = st \<or> task_sound (Some p) (tk_attempt tk) st (task_resume p te st)"
proof -
  have pi: "promises_inv st" and b: "num_lt (num (int (tk_attempt tk))) (rp_maxAttempts p)"
    using assms by (auto simp: raw_inv_def task_inv_def in_budget_def)
  have c: "task_sound (Some p) (tk_attempt tk) st (task_connect tk' st)" if "tk_attempt tk' = tk_attempt tk" for tk'
    using connect_sound [OF pi, of p tk'] b that by (auto simp: in_budget_def)
  have o': "task_sound (Some p) (tk_attempt tk) st (task_over tk st')" if "frame_of st' = frame_of st" for st'
    using over_sound [OF pi that, of "Some p" tk] by simp
  have f: "task_sound (Some p) (tk_attempt tk) st (task_failed p te e tk st)" for e
    unfolding task_failed_def by (rule sound_mono [OF _ turn_sound [OF pi]]) simp
  show ?thesis
    using assms(2,3) by (auto simp: task_resume_def c o' f split: task_wait.split option.split)
qed

lemma raw_inv_cong:
  assumes "rl_connect a = rl_connect b" "rl_tokens a = rl_tokens b" "rl_scheduled a = rl_scheduled b" "rl_running a = rl_running b"
    "rl_settled a = rl_settled b" "rl_task a = rl_task b" "rl_disposed a = rl_disposed b" "rl_disposing a = rl_disposing b"
    "rl_delegateDisposed a = rl_delegateDisposed b"
  shows "promises_inv a = promises_inv b" "raw_inv policy a = raw_inv policy b"
  unfolding raw_inv_def promises_inv_def task_inv_def disposal_inv_def assms by (rule refl)+

lemma promises_frame [simp]: "promises_inv (st\<lparr>rl_task := x\<rparr>) = promises_inv st"
  by (auto simp: promises_inv_def split: option.splits)

lemma raw_inv_step: "raw_inv policy st \<Longrightarrow> raw_inv policy (raw_step policy st ev)"
proof (cases ev)
  case RwConnect
  assume i: "raw_inv policy st"
  let ?st = "st\<lparr>rl_generation := Suc (rl_generation st)\<rparr>"
  obtain t st1 where s: "startConnect ?st = (t, st1)" by (cases "startConnect ?st")
  have "promises_inv ?st" using i raw_inv_cong(1) [of ?st st] by (simp add: raw_inv_def)
  note k = startConnect_ok [OF this s]
  have "raw_inv policy st1"
    using i k by (fastforce simp: raw_inv_def task_inv_def disposal_inv_def known_promise_def waits_for_def split: option.splits)
  then have "raw_inv policy (st1\<lparr>rl_manuals := x\<rparr>)" for x
    using raw_inv_cong(2) [of "st1\<lparr>rl_manuals := x\<rparr>" st1 policy] by simp
  then show ?thesis using RwConnect s i by (simp add: raw_connect_def Let_def split: option.split)
next
  case (RwInvoke t)
  assume i: "raw_inv policy st"
  then show ?thesis
    using RwInvoke by (cases "rl_connect st"; cases "rl_scheduled st")
      (auto simp: raw_invoke_def raw_inv_def promises_inv_def task_inv_def disposal_inv_def split: option.splits)
next
  case (RwSettle t r)
  assume i: "raw_inv policy st"
  define st1 where "st1 = (case r of Inr s \<Rightarrow> publish_change s st | Inl _ \<Rightarrow> st)"
  have f: "frame_of st1 = frame_of st" "rl_task st1 = rl_task st"
    by (auto simp: st1_def publish_change_def split: sum.split)
  have i1: "raw_inv policy st1"
    using i raw_inv_cong(2) [of st1 st policy] f by (simp add: frame_of_def)
  show ?thesis
  proof (cases "t \<in> set (rl_running st)")
    case True
    then have c: "rl_connect st1 = Some t" "rl_scheduled st1 = []" "rl_running st1 = [t]" "t < rl_tokens st1"
      using i1 f by (auto simp: raw_inv_def promises_inv_def frame_of_def append_eq_Cons_conv split: option.splits)
    have k: "known_promise (raw_step policy st ev) u" if "known_promise st1 u" for u
      using that c True RwSettle by (auto simp: raw_settle_def known_promise_def om_has_set st1_def [symmetric] Let_def)
    show ?thesis
      using i1 True RwSettle c k
      by (auto simp: raw_settle_def st1_def [symmetric] raw_inv_def promises_inv_def task_inv_def disposal_inv_def om_has_set
          known_promise_def [symmetric] Let_def split: option.splits)
  qed (use RwSettle i in \<open>simp add: raw_settle_def\<close>)
next
  case (RwSlept te failure)
  assume i: "raw_inv policy st"
  show ?thesis
  proof (cases "policy = None \<or> rl_task st = None \<or> tk_wait (the (rl_task st)) \<noteq> TkSleep")
    case False
    then obtain p tk where pt: "policy = Some p" "rl_task st = Some tk" "tk_wait tk = TkSleep" by auto
    note a = task_alive [OF i pt(2)]
    have pi: "promises_inv st" using i by (simp add: raw_inv_def)
    have "task_sound policy (tk_attempt tk) st (raw_step policy st ev)"
    proof (cases failure)
      case None
      then show ?thesis using slept_sound [OF pi, of tk p] a pt RwSlept by (simp add: task_sleep_ends_def in_budget_def)
    next
      case (Some e)
      have "task_sound (Some p) (Suc (tk_attempt tk)) st (task_failed p te e tk st)"
        unfolding task_failed_def using turn_sound [OF pi, of p "tk\<lparr>tk_error := e, tk_attempt := Suc (tk_attempt tk)\<rparr>" te] by simp
      then show ?thesis using sound_mono [of "tk_attempt tk" "Suc (tk_attempt tk)"] pt RwSlept Some
        by (simp add: task_sleep_ends_def)
    qed
    then show ?thesis using sound_inv [OF i] a by blast
  qed (use RwSlept i in \<open>auto simp: task_sleep_ends_def split: option.split\<close>)
next
  case (RwResume te)
  assume i: "raw_inv policy st"
  show ?thesis
  proof (cases "policy = None \<or> rl_task st = None \<or> tk_wait (the (rl_task st)) = TkOver")
    case False
    then obtain p tk where pt: "policy = Some p" "rl_task st = Some tk" "tk_wait tk \<noteq> TkOver" by auto
    have "task_resume p te st = st \<or> task_sound (Some p) (tk_attempt tk) st (task_resume p te st)"
      using resumed_sound [of p st tk te] i pt by simp
    then show ?thesis using sound_inv [OF i] task_alive [OF i pt(2)] i pt RwResume by auto
  qed (use RwResume i in \<open>auto simp: task_resume_def split: option.split\<close>)
next
  case (RwDelegate te s e)
  assume i: "raw_inv policy st"
  let ?st = "raw_publish s e st"
  have i1: "raw_inv policy ?st" using i raw_inv_cong(2) [of ?st st policy] by simp
  have "raw_inv policy (raw_reconnect p te e ?st)" if p: "policy = Some p" and d: "\<not> rl_disposed st" for p
  proof -
    have pi: "promises_inv ?st" "rl_delegateDisposed ?st = 0" using i1 d by (auto simp: raw_inv_def disposal_inv_def)
    define tk where "tk = \<lparr>tk_startedAt = te_startedAt te, tk_observed = rl_generation ?st, tk_error = e, tk_attempt = 1, tk_wait = TkSleep\<rparr>"
    have "task_sound (Some p) 1 ?st (task_over tk ?st)" "task_sound (Some p) 1 ?st (task_turn p te tk ?st)"
      using over_sound [OF pi(1) refl, of "Some p" tk] turn_sound [OF pi(1), of p tk te] by (simp_all add: tk_def)
    then show ?thesis
      using sound_inv [OF i1 pi(2), of 1] p by (simp add: raw_reconnect_def tk_def Let_def)
  qed
  then show ?thesis using RwDelegate i i1 by (cases policy) (auto simp: raw_delegate_def Let_def)
qed (auto simp: raw_inv_def promises_inv_def task_inv_def disposal_inv_def raw_observe_def task_noticed_def raw_dispose_def
    raw_dispose_rest_def split: option.splits if_splits)

lemma raw_run_inv: "raw_inv policy (raw_run policy s es)"
proof (induction es rule: rev_induct)
  case Nil
  show ?case by (simp add: raw_run_def raw_new_def raw_inv_def promises_inv_def task_inv_def disposal_inv_def om_has_def)
next
  case (snoc e es)
  then show ?case by (simp add: raw_run_def raw_inv_step)
qed

text \<open>C16: However the delegate, the callers, the timers and the reactions interleave: at most one connect of the delegate is
  started and not settled, and it is the one remembered; the reconnect task waits only within the policy's attempts
  and only for a promise that is settled or is that connect; the delegate is disposed of at most once, after disposal
  was asked for and when no task is left.\<close>

theorem raw_lifecycle_state:
  "let st = raw_run policy s es in
     rl_scheduled st @ rl_running st = (case rl_connect st of Some t \<Rightarrow> [t] | None \<Rightarrow> [])
   \<and> (case rl_task st of
        Some tk \<Rightarrow> policy \<noteq> None \<and> 1 \<le> tk_attempt tk
          \<and> (tk_wait tk = TkOver \<or> num_lt (num (int (tk_attempt tk))) (rp_maxAttempts (the policy)))
          \<and> (case waits_for tk of Some t \<Rightarrow> om_has (rl_settled st) t \<or> rl_connect st = Some t | None \<Rightarrow> True)
      | None \<Rightarrow> True)
   \<and> rl_delegateDisposed st \<le> 1
   \<and> (if rl_delegateDisposed st = 1 then rl_disposed st \<and> rl_task st = None else True)"
  using raw_run_inv [of policy s es]
  by (auto simp: raw_inv_def promises_inv_def task_inv_def disposal_inv_def in_budget_def Let_def split: option.splits if_splits)

section \<open>After disposal\<close>

text \<open>What a step of a disposed lifecycle leaves as it is.\<close>

definition quiet_step :: "raw_life \<Rightarrow> raw_life \<Rightarrow> bool" where
  "quiet_step st st' =
     (rl_disposed st' \<and> set (rl_scheduled st' @ rl_running st') \<subseteq> set (rl_scheduled st @ rl_running st)
      \<and> rl_listeners st' = rl_listeners st
      \<and> (\<exists>new. rl_notices st' = rl_notices st @ new \<and> list_all (\<lambda>n. rn_listeners n = rl_listeners st) new)
      \<and> (rl_task st = None \<longrightarrow> rl_task st' = None))"

lemma quiet_refl: "rl_disposed st \<Longrightarrow> quiet_step st st"
  by (simp add: quiet_step_def)

lemma quiet_publish: "rl_disposed st \<Longrightarrow> quiet_step st (raw_publish s e st)" "rl_disposed st \<Longrightarrow> quiet_step st (publish_change s st)"
  "rl_disposed st \<Longrightarrow> quiet_step st (publish_error e st)"
  by (auto simp: quiet_step_def raw_publish_def publish_change_def publish_error_def)

lemma quiet_task: "rl_task st \<noteq> None \<Longrightarrow> quiet_step st st' \<Longrightarrow> quiet_step st (st'\<lparr>rl_task := x\<rparr>)"
  by (auto simp: quiet_step_def)

lemma quiet_over: "rl_task st \<noteq> None \<Longrightarrow> quiet_step st st' \<Longrightarrow> quiet_step st (task_over tk st')"
  by (simp add: task_over_def quiet_task)

lemma quiet_start: "rl_disposed st \<Longrightarrow> startConnect st = (t, st') \<Longrightarrow> quiet_step st st'"
  by (auto simp: startConnect_def quiet_step_def Let_def)

lemma quiet_turn: "rl_disposed st \<Longrightarrow> rl_task st \<noteq> None \<Longrightarrow> quiet_step st (task_turn p te tk st)"
  by (simp add: task_turn_def Let_def quiet_over quiet_refl)

lemma quiet_connect: "rl_disposed st \<Longrightarrow> rl_task st \<noteq> None \<Longrightarrow> quiet_step st (task_connect tk st)"
  by (cases "startConnect st") (simp add: task_connect_def Let_def quiet_over quiet_publish quiet_task quiet_start)

lemma quiet_raw_step:
  assumes "rl_disposed st" and "\<And>l. ev \<noteq> RwListen l" and "\<And>l. ev \<noteq> RwUnlisten l"
  shows "quiet_step st (raw_step policy st ev)"
proof (cases ev)
  case RwConnect
  obtain t st1 where s: "startConnect (st\<lparr>rl_generation := Suc (rl_generation st)\<rparr>) = (t, st1)"
    by (cases "startConnect (st\<lparr>rl_generation := Suc (rl_generation st)\<rparr>)")
  have "quiet_step (st\<lparr>rl_generation := Suc (rl_generation st)\<rparr>) st1" using quiet_start [OF _ s] assms(1) by simp
  then have "quiet_step st (st1\<lparr>rl_manuals := x\<rparr>)" for x by (simp add: quiet_step_def)
  then show ?thesis using RwConnect s assms(1) by (simp add: raw_connect_def quiet_refl Let_def split: option.split)
next
  case (RwSettle t r)
  define st1 where "st1 = (case r of Inr s \<Rightarrow> publish_change s st | Inl _ \<Rightarrow> st)"
  have "quiet_step st st1" using quiet_publish quiet_refl assms(1) by (auto simp: st1_def split: sum.split)
  then show ?thesis
    using RwSettle assms(1) quiet_refl [of st] by (auto simp: raw_settle_def quiet_step_def st1_def [symmetric] Let_def)
next
  case (RwSlept te failure)
  show ?thesis
    using RwSlept assms(1)
    by (auto simp: task_sleep_ends_def task_slept_def task_failed_def quiet_refl quiet_over quiet_turn split: option.split)
next
  case (RwResume te)
  show ?thesis
    using RwResume assms(1)
    by (auto simp: task_resume_def task_failed_def quiet_refl quiet_over quiet_turn quiet_connect quiet_publish
        split: option.split task_wait.split)
qed (use assms in \<open>auto simp: quiet_step_def raw_invoke_def raw_observe_def raw_delegate_def task_noticed_def raw_dispose_def
    raw_dispose_rest_def split: option.split\<close>)

definition is_listen :: "raw_event \<Rightarrow> bool" where
  "is_listen ev = (case ev of RwListen _ \<Rightarrow> True | _ \<Rightarrow> False)"

lemma quiet_run:
  assumes "rl_disposed st" and "rl_listeners st = []" and "\<not> list_ex is_listen es"
  shows "quiet_step st (foldl (raw_step policy) st es) \<and> rl_listeners (foldl (raw_step policy) st es) = []"
  using assms
proof (induction es rule: rev_induct)
  case (snoc ev es)
  let ?st = "foldl (raw_step policy) st es"
  have ih: "quiet_step st ?st" "rl_listeners ?st = []" using snoc by auto
  then have d: "rl_disposed ?st" by (simp add: quiet_step_def)
  have "quiet_step ?st (raw_step policy ?st ev)"
  proof (cases "\<exists>l. ev = RwUnlisten l")
    case True
    then show ?thesis using d ih by (auto simp: quiet_step_def)
  next
    case False
    moreover have "ev \<noteq> RwListen l" for l using snoc.prems(3) by (auto simp: is_listen_def)
    ultimately show ?thesis using quiet_raw_step [OF d] by blast
  qed
  then show ?case using ih snoc.prems(2) by (auto simp: quiet_step_def)
qed (simp add: quiet_refl)

text \<open>C18: After disposal nothing starts any more: whatever happens then, no connect of the delegate is added to those that
  were started, no reconnect task appears, and what is published reaches no listener that had subscribed before.\<close>

theorem raw_dispose_quiet:
  "let st = raw_run policy s (es @ [RwDispose]); later = raw_run policy s (es @ RwDispose # after) in
     if list_ex is_listen after \<or> rl_disposed (raw_run policy s es) then True
     else set (rl_scheduled later @ rl_running later) \<subseteq> set (rl_scheduled st @ rl_running st)
       \<and> (if rl_task st = None then rl_task later = None else True)
       \<and> rl_disposed later
       \<and> list_all (\<lambda>n. rn_listeners n = []) (drop (length (rl_notices st)) (rl_notices later))"
proof -
  let ?st = "raw_run policy s (es @ [RwDispose])"
  let ?later = "raw_run policy s (es @ RwDispose # after)"
  have l: "?later = foldl (raw_step policy) ?st after" by (simp add: raw_run_def)
  have "quiet_step ?st ?later" if "\<not> list_ex is_listen after" "\<not> rl_disposed (raw_run policy s es)"
    using quiet_run [of ?st after policy] that unfolding l by (simp add: raw_run_def raw_dispose_def)
  then show ?thesis
    by (auto simp: quiet_step_def raw_run_def raw_dispose_def Let_def)
qed

section \<open>The reconnect task ends\<close>

definition attempts_of :: "retry_policy \<Rightarrow> nat" where
  "attempts_of p = (case rp_maxAttempts p of Fin q \<Rightarrow> nat \<lceil>q\<rceil> | _ \<Rightarrow> 0)"

lemma attempts_bound:
  "validateTransportRetryPolicy p = None \<Longrightarrow> num_lt (num (int a)) (rp_maxAttempts p) \<longleftrightarrow> a < attempts_of p"
proof -
  assume v: "validateTransportRetryPolicy p = None"
  then have "is_integer (rp_maxAttempts p)"
    by (cases "is_integer (rp_maxAttempts p)") (auto simp: validateTransportRetryPolicy_def)
  then obtain q where q: "rp_maxAttempts p = Fin q" by (cases "rp_maxAttempts p") (auto simp: is_integer_def)
  show ?thesis by (simp add: q attempts_of_def num_def) linarith
qed

text \<open>What the environment still owes a task, and its answers: a clock and a random number, how a sleep ends, how a
  connect of the delegate settles.\<close>

record raw_answer =
  an_env :: task_env
  an_sleep :: "unknown option"
  an_connect :: "unknown + raw_conn"

definition next_event :: "raw_answer \<Rightarrow> raw_life \<Rightarrow> raw_event option" where
  "next_event a st =
     (case rl_task st of
        None \<Rightarrow> None
      | Some tk \<Rightarrow>
          Some (case tk_wait tk of
                  TkSleep \<Rightarrow> RwSlept (an_env a) (an_sleep a)
                | TkOver \<Rightarrow> RwNoticed
                | TkManual t \<Rightarrow> if om_has (rl_settled st) t then RwResume (an_env a)
                    else if t \<in> set (rl_scheduled st) then RwInvoke t else RwSettle t (an_connect a)
                | TkConnect t \<Rightarrow> if om_has (rl_settled st) t then RwResume (an_env a)
                    else if t \<in> set (rl_scheduled st) then RwInvoke t else RwSettle t (an_connect a)))"

fun drive :: "retry_policy \<Rightarrow> raw_answer list \<Rightarrow> raw_life \<Rightarrow> raw_life" where
  "drive p [] st = st"
| "drive p (a # as) st = (case next_event a st of Some ev \<Rightarrow> drive p as (raw_step (Some p) st ev) | None \<Rightarrow> st)"

definition phase_rank :: "raw_life \<Rightarrow> nat \<Rightarrow> nat" where
  "phase_rank st t = (if om_has (rl_settled st) t then 1 else if t \<in> set (rl_scheduled st) then 3 else 2)"

definition task_measure :: "retry_policy \<Rightarrow> raw_life \<Rightarrow> nat" where
  "task_measure p st =
     (case rl_task st of
        None \<Rightarrow> 0
      | Some tk \<Rightarrow>
          let left = 7 * (attempts_of p - 1 - tk_attempt tk) in
          (case tk_wait tk of TkOver \<Rightarrow> 1 | TkSleep \<Rightarrow> left + 8 | TkManual t \<Rightarrow> left + 4 + phase_rank st t
           | TkConnect t \<Rightarrow> left + 1 + phase_rank st t))"

lemma measure_over [simp]: "task_measure p (task_over tk st) = 1"
  by (simp add: task_measure_def)

lemma measure_turn:
  assumes "validateTransportRetryPolicy p = None"
  shows "task_measure p (task_turn p te tk st) \<le>
     (if tk_attempt tk < attempts_of p then 7 * (attempts_of p - 1 - tk_attempt tk) + 8 else 1)"
  using attempts_bound [OF assms, of "tk_attempt tk"]
  by (auto simp: task_turn_def task_measure_def Let_def split: sum.split)

lemma measure_connect: "task_measure p (task_connect tk st) \<le> 7 * (attempts_of p - 1 - tk_attempt tk) + 4"
proof -
  obtain t st1 where s: "startConnect st = (t, st1)" by (cases "startConnect st")
  have "phase_rank x t \<le> 3" for x by (simp add: phase_rank_def)
  then show ?thesis using s by (simp add: task_connect_def task_measure_def Let_def)
qed

lemma measure_slept: "rl_task st = Some tk \<Longrightarrow> task_measure p (task_slept tk st) \<le> 7 * (attempts_of p - 1 - tk_attempt tk) + 7"
proof -
  have r: "phase_rank x t \<le> 3" for x t by (simp add: phase_rank_def)
  define m where "m = 7 * (attempts_of p - 1 - tk_attempt tk) + 7"
  have c: "task_measure p (task_connect tk' st) \<le> m" if "tk_attempt tk' = tk_attempt tk" for tk'
    using measure_connect [of p tk' st] that by (simp add: m_def)
  have w: "task_measure p (st\<lparr>rl_task := Some (tk\<lparr>tk_observed := g, tk_wait := TkManual t\<rparr>)\<rparr>) \<le> m" for g t
    using r by (simp add: task_measure_def m_def)
  have o: "1 \<le> m" by (simp add: m_def)
  have "task_measure p (task_slept tk st) \<le> m"
    using c w o by (auto simp: task_slept_def Let_def simp del: One_nat_def split: option.split)
  then show ?thesis by (simp add: m_def)
qed

lemma waited_connect:
  assumes "raw_inv policy st" and "rl_task st = Some tk" and "waits_for tk = Some t" and "\<not> om_has (rl_settled st) t"
  shows "rl_connect st = Some t \<and> (rl_scheduled st = [t] \<and> rl_running st = [] \<or> rl_scheduled st = [] \<and> rl_running st = [t])"
  using assms by (auto simp: raw_inv_def task_inv_def promises_inv_def append_eq_Cons_conv)

lemma promise_moves:
  assumes "raw_inv (Some p) st" and "rl_task st = Some tk" and "waits_for tk = Some t" and "\<not> om_has (rl_settled st) t"
    and "ev = (if t \<in> set (rl_scheduled st) then RwInvoke t else RwSettle t r)"
  shows "rl_task (raw_step (Some p) st ev) = Some tk \<and> phase_rank (raw_step (Some p) st ev) t < phase_rank st t"
proof -
  note w = waited_connect [OF assms(1-4)]
  have k: "rl_task (publish_change s st) = rl_task st" "rl_connect (publish_change s st) = rl_connect st"
    "rl_settled (publish_change s st) = rl_settled st" for s
    by (simp_all add: publish_change_def)
  show ?thesis
    using assms(2,4,5) w by (auto simp: raw_invoke_def raw_settle_def phase_rank_def om_has_set k Let_def split: sum.split)
qed

lemma drive_step:
  assumes "raw_inv (Some p) st" and "validateTransportRetryPolicy p = None" and "next_event a st = Some ev"
  shows "task_measure p (raw_step (Some p) st ev) < task_measure p st"
proof -
  obtain tk where tk: "rl_task st = Some tk" using assms(3) by (auto simp: next_event_def split: option.splits)
  note alive = task_alive [OF assms(1) tk]
  have lt: "tk_attempt tk < attempts_of p" if "tk_wait tk \<noteq> TkOver"
    using alive that attempts_bound [OF assms(2)] by (simp add: in_budget_def)
  have failed: "task_measure p (task_failed p te e tk st) \<le> 7 * (attempts_of p - 1 - tk_attempt tk) + 1"
    if "tk_wait tk \<noteq> TkOver" for te e
    using measure_turn [OF assms(2), of te "tk\<lparr>tk_error := e, tk_attempt := Suc (tk_attempt tk)\<rparr>" st] lt [OF that]
    by (auto simp: task_failed_def split: if_splits)
  have unsettled: "task_measure p (raw_step (Some p) st ev) < task_measure p st"
    if w: "waits_for tk = Some t" and n: "\<not> om_has (rl_settled st) t" for t
  proof -
    have e: "ev = (if t \<in> set (rl_scheduled st) then RwInvoke t else RwSettle t (an_connect a))"
      using w n tk assms(3) by (cases "tk_wait tk") (auto simp: next_event_def waits_for_def)
    show ?thesis
      using promise_moves [OF assms(1) tk w n e] w tk
      by (cases "tk_wait tk") (auto simp: task_measure_def waits_for_def Let_def)
  qed
  show ?thesis
  proof (cases "tk_wait tk")
    case TkSleep
    have "ev = RwSlept (an_env a) (an_sleep a)" using TkSleep assms(3) tk by (simp add: next_event_def)
    moreover have "task_measure p st = 7 * (attempts_of p - 1 - tk_attempt tk) + 8" using TkSleep tk by (simp add: task_measure_def)
    ultimately show ?thesis
      using TkSleep tk le_less_trans [OF failed [of "an_env a" "the (an_sleep a)"]] le_less_trans [OF measure_slept [OF tk, of p]]
      by (cases "an_sleep a") (simp_all add: task_sleep_ends_def)
  next
    case (TkManual t)
    show ?thesis
    proof (cases "om_get (rl_settled st) t")
      case None
      then show ?thesis using unsettled [of t] TkManual by (simp add: waits_for_def om_has_def)
    next
      case (Some r)
      then have "ev = RwResume (an_env a)" "task_measure p st = 7 * (attempts_of p - 1 - tk_attempt tk) + 5"
        using TkManual assms(3) tk by (simp_all add: next_event_def om_has_def task_measure_def phase_rank_def)
      then show ?thesis
        using TkManual tk Some le_less_trans [OF measure_connect [of p tk st]]
          le_less_trans [OF measure_connect [of p "tk\<lparr>tk_error := the r\<rparr>" st]]
        by (cases r) (simp_all add: task_resume_def)
    qed
  next
    case (TkConnect t)
    show ?thesis
    proof (cases "om_get (rl_settled st) t")
      case None
      then show ?thesis using unsettled [of t] TkConnect by (simp add: waits_for_def om_has_def)
    next
      case (Some r)
      then have "ev = RwResume (an_env a)" "task_measure p st = 7 * (attempts_of p - 1 - tk_attempt tk) + 2"
        using TkConnect assms(3) tk by (simp_all add: next_event_def om_has_def task_measure_def phase_rank_def)
      then show ?thesis
        using TkConnect tk Some le_less_trans [OF failed [of "an_env a" "the r"]]
        by (cases r) (simp_all add: task_resume_def)
    qed
  next
    case TkOver
    then have "ev = RwNoticed" using assms(3) tk by (simp add: next_event_def)
    then show ?thesis using TkOver tk by (simp add: task_noticed_def task_measure_def)
  qed
qed

lemma drive_ends:
  assumes "raw_inv (Some p) st" and "validateTransportRetryPolicy p = None" and "task_measure p st \<le> length as"
  shows "rl_task (drive p as st) = None"
  using assms
proof (induction as arbitrary: st)
  case Nil
  then show ?case by (auto simp: task_measure_def Let_def split: option.splits task_wait.splits)
next
  case (Cons a as)
  show ?case
  proof (cases "next_event a st")
    case None
    then show ?thesis by (simp add: next_event_def split: option.splits)
  next
    case (Some ev)
    then show ?thesis
      using Cons.IH [of "raw_step (Some p) st ev"] Cons.prems drive_step [OF Cons.prems(1,2) Some] raw_inv_step [OF Cons.prems(1)]
      by simp
  qed
qed

lemma task_measure_bound:
  assumes "raw_inv (Some p) st" and "validateTransportRetryPolicy p = None"
  shows "task_measure p st \<le> 7 * attempts_of p + 1"
proof (cases "rl_task st")
  case (Some tk)
  note alive = task_alive [OF assms(1) Some]
  have "1 \<le> tk_attempt tk" "tk_wait tk = TkOver \<or> tk_attempt tk < attempts_of p"
    using alive attempts_bound [OF assms(2)] by (auto simp: in_budget_def)
  then have "tk_wait tk = TkOver \<or> 7 * (attempts_of p - 1 - tk_attempt tk) + 8 \<le> 7 * attempts_of p + 1" by linarith
  moreover have "phase_rank st t \<le> 4" "phase_rank st t \<le> 7" for t by (simp_all add: phase_rank_def)
  then have "task_measure p st \<le> (if tk_wait tk = TkOver then 1 else 7 * (attempts_of p - 1 - tk_attempt tk) + 8)"
    using Some by (cases "tk_wait tk") (simp_all add: task_measure_def add_le_mono trans_le_add2)
  ultimately show ?thesis by (auto split: if_splits)
qed (simp add: task_measure_def)

text \<open>C17: The reconnect task ends. From every reachable state, when the environment keeps answering what the task waits for
  (its sleep ends, the connect it awaits is invoked and settles, either way), the task is gone after at most seven answers
  per attempt of the policy and one more; this holds for whatever the answers are.\<close>

theorem raw_reconnect_ends:
  "if validateTransportRetryPolicy p = None \<and> 7 * attempts_of p + 1 \<le> length as
   then rl_task (drive p as (raw_run (Some p) s es)) = None else True"
  using drive_ends [OF raw_run_inv, of p s es as] task_measure_bound [OF raw_run_inv, of p s es] by (meson order_trans)

section \<open>A disposal that waits\<close>

text \<open>The task waits for a connect of the delegate while the lifecycle is disposed.\<close>

definition hung :: "nat \<Rightarrow> raw_life \<Rightarrow> bool" where
  "hung t st =
     (rl_disposed st \<and> rl_delegateDisposed st = 0 \<and> om_get (rl_settled st) t = None \<and> t < rl_tokens st
      \<and> (case rl_task st of Some tk \<Rightarrow> tk_wait tk = TkConnect t | None \<Rightarrow> False))"

definition is_settle :: "nat \<Rightarrow> raw_event \<Rightarrow> bool" where
  "is_settle t ev = (case ev of RwSettle t' _ \<Rightarrow> t' = t | _ \<Rightarrow> False)"

lemma hung_start: "hung t st \<Longrightarrow> startConnect st = (n, st') \<Longrightarrow> hung t st'"
  by (auto simp: hung_def startConnect_def Let_def om_get_set)

lemma hung_step: "hung t st \<Longrightarrow> \<not> is_settle t ev \<Longrightarrow> hung t (raw_step policy st ev)"
proof (induction policy st ev rule: raw_step.induct)
  case (1 policy st)
  obtain n st1 where s: "startConnect (st\<lparr>rl_generation := Suc (rl_generation st)\<rparr>) = (n, st1)"
    by (cases "startConnect (st\<lparr>rl_generation := Suc (rl_generation st)\<rparr>)")
  have "hung t (st\<lparr>rl_generation := Suc (rl_generation st)\<rparr>)" using 1 by (simp add: hung_def)
  then have "hung t st1" by (rule hung_start [OF _ s])
  then have "hung t (st1\<lparr>rl_manuals := x\<rparr>)" for x by (simp add: hung_def)
  then show ?case using 1 s by (simp add: raw_connect_def Let_def split: option.split)
next
  case (3 policy st n r)
  then show ?case
    by (auto simp: hung_def raw_settle_def is_settle_def publish_change_def raw_publish_def om_get_set Let_def split: sum.split)
qed (auto simp: hung_def raw_invoke_def raw_observe_def raw_delegate_def task_sleep_ends_def task_resume_def task_noticed_def
    raw_dispose_def raw_dispose_rest_def split: option.splits)

text \<open>Disposal that begins while the reconnect task awaits the delegate's connect waits for that connect: the delegate is
  not disposed until the connect settles by itself, whatever else happens.\<close>

theorem dispose_waits_for_connect:
  "if hung t (raw_dispose st) \<and> \<not> list_ex (is_settle t) es
   then rl_delegateDisposed (foldl (raw_step policy) (raw_dispose st) es) = 0 else True"
proof -
  have "hung t (foldl (raw_step policy) st' es)" if "hung t st'" "\<not> list_ex (is_settle t) es" for st'
    using that by (induction es arbitrary: st') (auto simp: hung_step)
  then show ?thesis by (simp add: hung_def split: if_splits)
qed

text \<open>It is reached: an error that may be retried, a sleep that ends, then disposal.\<close>

definition dropped_error :: unknown where
  "dropped_error = UErr (TransportError [] (plain_meta KSse PConnect ''raw'' True 1) None)"

definition still_env :: task_env where
  "still_env = \<lparr>te_startedAt = 0, te_now = 0, te_random = num 0, te_delegate = RgConnected\<rparr>"

lemma dispose_can_wait:
  "hung 0 (raw_run (Some wit_policy) RgConnected [RwDelegate still_env RgError dropped_error, RwSlept still_env None, RwInvoke 0, RwDispose])"
proof -
  have m: "getTransportErrorMetadata dropped_error = Some (plain_meta KSse PConnect ''raw'' True 1)"
    unfolding dropped_error_def by (rule TransportError_metadata) (simp add: plain_meta_ok trim_graph graph_char_def)
  have d: "computeBackoffDelay wit_policy (num 1) (num 0) None = Inr 10" by code_simp
  have b: "num_lt (num 1) (rp_maxAttempts wit_policy)" "rp_deadlineMs wit_policy = None" by code_simp+
  show ?thesis
    by (simp add: raw_run_def raw_new_def raw_delegate_def raw_reconnect_def task_turn_def task_sleep_ends_def task_slept_def
        task_connect_def startConnect_def raw_invoke_def raw_dispose_def raw_publish_def hung_def retryable_error_def
        retry_after_def plain_meta_def m d b still_env_def om_has_def Let_def)
qed

end
