(* ===== verification/Spec2Isabelle.thy ===== *)
theory Spec2Isabelle
  imports Channel JsonRpc SseTransport WebSocketTransport GatewayRpc RunWait Stores CapabilityClient HttpClient
    Teams ChatRun AgentCommands RawGateway
begin

text \<open>
  Verification of the TypeScript client library under \<open>src/src\<close>: an API client that talks to several agent
  gateways over HTTP, server-sent events and WebSockets, and puts one typed facade in front of them.

  \<^bold>\<open>The program and its theories.\<close> The library is layered, and each theory imports the layers it calls.

  \<^item> Values. \<open>Prelude\<close> has the JavaScript values (numbers, UTF-8 strings, insertion-ordered maps and sets, plain data
    values \<open>jv\<close>) and the lemma collections \<open>om_simps\<close> and \<open>str_simps\<close>; \<open>Json\<close> has \<open>core/data/guards.ts\<close> and
    \<open>JSON.parse\<close>/\<open>JSON.stringify\<close>; \<open>Utf8\<close> is the fatal \<open>TextDecoder\<close>; \<open>Redaction\<close> is \<open>core/http/redaction.ts\<close>;
    \<open>Errors\<close> is \<open>core/errors.ts\<close>, \<open>error-factories.ts\<close>, \<open>transport/error.ts\<close>, \<open>gateway/rpc/error.ts\<close>.
  \<^item> Transports, \<open>core/transport\<close> and \<open>core/sse\<close>. \<open>Framing\<close> (\<open>framing.ts\<close>: byte buffer and codecs), \<open>Backoff\<close>
    (\<open>backoff.ts\<close>, \<open>auth.ts\<close>, \<open>lifecycle.ts\<close>: retry policy and attempt loop), \<open>Channel\<close> (\<open>channel.ts\<close>), \<open>JsonRpc\<close>
    (\<open>json-rpc.ts\<close>), \<open>SseStream\<close> (\<open>sse/stream.ts\<close>), \<open>SseTransport\<close> (\<open>sse.ts\<close>), \<open>WebSocketTransport\<close>
    (\<open>websocket.ts\<close>), \<open>HttpTransport\<close> (\<open>http.ts\<close>); \<open>HttpClient\<close> is \<open>core/http/client.ts\<close> and \<open>json-client.ts\<close>.
  \<^item> The gateway's RPC client, \<open>core/gateway/rpc/client.ts\<close>: \<open>GatewayOptions\<close> (option resolution, connect frame),
    \<open>GatewayRequests\<close> (pending table, timers, call slots), \<open>GatewayRpc\<close> (the connection's state machine).
  \<^item> Runs. \<open>RunWait\<close> (\<open>contracts/run-wait.ts\<close>), \<open>Stores\<close> (\<open>synchronous-run-store.ts\<close>, \<open>snapshots/cache.ts\<close>),
    \<open>RunResults\<close> (\<open>run-results.ts\<close>, \<open>usage.ts\<close>), \<open>RunStream\<close> (\<open>run-stream.ts\<close>, the control-plane bridge and the
    trackers), \<open>RunEvents\<close> (\<open>gateway/run/sse-run-event-provider.ts\<close>, \<open>stream-failure.ts\<close>), \<open>RunCompose\<close>
    (\<open>gateway/run/event-stream.ts\<close>), \<open>ChatRun\<close> (\<open>providers/hermes/chat-run.ts\<close>).
  \<^item> The control plane. \<open>RawGateway\<close> (\<open>core/runtime/control-plane/raw-gateway.ts\<close>: connection lifecycle and reconnect task).
  \<^item> Agents. \<open>AgentConfigs\<close> (\<open>core/gateway/agent/config.ts\<close>, \<open>voice-config.ts\<close>), \<open>AgentCommands\<close> (\<open>commands.ts\<close>), over
    \<open>Sorting\<close>, the stable sort.
  \<^item> Contracts. \<open>Envelope\<close> (\<open>gateway/envelope\<close>, \<open>contracts/capability-result.ts\<close>), \<open>CapabilityClient\<close>
    (\<open>contracts/capability-client.ts\<close>: the facade), \<open>UriPath\<close> (path checks and escapes), \<open>TeamManifests\<close> and
    \<open>TeamResolve\<close> (\<open>contracts/team-manifest\<close>), \<open>Teams\<close> (\<open>core/teams\<close>, \<open>contracts/team-directory.ts\<close>,
    \<open>manifest-source.ts\<close>).

  \<^bold>\<open>State and operations.\<close> A closure's or a class's mutable variables are the fields of a \<open>record\<close>, in the code's
  order and under its names; a method, a handler or a callback is a function from that record to the next one, and
  the events of the environment (a socket's, a timer's, an abort, an answer of \<open>fetch\<close>) are the constructors of a
  \<open>datatype\<close> whose step function is the handler's body. A run is a fold of the step over a list of events, so a
  theorem about all lists speaks of every order in which the environment may call back. \<open>throw\<close> and rejection are
  \<open>Inl\<close>, with the error value the code builds. The clock, randomness, credentials, \<open>fetch\<close>, sockets, \<open>Date.parse\<close>,
  \<open>localeCompare\<close> and WebCrypto are arguments; what a theorem needs of them is a named hypothesis in it.

  \<^bold>\<open>Interfaces.\<close> Six locales carry the contracts several components share, each interpreted on the code's model.

  \<^item> \<open>chunked_decoder\<close> (\<open>Framing\<close>): a decoder fed in pieces that consumes unit after unit gives the same result for
    every cut of its input. JSON Lines, Content-Length frames and the SSE decoder are interpretations.
  \<^item> \<open>settlement\<close> (\<open>Settlement\<close>): requests are numbered, each waits or is settled, none is settled twice or lost.
    The JSON-RPC client and the gateway's requests are interpretations.
  \<^item> \<open>recency_store\<close> (\<open>Stores\<close>): bounded stores that evict the least recently used. Run store and snapshot cache.
  \<^item> \<open>normalizer\<close> (\<open>TeamManifests\<close>): a partial function with a set of normal forms it reaches and fixes. Every layer of
    a manifest is an interpretation, down to paths and up to the manifest.
  \<^item> \<open>comparison\<close> and \<open>strict_comparison\<close> (\<open>Sorting\<close>): what a sort needs of its comparison, and when the sorted list
    does not depend on the order of its input. The default string order is an interpretation; the order of a
    configuration's paths is one whenever the collation is.

  \<^bold>\<open>What the lemmas show.\<close> Values: guards, redaction and JSON round trips. Transports: any chunking gives the frames
  that were encoded, buffers stay within their limits at linear cost, attempts are bounded by the policy, ready and
  closed are reported once, no event id is delivered twice within the window. Gateway: state, socket and pending
  table agree in every reachable state, each request has one outcome, slots are bounded and given in order of
  arrival, dispose and time-outs settle what waits. Runs: every stream settles once and shows exactly the events that
  were written, polling and waiting end and report truthfully. Contracts: what a failure is classified as, that
  manifests normalise to well formed fixed points, which action, scope, binding and path a lookup selects, that names
  resolve without ambiguity and paths stay below their roots. Agents: a configuration form shows every path once and no
  sensitive one, a value written is read back and nothing else changes, commands are shown once and well formed. End to end: \<open>run_events_end_to_end\<close>,
  \<open>gateway_stream_end_to_end\<close> and \<open>chat_run_end_to_end\<close> compose several layers. Lemmas under "Corner cases" pin down
  behaviour that departs from what the code or its comments intend.

  \<^bold>\<open>Bounds and fuel.\<close> Loops over data are structural recursion or \<open>function\<close> with a measure; loops that wait are folds
  over the events that arrive, so nothing is assumed to end: that a wait or a poll ends is proved
  (\<open>run_wait_deadline_ends\<close>, \<open>run_poll_outcome\<close>, \<open>sse_attempts_bounded\<close>). Fuel occurs in three places. The
  JSON reader takes twice the length of its text plus two, and \<open>parse_fuel_enough\<close> shows that more changes nothing.
  The Content-Length decoder takes one more than the length of a chunk, since each of its steps consumes a byte,
  and its interpretation of \<open>chunked_decoder\<close> holds of the fuelled loop. A repetition of a regular expression takes
  the length of what is left, since it must consume to go on. Numbers that the code compares and adds are integers,
  naturals or rationals; byte counts and capacities are naturals with the code's limits written out, and the frame
  buffer's unsigned header is a word.

  \<^bold>\<open>Not modelled.\<close> React bindings (their state is React's), the CAVI extension and the snapshot loaders (tables of
  field readers for one application's payloads), Node transports (child processes, sockets), device identity and its
  signatures (WebCrypto, browser storage), the adapters of the other providers, the endpoint tables, and files that
  only re-export or declare interfaces. Strings are their UTF-8 bytes, so lone surrogates do not occur; a JavaScript
  getter, proxy or prototype of a value passed in is not observable here; microtask order is abstracted by quantifying
  over the order of the events.
\<close>

end
